(* ===== verification/QB_Prelude.thy ===== *)
theory QB_Prelude
  imports Main "HOL-Library.Word" "HOL-Library.Monad_Syntax"
begin

text \<open>
  Shared vocabulary of the development: the C types of the native sources
  (bytes, \<open>size_t\<close>, pointers, status codes), the convention for undefined
  behaviour, and generic facts on lists and partial maps.

  Conventions.
  \<^item> A pointer is \<open>'a option\<close>: \<open>None\<close> is \<open>NULL\<close>, \<open>Some a\<close> an address.
  \<^item> An operation that dereferences memory returns \<open>'r option\<close>: \<open>None\<close> says that
    the C code has dereferenced \<open>NULL\<close> or an address at which no object of the
    expected kind lives (undefined behaviour). A theorem that the result is
    \<open>Some\<close> is therefore a memory-safety statement.
  \<^item> A \<open>size_t\<close> is a \<open>nat\<close>; the places where the code guards against wrap-around
    compare with \<open>SIZE_MAX\<close> as the source does. Fixed-width integers that may
    wrap are words.
\<close>

type_synonym addr = nat
type_synonym byte = "8 word"
type_synonym bytes = "8 word list"

named_theorems status_simps \<open>facts on status codes\<close>
named_theorems heap_simps \<open>rewriting of heap reads after heap writes\<close>
named_theorems forest_intros \<open>introduction rules for the tree invariants\<close>

abbreviation SIZE_MAX :: nat where
  "SIZE_MAX \<equiv> 18446744073709551615"

section \<open>Status codes and walker actions (core/base.h)\<close>

datatype lxb_status =
    LXB_STATUS_OK
  | LXB_STATUS_ERROR
  | LXB_STATUS_ERROR_MEMORY_ALLOCATION
  | LXB_STATUS_ERROR_OBJECT_IS_NULL
  | LXB_STATUS_ERROR_SMALL_BUFFER
  | LXB_STATUS_ERROR_INCOMPLETE_OBJECT
  | LXB_STATUS_ERROR_NO_FREE_SLOT
  | LXB_STATUS_ERROR_TOO_SMALL_SIZE
  | LXB_STATUS_ERROR_NOT_EXISTS
  | LXB_STATUS_ERROR_WRONG_ARGS
  | LXB_STATUS_ERROR_WRONG_STAGE
  | LXB_STATUS_ERROR_UNEXPECTED_RESULT
  | LXB_STATUS_ERROR_UNEXPECTED_DATA
  | LXB_STATUS_ERROR_OVERFLOW
  | LXB_STATUS_CONTINUE
  | LXB_STATUS_SMALL_BUFFER
  | LXB_STATUS_ABORTED
  | LXB_STATUS_STOPPED
  | LXB_STATUS_NEXT
  | LXB_STATUS_STOP
  | LXB_STATUS_WARNING

datatype lexbor_action =
    LEXBOR_ACTION_OK
  | LEXBOR_ACTION_STOP
  | LEXBOR_ACTION_NEXT

section \<open>Lists seen as doubly linked segments\<close>

text \<open>
  \<open>hd_or xs d\<close> is the address a forward pointer in front of \<open>xs\<close> holds, \<open>last_or xs d\<close>
  the address a backward pointer behind \<open>xs\<close> holds; \<open>d\<close> is what lies beyond the
  segment.
\<close>

fun hd_or :: "'a list \<Rightarrow> 'a option \<Rightarrow> 'a option" where
  "hd_or [] d = d"
| "hd_or (x # xs) d = Some x"

fun last_or :: "'a list \<Rightarrow> 'a option \<Rightarrow> 'a option" where
  "last_or [] d = d"
| "last_or (x # xs) d = last_or xs (Some x)"

lemma hd_or_append [simp]: "hd_or (xs @ ys) d = hd_or xs (hd_or ys d)"
  by (cases xs) auto

lemma last_or_append [simp]: "last_or (xs @ ys) d = last_or ys (last_or xs d)"
  by (induction xs arbitrary: d) auto

lemma hd_or_None_iff [simp]: "hd_or xs None = None \<longleftrightarrow> xs = []"
  by (cases xs) auto

lemma last_or_Some_ne [simp]: "last_or xs (Some y) \<noteq> None"
  by (induction xs arbitrary: y) auto

lemma last_or_None_iff [simp]: "last_or xs None = None \<longleftrightarrow> xs = []"
  by (cases xs) auto

lemma hd_or_SomeD: "hd_or xs None = Some x \<Longrightarrow> \<exists>ys. xs = x # ys"
  by (cases xs) auto

lemma last_or_nonempty: "xs \<noteq> [] \<Longrightarrow> last_or xs d = Some (last xs)"
  by (induction xs arbitrary: d) auto

lemma last_or_SomeD: "last_or xs None = Some x \<Longrightarrow> \<exists>ys. xs = ys @ [x]"
  by (cases "xs = []") (auto simp: last_or_nonempty intro: exI [of _ "butlast xs"])

lemma hd_or_notin [simp]: "a \<notin> set xs \<Longrightarrow> hd_or xs d = Some a \<longleftrightarrow> xs = [] \<and> d = Some a"
  by (cases xs) auto

lemma last_or_notin [simp]: "a \<notin> set xs \<Longrightarrow> last_or xs d = Some a \<longleftrightarrow> xs = [] \<and> d = Some a"
  by (induction xs arbitrary: d) auto

section \<open>Partial maps\<close>

lemma map_upd_other [heap_simps]: "a \<noteq> b \<Longrightarrow> (m(a \<mapsto> v)) b = m b"
  by simp

lemma dom_upd_in: "a \<in> dom m \<Longrightarrow> dom (m(a \<mapsto> v)) = dom m"
  by auto

end
