(* ===== verification/Lexbor_Arena.thy ===== *)
theory Lexbor_Arena
  imports QB_Prelude
begin

text \<open>
  The text arena of a document (core/mraw.c, core/mraw.h) as its clients see it. The free
  lists and chunks behind it decide which address and which surplus a request gets; here
  these answers are a plan the theorems quantify over.
\<close>

section \<open>State\<close>

text \<open>
  The live blocks with their contents, whose length is what \<open>lexbor_mraw_data_size\<close> reads;
  the next unused address; and the answers to future requests. The \<open>k\<close>-th request fails
  when \<open>ar_plan k\<close> is \<open>None\<close>; for \<open>Some (e, stay)\<close> it gets a block that is \<open>e\<close> alignment
  steps longer than the aligned request (a block from the cache of freed blocks may be
  longer than asked for), and a block at the tail of its chunk is resized in place when
  \<open>stay\<close> holds. A block at the tail that does not fit its chunk any more takes the rest of the
  chunk before the new block is asked for, and keeps it when that is refused: \<open>ar_slack k\<close> is
  this rest, in alignment steps (0 for a block that is not at the tail, or alone in its chunk).
  \<open>ar_junk\<close> is the previous contents of the memory handed out. Addresses of
  freed blocks are not given out again, so that any later use of them is an error.
\<close>

record arena =
  ar_blocks :: "addr \<rightharpoonup> bytes"
  ar_fresh :: addr
  ar_reqs :: nat
  ar_plan :: "nat \<Rightarrow> (nat \<times> bool) option"
  ar_slack :: "nat \<Rightarrow> nat"
  ar_junk :: "nat \<Rightarrow> nat \<Rightarrow> byte"

text \<open>A \<open>lexbor_str_t\<close>: the address of a block, and the length in use.\<close>

record lexbor_str =
  str_data :: "addr option"
  str_length :: nat

section \<open>Operations\<close>

definition lexbor_mem_align :: "nat \<Rightarrow> nat" where
  "lexbor_mem_align sz = (if sz mod 8 \<noteq> 0 then sz + (8 - sz mod 8) else sz) mod (SIZE_MAX + 1)"

definition junk :: "arena \<Rightarrow> nat \<Rightarrow> bytes" where
  "junk A n = map (ar_junk A (ar_reqs A)) [0..<n]"

definition lexbor_mraw_alloc :: "arena \<Rightarrow> nat \<Rightarrow> addr option \<times> arena" where
  "lexbor_mraw_alloc A sz = (case ar_plan A (ar_reqs A) of
     None \<Rightarrow> (None, A\<lparr>ar_reqs := ar_reqs A + 1\<rparr>)
   | Some (e, _) \<Rightarrow> (Some (ar_fresh A),
       A\<lparr>ar_blocks := (ar_blocks A)(ar_fresh A \<mapsto> junk A (lexbor_mem_align sz + 8 * e)),
         ar_fresh := ar_fresh A + 1, ar_reqs := ar_reqs A + 1\<rparr>))"

definition lexbor_mraw_data_size :: "arena \<Rightarrow> addr option \<Rightarrow> nat option" where
  "lexbor_mraw_data_size A p = do { p \<leftarrow> p; map_option length (ar_blocks A p) }"

definition lexbor_mraw_free :: "arena \<Rightarrow> addr option \<Rightarrow> arena option" where
  "lexbor_mraw_free A p = do {
     p \<leftarrow> p;
     _ \<leftarrow> ar_blocks A p;
     Some (A\<lparr>ar_blocks := (ar_blocks A)(p := None)\<rparr>) }"

text \<open>
  Resizing a live block: in place or by moving, never losing bytes when it grows. At the tail of the
  chunk a block shrinks to the aligned size; elsewhere only when more than a header is saved.
\<close>

definition at_tail :: "arena \<Rightarrow> bool" where
  "at_tail A = (case ar_plan A (ar_reqs A) of None \<Rightarrow> False | Some (_, stay) \<Rightarrow> stay)"

definition lexbor_mraw_realloc :: "arena \<Rightarrow> addr option \<Rightarrow> nat \<Rightarrow> (addr option \<times> arena) option" where
  "lexbor_mraw_realloc A p sz = do {
     p \<leftarrow> p;
     old \<leftarrow> ar_blocks A p;
     let n = lexbor_mem_align sz;
     let A' = A\<lparr>ar_reqs := ar_reqs A + 1\<rparr>;
     (if n < length old
      then (if n = 0 then Some (None, A'\<lparr>ar_blocks := (ar_blocks A)(p := None)\<rparr>)
            else Some (Some p, A'\<lparr>ar_blocks := (ar_blocks A)(p \<mapsto>
              (if at_tail A \<or> length old - n > 8 then take n old else old))\<rparr>))
      else (case ar_plan A (ar_reqs A) of
         None \<Rightarrow> Some (None, A'\<lparr>ar_blocks := (ar_blocks A)(p \<mapsto>
           old @ junk A (min (8 * ar_slack A (ar_reqs A)) (n - length old)))\<rparr>)
       | Some (e, stay) \<Rightarrow>
          (if stay then Some (Some p, A'\<lparr>ar_blocks := (ar_blocks A)(p \<mapsto> old @ junk A (n - length old))\<rparr>)
           else Some (Some (ar_fresh A), A'\<lparr>ar_blocks := (ar_blocks A)(p := None, ar_fresh A \<mapsto>
             old @ junk A (n + 8 * e - length old)), ar_fresh := ar_fresh A + 1\<rparr>)))) }"

text \<open>Reading and writing inside a block.\<close>

definition blk_read :: "arena \<Rightarrow> addr option \<Rightarrow> nat \<Rightarrow> nat \<Rightarrow> bytes option" where
  "blk_read A p off n = (if n = 0 then Some [] else do {
     p \<leftarrow> p;
     b \<leftarrow> ar_blocks A p;
     (if off + n \<le> length b then Some (take n (drop off b)) else None) })"

definition blk_write :: "arena \<Rightarrow> addr option \<Rightarrow> nat \<Rightarrow> bytes \<Rightarrow> arena option" where
  "blk_write A p off xs = (if xs = [] then Some A else do {
     p \<leftarrow> p;
     b \<leftarrow> ar_blocks A p;
     (if off + length xs \<le> length b
      then Some (A\<lparr>ar_blocks := (ar_blocks A)(p \<mapsto> take off b @ xs @ drop (off + length xs) b)\<rparr>)
      else None) })"

section \<open>Laws\<close>

definition ar_wf :: "arena \<Rightarrow> bool" where
  "ar_wf A \<longleftrightarrow> (\<forall>p b. ar_blocks A p = Some b \<longrightarrow> p < ar_fresh A)"

lemma ar_wf_fresh: "ar_wf A \<Longrightarrow> ar_blocks A (ar_fresh A) = None"
  by (force simp: ar_wf_def)

lemma length_junk [simp]: "length (junk A n) = n"
  by (simp add: junk_def)

lemma align_ge: "n < 2 ^ 63 \<Longrightarrow> n \<le> lexbor_mem_align n \<and> lexbor_mem_align n < 2 ^ 63 + 8"
  by (auto simp: lexbor_mem_align_def)

text \<open>Growing a live block keeps its bytes and touches no other block, whether it is granted or not.\<close>

lemma mraw_realloc_grow:
  assumes wf: "ar_wf A" and b: "ar_blocks A p = Some old" and n: "length old < sz" "sz < 2 ^ 63"
  shows "\<exists>r A'. lexbor_mraw_realloc A (Some p) sz = Some (r, A') \<and> ar_wf A' \<and>
     (case r of None \<Rightarrow> \<exists>extra. ar_blocks A' = (ar_blocks A)(p \<mapsto> old @ extra)
      | Some q \<Rightarrow> (q = p \<or> ar_blocks A q = None) \<and>
         (\<exists>extra. sz \<le> length (old @ extra) \<and> ar_blocks A' = (ar_blocks A)(p := None, q \<mapsto> old @ extra)))"
proof -
  let ?n = "lexbor_mem_align sz"
  have an: "sz \<le> ?n" using align_ge n(2) by blast
  then have g: "\<not> ?n < length old" using n(1) by simp
  show ?thesis
  proof (cases "ar_plan A (ar_reqs A)")
    case None
    with b g wf show ?thesis by (auto simp: lexbor_mraw_realloc_def Let_def ar_wf_def split: if_splits)
  next
    case (Some x)
    then obtain e stay where x: "ar_plan A (ar_reqs A) = Some (e, stay)" by (cases x) auto
    show ?thesis
    proof (cases stay)
      case True
      let ?A = "A\<lparr>ar_reqs := ar_reqs A + 1, ar_blocks := (ar_blocks A)(p \<mapsto> old @ junk A (?n - length old))\<rparr>"
      have "lexbor_mraw_realloc A (Some p) sz = Some (Some p, ?A)"
        using b g x True by (simp add: lexbor_mraw_realloc_def Let_def)
      moreover have "ar_wf ?A" using wf b by (auto simp: ar_wf_def)
      moreover have "sz \<le> length (old @ junk A (?n - length old))" using an by simp
      ultimately show ?thesis
        by (intro exI [of _ "Some p"] exI [of _ ?A]) (force intro: exI [of _ "junk A (?n - length old)"])
    next
      case False
      let ?q = "ar_fresh A" and ?x = "junk A (?n + 8 * e - length old)"
      let ?A = "A\<lparr>ar_reqs := ar_reqs A + 1, ar_blocks := (ar_blocks A)(p := None, ?q \<mapsto> old @ ?x), ar_fresh := ?q + 1\<rparr>"
      have "lexbor_mraw_realloc A (Some p) sz = Some (Some ?q, ?A)"
        using b g x False by (simp add: lexbor_mraw_realloc_def Let_def)
      moreover have "ar_wf ?A" using wf by (auto simp: ar_wf_def less_Suc_eq)
      moreover have "sz \<le> length (old @ ?x)" using an by simp
      ultimately show ?thesis using ar_wf_fresh [OF wf]
        by (intro exI [of _ "Some ?q"] exI [of _ ?A]) (force intro: exI [of _ ?x])
    qed
  qed
qed

lemma mraw_alloc_cases:
  assumes wf: "ar_wf A" and n: "sz < 2 ^ 63" and r: "lexbor_mraw_alloc A sz = (q, A')"
  shows "ar_wf A' \<and> (case q of None \<Rightarrow> ar_blocks A' = ar_blocks A
     | Some p \<Rightarrow> ar_blocks A p = None \<and>
         (\<exists>b. sz \<le> length b \<and> ar_blocks A' = (ar_blocks A)(p \<mapsto> b)))"
proof -
  have an: "sz \<le> lexbor_mem_align sz" using align_ge n by blast
  show ?thesis
  proof (cases "ar_plan A (ar_reqs A)")
    case None
    with r wf show ?thesis by (auto simp: lexbor_mraw_alloc_def ar_wf_def)
  next
    case (Some x)
    obtain e stay where x: "x = (e, stay)" by force
    let ?b = "junk A (lexbor_mem_align sz + 8 * e)"
    have "sz \<le> length ?b" using an by simp
    moreover have "q = Some (ar_fresh A)" "ar_blocks A' = (ar_blocks A)(ar_fresh A \<mapsto> ?b)" "ar_fresh A' = ar_fresh A + 1"
      using r Some x by (auto simp: lexbor_mraw_alloc_def)
    moreover have "ar_wf A'" using wf calculation(3,4) by (auto simp: ar_wf_def less_Suc_eq)
    ultimately show ?thesis using ar_wf_fresh [OF wf] by (simp, intro exI [of _ ?b]) simp
  qed
qed

lemma blk_write_live:
  "ar_blocks A p = Some b \<Longrightarrow> off + length xs \<le> length b \<Longrightarrow> xs \<noteq> [] \<Longrightarrow>
   blk_write A (Some p) off xs =
     Some (A\<lparr>ar_blocks := (ar_blocks A)(p \<mapsto> take off b @ xs @ drop (off + length xs) b)\<rparr>)"
  by (simp add: blk_write_def)

lemma blk_read_live:
  "ar_blocks A p = Some b \<Longrightarrow> off + n \<le> length b \<Longrightarrow> blk_read A (Some p) off n = Some (take n (drop off b))"
  by (simp add: blk_read_def)

end
