(* ===== verification/Lexbor_Str.thy ===== *)
theory Lexbor_Str
  imports Lexbor_Arena
begin

text \<open>
  The dynamic strings of lexbor (core/str.c, core/str.h): a \<open>lexbor_str_t\<close> is a block of a
  text arena and a length, and holds a string when the block carries its characters followed
  by a NUL. Every operation is modelled on the block it reads and writes; an access outside a
  live block, or through \<open>NULL\<close>, is undefined (\<open>None\<close>). The functions on raw buffers are
  modelled on byte lists, reading past the end of a list being undefined too. The interface
  "append these bytes or fail" is the locale \<open>byte_sink\<close>.
\<close>

section \<open>Character tables (core/str_res.h)\<close>

definition lexbor_str_res_map_lowercase :: "byte \<Rightarrow> byte" where
  "lexbor_str_res_map_lowercase c = (if 0x41 \<le> c \<and> c \<le> 0x5A then c + 0x20 else c)"

definition lexbor_str_res_map_uppercase :: "byte \<Rightarrow> byte" where
  "lexbor_str_res_map_uppercase c = (if 0x61 \<le> c \<and> c \<le> 0x7A then c - 0x20 else c)"

definition lexbor_str_res_ansi_replacement_character :: bytes where
  "lexbor_str_res_ansi_replacement_character = [0xEF, 0xBF, 0xBD]"

definition lexbor_utils_whitespace :: "byte \<Rightarrow> bool" where
  "lexbor_utils_whitespace c \<longleftrightarrow> c = 0x20 \<or> c = 0x09 \<or> c = 0x0A \<or> c = 0x0C \<or> c = 0x0D"

section \<open>Strings in the arena\<close>

text \<open>A returned pointer: a block and an offset into it.\<close>

type_synonym cptr = "(addr \<times> nat) option"

definition at_off :: "addr option \<Rightarrow> nat \<Rightarrow> cptr" where
  "at_off p off = map_option (\<lambda>p. (p, off)) p"

text \<open>\<open>calloc\<close> gives a zeroed struct when it succeeds.\<close>

definition lexbor_str_create :: "bool \<Rightarrow> lexbor_str option" where
  "lexbor_str_create granted = (if granted then Some \<lparr>str_data = None, str_length = 0\<rparr> else None)"

definition lexbor_str_data_set :: "lexbor_str \<Rightarrow> addr option \<Rightarrow> lexbor_str" where
  "lexbor_str_data_set str p = str\<lparr>str_data := p\<rparr>"

definition lexbor_str_init ::
  "lexbor_str option \<Rightarrow> arena \<Rightarrow> nat \<Rightarrow> (cptr \<times> lexbor_str option \<times> arena) option" where
  "lexbor_str_init str A sz = (case str of
     None \<Rightarrow> Some (None, None, A)
   | Some s \<Rightarrow> do {
       let (p, A) = lexbor_mraw_alloc A (sz + 1);
       let s = s\<lparr>str_data := p, str_length := 0\<rparr>;
       A \<leftarrow> (if p \<noteq> None then blk_write A p 0 [0] else Some A);
       Some (at_off p 0, Some s, A) })"

definition lexbor_str_init_append ::
  "lexbor_str option \<Rightarrow> arena \<Rightarrow> bytes \<Rightarrow> (cptr \<times> lexbor_str option \<times> arena) option" where
  "lexbor_str_init_append str A data = (case str of
     None \<Rightarrow> Some (None, None, A)
   | Some s \<Rightarrow> do {
       let (p, A) = lexbor_mraw_alloc A (length data + 1);
       (if p = None then Some (None, Some s, A)
        else do {
          A \<leftarrow> blk_write A p 0 data;
          A \<leftarrow> blk_write A p (length data) [0];
          Some (at_off p 0, Some (s\<lparr>str_data := p, str_length := length data\<rparr>), A) }) })"

definition lexbor_str_clean :: "lexbor_str \<Rightarrow> lexbor_str" where
  "lexbor_str_clean str = str\<lparr>str_length := 0\<rparr>"

definition lexbor_str_clean_all :: "lexbor_str \<Rightarrow> lexbor_str" where
  "lexbor_str_clean_all str = \<lparr>str_data = None, str_length = 0\<rparr>"

text \<open>\<open>destroy_obj\<close> also frees the struct: the result is then \<open>NULL\<close>.\<close>

definition lexbor_str_destroy :: "lexbor_str option \<Rightarrow> arena \<Rightarrow> bool \<Rightarrow> (lexbor_str option \<times> arena) option" where
  "lexbor_str_destroy str A destroy_obj = (case str of
     None \<Rightarrow> Some (None, A)
   | Some s \<Rightarrow> do {
       (s, A) \<leftarrow> (if str_data s \<noteq> None then do {
           A \<leftarrow> lexbor_mraw_free A (str_data s);
           Some ((lexbor_str_clean s)\<lparr>str_data := None\<rparr>, A) }
         else Some (s, A));
       Some (if destroy_obj then None else Some s, A) })"

definition lexbor_str_size :: "lexbor_str \<Rightarrow> arena \<Rightarrow> nat option" where
  "lexbor_str_size str A = lexbor_mraw_data_size A (str_data str)"

definition lexbor_str_realloc :: "lexbor_str \<Rightarrow> arena \<Rightarrow> nat \<Rightarrow> (cptr \<times> lexbor_str \<times> arena) option" where
  "lexbor_str_realloc str A new_size = do {
     (tmp, A) \<leftarrow> lexbor_mraw_realloc A (str_data str) new_size;
     (if tmp = None then Some (None, str, A)
      else Some (at_off tmp 0, str\<lparr>str_data := tmp\<rparr>, A)) }"

definition lexbor_str_length_set :: "lexbor_str \<Rightarrow> arena \<Rightarrow> nat \<Rightarrow> (cptr \<times> lexbor_str \<times> arena) option" where
  "lexbor_str_length_set str A len = do {
     sz \<leftarrow> lexbor_str_size str A;
     (ok, str, A) \<leftarrow> (if len \<ge> sz then do {
         (tmp, str, A) \<leftarrow> lexbor_str_realloc str A (len + 1);
         Some (tmp \<noteq> None, str, A) }
       else Some (True, str, A));
     (if \<not> ok then Some (None, str, A)
      else do {
        A \<leftarrow> blk_write A (str_data str) len [0];
        Some (at_off (str_data str) 0, str\<lparr>str_length := len\<rparr>, A) }) }"

definition lexbor_str_check_size :: "lexbor_str \<Rightarrow> arena \<Rightarrow> nat \<Rightarrow> (cptr \<times> lexbor_str \<times> arena) option" where
  "lexbor_str_check_size str A plus_len =
     (if str_length str > SIZE_MAX - plus_len then Some (None, str, A)
      else do {
        sz \<leftarrow> lexbor_str_size str A;
        (if str_length str + plus_len \<le> sz then Some (at_off (str_data str) 0, str, A)
         else lexbor_str_realloc str A (str_length str + plus_len)) })"

text \<open>The macro \<open>lexbor_str_check_size_arg_m\<close>; the flag says that the caller goes on.\<close>

definition lexbor_str_check_size_arg :: "lexbor_str \<Rightarrow> arena \<Rightarrow> nat \<Rightarrow> (bool \<times> lexbor_str \<times> arena) option" where
  "lexbor_str_check_size_arg str A plus_len =
     (if str_length str > SIZE_MAX - plus_len then Some (False, str, A)
      else do {
        sz \<leftarrow> lexbor_str_size str A;
        (if str_length str + plus_len > sz then do {
           (tmp, A) \<leftarrow> lexbor_mraw_realloc A (str_data str) (str_length str + plus_len);
           (if tmp = None then Some (False, str, A) else Some (True, str\<lparr>str_data := tmp\<rparr>, A)) }
         else Some (True, str, A)) })"

definition lexbor_str_append :: "lexbor_str \<Rightarrow> arena \<Rightarrow> bytes \<Rightarrow> (cptr \<times> lexbor_str \<times> arena) option" where
  "lexbor_str_append str A buff =
     (if length buff = 0 then Some (at_off (str_data str) 0, str, A)
      else do {
        (ok, str, A) \<leftarrow> lexbor_str_check_size_arg str A (length buff + 1);
        (if \<not> ok then Some (None, str, A)
         else do {
           let data_begin = at_off (str_data str) (str_length str);
           A \<leftarrow> blk_write A (str_data str) (str_length str) buff;
           let str = str\<lparr>str_length := str_length str + length buff\<rparr>;
           A \<leftarrow> blk_write A (str_data str) (str_length str) [0];
           Some (data_begin, str, A) }) })"

definition lexbor_str_append_before :: "lexbor_str \<Rightarrow> arena \<Rightarrow> bytes \<Rightarrow> (cptr \<times> lexbor_str \<times> arena) option" where
  "lexbor_str_append_before str A buff = do {
     (ok, str, A) \<leftarrow> lexbor_str_check_size_arg str A (length buff + 1);
     (if \<not> ok then Some (None, str, A)
      else do {
        let data_begin = at_off (str_data str) (str_length str);
        old \<leftarrow> blk_read A (str_data str) 0 (str_length str);
        A \<leftarrow> blk_write A (str_data str) (length buff) old;
        A \<leftarrow> blk_write A (str_data str) 0 buff;
        let str = str\<lparr>str_length := str_length str + length buff\<rparr>;
        A \<leftarrow> blk_write A (str_data str) (str_length str) [0];
        Some (data_begin, str, A) }) }"

definition lexbor_str_append_one :: "lexbor_str \<Rightarrow> arena \<Rightarrow> byte \<Rightarrow> (cptr \<times> lexbor_str \<times> arena) option" where
  "lexbor_str_append_one str A data = do {
     (ok, str, A) \<leftarrow> lexbor_str_check_size_arg str A 2;
     (if \<not> ok then Some (None, str, A)
      else do {
        A \<leftarrow> blk_write A (str_data str) (str_length str) [data];
        let str = str\<lparr>str_length := str_length str + 1\<rparr>;
        A \<leftarrow> blk_write A (str_data str) (str_length str) [0];
        Some (at_off (str_data str) (str_length str - 1), str, A) }) }"

definition lexbor_str_append_lowercase :: "lexbor_str \<Rightarrow> arena \<Rightarrow> bytes \<Rightarrow> (cptr \<times> lexbor_str \<times> arena) option" where
  "lexbor_str_append_lowercase str A data = do {
     (ok, str, A) \<leftarrow> lexbor_str_check_size_arg str A (length data + 1);
     (if \<not> ok then Some (None, str, A)
      else do {
        let data_begin = at_off (str_data str) (str_length str);
        A \<leftarrow> blk_write A (str_data str) (str_length str) (map lexbor_str_res_map_lowercase data);
        A \<leftarrow> blk_write A (str_data str) (str_length str + length data) [0];
        Some (data_begin, str\<lparr>str_length := str_length str + length data\<rparr>, A) }) }"

text \<open>The loop over the NUL characters: \<open>memchr\<close> splits the rest of the buffer at the next one.\<close>

function rep_null_loop :: "lexbor_str \<Rightarrow> arena \<Rightarrow> bytes \<Rightarrow> (bool \<times> lexbor_str \<times> arena) option" where
  "rep_null_loop str A buff =
     (if 0 \<notin> set buff
      then (if buff = [] then Some (True, str, A)
        else do {
          (res, str, A) \<leftarrow> lexbor_str_append str A buff;
          Some (res \<noteq> None, str, A) })
      else do {
        (res, str, A) \<leftarrow> lexbor_str_append str A (takeWhile (\<lambda>c. c \<noteq> 0) buff);
        (if res = None then Some (False, str, A)
         else do {
           (res, str, A) \<leftarrow> lexbor_str_append str A lexbor_str_res_ansi_replacement_character;
           (if res = None then Some (False, str, A)
            else rep_null_loop str A (tl (dropWhile (\<lambda>c. c \<noteq> 0) buff))) }) })"
  by auto
termination
proof (relation "measure (\<lambda>(str, A, buff). length buff)")
  fix buff :: bytes
  assume "\<not> 0 \<notin> set buff"
  then have "dropWhile (\<lambda>c. c \<noteq> 0) buff \<noteq> []" by auto
  then have "length (tl (dropWhile (\<lambda>c. c \<noteq> 0) buff)) < length (dropWhile (\<lambda>c. c \<noteq> 0) buff)" by simp
  also have "\<dots> \<le> length buff" by (rule length_dropWhile_le)
  finally show "((str', A', tl (dropWhile (\<lambda>c. c \<noteq> 0) buff)), (str, A, buff)) \<in> measure (\<lambda>(str, A, buff). length buff)"
    for str str' :: lexbor_str and A A' :: arena by simp
qed simp

declare rep_null_loop.simps [simp del]

definition lexbor_str_append_with_rep_null_chars ::
  "lexbor_str \<Rightarrow> arena \<Rightarrow> bytes \<Rightarrow> (cptr \<times> lexbor_str \<times> arena) option" where
  "lexbor_str_append_with_rep_null_chars str A buff = do {
     let current_len = str_length str;
     (ok, str, A) \<leftarrow> lexbor_str_check_size_arg str A (length buff + 1);
     (if \<not> ok then Some (None, str, A)
      else do {
        (ok, str, A) \<leftarrow> rep_null_loop str A buff;
        Some (if ok then at_off (str_data str) current_len else None, str, A) }) }"

definition lexbor_str_copy :: "lexbor_str \<Rightarrow> lexbor_str \<Rightarrow> arena \<Rightarrow> (cptr \<times> lexbor_str \<times> arena) option" where
  "lexbor_str_copy dest target A =
     (if str_data target = None then Some (None, dest, A)
      else do {
        (dest, A) \<leftarrow> (if str_data dest = None then do {
            (_, d, A) \<leftarrow> lexbor_str_init (Some dest) A (str_length target);
            Some (the d, A) }
          else Some (dest, A));
        (if str_data dest = None then Some (None, dest, A)
         else do {
           data \<leftarrow> blk_read A (str_data target) 0 (str_length target);
           lexbor_str_append dest A data }) })"

definition lexbor_str_copy_to :: "lexbor_str \<Rightarrow> arena \<Rightarrow> bytes \<Rightarrow> (cptr \<times> lexbor_str \<times> arena) option" where
  "lexbor_str_copy_to str A buff = do {
     let data_begin = at_off (str_data str) (str_length str);
     A \<leftarrow> blk_write A (str_data str) (str_length str) buff;
     Some (data_begin, str\<lparr>str_length := str_length str + length buff\<rparr>, A) }"

definition lexbor_str_copy_to_with_null :: "lexbor_str \<Rightarrow> arena \<Rightarrow> bytes \<Rightarrow> (cptr \<times> lexbor_str \<times> arena) option" where
  "lexbor_str_copy_to_with_null str A buff = do {
     (data_begin, str, A) \<leftarrow> lexbor_str_copy_to str A buff;
     A \<leftarrow> blk_write A (str_data str) (str_length str) [0];
     Some (data_begin, str, A) }"

section \<open>White space\<close>

text \<open>Working on the first \<open>n\<close> bytes of a block in place; nothing is touched when \<open>n\<close> is 0.\<close>

definition on_block :: "arena \<Rightarrow> addr option \<Rightarrow> nat \<Rightarrow> (bytes \<Rightarrow> bytes \<times> 'r) \<Rightarrow> ('r \<times> arena) option" where
  "on_block A p n f = (if n = 0 then Some (snd (f []), A) else do {
     p \<leftarrow> p;
     b \<leftarrow> ar_blocks A p;
     (if n \<le> length b
      then let (b', r) = f b in Some (r, A\<lparr>ar_blocks := (ar_blocks A)(p \<mapsto> b')\<rparr>)
      else None) })"

function stay_only_loop :: "bytes \<Rightarrow> nat \<Rightarrow> nat \<Rightarrow> nat \<Rightarrow> bytes \<times> nat" where
  "stay_only_loop data i len pos =
     (if i < len
      then if lexbor_utils_whitespace (data ! i) then stay_only_loop (data[pos := data ! i]) (i + 1) len (pos + 1)
           else stay_only_loop data (i + 1) len pos
      else (data, pos))"
  by auto
termination by (relation "measure (\<lambda>(data, i, len, pos). len - i)") auto

definition lexbor_str_stay_only_whitespace :: "lexbor_str \<Rightarrow> arena \<Rightarrow> (lexbor_str \<times> arena) option" where
  "lexbor_str_stay_only_whitespace target A = do {
     (pos, A) \<leftarrow> on_block A (str_data target) (str_length target)
       (\<lambda>data. stay_only_loop data 0 (str_length target) 0);
     Some (target\<lparr>str_length := pos\<rparr>, A) }"

function collapse_loop :: "bytes \<Rightarrow> nat \<Rightarrow> nat \<Rightarrow> nat \<Rightarrow> nat \<Rightarrow> bytes \<times> nat" where
  "collapse_loop data i len offset ws_i =
     (if i < len
      then if lexbor_utils_whitespace (data ! i)
        then (if data ! ws_i \<noteq> 0x20 then collapse_loop (data[offset := 0x20]) (i + 1) len (offset + 1) offset
              else collapse_loop data (i + 1) len offset ws_i)
        else collapse_loop (data[offset := data ! i]) (i + 1) len (offset + 1)
               (if data ! ws_i = 0x20 then offset else ws_i)
      else (data, offset))"
  by auto
termination by (relation "measure (\<lambda>(data, i, len, offset, ws_i). len - i)") auto

definition strip_collapse :: "bytes \<Rightarrow> nat \<Rightarrow> bytes \<times> nat" where
  "strip_collapse data len =
     (let data = (if lexbor_utils_whitespace (data ! 0) then data[0 := 0x20] else data);
          (data, offset) = collapse_loop data 0 len 0 0 in
      if offset \<noteq> len
      then let offset = (if offset \<noteq> 0 then if data ! (offset - 1) = 0x20 then offset - 1 else offset else offset) in
        (data[offset := 0x00], offset)
      else (data, len))"

definition lexbor_str_strip_collapse_whitespace :: "lexbor_str \<Rightarrow> arena \<Rightarrow> (lexbor_str \<times> arena) option" where
  "lexbor_str_strip_collapse_whitespace target A =
     (if str_length target = 0 then Some (target, A)
      else do {
        (len, A) \<leftarrow> on_block A (str_data target) (str_length target) (\<lambda>data. strip_collapse data (str_length target));
        Some (target\<lparr>str_length := len\<rparr>, A) })"

text \<open>The common scan for the first character that is not white space.\<close>

function ws_begin_loop :: "bytes \<Rightarrow> nat \<Rightarrow> nat \<Rightarrow> nat" where
  "ws_begin_loop data i len =
     (if i < len then if \<not> lexbor_utils_whitespace (data ! i) then i else ws_begin_loop data (i + 1) len else i)"
  by auto
termination by (relation "measure (\<lambda>(data, i, len). len - i)") auto

declare stay_only_loop.simps [simp del] collapse_loop.simps [simp del] ws_begin_loop.simps [simp del]

definition lexbor_str_crop_whitespace_from_begin :: "lexbor_str \<Rightarrow> arena \<Rightarrow> (nat \<times> lexbor_str \<times> arena) option" where
  "lexbor_str_crop_whitespace_from_begin target A = do {
     (i, A) \<leftarrow> on_block A (str_data target) (str_length target) (\<lambda>data.
       let i = ws_begin_loop data 0 (str_length target) in
       (if i \<noteq> 0 \<and> i \<noteq> str_length target
        then take (str_length target - i) (drop i data) @ drop (str_length target - i) data else data, i));
     Some (i, target\<lparr>str_length := str_length target - i\<rparr>, A) }"

definition lexbor_str_whitespace_from_begin :: "lexbor_str \<Rightarrow> arena \<Rightarrow> nat option" where
  "lexbor_str_whitespace_from_begin target A =
     map_option fst (on_block A (str_data target) (str_length target)
       (\<lambda>data. (data, ws_begin_loop data 0 (str_length target))))"

fun ws_end_loop :: "bytes \<Rightarrow> nat \<Rightarrow> nat \<Rightarrow> nat" where
  "ws_end_loop data 0 len = 0"
| "ws_end_loop data (Suc i) len =
     (if \<not> lexbor_utils_whitespace (data ! i) then len - (i + 1) else ws_end_loop data i len)"

definition lexbor_str_whitespace_from_end :: "lexbor_str \<Rightarrow> arena \<Rightarrow> nat option" where
  "lexbor_str_whitespace_from_end target A =
     map_option fst (on_block A (str_data target) (str_length target)
       (\<lambda>data. (data, ws_end_loop data (str_length target) (str_length target))))"

section \<open>Buffers\<close>

definition rd :: "bytes \<Rightarrow> nat \<Rightarrow> byte option" where
  "rd xs i = (if i < length xs then Some (xs ! i) else None)"

text \<open>Comparing up to the end of \<open>first\<close>; the result is an offset into \<open>first\<close>, or \<open>NULL\<close>.\<close>

function ncasecmp_first_loop :: "bytes \<Rightarrow> bytes \<Rightarrow> nat \<Rightarrow> nat \<Rightarrow> nat option option" where
  "ncasecmp_first_loop first sec i sec_size =
     (if i < sec_size then do {
        a \<leftarrow> rd first i;
        (if a = 0 then Some (Some i)
         else do {
           b \<leftarrow> rd sec i;
           (if lexbor_str_res_map_lowercase a \<noteq> lexbor_str_res_map_lowercase b then Some None
            else ncasecmp_first_loop first sec (i + 1) sec_size) }) }
      else Some (Some i))"
  by auto
termination by (relation "measure (\<lambda>(first, sec, i, sec_size). sec_size - i)") auto

declare ncasecmp_first_loop.simps [simp del]

definition lexbor_str_data_ncasecmp_first :: "bytes \<Rightarrow> bytes \<Rightarrow> nat \<Rightarrow> nat option option" where
  "lexbor_str_data_ncasecmp_first first sec sec_size = ncasecmp_first_loop first sec 0 sec_size"

text \<open>The forward and the backward comparison loops.\<close>

fun cmp_loop :: "(byte \<Rightarrow> byte) \<Rightarrow> (byte \<Rightarrow> byte) \<Rightarrow> bytes \<Rightarrow> bytes \<Rightarrow> nat \<Rightarrow> bool option" where
  "cmp_loop f g xs ys 0 = Some True"
| "cmp_loop f g (x # xs) (y # ys) (Suc n) = (if f x \<noteq> g y then Some False else cmp_loop f g xs ys n)"
| "cmp_loop f g _ _ (Suc n) = None"

fun cmp_end_loop :: "(byte \<Rightarrow> byte) \<Rightarrow> bytes \<Rightarrow> bytes \<Rightarrow> nat \<Rightarrow> bool option" where
  "cmp_end_loop f first sec 0 = Some True"
| "cmp_end_loop f first sec (Suc n) = do {
     a \<leftarrow> rd first n;
     b \<leftarrow> rd sec n;
     (if f a \<noteq> f b then Some False else cmp_end_loop f first sec n) }"

definition lexbor_str_data_ncasecmp :: "bytes \<Rightarrow> bytes \<Rightarrow> nat \<Rightarrow> bool option" where
  "lexbor_str_data_ncasecmp first sec n = cmp_loop lexbor_str_res_map_lowercase lexbor_str_res_map_lowercase first sec n"

definition lexbor_str_data_nlocmp_right :: "bytes \<Rightarrow> bytes \<Rightarrow> nat \<Rightarrow> bool option" where
  "lexbor_str_data_nlocmp_right first sec n = cmp_loop (\<lambda>c. c) lexbor_str_res_map_lowercase first sec n"

definition lexbor_str_data_nupcmp_right :: "bytes \<Rightarrow> bytes \<Rightarrow> nat \<Rightarrow> bool option" where
  "lexbor_str_data_nupcmp_right first sec n = cmp_loop (\<lambda>c. c) lexbor_str_res_map_uppercase first sec n"

definition lexbor_str_data_ncasecmp_end :: "bytes \<Rightarrow> bytes \<Rightarrow> nat \<Rightarrow> bool option" where
  "lexbor_str_data_ncasecmp_end first sec n = cmp_end_loop lexbor_str_res_map_lowercase first sec n"

definition lexbor_str_data_ncmp_end :: "bytes \<Rightarrow> bytes \<Rightarrow> nat \<Rightarrow> bool option" where
  "lexbor_str_data_ncmp_end first sec n = cmp_end_loop (\<lambda>c. c) first sec n"

definition memcmp_eq :: "bytes \<Rightarrow> bytes \<Rightarrow> nat \<Rightarrow> bool option" where
  "memcmp_eq a b n = (if n \<le> length a \<and> n \<le> length b then Some (take n a = take n b) else None)"

definition lexbor_str_data_ncmp :: "bytes \<Rightarrow> bytes \<Rightarrow> nat \<Rightarrow> bool option" where
  "lexbor_str_data_ncmp first sec n = memcmp_eq first sec n"

text \<open>
  Searching: \<open>what_size <= (where_size - i)\<close> is a comparison of \<open>size_t\<close>, and the loop may only
  end because a comparison succeeds.
\<close>

partial_function (option) contain_loop ::
  "(bytes \<Rightarrow> bytes \<Rightarrow> nat \<Rightarrow> bool option) \<Rightarrow> bytes \<Rightarrow> nat \<Rightarrow> bytes \<Rightarrow> nat \<Rightarrow> nat \<Rightarrow> bool option" where
  [code]: "contain_loop cmp whr where_size what what_size i =
     (if what_size \<le> (where_size + (SIZE_MAX + 1) - i) mod (SIZE_MAX + 1) then do {
        hit \<leftarrow> cmp (drop i whr) what what_size;
        (if hit then Some True else contain_loop cmp whr where_size what what_size ((i + 1) mod (SIZE_MAX + 1))) }
      else Some False)"

definition lexbor_str_data_ncasecmp_contain :: "bytes \<Rightarrow> nat \<Rightarrow> bytes \<Rightarrow> nat \<Rightarrow> bool option" where
  "lexbor_str_data_ncasecmp_contain whr where_size what what_size =
     contain_loop lexbor_str_data_ncasecmp whr where_size what what_size 0"

definition lexbor_str_data_ncmp_contain :: "bytes \<Rightarrow> nat \<Rightarrow> bytes \<Rightarrow> nat \<Rightarrow> bool option" where
  "lexbor_str_data_ncmp_contain whr where_size what what_size =
     contain_loop memcmp_eq whr where_size what what_size 0"

text \<open>NUL-terminated buffers.\<close>

fun lexbor_str_data_casecmp :: "bytes \<Rightarrow> bytes \<Rightarrow> bool option" where
  "lexbor_str_data_casecmp (x # xs) (y # ys) =
     (if lexbor_str_res_map_lowercase x \<noteq> lexbor_str_res_map_lowercase y then Some False
      else if x = 0 then Some True else lexbor_str_data_casecmp xs ys)"
| "lexbor_str_data_casecmp _ _ = None"

fun lexbor_str_data_cmp :: "bytes \<Rightarrow> bytes \<Rightarrow> bool option" where
  "lexbor_str_data_cmp (x # xs) (y # ys) =
     (if x \<noteq> y then Some False else if x = 0 then Some True else lexbor_str_data_cmp xs ys)"
| "lexbor_str_data_cmp _ _ = None"

fun lexbor_str_data_cmp_ws :: "bytes \<Rightarrow> bytes \<Rightarrow> bool option" where
  "lexbor_str_data_cmp_ws (x # xs) (y # ys) =
     (if x \<noteq> y then Some False
      else if lexbor_utils_whitespace x \<or> x = 0 then Some True else lexbor_str_data_cmp_ws xs ys)"
| "lexbor_str_data_cmp_ws _ _ = None"

text \<open>Converting \<open>len\<close> bytes of \<open>from\<close> into \<open>to\<close>, from the end.\<close>

fun to_case_loop :: "(byte \<Rightarrow> byte) \<Rightarrow> bytes \<Rightarrow> bytes \<Rightarrow> nat \<Rightarrow> bytes option" where
  "to_case_loop f to from 0 = Some to"
| "to_case_loop f to from (Suc n) = do {
     c \<leftarrow> rd from n;
     (if n < length to then to_case_loop f (to[n := f c]) from n else None) }"

definition lexbor_str_data_to_lowercase :: "bytes \<Rightarrow> bytes \<Rightarrow> nat \<Rightarrow> bytes option" where
  "lexbor_str_data_to_lowercase to from len = to_case_loop lexbor_str_res_map_lowercase to from len"

definition lexbor_str_data_to_uppercase :: "bytes \<Rightarrow> bytes \<Rightarrow> nat \<Rightarrow> bytes option" where
  "lexbor_str_data_to_uppercase to from len = to_case_loop lexbor_str_res_map_uppercase to from len"

fun find_case_loop :: "(byte \<Rightarrow> byte) \<Rightarrow> bytes \<Rightarrow> nat \<Rightarrow> nat option option" where
  "find_case_loop f data 0 = Some None"
| "find_case_loop f data (Suc n) = do {
     c \<leftarrow> rd data n;
     (if c = f c then Some (Some n) else find_case_loop f data n) }"

definition lexbor_str_data_find_lowercase :: "bytes \<Rightarrow> nat \<Rightarrow> nat option option" where
  "lexbor_str_data_find_lowercase data len = find_case_loop lexbor_str_res_map_lowercase data len"

definition lexbor_str_data_find_uppercase :: "bytes \<Rightarrow> nat \<Rightarrow> nat option option" where
  "lexbor_str_data_find_uppercase data len = find_case_loop lexbor_str_res_map_uppercase data len"

section \<open>What a string holds\<close>

text \<open>
  \<open>str_is A s cs\<close>: the characters \<open>cs\<close>, then a NUL, inside the block of \<open>s\<close>. \<open>str_step\<close>: an operation
  on \<open>s\<close> has replaced its block (perhaps moving it) and touched no other.
\<close>

definition str_is :: "arena \<Rightarrow> lexbor_str \<Rightarrow> bytes \<Rightarrow> bool" where
  "str_is A s cs \<longleftrightarrow> (\<exists>p rest. str_data s = Some p \<and> ar_blocks A p = Some (cs @ 0 # rest) \<and> str_length s = length cs)"

definition str_step :: "arena \<Rightarrow> lexbor_str \<Rightarrow> arena \<Rightarrow> lexbor_str \<Rightarrow> bool" where
  "str_step A s A' s' \<longleftrightarrow> ar_wf A' \<and> (\<exists>p q b. str_data s = Some p \<and> str_data s' = Some q \<and>
     (q = p \<or> ar_blocks A q = None) \<and> ar_blocks A' = (ar_blocks A)(p := None, q \<mapsto> b))"

lemma str_isI [intro]:
  "str_data s = Some p \<Longrightarrow> ar_blocks A p = Some (cs @ 0 # rest) \<Longrightarrow> str_length s = length cs \<Longrightarrow> str_is A s cs"
  by (auto simp: str_is_def)

lemma str_step_trans:
  assumes "str_step A s A1 s1" and "str_step A1 s1 A2 s2"
  shows "str_step A s A2 s2"
proof -
  from assms(1) obtain p q b where 1: "str_data s = Some p" "str_data s1 = Some q" "q = p \<or> ar_blocks A q = None"
    "ar_blocks A1 = (ar_blocks A)(p := None, q \<mapsto> b)" by (auto simp: str_step_def)
  from assms(2) 1 obtain r c where 2: "str_data s2 = Some r" "r = q \<or> ar_blocks A1 r = None" "ar_wf A2"
    "ar_blocks A2 = (ar_blocks A1)(q := None, r \<mapsto> c)" by (auto simp: str_step_def)
  have "r = p \<or> ar_blocks A r = None" using 1 2(2) by (auto split: if_splits)
  moreover have "ar_blocks A2 = (ar_blocks A)(p := None, r \<mapsto> c)"
    using 1 2 by (auto simp: fun_eq_iff split: if_splits)
  ultimately show ?thesis using 1(1) 2(1,3) by (auto simp: str_step_def)
qed

lemma str_step_other:
  "str_step A s A' s' \<Longrightarrow> str_data s \<noteq> Some r \<Longrightarrow> ar_blocks A r = Some b \<Longrightarrow>
     ar_blocks A' r = Some b \<and> str_data s' \<noteq> Some r"
  by (auto simp: str_step_def)

lemma str_step_write:
  assumes "ar_wf A" and "str_data s = Some p" and "ar_blocks A p = Some b" and "str_data s' = Some p"
    and "A' = A\<lparr>ar_blocks := (ar_blocks A)(p \<mapsto> c)\<rparr>"
  shows "str_step A s A' s'"
  using assms by (auto simp: str_step_def ar_wf_def)

lemma str_step_refl: "ar_wf A \<Longrightarrow> str_data s = Some p \<Longrightarrow> ar_blocks A p = Some b \<Longrightarrow> str_step A s A s"
  by (auto simp: str_step_def fun_upd_idem_iff intro!: exI [of _ b])

text \<open>Making room: the characters stay, and there is space for \<open>k\<close> more bytes.\<close>

lemma check_size_arg:
  assumes wf: "ar_wf A" and s: "str_is A s cs" and n: "length cs + k < 2 ^ 63"
  shows "\<exists>ok s' A'. lexbor_str_check_size_arg s A k = Some (ok, s', A') \<and>
     (if ok then str_step A s A' s' \<and> str_is A' s' cs \<and> str_length s' = length cs \<and>
        (\<exists>p b. str_data s' = Some p \<and> ar_blocks A' p = Some (cs @ b) \<and> k \<le> length b)
      else s' = s \<and> str_step A s A' s \<and> str_is A' s cs)"
proof -
  from s obtain p rest where p: "str_data s = Some p" "ar_blocks A p = Some (cs @ 0 # rest)" "str_length s = length cs"
    by (auto simp: str_is_def)
  have max: "\<not> length cs > SIZE_MAX - k" using n by simp
  show ?thesis
  proof (cases "length cs + k > length (cs @ 0 # rest)")
    case False
    have "str_step A s A s" using wf p by (intro str_step_refl) auto
    moreover have "lexbor_str_check_size_arg s A k = Some (True, s, A)"
      using False max p by (simp add: lexbor_str_check_size_arg_def lexbor_str_size_def lexbor_mraw_data_size_def)
    moreover have "k \<le> length (0 # rest)" using False by simp
    ultimately show ?thesis using p s by auto
  next
    case True
    from mraw_realloc_grow [OF wf p(2) True n] obtain r A' where
      r: "lexbor_mraw_realloc A (Some p) (length cs + k) = Some (r, A')" "ar_wf A'"
      "case r of None \<Rightarrow> \<exists>extra. ar_blocks A' = (ar_blocks A)(p \<mapsto> (cs @ 0 # rest) @ extra)
      | Some q \<Rightarrow> (q = p \<or> ar_blocks A q = None) \<and>
         (\<exists>extra. length cs + k \<le> length ((cs @ 0 # rest) @ extra) \<and>
            ar_blocks A' = (ar_blocks A)(p := None, q \<mapsto> (cs @ 0 # rest) @ extra))" by blast
    have run: "lexbor_str_check_size_arg s A k =
        (if r = None then Some (False, s, A') else Some (True, s\<lparr>str_data := r\<rparr>, A'))"
      using True max p r(1) by (simp add: lexbor_str_check_size_arg_def lexbor_str_size_def lexbor_mraw_data_size_def)
    show ?thesis
    proof (cases r)
      case None
      with r(3) obtain extra where x: "ar_blocks A' = (ar_blocks A)(p \<mapsto> (cs @ 0 # rest) @ extra)" by auto
      have "str_step A s A' s" using p(1,2) r(2) x by (auto simp: str_step_def)
      moreover have "str_is A' s cs" using p(1,3) x by (intro str_isI [of _ p _ _ "rest @ extra"]) auto
      ultimately show ?thesis using run None by (intro exI [of _ False]) simp
    next
      case (Some q)
      with r(3) obtain extra where q: "q = p \<or> ar_blocks A q = None" "length cs + k \<le> length ((cs @ 0 # rest) @ extra)"
        "ar_blocks A' = (ar_blocks A)(p := None, q \<mapsto> (cs @ 0 # rest) @ extra)" by auto
      have "str_step A s A' (s\<lparr>str_data := Some q\<rparr>)" using p(1) q r(2) by (auto simp: str_step_def)
      moreover have "ar_blocks A' q = Some (cs @ 0 # rest @ extra)" "k \<le> length (0 # rest @ extra)" using q by auto
      moreover from this have "str_is A' (s\<lparr>str_data := Some q\<rparr>) cs" using p(3) by (intro str_isI) auto
      ultimately show ?thesis using run Some p(3) by (intro exI [of _ True]) auto
    qed
  qed
qed

lemma write_behind:
  assumes "ar_blocks A p = Some (cs @ b)" and "length xs < length b"
  shows "\<exists>A1 A2 rest. blk_write A (Some p) (length cs) xs = Some A1 \<and>
     blk_write A1 (Some p) (length cs + length xs) [0] = Some A2 \<and>
     A2 = A\<lparr>ar_blocks := (ar_blocks A)(p \<mapsto> cs @ xs @ 0 # rest)\<rparr>"
proof -
  let ?A1 = "A\<lparr>ar_blocks := (ar_blocks A)(p \<mapsto> cs @ xs @ drop (length xs) b)\<rparr>"
  obtain c rest where d: "drop (length xs) b = c # rest" using assms(2) by (cases "drop (length xs) b") auto
  then have r: "drop (Suc (length xs)) b = rest" by (metis drop_Suc tl_drop list.sel(3))
  have "blk_write A (Some p) (length cs) xs = Some ?A1"
  proof (cases "xs = []")
    case True
    have "?A1 = A" using assms(1) True by (auto intro!: arena.equality simp: fun_upd_idem)
    then show ?thesis using True by (simp add: blk_write_def)
  qed (use assms in \<open>simp add: blk_write_def\<close>)
  moreover have "blk_write ?A1 (Some p) (length cs + length xs) [0] =
      Some (A\<lparr>ar_blocks := (ar_blocks A)(p \<mapsto> cs @ xs @ 0 # rest)\<rparr>)"
    using assms d by (simp add: blk_write_def)
  ultimately show ?thesis by blast
qed

section \<open>Appending\<close>

lemma str_append_is:
  assumes wf: "ar_wf A" and s: "str_is A s cs" and n: "length cs + length xs + 1 < 2 ^ 63"
  shows "\<exists>r s' A'. lexbor_str_append s A xs = Some (r, s', A') \<and>
     (r \<noteq> None \<and> str_step A s A' s' \<and> str_is A' s' (cs @ xs) \<or>
      r = None \<and> s' = s \<and> str_step A s A' s \<and> str_is A' s cs)"
proof (cases "xs = []")
  case True
  from s obtain p rest where p: "str_data s = Some p" "ar_blocks A p = Some (cs @ 0 # rest)" by (auto simp: str_is_def)
  have "str_step A s A s" using wf p by (intro str_step_refl) auto
  with True s p show ?thesis by (simp add: lexbor_str_append_def at_off_def)
next
  case False
  from check_size_arg [OF wf s, of "length xs + 1"] n obtain ok s1 A1 where
    c: "lexbor_str_check_size_arg s A (length xs + 1) = Some (ok, s1, A1)"
    "if ok then str_step A s A1 s1 \<and> str_is A1 s1 cs \<and> str_length s1 = length cs \<and>
        (\<exists>p b. str_data s1 = Some p \<and> ar_blocks A1 p = Some (cs @ b) \<and> length xs + 1 \<le> length b)
      else s1 = s \<and> str_step A s A1 s \<and> str_is A1 s cs" by auto
  show ?thesis
  proof (cases ok)
    case False
    with c \<open>xs \<noteq> []\<close> show ?thesis by (simp add: lexbor_str_append_def)
  next
    case True
    with c obtain p b where p: "str_data s1 = Some p" "ar_blocks A1 p = Some (cs @ b)" "length xs < length b"
      and s1: "str_step A s A1 s1" "str_length s1 = length cs" by auto
    from write_behind [OF p(2,3)] obtain A2 A3 rest where
      w: "blk_write A1 (Some p) (length cs) xs = Some A2" "blk_write A2 (Some p) (length cs + length xs) [0] = Some A3"
      "A3 = A1\<lparr>ar_blocks := (ar_blocks A1)(p \<mapsto> cs @ xs @ 0 # rest)\<rparr>" by blast
    let ?s = "s1\<lparr>str_length := length cs + length xs\<rparr>"
    have "ar_wf A1" using s1(1) by (simp add: str_step_def)
    then have "str_step A1 s1 A3 ?s" using p w(3) by (intro str_step_write [of A1 s1 p]) auto
    with s1(1) have "str_step A s A3 ?s" by (rule str_step_trans)
    moreover have "str_is A3 ?s (cs @ xs)" using p w(3) by (intro str_isI [of _ p _ _ rest]) auto
    moreover have "lexbor_str_append s A xs = Some (at_off (Some p) (length cs), ?s, A3)"
      using c(1) True \<open>xs \<noteq> []\<close> p s1 w by (simp add: lexbor_str_append_def Let_def)
    ultimately show ?thesis by (auto simp: at_off_def)
  qed
qed

text \<open>Appending one character, or in lower case, is appending.\<close>

lemma str_append_one_eq: "lexbor_str_append_one s A c = lexbor_str_append s A [c]"
  unfolding lexbor_str_append_one_def lexbor_str_append_def
  by (cases "lexbor_str_check_size_arg s A (Suc (Suc 0))") (auto simp: Let_def numeral_2_eq_2)

lemma str_append_lowercase_eq:
  "xs \<noteq> [] \<Longrightarrow> lexbor_str_append_lowercase s A xs = lexbor_str_append s A (map lexbor_str_res_map_lowercase xs)"
  unfolding lexbor_str_append_lowercase_def lexbor_str_append_def
  by (cases "lexbor_str_check_size_arg s A (Suc (length xs))") (auto simp: Let_def)

lemma str_append_before_is:
  assumes wf: "ar_wf A" and s: "str_is A s cs" and n: "length cs + length xs + 1 < 2 ^ 63"
  shows "\<exists>r s' A'. lexbor_str_append_before s A xs = Some (r, s', A') \<and>
     (r \<noteq> None \<and> str_step A s A' s' \<and> str_is A' s' (xs @ cs) \<or>
      r = None \<and> s' = s \<and> str_step A s A' s \<and> str_is A' s cs)"
proof -
  from check_size_arg [OF wf s, of "length xs + 1"] n obtain ok s1 A1 where
    c: "lexbor_str_check_size_arg s A (length xs + 1) = Some (ok, s1, A1)"
    "if ok then str_step A s A1 s1 \<and> str_is A1 s1 cs \<and> str_length s1 = length cs \<and>
        (\<exists>p b. str_data s1 = Some p \<and> ar_blocks A1 p = Some (cs @ b) \<and> length xs + 1 \<le> length b)
      else s1 = s \<and> str_step A s A1 s \<and> str_is A1 s cs" by auto
  show ?thesis
  proof (cases ok)
    case False
    with c show ?thesis by (simp add: lexbor_str_append_before_def)
  next
    case True
    with c obtain p b where p: "str_data s1 = Some p" "ar_blocks A1 p = Some (cs @ b)" "length xs < length b"
      and s1: "str_step A s A1 s1" "str_length s1 = length cs" by auto
    obtain d rest where d: "drop (length xs) b = d # rest" using p(3) by (cases "drop (length xs) b") auto
    then have rest: "drop (Suc (length xs)) b = rest" by (metis drop_Suc tl_drop list.sel(3))
    let ?b2 = "take (length xs) (cs @ b) @ cs @ d # rest"
    let ?A2 = "A1\<lparr>ar_blocks := (ar_blocks A1)(p \<mapsto> ?b2)\<rparr>"
    let ?A3 = "A1\<lparr>ar_blocks := (ar_blocks A1)(p \<mapsto> xs @ cs @ d # rest)\<rparr>"
    let ?A4 = "A1\<lparr>ar_blocks := (ar_blocks A1)(p \<mapsto> xs @ cs @ 0 # rest)\<rparr>"
    let ?s = "s1\<lparr>str_length := length cs + length xs\<rparr>"
    have r: "blk_read A1 (Some p) 0 (length cs) = Some cs" using p by (simp add: blk_read_def)
    have w2: "blk_write A1 (Some p) (length xs) cs = Some ?A2"
    proof (cases "cs = []")
      case True
      have "take (length xs) b @ d # rest = b" using d by (metis append_take_drop_id)
      then have "A1 = ?A2" using p(2) True by (intro arena.equality) (auto simp: fun_upd_idem)
      then show ?thesis using True by (simp add: blk_write_def)
    next
      case False
      have "drop (length xs + length cs) (cs @ b) = d # rest" using d by simp
      with False p show ?thesis by (simp add: blk_write_def)
    qed
    have w3: "blk_write ?A2 (Some p) 0 xs = Some ?A3"
    proof (cases "xs = []")
      case True
      then show ?thesis by (simp add: blk_write_def)
    next
      case False
      have "length (take (length xs) (cs @ b)) = length xs" using p(3) by simp
      then show ?thesis using False by (simp add: blk_write_def del: take_append length_take)
    qed
    have w4: "blk_write ?A3 (Some p) (length cs + length xs) [0] = Some ?A4" by (simp add: blk_write_def)
    have run: "lexbor_str_append_before s A xs = Some (at_off (Some p) (length cs), ?s, ?A4)"
      using c(1) True p(1) s1(2) r w2 w3 w4 by (simp add: lexbor_str_append_before_def Let_def del: fun_upd_apply)
    have "ar_wf A1" using s1(1) by (simp add: str_step_def)
    then have "str_step A1 s1 ?A4 ?s" using p by (intro str_step_write [of A1 s1 p]) auto
    with s1(1) have "str_step A s ?A4 ?s" by (rule str_step_trans)
    moreover have "str_is ?A4 ?s (xs @ cs)" using p by (intro str_isI [of _ p _ _ rest]) auto
    ultimately show ?thesis using run by (auto simp: at_off_def)
  qed
qed

section \<open>Creating, copying and destroying\<close>

lemma str_init_is:
  assumes wf: "ar_wf A" and n: "sz + 1 < 2 ^ 63"
  shows "\<exists>r s' A'. lexbor_str_init (Some s) A sz = Some (r, Some s', A') \<and> ar_wf A' \<and>
     (r \<noteq> None \<and> str_is A' s' [] \<and> ar_blocks A (the (str_data s')) = None \<and>
        (\<exists>b. ar_blocks A' = (ar_blocks A)(the (str_data s') \<mapsto> b) \<and> sz < length b) \<or>
      r = None \<and> str_data s' = None \<and> str_length s' = 0 \<and> ar_blocks A' = ar_blocks A)"
proof -
  obtain q A1 where a: "lexbor_mraw_alloc A (sz + 1) = (q, A1)" by force
  note al = mraw_alloc_cases [OF wf n a]
  show ?thesis
  proof (cases q)
    case None
    with a al show ?thesis by (simp add: lexbor_str_init_def at_off_def)
  next
    case (Some p)
    from al [unfolded Some option.case] obtain b where b: "ar_blocks A p = None" "sz + 1 \<le> length b"
      "ar_blocks A1 = (ar_blocks A)(p \<mapsto> b)" "ar_wf A1" by blast
    obtain c rest where c: "b = c # rest" using b(2) by (cases b) auto
    let ?A = "A1\<lparr>ar_blocks := (ar_blocks A1)(p \<mapsto> 0 # rest)\<rparr>" and ?s = "s\<lparr>str_data := Some p, str_length := 0\<rparr>"
    have "lexbor_str_init (Some s) A sz = Some (Some (p, 0), Some ?s, ?A)"
      using a Some b c by (simp add: lexbor_str_init_def at_off_def blk_write_def)
    moreover have "ar_wf ?A" "str_is ?A ?s []" using b by (auto simp: ar_wf_def)
    moreover have "ar_blocks ?A = (ar_blocks A)(p \<mapsto> 0 # rest)" "sz < length (0 # rest)" using b c by auto
    ultimately show ?thesis using b(1) by auto
  qed
qed

lemma str_init_append_is:
  assumes wf: "ar_wf A" and n: "length xs + 1 < 2 ^ 63"
  shows "\<exists>r s' A'. lexbor_str_init_append (Some s) A xs = Some (r, Some s', A') \<and> ar_wf A' \<and>
     (r \<noteq> None \<and> str_is A' s' xs \<and> ar_blocks A (the (str_data s')) = None \<and>
        (\<exists>b. ar_blocks A' = (ar_blocks A)(the (str_data s') \<mapsto> b)) \<or>
      r = None \<and> s' = s \<and> ar_blocks A' = ar_blocks A)"
proof -
  obtain q A1 where a: "lexbor_mraw_alloc A (length xs + 1) = (q, A1)" by force
  note al = mraw_alloc_cases [OF wf n a]
  show ?thesis
  proof (cases q)
    case None
    with a al show ?thesis by (simp add: lexbor_str_init_append_def)
  next
    case (Some p)
    from al [unfolded Some option.case] obtain b where b: "ar_blocks A p = None" "length xs + 1 \<le> length b"
      "ar_blocks A1 = (ar_blocks A)(p \<mapsto> b)" "ar_wf A1" by blast
    have "ar_blocks A1 p = Some ([] @ b)" using b(3) by simp
    from write_behind [OF this, of xs] b(2) obtain A2 A3 rest where
      w: "blk_write A1 (Some p) 0 xs = Some A2" "blk_write A2 (Some p) (length xs) [0] = Some A3"
      "A3 = A1\<lparr>ar_blocks := (ar_blocks A1)(p \<mapsto> xs @ 0 # rest)\<rparr>" by auto
    let ?s = "s\<lparr>str_data := Some p, str_length := length xs\<rparr>"
    have "lexbor_str_init_append (Some s) A xs = Some (Some (p, 0), Some ?s, A3)"
      using a Some w(1,2) by (simp add: lexbor_str_init_append_def at_off_def)
    moreover have "ar_wf A3" "str_is A3 ?s xs" using b w(3) by (auto simp: ar_wf_def)
    moreover have "ar_blocks A3 = (ar_blocks A)(p \<mapsto> xs @ 0 # rest)" using b(3) w(3) by auto
    ultimately show ?thesis using b(1) by auto
  qed
qed

lemma str_destroy_is:
  "str_is A s cs \<Longrightarrow> \<exists>A' s'. lexbor_str_destroy (Some s) A b = Some (if b then None else Some s', A') \<and>
     s' = \<lparr>str_data = None, str_length = 0\<rparr> \<and> ar_blocks A' = (ar_blocks A)(the (str_data s) := None)"
  by (auto simp: str_is_def lexbor_str_destroy_def lexbor_mraw_free_def lexbor_str_clean_def)

section \<open>The interface: append these bytes or fail\<close>

text \<open>Handing pieces of text to a sink, until one is refused.\<close>

fun feed :: "('s \<Rightarrow> bytes \<Rightarrow> (bool \<times> 's) option) \<Rightarrow> 's \<Rightarrow> bytes list \<Rightarrow> (bool \<times> 's) option" where
  "feed put s [] = Some (True, s)"
| "feed put s (xs # xss) = do {
     (ok, s) \<leftarrow> put s xs;
     (if \<not> ok then Some (False, s) else feed put s xss) }"

locale byte_sink =
  fixes put :: "'s \<Rightarrow> bytes \<Rightarrow> (bool \<times> 's) option"
    and holds :: "'s \<Rightarrow> bytes \<Rightarrow> bool"
    and limit :: nat
  assumes put_law: "holds s cs \<Longrightarrow> length cs + length xs < limit \<Longrightarrow>
      \<exists>ok s'. put s xs = Some (ok, s') \<and> holds s' (if ok then cs @ xs else cs)"
begin

lemma feed_prefix:
  "holds s cs \<Longrightarrow> length cs + length (concat xss) < limit \<Longrightarrow>
   \<exists>ok s' k. feed put s xss = Some (ok, s') \<and> holds s' (cs @ concat (take k xss)) \<and>
     (if ok then k = length xss else k < length xss)"
proof (induction xss arbitrary: s cs)
  case Nil
  then show ?case by (intro exI [of _ True]) auto
next
  case (Cons xs xss)
  from put_law [OF Cons.prems(1), of xs] Cons.prems(2) obtain ok s' where
    p: "put s xs = Some (ok, s')" "holds s' (if ok then cs @ xs else cs)" by auto
  show ?case
  proof (cases ok)
    case True
    with p have "holds s' (cs @ xs)" by simp
    from Cons.IH [OF this] Cons.prems(2) obtain ok2 s2 k where
      "feed put s' xss = Some (ok2, s2)" "holds s2 ((cs @ xs) @ concat (take k xss))"
      "if ok2 then k = length xss else k < length xss" by auto
    with p True show ?thesis by (intro exI [of _ ok2] exI [of _ s2] exI [of _ "Suc k"]) auto
  next
    case False
    with p show ?thesis by (intro exI [of _ False] exI [of _ s'] exI [of _ 0]) auto
  qed
qed

lemma feed_all:
  assumes "holds s cs" and "length cs + length (concat xss) < limit" and "feed put s xss = Some (True, s')"
  shows "holds s' (cs @ concat xss)"
  using feed_prefix [OF assms(1,2)] assms(3) by auto

end

text \<open>A string is a sink, seen from the state in which the feeding began.\<close>

definition str_put :: "lexbor_str \<times> arena \<Rightarrow> bytes \<Rightarrow> (bool \<times> lexbor_str \<times> arena) option" where
  "str_put s xs = map_option (\<lambda>(r, s, A). (r \<noteq> None, s, A)) (lexbor_str_append (fst s) (snd s) xs)"

definition str_view :: "arena \<Rightarrow> lexbor_str \<Rightarrow> lexbor_str \<times> arena \<Rightarrow> bytes \<Rightarrow> bool" where
  "str_view A0 s0 s cs \<longleftrightarrow> str_step A0 s0 (snd s) (fst s) \<and> str_is (snd s) (fst s) cs"

lemma str_step_blocks:
  "str_step A s A1 s1 \<Longrightarrow> ar_wf A2 \<Longrightarrow> ar_blocks A2 = ar_blocks A1 \<Longrightarrow> str_step A s A2 s1"
  by (auto simp: str_step_def)

lemma str_is_blocks: "str_is A s cs \<Longrightarrow> ar_blocks A' = ar_blocks A \<Longrightarrow> str_is A' s cs"
  by (simp add: str_is_def)

interpretation string_sink: byte_sink str_put "str_view A0 s0" "2 ^ 62" for A0 s0
proof
  fix s :: "lexbor_str \<times> arena" and cs xs :: bytes
  assume h: "str_view A0 s0 s cs" and n: "length cs + length xs < 2 ^ 62"
  then have v: "str_step A0 s0 (snd s) (fst s)" "str_is (snd s) (fst s) cs" by (auto simp: str_view_def)
  then have "ar_wf (snd s)" by (simp add: str_step_def)
  from str_append_is [OF this v(2), of xs] n obtain r s' A' where r: "lexbor_str_append (fst s) (snd s) xs = Some (r, s', A')"
    "r \<noteq> None \<and> str_step (snd s) (fst s) A' s' \<and> str_is A' s' (cs @ xs) \<or>
      r = None \<and> s' = fst s \<and> str_step (snd s) (fst s) A' (fst s) \<and> str_is A' (fst s) cs" by auto
  from r(2) have "str_view A0 s0 (s', A') (if r \<noteq> None then cs @ xs else cs)"
  proof
    assume "r \<noteq> None \<and> str_step (snd s) (fst s) A' s' \<and> str_is A' s' (cs @ xs)"
    with str_step_trans [OF v(1)] show ?thesis by (auto simp: str_view_def)
  next
    assume "r = None \<and> s' = fst s \<and> str_step (snd s) (fst s) A' (fst s) \<and> str_is A' (fst s) cs"
    with str_step_trans [OF v(1)] show ?thesis by (auto simp: str_view_def)
  qed
  with r(1) show "\<exists>ok s'. str_put s xs = Some (ok, s') \<and> str_view A0 s0 s' (if ok then cs @ xs else cs)"
    by (intro exI [of _ "r \<noteq> None"] exI [of _ "(s', A')"]) (simp add: str_put_def)
qed

section \<open>Replacing NUL characters\<close>

definition rep_null :: "bytes \<Rightarrow> bytes" where
  "rep_null xs = concat (map (\<lambda>c. if c = 0 then lexbor_str_res_ansi_replacement_character else [c]) xs)"

lemma rep_null_append [simp]: "rep_null (xs @ ys) = rep_null xs @ rep_null ys"
  by (simp add: rep_null_def)

lemma rep_null_simps [simp]: "rep_null [] = []" "rep_null (0 # xs) = lexbor_str_res_ansi_replacement_character @ rep_null xs"
  by (simp_all add: rep_null_def)

lemma rep_null_id: "0 \<notin> set xs \<Longrightarrow> rep_null xs = xs"
  by (induction xs) (auto simp: rep_null_def)

lemma length_rep_null: "length (rep_null xs) \<le> 3 * length xs"
  by (induction xs) (auto simp: rep_null_def lexbor_str_res_ansi_replacement_character_def)

text \<open>The pieces the loop appends.\<close>

function null_pieces :: "bytes \<Rightarrow> bytes list" where
  "null_pieces xs =
     (if 0 \<notin> set xs then (if xs = [] then [] else [xs])
      else takeWhile (\<lambda>c. c \<noteq> 0) xs # lexbor_str_res_ansi_replacement_character #
        null_pieces (tl (dropWhile (\<lambda>c. c \<noteq> 0) xs)))"
  by auto
termination
proof (relation "measure length")
  fix xs :: bytes
  assume "\<not> 0 \<notin> set xs"
  then have "dropWhile (\<lambda>c. c \<noteq> 0) xs \<noteq> []" by auto
  then have "length (tl (dropWhile (\<lambda>c. c \<noteq> 0) xs)) < length (dropWhile (\<lambda>c. c \<noteq> 0) xs)" by simp
  also have "\<dots> \<le> length xs" by (rule length_dropWhile_le)
  finally show "(tl (dropWhile (\<lambda>c. c \<noteq> 0) xs), xs) \<in> measure length" by simp
qed simp

declare null_pieces.simps [simp del]

lemma split_at_null:
  "0 \<in> set (xs :: bytes) \<Longrightarrow> xs = takeWhile (\<lambda>c. c \<noteq> 0) xs @ 0 # tl (dropWhile (\<lambda>c. c \<noteq> 0) xs)"
  by (induction xs) auto

lemma concat_null_pieces: "concat (null_pieces xs) = rep_null xs"
proof (induction xs rule: null_pieces.induct)
  case (1 xs)
  show ?case
  proof (cases "0 \<in> set xs")
    case True
    let ?pre = "takeWhile (\<lambda>c. c \<noteq> 0) xs"
    have "0 \<notin> set ?pre" by (auto dest: set_takeWhileD)
    then have "rep_null ?pre = ?pre" by (rule rep_null_id)
    moreover have "rep_null xs = rep_null (?pre @ 0 # tl (dropWhile (\<lambda>c. c \<noteq> 0) xs))"
      using split_at_null [OF True] by simp
    ultimately show ?thesis using 1 True by (simp add: null_pieces.simps [of xs])
  qed (simp add: null_pieces.simps [of xs] rep_null_id)
qed

lemma str_put_pair: "str_put (s, A) xs = map_option (\<lambda>(r, s, A). (r \<noteq> None, s, A)) (lexbor_str_append s A xs)"
  by (simp add: str_put_def)

lemma rep_null_loop_feed: "rep_null_loop s A xs = feed str_put (s, A) (null_pieces xs)"
proof (induction s A xs rule: rep_null_loop.induct)
  case (1 s A xs)
  show ?case
  proof (cases "0 \<in> set xs")
    case False
    then show ?thesis
      by (cases "lexbor_str_append s A xs") (auto simp: rep_null_loop.simps [of s A xs] null_pieces.simps [of xs] str_put_pair)
  next
    case True
    let ?rest = "tl (dropWhile (\<lambda>c. c \<noteq> 0) xs)"
    note unf = rep_null_loop.simps [of s A xs] null_pieces.simps [of xs] str_put_pair
    show ?thesis
    proof (cases "lexbor_str_append s A (takeWhile (\<lambda>c. c \<noteq> 0) xs)")
      case (Some x)
      obtain r s1 A1 where x: "x = (r, s1, A1)" by (metis prod_cases3)
      show ?thesis
      proof (cases "r = None \<or> lexbor_str_append s1 A1 lexbor_str_res_ansi_replacement_character = None")
        case True
        with \<open>0 \<in> set xs\<close> Some x show ?thesis by (auto simp: unf)
      next
        case False
        then obtain r2 s2 A2 where y: "lexbor_str_append s1 A1 lexbor_str_res_ansi_replacement_character = Some (r2, s2, A2)"
          by auto
        from False obtain q where r: "r = Some q" by auto
        show ?thesis
        proof (cases r2)
          case None
          with True Some x r y show ?thesis by (simp add: unf)
        next
          case r2: (Some q2)
          have "rep_null_loop s2 A2 ?rest = feed str_put (s2, A2) (null_pieces ?rest)"
            using 1 True Some x r y r2 by blast
          with True Some x r y r2 show ?thesis by (simp add: unf)
        qed
      qed
    qed (use True in \<open>simp add: unf\<close>)
  qed
qed

lemma append_rep_null_is:
  assumes wf: "ar_wf A" and s: "str_is A s cs" and n: "length cs + 3 * length xs < 2 ^ 62"
  shows "\<exists>r s' A' ys. lexbor_str_append_with_rep_null_chars s A xs = Some (r, s', A') \<and>
     str_step A s A' s' \<and> str_is A' s' (cs @ ys) \<and> length ys \<le> 3 * length xs \<and>
     (r \<noteq> None \<longrightarrow> ys = rep_null xs)"
proof -
  from s obtain p rest where p: "str_data s = Some p" "ar_blocks A p = Some (cs @ 0 # rest)" "str_length s = length cs"
    by (auto simp: str_is_def)
  have refl: "str_step A s A s" using wf p by (intro str_step_refl) auto
  from check_size_arg [OF wf s, of "length xs + 1"] n obtain ok s1 A1 where
    c: "lexbor_str_check_size_arg s A (length xs + 1) = Some (ok, s1, A1)"
    "if ok then str_step A s A1 s1 \<and> str_is A1 s1 cs \<and> str_length s1 = length cs \<and>
        (\<exists>p b. str_data s1 = Some p \<and> ar_blocks A1 p = Some (cs @ b) \<and> length xs + 1 \<le> length b)
      else s1 = s \<and> str_step A s A1 s \<and> str_is A1 s cs" by auto
  show ?thesis
  proof (cases ok)
    case False
    with c show ?thesis
      by (auto simp: lexbor_str_append_with_rep_null_chars_def Let_def intro!: exI [of _ "[]"])
  next
    case True
    with c(2) have s1: "str_step A s A1 s1" "str_is A1 s1 cs" "str_length s1 = length cs" by auto
    then have v: "str_view A s (s1, A1) cs" by (simp add: str_view_def)
    have "length cs + length (concat (null_pieces xs)) < 2 ^ 62"
      using n length_rep_null [of xs] by (simp add: concat_null_pieces)
    from string_sink.feed_prefix [OF v this] obtain ok2 t k where
      f: "feed str_put (s1, A1) (null_pieces xs) = Some (ok2, t)" "str_view A s t (cs @ concat (take k (null_pieces xs)))"
      "if ok2 then k = length (null_pieces xs) else k < length (null_pieces xs)" by blast
    obtain s2 A2 where t: "t = (s2, A2)" by (cases t)
    have "lexbor_str_append_with_rep_null_chars s A xs =
        Some (if ok2 then at_off (str_data s2) (length cs) else None, s2, A2)"
      using c(1) True f(1) t p(3) by (simp add: lexbor_str_append_with_rep_null_chars_def rep_null_loop_feed)
    moreover have "str_data s2 \<noteq> None" using f(2) t by (auto simp: str_view_def str_is_def)
    moreover have "ok2 \<Longrightarrow> concat (take k (null_pieces xs)) = rep_null xs" using f(3) by (simp add: concat_null_pieces)
    moreover have "length (concat (take k (null_pieces xs))) \<le> 3 * length xs"
      using length_rep_null [of xs] by (metis concat_null_pieces append_take_drop_id concat_append length_append le_add1 le_trans)
    ultimately show ?thesis using f(2) t by (auto simp: str_view_def at_off_def)
  qed
qed

section \<open>Collapsing white space\<close>

text \<open>The reference: every run of white space is one space, none when \<open>sp\<close> (at the start, or after a space).\<close>

fun collapse :: "bool \<Rightarrow> bytes \<Rightarrow> bytes" where
  "collapse sp [] = []"
| "collapse sp (x # xs) =
     (if lexbor_utils_whitespace x then (if sp then collapse True xs else 0x20 # collapse True xs)
      else x # collapse False xs)"

lemma length_collapse: "length (collapse sp xs) \<le> length xs"
  by (induction xs arbitrary: sp) (auto simp: le_SucI)

lemma update_behind: "gap @ [x] = g # gs \<Longrightarrow> (c @ gap @ x # xs)[length c := y] = (c @ [y]) @ gs @ xs"
  by (cases gap) auto

lemma collapse_loop_is:
  assumes "w < length c \<or> c = [] \<and> w = 0"
    and "sp = ((c @ gap @ todo @ tail) ! w = 0x20)"
  shows "\<exists>gap'. collapse_loop (c @ gap @ todo @ tail) (length c + length gap) (length c + length gap + length todo) (length c) w =
     ((c @ collapse sp todo) @ gap' @ tail, length (c @ collapse sp todo)) \<and>
     length c + length gap + length todo = length (c @ collapse sp todo) + length gap'"
  using assms
proof (induction todo arbitrary: c gap w sp)
  case Nil
  then show ?case by (simp add: collapse_loop.simps)
next
  case (Cons x xs)
  let ?d = "c @ gap @ (x # xs) @ tail" and ?i = "length c + length gap"
  have x: "?d ! ?i = x" by (simp add: nth_append)
  obtain g gs where g: "gap @ [x] = g # gs" by (cases "gap @ [x]") auto
  then have len: "length gap = length gs" by (metis length_append_singleton length_Cons nat.inject)
  have ws: "lexbor_utils_whitespace 0x20" by (simp add: lexbor_utils_whitespace_def)
  have step: "collapse_loop ?d ?i (?i + length (x # xs)) (length c) w =
     (if lexbor_utils_whitespace x
      then (if \<not> sp then collapse_loop (?d[length c := 0x20]) (?i + 1) (?i + length (x # xs)) (length c + 1) (length c)
            else collapse_loop ?d (?i + 1) (?i + length (x # xs)) (length c) w)
      else collapse_loop (?d[length c := x]) (?i + 1) (?i + length (x # xs)) (length c + 1)
             (if sp then length c else w))"
    unfolding Cons.prems(2) by (subst collapse_loop.simps) (use x in simp)
  have upd: "?d[length c := y] = (c @ [y]) @ gs @ xs @ tail" for y
    using update_behind [OF g, of c "xs @ tail" y] by simp
  consider (skip) "lexbor_utils_whitespace x" sp | (space) "lexbor_utils_whitespace x" "\<not> sp" | (char) "\<not> lexbor_utils_whitespace x"
    by blast
  then show ?case
  proof cases
    case skip
    from Cons.IH [of w c sp "gap @ [x]"] Cons.prems skip step show ?thesis by auto
  next
    case space
    have "\<exists>gap'. collapse_loop ((c @ [0x20]) @ gs @ xs @ tail) (length (c @ [0x20]) + length gs)
        (length (c @ [0x20]) + length gs + length xs) (length (c @ [0x20])) (length c) =
        (((c @ [0x20]) @ collapse True xs) @ gap' @ tail, length ((c @ [0x20]) @ collapse True xs)) \<and>
        length (c @ [0x20]) + length gs + length xs = length ((c @ [0x20]) @ collapse True xs) + length gap'"
      by (rule Cons.IH) (auto simp: nth_append)
    with space step upd len show ?thesis by auto
  next
    case char
    then have "x \<noteq> 0x20" using ws by auto
    have "\<exists>gap'. collapse_loop ((c @ [x]) @ gs @ xs @ tail) (length (c @ [x]) + length gs)
        (length (c @ [x]) + length gs + length xs) (length (c @ [x])) (if sp then length c else w) =
        (((c @ [x]) @ collapse False xs) @ gap' @ tail, length ((c @ [x]) @ collapse False xs)) \<and>
        length (c @ [x]) + length gs + length xs = length ((c @ [x]) @ collapse False xs) + length gap'"
      using Cons.prems \<open>x \<noteq> 0x20\<close> by (intro Cons.IH) (auto simp: nth_append)
    with char step upd len show ?thesis by auto
  qed
qed

text \<open>What the function leaves: a space at the end goes only if something was collapsed.\<close>

definition stripped :: "bytes \<Rightarrow> bytes" where
  "stripped cs = (let c = collapse True cs in
     if length c \<noteq> length cs \<and> c \<noteq> [] \<and> last c = 0x20 then butlast c else c)"

lemma strip_collapse_is:
  assumes "cs \<noteq> []"
  shows "\<exists>rest'. strip_collapse (cs @ 0 # rest) (length cs) = (stripped cs @ 0 # rest', length (stripped cs))"
proof -
  obtain x xs where cs: "cs = x # xs" using assms by (cases cs) auto
  let ?x = "if lexbor_utils_whitespace x then 0x20 else x"
  have ws: "lexbor_utils_whitespace 0x20" by (simp add: lexbor_utils_whitespace_def)
  have col: "collapse (?x = 0x20) (?x # xs) = collapse True cs" using cs ws by auto
  from collapse_loop_is [of 0 "[]" "?x = 0x20" "[]" "?x # xs" "0 # rest"] obtain gap' where
    c: "collapse_loop (?x # xs @ 0 # rest) 0 (length cs) 0 0 =
       (collapse True cs @ gap' @ 0 # rest, length (collapse True cs))"
      "length cs = length (collapse True cs) + length gap'"
    unfolding col by (auto simp: cs)
  have d: "(if lexbor_utils_whitespace ((cs @ 0 # rest) ! 0) then (cs @ 0 # rest)[0 := 0x20] else cs @ 0 # rest) =
      ?x # xs @ 0 # rest" by (simp add: cs)
  show ?thesis
  proof (cases gap')
    case Nil
    with c d show ?thesis by (simp add: strip_collapse_def stripped_def Let_def)
  next
    case (Cons g gs)
    let ?c = "collapse True cs"
    show ?thesis
    proof (cases "?c \<noteq> [] \<and> last ?c = 0x20")
      case True
      then obtain b where b: "?c = b @ [0x20]" by (metis append_butlast_last_id)
      with c d Cons show ?thesis by (simp add: strip_collapse_def stripped_def Let_def nth_append)
    next
      case False
      then have "?c \<noteq> [] \<Longrightarrow> (?c @ gap' @ 0 # rest) ! (length ?c - 1) \<noteq> 0x20"
        by (simp add: nth_append last_conv_nth)
      with False c d Cons show ?thesis by (auto simp: strip_collapse_def stripped_def Let_def)
    qed
  qed
qed

lemma strip_collapse_whitespace_is:
  assumes wf: "ar_wf A" and s: "str_is A s cs"
  shows "\<exists>s' A'. lexbor_str_strip_collapse_whitespace s A = Some (s', A') \<and>
     str_step A s A' s' \<and> str_data s' = str_data s \<and> str_is A' s' (stripped cs)"
proof -
  from s obtain p rest where p: "str_data s = Some p" "ar_blocks A p = Some (cs @ 0 # rest)" "str_length s = length cs"
    by (auto simp: str_is_def)
  show ?thesis
  proof (cases "cs = []")
    case True
    with p s wf show ?thesis
      by (auto simp: lexbor_str_strip_collapse_whitespace_def stripped_def intro: str_step_refl)
  next
    case False
    from strip_collapse_is [OF this, of rest] obtain rest' where
      r: "strip_collapse (cs @ 0 # rest) (length cs) = (stripped cs @ 0 # rest', length (stripped cs))" by blast
    let ?A = "A\<lparr>ar_blocks := (ar_blocks A)(p \<mapsto> stripped cs @ 0 # rest')\<rparr>" and ?s = "s\<lparr>str_length := length (stripped cs)\<rparr>"
    have "lexbor_str_strip_collapse_whitespace s A = Some (?s, ?A)"
      using p r False by (simp add: lexbor_str_strip_collapse_whitespace_def on_block_def)
    moreover have "str_step A s ?A ?s" using wf p by (intro str_step_write [of A s p]) auto
    moreover have "str_is ?A ?s (stripped cs)" using p by (intro str_isI [of _ p _ _ rest']) auto
    ultimately show ?thesis by auto
  qed
qed

lemma ws_begin_loop_is:
  "i \<le> length xs \<Longrightarrow> length xs \<le> length data \<Longrightarrow> take (length xs) data = xs \<Longrightarrow>
   ws_begin_loop data i (length xs) = i + length (takeWhile lexbor_utils_whitespace (drop i xs))"
proof (induction "length xs - i" arbitrary: i)
  case 0
  then show ?case by (simp add: ws_begin_loop.simps)
next
  case (Suc k)
  then have i: "i < length xs" by simp
  have "data ! i = xs ! i" using Suc.prems(3) i by (metis nth_take)
  moreover have "drop i xs = xs ! i # drop (Suc i) xs" using i by (simp add: Cons_nth_drop_Suc)
  moreover have "ws_begin_loop data (i + 1) (length xs) = i + 1 + length (takeWhile lexbor_utils_whitespace (drop (i + 1) xs))"
    using Suc i by (intro Suc.hyps(1)) auto
  ultimately show ?case using i by (subst ws_begin_loop.simps) simp
qed

lemma crop_whitespace_from_begin_is:
  assumes wf: "ar_wf A" and s: "str_is A s cs"
  shows "\<exists>A' s'. lexbor_str_crop_whitespace_from_begin s A =
      Some (length (takeWhile lexbor_utils_whitespace cs), s', A') \<and>
     str_step A s A' s' \<and> str_data s' = str_data s \<and> str_length s' = length (dropWhile lexbor_utils_whitespace cs) \<and>
     blk_read A' (str_data s') 0 (str_length s') = Some (dropWhile lexbor_utils_whitespace cs)"
proof -
  from s obtain p rest where p: "str_data s = Some p" "ar_blocks A p = Some (cs @ 0 # rest)" "str_length s = length cs"
    by (auto simp: str_is_def)
  let ?i = "length (takeWhile lexbor_utils_whitespace cs)" and ?d = "dropWhile lexbor_utils_whitespace cs"
  have d: "drop ?i cs = ?d" by (simp add: dropWhile_eq_drop)
  have le: "?i \<le> length cs" by (rule length_takeWhile_le)
  have ld: "length cs - ?i = length ?d" using d by (metis length_drop)
  let ?b = "if ?i \<noteq> 0 \<and> ?i \<noteq> length cs then ?d @ drop (length ?d) (cs @ 0 # rest) else cs @ 0 # rest"
  let ?A = "A\<lparr>ar_blocks := (ar_blocks A)(p \<mapsto> ?b)\<rparr>" and ?s = "s\<lparr>str_length := length ?d\<rparr>"
  have b: "ws_begin_loop (cs @ 0 # rest) 0 (length cs) = ?i"
    using ws_begin_loop_is [of 0 cs "cs @ 0 # rest"] by simp
  have tk: "take (length cs - ?i) (drop ?i (cs @ 0 # rest)) = ?d" using le d ld by simp
  show ?thesis
  proof (cases "cs = []")
    case True
    then have "str_step A s A (s\<lparr>str_length := 0\<rparr>)"
      using wf p by (auto simp: str_step_def fun_upd_idem_iff intro!: exI [of _ "0 # rest"])
    then show ?thesis using True p
      by (simp add: lexbor_str_crop_whitespace_from_begin_def on_block_def blk_read_def ws_begin_loop.simps)
  next
    case False
    have "lexbor_str_crop_whitespace_from_begin s A = Some (?i, ?s, ?A)"
      using p b False tk by (simp add: lexbor_str_crop_whitespace_from_begin_def on_block_def Let_def ld)
    moreover have "str_step A s ?A ?s" using wf p by (intro str_step_write [of A s p]) auto
    moreover have "blk_read ?A (str_data ?s) 0 (str_length ?s) = Some ?d"
    proof -
      have "\<exists>x. ?b = ?d @ x"
      proof (cases "?i = 0 \<or> ?i = length cs")
        case True
        then consider "?d = cs" | "?d = []" using d ld by (metis drop0 length_0_conv diff_self_eq_0)
        then show ?thesis using True by cases (simp_all del: dropWhile_eq_self_iff dropWhile_eq_Nil_conv)
      qed auto
      then obtain x where "?b = ?d @ x" by blast
      then show ?thesis using p(1) by (simp add: blk_read_def del: dropWhile_eq_self_iff dropWhile_eq_Nil_conv)
    qed
    ultimately show ?thesis using p(1) by (intro exI [of _ ?A] exI [of _ ?s]) auto
  qed
qed

text \<open>A string of white space only is reported to have none at its end.\<close>

lemma ws_end_loop_is:
  "i \<le> length xs \<Longrightarrow> i \<le> n \<Longrightarrow> ws_end_loop (xs @ ys) i n =
     (if \<forall>x \<in> set (take i xs). lexbor_utils_whitespace x then 0
      else n - i + length (takeWhile lexbor_utils_whitespace (rev (take i xs))))"
proof (induction i)
  case (Suc i)
  have t: "take (Suc i) xs = take i xs @ [xs ! i]" using Suc.prems by (simp add: take_Suc_conv_app_nth)
  have "(xs @ ys) ! i = xs ! i" using Suc.prems by (simp add: nth_append)
  with Suc show ?case unfolding t by auto
qed simp


lemma whitespace_from_end_is:
  assumes "str_is A s cs"
  shows "lexbor_str_whitespace_from_end s A =
    Some (if \<forall>c \<in> set cs. lexbor_utils_whitespace c then 0 else length (takeWhile lexbor_utils_whitespace (rev cs)))"
proof -
  from assms obtain p rest where "str_data s = Some p" "ar_blocks A p = Some (cs @ 0 # rest)" "str_length s = length cs"
    by (auto simp: str_is_def)
  with ws_end_loop_is [of "length cs" cs "length cs" "0 # rest"] show ?thesis
    by (simp add: lexbor_str_whitespace_from_end_def on_block_def)
qed

section \<open>Comparing and searching buffers\<close>

lemma cmp_loop_is:
  "n \<le> length xs \<Longrightarrow> n \<le> length ys \<Longrightarrow> cmp_loop f g xs ys n = Some (map f (take n xs) = map g (take n ys))"
proof (induction f g xs ys n rule: cmp_loop.induct)
qed auto

lemma cmp_end_loop_is:
  "n \<le> length xs \<Longrightarrow> n \<le> length ys \<Longrightarrow> cmp_end_loop f xs ys n = Some (map f (take n xs) = map f (take n ys))"
  by (induction n) (auto simp: rd_def take_Suc_conv_app_nth)

text \<open>A caseless search never leaves the buffers, ends, and finds what occurs.\<close>

lemma mod_sub: "i \<le> w \<Longrightarrow> w < m \<Longrightarrow> (w + m - i) mod m = w - (i :: nat)"
  by (metis Nat.diff_add_assoc2 less_imp_diff_less mod_add_self2 mod_less)

lemma contain_loop_is:
  assumes cmp: "\<And>zs. what_size \<le> length zs \<Longrightarrow> cmp zs what what_size = Some (hit zs)"
    and empty: "\<And>zs. what_size = 0 \<Longrightarrow> hit zs"
    and len: "length whr \<le> SIZE_MAX"
  shows "i \<le> length whr \<Longrightarrow> contain_loop cmp whr (length whr) what what_size i =
    Some (\<exists>k \<ge> i. k + what_size \<le> length whr \<and> hit (drop k whr))"
proof (induction "length whr - i" arbitrary: i rule: less_induct)
  case less
  have m: "(length whr + (SIZE_MAX + 1) - i) mod (SIZE_MAX + 1) = length whr - i"
    using mod_sub [OF less.prems, of "SIZE_MAX + 1"] len by simp
  show ?case
  proof (cases "what_size \<le> length whr - i")
    case False
    then have "\<not> (\<exists>k \<ge> i. k + what_size \<le> length whr \<and> hit (drop k whr))" using less.prems by auto
    with False m show ?thesis by (subst contain_loop.simps) simp
  next
    case True
    then have c: "cmp (drop i whr) what what_size = Some (hit (drop i whr))" by (intro cmp) simp
    show ?thesis
    proof (cases "hit (drop i whr)")
      case True
      with \<open>what_size \<le> length whr - i\<close> less.prems have "\<exists>k \<ge> i. k + what_size \<le> length whr \<and> hit (drop k whr)"
        by (intro exI [of _ i]) auto
      with \<open>what_size \<le> length whr - i\<close> m c True show ?thesis by (subst contain_loop.simps) simp
    next
      case False
      with empty have "what_size \<noteq> 0" by blast
      with True have i: "i < length whr" by simp
      then have n: "(i + 1) mod (SIZE_MAX + 1) = Suc i" using len by simp
      have "contain_loop cmp whr (length whr) what what_size (Suc i) =
          Some (\<exists>k \<ge> Suc i. k + what_size \<le> length whr \<and> hit (drop k whr))"
        using i by (intro less.hyps) auto
      moreover have "(\<exists>k \<ge> Suc i. k + what_size \<le> length whr \<and> hit (drop k whr)) \<longleftrightarrow>
          (\<exists>k \<ge> i. k + what_size \<le> length whr \<and> hit (drop k whr))"
        using False by (metis Suc_leD le_antisym not_less_eq_eq)
      ultimately show ?thesis using True m c False n by (subst contain_loop.simps) simp
    qed
  qed
qed

lemma ncasecmp_contain_is:
  assumes "length whr \<le> SIZE_MAX"
  shows "lexbor_str_data_ncasecmp_contain whr (length whr) what (length what) =
    Some (\<exists>pre mid post. whr = pre @ mid @ post \<and>
      map lexbor_str_res_map_lowercase mid = map lexbor_str_res_map_lowercase what)"
proof -
  let ?low = "map lexbor_str_res_map_lowercase"
  have "lexbor_str_data_ncasecmp_contain whr (length whr) what (length what) =
      Some (\<exists>k \<ge> 0. k + length what \<le> length whr \<and> ?low (take (length what) (drop k whr)) = ?low what)"
    unfolding lexbor_str_data_ncasecmp_contain_def
    by (rule contain_loop_is) (use assms in \<open>simp_all add: lexbor_str_data_ncasecmp_def cmp_loop_is\<close>)
  moreover have "(\<exists>k \<ge> 0. k + length what \<le> length whr \<and> ?low (take (length what) (drop k whr)) = ?low what) \<longleftrightarrow>
      (\<exists>pre mid post. whr = pre @ mid @ post \<and> ?low mid = ?low what)" (is "?L \<longleftrightarrow> ?R")
  proof
    assume ?L
    then obtain k where "?low (take (length what) (drop k whr)) = ?low what" by blast
    moreover have "whr = take k whr @ take (length what) (drop k whr) @ drop (length what) (drop k whr)"
      by (simp only: append_take_drop_id)
    ultimately show ?R by blast
  next
    assume ?R
    then obtain pre mid post where w: "whr = pre @ mid @ post" "?low mid = ?low what" by blast
    then have "length mid = length what" using map_eq_imp_length_eq by blast
    with w show ?L by (intro exI [of _ "length pre"]) auto
  qed
  ultimately show ?thesis by simp
qed

lemma ncmp_contain_is:
  assumes "length whr \<le> SIZE_MAX"
  shows "lexbor_str_data_ncmp_contain whr (length whr) what (length what) =
    Some (\<exists>k. k + length what \<le> length whr \<and> take (length what) (drop k whr) = what)"
  unfolding lexbor_str_data_ncmp_contain_def
  by (subst contain_loop_is [of _ _ _ "\<lambda>zs. take (length what) zs = what"]) (use assms in \<open>auto simp: memcmp_eq_def\<close>)

text \<open>NUL-terminated buffers are compared up to the NUL.\<close>

lemma map_lowercase_eq_0 [simp]: "lexbor_str_res_map_lowercase c = 0 \<longleftrightarrow> c = 0"
proof -
  have "c + 0x20 \<noteq> 0" if "0x41 \<le> c" "c \<le> 0x5A" using that by unat_arith simp
  then show ?thesis by (auto simp: lexbor_str_res_map_lowercase_def)
qed

lemma map_lowercase_0 [simp]: "lexbor_str_res_map_lowercase 0 = 0"
  by (simp add: lexbor_str_res_map_lowercase_def)

lemma casecmp_is:
  "0 \<notin> set xs \<Longrightarrow> 0 \<notin> set ys \<Longrightarrow> lexbor_str_data_casecmp (xs @ 0 # u) (ys @ 0 # v) =
    Some (map lexbor_str_res_map_lowercase xs = map lexbor_str_res_map_lowercase ys)"
proof (induction xs arbitrary: ys)
  case Nil
  then show ?case by (cases ys) auto
next
  case (Cons x xs)
  show ?case
  proof (cases ys)
    case Nil
    with Cons.prems show ?thesis by (auto)
  next
    case (Cons y ys')
    with Cons.prems Cons.IH show ?thesis by auto
  qed
qed

lemma cmp_is:
  "0 \<notin> set xs \<Longrightarrow> 0 \<notin> set ys \<Longrightarrow> lexbor_str_data_cmp (xs @ 0 # u) (ys @ 0 # v) = Some (xs = ys)"
proof (induction xs arbitrary: ys)
  case Nil
  then show ?case by (cases ys) auto
next
  case (Cons x xs)
  then show ?case by (cases ys) auto
qed

lemma to_case_loop_is:
  "n \<le> length from \<Longrightarrow> n \<le> length to \<Longrightarrow> to_case_loop f to from n = Some (map f (take n from) @ drop n to)"
proof (induction n arbitrary: to)
  case (Suc n)
  then have "to[n := f (from ! n)] = take n to @ f (from ! n) # drop (Suc n) to" by (simp add: upd_conv_take_nth_drop)
  with Suc show ?case by (simp add: rd_def take_Suc_conv_app_nth)
qed simp

lemma map_lowercase_idem: "lexbor_str_res_map_lowercase (lexbor_str_res_map_lowercase c) = lexbor_str_res_map_lowercase c"
proof -
  have "\<not> (0x41 \<le> c + 0x20 \<and> c + 0x20 \<le> 0x5A)" if "0x41 \<le> c" "c \<le> 0x5A" using that by unat_arith
  then show ?thesis by (auto simp: lexbor_str_res_map_lowercase_def)
qed

lemma str_append_lowercase_is:
  assumes wf: "ar_wf A" and s: "str_is A s cs" and n: "length cs + length xs + 1 < 2 ^ 63"
  shows "\<exists>r s' A'. lexbor_str_append_lowercase s A xs = Some (r, s', A') \<and>
     (r \<noteq> None \<and> str_step A s A' s' \<and> str_is A' s' (cs @ map lexbor_str_res_map_lowercase xs) \<or>
      r = None \<and> s' = s \<and> str_step A s A' s \<and> str_is A' s cs)"
proof (cases "xs = []")
  case False
  then show ?thesis using str_append_is [OF wf s, of "map lexbor_str_res_map_lowercase xs"] n
    by (simp add: str_append_lowercase_eq)
next
  case True
  from check_size_arg [OF wf s, of 1] n obtain ok s1 A1 where
    c: "lexbor_str_check_size_arg s A 1 = Some (ok, s1, A1)"
    "if ok then str_step A s A1 s1 \<and> str_is A1 s1 cs \<and> str_length s1 = length cs \<and>
        (\<exists>p b. str_data s1 = Some p \<and> ar_blocks A1 p = Some (cs @ b) \<and> 1 \<le> length b)
      else s1 = s \<and> str_step A s A1 s \<and> str_is A1 s cs" by auto
  show ?thesis
  proof (cases ok)
    case False
    with c True show ?thesis by (simp add: lexbor_str_append_lowercase_def)
  next
    case ok: True
    with c(2) have "str_step A s A1 s1 \<and> str_length s1 = length cs \<and>
        (\<exists>p b. str_data s1 = Some p \<and> ar_blocks A1 p = Some (cs @ b) \<and> length ([] :: bytes) < length b)"
      by (simp add: Suc_le_eq)
    then obtain p b where p: "str_data s1 = Some p" "ar_blocks A1 p = Some (cs @ b)" "length ([] :: bytes) < length b"
      and s1: "str_step A s A1 s1" "str_length s1 = length cs" by blast
    from write_behind [OF p(2,3)] obtain A2 A3 rest where
      w: "blk_write A1 (Some p) (length cs) [] = Some A2" "blk_write A2 (Some p) (length cs) [0] = Some A3"
      "A3 = A1\<lparr>ar_blocks := (ar_blocks A1)(p \<mapsto> cs @ 0 # rest)\<rparr>" by auto
    have "lexbor_str_append_lowercase s A xs = Some (at_off (Some p) (length cs), s1\<lparr>str_length := length cs\<rparr>, A3)"
      using c(1) ok True p s1 w(1,2) by (simp add: lexbor_str_append_lowercase_def Let_def)
    moreover have "ar_wf A1" using s1(1) by (simp add: str_step_def)
    then have "str_step A1 s1 A3 (s1\<lparr>str_length := length cs\<rparr>)" using p w(3) by (intro str_step_write [of A1 s1 p]) auto
    with s1(1) have "str_step A s A3 (s1\<lparr>str_length := length cs\<rparr>)" by (rule str_step_trans)
    moreover have "str_is A3 (s1\<lparr>str_length := length cs\<rparr>) cs" using p w(3) by (intro str_isI [of _ p _ _ rest]) auto
    ultimately show ?thesis using True by (auto simp: at_off_def)
  qed
qed

section \<open>Sequences of operations\<close>

text \<open>The editing operations on a string, what each does to the model, and what it means on byte lists.\<close>

datatype str_op = Append bytes | Append_before bytes | Append_one byte | Append_lowercase bytes
  | Append_rep_null bytes | Strip_collapse

definition done_op :: "cptr \<times> lexbor_str \<times> arena \<Rightarrow> bool \<times> lexbor_str \<times> arena" where
  "done_op x = (fst x \<noteq> None, snd x)"

fun run_op :: "str_op \<Rightarrow> lexbor_str \<Rightarrow> arena \<Rightarrow> (bool \<times> lexbor_str \<times> arena) option" where
  "run_op (Append xs) s A = map_option done_op (lexbor_str_append s A xs)"
| "run_op (Append_before xs) s A = map_option done_op (lexbor_str_append_before s A xs)"
| "run_op (Append_one x) s A = map_option done_op (lexbor_str_append_one s A x)"
| "run_op (Append_lowercase xs) s A = map_option done_op (lexbor_str_append_lowercase s A xs)"
| "run_op (Append_rep_null xs) s A = map_option done_op (lexbor_str_append_with_rep_null_chars s A xs)"
| "run_op Strip_collapse s A = map_option (Pair True) (lexbor_str_strip_collapse_whitespace s A)"

fun ref_op :: "str_op \<Rightarrow> bytes \<Rightarrow> bytes" where
  "ref_op (Append xs) cs = cs @ xs"
| "ref_op (Append_before xs) cs = xs @ cs"
| "ref_op (Append_one x) cs = cs @ [x]"
| "ref_op (Append_lowercase xs) cs = cs @ map lexbor_str_res_map_lowercase xs"
| "ref_op (Append_rep_null xs) cs = cs @ rep_null xs"
| "ref_op Strip_collapse cs = stripped cs"

fun op_grow :: "str_op \<Rightarrow> nat" where
  "op_grow (Append xs) = length xs"
| "op_grow (Append_before xs) = length xs"
| "op_grow (Append_one x) = 1"
| "op_grow (Append_lowercase xs) = length xs"
| "op_grow (Append_rep_null xs) = 3 * length xs"
| "op_grow Strip_collapse = 0"

fun run_ops :: "str_op list \<Rightarrow> lexbor_str \<Rightarrow> arena \<Rightarrow> (bool list \<times> lexbor_str \<times> arena) option" where
  "run_ops [] s A = Some ([], s, A)"
| "run_ops (e # es) s A = do {
     (ok, s, A) \<leftarrow> run_op e s A;
     (oks, s, A) \<leftarrow> run_ops es s A;
     Some (ok # oks, s, A) }"

lemma length_stripped: "length (stripped cs) \<le> length cs"
  using length_collapse [of True cs] by (auto simp: stripped_def Let_def)

lemma run_op_is:
  assumes wf: "ar_wf A" and s: "str_is A s cs" and n: "length cs + op_grow e < 2 ^ 62"
  shows "\<exists>ok s' A' cs'. run_op e s A = Some (ok, s', A') \<and> str_step A s A' s' \<and> str_is A' s' cs' \<and>
     length cs' \<le> length cs + op_grow e \<and> (ok \<longrightarrow> cs' = ref_op e cs)"
proof -
  from s obtain p b where "str_data s = Some p" "ar_blocks A p = Some b" by (auto simp: str_is_def)
  with wf have refl: "str_step A s A s" by (intro str_step_refl) auto
  have simple: ?thesis if ex: "\<exists>r s' A'. x = Some (r, s', A') \<and>
      (r \<noteq> None \<and> str_step A s A' s' \<and> str_is A' s' (ref_op e cs) \<or>
       r = None \<and> s' = s \<and> str_step A s A' s \<and> str_is A' s cs)"
    and run: "run_op e s A = map_option done_op x" and len: "length (ref_op e cs) \<le> length cs + op_grow e"
    for x :: "(cptr \<times> lexbor_str \<times> arena) option"
  proof -
    from ex obtain r s' A' where x: "x = Some (r, s', A')"
      "r \<noteq> None \<and> str_step A s A' s' \<and> str_is A' s' (ref_op e cs) \<or>
       r = None \<and> s' = s \<and> str_step A s A' s \<and> str_is A' s cs" by blast
    from x(2) show ?thesis
    proof
      assume "r \<noteq> None \<and> str_step A s A' s' \<and> str_is A' s' (ref_op e cs)"
      with x(1) run len show ?thesis by (auto simp: done_op_def)
    next
      assume "r = None \<and> s' = s \<and> str_step A s A' s \<and> str_is A' s cs"
      with x(1) run show ?thesis
        by (intro exI [of _ False] exI [of _ s'] exI [of _ A'] exI [of _ cs]) (simp add: done_op_def)
    qed
  qed
  show ?thesis
  proof (cases e)
    case (Append xs)
    then show ?thesis using n str_append_is [OF wf s, of xs] by (intro simple) simp_all
  next
    case (Append_before xs)
    then show ?thesis using n str_append_before_is [OF wf s, of xs] by (intro simple) simp_all
  next
    case (Append_one x)
    then show ?thesis using n str_append_is [OF wf s, of "[x]"] by (intro simple) (simp_all add: str_append_one_eq)
  next
    case (Append_lowercase xs)
    then show ?thesis using n str_append_lowercase_is [OF wf s, of xs] by (intro simple) simp_all
  next
    case (Append_rep_null xs)
    with append_rep_null_is [OF wf s, of xs] n obtain r s' A' ys where
      "lexbor_str_append_with_rep_null_chars s A xs = Some (r, s', A')" "str_step A s A' s'" "str_is A' s' (cs @ ys)"
      "length ys \<le> 3 * length xs" "r \<noteq> None \<longrightarrow> ys = rep_null xs" by auto
    with Append_rep_null show ?thesis
      by (intro exI [of _ "r \<noteq> None"] exI [of _ s'] exI [of _ A'] exI [of _ "cs @ ys"]) (simp add: done_op_def)
  next
    case Strip_collapse
    then show ?thesis using strip_collapse_whitespace_is [OF wf s] length_stripped [of cs] by auto
  qed
qed


text \<open>
  C31: any sequence of editing operations on a string runs without touching memory outside its
  block and leaves every other block alone; the string stays well formed (characters, then a
  NUL, inside its block), whichever requests for memory fail; and when no operation reports a
  failure it holds what the operations mean on byte lists.
\<close>

theorem string_edits_refine:
  assumes "ar_wf A" and "str_is A s cs" and "length cs + (\<Sum>e\<leftarrow>es. op_grow e) < 2 ^ 62"
  shows "\<exists>oks s' A' cs'. run_ops es s A = Some (oks, s', A') \<and> str_step A s A' s' \<and> str_is A' s' cs' \<and>
     (False \<notin> set oks \<longrightarrow> cs' = fold ref_op es cs)"
  using assms
proof (induction es arbitrary: s A cs)
  case Nil
  then show ?case by (force simp: str_is_def intro: str_step_refl)
next
  case (Cons e es)
  from run_op_is [OF Cons.prems(1,2), of e] Cons.prems(3) obtain ok s1 A1 cs1 where
    e: "run_op e s A = Some (ok, s1, A1)" "str_step A s A1 s1" "str_is A1 s1 cs1"
    "length cs1 \<le> length cs + op_grow e" "ok \<longrightarrow> cs1 = ref_op e cs" by auto
  have "ar_wf A1" using e(2) by (simp add: str_step_def)
  from Cons.IH [OF this e(3)] e(4) Cons.prems(3) obtain oks s2 A2 cs2 where
    es: "run_ops es s1 A1 = Some (oks, s2, A2)" "str_step A1 s1 A2 s2" "str_is A2 s2 cs2"
    "False \<notin> set oks \<longrightarrow> cs2 = fold ref_op es cs1" by auto
  from e es str_step_trans [OF e(2) es(2)] show ?case
    by (intro exI [of _ "ok # oks"] exI [of _ s2] exI [of _ A2] exI [of _ cs2]) auto
qed


text \<open>A document arena with one string, and an answer plan in which every third request fails.\<close>

definition arena0 :: arena where
  "arena0 = \<lparr>ar_blocks = [7 \<mapsto> [0x41, 0x20, 0x09, 0x42, 0]], ar_fresh = 8, ar_reqs = 0,
     ar_plan = (\<lambda>k. if k mod 3 = 2 then None else Some (k, k = 0)), ar_slack = (\<lambda>k. k mod 2), ar_junk = (\<lambda>_ _. 0xAA)\<rparr>"

definition str0 :: lexbor_str where
  "str0 = \<lparr>str_data = Some 7, str_length = 4\<rparr>"

lemma arena0_ok: "ar_wf arena0" "str_is arena0 str0 [0x41, 0x20, 0x09, 0x42]"
  by (auto simp: arena0_def str0_def ar_wf_def str_is_def split: if_splits)

lemma string_edits_refine_witness:
  "\<exists>oks s' A' cs'. run_ops [Append [0x43, 0], Strip_collapse, Append_rep_null [0, 0x44]] str0 arena0 = Some (oks, s', A') \<and>
     str_step arena0 str0 A' s' \<and> str_is A' s' cs' \<and>
     (False \<notin> set oks \<longrightarrow> cs' = [0x41, 0x20, 0x42, 0x43, 0, 0xEF, 0xBF, 0xBD, 0x44])"
  using string_edits_refine [OF arena0_ok, of "[Append [0x43, 0], Strip_collapse, Append_rep_null [0, 0x44]]"]
  by (simp add: stripped_def Let_def lexbor_utils_whitespace_def rep_null_def lexbor_str_res_ansi_replacement_character_def)

section \<open>Stripping and collapsing, by words\<close>

function ws_words :: "bytes \<Rightarrow> bytes list" where
  "ws_words [] = []"
| "ws_words (x # xs) =
     (if lexbor_utils_whitespace x then ws_words xs
      else (x # takeWhile (\<lambda>c. \<not> lexbor_utils_whitespace c) xs) # ws_words (dropWhile (\<lambda>c. \<not> lexbor_utils_whitespace c) xs))"
  by pat_completeness auto
termination
  by (relation "measure length") (auto simp: less_Suc_eq_le intro: length_dropWhile_le)

fun spaced :: "bytes list \<Rightarrow> bytes" where
  "spaced [] = []"
| "spaced [w] = w"
| "spaced (w # v # ws) = w @ 0x20 # spaced (v # ws)"

lemma ws_words_Nil: "ws_words xs = [] \<longleftrightarrow> (\<forall>x \<in> set xs. lexbor_utils_whitespace x)"
  by (induction xs) auto

lemma collapse_words:
  "collapse True xs = spaced (ws_words xs) @
     (if ws_words xs \<noteq> [] \<and> lexbor_utils_whitespace (last xs) then [0x20] else [])"
proof (induction xs rule: ws_words.induct)
  case (2 x xs)
  show ?case
  proof (cases "lexbor_utils_whitespace x")
    case True
    with 2 show ?thesis by auto
  next
    case False
    let ?w = "takeWhile (\<lambda>c. \<not> lexbor_utils_whitespace c) xs" and ?r = "dropWhile (\<lambda>c. \<not> lexbor_utils_whitespace c) xs"
    have word: "collapse False (ys @ zs) = ys @ collapse False zs" if "\<forall>y \<in> set ys. \<not> lexbor_utils_whitespace y" for ys zs
      using that by (induction ys) auto
    have "collapse False xs = collapse False (?w @ ?r)" by simp
    also have "\<dots> = ?w @ collapse False ?r" by (rule word) (auto dest: set_takeWhileD)
    finally have c: "collapse True (x # xs) = x # ?w @ collapse False ?r" using False by simp
    show ?thesis
    proof (cases ?r)
      case Nil
      then have "\<not> lexbor_utils_whitespace (last (x # xs))" using False by (auto simp: dropWhile_eq_Nil_conv)
      moreover have "spaced (ws_words (x # xs)) = x # ?w" using False unfolding ws_words.simps Nil by simp
      ultimately show ?thesis using c unfolding Nil by simp
    next
      case (Cons y ys)
      then have y: "lexbor_utils_whitespace y" by (metis dropWhile_eq_Cons_conv)
      then have "collapse False ?r = 0x20 # collapse True ?r" using Cons by simp
      moreover have "last (x # xs) = last ?r"
        using Cons by (metis append_Cons last_appendR list.distinct(1) takeWhile_dropWhile_id)
      moreover have "ws_words ?r = [] \<Longrightarrow> lexbor_utils_whitespace (last ?r)"
        using Cons by (metis ws_words_Nil last_in_set list.distinct(1))
      ultimately show ?thesis using c False 2(2) by (cases "ws_words ?r") auto
    qed
  qed
qed simp

lemma spaced_no_trailing: "ws_words xs \<noteq> [] \<Longrightarrow> spaced (ws_words xs) \<noteq> [] \<and> \<not> lexbor_utils_whitespace (last (spaced (ws_words xs)))"
proof (induction xs rule: ws_words.induct)
  case (2 x xs)
  let ?w = "takeWhile (\<lambda>c. \<not> lexbor_utils_whitespace c) xs" and ?r = "dropWhile (\<lambda>c. \<not> lexbor_utils_whitespace c) xs"
  show ?case
  proof (cases "lexbor_utils_whitespace x")
    case False
    have "\<not> lexbor_utils_whitespace (last (x # ?w))"
      using False by (auto dest: set_takeWhileD last_in_set)
    with 2 False show ?thesis by (cases "ws_words ?r") auto
  qed (use 2 in auto)
qed simp

lemma stripped_words:
  "stripped cs = spaced (ws_words cs) @
     (if ws_words cs \<noteq> [] \<and> lexbor_utils_whitespace (last cs) \<and> length cs = length (spaced (ws_words cs)) + 1
      then [0x20] else [])"
proof -
  have ws: "lexbor_utils_whitespace 0x20" by (simp add: lexbor_utils_whitespace_def)
  show ?thesis
  proof (cases "ws_words cs = []")
    case True
    then show ?thesis by (simp add: stripped_def Let_def collapse_words)
  next
    case False
    with spaced_no_trailing [OF this] ws show ?thesis by (auto simp: stripped_def Let_def collapse_words)
  qed
qed

text \<open>
  Stripping and collapsing the white space of a string leaves its words with one space
  between two of them. One thing it misses: a single white space character at the end stays
  (as a space) when nothing else had to be collapsed.
\<close>

theorem strip_collapse_words:
  assumes "ar_wf A" and "str_is A s cs"
  shows "\<exists>s' A'. lexbor_str_strip_collapse_whitespace s A = Some (s', A') \<and>
     str_step A s A' s' \<and> str_data s' = str_data s \<and>
     str_is A' s' (spaced (ws_words cs) @
       (if ws_words cs \<noteq> [] \<and> lexbor_utils_whitespace (last cs) \<and> length cs = length (spaced (ws_words cs)) + 1
        then [0x20] else []))"
  using strip_collapse_whitespace_is [OF assms] by (simp add: stripped_words)

lemma strip_collapse_words_witness:
  "\<exists>s' A'. lexbor_str_strip_collapse_whitespace str0 arena0 = Some (s', A') \<and>
     str_step arena0 str0 A' s' \<and> str_data s' = str_data str0 \<and> str_is A' s' [0x41, 0x20, 0x42]"
  using strip_collapse_words [OF arena0_ok] by (simp add: lexbor_utils_whitespace_def)

text \<open>
  The caseless search for a text in a buffer ends, stays inside both buffers, and answers
  whether some part of the buffer equals the text up to ASCII case.
\<close>

theorem ncasecmp_contain_occurs:
  assumes "length whr \<le> SIZE_MAX"
  shows "lexbor_str_data_ncasecmp_contain whr (length whr) what (length what) =
    Some (\<exists>pre mid post. whr = pre @ mid @ post \<and>
      map lexbor_str_res_map_lowercase mid = map lexbor_str_res_map_lowercase what)"
  using assms by (rule ncasecmp_contain_is)

lemma ncasecmp_contain_occurs_witness:
  "lexbor_str_data_ncasecmp_contain [0x78, 0x41, 0x62] 3 [0x61, 0x42] 2 = Some True"
proof -
  have "\<exists>pre mid post. [0x78, 0x41, 0x62 :: byte] = pre @ mid @ post \<and>
      map lexbor_str_res_map_lowercase mid = map lexbor_str_res_map_lowercase [0x61, 0x42]"
    by (intro exI [of _ "[0x78]"] exI [of _ "[0x41, 0x62]"] exI [of _ "[]"]) (simp add: lexbor_str_res_map_lowercase_def)
  with ncasecmp_contain_occurs [of "[0x78, 0x41, 0x62]" "[0x61, 0x42]"] show ?thesis by (simp add: numeral_3_eq_3 numeral_2_eq_2)
qed

section \<open>Copying, and setting the length\<close>

lemma str_copy_is:
  assumes wf: "ar_wf A" and t: "str_is A t cs" and d: "str_data d = None" and n: "length cs + 1 < 2 ^ 62"
  shows "\<exists>r d' A'. lexbor_str_copy d t A = Some (r, d', A') \<and> ar_wf A' \<and>
     (r \<noteq> None \<and> str_is A' d' cs \<and> ar_blocks A (the (str_data d')) = None \<and>
        (\<exists>b. ar_blocks A' = (ar_blocks A)(the (str_data d') \<mapsto> b)) \<or>
      r = None \<and> str_data d' = None \<and> ar_blocks A' = ar_blocks A)"
proof -
  from t obtain p rest where p: "str_data t = Some p" "ar_blocks A p = Some (cs @ 0 # rest)" "str_length t = length cs"
    by (auto simp: str_is_def)
  from str_init_is [OF wf, of "length cs" d] n obtain r d1 A1 where
    i: "lexbor_str_init (Some d) A (length cs) = Some (r, Some d1, A1)" "ar_wf A1"
    "r \<noteq> None \<and> str_is A1 d1 [] \<and> ar_blocks A (the (str_data d1)) = None \<and>
        (\<exists>b. ar_blocks A1 = (ar_blocks A)(the (str_data d1) \<mapsto> b) \<and> length cs < length b) \<or>
      r = None \<and> str_data d1 = None \<and> str_length d1 = 0 \<and> ar_blocks A1 = ar_blocks A" by fastforce
  from i(3) show ?thesis
  proof
    assume "r = None \<and> str_data d1 = None \<and> str_length d1 = 0 \<and> ar_blocks A1 = ar_blocks A"
    with i(1,2) p d show ?thesis by (simp add: lexbor_str_copy_def)
  next
    assume ok: "r \<noteq> None \<and> str_is A1 d1 [] \<and> ar_blocks A (the (str_data d1)) = None \<and>
        (\<exists>b. ar_blocks A1 = (ar_blocks A)(the (str_data d1) \<mapsto> b) \<and> length cs < length b)"
    then obtain q b where q: "str_data d1 = Some q" "ar_blocks A q = None" "ar_blocks A1 = (ar_blocks A)(q \<mapsto> b)"
      "length cs < length b" "str_length d1 = 0" by (auto simp: str_is_def)
    have "blk_read A1 (str_data t) 0 (length cs) = Some cs"
      using p q(2,3) by (auto simp: blk_read_def)
    with i(1) p d q(1) have run: "lexbor_str_copy d t A = lexbor_str_append d1 A1 cs"
      by (simp add: lexbor_str_copy_def)
    from q(3) have live: "ar_blocks A1 q = Some ([] @ b)" by simp
    from write_behind [OF live q(4)] obtain A2 A3 rest' where
      w: "blk_write A1 (Some q) 0 cs = Some A2" "blk_write A2 (Some q) (length cs) [0] = Some A3"
      "A3 = A1\<lparr>ar_blocks := (ar_blocks A1)(q \<mapsto> cs @ 0 # rest')\<rparr>" by auto
    show ?thesis
    proof (cases "cs = []")
      case True
      with run q(1) ok i(2) show ?thesis
        by (intro exI [of _ "Some (q, 0)"] exI [of _ d1] exI [of _ A1]) (auto simp: lexbor_str_append_def at_off_def)
    next
      case False
      let ?d = "d1\<lparr>str_length := length cs\<rparr>"
      have "lexbor_str_append d1 A1 cs = Some (Some (q, 0), ?d, A3)"
        using False q live n w(1,2)
        by (simp add: lexbor_str_append_def lexbor_str_check_size_arg_def lexbor_str_size_def lexbor_mraw_data_size_def at_off_def Let_def)
      moreover have "str_is A3 ?d cs" using q w(3) by (intro str_isI [of _ q _ _ rest']) auto
      moreover have "ar_wf A3" "ar_blocks A3 = (ar_blocks A)(q \<mapsto> cs @ 0 # rest')" using i(2) q w(3) by (auto simp: ar_wf_def)
      ultimately show ?thesis using run q(1,2) by (intro exI [of _ "Some (q, 0)"] exI [of _ ?d] exI [of _ A3]) auto
    qed
  qed
qed

end
