(* ===== verification/Lexbor_Shs.thy ===== *)
theory Lexbor_Shs
  imports Lexbor_Str "HOL-Library.Char_ord"
begin

text \<open>
  Static hash search (core/shs.c): lookup of a name in a table fixed at compile time, whose
  entries are chained by index. First the lookups as written, then a decidable condition on
  tables under which they agree with a search through all entries.
\<close>

section \<open>Tables and lookups\<close>

text \<open>An entry: key, index of the datum it points to, length of the key, index of the next entry.\<close>

record shs_entry =
  shs_key :: "string option"
  shs_value :: nat
  shs_key_len :: nat
  shs_next :: nat

definition ascii :: "string \<Rightarrow> bytes" where
  "ascii s = map of_char s"

definition shs :: "string \<Rightarrow> nat \<Rightarrow> nat \<Rightarrow> nat \<Rightarrow> shs_entry" where
  "shs s v len nx = \<lparr>shs_key = Some s, shs_value = v, shs_key_len = len, shs_next = nx\<rparr>"

definition shs_null :: "nat \<Rightarrow> nat \<Rightarrow> shs_entry" where
  "shs_null len nx = \<lparr>shs_key = None, shs_value = 0, shs_key_len = len, shs_next = nx\<rparr>"

text \<open>The bucket of a key; the first and the last character are read, so an empty key is undefined.\<close>

definition lexbor_shs_make_id :: "(byte \<Rightarrow> byte) \<Rightarrow> bytes \<Rightarrow> nat \<Rightarrow> nat option" where
  "lexbor_shs_make_id f key table_size = (if key = [] then None else
     Some (((unat (f (key ! 0)) * unat (f (key ! (length key - 1)))) * unat (f (key ! 0)) + length key) mod table_size + 1))"

text \<open>The chain is followed until the key is found, a longer one is met, or an entry has no key.\<close>

partial_function (option) shs_loop ::
  "(bytes \<Rightarrow> bytes \<Rightarrow> nat \<Rightarrow> bool option) \<Rightarrow> shs_entry list \<Rightarrow> bytes \<Rightarrow> nat \<Rightarrow> nat option option" where
  [code]: "shs_loop cmp root key i = do {
     entry \<leftarrow> (if i < length root then Some (root ! i) else None);
     (case shs_key entry of
       None \<Rightarrow> Some None
     | Some k \<Rightarrow>
         if shs_key_len entry = length key then do {
           eq \<leftarrow> cmp (ascii k) key (length key);
           (if eq then Some (Some i) else shs_loop cmp root key (shs_next entry)) }
         else if shs_key_len entry > length key then Some None
         else shs_loop cmp root key (shs_next entry)) }"

definition lexbor_shs_entry_get_static :: "shs_entry list \<Rightarrow> bytes \<Rightarrow> nat option option" where
  "lexbor_shs_entry_get_static root key = do {
     i \<leftarrow> lexbor_shs_make_id (\<lambda>c. c) key (shs_key_len (root ! 0));
     shs_loop lexbor_str_data_ncmp root key i }"

definition lexbor_shs_entry_get_lower_static :: "shs_entry list \<Rightarrow> bytes \<Rightarrow> nat option option" where
  "lexbor_shs_entry_get_lower_static root key = do {
     i \<leftarrow> lexbor_shs_make_id lexbor_str_res_map_lowercase key (shs_key_len (root ! 0));
     shs_loop lexbor_str_data_nlocmp_right root key i }"

definition lexbor_shs_entry_get_upper_static :: "shs_entry list \<Rightarrow> bytes \<Rightarrow> nat option option" where
  "lexbor_shs_entry_get_upper_static root key = do {
     i \<leftarrow> lexbor_shs_make_id lexbor_str_res_map_uppercase key (shs_key_len (root ! 0));
     shs_loop lexbor_str_data_nupcmp_right root key i }"

section \<open>Well-formed tables\<close>

text \<open>The chain from an index, as far as \<open>fuel\<close> goes; \<open>None\<close> when it is longer or leaves the table.\<close>

fun shs_chain :: "shs_entry list \<Rightarrow> nat \<Rightarrow> nat \<Rightarrow> nat list option" where
  "shs_chain root 0 i = None"
| "shs_chain root (Suc fuel) i =
     (if i < length root
      then (case shs_key (root ! i) of
          None \<Rightarrow> Some []
        | Some k \<Rightarrow> map_option ((#) i) (shs_chain root fuel (shs_next (root ! i))))
      else None)"

text \<open>
  Entry by entry: the chain from its index ends, with keys of growing length, and its key sits in
  the chain of its bucket. No key occurs twice.
\<close>

definition bucket :: "string \<Rightarrow> nat \<Rightarrow> nat" where
  "bucket k n = ((of_char (hd k) * of_char (last k)) * of_char (hd k) + length k) mod n + 1"

definition shs_entry_ok :: "nat \<Rightarrow> shs_entry list \<Rightarrow> nat \<Rightarrow> shs_entry \<Rightarrow> bool" where
  "shs_entry_ok fuel root j e \<longleftrightarrow>
     (case shs_chain root fuel j of None \<Rightarrow> False | Some js \<Rightarrow> sorted (map (\<lambda>j. shs_key_len (root ! j)) js)) \<and>
     (case shs_key e of
        None \<Rightarrow> True
      | Some k \<Rightarrow> k \<noteq> [] \<and> shs_key_len e = length k \<and>
         (case shs_chain root fuel (bucket k (length root - 1)) of None \<Rightarrow> False | Some js \<Rightarrow> j \<in> set js))"

fun shs_check :: "nat \<Rightarrow> shs_entry list \<Rightarrow> nat \<Rightarrow> shs_entry list \<Rightarrow> bool" where
  "shs_check fuel root j [] = True"
| "shs_check fuel root j (e # es) = (shs_entry_ok fuel root j e \<and> shs_check fuel root (j + 1) es)"

definition shs_wf :: "nat \<Rightarrow> shs_entry list \<Rightarrow> bool" where
  "shs_wf fuel root \<longleftrightarrow> 1 < length root \<and> shs_key_len (root ! 0) = length root - 1 \<and>
     shs_check fuel root 0 root \<and> distinct (List.map_filter shs_key root)"

lemma shs_check_nth: "shs_check fuel root i es \<Longrightarrow> j < length es \<Longrightarrow> shs_entry_ok fuel root (i + j) (es ! j)"
proof (induction es arbitrary: i j)
  case (Cons e es)
  then show ?case using Cons.IH [of "Suc i" "j - 1"] by (cases j) auto
qed simp

lemma shs_wf_entry: "shs_wf fuel root \<Longrightarrow> j < length root \<Longrightarrow> shs_entry_ok fuel root j (root ! j)"
  using shs_check_nth [of fuel root 0 root j] by (simp add: shs_wf_def)

lemma shs_chain_numeral:
  "shs_chain root (numeral n) i =
     (if i < length root
      then (case shs_key (root ! i) of
          None \<Rightarrow> Some []
        | Some k \<Rightarrow> map_option ((#) i) (shs_chain root (pred_numeral n) (shs_next (root ! i))))
      else None)"
  by (subst numeral_eq_Suc) simp

lemmas shs_eval = shs_wf_def shs_entry_ok_def bucket_def shs_chain_numeral shs_def shs_null_def List.map_filter_simps

section \<open>Lookup is search\<close>

lemma distinct_map_filter_nth:
  "distinct (List.map_filter f xs) \<Longrightarrow> i < length xs \<Longrightarrow> j < length xs \<Longrightarrow>
   f (xs ! i) = Some y \<Longrightarrow> f (xs ! j) = Some y \<Longrightarrow> i = j"
proof (induction xs arbitrary: i j)
  case (Cons x xs)
  have mem: "y \<in> set (List.map_filter f xs)" if "k < length xs" "f (xs ! k) = Some y" for k
    using that by (force simp: List.map_filter_def image_iff in_set_conv_nth)
  have tl: "distinct (List.map_filter f xs)"
    using Cons.prems(1) by (cases "f x") (auto simp: List.map_filter_simps)
  show ?case
  proof (cases i)
    case 0
    show ?thesis
    proof (cases j)
      case (Suc j')
      then have "y \<in> set (List.map_filter f xs)" using Cons.prems(3,5) mem [of j'] by simp
      then show ?thesis using Cons.prems(1,4) 0 by (simp add: List.map_filter_simps)
    qed (use 0 in simp)
  next
    case (Suc i')
    show ?thesis
    proof (cases j)
      case 0
      have "y \<in> set (List.map_filter f xs)" using Cons.prems(2,4) Suc mem [of i'] by simp
      then show ?thesis using Cons.prems(1,5) 0 by (simp add: List.map_filter_simps)
    next
      case (Suc j')
      with \<open>i = Suc i'\<close> Cons.IH [OF tl, of i' j'] Cons.prems show ?thesis by simp
    qed
  qed
qed simp

text \<open>Following a chain with growing keys finds the entry in the chain whose key compares equal.\<close>

abbreviation has_key :: "shs_entry list \<Rightarrow> bytes \<Rightarrow> nat \<Rightarrow> bool" where
  "has_key root key j \<equiv> map_option ascii (shs_key (root ! j)) = Some key"

lemma length_ascii [simp]: "length (ascii s) = length s"
  by (simp add: ascii_def)

lemma shs_chain_in: "shs_chain root f k = Some l \<Longrightarrow> j \<in> set l \<Longrightarrow> j < length root"
proof (induction f arbitrary: k l)
  case (Suc f)
  then show ?case by (auto split: if_splits option.splits)
qed simp

lemma shs_loop_chain:
  assumes cmp: "\<And>k. length k = length key \<Longrightarrow> cmp k key (length key) = Some (k = key')" and len: "length key' = length key"
  shows "shs_chain root fuel i = Some js \<Longrightarrow> sorted (map (\<lambda>j. shs_key_len (root ! j)) js) \<Longrightarrow>
     (\<And>j k. j < length root \<Longrightarrow> shs_key (root ! j) = Some k \<Longrightarrow> shs_key_len (root ! j) = length k) \<Longrightarrow>
     shs_loop cmp root key i = Some (List.find (has_key root key') js)"
proof (induction fuel arbitrary: i js)
  case (Suc fuel)
  then have i: "i < length root" by (auto split: if_splits)
  show ?case
  proof (cases "shs_key (root ! i)")
    case None
    with Suc.prems(1) i show ?thesis by (subst shs_loop.simps) simp
  next
    case (Some k)
    with Suc.prems(1) i obtain js' where js: "js = i # js'" "shs_chain root fuel (shs_next (root ! i)) = Some js'" by auto
    have k: "shs_key_len (root ! i) = length k" using Suc.prems(3) [OF i Some] .
    have IH: "shs_loop cmp root key (shs_next (root ! i)) = Some (List.find (has_key root key') js')"
      using Suc.IH [OF js(2)] Suc.prems(2,3) js(1) by auto
    consider "length k = length key" | "length k > length key" | "length k < length key" by linarith
    then show ?thesis
    proof cases
      case 1
      then have "cmp (ascii k) key (length key) = Some (ascii k = key')" using cmp [of "ascii k"] by simp
      with i Some k 1 IH js(1) show ?thesis by (subst shs_loop.simps) auto
    next
      case 2
      have "\<not> has_key root key' j" if "j \<in> set js" for j
      proof
        assume h: "has_key root key' j"
        then obtain k' where k': "shs_key (root ! j) = Some k'" "ascii k' = key'" by auto
        have "j < length root" using shs_chain_in [OF Suc.prems(1) that] .
        with Suc.prems(3) k' have "shs_key_len (root ! j) = length key'" by (metis length_ascii)
        moreover have "shs_key_len (root ! j) > length key" using Suc.prems(2) that js(1) k 2 by auto
        ultimately show False using len by simp
      qed
      then have "List.find (has_key root key') js = None" by (simp add: find_None_iff)
      with i Some k 2 show ?thesis by (subst shs_loop.simps) simp
    next
      case 3
      then have "ascii k \<noteq> key'" using len by auto
      with 3 i Some k IH js(1) show ?thesis by (subst shs_loop.simps) auto
    qed
  qed
qed simp

lemma unat_of_char: "unat (of_char c :: byte) = of_char c"
proof -
  have "of_char c < (256 :: nat)" by (metis nat_of_char_less_256)
  then have "unat (of_nat (of_char c) :: byte) = of_char c" by (simp add: unsigned_of_nat take_bit_nat_eq_self)
  then show ?thesis by (simp only: of_nat_of_char)
qed

lemma ascii_inj: "ascii s = ascii t \<longleftrightarrow> s = t"
proof -
  have "inj (of_char :: char \<Rightarrow> byte)" by (rule injI) (metis unat_of_char of_char_eq_iff)
  then show ?thesis by (simp add: ascii_def inj_map_eq_map)
qed

lemma make_id_bucket: "s \<noteq> [] \<Longrightarrow> lexbor_shs_make_id (\<lambda>c. c) (ascii s) n = Some (bucket s n)"
  by (simp add: lexbor_shs_make_id_def bucket_def ascii_def unat_of_char hd_conv_nth last_conv_nth)

lemma make_id_map: "lexbor_shs_make_id f key n = lexbor_shs_make_id (\<lambda>c. c) (map f key) n"
  by (cases "key = []") (simp_all add: lexbor_shs_make_id_def)

lemma shs_search:
  assumes wf: "shs_wf fuel root" and ne: "key \<noteq> []" and len: "length key' = length key"
    and cmp: "\<And>k. length k = length key \<Longrightarrow> cmp k key (length key) = Some (k = key')"
    and i: "lexbor_shs_make_id (\<lambda>c. c) key' (length root - 1) = Some i"
  shows "\<exists>r. shs_loop cmp root key i = Some r \<and> (\<forall>j. r = Some j \<longleftrightarrow> j < length root \<and> has_key root key' j)"
proof -
  have n: "1 < length root" and dist: "distinct (List.map_filter shs_key root)" using wf by (simp_all add: shs_wf_def)
  note ok = shs_wf_entry [OF wf, unfolded shs_entry_ok_def]
  have len_ok: "shs_key_len (root ! j) = length k" if "j < length root" "shs_key (root ! j) = Some k" for j k
    using ok [OF that(1)] that(2) by simp
  have key': "key' \<noteq> []" using ne len by auto
  then obtain m where "i = m mod (length root - 1) + 1" using i by (auto simp: lexbor_shs_make_id_def)
  then have "i < length root" using n mod_less_divisor [of "length root - 1" m] by linarith
  from ok [OF this] obtain js where js: "shs_chain root fuel i = Some js" "sorted (map (\<lambda>j. shs_key_len (root ! j)) js)"
    by (cases "shs_chain root fuel i") auto
  have run: "shs_loop cmp root key i = Some (List.find (has_key root key') js)"
    using cmp len js len_ok by (intro shs_loop_chain) auto
  have in_js: "j \<in> set js" if j: "j < length root" "has_key root key' j" for j
  proof -
    from j(2) obtain k where k: "shs_key (root ! j) = Some k" "ascii k = key'" by auto
    with ok [OF j(1)] have "k \<noteq> []" by auto
    then have "bucket k (length root - 1) = i" using i k(2) make_id_bucket by force
    with ok [OF j(1)] k(1) js(1) show ?thesis by simp
  qed
  show ?thesis
  proof (cases "List.find (has_key root key') js")
    case None
    then have "\<forall>j \<in> set js. \<not> has_key root key' j" by (simp add: find_None_iff)
    then have "\<not> (j < length root \<and> has_key root key' j)" for j using in_js by blast
    with run None show ?thesis by auto
  next
    case (Some m)
    then have m: "has_key root key' m" "m \<in> set js" by (auto simp: find_Some_iff)
    from shs_chain_in [OF js(1) m(2)] have "m < length root" .
    with m(1) have "j < length root \<and> has_key root key' j \<longleftrightarrow> j = m" for j
      using distinct_map_filter_nth [OF dist, of j m] ascii_inj by auto
    with run Some show ?thesis by auto
  qed
qed

lemma get_static_search:
  assumes wf: "shs_wf fuel root" and ne: "key \<noteq> []"
  shows "\<exists>r. lexbor_shs_entry_get_static root key = Some r \<and>
     (\<forall>j. r = Some j \<longleftrightarrow> j < length root \<and> has_key root key j)"
proof -
  obtain i where i: "lexbor_shs_make_id (\<lambda>c. c) key (length root - 1) = Some i"
    using ne by (simp add: lexbor_shs_make_id_def)
  have "shs_key_len (root ! 0) = length root - 1" using wf by (simp add: shs_wf_def)
  moreover have "\<exists>r. shs_loop lexbor_str_data_ncmp root key i = Some r \<and>
      (\<forall>j. r = Some j \<longleftrightarrow> j < length root \<and> has_key root key j)"
    by (rule shs_search [OF wf ne refl _ i]) (simp add: lexbor_str_data_ncmp_def memcmp_eq_def)
  ultimately show ?thesis using i by (simp add: lexbor_shs_entry_get_static_def)
qed

text \<open>The caseless lookup is the lookup of the lower-case name.\<close>

lemma get_lower_static_search:
  assumes wf: "shs_wf fuel root" and ne: "key \<noteq> []"
  shows "\<exists>r. lexbor_shs_entry_get_lower_static root key = Some r \<and>
     (\<forall>j. r = Some j \<longleftrightarrow> j < length root \<and> has_key root (map lexbor_str_res_map_lowercase key) j)"
proof -
  obtain i where i: "lexbor_shs_make_id (\<lambda>c. c) (map lexbor_str_res_map_lowercase key) (length root - 1) = Some i"
    using ne by (simp add: lexbor_shs_make_id_def)
  have "shs_key_len (root ! 0) = length root - 1" using wf by (simp add: shs_wf_def)
  moreover have "\<exists>r. shs_loop lexbor_str_data_nlocmp_right root key i = Some r \<and>
      (\<forall>j. r = Some j \<longleftrightarrow> j < length root \<and> has_key root (map lexbor_str_res_map_lowercase key) j)"
    by (rule shs_search [OF wf ne _ _ i]) (simp_all add: lexbor_str_data_nlocmp_right_def cmp_loop_is)
  ultimately show ?thesis using i
    by (simp add: lexbor_shs_entry_get_lower_static_def make_id_map [of lexbor_str_res_map_lowercase])
qed

text \<open>An empty name makes the lookups read in front of the buffer.\<close>

lemma get_static_empty:
  "lexbor_shs_entry_get_static root [] = None" "lexbor_shs_entry_get_lower_static root [] = None"
  by (simp_all add: lexbor_shs_entry_get_static_def lexbor_shs_entry_get_lower_static_def lexbor_shs_make_id_def)

end
