(* ===== verification/Lexbor_Hash.thy ===== *)
theory Lexbor_Hash
  imports Lexbor_Shs
begin

text \<open>
  The hash tables in which a document interns names (core/hash.c, core/hash.h). The entries live
  in a pool of their own (core/dobject.c), long keys in a text arena; both may refuse a request.
  A raw, a lower-case and an upper-case variant of every operation share the table. The interface
  "names to addresses" is the locale \<open>name_table\<close>.
\<close>

unbundle bit_operations_syntax

section \<open>Tables and entries\<close>

definition LEXBOR_HASH_SHORT_SIZE :: nat where "LEXBOR_HASH_SHORT_SIZE = 16"
definition LEXBOR_HASH_TABLE_MIN_SIZE :: nat where "LEXBOR_HASH_TABLE_MIN_SIZE = 32"

text \<open>The union of a short buffer (17 bytes) and a pointer to a long string.\<close>

datatype hash_str = Short_str bytes | Long_str "addr option"

text \<open>An entry, with the identifier that the structs of names put behind it.\<close>

record lexbor_hash_entry =
  he_u :: hash_str
  he_length :: nat
  he_next :: "addr option"
  he_id :: nat

record lexbor_hash =
  hs_entries :: "addr \<rightharpoonup> lexbor_hash_entry"
  hs_fresh :: addr
  hs_reqs :: nat
  hs_fails :: "nat \<Rightarrow> bool"
  hs_mraw :: arena
  hs_table :: "addr option list"
  hs_table_size :: nat
  hs_struct_size :: nat

section \<open>Hash codes\<close>

definition hash_step :: "(byte \<Rightarrow> byte) \<Rightarrow> byte \<Rightarrow> 32 word \<Rightarrow> 32 word" where
  "hash_step f c hash_id =
     (let hash_id = hash_id + ucast (f c);
          hash_id = hash_id + push_bit 10 hash_id in
      hash_id XOR drop_bit 6 hash_id)"

definition hash_end :: "32 word \<Rightarrow> 32 word" where
  "hash_end hash_id =
     (let hash_id = hash_id + push_bit 3 hash_id;
          hash_id = hash_id XOR drop_bit 11 hash_id in
      hash_id + push_bit 15 hash_id)"

definition lexbor_hash_make_id :: "bytes \<Rightarrow> 32 word" where
  "lexbor_hash_make_id key = hash_end (fold (hash_step (\<lambda>c. c)) key 0)"

definition lexbor_hash_make_id_lower :: "bytes \<Rightarrow> 32 word" where
  "lexbor_hash_make_id_lower key = hash_end (fold (hash_step lexbor_str_res_map_lowercase) key 0)"

definition lexbor_hash_make_id_upper :: "bytes \<Rightarrow> 32 word" where
  "lexbor_hash_make_id_upper key = hash_end (fold (hash_step lexbor_str_res_map_uppercase) key 0)"

section \<open>Entries\<close>

text \<open>\<open>lexbor_hash_entry_str\<close>: the buffer a key is compared in; reading the union as what it is not is undefined.\<close>

definition lexbor_hash_entry_str :: "lexbor_hash \<Rightarrow> lexbor_hash_entry \<Rightarrow> bytes option" where
  "lexbor_hash_entry_str hash entry =
     (if he_length entry \<le> LEXBOR_HASH_SHORT_SIZE
      then (case he_u entry of Short_str buf \<Rightarrow> Some buf | Long_str _ \<Rightarrow> None)
      else (case he_u entry of Short_str _ \<Rightarrow> None | Long_str p \<Rightarrow> do { p \<leftarrow> p; ar_blocks (hs_mraw hash) p }))"

text \<open>Storing the key, each character through \<open>f\<close>.\<close>

definition hash_copy_by ::
  "(byte \<Rightarrow> byte) \<Rightarrow> lexbor_hash \<Rightarrow> addr \<Rightarrow> bytes \<Rightarrow> (lxb_status \<times> lexbor_hash) option" where
  "hash_copy_by f hash entry key = do {
     e \<leftarrow> hs_entries hash entry;
     (if length key \<le> LEXBOR_HASH_SHORT_SIZE
      then (case he_u e of
          Short_str buf \<Rightarrow> Some (LXB_STATUS_OK, hash\<lparr>hs_entries := (hs_entries hash)(entry \<mapsto>
            e\<lparr>he_u := Short_str (map f key @ 0 # drop (length key + 1) buf)\<rparr>)\<rparr>)
        | Long_str _ \<Rightarrow> None)
      else do {
        let (p, A) = lexbor_mraw_alloc (hs_mraw hash) (length key + 1);
        let hash = hash\<lparr>hs_mraw := A, hs_entries := (hs_entries hash)(entry \<mapsto> e\<lparr>he_u := Long_str p\<rparr>)\<rparr>;
        (if p = None then Some (LXB_STATUS_ERROR_MEMORY_ALLOCATION, hash)
         else do {
           A \<leftarrow> blk_write A p 0 (map f key);
           A \<leftarrow> blk_write A p (length key) [0];
           Some (LXB_STATUS_OK, hash\<lparr>hs_mraw := A\<rparr>) }) }) }"

definition lexbor_hash_copy where "lexbor_hash_copy = hash_copy_by (\<lambda>c. c)"
definition lexbor_hash_copy_lower where "lexbor_hash_copy_lower = hash_copy_by lexbor_str_res_map_lowercase"
definition lexbor_hash_copy_upper where "lexbor_hash_copy_upper = hash_copy_by lexbor_str_res_map_uppercase"

record lexbor_hash_search =
  hf_hash :: "bytes \<Rightarrow> 32 word"
  hf_cmp :: "bytes \<Rightarrow> bytes \<Rightarrow> nat \<Rightarrow> bool option"

record lexbor_hash_insert = lexbor_hash_search +
  hf_copy :: "lexbor_hash \<Rightarrow> addr \<Rightarrow> bytes \<Rightarrow> (lxb_status \<times> lexbor_hash) option"

definition lexbor_hash_insert_raw :: lexbor_hash_insert where
  "lexbor_hash_insert_raw = \<lparr>hf_hash = lexbor_hash_make_id, hf_cmp = lexbor_str_data_ncmp, hf_copy = lexbor_hash_copy\<rparr>"
definition lexbor_hash_insert_lower :: lexbor_hash_insert where
  "lexbor_hash_insert_lower = \<lparr>hf_hash = lexbor_hash_make_id_lower, hf_cmp = lexbor_str_data_nlocmp_right,
     hf_copy = lexbor_hash_copy_lower\<rparr>"
definition lexbor_hash_insert_upper :: lexbor_hash_insert where
  "lexbor_hash_insert_upper = \<lparr>hf_hash = lexbor_hash_make_id_upper, hf_cmp = lexbor_str_data_nupcmp_right,
     hf_copy = lexbor_hash_copy_upper\<rparr>"
definition lexbor_hash_search_raw :: lexbor_hash_search where
  "lexbor_hash_search_raw = \<lparr>hf_hash = lexbor_hash_make_id, hf_cmp = lexbor_str_data_ncmp\<rparr>"
definition lexbor_hash_search_lower :: lexbor_hash_search where
  "lexbor_hash_search_lower = \<lparr>hf_hash = lexbor_hash_make_id_lower, hf_cmp = lexbor_str_data_nlocmp_right\<rparr>"
definition lexbor_hash_search_upper :: lexbor_hash_search where
  "lexbor_hash_search_upper = \<lparr>hf_hash = lexbor_hash_make_id_upper, hf_cmp = lexbor_str_data_nupcmp_right\<rparr>"

definition dobject_calloc :: "lexbor_hash \<Rightarrow> addr option \<times> lexbor_hash" where
  "dobject_calloc hash = (let hash' = hash\<lparr>hs_reqs := hs_reqs hash + 1\<rparr> in
     if hs_fails hash (hs_reqs hash) then (None, hash')
     else (Some (hs_fresh hash), hash'\<lparr>hs_fresh := hs_fresh hash + 1, hs_entries := (hs_entries hash)(hs_fresh hash \<mapsto>
       \<lparr>he_u = Short_str (replicate 17 0), he_length = 0, he_next = None, he_id = 0\<rparr>)\<rparr>))"

definition hash_entry_create ::
  "lexbor_hash \<Rightarrow> (lexbor_hash \<Rightarrow> addr \<Rightarrow> bytes \<Rightarrow> (lxb_status \<times> lexbor_hash) option) \<Rightarrow> bytes \<Rightarrow>
   (addr option \<times> lexbor_hash) option" where
  "hash_entry_create hash copy_func key = do {
     let (entry, hash) = dobject_calloc hash;
     (case entry of
       None \<Rightarrow> Some (None, hash)
     | Some x \<Rightarrow> do {
         e \<leftarrow> hs_entries hash x;
         let hash = hash\<lparr>hs_entries := (hs_entries hash)(x \<mapsto> e\<lparr>he_length := length key\<rparr>)\<rparr>;
         (status, hash) \<leftarrow> copy_func hash x key;
         (if status \<noteq> LXB_STATUS_OK
          then Some (None, hash\<lparr>hs_entries := (hs_entries hash)(x := None)\<rparr>)
          else Some (entry, hash)) }) }"

section \<open>Operations\<close>

text \<open>The length test in front of the comparison.\<close>

definition hash_hit ::
  "lexbor_hash \<Rightarrow> (bytes \<Rightarrow> bytes \<Rightarrow> nat \<Rightarrow> bool option) \<Rightarrow> bytes \<Rightarrow> lexbor_hash_entry \<Rightarrow> bool option" where
  "hash_hit hash cmp key e =
     (if he_length e = length key then do {
        str \<leftarrow> lexbor_hash_entry_str hash e;
        cmp str key (length key) }
      else Some False)"

text \<open>The \<open>do\<close> loop of the insertions: the entry found (\<open>Inl\<close>), or the last of the chain.\<close>

partial_function (option) hash_insert_loop ::
  "lexbor_hash \<Rightarrow> (bytes \<Rightarrow> bytes \<Rightarrow> nat \<Rightarrow> bool option) \<Rightarrow> bytes \<Rightarrow> addr \<Rightarrow> (addr + addr) option" where
  [code]: "hash_insert_loop hash cmp key entry = do {
     e \<leftarrow> hs_entries hash entry;
     hit \<leftarrow> hash_hit hash cmp key e;
     (if hit then Some (Inl entry)
      else (case he_next e of
        None \<Rightarrow> Some (Inr entry)
      | Some nx \<Rightarrow> hash_insert_loop hash cmp key nx)) }"

definition table_idx :: "lexbor_hash \<Rightarrow> 32 word \<Rightarrow> nat" where
  "table_idx hash hash_id = unat hash_id mod hs_table_size hash"

text \<open>Reading a bucket; outside the table it is undefined.\<close>

definition table_get :: "lexbor_hash \<Rightarrow> nat \<Rightarrow> addr option option" where
  "table_get hash i = (if i < length (hs_table hash) then Some (hs_table hash ! i) else None)"

definition set_next :: "lexbor_hash \<Rightarrow> addr \<Rightarrow> addr option \<Rightarrow> lexbor_hash option" where
  "set_next hash x v = do {
     e \<leftarrow> hs_entries hash x;
     Some (hash\<lparr>hs_entries := (hs_entries hash)(x \<mapsto> e\<lparr>he_next := v\<rparr>)\<rparr>) }"

definition lexbor_hash_insert :: "lexbor_hash \<Rightarrow> lexbor_hash_insert \<Rightarrow> bytes \<Rightarrow> (addr option \<times> lexbor_hash) option" where
  "lexbor_hash_insert hash ins key = do {
     let i = table_idx hash (hf_hash ins key);
     entry \<leftarrow> table_get hash i;
     (case entry of
       None \<Rightarrow> do {
         (entry, hash) \<leftarrow> hash_entry_create hash (hf_copy ins) key;
         Some (entry, hash\<lparr>hs_table := (hs_table hash)[i := entry]\<rparr>) }
     | Some x \<Rightarrow> do {
         r \<leftarrow> hash_insert_loop hash (hf_cmp ins) key x;
         (case r of
           Inl y \<Rightarrow> Some (Some y, hash)
         | Inr y \<Rightarrow> do {
             (entry, hash) \<leftarrow> hash_entry_create hash (hf_copy ins) key;
             hash \<leftarrow> set_next hash y entry;
             Some (entry, hash) }) }) }"

definition lexbor_hash_insert_by_entry ::
  "lexbor_hash \<Rightarrow> addr \<Rightarrow> lexbor_hash_search \<Rightarrow> bytes \<Rightarrow> (addr \<times> lexbor_hash) option" where
  "lexbor_hash_insert_by_entry hash entry search key = do {
     let i = table_idx hash (hf_hash search key);
     item \<leftarrow> table_get hash i;
     (case item of
       None \<Rightarrow> Some (entry, hash\<lparr>hs_table := (hs_table hash)[i := Some entry]\<rparr>)
     | Some x \<Rightarrow> do {
         r \<leftarrow> hash_insert_loop hash (hf_cmp search) key x;
         (case r of
           Inl y \<Rightarrow> Some (y, hash)
         | Inr y \<Rightarrow> do { hash \<leftarrow> set_next hash y (Some entry); Some (entry, hash) }) }) }"

partial_function (option) hash_search_loop ::
  "lexbor_hash \<Rightarrow> (bytes \<Rightarrow> bytes \<Rightarrow> nat \<Rightarrow> bool option) \<Rightarrow> bytes \<Rightarrow> addr option \<Rightarrow> addr option option" where
  [code]: "hash_search_loop hash cmp key entry = (if entry = None then Some None
   else do {
     x \<leftarrow> entry;
     e \<leftarrow> hs_entries hash x;
     hit \<leftarrow> hash_hit hash cmp key e;
     (if hit then Some (Some x) else hash_search_loop hash cmp key (he_next e)) })"

definition lexbor_hash_search_by_hash_id ::
  "lexbor_hash \<Rightarrow> 32 word \<Rightarrow> bytes \<Rightarrow> (bytes \<Rightarrow> bytes \<Rightarrow> nat \<Rightarrow> bool option) \<Rightarrow> addr option option" where
  "lexbor_hash_search_by_hash_id hash hash_id key cmp_func = do {
     entry \<leftarrow> table_get hash (table_idx hash hash_id);
     hash_search_loop hash cmp_func key entry }"

definition lexbor_hash_search :: "lexbor_hash \<Rightarrow> lexbor_hash_search \<Rightarrow> bytes \<Rightarrow> addr option option" where
  "lexbor_hash_search hash search key = lexbor_hash_search_by_hash_id hash (hf_hash search key) key (hf_cmp search)"

text \<open>The removal loop, with the entry before the current one.\<close>

partial_function (option) hash_remove_loop ::
  "lexbor_hash \<Rightarrow> (bytes \<Rightarrow> bytes \<Rightarrow> nat \<Rightarrow> bool option) \<Rightarrow> bytes \<Rightarrow> nat \<Rightarrow> addr option \<Rightarrow> addr option \<Rightarrow>
   lexbor_hash option" where
  [code]: "hash_remove_loop hash cmp key i prev entry = (if entry = None then Some hash
   else do {
       x \<leftarrow> entry;
       e \<leftarrow> hs_entries hash x;
       hit \<leftarrow> hash_hit hash cmp key e;
       (if hit then do {
          hash \<leftarrow> (case prev of
            None \<Rightarrow> Some (hash\<lparr>hs_table := (hs_table hash)[i := he_next e]\<rparr>)
          | Some p \<Rightarrow> set_next hash p (he_next e));
          hash \<leftarrow> (if length key > LEXBOR_HASH_SHORT_SIZE
            then (case he_u e of
                Long_str p \<Rightarrow> map_option (\<lambda>A. hash\<lparr>hs_mraw := A\<rparr>) (lexbor_mraw_free (hs_mraw hash) p)
              | Short_str _ \<Rightarrow> None)
            else Some hash);
          Some (hash\<lparr>hs_entries := (hs_entries hash)(x := None)\<rparr>) }
        else hash_remove_loop hash cmp key i (Some x) (he_next e)) })"

definition lexbor_hash_remove_by_hash_id ::
  "lexbor_hash \<Rightarrow> 32 word \<Rightarrow> bytes \<Rightarrow> (bytes \<Rightarrow> bytes \<Rightarrow> nat \<Rightarrow> bool option) \<Rightarrow> lexbor_hash option" where
  "lexbor_hash_remove_by_hash_id hash hash_id key cmp_func = do {
     let i = table_idx hash hash_id;
     entry \<leftarrow> table_get hash i;
     hash_remove_loop hash cmp_func key i None entry }"

definition lexbor_hash_remove :: "lexbor_hash \<Rightarrow> lexbor_hash_search \<Rightarrow> bytes \<Rightarrow> lexbor_hash option" where
  "lexbor_hash_remove hash search key = lexbor_hash_remove_by_hash_id hash (hf_hash search key) key (hf_cmp search)"

text \<open>
  Creating a table: \<open>answers\<close> are the statuses of initialising the pool and the arena, and whether the
  bucket array was granted. \<open>lexbor_hash_clean\<close> drops all entries and keys.
\<close>

definition lexbor_hash_init ::
  "lxb_status \<times> lxb_status \<times> bool \<Rightarrow> lexbor_hash option \<Rightarrow> nat \<Rightarrow> nat \<Rightarrow> lxb_status \<times> lexbor_hash option" where
  "lexbor_hash_init answers hash table_size struct_size = (case hash of
     None \<Rightarrow> (LXB_STATUS_ERROR_OBJECT_IS_NULL, None)
   | Some h \<Rightarrow>
      (let table_size = (if table_size < LEXBOR_HASH_TABLE_MIN_SIZE then LEXBOR_HASH_TABLE_MIN_SIZE else table_size);
           h = h\<lparr>hs_table_size := table_size\<rparr>;
           (pool, mraw, table) = answers in
       if pool \<noteq> LXB_STATUS_OK then (pool, Some h)
       else let h = h\<lparr>hs_entries := Map.empty\<rparr> in
       if mraw \<noteq> LXB_STATUS_OK then (mraw, Some h)
       else let h = h\<lparr>hs_mraw := (hs_mraw h)\<lparr>ar_blocks := Map.empty\<rparr>\<rparr> in
       if \<not> table then (LXB_STATUS_ERROR_MEMORY_ALLOCATION, Some h)
       else (LXB_STATUS_OK, Some (h\<lparr>hs_table := replicate table_size None, hs_struct_size := struct_size\<rparr>))))"

definition lexbor_hash_clean :: "lexbor_hash \<Rightarrow> lexbor_hash" where
  "lexbor_hash_clean hash = hash\<lparr>hs_entries := Map.empty, hs_mraw := (hs_mraw hash)\<lparr>ar_blocks := Map.empty\<rparr>,
     hs_table := replicate (hs_table_size hash) None\<rparr>"

section \<open>Well-formed tables\<close>

definition entry_key :: "lexbor_hash \<Rightarrow> lexbor_hash_entry \<Rightarrow> bytes option" where
  "entry_key H e = do {
     s \<leftarrow> lexbor_hash_entry_str H e;
     (if he_length e \<le> length s then Some (take (he_length e) s) else None) }"

definition hkey :: "lexbor_hash \<Rightarrow> addr \<Rightarrow> bytes option" where
  "hkey H x = do { e \<leftarrow> hs_entries H x; entry_key H e }"

fun chain :: "(addr \<rightharpoonup> lexbor_hash_entry) \<Rightarrow> addr option \<Rightarrow> addr list \<Rightarrow> bool" where
  "chain m p [] = (p = None)"
| "chain m p (x # xs) = (p = Some x \<and> (\<exists>e. m x = Some e \<and> chain m (he_next e) xs))"

definition slot :: "lexbor_hash \<Rightarrow> bytes \<Rightarrow> nat" where
  "slot H k = table_idx H (lexbor_hash_make_id k)"

text \<open>
  \<open>C i\<close> lists the entries of bucket \<open>i\<close>. Every entry is in the bucket of its key, no two have the same
  key, and no two share the block of a long key.
\<close>

definition hash_wf :: "lexbor_hash \<Rightarrow> (nat \<Rightarrow> addr list) \<Rightarrow> bool" where
  "hash_wf H C \<longleftrightarrow>
     hs_table_size H = length (hs_table H) \<and> hs_table H \<noteq> [] \<and> ar_wf (hs_mraw H) \<and>
     (\<forall>i < length (hs_table H). chain (hs_entries H) (hs_table H ! i) (C i) \<and> distinct (C i)) \<and>
     (\<forall>i < length (hs_table H). \<forall>x \<in> set (C i). \<exists>k. hkey H x = Some k \<and> slot H k = i) \<and>
     (\<forall>x y k. hkey H x = Some k \<longrightarrow> hkey H y = Some k \<longrightarrow> x = y) \<and>
     (\<forall>x e. hs_entries H x = Some e \<longrightarrow> x < hs_fresh H \<and> (\<exists>i < length (hs_table H). x \<in> set (C i))) \<and>
     (\<forall>x y ex ey p. hs_entries H x = Some ex \<longrightarrow> hs_entries H y = Some ey \<longrightarrow>
        he_u ex = Long_str (Some p) \<longrightarrow> he_u ey = Long_str (Some p) \<longrightarrow> x = y)"

text \<open>The three variants of the operations: characters go through \<open>f\<close>.\<close>

definition cmp_by :: "(byte \<Rightarrow> byte) \<Rightarrow> (bytes \<Rightarrow> bytes \<Rightarrow> nat \<Rightarrow> bool option) \<Rightarrow> bool" where
  "cmp_by f cmp \<longleftrightarrow> (\<forall>s key. length key \<le> length s \<longrightarrow> cmp s key (length key) = Some (take (length key) s = map f key))"

lemma cmp_by_variants:
  "cmp_by (\<lambda>c. c) lexbor_str_data_ncmp"
  "cmp_by lexbor_str_res_map_lowercase lexbor_str_data_nlocmp_right"
  "cmp_by lexbor_str_res_map_uppercase lexbor_str_data_nupcmp_right"
  by (auto simp: cmp_by_def lexbor_str_data_ncmp_def memcmp_eq_def lexbor_str_data_nlocmp_right_def
      lexbor_str_data_nupcmp_right_def cmp_loop_is)

lemma make_id_variants:
  "lexbor_hash_make_id_lower key = lexbor_hash_make_id (map lexbor_str_res_map_lowercase key)"
  "lexbor_hash_make_id_upper key = lexbor_hash_make_id (map lexbor_str_res_map_uppercase key)"
proof -
  have "hash_step f c = hash_step (\<lambda>c. c) (f c)" for f c by (rule ext) (simp add: hash_step_def)
  then have "fold (hash_step f) key h = fold (hash_step (\<lambda>c. c)) (map f key) h" for f h
    by (induction key arbitrary: h) simp_all
  then show "lexbor_hash_make_id_lower key = lexbor_hash_make_id (map lexbor_str_res_map_lowercase key)"
    "lexbor_hash_make_id_upper key = lexbor_hash_make_id (map lexbor_str_res_map_uppercase key)"
    by (simp_all add: lexbor_hash_make_id_lower_def lexbor_hash_make_id_upper_def lexbor_hash_make_id_def)
qed

section \<open>Searching\<close>

lemma hash_hit_is:
  assumes "cmp_by f cmp" and "entry_key H e = Some k"
  shows "hash_hit H cmp key e = Some (k = map f key)"
proof (cases "he_length e = length key")
  case True
  with assms show ?thesis
    by (auto simp: hash_hit_def entry_key_def cmp_by_def split: if_splits bind_splits)
next
  case False
  then have "length k \<noteq> length key" using assms(2) by (auto simp: entry_key_def split: if_splits bind_splits)
  then have "k \<noteq> map f key" by auto
  with False show ?thesis by (simp add: hash_hit_def)
qed

lemma hkey_entry: "hkey H x = Some k \<longleftrightarrow> (\<exists>e. hs_entries H x = Some e \<and> entry_key H e = Some k)"
  by (auto simp: hkey_def split: bind_splits)

lemma search_loop_is:
  assumes cmp: "cmp_by f cmp"
  shows "chain (hs_entries H) p xs \<Longrightarrow> \<forall>x \<in> set xs. \<exists>k. hkey H x = Some k \<Longrightarrow>
     hash_search_loop H cmp key p = Some (List.find (\<lambda>x. hkey H x = Some (map f key)) xs)"
proof (induction xs arbitrary: p)
  case Nil
  then show ?case by (subst hash_search_loop.simps) simp
next
  case (Cons x xs)
  then obtain e k where e: "hs_entries H x = Some e" "chain (hs_entries H) (he_next e) xs" "hkey H x = Some k"
    by auto
  then have "hash_hit H cmp key e = Some (k = map f key)" using hash_hit_is [OF cmp] by (auto simp: hkey_entry)
  with Cons e show ?case by (subst hash_search_loop.simps) auto
qed

lemma insert_loop_is:
  assumes cmp: "cmp_by f cmp"
  shows "chain (hs_entries H) (Some x) (x # xs) \<Longrightarrow> \<forall>y \<in> set (x # xs). \<exists>k. hkey H y = Some k \<Longrightarrow>
     hash_insert_loop H cmp key x = Some (case List.find (\<lambda>x. hkey H x = Some (map f key)) (x # xs) of
       Some y \<Rightarrow> Inl y | None \<Rightarrow> Inr (last (x # xs)))"
proof (induction xs arbitrary: x)
  case Nil
  then obtain e k where e: "hs_entries H x = Some e" "he_next e = None" "hkey H x = Some k" by auto
  then have "hash_hit H cmp key e = Some (k = map f key)" using hash_hit_is [OF cmp] by (auto simp: hkey_entry)
  with e show ?case by (subst hash_insert_loop.simps) auto
next
  case (Cons z zs)
  then obtain e k where e: "hs_entries H x = Some e" "chain (hs_entries H) (he_next e) (z # zs)" "hkey H x = Some k"
    by auto
  then have h: "hash_hit H cmp key e = Some (k = map f key)" using hash_hit_is [OF cmp] by (auto simp: hkey_entry)
  from e(2) have nx: "he_next e = Some z" by simp
  have "hash_insert_loop H cmp key z = Some (case List.find (\<lambda>x. hkey H x = Some (map f key)) (z # zs) of
       Some y \<Rightarrow> Inl y | None \<Rightarrow> Inr (last (z # zs)))"
    using Cons.IH [of z] Cons.prems(2) e(2) nx by auto
  with e(1,3) h nx show ?case by (subst hash_insert_loop.simps) (auto split: option.splits)
qed

lemma hash_wf_slot:
  "hash_wf H C \<Longrightarrow> slot H k < length (hs_table H)"
  by (simp add: hash_wf_def slot_def table_idx_def)

lemma hash_wf_chain:
  "hash_wf H C \<Longrightarrow> i < length (hs_table H) \<Longrightarrow> chain (hs_entries H) (hs_table H ! i) (C i)"
  by (simp add: hash_wf_def)

lemma hash_wf_keys:
  "hash_wf H C \<Longrightarrow> i < length (hs_table H) \<Longrightarrow> x \<in> set (C i) \<Longrightarrow> \<exists>k. hkey H x = Some k \<and> slot H k = i"
  unfolding hash_wf_def by blast

lemma hash_wf_found:
  assumes wf: "hash_wf H C"
  shows "(\<forall>x. List.find (\<lambda>x. hkey H x = Some k) (C (slot H k)) = Some x \<longleftrightarrow> hkey H x = Some k)"
proof -
  have in_C: "x \<in> set (C (slot H k))" if x: "hkey H x = Some k" for x
  proof -
    obtain e where "hs_entries H x = Some e" using x by (auto simp: hkey_entry)
    then obtain i where i: "i < length (hs_table H)" "x \<in> set (C i)" using wf unfolding hash_wf_def by blast
    with wf x have "slot H k = i" unfolding hash_wf_def by (metis option.inject)
    with i show ?thesis by simp
  qed
  have uniq: "hkey H x = Some k \<Longrightarrow> hkey H y = Some k \<Longrightarrow> x = y" for x y
    using wf unfolding hash_wf_def by blast
  show ?thesis
  proof (cases "List.find (\<lambda>x. hkey H x = Some k) (C (slot H k))")
    case None
    then show ?thesis using in_C by (fastforce simp: find_None_iff)
  next
    case (Some y)
    then have "hkey H y = Some k" by (auto simp: find_Some_iff)
    with Some uniq show ?thesis by auto
  qed
qed

lemma search_by_is:
  assumes wf: "hash_wf H C" and cmp: "cmp_by f cmp"
  shows "\<exists>r. lexbor_hash_search_by_hash_id H (lexbor_hash_make_id (map f key)) key cmp = Some r \<and>
     (\<forall>x. r = Some x \<longleftrightarrow> hkey H x = Some (map f key))"
proof -
  let ?i = "slot H (map f key)"
  have i: "?i < length (hs_table H)" by (rule hash_wf_slot [OF wf])
  have "hash_search_loop H cmp key (hs_table H ! ?i) = Some (List.find (\<lambda>x. hkey H x = Some (map f key)) (C ?i))"
    using hash_wf_chain [OF wf i] hash_wf_keys [OF wf i] by (intro search_loop_is [OF cmp]) blast+
  with hash_wf_found [OF wf, of "map f key"] i show ?thesis
    by (simp add: lexbor_hash_search_by_hash_id_def table_get_def slot_def)
qed

section \<open>Inserting\<close>

lemma chain_cong: "(\<And>z. z \<in> set xs \<Longrightarrow> m z = m' z) \<Longrightarrow> chain m p xs = chain m' p xs"
  by (induction xs arbitrary: p) auto

lemma chain_snoc:
  "chain m p (xs @ [y]) \<Longrightarrow> distinct (xs @ [y]) \<Longrightarrow> x \<notin> set (xs @ [y]) \<Longrightarrow> m y = Some ey \<Longrightarrow>
   he_next e = None \<Longrightarrow> chain (m(x \<mapsto> e, y \<mapsto> ey\<lparr>he_next := Some x\<rparr>)) p (xs @ [y, x])"
proof (induction xs arbitrary: p)
  case (Cons z zs)
  then show ?case by (auto split: if_splits)
qed auto

lemma chain_last: "chain m p xs \<Longrightarrow> xs \<noteq> [] \<Longrightarrow> \<exists>e. m (last xs) = Some e \<and> he_next e = None"
  by (induction xs arbitrary: p) auto

text \<open>The key of an entry depends on its string only, and survives when blocks are added.\<close>

lemma hkey_mono:
  assumes "hkey H x = Some k" and "hs_entries H x = Some e" and "hs_entries H' x = Some e'"
    and "he_u e' = he_u e" "he_length e' = he_length e" and "ar_blocks (hs_mraw H) \<subseteq>\<^sub>m ar_blocks (hs_mraw H')"
  shows "hkey H' x = Some k"
proof -
  have ext: "ar_blocks (hs_mraw H) p = Some b \<Longrightarrow> ar_blocks (hs_mraw H') p = Some b" for p b
    using assms(6) by (metis domI map_le_def)
  from assms show ?thesis
    by (auto simp: hkey_def entry_key_def lexbor_hash_entry_str_def split: if_splits hash_str.splits bind_splits dest!: ext)
qed

lemma entry_create_is:
  assumes wf: "ar_wf (hs_mraw H)" and fresh: "hs_entries H (hs_fresh H) = None" and n: "length key < 2 ^ 62"
  shows "\<exists>r H'. hash_entry_create H (hash_copy_by f) key = Some (r, H') \<and> ar_wf (hs_mraw H') \<and>
     hs_table H' = hs_table H \<and> hs_table_size H' = hs_table_size H \<and> hs_fresh H \<le> hs_fresh H' \<and>
     ar_blocks (hs_mraw H) \<subseteq>\<^sub>m ar_blocks (hs_mraw H') \<and>
     (case r of None \<Rightarrow> hs_entries H' = hs_entries H
      | Some x \<Rightarrow> x = hs_fresh H \<and> hs_fresh H' = x + 1 \<and>
         (\<exists>e. hs_entries H' = (hs_entries H)(x \<mapsto> e) \<and> he_next e = None \<and> he_id e = 0 \<and>
            entry_key H' e = Some (map f key) \<and>
            (\<forall>p. he_u e = Long_str (Some p) \<longrightarrow> ar_blocks (hs_mraw H) p = None)))"
proof (cases "hs_fails H (hs_reqs H)")
  case True
  with wf show ?thesis by (simp add: hash_entry_create_def dobject_calloc_def Let_def)
next
  case False
  let ?x = "hs_fresh H"
  let ?ex = "\<lparr>he_u = Short_str (replicate 17 0), he_length = length key, he_next = None, he_id = 0\<rparr>"
  let ?Hx = "H\<lparr>hs_reqs := hs_reqs H + 1, hs_fresh := ?x + 1, hs_entries := (hs_entries H)(?x \<mapsto> ?ex)\<rparr>"
  have create: "hash_entry_create H (hash_copy_by f) key = do {
      (status, hash) \<leftarrow> hash_copy_by f ?Hx ?x key;
      (if status \<noteq> LXB_STATUS_OK then Some (None, hash\<lparr>hs_entries := (hs_entries hash)(?x := None)\<rparr>)
       else Some (Some ?x, hash)) }"
    using False by (simp add: hash_entry_create_def dobject_calloc_def Let_def)
  show ?thesis
  proof (cases "length key \<le> LEXBOR_HASH_SHORT_SIZE")
    case True
    let ?e = "?ex\<lparr>he_u := Short_str (map f key @ 0 # drop (length key + 1) (replicate 17 0))\<rparr>"
    let ?H = "?Hx\<lparr>hs_entries := (hs_entries H)(?x \<mapsto> ?e)\<rparr>"
    have "hash_copy_by f ?Hx ?x key = Some (LXB_STATUS_OK, ?H)"
      using True by (simp add: hash_copy_by_def)
    moreover have "entry_key ?H ?e = Some (map f key)"
      using True by (simp add: entry_key_def lexbor_hash_entry_str_def)
    ultimately have "hash_entry_create H (hash_copy_by f) key = Some (Some ?x, ?H)" "entry_key ?H ?e = Some (map f key)"
      using create by simp_all
    then show ?thesis using wf
      by (intro exI [of _ "Some ?x"] exI [of _ ?H]) (simp, intro exI [of _ ?e], simp)
  next
    case long: False
    obtain q A where a: "lexbor_mraw_alloc (hs_mraw H) (length key + 1) = (q, A)" by force
    have "length key + 1 < 2 ^ 63" using n by simp
    note al = mraw_alloc_cases [OF wf this a]
    let ?Hy = "?Hx\<lparr>hs_mraw := A, hs_entries := (hs_entries H)(?x \<mapsto> ?ex\<lparr>he_u := Long_str q\<rparr>)\<rparr>"
    have copy: "hash_copy_by f ?Hx ?x key =
        (if q = None then Some (LXB_STATUS_ERROR_MEMORY_ALLOCATION, ?Hy)
         else do {
           A \<leftarrow> blk_write A q 0 (map f key);
           A \<leftarrow> blk_write A q (length key) [0];
           Some (LXB_STATUS_OK, ?Hy\<lparr>hs_mraw := A\<rparr>) })"
      using long a by (simp add: hash_copy_by_def Let_def)
    show ?thesis
    proof (cases q)
      case None
      with al copy create fresh show ?thesis by (simp add: fun_upd_idem)
    next
      case (Some p)
      from al [unfolded Some option.case] obtain b where b: "ar_wf A" "ar_blocks (hs_mraw H) p = None"
        "length key + 1 \<le> length b" "ar_blocks A = (ar_blocks (hs_mraw H))(p \<mapsto> b)" by blast
      have "ar_blocks A p = Some ([] @ b)" using b(4) by simp
      from write_behind [OF this, of "map f key"] b(3) obtain A2 A3 rest where
        w: "blk_write A (Some p) 0 (map f key) = Some A2" "blk_write A2 (Some p) (length key) [0] = Some A3"
        "A3 = A\<lparr>ar_blocks := (ar_blocks A)(p \<mapsto> map f key @ 0 # rest)\<rparr>" by auto
      let ?e = "?ex\<lparr>he_u := Long_str q\<rparr>" and ?H = "?Hy\<lparr>hs_mraw := A3\<rparr>"
      have "hash_entry_create H (hash_copy_by f) key = Some (Some ?x, ?H)" using create copy Some w(1,2) by simp
      moreover have "entry_key ?H ?e = Some (map f key)"
        using long Some w(3) by (simp add: entry_key_def lexbor_hash_entry_str_def)
      moreover have "ar_wf A3" "ar_blocks (hs_mraw H) \<subseteq>\<^sub>m ar_blocks A3"
        using b w(3) by (auto simp: ar_wf_def map_le_def)
      ultimately show ?thesis using Some b(2)
        by (intro exI [of _ "Some ?x"] exI [of _ ?H]) (simp, intro exI [of _ ?e], simp)
    qed
  qed
qed

lemma entry_key_mraw: "hs_mraw H' = hs_mraw H \<Longrightarrow> entry_key H' e = entry_key H e"
  unfolding entry_key_def lexbor_hash_entry_str_def by (simp only:)

lemma hash_wf_I:
  assumes "hs_table_size H = length (hs_table H)" "hs_table H \<noteq> []" "ar_wf (hs_mraw H)"
    and "\<And>i. i < length (hs_table H) \<Longrightarrow> chain (hs_entries H) (hs_table H ! i) (C i) \<and> distinct (C i)"
    and "\<And>i x. i < length (hs_table H) \<Longrightarrow> x \<in> set (C i) \<Longrightarrow> \<exists>k. hkey H x = Some k \<and> slot H k = i"
    and "\<And>x y k. hkey H x = Some k \<Longrightarrow> hkey H y = Some k \<Longrightarrow> x = y"
    and "\<And>x e. hs_entries H x = Some e \<Longrightarrow> x < hs_fresh H \<and> (\<exists>i < length (hs_table H). x \<in> set (C i))"
    and "\<And>x y ex ey p. hs_entries H x = Some ex \<Longrightarrow> hs_entries H y = Some ey \<Longrightarrow>
        he_u ex = Long_str (Some p) \<Longrightarrow> he_u ey = Long_str (Some p) \<Longrightarrow> x = y"
  shows "hash_wf H C"
  unfolding hash_wf_def using assms by blast

lemma hash_wf_parts:
  assumes "hash_wf H C"
  shows "hs_table_size H = length (hs_table H)" "hs_table H \<noteq> []" "ar_wf (hs_mraw H)"
    and "\<And>i. i < length (hs_table H) \<Longrightarrow> distinct (C i)"
    and "\<And>x y k. hkey H x = Some k \<Longrightarrow> hkey H y = Some k \<Longrightarrow> x = y"
    and "\<And>x e. hs_entries H x = Some e \<Longrightarrow> x < hs_fresh H"
    and "\<And>x e. hs_entries H x = Some e \<Longrightarrow> \<exists>i < length (hs_table H). x \<in> set (C i)"
    and "\<And>x y ex ey p. hs_entries H x = Some ex \<Longrightarrow> hs_entries H y = Some ey \<Longrightarrow>
        he_u ex = Long_str (Some p) \<Longrightarrow> he_u ey = Long_str (Some p) \<Longrightarrow> x = y"
  using assms unfolding hash_wf_def by blast+

lemma chain_entries: "chain m p xs \<Longrightarrow> x \<in> set xs \<Longrightarrow> \<exists>e. m x = Some e"
  by (induction xs arbitrary: p) auto

text \<open>
  A new entry \<open>x\<close> with a new key at the end of its bucket: the entry before it (if any) has its \<open>next\<close>
  redirected, otherwise the bucket is.
\<close>

lemma hash_wf_add:
  assumes wf: "hash_wf H C" and i: "i = slot H k" and new: "\<And>y. hkey H y \<noteq> Some k"
    and x: "x = hs_fresh H" and e: "he_next e = None" "entry_key H' e = Some k"
      "\<And>p. he_u e = Long_str (Some p) \<Longrightarrow> ar_blocks (hs_mraw H) p = None"
    and frame: "ar_wf (hs_mraw H')" "hs_table_size H' = hs_table_size H" "x < hs_fresh H'"
      "ar_blocks (hs_mraw H) \<subseteq>\<^sub>m ar_blocks (hs_mraw H')" "length (hs_table H') = length (hs_table H)"
    and link: "C i = [] \<and> hs_table H' = (hs_table H)[i := Some x] \<and> hs_entries H' = (hs_entries H)(x \<mapsto> e) \<or>
      (\<exists>xs y ey. C i = xs @ [y] \<and> hs_entries H y = Some ey \<and> hs_table H' = hs_table H \<and>
        hs_entries H' = (hs_entries H)(x \<mapsto> e, y \<mapsto> ey\<lparr>he_next := Some x\<rparr>))"
  shows "hash_wf H' (C(i := C i @ [x])) \<and> hkey H' = (hkey H)(x \<mapsto> k)"
proof -
  note parts = hash_wf_parts [OF wf]
  have i_lt: "i < length (hs_table H)" using hash_wf_slot [OF wf] i by simp
  have x_new: "hs_entries H x = None" using parts(6) x by fastforce
  then have x_notin: "x \<notin> set (C j)" if "j < length (hs_table H)" for j
    using hash_wf_keys [OF wf that, of x] by (auto simp: hkey_def)
  have x_e: "hs_entries H' x = Some e"
    using link x_new by (auto split: if_splits)
  have old: "\<exists>d'. hs_entries H' z = Some d' \<and> he_u d' = he_u d \<and> he_length d' = he_length d"
    if "hs_entries H z = Some d" "z \<noteq> x" for z d
    using link that by (auto split: if_splits)
  have dom_eq: "hs_entries H' z = None" if "hs_entries H z = None" "z \<noteq> x" for z
    using link that by (auto split: if_splits)
  have key_old: "hkey H' z = hkey H z" if ne: "z \<noteq> x" for z
  proof (cases "hs_entries H z")
    case None
    with dom_eq ne show ?thesis by (simp add: hkey_def)
  next
    case (Some d)
    then obtain j where "j < length (hs_table H)" "z \<in> set (C j)" using parts(7) by blast
    then obtain k' where "hkey H z = Some k'" using hash_wf_keys [OF wf] by blast
    moreover obtain d' where "hs_entries H' z = Some d'" "he_u d' = he_u d" "he_length d' = he_length d"
      using old [OF Some ne] by blast
    ultimately show ?thesis using hkey_mono [OF _ Some _ _ _ frame(4)] by simp
  qed
  have keys: "hkey H' = (hkey H)(x \<mapsto> k)"
    using key_old x_e e(2) by (auto simp: fun_eq_iff hkey_def)
  have slot_eq: "slot H' = slot H" using frame(2) by (simp add: slot_def table_idx_def fun_eq_iff)
  have u_old: "\<exists>d. hs_entries H z = Some d \<and> he_u d = he_u d'" if "hs_entries H' z = Some d'" "z \<noteq> x" for z d'
    using old [OF _ that(2)] dom_eq [OF _ that(2)] that(1) by (cases "hs_entries H z") fastforce+
  have live: "\<exists>b. ar_blocks (hs_mraw H) p = Some b" if d: "hs_entries H z = Some d" "he_u d = Long_str (Some p)" for z d p
  proof -
    obtain j where "j < length (hs_table H)" "z \<in> set (C j)" using parts(7) [OF d(1)] by blast
    then obtain k' where "hkey H z = Some k'" using hash_wf_keys [OF wf] by blast
    with d show ?thesis
      by (auto simp: hkey_def entry_key_def lexbor_hash_entry_str_def split: if_splits bind_splits)
  qed
  have other: "last (C i) \<notin> set (C j)" if "j < length (hs_table H)" "j \<noteq> i" "C i \<noteq> []" for j
    using hash_wf_keys [OF wf that(1), of "last (C i)"] hash_wf_keys [OF wf i_lt, of "last (C i)"] that(2,3) by auto
  have "hash_wf H' (C(i := C i @ [x]))"
  proof (rule hash_wf_I)
    show "hs_table_size H' = length (hs_table H')" "hs_table H' \<noteq> []" "ar_wf (hs_mraw H')"
      using frame parts(1,2) by auto
    show "x' = y'" if "hkey H' x' = Some k'" "hkey H' y' = Some k'" for x' y' k'
      using that new parts(5) by (auto simp: keys split: if_splits)
    show "\<exists>k. hkey H' z = Some k \<and> slot H' k = j" if "j < length (hs_table H')" "z \<in> set ((C(i := C i @ [x])) j)" for j z
    proof (cases "z = x")
      case True
      then have "j = i" using that frame(5) x_notin by (auto split: if_splits)
      with True i show ?thesis by (simp add: keys slot_eq)
    next
      case False
      then have "z \<in> set (C j)" "j < length (hs_table H)" using that frame(5) by (auto split: if_splits)
      with hash_wf_keys [OF wf] False show ?thesis by (simp add: keys slot_eq)
    qed
    show "z < hs_fresh H' \<and> (\<exists>j < length (hs_table H'). z \<in> set ((C(i := C i @ [x])) j))" if "hs_entries H' z = Some d" for z d
    proof (cases "z = x")
      case True
      with frame(3,5) i_lt show ?thesis by auto
    next
      case False
      from u_old [OF that False] obtain dz where dz: "hs_entries H z = Some dz" by blast
      then have "z < hs_fresh H'" using parts(6) x frame(3) by fastforce
      moreover obtain j where "j < length (hs_table H)" "z \<in> set (C j)" using parts(7) [OF dz] by blast
      ultimately show ?thesis using frame(5) by (intro conjI exI [of _ j]) auto
    qed
    show "y' = z'" if h: "hs_entries H' y' = Some ey" "hs_entries H' z' = Some ez"
      "he_u ey = Long_str (Some p)" "he_u ez = Long_str (Some p)" for y' z' ey ez p
    proof -
      have clash: False if "hs_entries H' w = Some ew" "he_u ew = Long_str (Some p)" "w \<noteq> x" "he_u e = Long_str (Some p)" for w ew
        using u_old [OF that(1,3)] live e(3) that(2,4) by fastforce
      show ?thesis
      proof (cases "y' = x \<or> z' = x")
        case True
        then show ?thesis using h clash x_e by (metis option.inject)
      next
        case False
        then obtain dy dz where "hs_entries H y' = Some dy" "hs_entries H z' = Some dz" "he_u dy = he_u ey" "he_u dz = he_u ez"
          using u_old h by blast
        with parts(8) h(3,4) show ?thesis by metis
      qed
    qed
    show "chain (hs_entries H') (hs_table H' ! j) ((C(i := C i @ [x])) j) \<and> distinct ((C(i := C i @ [x])) j)"
      if "j < length (hs_table H')" for j
    proof (cases "j = i")
      case True
      from link have "chain (hs_entries H') (hs_table H' ! i) (C i @ [x])"
      proof
        assume "C i = [] \<and> hs_table H' = (hs_table H)[i := Some x] \<and> hs_entries H' = (hs_entries H)(x \<mapsto> e)"
        with i_lt e(1) show ?thesis by simp
      next
        assume "\<exists>xs y ey. C i = xs @ [y] \<and> hs_entries H y = Some ey \<and> hs_table H' = hs_table H \<and>
          hs_entries H' = (hs_entries H)(x \<mapsto> e, y \<mapsto> ey\<lparr>he_next := Some x\<rparr>)"
        then obtain xs y ey where l: "C i = xs @ [y]" "hs_entries H y = Some ey" "hs_table H' = hs_table H"
          "hs_entries H' = (hs_entries H)(x \<mapsto> e, y \<mapsto> ey\<lparr>he_next := Some x\<rparr>)" by blast
        have "chain ((hs_entries H)(x \<mapsto> e, y \<mapsto> ey\<lparr>he_next := Some x\<rparr>)) (hs_table H ! i) (xs @ [y, x])"
          by (rule chain_snoc) (use hash_wf_chain [OF wf i_lt] parts(4) [OF i_lt] x_notin [OF i_lt] l(1,2) e(1) in auto)
        with l show ?thesis by simp
      qed
      with True parts(4) [OF i_lt] x_notin [OF i_lt] show ?thesis by simp
    next
      case False
      have j: "j < length (hs_table H)" using that frame(5) by simp
      have "hs_entries H' z = hs_entries H z" if "z \<in> set (C j)" for z
      proof -
        have "z \<noteq> x" using x_notin [OF j] that by auto
        moreover have "z \<noteq> last (C i)" if "C i \<noteq> []" using other [OF j False that] \<open>z \<in> set (C j)\<close> by auto
        ultimately show ?thesis using link by auto
      qed
      then have "chain (hs_entries H') (hs_table H ! j) (C j)" using hash_wf_chain [OF wf j] chain_cong by metis
      moreover have "hs_table H' ! j = hs_table H ! j" using link False by auto
      ultimately show ?thesis using False parts(4) [OF j] by simp
    qed
  qed
  with keys show ?thesis by simp
qed


text \<open>Inserting through \<open>f\<close> finds the entry of the mapped key, or adds it, or fails for lack of memory.\<close>

definition hash_ids :: "lexbor_hash \<Rightarrow> addr \<Rightarrow> nat option" where
  "hash_ids H x = map_option he_id (hs_entries H x)"

lemma hash_insert_is:
  assumes wf: "hash_wf H C" and cmp: "cmp_by f (hf_cmp ins)" and copy: "hf_copy ins = hash_copy_by f"
    and hash: "hf_hash ins key = lexbor_hash_make_id (map f key)" and n: "length key < 2 ^ 62"
  shows "\<exists>r H' C'. lexbor_hash_insert H ins key = Some (r, H') \<and> hash_wf H' C' \<and>
     (case r of
        None \<Rightarrow> hkey H' = hkey H \<and> hash_ids H' = hash_ids H \<and> (\<forall>x. hkey H x \<noteq> Some (map f key))
      | Some x \<Rightarrow> H' = H \<and> hkey H x = Some (map f key) \<or>
          (\<forall>y. hkey H y \<noteq> Some (map f key)) \<and> x = hs_fresh H \<and> hkey H' = (hkey H)(x \<mapsto> map f key) \<and>
          hash_ids H' = (hash_ids H)(x \<mapsto> 0))"
proof -
  let ?k = "map f key" let ?i = "slot H ?k"
  note parts = hash_wf_parts [OF wf]
  have i: "?i < length (hs_table H)" by (rule hash_wf_slot [OF wf])
  have idx: "table_idx H (hf_hash ins key) = ?i" by (simp add: slot_def hash)
  note found = hash_wf_found [OF wf, of ?k]
  have fresh: "hs_entries H (hs_fresh H) = None" using parts(6) by fastforce
  from entry_create_is [OF parts(3) fresh n, of f] obtain r H1 where
    c: "hash_entry_create H (hash_copy_by f) key = Some (r, H1)" "ar_wf (hs_mraw H1)"
      "hs_table H1 = hs_table H" "hs_table_size H1 = hs_table_size H" "hs_fresh H \<le> hs_fresh H1"
      "ar_blocks (hs_mraw H) \<subseteq>\<^sub>m ar_blocks (hs_mraw H1)"
      "case r of None \<Rightarrow> hs_entries H1 = hs_entries H
      | Some x \<Rightarrow> x = hs_fresh H \<and> hs_fresh H1 = x + 1 \<and>
         (\<exists>e. hs_entries H1 = (hs_entries H)(x \<mapsto> e) \<and> he_next e = None \<and> he_id e = 0 \<and>
            entry_key H1 e = Some (map f key) \<and>
            (\<forall>p. he_u e = Long_str (Some p) \<longrightarrow> ar_blocks (hs_mraw H) p = None))" by blast
  have same: "hash_wf H2 C \<and> hkey H2 = hkey H \<and> hash_ids H2 = hash_ids H"
    if H2: "hs_entries H2 = hs_entries H" "hs_table H2 = hs_table H" "hs_table_size H2 = hs_table_size H"
      "hs_mraw H2 = hs_mraw H1" "hs_fresh H2 = hs_fresh H1" for H2
  proof -
    have k: "hkey H2 z = hkey H z" for z
    proof (cases "hs_entries H z")
      case (Some d)
      then obtain j where "j < length (hs_table H)" "z \<in> set (C j)" using parts(7) [OF Some] by blast
      then obtain k' where "hkey H z = Some k'" using hash_wf_keys [OF wf] by blast
      with hkey_mono [OF this Some, of H2 d] H2 c(6) Some show ?thesis by simp
    qed (simp add: hkey_def H2(1))
    have sl: "slot H2 = slot H" using H2(3) by (simp add: slot_def table_idx_def fun_eq_iff)
    have "hash_wf H2 C"
    proof (rule hash_wf_I, unfold k sl H2)
      show "\<exists>k. hkey H z = Some k \<and> slot H k = j" if "j < length (hs_table H)" "z \<in> set (C j)" for j z
        using hash_wf_keys [OF wf] that by blast
      show "z < hs_fresh H1 \<and> (\<exists>j < length (hs_table H). z \<in> set (C j))" if "hs_entries H z = Some d" for z d
        using parts(6,7) [OF that] c(5) by auto
    qed (use parts hash_wf_chain [OF wf] c(2) in blast)+
    with k H2(1) show ?thesis by (auto simp: hash_ids_def fun_eq_iff)
  qed
  have loop: "chain (hs_entries H) (hs_table H ! ?i) (C ?i)" "\<forall>y \<in> set (C ?i). \<exists>k. hkey H y = Some k"
    using hash_wf_chain [OF wf i] hash_wf_keys [OF wf i] by blast+
  show ?thesis
  proof (cases "\<exists>x. hkey H x = Some ?k")
    case True
    then obtain x where x: "hkey H x = Some ?k" by blast
    with found have fd: "List.find (\<lambda>x. hkey H x = Some ?k) (C ?i) = Some x" by blast
    then obtain y ys where ys: "C ?i = y # ys" by (cases "C ?i") auto
    with hash_wf_chain [OF wf i] have y: "hs_table H ! ?i = Some y" by simp
    have "hash_insert_loop H (hf_cmp ins) key y = Some (Inl x)"
      using insert_loop_is [OF cmp, of H y ys key] loop ys y fd by simp
    then have "lexbor_hash_insert H ins key = Some (Some x, H)"
      using i y by (simp add: lexbor_hash_insert_def idx table_get_def)
    with wf x show ?thesis by (intro exI [of _ "Some x"] exI [of _ H] exI [of _ C]) simp
  next
    case False
    then have new: "hkey H y \<noteq> Some ?k" for y by blast
    have none: "List.find (\<lambda>x. hkey H x = Some ?k) (C ?i) = None" using found new by (cases "List.find (\<lambda>x. hkey H x = Some ?k) (C ?i)") auto
    show ?thesis
    proof (cases "C ?i" rule: rev_cases)
      case Nil
      then have y: "hs_table H ! ?i = None" using hash_wf_chain [OF wf i] by simp
      have run: "lexbor_hash_insert H ins key = Some (r, H1\<lparr>hs_table := (hs_table H)[?i := r]\<rparr>)"
        using i y c(1,3) by (simp add: lexbor_hash_insert_def idx table_get_def copy)
      show ?thesis
      proof (cases r)
        case None
        have "(hs_table H)[?i := None] = hs_table H" using y by (metis list_update_id)
        with same [of "H1\<lparr>hs_table := (hs_table H)[?i := r]\<rparr>"] c(4,7) None
        have "hash_wf (H1\<lparr>hs_table := (hs_table H)[?i := r]\<rparr>) C \<and> hkey (H1\<lparr>hs_table := (hs_table H)[?i := r]\<rparr>) = hkey H \<and>
          hash_ids (H1\<lparr>hs_table := (hs_table H)[?i := r]\<rparr>) = hash_ids H" by simp
        with run None new show ?thesis
          by (intro exI [of _ None] exI [of _ "H1\<lparr>hs_table := (hs_table H)[?i := r]\<rparr>"] exI [of _ C]) simp
      next
        case (Some x)
        let ?H = "H1\<lparr>hs_table := (hs_table H)[?i := r]\<rparr>"
        from c(7) [unfolded Some option.case] obtain e where e: "x = hs_fresh H" "hs_fresh H1 = x + 1"
          "hs_entries H1 = (hs_entries H)(x \<mapsto> e)" "he_next e = None" "he_id e = 0" "entry_key H1 e = Some ?k"
          "\<forall>p. he_u e = Long_str (Some p) \<longrightarrow> ar_blocks (hs_mraw H) p = None" by blast
        have "entry_key ?H e = Some ?k" using e(6) entry_key_mraw [of ?H H1 e] by simp
        with hash_wf_add [OF wf refl new e(1,4), of ?H] e c Nil Some
        have "hash_wf ?H (C(?i := C ?i @ [x])) \<and> hkey ?H = (hkey H)(x \<mapsto> ?k)" by auto
        moreover have "hash_ids ?H = (hash_ids H)(x \<mapsto> 0)" using e by (auto simp: hash_ids_def)
        ultimately show ?thesis using run Some new e(1)
          by (intro exI [of _ "Some x"] exI [of _ ?H] exI [of _ "C(?i := C ?i @ [x])"]) simp
      qed
    next
      case (snoc xs z)
      obtain y ys where ys: "C ?i = y # ys" using snoc by (metis list.exhaust append_is_Nil_conv not_Cons_self2)
      with hash_wf_chain [OF wf i] have y: "hs_table H ! ?i = Some y" by simp
      obtain ez where ez: "hs_entries H z = Some ez" "he_next ez = None"
        using chain_last [OF hash_wf_chain [OF wf i]] snoc by auto
      have "hash_insert_loop H (hf_cmp ins) key y = Some (Inr (last (C ?i)))"
        using insert_loop_is [OF cmp, of H y ys key] loop ys y none by simp
      then have run: "lexbor_hash_insert H ins key = do { hash \<leftarrow> set_next H1 z r; Some (r, hash) }"
        using i y c(1) snoc by (simp add: lexbor_hash_insert_def idx table_get_def copy)
      show ?thesis
      proof (cases r)
        case None
        let ?H = "H1\<lparr>hs_entries := (hs_entries H1)(z \<mapsto> ez\<lparr>he_next := None\<rparr>)\<rparr>"
        have "ez\<lparr>he_next := None\<rparr> = ez" using ez(2) by simp
        then have ent: "hs_entries ?H = hs_entries H" using c(7) None ez(1) by (simp add: fun_upd_idem)
        have "set_next H1 z r = Some ?H" using c(7) None ez(1) by (simp add: set_next_def)
        moreover have "hash_wf ?H C \<and> hkey ?H = hkey H \<and> hash_ids ?H = hash_ids H"
          by (rule same) (use ent c(3,4) in simp_all)
        ultimately show ?thesis using run None new by (intro exI [of _ None] exI [of _ ?H] exI [of _ C]) simp
      next
        case (Some x)
        from c(7) [unfolded Some option.case] obtain e where e: "x = hs_fresh H" "hs_fresh H1 = x + 1"
          "hs_entries H1 = (hs_entries H)(x \<mapsto> e)" "he_next e = None" "he_id e = 0" "entry_key H1 e = Some ?k"
          "\<forall>p. he_u e = Long_str (Some p) \<longrightarrow> ar_blocks (hs_mraw H) p = None" by blast
        let ?H = "H1\<lparr>hs_entries := (hs_entries H)(x \<mapsto> e, z \<mapsto> ez\<lparr>he_next := Some x\<rparr>)\<rparr>"
        have zx: "z \<noteq> x" using ez(1) fresh e(1) by auto
        then have "set_next H1 z r = Some ?H" using e(3) ez(1) Some by (simp add: set_next_def)
        moreover have "entry_key ?H e = Some ?k" using e(6) entry_key_mraw [of ?H H1 e] by simp
        with hash_wf_add [OF wf refl new e(1,4), of ?H] e c snoc ez(1)
        have "hash_wf ?H (C(?i := C ?i @ [x])) \<and> hkey ?H = (hkey H)(x \<mapsto> ?k)" by auto
        moreover have "hash_ids ?H = (hash_ids H)(x \<mapsto> 0)" using e(5) ez(1) zx by (auto simp: hash_ids_def)
        ultimately show ?thesis using run Some new e(1)
          by (intro exI [of _ "Some x"] exI [of _ ?H] exI [of _ "C(?i := C ?i @ [x])"]) simp
      qed
    qed
  qed
qed

section \<open>The interface: names to addresses\<close>

text \<open>
  What the users of a table rely on: an insertion gives the address that later lookups of the same
  name (up to \<open>norm\<close>) give, different names get different addresses, and a failed insertion
  changes nothing.
\<close>

locale name_table =
  fixes ins :: "'t \<Rightarrow> bytes \<Rightarrow> (addr option \<times> 't) option"
    and look :: "'t \<Rightarrow> bytes \<Rightarrow> addr option option"
    and ok :: "'t \<Rightarrow> bool"
    and norm :: "bytes \<Rightarrow> bytes"
  assumes look_total: "ok t \<Longrightarrow> \<exists>r. look t k = Some r"
    and look_norm: "ok t \<Longrightarrow> norm j = norm k \<Longrightarrow> look t j = look t k"
    and look_inj: "ok t \<Longrightarrow> look t j = Some (Some x) \<Longrightarrow> look t k = Some (Some x) \<Longrightarrow> norm j = norm k"
    and ins_law: "ok t \<Longrightarrow> length k < 2 ^ 62 \<Longrightarrow>
      \<exists>r t'. ins t k = Some (r, t') \<and> ok t' \<and>
        (\<forall>j. look t' j = (if r \<noteq> None \<and> norm j = norm k then Some r else look t j)) \<and>
        (look t k = Some None \<or> look t k = Some r)"
begin

lemma ins_look:
  assumes "ok t" and "length k < 2 ^ 62" and "ins t k = Some (Some x, t')"
  shows "look t' k = Some (Some x)"
  using ins_law [OF assms(1,2)] assms(3) by auto

lemma ins_keeps:
  assumes "ok t" and "length k < 2 ^ 62" and "ins t k = Some (r, t')" and "look t j = Some (Some x)"
  shows "ok t' \<and> look t' j = Some (Some x)"
proof -
  from ins_law [OF assms(1,2)] assms(3) have l: "ok t'"
    "\<forall>j. look t' j = (if r \<noteq> None \<and> norm j = norm k then Some r else look t j)"
    "look t k = Some None \<or> look t k = Some r" by auto
  show ?thesis
  proof (cases "r \<noteq> None \<and> norm j = norm k")
    case True
    then have "look t j = look t k" using look_norm [OF assms(1)] by blast
    with l(3) assms(4) have "r = Some x" by auto
    with True l(1,2) show ?thesis by simp
  qed (use l assms(4) in auto)
qed

text \<open>Two names get the same address exactly when they are the same up to \<open>norm\<close>.\<close>

lemma ins_ins:
  assumes t: "ok t" and n: "length j < 2 ^ 62" "length k < 2 ^ 62"
    and j: "ins t j = Some (Some x, t1)" and k: "ins t1 k = Some (Some y, t2)"
  shows "x = y \<longleftrightarrow> norm j = norm k"
proof -
  have t1: "ok t1" using ins_law [OF t n(1)] j by auto
  have lj: "look t1 j = Some (Some x)" by (rule ins_look [OF t n(1) j])
  have t2: "ok t2" "look t2 j = Some (Some x)" using ins_keeps [OF t1 n(2) k lj] by auto
  have lk: "look t2 k = Some (Some y)" by (rule ins_look [OF t1 n(2) k])
  from t2 lk look_inj [OF t2(1), of j x k] look_norm [OF t2(1), of j k] show ?thesis by auto
qed

end

text \<open>The raw and the lower-case operations of a hash table.\<close>

lemma search_is:
  assumes wf: "hash_wf H C"
  shows "\<exists>r. lexbor_hash_search H lexbor_hash_search_raw k = Some r \<and> (\<forall>x. r = Some x \<longleftrightarrow> hkey H x = Some k)"
    and "\<exists>r. lexbor_hash_search H lexbor_hash_search_lower k = Some r \<and>
      (\<forall>x. r = Some x \<longleftrightarrow> hkey H x = Some (map lexbor_str_res_map_lowercase k))"
    and "\<exists>r. lexbor_hash_search H lexbor_hash_search_upper k = Some r \<and>
      (\<forall>x. r = Some x \<longleftrightarrow> hkey H x = Some (map lexbor_str_res_map_uppercase k))"
  using search_by_is [OF wf cmp_by_variants(1), of k] search_by_is [OF wf cmp_by_variants(2), of k]
    search_by_is [OF wf cmp_by_variants(3), of k]
  by (simp_all add: lexbor_hash_search_def lexbor_hash_search_raw_def lexbor_hash_search_lower_def
      lexbor_hash_search_upper_def make_id_variants)

lemma insert_variants_is:
  assumes wf: "hash_wf H C" and n: "length key < 2 ^ 62"
    and ins: "(ins, f) \<in> {(lexbor_hash_insert_raw, \<lambda>c. c), (lexbor_hash_insert_lower, lexbor_str_res_map_lowercase),
      (lexbor_hash_insert_upper, lexbor_str_res_map_uppercase)}"
  shows "\<exists>r H' C'. lexbor_hash_insert H ins key = Some (r, H') \<and> hash_wf H' C' \<and>
     (case r of
        None \<Rightarrow> hkey H' = hkey H \<and> hash_ids H' = hash_ids H \<and> (\<forall>x. hkey H x \<noteq> Some (map f key))
      | Some x \<Rightarrow> H' = H \<and> hkey H x = Some (map f key) \<or>
          (\<forall>y. hkey H y \<noteq> Some (map f key)) \<and> x = hs_fresh H \<and> hkey H' = (hkey H)(x \<mapsto> map f key) \<and>
          hash_ids H' = (hash_ids H)(x \<mapsto> 0))"
proof (rule hash_insert_is [OF wf _ _ _ n])
  show "cmp_by f (hf_cmp ins)" "hf_copy ins = hash_copy_by f" "hf_hash ins key = lexbor_hash_make_id (map f key)"
    using ins cmp_by_variants by (auto simp: lexbor_hash_insert_raw_def lexbor_hash_insert_lower_def
      lexbor_hash_insert_upper_def lexbor_hash_copy_def lexbor_hash_copy_lower_def lexbor_hash_copy_upper_def make_id_variants)
qed

definition hash_ok :: "lexbor_hash \<Rightarrow> bool" where
  "hash_ok H \<longleftrightarrow> (\<exists>C. hash_wf H C)"

lemma option_eqI: "(\<And>x. r = Some x \<longleftrightarrow> s = Some x) \<Longrightarrow> r = s"
  by (cases r; cases s) auto

lemma name_table_variant:
  assumes ins: "(ins, f) \<in> {(lexbor_hash_insert_raw, \<lambda>c. c), (lexbor_hash_insert_lower, lexbor_str_res_map_lowercase),
      (lexbor_hash_insert_upper, lexbor_str_res_map_uppercase)}"
    and look: "\<And>H C k. hash_wf H C \<Longrightarrow> \<exists>r. look H k = Some r \<and> (\<forall>x. r = Some x \<longleftrightarrow> hkey H x = Some (map f k))"
  shows "name_table (\<lambda>H. lexbor_hash_insert H ins) look hash_ok (map f)"
proof
  fix H j k x
  assume "hash_ok H"
  then obtain C where wf: "hash_wf H C" by (auto simp: hash_ok_def)
  show "\<exists>r. look H k = Some r" using look [OF wf] by blast
  show "look H j = look H k" if "map f j = map f k"
  proof -
    from look [OF wf, of j] obtain r where r: "look H j = Some r" "\<forall>x. r = Some x \<longleftrightarrow> hkey H x = Some (map f j)" by blast
    from look [OF wf, of k] obtain s where s: "look H k = Some s" "\<forall>x. s = Some x \<longleftrightarrow> hkey H x = Some (map f k)" by blast
    have "r = s" by (rule option_eqI) (simp add: r(2) s(2) that)
    with r s show ?thesis by simp
  qed
  show "map f j = map f k" if "look H j = Some (Some x)" "look H k = Some (Some x)"
  proof -
    have "hkey H x = Some (map f j)" "hkey H x = Some (map f k)" using look [OF wf, of j] look [OF wf, of k] that by auto
    then show ?thesis by simp
  qed
  show "\<exists>r t'. lexbor_hash_insert H ins k = Some (r, t') \<and> hash_ok t' \<and>
      (\<forall>j. look t' j = (if r \<noteq> None \<and> map f j = map f k then Some r else look H j)) \<and>
      (look H k = Some None \<or> look H k = Some r)" if n: "length k < 2 ^ 62"
  proof -
    from insert_variants_is [OF wf n ins] obtain r H' C' where i: "lexbor_hash_insert H ins k = Some (r, H')" "hash_wf H' C'"
      "case r of
        None \<Rightarrow> hkey H' = hkey H \<and> hash_ids H' = hash_ids H \<and> (\<forall>x. hkey H x \<noteq> Some (map f k))
      | Some x \<Rightarrow> H' = H \<and> hkey H x = Some (map f k) \<or>
          (\<forall>y. hkey H y \<noteq> Some (map f k)) \<and> x = hs_fresh H \<and> hkey H' = (hkey H)(x \<mapsto> map f k) \<and>
          hash_ids H' = (hash_ids H)(x \<mapsto> 0)" by blast
    have fresh: "hkey H (hs_fresh H) = None"
      using hash_wf_parts(6) [OF wf, of "hs_fresh H"] by (cases "hs_entries H (hs_fresh H)") (auto simp: hkey_def)
    have look': "look H' j = (if r \<noteq> None \<and> map f j = map f k then Some r else look H j)" for j
    proof -
      from look [OF wf, of j] obtain q where q: "look H j = Some q" "\<forall>x. q = Some x \<longleftrightarrow> hkey H x = Some (map f j)" by blast
      from look [OF i(2), of j] obtain s where s: "look H' j = Some s" "\<forall>x. s = Some x \<longleftrightarrow> hkey H' x = Some (map f j)" by blast
      show ?thesis
      proof (cases r)
        case None
        with i(3) have "hkey H' = hkey H" by simp
        then have "s = q" by (intro option_eqI) (simp add: q(2) s(2))
        with None q s show ?thesis by simp
      next
        case (Some x)
        with i(3) have c: "H' = H \<and> hkey H x = Some (map f k) \<or>
          (\<forall>y. hkey H y \<noteq> Some (map f k)) \<and> x = hs_fresh H \<and> hkey H' = (hkey H)(x \<mapsto> map f k)" by auto
        have "s = (if map f j = map f k then Some x else q)"
          using c
        proof
          assume "H' = H \<and> hkey H x = Some (map f k)"
          then have "s = Some y \<longleftrightarrow> (if map f j = map f k then Some x else q) = Some y" for y using q(2) s(2) hash_wf_parts(5) [OF wf] by auto
          then show ?thesis by (rule option_eqI)
        next
          assume a: "(\<forall>y. hkey H y \<noteq> Some (map f k)) \<and> x = hs_fresh H \<and> hkey H' = (hkey H)(x \<mapsto> map f k)"
          show ?thesis
          proof (cases "map f j = map f k")
            case True
            with a s(2) show ?thesis by auto
          next
            case False
            have "s = Some y \<longleftrightarrow> q = Some y" for y using a False q(2) s(2) fresh by auto
            then have "s = q" by (rule option_eqI)
            with False show ?thesis by simp
          qed
        qed
        with Some q s show ?thesis by simp
      qed
    qed
    have "look H k = Some None \<or> look H k = Some r"
    proof -
      obtain q where q: "look H k = Some q" "\<forall>x. q = Some x \<longleftrightarrow> hkey H x = Some (map f k)" using look [OF wf] by blast
      show ?thesis
      proof (cases r)
        case None
        with i(3) q have "q = None" by (cases q) auto
        with q None show ?thesis by simp
      next
        case (Some x)
        with i(3) have "hkey H x = Some (map f k) \<or> (\<forall>y. hkey H y \<noteq> Some (map f k))" by auto
        then have "q = Some x \<or> q = None" using q(2) by (metis option.exhaust)
        with q Some show ?thesis by auto
      qed
    qed
    with i look' show ?thesis by (auto simp: hash_ok_def)
  qed
qed

interpretation raw_names: name_table "\<lambda>H. lexbor_hash_insert H lexbor_hash_insert_raw"
  "\<lambda>H. lexbor_hash_search H lexbor_hash_search_raw" hash_ok "map (\<lambda>c. c)"
  by (rule name_table_variant) (use search_is(1) in simp_all)

interpretation lower_names: name_table "\<lambda>H. lexbor_hash_insert H lexbor_hash_insert_lower"
  "\<lambda>H. lexbor_hash_search H lexbor_hash_search_lower" hash_ok "map lexbor_str_res_map_lowercase"
  by (rule name_table_variant) (use search_is(2) in simp_all)

interpretation upper_names: name_table "\<lambda>H. lexbor_hash_insert H lexbor_hash_insert_upper"
  "\<lambda>H. lexbor_hash_search H lexbor_hash_search_upper" hash_ok "map lexbor_str_res_map_uppercase"
  by (rule name_table_variant) (use search_is(3) in simp_all)

section \<open>Creating tables\<close>

lemma empty_table_wf:
  "0 < hs_table_size H \<Longrightarrow> hs_entries H = Map.empty \<Longrightarrow> ar_blocks (hs_mraw H) = Map.empty \<Longrightarrow>
   hs_table H = replicate (hs_table_size H) None \<Longrightarrow> hash_wf H (\<lambda>_. [])"
  by (simp add: hash_wf_def hkey_def ar_wf_def)

lemma hash_clean_ok:
  assumes "hash_ok H"
  shows "hash_ok (lexbor_hash_clean H)"
proof -
  from assms obtain C where "hash_wf H C" by (auto simp: hash_ok_def)
  then have "0 < hs_table_size H" using hash_wf_parts(1,2) by fastforce
  then have "hash_wf (lexbor_hash_clean H) (\<lambda>_. [])" by (intro empty_table_wf) (simp_all add: lexbor_hash_clean_def)
  then show ?thesis by (auto simp: hash_ok_def)
qed

lemma hash_init_ok:
  assumes "lexbor_hash_init (LXB_STATUS_OK, LXB_STATUS_OK, True) (Some h) n sz = (st, Some H)"
  shows "st = LXB_STATUS_OK \<and> hash_ok H \<and> hkey H = Map.empty"
proof -
  let ?h = "h\<lparr>hs_table_size := max n 32\<rparr>"
  have "st = LXB_STATUS_OK" and H: "H = (?h\<lparr>hs_entries := Map.empty, hs_mraw := (hs_mraw ?h)\<lparr>ar_blocks := Map.empty\<rparr>,
      hs_table := replicate (hs_table_size ?h) None\<rparr>)\<lparr>hs_struct_size := sz\<rparr>"
    using assms by (auto simp: lexbor_hash_init_def LEXBOR_HASH_TABLE_MIN_SIZE_def Let_def max_def split: if_splits)
  moreover have "hash_wf H (\<lambda>_. [])"
    by (rule empty_table_wf) (simp_all add: H)
  ultimately show ?thesis by (auto simp: hash_ok_def hkey_def)
qed

section \<open>Interning a sequence of names\<close>

datatype name_op = Raw_name bytes | Lower_name bytes | Upper_name bytes

fun op_name :: "name_op \<Rightarrow> bytes" where
  "op_name (Raw_name k) = k"
| "op_name (Lower_name k) = map lexbor_str_res_map_lowercase k"
| "op_name (Upper_name k) = map lexbor_str_res_map_uppercase k"

fun intern_name :: "name_op \<Rightarrow> lexbor_hash \<Rightarrow> (addr option \<times> lexbor_hash) option" where
  "intern_name (Raw_name k) H = lexbor_hash_insert H lexbor_hash_insert_raw k"
| "intern_name (Lower_name k) H = lexbor_hash_insert H lexbor_hash_insert_lower k"
| "intern_name (Upper_name k) H = lexbor_hash_insert H lexbor_hash_insert_upper k"

fun intern_names :: "name_op list \<Rightarrow> lexbor_hash \<Rightarrow> (addr option list \<times> lexbor_hash) option" where
  "intern_names [] H = Some ([], H)"
| "intern_names (e # es) H = do {
     (r, H) \<leftarrow> intern_name e H;
     (rs, H) \<leftarrow> intern_names es H;
     Some (r # rs, H) }"

lemma intern_name_is:
  assumes ok: "hash_ok H" and n: "length (op_name e) < 2 ^ 62"
  shows "\<exists>r H'. intern_name e H = Some (r, H') \<and> hash_ok H' \<and> hkey H \<subseteq>\<^sub>m hkey H' \<and>
     (\<forall>x. r = Some x \<longrightarrow> hkey H' x = Some (op_name e))"
proof -
  from ok obtain C where wf: "hash_wf H C" by (auto simp: hash_ok_def)
  have fresh: "hkey H (hs_fresh H) = None"
    using hash_wf_parts(6) [OF wf, of "hs_fresh H"] by (cases "hs_entries H (hs_fresh H)") (auto simp: hkey_def)
  have gen: "\<exists>r H'. lexbor_hash_insert H ins key = Some (r, H') \<and> hash_ok H' \<and> hkey H \<subseteq>\<^sub>m hkey H' \<and>
      (\<forall>x. r = Some x \<longrightarrow> hkey H' x = Some (map f key))"
    if ins: "(ins, f) \<in> {(lexbor_hash_insert_raw, \<lambda>c. c), (lexbor_hash_insert_lower, lexbor_str_res_map_lowercase),
      (lexbor_hash_insert_upper, lexbor_str_res_map_uppercase)}" and "length key < 2 ^ 62" for ins f key
  proof -
    from insert_variants_is [OF wf that(2) ins] obtain r H' C' where i: "lexbor_hash_insert H ins key = Some (r, H')"
      "hash_wf H' C'" "case r of
        None \<Rightarrow> hkey H' = hkey H \<and> hash_ids H' = hash_ids H \<and> (\<forall>x. hkey H x \<noteq> Some (map f key))
      | Some x \<Rightarrow> H' = H \<and> hkey H x = Some (map f key) \<or>
          (\<forall>y. hkey H y \<noteq> Some (map f key)) \<and> x = hs_fresh H \<and> hkey H' = (hkey H)(x \<mapsto> map f key) \<and>
          hash_ids H' = (hash_ids H)(x \<mapsto> 0)" by blast
    have "hkey H \<subseteq>\<^sub>m hkey H' \<and> (\<forall>x. r = Some x \<longrightarrow> hkey H' x = Some (map f key))"
      using i(3) fresh by (cases r) (auto simp: map_le_def dom_def)
    with i(1,2) show ?thesis by (auto simp: hash_ok_def)
  qed
  show ?thesis
  proof (cases e)
    case (Raw_name k)
    with gen [of lexbor_hash_insert_raw "\<lambda>c. c" k] n show ?thesis by simp
  next
    case (Lower_name k)
    with gen [of lexbor_hash_insert_lower lexbor_str_res_map_lowercase k] n show ?thesis by simp
  next
    case (Upper_name k)
    with gen [of lexbor_hash_insert_upper lexbor_str_res_map_uppercase k] n show ?thesis by simp
  qed
qed

lemma intern_names_is:
  assumes "hash_ok H" and "\<forall>e \<in> set es. length (op_name e) < 2 ^ 62"
  shows "\<exists>rs H'. intern_names es H = Some (rs, H') \<and> hash_ok H' \<and> hkey H \<subseteq>\<^sub>m hkey H' \<and>
     list_all2 (\<lambda>r e. \<forall>x. r = Some x \<longrightarrow> hkey H' x = Some (op_name e)) rs es"
  using assms
proof (induction es arbitrary: H)
  case (Cons e es)
  from intern_name_is [OF Cons.prems(1), of e] Cons.prems(2) obtain r H1 where
    e: "intern_name e H = Some (r, H1)" "hash_ok H1" "hkey H \<subseteq>\<^sub>m hkey H1" "\<forall>x. r = Some x \<longrightarrow> hkey H1 x = Some (op_name e)"
    by auto
  from Cons.IH [OF e(2)] Cons.prems(2) obtain rs H2 where
    es: "intern_names es H1 = Some (rs, H2)" "hash_ok H2" "hkey H1 \<subseteq>\<^sub>m hkey H2"
      "list_all2 (\<lambda>r e. \<forall>x. r = Some x \<longrightarrow> hkey H2 x = Some (op_name e)) rs es" by auto
  have "\<forall>x. r = Some x \<longrightarrow> hkey H2 x = Some (op_name e)"
    using e(4) es(3) by (metis domI map_le_def)
  with e es map_le_trans [OF e(3) es(3)] show ?case by auto
qed simp

text \<open>
  C28: a name table interns: whatever raw, lower-case and upper-case insertions are made, in any order
  and whichever of them fail for lack of memory, none of them touches memory it must not, and two
  that succeed give the same address exactly when the names, mapped to their case, are equal.
\<close>

theorem names_interned:
  assumes "hash_ok H" and "\<forall>e \<in> set es. length (op_name e) < 2 ^ 62"
  shows "\<exists>rs H'. intern_names es H = Some (rs, H') \<and> hash_ok H' \<and> length rs = length es \<and>
     (\<forall>i < length es. \<forall>j < length es. \<forall>x y. rs ! i = Some x \<longrightarrow> rs ! j = Some y \<longrightarrow>
        (x = y \<longleftrightarrow> op_name (es ! i) = op_name (es ! j)))"
proof -
  from intern_names_is [OF assms] obtain rs H' where
    r: "intern_names es H = Some (rs, H')" "hash_ok H'"
      "list_all2 (\<lambda>r e. \<forall>x. r = Some x \<longrightarrow> hkey H' x = Some (op_name e)) rs es" by blast
  have key: "hkey H' x = Some (op_name (es ! i))" if "i < length es" "rs ! i = Some x" for i x
    using r(3) that by (auto simp: list_all2_conv_all_nth)
  obtain C where wf: "hash_wf H' C" using r(2) by (auto simp: hash_ok_def)
  have "x = y \<longleftrightarrow> op_name (es ! i) = op_name (es ! j)"
    if "i < length es" "j < length es" "rs ! i = Some x" "rs ! j = Some y" for i j x y
    using key [OF that(1,3)] key [OF that(2,4)] hash_wf_parts(5) [OF wf, of x _ y] by auto
  with r(1,2) list_all2_lengthD [OF r(3)] show ?thesis by blast
qed

definition hash0 :: lexbor_hash where
  "hash0 = \<lparr>hs_entries = Map.empty, hs_fresh = 1000, hs_reqs = 0, hs_fails = (\<lambda>k. k = 2),
     hs_mraw = arena0\<lparr>ar_blocks := Map.empty\<rparr>, hs_table = replicate 32 None, hs_table_size = 32, hs_struct_size = 40\<rparr>"

lemma hash0_ok: "hash_ok hash0"
proof -
  have "hash_wf hash0 (\<lambda>_. [])"
    by (rule empty_table_wf) (simp_all add: hash0_def)
  then show ?thesis by (auto simp: hash_ok_def)
qed

lemma names_interned_witness:
  "\<exists>rs H'. intern_names [Raw_name (ascii ''viewBox''), Lower_name (ascii ''VIEWBOX''), Raw_name (ascii ''viewbox'')] hash0 =
      Some (rs, H') \<and> hash_ok H' \<and> length rs = 3 \<and>
     (\<forall>x y. rs ! 1 = Some x \<longrightarrow> rs ! 2 = Some y \<longrightarrow> x = y) \<and> (\<forall>x y. rs ! 0 = Some x \<longrightarrow> rs ! 1 = Some y \<longrightarrow> x \<noteq> y)"
proof -
  let ?es = "[Raw_name (ascii ''viewBox''), Lower_name (ascii ''VIEWBOX''), Raw_name (ascii ''viewbox'')]"
  have "map lexbor_str_res_map_lowercase (ascii ''VIEWBOX'') = ascii ''viewbox''"
    by (simp add: ascii_def lexbor_str_res_map_lowercase_def)
  with names_interned [OF hash0_ok, of ?es] obtain rs H' where
    r: "intern_names ?es hash0 = Some (rs, H')" "hash_ok H'" "length rs = 3"
      "\<forall>i < 3. \<forall>j < 3. \<forall>x y. rs ! i = Some x \<longrightarrow> rs ! j = Some y \<longrightarrow> (x = y \<longleftrightarrow> op_name (?es ! i) = op_name (?es ! j))"
    by (auto simp: numeral_3_eq_3)
  from r(4) [rule_format, of 1 2] r(4) [rule_format, of 0 1]
  have "\<forall>x y. rs ! 1 = Some x \<longrightarrow> rs ! 2 = Some y \<longrightarrow> x = y" "\<forall>x y. rs ! 0 = Some x \<longrightarrow> rs ! 1 = Some y \<longrightarrow> x \<noteq> y"
    by (auto simp: ascii_def lexbor_str_res_map_lowercase_def)
  with r(1-3) show ?thesis by blast
qed

end
