(* ===== verification/Dom_Heap.thy ===== *)
theory Dom_Heap
  imports Lexbor_Hash
begin

text \<open>
  The object heap of lexbor's DOM (dom/interfaces/*.h): the structs of nodes, elements,
  attributes, character data and documents, each kind in a partial map of its own from
  addresses (struct inheritance by a common first member becomes: the same address is
  in \<open>nodes\<close> and in the map of its kind). Then the abstract view: an ordered forest
  \<open>T\<close>, giving for each node the list of its children, and the relation \<open>forest\<close>
  between the two, with the two lemmas every tree operation rests on (linking a
  detached node into a child list, unlinking a child).
\<close>

section \<open>Structs\<close>

datatype lxb_dom_node_type =
    LXB_DOM_NODE_TYPE_UNDEF
  | LXB_DOM_NODE_TYPE_ELEMENT
  | LXB_DOM_NODE_TYPE_ATTRIBUTE
  | LXB_DOM_NODE_TYPE_TEXT
  | LXB_DOM_NODE_TYPE_CDATA_SECTION
  | LXB_DOM_NODE_TYPE_ENTITY_REFERENCE
  | LXB_DOM_NODE_TYPE_ENTITY
  | LXB_DOM_NODE_TYPE_PROCESSING_INSTRUCTION
  | LXB_DOM_NODE_TYPE_COMMENT
  | LXB_DOM_NODE_TYPE_DOCUMENT
  | LXB_DOM_NODE_TYPE_DOCUMENT_TYPE
  | LXB_DOM_NODE_TYPE_DOCUMENT_FRAGMENT
  | LXB_DOM_NODE_TYPE_NOTATION
  | LXB_DOM_NODE_TYPE_CHARACTER_DATA
  | LXB_DOM_NODE_TYPE_SHADOW_ROOT

record lxb_dom_node =
  n_local_name :: nat
  n_prefix :: nat
  n_ns :: nat
  n_owner_document :: addr
  n_next :: "addr option"
  n_prev :: "addr option"
  n_parent :: "addr option"
  n_first_child :: "addr option"
  n_last_child :: "addr option"
  n_user :: "addr option"
  n_type :: lxb_dom_node_type

datatype lxb_dom_element_custom_state =
    LXB_DOM_ELEMENT_CUSTOM_STATE_UNDEFINED
  | LXB_DOM_ELEMENT_CUSTOM_STATE_FAILED
  | LXB_DOM_ELEMENT_CUSTOM_STATE_UNCUSTOMIZED
  | LXB_DOM_ELEMENT_CUSTOM_STATE_CUSTOM

record lxb_dom_element =
  el_upper_name :: nat
  el_qualified_name :: nat
  el_is_value :: "lexbor_str option"
  el_first_attr :: "addr option"
  el_last_attr :: "addr option"
  el_attr_id :: "addr option"
  el_attr_class :: "addr option"
  el_custom_state :: lxb_dom_element_custom_state

record lxb_dom_attr =
  at_upper_name :: nat
  at_qualified_name :: nat
  at_value :: "lexbor_str option"
  at_owner :: "addr option"
  at_next :: "addr option"
  at_prev :: "addr option"

datatype lxb_dom_document_cmode =
    LXB_DOM_DOCUMENT_CMODE_NO_QUIRKS
  | LXB_DOM_DOCUMENT_CMODE_QUIRKS
  | LXB_DOM_DOCUMENT_CMODE_LIMITED_QUIRKS

datatype lxb_dom_document_dtype =
    LXB_DOM_DOCUMENT_DTYPE_UNDEF
  | LXB_DOM_DOCUMENT_DTYPE_HTML
  | LXB_DOM_DOCUMENT_DTYPE_XML

text \<open>
  The functions that create, clone and destroy nodes (three fields of the struct, set together): those
  of dom/interface.c or those of html/interface.c.
\<close>

datatype interface_funs = Dom_interface | Html_interface

text \<open>
  The document struct. The name tables (\<open>tags\<close>, \<open>attrs\<close>, \<open>prefix\<close>, \<open>ns\<close>) are
  pointers, because a document created from an owner shares the owner's tables.
\<close>

record lxb_dom_document =
  doc_compat_mode :: lxb_dom_document_cmode
  doc_type :: lxb_dom_document_dtype
  doc_doctype :: "addr option"
  doc_element :: "addr option"
  doc_tags :: addr
  doc_attrs :: addr
  doc_prefix :: addr
  doc_ns :: addr
  doc_scripting :: bool
  doc_interfaces :: interface_funs

text \<open>
  The document type, whose name is an identifier of the attribute table, and the structs that are a
  character data or a fragment with one field more: the target of a processing instruction, the host of
  a fragment. A template element has a fragment as its content.
\<close>

record lxb_dom_document_type =
  dt_name :: nat
  dt_public_id :: lexbor_str
  dt_system_id :: lexbor_str

record dom =
  nodes :: "addr \<rightharpoonup> lxb_dom_node"
  elements :: "addr \<rightharpoonup> lxb_dom_element"
  attributes :: "addr \<rightharpoonup> lxb_dom_attr"
  chardata :: "addr \<rightharpoonup> lexbor_str"
  pi_targets :: "addr \<rightharpoonup> lexbor_str"
  doctypes :: "addr \<rightharpoonup> lxb_dom_document_type"
  fragment_hosts :: "addr \<rightharpoonup> addr option"
  template_contents :: "addr \<rightharpoonup> addr option"
  shadow_hosts :: "addr \<rightharpoonup> addr"
  docs :: "addr \<rightharpoonup> lxb_dom_document"
  hashes :: "addr \<rightharpoonup> lexbor_hash"
  text_arena :: arena
  obj_fresh :: addr
  obj_reqs :: nat
  obj_fails :: "nat \<Rightarrow> bool"

section \<open>Writing through pointers\<close>

definition wr_node :: "dom \<Rightarrow> addr \<Rightarrow> (lxb_dom_node \<Rightarrow> lxb_dom_node) \<Rightarrow> dom option" where
  "wr_node h a f = (case nodes h a of
     None \<Rightarrow> None
   | Some n \<Rightarrow> Some (h\<lparr>nodes := (nodes h)(a \<mapsto> f n)\<rparr>))"

definition wr_attr :: "dom \<Rightarrow> addr \<Rightarrow> (lxb_dom_attr \<Rightarrow> lxb_dom_attr) \<Rightarrow> dom option" where
  "wr_attr h a f = (case attributes h a of
     None \<Rightarrow> None
   | Some x \<Rightarrow> Some (h\<lparr>attributes := (attributes h)(a \<mapsto> f x)\<rparr>))"

definition wr_element :: "dom \<Rightarrow> addr \<Rightarrow> (lxb_dom_element \<Rightarrow> lxb_dom_element) \<Rightarrow> dom option" where
  "wr_element h a f = (case elements h a of
     None \<Rightarrow> None
   | Some e \<Rightarrow> Some (h\<lparr>elements := (elements h)(a \<mapsto> f e)\<rparr>))"

lemma wr_node_Some [heap_simps]:
  "nodes h a = Some n \<Longrightarrow> wr_node h a f = Some (h\<lparr>nodes := (nodes h)(a \<mapsto> f n)\<rparr>)"
  by (simp add: wr_node_def)

lemma wr_attr_Some [heap_simps]:
  "attributes h a = Some x \<Longrightarrow> wr_attr h a f = Some (h\<lparr>attributes := (attributes h)(a \<mapsto> f x)\<rparr>)"
  by (simp add: wr_attr_def)

lemma wr_element_Some [heap_simps]:
  "elements h a = Some e \<Longrightarrow> wr_element h a f = Some (h\<lparr>elements := (elements h)(a \<mapsto> f e)\<rparr>)"
  by (simp add: wr_element_def)

section \<open>The forest behind the pointers\<close>

text \<open>
  What the tree structure depends on: the sibling fields (\<open>parent\<close>, \<open>prev\<close>, \<open>next\<close>) and
  the child-end fields (\<open>first_child\<close>, \<open>last_child\<close>) of each node.
\<close>

type_synonym sibs = "addr \<rightharpoonup> addr option \<times> addr option \<times> addr option"
type_synonym chends = "addr \<rightharpoonup> addr option \<times> addr option"
type_synonym kids = "addr \<Rightarrow> addr list"

definition sib :: "(addr \<rightharpoonup> lxb_dom_node) \<Rightarrow> sibs" where
  "sib m a = map_option (\<lambda>n. (n_parent n, n_prev n, n_next n)) (m a)"

definition ends :: "(addr \<rightharpoonup> lxb_dom_node) \<Rightarrow> chends" where
  "ends m a = map_option (\<lambda>n. (n_first_child n, n_last_child n)) (m a)"

fun dll :: "sibs \<Rightarrow> addr \<Rightarrow> addr option \<Rightarrow> addr list \<Rightarrow> addr option \<Rightarrow> bool" where
  "dll s p pv [] nx = True"
| "dll s p pv (x # xs) nx = (s x = Some (Some p, pv, hd_or xs nx) \<and> dll s p (Some x) xs nx)"

definition edges :: "kids \<Rightarrow> (addr \<times> addr) set" where
  "edges T = {(p, c). c \<in> set (T p)}"

definition forest_on :: "sibs \<Rightarrow> chends \<Rightarrow> kids \<Rightarrow> bool" where
  "forest_on s e T \<longleftrightarrow>
     finite (dom s) \<and>
     (\<forall>p. p \<in> dom s \<longrightarrow> e p = Some (hd_or (T p) None, last_or (T p) None)) \<and>
     (\<forall>p. dll s p None (T p) None) \<and>
     (\<forall>p. distinct (T p)) \<and>
     (\<forall>p. p \<notin> dom s \<longrightarrow> T p = []) \<and>
     (\<forall>c p pv nx. s c = Some (Some p, pv, nx) \<longrightarrow> c \<in> set (T p)) \<and>
     (\<forall>c pv nx. s c = Some (None, pv, nx) \<longrightarrow> pv = None \<and> nx = None) \<and>
     acyclic (edges T)"

definition forest :: "(addr \<rightharpoonup> lxb_dom_node) \<Rightarrow> kids \<Rightarrow> bool" where
  "forest m T = forest_on (sib m) (ends m) T"

lemma sib_upd [simp]:
  "sib (m(a \<mapsto> n)) = (sib m)(a \<mapsto> (n_parent n, n_prev n, n_next n))"
  by (auto simp: sib_def)

lemma ends_upd [simp]:
  "ends (m(a \<mapsto> n)) = (ends m)(a \<mapsto> (n_first_child n, n_last_child n))"
  by (auto simp: ends_def)

lemma sib_Some: "m a = Some n \<Longrightarrow> sib m a = Some (n_parent n, n_prev n, n_next n)"
  by (simp add: sib_def)

lemma ends_Some: "m a = Some n \<Longrightarrow> ends m a = Some (n_first_child n, n_last_child n)"
  by (simp add: ends_def)

lemma sib_SomeD:
  "sib m a = Some (p, v, x) \<Longrightarrow> \<exists>n. m a = Some n \<and> n_parent n = p \<and> n_prev n = v \<and> n_next n = x"
  by (auto simp: sib_def)

lemma dom_sib [simp]: "dom (sib m) = dom m"
  by (auto simp: sib_def dom_def)

lemma dom_ends [simp]: "dom (ends m) = dom m"
  by (auto simp: ends_def dom_def)

subsection \<open>Segments\<close>

lemma dll_append [simp]:
  "dll s p pv (xs @ ys) nx = (dll s p pv xs (hd_or ys nx) \<and> dll s p (last_or xs pv) ys nx)"
  by (induction xs arbitrary: pv) auto

lemma dll_cong: "(\<And>x. x \<in> set xs \<Longrightarrow> s x = s' x) \<Longrightarrow> dll s p pv xs nx = dll s' p pv xs nx"
  by (induction xs arbitrary: pv) auto

lemma dll_upd_notin [simp]: "a \<notin> set xs \<Longrightarrow> dll (s(a := v)) p pv xs nx = dll s p pv xs nx"
  by (rule dll_cong) auto

lemma dll_parent: "dll s p pv xs nx \<Longrightarrow> x \<in> set xs \<Longrightarrow> \<exists>v w. s x = Some (Some p, v, w)"
  by (induction xs arbitrary: pv) auto

text \<open>Redirecting the \<open>next\<close> pointer of the node before a gap, and the \<open>prev\<close> pointer after it.\<close>

definition set_nx :: "sibs \<Rightarrow> addr option \<Rightarrow> addr option \<Rightarrow> sibs" where
  "set_nx s a v = (case a of None \<Rightarrow> s | Some x \<Rightarrow>
     (case s x of None \<Rightarrow> s | Some (p, pv, nx) \<Rightarrow> s(x \<mapsto> (p, pv, v))))"

definition set_pv :: "sibs \<Rightarrow> addr option \<Rightarrow> addr option \<Rightarrow> sibs" where
  "set_pv s a v = (case a of None \<Rightarrow> s | Some x \<Rightarrow>
     (case s x of None \<Rightarrow> s | Some (p, pv, nx) \<Rightarrow> s(x \<mapsto> (p, v, nx))))"

lemma dom_set_nx [simp]: "dom (set_nx s a v) = dom s"
  by (auto simp: set_nx_def split: option.splits)

lemma dom_set_pv [simp]: "dom (set_pv s a v) = dom s"
  by (auto simp: set_pv_def split: option.splits)

lemma set_nx_other [simp]: "a \<noteq> Some x \<Longrightarrow> set_nx s a v x = s x"
  by (auto simp: set_nx_def split: option.splits)

lemma set_pv_other [simp]: "a \<noteq> Some x \<Longrightarrow> set_pv s a v x = s x"
  by (auto simp: set_pv_def split: option.splits)

lemma set_nx_parent: "set_nx s a v x = Some (q, pv, nx) \<Longrightarrow> \<exists>nx'. s x = Some (q, pv, nx')"
  by (auto simp: set_nx_def split: option.splits if_splits)

lemma set_pv_parent: "set_pv s a v x = Some (q, pv, nx) \<Longrightarrow> \<exists>pv'. s x = Some (q, pv', nx)"
  by (auto simp: set_pv_def split: option.splits if_splits)

lemma dll_set_nx_frame [simp]: "a \<notin> Some ` set xs \<Longrightarrow> dll (set_nx s a v) p pv xs nx = dll s p pv xs nx"
  by (rule dll_cong, rule set_nx_other) auto

lemma dll_set_pv_frame [simp]: "a \<notin> Some ` set xs \<Longrightarrow> dll (set_pv s a v) p pv xs nx = dll s p pv xs nx"
  by (rule dll_cong, rule set_pv_other) auto

lemma last_or_in: "last_or xs d = Some l \<Longrightarrow> l \<in> set xs \<or> d = Some l"
  by (induction xs arbitrary: d) auto

lemma hd_or_in: "hd_or xs d = Some l \<Longrightarrow> l \<in> set xs \<or> d = Some l"
  by (cases xs) auto

lemma last_or_set: "last_or xs None = Some l \<Longrightarrow> l \<in> set xs"
  using last_or_in by force

lemma hd_or_set: "hd_or xs None = Some l \<Longrightarrow> l \<in> set xs"
  using hd_or_in by force

lemma dll_close_next:
  assumes "dll s p pv xs nx" and "distinct xs"
  shows "dll (set_nx s (last_or xs None) v) p pv xs v"
proof (cases xs rule: rev_cases)
  case (snoc ys l)
  with assms have "l \<notin> set ys" and "dll s p pv ys (Some l)"
    and l: "s l = Some (Some p, last_or ys pv, nx)" by auto
  then show ?thesis by (auto simp: snoc set_nx_def)
qed simp

lemma dll_close_prev:
  assumes "dll s p pv ys nx" and "distinct ys"
  shows "dll (set_pv s (hd_or ys None) v) p v ys nx"
  using assms by (cases ys) (auto simp: set_pv_def)

subsection \<open>Reading a forest\<close>

lemma forest_finite: "forest_on s e T \<Longrightarrow> finite (dom s)"
  by (simp add: forest_on_def)

lemma forest_ends: "forest_on s e T \<Longrightarrow> p \<in> dom s \<Longrightarrow> e p = Some (hd_or (T p) None, last_or (T p) None)"
  by (simp add: forest_on_def)

lemma forest_dll: "forest_on s e T \<Longrightarrow> dll s p None (T p) None"
  by (simp add: forest_on_def)

lemma forest_distinct: "forest_on s e T \<Longrightarrow> distinct (T p)"
  by (simp add: forest_on_def)

lemma forest_outside: "forest_on s e T \<Longrightarrow> p \<notin> dom s \<Longrightarrow> T p = []"
  by (simp add: forest_on_def)

lemma forest_child: "forest_on s e T \<Longrightarrow> s c = Some (Some p, pv, nx) \<Longrightarrow> c \<in> set (T p)"
  unfolding forest_on_def by blast

lemma forest_root: "forest_on s e T \<Longrightarrow> s c = Some (None, pv, nx) \<Longrightarrow> pv = None \<and> nx = None"
  unfolding forest_on_def by blast

lemma forest_acyclic: "forest_on s e T \<Longrightarrow> acyclic (edges T)"
  by (simp add: forest_on_def)

lemma forest_parent:
  "forest_on s e T \<Longrightarrow> c \<in> set (T p) \<Longrightarrow> \<exists>pv nx. s c = Some (Some p, pv, nx)"
  using forest_dll dll_parent by blast

lemma forest_unique_parent:
  "forest_on s e T \<Longrightarrow> c \<in> set (T p) \<Longrightarrow> c \<in> set (T q) \<Longrightarrow> p = q"
  by (metis forest_parent option.inject prod.inject)

lemma forest_kid_dom: "forest_on s e T \<Longrightarrow> c \<in> set (T p) \<Longrightarrow> c \<in> dom s"
  using forest_parent by blast

lemma forest_parent_dom: "forest_on s e T \<Longrightarrow> c \<in> set (T p) \<Longrightarrow> p \<in> dom s"
  using forest_outside by fastforce

lemma forest_irrefl: "forest_on s e T \<Longrightarrow> p \<notin> set (T p)"
  using forest_acyclic by (fastforce simp: edges_def acyclic_def)

text \<open>Where a child stands in its parent's list determines its sibling pointers.\<close>

lemma forest_position:
  assumes "forest_on s e T" and "T p = xs @ a # ys"
  shows "s a = Some (Some p, last_or xs None, hd_or ys None)"
proof -
  from assms have "dll s p None (xs @ a # ys) None" using forest_dll by metis
  then show ?thesis by simp
qed

lemma forest_split:
  assumes "forest_on s e T" and "s a = Some (Some p, pv, nx)"
  obtains xs ys where "T p = xs @ a # ys" and "pv = last_or xs None" and "nx = hd_or ys None"
proof -
  from forest_child [OF assms] obtain xs ys where *: "T p = xs @ a # ys"
    by (auto simp: in_set_conv_decomp)
  with forest_position [OF assms(1) *] assms(2) show thesis by (auto intro: that)
qed

section \<open>Well-formed documents\<close>

text \<open>The pointers form a forest, and every node belongs to a live document.\<close>

definition owned :: "dom \<Rightarrow> bool" where
  "owned h \<longleftrightarrow> (\<forall>a n. nodes h a = Some n \<longrightarrow> n_owner_document n \<in> dom (docs h))"

definition dom_wf :: "dom \<Rightarrow> kids \<Rightarrow> bool" where
  "dom_wf h T \<longleftrightarrow> forest (nodes h) T \<and> owned h"

end
