(* ===== verification/Dom_Forest.thy ===== *)
theory Dom_Forest
  imports Dom_Heap
begin

text \<open>
  The two pointer surgeries all of lexbor's tree operations consist of, on the abstract
  sibling map: linking a detached node between two neighbours (\<open>forest_link\<close>) and
  unlinking a child (\<open>forest_unlink\<close>).
\<close>

section \<open>Linking and unlinking\<close>

definition link_sib :: "sibs \<Rightarrow> addr \<Rightarrow> addr list \<Rightarrow> addr \<Rightarrow> addr list \<Rightarrow> sibs" where
  "link_sib s p xs a ys =
     (set_pv (set_nx s (last_or xs None) (Some a)) (hd_or ys None) (Some a))
       (a \<mapsto> (Some p, last_or xs None, hd_or ys None))"

definition unlink_sib :: "sibs \<Rightarrow> addr list \<Rightarrow> addr \<Rightarrow> addr list \<Rightarrow> sibs" where
  "unlink_sib s xs a ys =
     (set_pv (set_nx s (last_or xs None) (hd_or ys None)) (hd_or ys None) (last_or xs None))
       (a \<mapsto> (None, None, None))"

definition fix_ends :: "chends \<Rightarrow> addr \<Rightarrow> addr list \<Rightarrow> chends" where
  "fix_ends e p zs = e(p \<mapsto> (hd_or zs None, last_or zs None))"

lemma hd_or_disjoint: "set xs \<inter> set ys = {} \<Longrightarrow> hd_or ys None \<notin> Some ` set xs"
  by (cases ys) auto

lemma last_or_disjoint: "set xs \<inter> set ys = {} \<Longrightarrow> last_or xs None \<notin> Some ` set ys"
  using last_or_set by fastforce

lemma dll_relink:
  assumes d: "dll s p None (xs @ ys) None" and dist: "distinct (xs @ ys)"
  shows "dll (set_pv (set_nx s (last_or xs None) v) (hd_or ys None) w) p None xs v"
    and "dll (set_pv (set_nx s (last_or xs None) v) (hd_or ys None) w) p w ys None"
proof -
  from d have dx: "dll s p None xs (hd_or ys None)" and dy: "dll s p (last_or xs None) ys None" by auto
  have hx: "hd_or ys None \<notin> Some ` set xs" and ly: "last_or xs None \<notin> Some ` set ys"
    using dist hd_or_disjoint last_or_disjoint by (metis distinct_append)+
  have "dll (set_nx s (last_or xs None) v) p None xs v" using dll_close_next [OF dx] dist by simp
  with hx show "dll (set_pv (set_nx s (last_or xs None) v) (hd_or ys None) w) p None xs v" by simp
  have "dll (set_nx s (last_or xs None) v) p (last_or xs None) ys None" using dy ly by simp
  then show "dll (set_pv (set_nx s (last_or xs None) v) (hd_or ys None) w) p w ys None"
    using dll_close_prev dist by (metis distinct_append)
qed

lemma relink_other_kids:
  assumes f: "forest_on s e T" and p: "T p = zs" "set xs \<subseteq> set zs" "set ys \<subseteq> set zs" and q: "q \<noteq> p"
  shows "dll (set_pv (set_nx s (last_or xs None) v) (hd_or ys None) w) q None (T q) None"
proof -
  have "last_or xs None \<notin> Some ` set (T q)" "hd_or ys None \<notin> Some ` set (T q)"
    using p q forest_unique_parent [OF f] by (blast dest: last_or_set hd_or_set)+
  then show ?thesis using forest_dll [OF f] by simp
qed

lemma relink_parent:
  "set_pv (set_nx s a v) b w c = Some (q, pv, nx) \<Longrightarrow> \<exists>pv' nx'. s c = Some (q, pv', nx')"
  by (blast dest: set_nx_parent set_pv_parent)

lemma edges_upd: "edges (T(p := zs)) = {(q, c). q \<noteq> p \<and> (q, c) \<in> edges T} \<union> {p} \<times> set zs"
  by (auto simp: edges_def split: if_splits)

text \<open>
  Linking: a node \<open>a\<close> without a parent goes between \<open>xs\<close> and \<open>ys\<close> in the child list of
  \<open>p\<close>, which must not lie below \<open>a\<close>.
\<close>

lemma forest_link:
  assumes f: "forest_on s e T" and p: "p \<in> dom s" and Tp: "T p = xs @ ys"
    and a: "s a = Some (None, pa, na)" and above: "(a, p) \<notin> (edges T)\<^sup>*"
  shows "forest_on (link_sib s p xs a ys) (fix_ends e p (xs @ a # ys)) (T(p := xs @ a # ys))"
proof -
  let ?r = "set_pv (set_nx s (last_or xs None) (Some a)) (hd_or ys None) (Some a)"
  let ?s = "link_sib s p xs a ys" and ?T = "T(p := xs @ a # ys)"
  have fresh: "a \<notin> set (T q)" for q using forest_parent [OF f] a by fastforce
  with Tp have axy: "a \<notin> set xs" "a \<notin> set ys" by (metis UnCI set_append)+
  have dist: "distinct (xs @ ys)" using forest_distinct [OF f] Tp by metis
  have dp: "dll s p None (xs @ ys) None" using forest_dll [OF f] Tp by metis
  have doms: "dom ?s = dom s" using a by (auto simp: link_sib_def)
  have ac: "acyclic (edges ?T)"
  proof -
    have "edges ?T = insert (p, a) (edges T)" using Tp by (auto simp: edges_def split: if_splits)
    then show ?thesis using forest_acyclic [OF f] above by simp
  qed
  have dll': "dll ?s q None (?T q) None" for q
  proof (cases "q = p")
    case True
    then show ?thesis using dll_relink [OF dp dist, of "Some a" "Some a"] axy by (simp add: link_sib_def)
  next
    case False
    then have "dll ?r q None (T q) None" using relink_other_kids [OF f Tp] by simp
    then show ?thesis using False fresh by (simp add: link_sib_def)
  qed
  have kid: "c \<in> set (?T q)" if "?s c = Some (Some q, pv, nx)" for c q pv nx
  proof (cases "c = a")
    case True
    then show ?thesis using that by (simp add: link_sib_def)
  next
    case False
    with that have "?r c = Some (Some q, pv, nx)" by (simp add: link_sib_def)
    then obtain pv' nx' where "s c = Some (Some q, pv', nx')" by (blast dest: relink_parent)
    from forest_child [OF f this] show ?thesis using Tp by (cases "q = p") auto
  qed
  have root: "pv = None \<and> nx = None" if sc: "?s c = Some (None, pv, nx)" for c pv nx
  proof -
    from sc have "c \<noteq> a" by (auto simp: link_sib_def)
    with sc have c0: "?r c = Some (None, pv, nx)" by (simp add: link_sib_def)
    then obtain pv' nx' where s: "s c = Some (None, pv', nx')" by (blast dest: relink_parent)
    then have "c \<notin> set (T p)" using forest_parent [OF f] by fastforce
    then have "last_or xs None \<noteq> Some c" "hd_or ys None \<noteq> Some c"
      using Tp by (auto dest: last_or_set hd_or_set)
    with c0 s forest_root [OF f] show ?thesis by auto
  qed
  show ?thesis
    unfolding forest_on_def
  proof (intro conjI allI impI)
    show "finite (dom ?s)" using doms forest_finite [OF f] by simp
    show "fix_ends e p (xs @ a # ys) q = Some (hd_or (?T q) None, last_or (?T q) None)"
      if "q \<in> dom ?s" for q
      using that doms forest_ends [OF f] by (simp add: fix_ends_def)
    show "distinct (?T q)" for q using forest_distinct [OF f] dist axy by simp
    show "?T q = []" if "q \<notin> dom ?s" for q
      using that doms p forest_outside [OF f] by (metis fun_upd_other)
  qed (use dll' kid root ac in blast)+
qed

lemma forest_unlink:
  assumes f: "forest_on s e T" and Tp: "T p = xs @ a # ys"
  shows "forest_on (unlink_sib s xs a ys) (fix_ends e p (xs @ ys)) (T(p := xs @ ys))"
proof -
  let ?r = "set_pv (set_nx s (last_or xs None) (hd_or ys None)) (hd_or ys None) (last_or xs None)"
  let ?s = "unlink_sib s xs a ys" and ?T = "T(p := xs @ ys)"
  have aT: "a \<in> set (T p)" using Tp by simp
  have dist: "distinct (xs @ a # ys)" using forest_distinct [OF f] Tp by metis
  then have axy: "a \<notin> set xs" "a \<notin> set ys" "distinct (xs @ ys)" by auto
  have dp: "dll s p None (xs @ a # ys) None" using forest_dll [OF f] Tp by metis
  have hx: "hd_or ys None \<notin> Some ` set xs" "last_or xs None \<notin> Some ` set ys"
    using axy(3) hd_or_disjoint last_or_disjoint by (metis distinct_append)+
  have d0: "dll ?r p None xs (hd_or ys None)"
    using dll_close_next [of s p None xs "Some a" "hd_or ys None"] dp axy hx by simp
  have d1: "dll ?r p (last_or xs None) ys None"
    using dll_close_prev [of "set_nx s (last_or xs None) (hd_or ys None)" p "Some a" ys None "last_or xs None"]
      dp axy hx by simp
  have doms: "dom ?s = dom s" using forest_kid_dom [OF f aT] by (auto simp: unlink_sib_def)
  have ac: "acyclic (edges ?T)"
    by (rule acyclic_subset [OF forest_acyclic [OF f]]) (use Tp in \<open>auto simp: edges_def split: if_splits\<close>)
  have notin: "a \<notin> set (T q)" if "q \<noteq> p" for q using that forest_unique_parent [OF f aT] by blast
  have dll': "dll ?s q None (?T q) None" for q
  proof (cases "q = p")
    case True
    then show ?thesis using d0 d1 axy by (simp add: unlink_sib_def)
  next
    case False
    have "dll ?r q None (T q) None" by (rule relink_other_kids [OF f Tp _ _ False]) auto
    then show ?thesis using False notin by (simp add: unlink_sib_def)
  qed
  have kid: "c \<in> set (?T q)" if "?s c = Some (Some q, pv, nx)" for c q pv nx
  proof -
    have ca: "c \<noteq> a" using that by (auto simp: unlink_sib_def)
    with that have "?r c = Some (Some q, pv, nx)" by (simp add: unlink_sib_def)
    then obtain pv' nx' where "s c = Some (Some q, pv', nx')" by (blast dest: relink_parent)
    from forest_child [OF f this] show ?thesis using Tp ca by (cases "q = p") auto
  qed
  have root: "pv = None \<and> nx = None" if sc: "?s c = Some (None, pv, nx)" for c pv nx
  proof (cases "c = a")
    case True
    then show ?thesis using sc by (simp add: unlink_sib_def)
  next
    case False
    with sc have c0: "?r c = Some (None, pv, nx)" by (simp add: unlink_sib_def)
    then obtain pv' nx' where s: "s c = Some (None, pv', nx')" by (blast dest: relink_parent)
    then have "c \<notin> set (T p)" using forest_parent [OF f] by fastforce
    then have "last_or xs None \<noteq> Some c" "hd_or ys None \<noteq> Some c"
      using Tp by (auto dest: last_or_set hd_or_set)
    with c0 s forest_root [OF f] show ?thesis by auto
  qed
  show ?thesis
    unfolding forest_on_def
  proof (intro conjI allI impI)
    show "finite (dom ?s)" using doms forest_finite [OF f] by simp
    show "fix_ends e p (xs @ ys) q = Some (hd_or (?T q) None, last_or (?T q) None)"
      if "q \<in> dom ?s" for q
      using that doms forest_ends [OF f] by (simp add: fix_ends_def)
    show "distinct (?T q)" for q using forest_distinct [OF f] axy by simp
    show "?T q = []" if "q \<notin> dom ?s" for q
      using that doms forest_parent_dom [OF f aT] forest_outside [OF f] by (metis fun_upd_other)
  qed (use dll' kid root ac in blast)+
qed

end
