(* ===== verification/Dom_Sample.thy ===== *)
theory Dom_Sample
  imports Dom_Heap
begin

text \<open>
  A concrete document on which the properties of the DOM are instantiated: an \<open>html\<close>
  element with a body (a text and a comment) and a \<open>div\<close>, a detached element, a detached
  fragment with two elements, and an attribute of the \<open>div\<close>. Addresses grow from parent
  to child, which makes acyclicity immediate.
\<close>

definition sample_node ::
  "lxb_dom_node_type \<Rightarrow> nat \<Rightarrow> addr option \<Rightarrow> addr option \<Rightarrow> addr option \<Rightarrow> addr option \<Rightarrow> addr option \<Rightarrow> lxb_dom_node" where
  "sample_node t name parent prev nxt first_child last_child =
     \<lparr>n_local_name = name, n_prefix = 0, n_ns = 2, n_owner_document = 1, n_next = nxt, n_prev = prev,
      n_parent = parent, n_first_child = first_child, n_last_child = last_child, n_user = None, n_type = t\<rparr>"

definition sample_nodes :: "addr \<rightharpoonup> lxb_dom_node" where
  "sample_nodes =
     [1 \<mapsto> sample_node LXB_DOM_NODE_TYPE_DOCUMENT 3 None None None (Some 2) (Some 2),
      2 \<mapsto> sample_node LXB_DOM_NODE_TYPE_ELEMENT 101 (Some 1) None None (Some 3) (Some 6),
      3 \<mapsto> sample_node LXB_DOM_NODE_TYPE_ELEMENT 102 (Some 2) None (Some 6) (Some 4) (Some 5),
      4 \<mapsto> sample_node LXB_DOM_NODE_TYPE_TEXT 2 (Some 3) None (Some 5) None None,
      5 \<mapsto> sample_node LXB_DOM_NODE_TYPE_COMMENT 4 (Some 3) (Some 4) None None None,
      6 \<mapsto> sample_node LXB_DOM_NODE_TYPE_ELEMENT 103 (Some 2) (Some 3) None None None,
      7 \<mapsto> sample_node LXB_DOM_NODE_TYPE_ELEMENT 103 None None None None None,
      8 \<mapsto> sample_node LXB_DOM_NODE_TYPE_DOCUMENT_FRAGMENT 8 None None None (Some 9) (Some 10),
      9 \<mapsto> sample_node LXB_DOM_NODE_TYPE_ELEMENT 103 (Some 8) None (Some 10) None None,
      10 \<mapsto> sample_node LXB_DOM_NODE_TYPE_ELEMENT 103 (Some 8) (Some 9) None None None,
      11 \<mapsto> sample_node LXB_DOM_NODE_TYPE_ATTRIBUTE 18 None None None None None]"

definition sample_element :: "addr option \<Rightarrow> lxb_dom_element" where
  "sample_element attr =
     \<lparr>el_upper_name = 0, el_qualified_name = 0, el_is_value = None, el_first_attr = attr, el_last_attr = attr,
      el_attr_id = attr, el_attr_class = None, el_custom_state = LXB_DOM_ELEMENT_CUSTOM_STATE_UNDEFINED\<rparr>"

text \<open>The name tables are empty, and their allocations are granted.\<close>

definition sample_table :: lexbor_hash where
  "sample_table = hash0\<lparr>hs_fails := \<lambda>_. False\<rparr>"

definition sample_dom :: dom where
  "sample_dom =
     \<lparr>nodes = sample_nodes,
      elements = [2 \<mapsto> sample_element None, 3 \<mapsto> sample_element None, 6 \<mapsto> sample_element (Some 11),
        7 \<mapsto> sample_element None, 9 \<mapsto> sample_element None, 10 \<mapsto> sample_element None],
      attributes = [11 \<mapsto> \<lparr>at_upper_name = 0, at_qualified_name = 0,
        at_value = Some \<lparr>str_data = Some 102, str_length = 1\<rparr>, at_owner = Some 6, at_next = None, at_prev = None\<rparr>],
      chardata = [4 \<mapsto> \<lparr>str_data = Some 100, str_length = 2\<rparr>, 5 \<mapsto> \<lparr>str_data = Some 101, str_length = 1\<rparr>],
      pi_targets = Map.empty, doctypes = Map.empty, fragment_hosts = [8 \<mapsto> None], template_contents = Map.empty,
      shadow_hosts = Map.empty,
      docs = [1 \<mapsto> \<lparr>doc_compat_mode = LXB_DOM_DOCUMENT_CMODE_NO_QUIRKS, doc_type = LXB_DOM_DOCUMENT_DTYPE_HTML,
        doc_doctype = None, doc_element = Some 2, doc_tags = 0, doc_attrs = 1, doc_prefix = 2, doc_ns = 3,
        doc_scripting = False, doc_interfaces = Html_interface\<rparr>],
      hashes = [0 \<mapsto> sample_table, 1 \<mapsto> sample_table, 2 \<mapsto> sample_table, 3 \<mapsto> sample_table],
      text_arena = \<lparr>ar_blocks = [100 \<mapsto> [0x20, 0x0A, 0, 0, 0, 0, 0, 0], 101 \<mapsto> [0x61, 0, 0, 0, 0, 0, 0, 0],
        102 \<mapsto> [0x78, 0, 0, 0, 0, 0, 0, 0]], ar_fresh = 103, ar_reqs = 0, ar_plan = \<lambda>_. Some (0, False),
        ar_slack = \<lambda>_. 0, ar_junk = \<lambda>_ _. 0xAA\<rparr>,
      obj_fresh = 200, obj_reqs = 0, obj_fails = \<lambda>_. False\<rparr>"

definition sample_kids :: kids where
  "sample_kids = (\<lambda>_. [])(1 := [2], 2 := [3, 6], 3 := [4, 5], 8 := [9, 10])"

lemma sample_dom_nodes [simp]: "nodes sample_dom = sample_nodes"
  by (simp add: sample_dom_def)

lemma sample_edges: "(p, c) \<in> edges sample_kids \<longleftrightarrow>
    (p, c) \<in> {(1, 2), (2, 3), (2, 6), (3, 4), (3, 5), (8, 9), (8, 10)}"
  by (auto simp: edges_def sample_kids_def)

lemma sample_path: "(p, c) \<in> (edges sample_kids)\<^sup>* \<Longrightarrow> p \<le> c"
  by (induction rule: rtrancl_induct) (auto simp: sample_edges)

lemma sample_acyclic: "acyclic (edges sample_kids)"
proof -
  have "edges sample_kids \<subseteq> {(a, b). a < b}" by (auto simp: sample_edges)
  moreover have "acyclic {(a, b). a < (b :: nat)}"
    by (rule wf_acyclic) (use wf_less in \<open>simp add: less_eq\<close>)
  ultimately show ?thesis by (rule acyclic_subset [rotated])
qed

lemma sample_wf: "dom_wf sample_dom sample_kids"
proof -
  have "forest_on (sib sample_nodes) (ends sample_nodes) sample_kids"
    unfolding forest_on_def
  proof (intro conjI)
    show "finite (dom (sib sample_nodes))" by (simp add: sample_nodes_def)
    show "\<forall>p. p \<in> dom (sib sample_nodes) \<longrightarrow>
        ends sample_nodes p = Some (hd_or (sample_kids p) None, last_or (sample_kids p) None)"
      by (simp add: sample_nodes_def sample_kids_def ends_def sample_node_def)
    show "\<forall>p. dll (sib sample_nodes) p None (sample_kids p) None"
      by (simp add: sample_nodes_def sample_kids_def sib_def sample_node_def)
    show "\<forall>p. distinct (sample_kids p)" by (simp add: sample_kids_def)
    show "\<forall>p. p \<notin> dom (sib sample_nodes) \<longrightarrow> sample_kids p = []"
      by (simp add: sample_nodes_def sample_kids_def)
    show "\<forall>c p pv nx. sib sample_nodes c = Some (Some p, pv, nx) \<longrightarrow> c \<in> set (sample_kids p)"
      by (auto simp: sample_nodes_def sample_kids_def sib_def sample_node_def split: if_splits)
    show "\<forall>c pv nx. sib sample_nodes c = Some (None, pv, nx) \<longrightarrow> pv = None \<and> nx = None"
      by (auto simp: sample_nodes_def sample_kids_def sib_def sample_node_def split: if_splits)
    show "acyclic (edges sample_kids)" by (rule sample_acyclic)
  qed
  moreover have "owned sample_dom"
    by (auto simp: owned_def sample_dom_def sample_nodes_def sample_node_def split: if_splits)
  ultimately show ?thesis by (simp add: dom_wf_def forest_def)
qed

lemmas sample_defs = sample_dom_def sample_nodes_def sample_node_def sample_kids_def

end
