(* ===== verification/Dom_Node.thy ===== *)
theory Dom_Node
  imports Dom_Forest Dom_Sample
begin

text \<open>
  The unchecked tree operations of dom/interfaces/node.c, which the QuickBEAM bridge
  exports (\<open>qb_node_insert_child\<close>, \<open>qb_node_insert_before\<close>, \<open>qb_node_insert_after\<close>,
  \<open>qb_node_remove\<close>): pointer for pointer as the source writes them, and their refinement
  to list surgery on the forest.
\<close>

section \<open>Node events\<close>

text \<open>
  The event table of a document. Both writers of the field \<open>node_cb\<close>
  (\<open>lxb_dom_document_init\<close> and \<open>lxb_dom_document_set_default_node_cb\<close>) store the same
  static table, so the model reads that table; the guards \<open>!= NULL\<close> are kept.
\<close>

record lxb_dom_document_node_cb =
  cb_insert :: "(dom \<Rightarrow> addr \<Rightarrow> dom option) option"
  cb_remove :: "(dom \<Rightarrow> addr \<Rightarrow> dom option) option"
  cb_destroy :: "(dom \<Rightarrow> addr \<Rightarrow> dom option) option"
  cb_set_value :: "(dom \<Rightarrow> addr \<Rightarrow> bytes \<Rightarrow> (lxb_status \<times> dom) option) option"

definition lxb_dom_document_node_cbs :: lxb_dom_document_node_cb where
  "lxb_dom_document_node_cbs =
     \<lparr>cb_insert = None, cb_remove = None, cb_destroy = None, cb_set_value = None\<rparr>"

definition node_event :: "(dom \<Rightarrow> addr \<Rightarrow> dom option) option \<Rightarrow> dom \<Rightarrow> addr \<Rightarrow> dom option" where
  "node_event cb h node = do {
     n \<leftarrow> nodes h node;
     _ \<leftarrow> docs h (n_owner_document n);
     (case cb of None \<Rightarrow> Some h | Some f \<Rightarrow> f h node) }"

section \<open>Insertion and removal (node.c)\<close>

definition lxb_dom_node_insert_child_wo_events :: "dom \<Rightarrow> addr \<Rightarrow> addr \<Rightarrow> dom option" where
  "lxb_dom_node_insert_child_wo_events h to node = do {
     t \<leftarrow> nodes h to;
     h \<leftarrow> (case n_last_child t of
            Some l \<Rightarrow> wr_node h l (\<lambda>n. n\<lparr>n_next := Some node\<rparr>)
          | None \<Rightarrow> wr_node h to (\<lambda>n. n\<lparr>n_first_child := Some node\<rparr>));
     h \<leftarrow> wr_node h node (\<lambda>n. n\<lparr>n_parent := Some to\<rparr>);
     h \<leftarrow> wr_node h node (\<lambda>n. n\<lparr>n_next := None\<rparr>);
     t \<leftarrow> nodes h to;
     h \<leftarrow> wr_node h node (\<lambda>n. n\<lparr>n_prev := n_last_child t\<rparr>);
     wr_node h to (\<lambda>n. n\<lparr>n_last_child := Some node\<rparr>) }"

definition lxb_dom_node_insert_child :: "dom \<Rightarrow> addr \<Rightarrow> addr \<Rightarrow> dom option" where
  "lxb_dom_node_insert_child h to node = do {
     h \<leftarrow> lxb_dom_node_insert_child_wo_events h to node;
     node_event (cb_insert lxb_dom_document_node_cbs) h node }"

definition lxb_dom_node_insert_before_wo_events :: "dom \<Rightarrow> addr \<Rightarrow> addr \<Rightarrow> dom option" where
  "lxb_dom_node_insert_before_wo_events h to node = do {
     t \<leftarrow> nodes h to;
     h \<leftarrow> (case n_prev t of
            Some p \<Rightarrow> wr_node h p (\<lambda>n. n\<lparr>n_next := Some node\<rparr>)
          | None \<Rightarrow>
             (case n_parent t of
               Some q \<Rightarrow> wr_node h q (\<lambda>n. n\<lparr>n_first_child := Some node\<rparr>)
             | None \<Rightarrow> Some h));
     t \<leftarrow> nodes h to;
     h \<leftarrow> wr_node h node (\<lambda>n. n\<lparr>n_parent := n_parent t\<rparr>);
     h \<leftarrow> wr_node h node (\<lambda>n. n\<lparr>n_next := Some to\<rparr>);
     t \<leftarrow> nodes h to;
     h \<leftarrow> wr_node h node (\<lambda>n. n\<lparr>n_prev := n_prev t\<rparr>);
     wr_node h to (\<lambda>n. n\<lparr>n_prev := Some node\<rparr>) }"

definition lxb_dom_node_insert_before :: "dom \<Rightarrow> addr \<Rightarrow> addr \<Rightarrow> dom option" where
  "lxb_dom_node_insert_before h to node = do {
     h \<leftarrow> lxb_dom_node_insert_before_wo_events h to node;
     node_event (cb_insert lxb_dom_document_node_cbs) h node }"

definition lxb_dom_node_insert_after_wo_events :: "dom \<Rightarrow> addr \<Rightarrow> addr \<Rightarrow> dom option" where
  "lxb_dom_node_insert_after_wo_events h to node = do {
     t \<leftarrow> nodes h to;
     h \<leftarrow> (case n_next t of
            Some x \<Rightarrow> wr_node h x (\<lambda>n. n\<lparr>n_prev := Some node\<rparr>)
          | None \<Rightarrow>
             (case n_parent t of
               Some q \<Rightarrow> wr_node h q (\<lambda>n. n\<lparr>n_last_child := Some node\<rparr>)
             | None \<Rightarrow> Some h));
     t \<leftarrow> nodes h to;
     h \<leftarrow> wr_node h node (\<lambda>n. n\<lparr>n_parent := n_parent t\<rparr>);
     t \<leftarrow> nodes h to;
     h \<leftarrow> wr_node h node (\<lambda>n. n\<lparr>n_next := n_next t\<rparr>);
     h \<leftarrow> wr_node h node (\<lambda>n. n\<lparr>n_prev := Some to\<rparr>);
     wr_node h to (\<lambda>n. n\<lparr>n_next := Some node\<rparr>) }"

definition lxb_dom_node_insert_after :: "dom \<Rightarrow> addr \<Rightarrow> addr \<Rightarrow> dom option" where
  "lxb_dom_node_insert_after h to node = do {
     h \<leftarrow> lxb_dom_node_insert_after_wo_events h to node;
     node_event (cb_insert lxb_dom_document_node_cbs) h node }"

definition lxb_dom_node_remove_wo_events :: "dom \<Rightarrow> addr \<Rightarrow> dom option" where
  "lxb_dom_node_remove_wo_events h node = do {
     n \<leftarrow> nodes h node;
     h \<leftarrow> (case n_parent n of
            None \<Rightarrow> Some h
          | Some q \<Rightarrow> do {
              p \<leftarrow> nodes h q;
              h \<leftarrow> (if n_first_child p = Some node
                   then wr_node h q (\<lambda>p. p\<lparr>n_first_child := n_next n\<rparr>) else Some h);
              p \<leftarrow> nodes h q;
              (if n_last_child p = Some node
               then wr_node h q (\<lambda>p. p\<lparr>n_last_child := n_prev n\<rparr>) else Some h) });
     n \<leftarrow> nodes h node;
     h \<leftarrow> (case n_next n of
            None \<Rightarrow> Some h
          | Some x \<Rightarrow> wr_node h x (\<lambda>x. x\<lparr>n_prev := n_prev n\<rparr>));
     n \<leftarrow> nodes h node;
     h \<leftarrow> (case n_prev n of
            None \<Rightarrow> Some h
          | Some x \<Rightarrow> wr_node h x (\<lambda>x. x\<lparr>n_next := n_next n\<rparr>));
     h \<leftarrow> wr_node h node (\<lambda>n. n\<lparr>n_parent := None\<rparr>);
     h \<leftarrow> wr_node h node (\<lambda>n. n\<lparr>n_next := None\<rparr>);
     wr_node h node (\<lambda>n. n\<lparr>n_prev := None\<rparr>) }"

definition lxb_dom_node_remove :: "dom \<Rightarrow> addr \<Rightarrow> dom option" where
  "lxb_dom_node_remove h node = do {
     h \<leftarrow> node_event (cb_remove lxb_dom_document_node_cbs) h node;
     lxb_dom_node_remove_wo_events h node }"

section \<open>Payload\<close>

text \<open>What the tree operations leave alone.\<close>

definition payload :: "lxb_dom_node \<Rightarrow> nat \<times> nat \<times> nat \<times> addr \<times> addr option \<times> lxb_dom_node_type" where
  "payload n = (n_local_name n, n_prefix n, n_ns n, n_owner_document n, n_user n, n_type n)"

definition same_payload :: "dom \<Rightarrow> dom \<Rightarrow> bool" where
  "same_payload h h' \<longleftrightarrow> h' = h\<lparr>nodes := nodes h'\<rparr> \<and>
     (\<forall>a. map_option payload (nodes h' a) = map_option payload (nodes h a))"

lemma same_payload_refl [simp]: "same_payload h h"
  by (simp add: same_payload_def)

lemma same_payload_trans: "same_payload h h' \<Longrightarrow> same_payload h' h'' \<Longrightarrow> same_payload h h''"
  unfolding same_payload_def
  by (metis (no_types, lifting) dom.surjective dom.update_convs(1))

lemma same_payload_docs: "same_payload h h' \<Longrightarrow> docs h' = docs h"
  by (cases h, cases h') (simp add: same_payload_def)

lemma same_payload_wr:
  "nodes h a = Some n \<Longrightarrow> payload (f n) = payload n \<Longrightarrow>
   same_payload h (h\<lparr>nodes := (nodes h)(a \<mapsto> f n)\<rparr>)"
  by (simp add: same_payload_def)

lemma same_payload_owned: "same_payload h h' \<Longrightarrow> owned h \<Longrightarrow> owned h'"
  unfolding owned_def
proof (intro allI impI)
  fix a n'
  assume sp: "same_payload h h'" and own: "\<forall>a n. nodes h a = Some n \<longrightarrow> n_owner_document n \<in> dom (docs h)"
    and n': "nodes h' a = Some n'"
  from sp n' obtain n where "nodes h a = Some n" "payload n = payload n'"
    unfolding same_payload_def by (metis map_option_eq_Some option.map_disc_iff not_Some_eq)
  with own have "n_owner_document n' \<in> dom (docs h)" by (simp add: payload_def) metis
  with sp show "n_owner_document n' \<in> dom (docs h')" by (simp add: same_payload_docs)
qed

lemma dom_wf_forest: "dom_wf h T \<Longrightarrow> forest_on (sib (nodes h)) (ends (nodes h)) T"
  by (simp add: dom_wf_def forest_def)

lemma node_event_ok:
  "owned h \<Longrightarrow> nodes h a = Some n \<Longrightarrow> node_event None h a = Some h"
  unfolding owned_def node_event_def by (fastforce dest!: spec)

section \<open>Refinement\<close>

lemma sib_eqI:
  "(\<And>a. map_option (\<lambda>n. (n_parent n, n_prev n, n_next n)) (m a) = s a) \<Longrightarrow> sib m = s"
  by (auto simp: sib_def fun_eq_iff)

lemma forest_on_cong: "forest_on s e T \<Longrightarrow> s = s' \<Longrightarrow> e = e' \<Longrightarrow> T = T' \<Longrightarrow> forest_on s' e' T'"
  by simp

lemma forest_detached:
  assumes "forest_on (sib (nodes h)) (ends (nodes h)) T" and "nodes h a = Some n" and "n_parent n = None"
  shows "sib (nodes h) a = Some (None, None, None)" and "n_prev n = None" and "n_next n = None"
    and "a \<notin> set (T q)"
proof -
  have s: "sib (nodes h) a = Some (None, n_prev n, n_next n)" using assms(2,3) by (simp add: sib_Some)
  with forest_root [OF assms(1)] show p: "n_prev n = None" "n_next n = None" by auto
  with s show "sib (nodes h) a = Some (None, None, None)" by simp
  show "a \<notin> set (T q)" using forest_parent [OF assms(1)] s by fastforce
qed

lemma forest_kid_node:
  assumes "forest_on (sib (nodes h)) (ends (nodes h)) T" and "T p = xs @ a # ys"
  obtains n where "nodes h a = Some n" and "n_parent n = Some p"
    and "n_prev n = last_or xs None" and "n_next n = hd_or ys None"
  using forest_position [OF assms] by (auto dest: sib_SomeD)

lemma forest_end_fields:
  assumes "forest_on (sib (nodes h)) (ends (nodes h)) T" and "nodes h p = Some n"
  shows "n_first_child n = hd_or (T p) None" and "n_last_child n = last_or (T p) None"
  using forest_ends [OF assms(1), of p] assms(2) by (auto simp: ends_Some)

lemmas surgery_simps = wr_node_def link_sib_def unlink_sib_def fix_ends_def set_nx_def set_pv_def
  same_payload_def payload_def forest_def

lemma insert_child_wo_events_refines:
  assumes wf: "dom_wf h T" and to: "nodes h to = Some t" and nd: "nodes h node = Some n"
    and det: "n_parent n = None" and above: "(node, to) \<notin> (edges T)\<^sup>*"
  shows "\<exists>h'. lxb_dom_node_insert_child_wo_events h to node = Some h' \<and> same_payload h h' \<and>
           forest (nodes h') (T(to := T to @ [node]))"
proof -
  note f = dom_wf_forest [OF wf]
  note d = forest_detached [OF f nd det]
  have ne: "node \<noteq> to" using above by auto
  have L: "forest_on (link_sib (sib (nodes h)) to (T to) node [])
             (fix_ends (ends (nodes h)) to (T to @ [node])) (T(to := T to @ [node]))"
    using forest_link [of _ _ T to "T to" "[]" node, OF f _ _ d(1) above] to by auto
  show ?thesis
  proof (cases "T to" rule: rev_cases)
    case Nil
    show ?thesis
      using Nil forest_end_fields [OF f to] to nd ne unfolding lxb_dom_node_insert_child_wo_events_def
      by (simp add: surgery_simps)
        (rule forest_on_cong [OF L]; auto simp: Nil surgery_simps fun_eq_iff sib_Some ends_Some)
  next
    case (snoc xs l)
    from forest_kid_node [OF f, of to xs l "[]"] snoc obtain ln where
      l: "nodes h l = Some ln" "n_parent ln = Some to" "n_prev ln = last_or xs None" "n_next ln = None"
      by auto
    have "l \<noteq> node" "l \<noteq> to" using snoc d(4) [of to] forest_irrefl [OF f, of to] by auto
    then show ?thesis
      using snoc l forest_end_fields [OF f to] to nd ne unfolding lxb_dom_node_insert_child_wo_events_def
      by (simp add: surgery_simps)
        (rule forest_on_cong [OF L]; auto simp: snoc surgery_simps fun_eq_iff sib_Some ends_Some)
  qed
qed

lemma insert_before_wo_events_refines:
  assumes wf: "dom_wf h T" and Tp: "T p = xs @ to # ys" and nd: "nodes h node = Some n"
    and det: "n_parent n = None" and above: "(node, p) \<notin> (edges T)\<^sup>*"
  shows "\<exists>h'. lxb_dom_node_insert_before_wo_events h to node = Some h' \<and> same_payload h h' \<and>
           forest (nodes h') (T(p := xs @ node # to # ys))"
proof -
  note f = dom_wf_forest [OF wf]
  note d = forest_detached [OF f nd det]
  have ne: "node \<noteq> p" using above by auto
  from forest_kid_node [OF f Tp] obtain t where
    t: "nodes h to = Some t" "n_parent t = Some p" "n_prev t = last_or xs None" "n_next t = hd_or ys None" .
  obtain pn where pn: "nodes h p = Some pn"
    using forest_parent_dom [OF f, of to p] Tp by auto
  have L: "forest_on (link_sib (sib (nodes h)) p xs node (to # ys))
             (fix_ends (ends (nodes h)) p (xs @ node # to # ys)) (T(p := xs @ node # to # ys))"
    using forest_link [of _ _ T p xs "to # ys" node, OF f _ Tp d(1) above] pn by auto
  have tne: "to \<noteq> node" "to \<noteq> p" using Tp d(4) [of p] forest_irrefl [OF f, of p] by auto
  show ?thesis
  proof (cases xs rule: rev_cases)
    case Nil
    show ?thesis
      using Nil Tp t tne forest_end_fields [OF f pn] pn nd ne unfolding lxb_dom_node_insert_before_wo_events_def
      by (simp add: surgery_simps)
        (rule forest_on_cong [OF L]; auto simp: Nil surgery_simps fun_eq_iff sib_Some ends_Some)
  next
    case (snoc zs l)
    from forest_kid_node [OF f, of p zs l "to # ys"] Tp snoc obtain ln where
      l: "nodes h l = Some ln" "n_parent ln = Some p" "n_prev ln = last_or zs None" "n_next ln = Some to"
      by auto
    have "l \<noteq> node" "l \<noteq> p" "l \<noteq> to"
      using snoc Tp d(4) [of p] forest_irrefl [OF f, of p] forest_distinct [OF f, of p] by auto
    then show ?thesis
      using snoc Tp t tne l forest_end_fields [OF f pn] pn nd ne unfolding lxb_dom_node_insert_before_wo_events_def
      by (simp add: surgery_simps)
        (rule forest_on_cong [OF L]; auto simp: snoc surgery_simps fun_eq_iff sib_Some ends_Some)
  qed
qed

lemma insert_after_wo_events_refines:
  assumes wf: "dom_wf h T" and Tp: "T p = xs @ to # ys" and nd: "nodes h node = Some n"
    and det: "n_parent n = None" and above: "(node, p) \<notin> (edges T)\<^sup>*"
  shows "\<exists>h'. lxb_dom_node_insert_after_wo_events h to node = Some h' \<and> same_payload h h' \<and>
           forest (nodes h') (T(p := xs @ to # node # ys))"
proof -
  note f = dom_wf_forest [OF wf]
  note d = forest_detached [OF f nd det]
  have ne: "node \<noteq> p" using above by auto
  from forest_kid_node [OF f Tp] obtain t where
    t: "nodes h to = Some t" "n_parent t = Some p" "n_prev t = last_or xs None" "n_next t = hd_or ys None" .
  obtain pn where pn: "nodes h p = Some pn"
    using forest_parent_dom [OF f, of to p] Tp by auto
  have L: "forest_on (link_sib (sib (nodes h)) p (xs @ [to]) node ys)
             (fix_ends (ends (nodes h)) p (xs @ to # node # ys)) (T(p := xs @ to # node # ys))"
    using forest_link [of _ _ T p "xs @ [to]" ys node, OF f _ _ d(1) above] pn Tp by auto
  have tne: "to \<noteq> node" "to \<noteq> p" using Tp d(4) [of p] forest_irrefl [OF f, of p] by auto
  show ?thesis
  proof (cases ys)
    case Nil
    show ?thesis
      using Nil Tp t tne forest_end_fields [OF f pn] pn nd ne unfolding lxb_dom_node_insert_after_wo_events_def
      by (simp add: surgery_simps)
        (rule forest_on_cong [OF L]; auto simp: Nil surgery_simps fun_eq_iff sib_Some ends_Some)
  next
    case (Cons y zs)
    from forest_kid_node [OF f, of p "xs @ [to]" y zs] Tp Cons obtain yn where
      y: "nodes h y = Some yn" "n_parent yn = Some p" "n_prev yn = Some to" "n_next yn = hd_or zs None"
      by auto
    have "y \<noteq> node" "y \<noteq> p" "y \<noteq> to"
      using Cons Tp d(4) [of p] forest_irrefl [OF f, of p] forest_distinct [OF f, of p] by auto
    then show ?thesis
      using Cons Tp t tne y forest_end_fields [OF f pn] pn nd ne unfolding lxb_dom_node_insert_after_wo_events_def
      by (simp add: surgery_simps)
        (rule forest_on_cong [OF L]; auto simp: Cons surgery_simps fun_eq_iff sib_Some ends_Some)
  qed
qed

lemma remove_wo_events_refines:
  assumes wf: "dom_wf h T" and Tp: "T p = xs @ node # ys"
  shows "\<exists>h'. lxb_dom_node_remove_wo_events h node = Some h' \<and> same_payload h h' \<and>
           forest (nodes h') (T(p := xs @ ys))"
proof -
  note f = dom_wf_forest [OF wf]
  from forest_kid_node [OF f Tp] obtain n where
    n: "nodes h node = Some n" "n_parent n = Some p" "n_prev n = last_or xs None" "n_next n = hd_or ys None" .
  obtain pn where pn: "nodes h p = Some pn"
    using forest_parent_dom [OF f, of node p] Tp by auto
  have L: "forest_on (unlink_sib (sib (nodes h)) xs node ys)
             (fix_ends (ends (nodes h)) p (xs @ ys)) (T(p := xs @ ys))"
    using forest_unlink [of _ _ T p xs node ys, OF f Tp] .
  have ne: "node \<noteq> p" using Tp forest_irrefl [OF f, of p] by auto
  note dist = forest_distinct [OF f, of p, unfolded Tp]
  have x: "\<exists>ln. nodes h l = Some ln \<and> n_parent ln = Some p \<and> n_prev ln = last_or zs None \<and> n_next ln = Some node \<and>
             l \<noteq> node \<and> l \<noteq> p \<and> l \<notin> set ys" if "xs = zs @ [l]" for zs l
    using forest_kid_node [OF f, of p zs l "node # ys"] Tp that dist forest_irrefl [OF f, of p] by auto
  have y: "\<exists>yn. nodes h y = Some yn \<and> n_parent yn = Some p \<and> n_prev yn = Some node \<and> n_next yn = hd_or zs None \<and>
             y \<noteq> node \<and> y \<noteq> p" if "ys = y # zs" for zs y
    using forest_kid_node [OF f, of p "xs @ [node]" y zs] Tp that dist forest_irrefl [OF f, of p] by auto
  note ef = forest_end_fields [OF f pn, unfolded Tp]
  show ?thesis
  proof (cases xs rule: rev_cases)
    case Nil
    show ?thesis
    proof (cases ys)
      case Nil
      with \<open>xs = []\<close> show ?thesis using ef n pn ne unfolding lxb_dom_node_remove_wo_events_def
        by (simp add: surgery_simps)
          (rule forest_on_cong [OF L]; auto simp: surgery_simps fun_eq_iff sib_Some ends_Some)
    next
      case (Cons b zs)
      from y [OF this] obtain yn where "nodes h b = Some yn" "n_parent yn = Some p" "n_prev yn = Some node"
        "n_next yn = hd_or zs None" "b \<noteq> node" "b \<noteq> p" by blast
      with \<open>xs = []\<close> Cons show ?thesis using ef n pn ne dist unfolding lxb_dom_node_remove_wo_events_def
        by (simp add: surgery_simps)
          (rule forest_on_cong [OF L]; auto simp: surgery_simps fun_eq_iff sib_Some ends_Some)
    qed
  next
    case (snoc zs l)
    from x [OF this] obtain ln where l: "nodes h l = Some ln" "n_parent ln = Some p" "n_prev ln = last_or zs None"
      "n_next ln = Some node" "l \<noteq> node" "l \<noteq> p" "l \<notin> set ys" by blast
    show ?thesis
    proof (cases ys)
      case Nil
      with snoc l show ?thesis using ef n pn ne dist unfolding lxb_dom_node_remove_wo_events_def
        by (simp add: surgery_simps)
          (rule forest_on_cong [OF L]; auto simp: surgery_simps fun_eq_iff sib_Some ends_Some)
    next
      case (Cons b us)
      from y [OF this] obtain yn where "nodes h b = Some yn" "n_parent yn = Some p" "n_prev yn = Some node"
        "n_next yn = hd_or us None" "b \<noteq> node" "b \<noteq> p" by blast
      with snoc l Cons show ?thesis using ef n pn ne dist unfolding lxb_dom_node_remove_wo_events_def
        by (simp add: surgery_simps)
          (rule forest_on_cong [OF L]; auto simp: surgery_simps fun_eq_iff sib_Some ends_Some)
    qed
  qed
qed

text \<open>With the event hooks, which in this program are all \<open>NULL\<close>.\<close>

lemma event_after:
  assumes "dom_wf h T" and "same_payload h h'" and "forest (nodes h') T'" and "nodes h' a = Some n"
  shows "node_event None h' a = Some h'" and "dom_wf h' T'"
  using assms same_payload_owned node_event_ok by (auto simp: dom_wf_def)

lemma same_payload_alive: "same_payload h h' \<Longrightarrow> nodes h a = Some n \<Longrightarrow> \<exists>n'. nodes h' a = Some n' \<and> payload n' = payload n"
  unfolding same_payload_def by (metis map_option_eq_Some)

lemma no_events [simp]:
  "cb_insert lxb_dom_document_node_cbs = None" "cb_remove lxb_dom_document_node_cbs = None"
  "cb_destroy lxb_dom_document_node_cbs = None" "cb_set_value lxb_dom_document_node_cbs = None"
  by (simp_all add: lxb_dom_document_node_cbs_def)

lemma insert_child_refines:
  assumes wf: "dom_wf h T" and to: "nodes h to = Some t" and nd: "nodes h node = Some n"
    and det: "n_parent n = None" and above: "(node, to) \<notin> (edges T)\<^sup>*"
  shows "\<exists>h'. lxb_dom_node_insert_child h to node = Some h' \<and> same_payload h h' \<and>
           dom_wf h' (T(to := T to @ [node]))"
  using insert_child_wo_events_refines [OF assms] event_after [OF wf] same_payload_alive nd
  unfolding lxb_dom_node_insert_child_def by (metis bind.bind_lunit no_events(1))

lemma insert_before_refines:
  assumes wf: "dom_wf h T" and Tp: "T p = xs @ to # ys" and nd: "nodes h node = Some n"
    and det: "n_parent n = None" and above: "(node, p) \<notin> (edges T)\<^sup>*"
  shows "\<exists>h'. lxb_dom_node_insert_before h to node = Some h' \<and> same_payload h h' \<and>
           dom_wf h' (T(p := xs @ node # to # ys))"
  using insert_before_wo_events_refines [OF assms] event_after [OF wf] same_payload_alive nd
  unfolding lxb_dom_node_insert_before_def by (metis bind.bind_lunit no_events(1))

lemma insert_after_refines:
  assumes wf: "dom_wf h T" and Tp: "T p = xs @ to # ys" and nd: "nodes h node = Some n"
    and det: "n_parent n = None" and above: "(node, p) \<notin> (edges T)\<^sup>*"
  shows "\<exists>h'. lxb_dom_node_insert_after h to node = Some h' \<and> same_payload h h' \<and>
           dom_wf h' (T(p := xs @ to # node # ys))"
  using insert_after_wo_events_refines [OF assms] event_after [OF wf] same_payload_alive nd
  unfolding lxb_dom_node_insert_after_def by (metis bind.bind_lunit no_events(1))

lemma remove_refines:
  assumes wf: "dom_wf h T" and Tp: "T p = xs @ node # ys"
  shows "\<exists>h'. lxb_dom_node_remove h node = Some h' \<and> same_payload h h' \<and> dom_wf h' (T(p := xs @ ys))"
proof -
  from forest_kid_node [OF dom_wf_forest [OF wf] Tp] obtain n where "nodes h node = Some n" .
  then have "node_event None h node = Some h" using node_event_ok wf by (auto simp: dom_wf_def)
  then show ?thesis
    using remove_wo_events_refines [OF wf Tp] same_payload_owned wf
    unfolding lxb_dom_node_remove_def by (auto simp: dom_wf_def)
qed

text \<open>Removing a node that has no parent changes nothing.\<close>

lemma remove_detached:
  assumes wf: "dom_wf h T" and nd: "nodes h node = Some n" and det: "n_parent n = None"
  shows "lxb_dom_node_remove h node = Some h"
proof -
  note d = forest_detached [OF dom_wf_forest [OF wf] nd det]
  have "node_event None h node = Some h" using node_event_ok nd wf by (auto simp: dom_wf_def)
  moreover have "h\<lparr>nodes := (nodes h)(node \<mapsto> n\<lparr>n_parent := None, n_next := None, n_prev := None\<rparr>)\<rparr> = h"
    using nd det d(2,3) by (auto intro!: dom.equality simp: map_upd_triv)
  ultimately show ?thesis
    using nd det d(2,3) unfolding lxb_dom_node_remove_def lxb_dom_node_remove_wo_events_def
    by (simp add: wr_node_def)
qed

section \<open>Properties\<close>

text \<open>
  On a well-formed document, \<open>lxb_dom_node_insert_after(to, node)\<close> of a detached node that is not
  above \<open>to\<close> dereferences only live nodes, puts the node directly behind \<open>to\<close> in the child
  list of the parent, and changes nothing else.
\<close>

theorem insert_after_refines_list:
  assumes "dom_wf h T" and "T p = xs @ to # ys" and "nodes h node = Some n"
    and "n_parent n = None" and "(node, p) \<notin> (edges T)\<^sup>*"
  shows "\<exists>h'. lxb_dom_node_insert_after h to node = Some h' \<and> same_payload h h' \<and>
           dom_wf h' (T(p := xs @ to # node # ys))"
  using assms by (rule insert_after_refines)

theorem insert_after_refines_list_witness:
  "\<exists>h'. lxb_dom_node_insert_after sample_dom 4 7 = Some h' \<and> same_payload sample_dom h' \<and>
     dom_wf h' (sample_kids(3 := [4, 7, 5]))"
  using insert_after_refines_list [of sample_dom sample_kids 3 "[]" 4 "[5]" 7] sample_wf sample_path [of 7 3]
  by (auto simp: sample_kids_def sample_nodes_def sample_node_def)

text \<open>
  C36: removing a child and inserting it behind its former previous sibling gives back the
  same tree: the two pointer surgeries are inverse to each other.
\<close>

theorem remove_then_insert_restores:
  assumes wf: "dom_wf h T" and Tp: "T p = xs @ to # node # ys"
  shows "\<exists>h1 h2. lxb_dom_node_remove h node = Some h1 \<and> lxb_dom_node_insert_after h1 to node = Some h2 \<and>
           dom_wf h1 (T(p := xs @ to # ys)) \<and> dom_wf h2 T \<and> same_payload h h2"
proof -
  note f = dom_wf_forest [OF wf]
  from remove_refines [OF wf, of p "xs @ [to]" node ys] Tp obtain h1 where h1:
    "lxb_dom_node_remove h node = Some h1" "same_payload h h1" "dom_wf h1 (T(p := xs @ to # ys))" by auto
  note f1 = dom_wf_forest [OF h1(3)]
  have nn: "node \<notin> set ((T(p := xs @ to # ys)) q)" for q
    using forest_distinct [OF f, of p] forest_unique_parent [OF f, of node p q] Tp by auto
  from forest_kid_node [OF f, of p "xs @ [to]" node ys] Tp obtain n where "nodes h node = Some n" by auto
  with same_payload_alive [OF h1(2)] obtain n1 where n1: "nodes h1 node = Some n1" by blast
  have det: "n_parent n1 = None"
  proof (rule ccontr)
    assume "n_parent n1 \<noteq> None"
    then obtain q where "n_parent n1 = Some q" by auto
    then have "sib (nodes h1) node = Some (Some q, n_prev n1, n_next n1)" using n1 by (simp add: sib_Some)
    from forest_child [OF f1 this] nn show False by blast
  qed
  have "edges (T(p := xs @ to # ys)) \<subseteq> edges T" using Tp by (auto simp: edges_def split: if_splits)
  moreover have "(p, node) \<in> edges T" using Tp by (simp add: edges_def)
  ultimately have "(node, p) \<notin> (edges (T(p := xs @ to # ys)))\<^sup>*"
    using forest_acyclic [OF f] rtrancl_mono by (metis (no_types, lifting) acyclic_def rtrancl_into_trancl2 subsetD)
  from insert_after_refines [OF h1(3) _ n1 det this, of xs to ys] Tp h1 show ?thesis
    by (auto intro: same_payload_trans simp: fun_upd_idem)
qed

theorem remove_then_insert_restores_witness:
  "\<exists>h1 h2. lxb_dom_node_remove sample_dom 5 = Some h1 \<and> lxb_dom_node_insert_after h1 4 5 = Some h2 \<and>
     dom_wf h2 sample_kids"
  using remove_then_insert_restores [OF sample_wf, of 3 "[]" 4 5 "[]"] by (auto simp: sample_kids_def)

end
