(* ===== verification/Dom_Walk.thy ===== *)
theory Dom_Walk
  imports Dom_Node
begin

text \<open>
  The pointer-chasing traversals of dom/interfaces/node.c. All of them share one shape:
  descend to the first child, else climb until a node with a next sibling is found, stop
  on reaching the root again. They are modelled as the loops the source has
  (\<open>partial_function\<close>, since on a malformed heap they need not return) and specified on
  rose trees, where they are structural recursion in document order.
\<close>

section \<open>Subtrees as rose trees\<close>

datatype rose = Rose (rose_root: addr) (rose_kids: "rose list")

fun is_rose :: "kids \<Rightarrow> rose \<Rightarrow> bool" where
  "is_rose T (Rose a ts) \<longleftrightarrow> T a = map rose_root ts \<and> (\<forall>t\<in>set ts. is_rose T t)"

fun preorder :: "rose \<Rightarrow> addr list" where
  "preorder (Rose a ts) = a # concat (map preorder ts)"

abbreviation preorders :: "rose list \<Rightarrow> addr list" where
  "preorders ts \<equiv> concat (map preorder ts)"

lemma finite_edges: "forest_on s e T \<Longrightarrow> finite (edges T)"
proof (rule finite_subset)
  assume f: "forest_on s e T"
  show "edges T \<subseteq> dom s \<times> dom s"
    using forest_kid_dom [OF f] forest_parent_dom [OF f] by (fastforce simp: edges_def)
  show "finite (dom s \<times> dom s)" using forest_finite [OF f] by simp
qed

lemma forest_wf: "forest_on s e T \<Longrightarrow> wf ((edges T)\<inverse>)"
  by (intro finite_acyclic_wf_converse finite_edges forest_acyclic)

lemma list_of_witnesses:
  "\<forall>c\<in>set cs. \<exists>t. rose_root t = c \<and> P t \<Longrightarrow> \<exists>ts. map rose_root ts = cs \<and> (\<forall>t\<in>set ts. P t)"
proof (induction cs)
  case (Cons c cs)
  then obtain t ts where "rose_root t = c" "P t" "map rose_root ts = cs" "\<forall>t\<in>set ts. P t" by auto
  then show ?case by (intro exI [of _ "t # ts"]) simp
qed simp

lemma ex_rose:
  assumes "forest_on s e T"
  shows "\<exists>t. rose_root t = a \<and> is_rose T t"
  using forest_wf [OF assms]
proof (induction a rule: wf_induct_rule)
  case (less a)
  then have "\<forall>c\<in>set (T a). \<exists>t. rose_root t = c \<and> is_rose T t" by (auto simp: edges_def)
  then obtain ts where "map rose_root ts = T a" "\<forall>t\<in>set ts. is_rose T t"
    using list_of_witnesses [of _ "is_rose T"] by blast
  then show ?case by (intro exI [of _ "Rose a ts"]) simp
qed

lemma rose_unique: "is_rose T t \<Longrightarrow> is_rose T u \<Longrightarrow> rose_root t = rose_root u \<Longrightarrow> t = u"
proof (induction t arbitrary: u)
  case (Rose a ts)
  from Rose.prems obtain us where u: "u = Rose a us" "T a = map rose_root us" "\<forall>t\<in>set us. is_rose T t"
    by (cases u) auto
  from Rose.prems have eq: "map rose_root ts = map rose_root us" "\<forall>t\<in>set ts. is_rose T t"
    using u by auto
  have "ts = us"
  proof (rule nth_equalityI)
    show len: "length ts = length us" using eq map_eq_imp_length_eq by blast
    show "ts ! i = us ! i" if "i < length ts" for i
      using Rose.IH [of "ts ! i" "us ! i"] that len eq u(3)
      by (metis nth_map nth_mem)
  qed
  with u show ?case by simp
qed

lemma rose_root_preorder [simp]: "rose_root t \<in> set (preorder t)"
  by (cases t) simp

lemma set_preorder: "is_rose T t \<Longrightarrow> set (preorder t) = (edges T)\<^sup>* `` {rose_root t}"
proof (induction t)
  case (Rose a ts)
  then have kids: "set (T a) = rose_root ` set ts" and
    IH: "\<And>t. t \<in> set ts \<Longrightarrow> set (preorder t) = (edges T)\<^sup>* `` {rose_root t}" by auto
  have "(edges T)\<^sup>* `` {a} = insert a ((edges T)\<^sup>* `` set (T a))"
    by (auto simp: edges_def elim: converse_rtranclE intro: converse_rtrancl_into_rtrancl)
  also have "\<dots> = insert a (\<Union>t\<in>set ts. (edges T)\<^sup>* `` {rose_root t})" using kids by auto
  finally show ?case using IH by simp
qed

lemma below_dom:
  assumes f: "forest m T" and t: "is_rose T (Rose root ts)" and root: "root \<in> dom m"
  shows "set (preorders ts) \<subseteq> dom m"
proof
  fix a assume "a \<in> set (preorders ts)"
  then have "(root, a) \<in> (edges T)\<^sup>*" using set_preorder [OF t] by auto
  then show "a \<in> dom m" using root
  proof (induction rule: rtrancl_induct)
    case (step b c)
    then show ?case using forest_kid_dom [OF f [unfolded forest_def], of c b] by (auto simp: edges_def)
  qed
qed

section \<open>The simple walk\<close>

partial_function (option) climb :: "(addr \<rightharpoonup> lxb_dom_node) \<Rightarrow> addr \<Rightarrow> addr \<Rightarrow> addr option" where
  [code]: "climb m root node =
     (if node = root then Some node
      else do {
        n \<leftarrow> m node;
        (case n_next n of
          Some _ \<Rightarrow> Some node
        | None \<Rightarrow> do { p \<leftarrow> n_parent n; climb m root p }) })"

partial_function (option) simple_walk_loop ::
  "(addr \<rightharpoonup> lxb_dom_node) \<Rightarrow> addr \<Rightarrow> (addr \<Rightarrow> 's \<Rightarrow> (lexbor_action \<times> 's) option) \<Rightarrow> addr \<Rightarrow> 's \<Rightarrow> 's option" where
  [code]: "simple_walk_loop m root cb node s = do {
     (action, s) \<leftarrow> cb node s;
     (if action = LEXBOR_ACTION_STOP then Some s
      else do {
        n \<leftarrow> m node;
        (case (if action \<noteq> LEXBOR_ACTION_NEXT then n_first_child n else None) of
          Some c \<Rightarrow> simple_walk_loop m root cb c s
        | None \<Rightarrow> do {
            node \<leftarrow> climb m root node;
            (if node = root then Some s
             else do {
               n \<leftarrow> m node;
               x \<leftarrow> n_next n;
               simple_walk_loop m root cb x s }) }) }) }"

definition lxb_dom_node_simple_walk ::
  "(addr \<rightharpoonup> lxb_dom_node) \<Rightarrow> addr \<Rightarrow> (addr \<Rightarrow> 's \<Rightarrow> (lexbor_action \<times> 's) option) \<Rightarrow> 's \<Rightarrow> 's option" where
  "lxb_dom_node_simple_walk m root cb s = do {
     r \<leftarrow> m root;
     (case n_first_child r of
       None \<Rightarrow> Some s
     | Some node \<Rightarrow> simple_walk_loop m root cb node s) }"

text \<open>The specification: structural recursion; the flag says that the walker asked to stop.\<close>

fun visit :: "(addr \<Rightarrow> 's \<Rightarrow> (lexbor_action \<times> 's) option) \<Rightarrow> rose \<Rightarrow> 's \<Rightarrow> (bool \<times> 's) option"
and visits :: "(addr \<Rightarrow> 's \<Rightarrow> (lexbor_action \<times> 's) option) \<Rightarrow> rose list \<Rightarrow> 's \<Rightarrow> (bool \<times> 's) option" where
  "visit cb (Rose a ts) s = do {
     (action, s) \<leftarrow> cb a s;
     (case action of
       LEXBOR_ACTION_STOP \<Rightarrow> Some (True, s)
     | LEXBOR_ACTION_NEXT \<Rightarrow> Some (False, s)
     | LEXBOR_ACTION_OK \<Rightarrow> visits cb ts s) }"
| "visits cb [] s = Some (False, s)"
| "visits cb (t # ts) s = do {
     (stop, s) \<leftarrow> visit cb t s;
     (if stop then Some (True, s) else visits cb ts s) }"

text \<open>What the loop does once the subtree of \<open>x\<close> is finished.\<close>

definition resume where
  "resume m root cb x s = do {
     node \<leftarrow> climb m root x;
     (if node = root then Some s
      else do {
        n \<leftarrow> m node;
        x \<leftarrow> n_next n;
        simple_walk_loop m root cb x s }) }"

lemma resume_root [simp]: "resume m root cb root s = Some s"
  by (simp add: resume_def climb.simps)

lemma resume_next:
  assumes "forest_on (sib m) (ends m) T" and "T p = xs @ a # b # ys" and "a \<noteq> root"
  shows "resume m root cb a s = simple_walk_loop m root cb b s"
proof -
  from forest_position [OF assms(1,2)] obtain n where "m a = Some n" "n_next n = Some b"
    by (auto dest: sib_SomeD)
  with assms(3) show ?thesis by (simp add: resume_def climb.simps)
qed

lemma resume_last:
  assumes "forest_on (sib m) (ends m) T" and "T p = xs @ [a]" and "a \<noteq> root"
  shows "resume m root cb a s = resume m root cb p s"
proof -
  from forest_position [OF assms(1), of p xs a "[]"] assms(2) obtain n where
    "m a = Some n" "n_next n = None" "n_parent n = Some p" by (auto dest: sib_SomeD)
  with assms(3) show ?thesis by (simp add: resume_def climb.simps [of m root a])
qed

lemma walk_visit:
  assumes f: "forest_on (sib m) (ends m) T"
  shows "is_rose T t \<Longrightarrow> root \<notin> set (preorder t) \<Longrightarrow> rose_root t \<in> dom m \<Longrightarrow>
      simple_walk_loop m root cb (rose_root t) s =
        do { (stop, s) \<leftarrow> visit cb t s; if stop then Some s else resume m root cb (rose_root t) s }"
    and "(\<forall>t\<in>set ts. is_rose T t) \<Longrightarrow> root \<notin> set (preorders ts) \<Longrightarrow> ts \<noteq> [] \<Longrightarrow>
      T p = xs @ map rose_root ts \<Longrightarrow>
      simple_walk_loop m root cb (rose_root (hd ts)) s =
        do { (stop, s) \<leftarrow> visits cb ts s; if stop then Some s else resume m root cb p s }"
proof (induction cb t s and cb ts s arbitrary: and p xs rule: visit_visits.induct)
  case (1 cb a ts s)
  from 1 have r: "T a = map rose_root ts" "\<forall>t\<in>set ts. is_rose T t" and nr: "root \<notin> set (preorders ts)" by auto
  from 1 obtain n where n: "m a = Some n" by auto
  then have fc: "n_first_child n = hd_or (map rose_root ts) None"
    using forest_ends [OF f, of a] r by (auto simp: ends_Some)
  have IH: "simple_walk_loop m root cb (rose_root (hd ts)) s' =
        do { (stop, s) \<leftarrow> visits cb ts s'; if stop then Some s else resume m root cb a s }"
    if "ts \<noteq> []" "cb a s = Some (LEXBOR_ACTION_OK, s')" for s'
    using 1(1) [OF that(2) refl refl r(2) nr that(1), of a "[]"] r(1) by simp
  show ?case
  proof (cases "cb a s")
    case (Some x)
    obtain act s' where x: "x = (act, s')" by force
    show ?thesis
    proof (cases act)
      case LEXBOR_ACTION_OK
      show ?thesis
      proof (cases ts)
        case Nil
        then show ?thesis using LEXBOR_ACTION_OK Some x n fc
          by (simp add: simple_walk_loop.simps [of m root cb a] resume_def)
      next
        case (Cons u us)
        have "simple_walk_loop m root cb a s = simple_walk_loop m root cb (rose_root (hd ts)) s'"
          using Cons LEXBOR_ACTION_OK Some x n fc by (simp add: simple_walk_loop.simps [of m root cb a])
        then show ?thesis using IH [of s'] Cons LEXBOR_ACTION_OK Some x
          unfolding rose.sel by (simp del: visits.simps)
      qed
    next
      case LEXBOR_ACTION_STOP
      then show ?thesis using Some x by (simp add: simple_walk_loop.simps [of m root cb a])
    next
      case LEXBOR_ACTION_NEXT
      then show ?thesis using Some x n by (simp add: simple_walk_loop.simps [of m root cb a] resume_def)
    qed
  qed (simp add: simple_walk_loop.simps [of m root cb a])
next
  case (3 cb t ts s)
  let ?a = "rose_root t"
  have ne: "?a \<noteq> root" using 3 rose_root_preorder [of t] by auto
  have ad: "?a \<in> dom m" using forest_kid_dom [OF f, of ?a p] 3 by simp
  have IH1: "simple_walk_loop m root cb ?a s =
        do { (stop, s) \<leftarrow> visit cb t s; if stop then Some s else resume m root cb ?a s }"
    using 3 ad by simp
  show ?case
  proof (cases "visit cb t s")
    case (Some x)
    obtain stop s' where x: "x = (stop, s')" by force
    show ?thesis
    proof (cases "stop \<or> ts = []")
      case True
      then show ?thesis using IH1 Some x resume_last [OF f, of p xs ?a root] 3 ne by auto
    next
      case False
      then obtain u us where u: "ts = u # us" by (cases ts) auto
      have "simple_walk_loop m root cb (rose_root (hd ts)) s' =
        do { (stop, s) \<leftarrow> visits cb ts s'; if stop then Some s else resume m root cb p s }"
        using 3(2) [of x stop s' p "xs @ [?a]"] 3(3-) Some x False by simp
      moreover have "resume m root cb ?a s' = simple_walk_loop m root cb (rose_root (hd ts)) s'"
        using resume_next [OF f, of p xs ?a "rose_root u" "map rose_root us" root] 3(6) ne u by simp
      moreover have "visits cb (t # ts) s = visits cb ts s'" using Some x False by simp
      ultimately show ?thesis using IH1 Some x False unfolding list.sel by (simp del: visits.simps)
    qed
  qed (simp add: IH1)
qed simp_all

lemma rose_root_once:
  assumes f: "forest_on s e T" and t: "is_rose T (Rose a ts)"
  shows "a \<notin> set (preorders ts)"
proof
  assume "a \<in> set (preorders ts)"
  then obtain t where "t \<in> set ts" "a \<in> set (preorder t)" by auto
  with t set_preorder [of T t] have "(rose_root t, a) \<in> (edges T)\<^sup>*" "(a, rose_root t) \<in> edges T"
    by (auto simp: edges_def)
  then have "(a, a) \<in> (edges T)\<^sup>+" by (meson rtrancl_into_trancl2)
  with forest_acyclic [OF f] show False by (simp add: acyclic_def)
qed

theorem simple_walk_visits:
  assumes f: "forest m T" and t: "is_rose T (Rose root ts)" and root: "root \<in> dom m"
  shows "lxb_dom_node_simple_walk m root cb s = map_option snd (visits cb ts s)"
proof -
  note f = f [unfolded forest_def]
  from root obtain r where r: "m root = Some r" by auto
  then have fc: "n_first_child r = hd_or (map rose_root ts) None"
    using forest_ends [OF f, of root] t by (auto simp: ends_Some)
  show ?thesis
  proof (cases ts)
    case (Cons u us)
    have "simple_walk_loop m root cb (rose_root (hd ts)) s =
        do { (stop, s) \<leftarrow> visits cb ts s; if stop then Some s else resume m root cb root s }"
      using walk_visit(2) [OF f, of ts root root "[]" cb s] t rose_root_once [OF f t] Cons by auto
    moreover have "lxb_dom_node_simple_walk m root cb s = simple_walk_loop m root cb (rose_root (hd ts)) s"
      using r fc Cons by (simp add: lxb_dom_node_simple_walk_def)
    ultimately show ?thesis
      by (cases "visits cb ts s") (auto split: prod.splits simp del: visits.simps)
  qed (use r fc in \<open>simp add: lxb_dom_node_simple_walk_def\<close>)
qed

text \<open>A walker that never stops is a fold over the descendants in document order.\<close>

lemma visits_fold:
  "(\<And>a s. cb a s = Some (LEXBOR_ACTION_OK, f a s)) \<Longrightarrow> visit cb t s = Some (False, fold f (preorder t) s)"
  "(\<And>a s. cb a s = Some (LEXBOR_ACTION_OK, f a s)) \<Longrightarrow> visits cb ts s = Some (False, fold f (preorders ts) s)"
  by (induction cb t s and cb ts s rule: visit_visits.induct) auto

text \<open>Induction on trees and lists of trees at once.\<close>

fun rose_lists :: "rose \<Rightarrow> unit" and roses_lists :: "rose list \<Rightarrow> unit" where
  "rose_lists (Rose a ts) = roses_lists ts"
| "roses_lists [] = ()"
| "roses_lists (t # ts) = (let _ = rose_lists t in roses_lists ts)"

text \<open>Searching a list piece by piece.\<close>

lemma find_append: "List.find P (xs @ ys) = (case List.find P xs of None \<Rightarrow> List.find P ys | Some x \<Rightarrow> Some x)"
  by (induction xs) auto

section \<open>Emptiness (\<open>lxb_dom_node_is_empty\<close>)\<close>

definition LXB_TAG__TEXT :: nat where "LXB_TAG__TEXT = 2"
definition LXB_TAG__EM_COMMENT :: nat where "LXB_TAG__EM_COMMENT = 4"

text \<open>The characters of a \<open>lexbor_str_t\<close>: the first \<open>length\<close> bytes of its block.\<close>

definition str_chars :: "arena \<Rightarrow> lexbor_str \<Rightarrow> bytes option" where
  "str_chars A s = (case str_data s of
     None \<Rightarrow> if str_length s = 0 then Some [] else None
   | Some b \<Rightarrow> do {
       blk \<leftarrow> ar_blocks A b;
       (if str_length s \<le> length blk then Some (take (str_length s) blk) else None) })"

partial_function (option) is_empty_loop :: "dom \<Rightarrow> addr \<Rightarrow> addr \<Rightarrow> bool option" where
  [code]: "is_empty_loop h root node = do {
     n \<leftarrow> nodes h node;
     blank \<leftarrow>
       (if n_local_name n \<noteq> LXB_TAG__EM_COMMENT then
          (if n_local_name n \<noteq> LXB_TAG__TEXT then Some False
           else do {
             str \<leftarrow> chardata h node;
             data \<leftarrow> str_chars (text_arena h) str;
             Some (list_all lexbor_utils_whitespace data) })
        else Some True);
     (if \<not> blank then Some False
      else (case n_first_child n of
        Some c \<Rightarrow> is_empty_loop h root c
      | None \<Rightarrow> do {
          node \<leftarrow> climb (nodes h) root node;
          (if node = root then Some True
           else do {
             n \<leftarrow> nodes h node;
             x \<leftarrow> n_next n;
             is_empty_loop h root x }) })) }"

definition lxb_dom_node_is_empty :: "dom \<Rightarrow> addr \<Rightarrow> bool option" where
  "lxb_dom_node_is_empty h root = do {
     r \<leftarrow> nodes h root;
     (case n_first_child r of
       None \<Rightarrow> Some True
     | Some node \<Rightarrow> is_empty_loop h root node) }"

text \<open>The test of one node, and the loop as the simple walk that stops at the first node failing it.\<close>

definition node_blank :: "dom \<Rightarrow> addr \<Rightarrow> bool option" where
  "node_blank h a = do {
     n \<leftarrow> nodes h a;
     (if n_local_name n = LXB_TAG__EM_COMMENT then Some True
      else if n_local_name n = LXB_TAG__TEXT then do {
        str \<leftarrow> chardata h a;
        data \<leftarrow> str_chars (text_arena h) str;
        Some (list_all lexbor_utils_whitespace data) }
      else Some False) }"

definition blank_walker :: "dom \<Rightarrow> addr \<Rightarrow> bool \<Rightarrow> (lexbor_action \<times> bool) option" where
  "blank_walker h a s =
     map_option (\<lambda>b. if b then (LEXBOR_ACTION_OK, True) else (LEXBOR_ACTION_STOP, False)) (node_blank h a)"

lemma is_empty_loop_walk:
  assumes "simple_walk_loop (nodes h) root (blank_walker h) node s = Some b"
  shows "is_empty_loop h root node = Some b"
proof -
  have "simple_walk_loop m root cb node s = Some b \<Longrightarrow> m = nodes h \<Longrightarrow> cb = blank_walker h \<Longrightarrow>
      is_empty_loop h root node = Some b" for m root cb node s b
  proof (induction m root cb node s b rule: simple_walk_loop.raw_induct [rotated, consumes 1])
    case (1 f m root cb node s b)
    note IH = 1(1) [OF _ refl refl]
    from 1(2-4) obtain bl n where bl: "node_blank h node = Some bl" and n: "nodes h node = Some n"
      by (auto simp: blank_walker_def node_blank_def bind_eq_Some_conv)
    note unf = is_empty_loop.simps [of h root node]
    have blank: "(if n_local_name n \<noteq> LXB_TAG__EM_COMMENT then
          (if n_local_name n \<noteq> LXB_TAG__TEXT then Some False
           else do {
             str \<leftarrow> chardata h node;
             data \<leftarrow> str_chars (text_arena h) str;
             Some (list_all lexbor_utils_whitespace data) })
        else Some True) = Some bl"
      using bl n by (simp add: node_blank_def split: if_splits)
    show ?case
    proof (cases bl)
      case False
      then show ?thesis using unf blank n bl 1(2-4) by (simp add: blank_walker_def)
    next
      case True
      note step = 1(2) [unfolded 1(3,4), simplified blank_walker_def bl True, simplified, unfolded n, simplified]
      show ?thesis
      proof (cases "n_first_child n")
        case (Some c)
        then show ?thesis using unf blank n True step IH by simp
      next
        case None
        then show ?thesis using unf blank n True step IH
          by (auto simp: bind_eq_Some_conv split: if_splits)
      qed
    qed
  qed
  with assms show ?thesis by blast
qed

lemma visits_blank:
  assumes "\<And>a. a \<in> A \<Longrightarrow> node_blank h a \<noteq> None"
  shows "set (preorder t) \<subseteq> A \<Longrightarrow> visit (blank_walker h) t True =
      (let b = list_all (\<lambda>a. node_blank h a = Some True) (preorder t) in Some (\<not> b, b))"
    and "set (preorders ts) \<subseteq> A \<Longrightarrow> visits (blank_walker h) ts True =
      (let b = list_all (\<lambda>a. node_blank h a = Some True) (preorders ts) in Some (\<not> b, b))"
proof (induction t and ts rule: rose_lists_roses_lists.induct)
  case (1 a ts)
  have "a \<in> A" using 1(2) by simp
  then obtain b where "node_blank h a = Some b" using assms by blast
  with 1 show ?case by (cases b) (auto simp: blank_walker_def)
qed (auto simp: Let_def)

text \<open>The function says whether every descendant is a comment or a text of white space.\<close>

text \<open>
  C35: \<open>lxb_dom_node_is_empty\<close> returns on every well-formed document and says exactly whether all
  descendants are comments or texts of white space.
\<close>

theorem is_empty_descendants:
  assumes f: "forest (nodes h) T" and t: "is_rose T (Rose root ts)" and root: "root \<in> dom (nodes h)"
    and ok: "\<And>a. a \<in> set (preorders ts) \<Longrightarrow> node_blank h a \<noteq> None"
  shows "lxb_dom_node_is_empty h root =
           Some (\<forall>a\<in>set (preorders ts). node_blank h a = Some True)"
proof -
  let ?b = "list_all (\<lambda>a. node_blank h a = Some True) (preorders ts)"
  have "visits (blank_walker h) ts True = Some (\<not> ?b, ?b)"
    using visits_blank(2) [of "set (preorders ts)" h ts] ok by (simp add: Let_def)
  with simple_walk_visits [OF f t root, of "blank_walker h" True]
  have *: "lxb_dom_node_simple_walk (nodes h) root (blank_walker h) True = Some ?b" by simp
  from root obtain r where r: "nodes h root = Some r" by auto
  have "lxb_dom_node_is_empty h root = Some ?b"
  proof (cases "n_first_child r")
    case None
    with * r show ?thesis by (simp add: lxb_dom_node_is_empty_def lxb_dom_node_simple_walk_def)
  next
    case (Some c)
    with * r is_empty_loop_walk show ?thesis
      by (simp add: lxb_dom_node_is_empty_def lxb_dom_node_simple_walk_def)
  qed
  then show ?thesis by (simp add: list_all_iff)
qed

theorem is_empty_descendants_witness: "lxb_dom_node_is_empty sample_dom 3 = Some True"
proof -
  have b: "node_blank sample_dom 4 = Some True" "node_blank sample_dom 5 = Some True"
    by (simp_all add: node_blank_def sample_defs str_chars_def LXB_TAG__TEXT_def LXB_TAG__EM_COMMENT_def
        lexbor_utils_whitespace_def)
  have f: "forest (nodes sample_dom) sample_kids" using sample_wf by (simp add: dom_wf_def)
  have "is_rose sample_kids (Rose 3 [Rose 4 [], Rose 5 []])" by (simp add: sample_kids_def)
  from is_empty_descendants [OF f this] b show ?thesis by (auto simp: sample_nodes_def)
qed

section \<open>Ancestors (\<open>lxb_dom_node_host_including_inclusive_ancestor\<close>)\<close>

text \<open>\<open>shadow_hosts h s\<close> is the \<open>host\<close> field of the shadow root \<open>s\<close>.\<close>

partial_function (option) lxb_dom_node_host_including_inclusive_ancestor ::
  "dom \<Rightarrow> addr option \<Rightarrow> addr option \<Rightarrow> bool option" where
  [code]: "lxb_dom_node_host_including_inclusive_ancestor h node parent = (case parent of
     None \<Rightarrow> Some False
   | Some p \<Rightarrow>
      (if parent = node then Some True
       else do {
         n \<leftarrow> nodes h p;
         (if n_type n = LXB_DOM_NODE_TYPE_SHADOW_ROOT
          then lxb_dom_node_host_including_inclusive_ancestor h node (shadow_hosts h p)
          else lxb_dom_node_host_including_inclusive_ancestor h node (n_parent n)) }))"

text \<open>No node of this program is a shadow root: no function calls \<open>lxb_dom_shadow_root_interface_create\<close>.\<close>

definition no_shadow_roots :: "dom \<Rightarrow> bool" where
  "no_shadow_roots h \<longleftrightarrow> (\<forall>n\<in>ran (nodes h). n_type n \<noteq> LXB_DOM_NODE_TYPE_SHADOW_ROOT)"

lemma wf_edges: "forest_on s e T \<Longrightarrow> wf (edges T)"
  by (intro finite_acyclic_wf finite_edges forest_acyclic)

lemma forest_parent_edge:
  assumes "forest m T" and "m c = Some n"
  shows "n_parent n = Some p \<longleftrightarrow> (p, c) \<in> edges T"
proof
  show "n_parent n = Some p \<Longrightarrow> (p, c) \<in> edges T"
    using forest_child [of "sib m" "ends m" T c p] assms by (auto simp: forest_def sib_Some edges_def)
  show "(p, c) \<in> edges T \<Longrightarrow> n_parent n = Some p"
    using forest_parent [of "sib m" "ends m" T c p] assms by (auto simp: forest_def sib_Some edges_def)
qed

theorem inclusive_ancestor_iff:
  assumes f: "forest (nodes h) T" and ns: "no_shadow_roots h" and p: "p \<in> dom (nodes h)"
  shows "lxb_dom_node_host_including_inclusive_ancestor h (Some node) (Some p) =
           Some ((node, p) \<in> (edges T)\<^sup>*)"
  using wf_edges [OF f [unfolded forest_def]] p
proof (induction p rule: wf_induct_rule)
  case (less p)
  then obtain n where n: "nodes h p = Some n" by auto
  with ns have nt: "n_type n \<noteq> LXB_DOM_NODE_TYPE_SHADOW_ROOT"
    unfolding no_shadow_roots_def by (blast intro: ranI)
  note unf = lxb_dom_node_host_including_inclusive_ancestor.simps [of h "Some node" "Some p"]
  note up = forest_parent_edge [OF f n]
  show ?case
  proof (cases "n_parent n")
    case None
    then have "(node, p) \<in> (edges T)\<^sup>* \<longleftrightarrow> node = p"
      using up by (auto elim: rtranclE)
    with None n nt show ?thesis
      by (simp add: unf lxb_dom_node_host_including_inclusive_ancestor.simps [of h "Some node" None])
  next
    case (Some q)
    with up have e: "(q, p) \<in> edges T" and only: "\<And>q'. (q', p) \<in> edges T \<Longrightarrow> q' = q"
      by (metis option.inject)+
    then have "(node, p) \<in> (edges T)\<^sup>* \<longleftrightarrow> node = p \<or> (node, q) \<in> (edges T)\<^sup>*"
      by (metis rtrancl.simps)
    moreover have "q \<in> dom (nodes h)"
      using forest_parent_dom [OF f [unfolded forest_def], of p q] e by (simp add: edges_def)
    ultimately show ?thesis using less.IH [OF e] Some n nt by (simp add: unf)
  qed
qed

section \<open>Properties\<close>

text \<open>
  C33: a walker that never stops is called once for each descendant of the root, in document
  order, and the walk returns: it is a fold over the preorder of the subtree.
\<close>

theorem simple_walk_preorder:
  assumes "forest m T" and "is_rose T (Rose root ts)" and "root \<in> dom m"
    and "\<And>a s. cb a s = Some (LEXBOR_ACTION_OK, f a s)"
  shows "lxb_dom_node_simple_walk m root cb s = Some (fold f (preorders ts) s)"
  using simple_walk_visits [OF assms(1-3), of cb s] visits_fold(2) [OF assms(4)] by simp

theorem simple_walk_preorder_witness:
  "lxb_dom_node_simple_walk sample_nodes 1 (\<lambda>a s. Some (LEXBOR_ACTION_OK, s @ [a])) [] = Some [2, 3, 4, 5, 6]"
  using simple_walk_preorder [of sample_nodes sample_kids 1 "[Rose 2 [Rose 3 [Rose 4 [], Rose 5 []], Rose 6 []]]"
      "\<lambda>a s. Some (LEXBOR_ACTION_OK, s @ [a])" "\<lambda>a s. s @ [a]" "[]"] sample_wf
  by (simp add: dom_wf_def sample_kids_def) (simp add: sample_nodes_def)

end
