(* ===== verification/Dom_Validity.thy ===== *)
theory Dom_Validity
  imports Dom_Walk
begin

text \<open>
  The checked tree operations of dom/interfaces/node.c, which follow the algorithms of the
  DOM standard: validity of an insertion, pre-insert, append, remove and replace. They
  return a code of \<open>lxb_dom_exception_code_t\<close>; the codes the file uses are modelled.
\<close>

datatype lxb_dom_exception_code =
    LXB_DOM_EXCEPTION_OK
  | LXB_DOM_EXCEPTION_ERR
  | LXB_DOM_EXCEPTION_INDEX_SIZE_ERR
  | LXB_DOM_EXCEPTION_DOMSTRING_SIZE_ERR
  | LXB_DOM_EXCEPTION_HIERARCHY_REQUEST_ERR
  | LXB_DOM_EXCEPTION_WRONG_DOCUMENT_ERR
  | LXB_DOM_EXCEPTION_INVALID_CHARACTER_ERR
  | LXB_DOM_EXCEPTION_NO_DATA_ALLOWED_ERR
  | LXB_DOM_EXCEPTION_NO_MODIFICATION_ALLOWED_ERR
  | LXB_DOM_EXCEPTION_NOT_FOUND_ERR
  | LXB_DOM_EXCEPTION_NOT_SUPPORTED_ERR
  | LXB_DOM_EXCEPTION_INUSE_ATTRIBUTE_ERR
  | LXB_DOM_EXCEPTION_INVALID_STATE_ERR
  | LXB_DOM_EXCEPTION_SYNTAX_ERR
  | LXB_DOM_EXCEPTION_INVALID_MODIFICATION_ERR
  | LXB_DOM_EXCEPTION_NAMESPACE_ERR
  | LXB_DOM_EXCEPTION_INVALID_ACCESS_ERR
  | LXB_DOM_EXCEPTION_VALIDATION_ERR
  | LXB_DOM_EXCEPTION_TYPE_MISMATCH_ERR
  | LXB_DOM_EXCEPTION_SECURITY_ERR
  | LXB_DOM_EXCEPTION_NETWORK_ERR
  | LXB_DOM_EXCEPTION_ABORT_ERR
  | LXB_DOM_EXCEPTION_URL_MISMATCH_ERR
  | LXB_DOM_EXCEPTION_QUOTA_EXCEEDED_ERR
  | LXB_DOM_EXCEPTION_TIMEOUT_ERR
  | LXB_DOM_EXCEPTION_INVALID_NODE_TYPE_ERR
  | LXB_DOM_EXCEPTION_DATA_CLONE_ERR
  | LXB_DOM_EXCEPTION_ENCODING_ERR
  | LXB_DOM_EXCEPTION_NOT_READABLE_ERR
  | LXB_DOM_EXCEPTION_UNKNOWN_ERR
  | LXB_DOM_EXCEPTION_CONSTRAINT_ERR
  | LXB_DOM_EXCEPTION_DATA_ERR
  | LXB_DOM_EXCEPTION_TRANSACTION_INACTIVE_ERR
  | LXB_DOM_EXCEPTION_READ_ONLY_ERR
  | LXB_DOM_EXCEPTION_VERSION_ERR
  | LXB_DOM_EXCEPTION_OPERATION_ERR
  | LXB_DOM_EXCEPTION_NOT_ALLOWED_ERR
  | LXB_DOM_EXCEPTION_OPT_OUT_ERR

section \<open>Validity of an insertion\<close>

text \<open>A loop over siblings that looks for a node of some type, following \<open>next\<close> or \<open>prev\<close>.\<close>

partial_function (option) type_on_path ::
  "(lxb_dom_node \<Rightarrow> addr option) \<Rightarrow> lxb_dom_node_type set \<Rightarrow> dom \<Rightarrow> addr option \<Rightarrow> bool option" where
  [code]: "type_on_path step P h tmp =
     (if tmp = None then Some False
      else do {
       a \<leftarrow> tmp;
       n \<leftarrow> nodes h a;
       (if n_type n \<in> P then Some True else type_on_path step P h (step n)) })"

text \<open>The loop over a fragment's children: \<open>None\<close> inside says that the loop has returned the error.\<close>

partial_function (option) fragment_elements_loop :: "dom \<Rightarrow> addr \<Rightarrow> nat \<Rightarrow> nat option option" where
  [code]: "fragment_elements_loop h tmp count = do {
     n \<leftarrow> nodes h tmp;
     (if n_type n = LXB_DOM_NODE_TYPE_TEXT then Some None
      else do {
        let count = (if n_type n = LXB_DOM_NODE_TYPE_ELEMENT then count + 1 else count);
        (if n_type n = LXB_DOM_NODE_TYPE_ELEMENT \<and> count > 1 then Some None
         else (case n_next n of
           None \<Rightarrow> Some (Some count)
         | Some x \<Rightarrow> fragment_elements_loop h x count)) }) }"

definition validity_of_element :: "dom \<Rightarrow> addr \<Rightarrow> addr option \<Rightarrow> lxb_dom_exception_code option" where
  "validity_of_element h parent child = do {
     p \<leftarrow> nodes h parent;
     found \<leftarrow> type_on_path n_next {LXB_DOM_NODE_TYPE_ELEMENT} h (n_first_child p);
     (if found then Some LXB_DOM_EXCEPTION_HIERARCHY_REQUEST_ERR
      else (case child of
        None \<Rightarrow> Some LXB_DOM_EXCEPTION_OK
      | Some c \<Rightarrow> do {
          cn \<leftarrow> nodes h c;
          (if n_type cn = LXB_DOM_NODE_TYPE_DOCUMENT_TYPE
           then Some LXB_DOM_EXCEPTION_HIERARCHY_REQUEST_ERR
           else do {
             found \<leftarrow> type_on_path n_next {LXB_DOM_NODE_TYPE_DOCUMENT_TYPE} h (n_next cn);
             Some (if found then LXB_DOM_EXCEPTION_HIERARCHY_REQUEST_ERR else LXB_DOM_EXCEPTION_OK) }) })) }"

definition validity_of_doctype :: "dom \<Rightarrow> addr \<Rightarrow> addr option \<Rightarrow> lxb_dom_exception_code option" where
  "validity_of_doctype h parent child = do {
     p \<leftarrow> nodes h parent;
     found \<leftarrow> type_on_path n_next
       ({LXB_DOM_NODE_TYPE_DOCUMENT_TYPE} \<union> (if child = None then {LXB_DOM_NODE_TYPE_ELEMENT} else {}))
       h (n_first_child p);
     (if found then Some LXB_DOM_EXCEPTION_HIERARCHY_REQUEST_ERR
      else (case child of
        None \<Rightarrow> Some LXB_DOM_EXCEPTION_OK
      | Some c \<Rightarrow> do {
          cn \<leftarrow> nodes h c;
          found \<leftarrow> type_on_path n_prev {LXB_DOM_NODE_TYPE_ELEMENT} h (n_prev cn);
          Some (if found then LXB_DOM_EXCEPTION_HIERARCHY_REQUEST_ERR else LXB_DOM_EXCEPTION_OK) })) }"

definition validity_of_fragment :: "dom \<Rightarrow> addr \<Rightarrow> addr \<Rightarrow> addr option \<Rightarrow> lxb_dom_exception_code option" where
  "validity_of_fragment h parent node child = do {
     n \<leftarrow> nodes h node;
     (case n_first_child n of
       None \<Rightarrow> Some LXB_DOM_EXCEPTION_OK
     | Some tmp \<Rightarrow> do {
         r \<leftarrow> fragment_elements_loop h tmp 0;
         (case r of
           None \<Rightarrow> Some LXB_DOM_EXCEPTION_HIERARCHY_REQUEST_ERR
         | Some count \<Rightarrow>
             if count \<noteq> 1 then Some LXB_DOM_EXCEPTION_OK
             else validity_of_element h parent child) }) }"

text \<open>
  The second type switch reads \<open>parent->type\<close>, although the comment above it is about
  \<open>node\<close>; it is kept as the source has it.
\<close>

definition lxb_dom_node_pre_insert_validity ::
  "dom \<Rightarrow> addr option \<Rightarrow> addr option \<Rightarrow> addr option \<Rightarrow> lxb_dom_exception_code option" where
  "lxb_dom_node_pre_insert_validity h parent node child = (case parent of
     None \<Rightarrow> Some LXB_DOM_EXCEPTION_HIERARCHY_REQUEST_ERR
   | Some pa \<Rightarrow> do {
       p \<leftarrow> nodes h pa;
       (if n_type p \<notin> {LXB_DOM_NODE_TYPE_ELEMENT, LXB_DOM_NODE_TYPE_DOCUMENT,
                        LXB_DOM_NODE_TYPE_DOCUMENT_FRAGMENT}
        then Some LXB_DOM_EXCEPTION_HIERARCHY_REQUEST_ERR
        else do {
          anc \<leftarrow> lxb_dom_node_host_including_inclusive_ancestor h node parent;
          (if anc then Some LXB_DOM_EXCEPTION_HIERARCHY_REQUEST_ERR
           else do {
             stray \<leftarrow> (case child of None \<Rightarrow> Some False
                       | Some c \<Rightarrow> map_option (\<lambda>cn. n_parent cn \<noteq> parent) (nodes h c));
             (if stray then Some LXB_DOM_EXCEPTION_NOT_FOUND_ERR
              else (case node of
                None \<Rightarrow> Some LXB_DOM_EXCEPTION_HIERARCHY_REQUEST_ERR
              | Some na \<Rightarrow>
                  if n_type p \<notin> {LXB_DOM_NODE_TYPE_ELEMENT, LXB_DOM_NODE_TYPE_DOCUMENT,
                       LXB_DOM_NODE_TYPE_DOCUMENT_TYPE, LXB_DOM_NODE_TYPE_DOCUMENT_FRAGMENT,
                       LXB_DOM_NODE_TYPE_CHARACTER_DATA, LXB_DOM_NODE_TYPE_TEXT}
                  then Some LXB_DOM_EXCEPTION_HIERARCHY_REQUEST_ERR
                  else do {
                    n \<leftarrow> nodes h na;
                    (if n_type n = LXB_DOM_NODE_TYPE_TEXT \<and> n_type p = LXB_DOM_NODE_TYPE_DOCUMENT
                        \<or> n_type n = LXB_DOM_NODE_TYPE_DOCUMENT_TYPE \<and> n_type p \<noteq> LXB_DOM_NODE_TYPE_DOCUMENT
                     then Some LXB_DOM_EXCEPTION_HIERARCHY_REQUEST_ERR
                     else if n_type p \<noteq> LXB_DOM_NODE_TYPE_DOCUMENT then Some LXB_DOM_EXCEPTION_OK
                     else if n_type n = LXB_DOM_NODE_TYPE_DOCUMENT_FRAGMENT
                     then validity_of_fragment h pa na child
                     else if n_type n = LXB_DOM_NODE_TYPE_ELEMENT then validity_of_element h pa child
                     else if n_type n = LXB_DOM_NODE_TYPE_DOCUMENT_TYPE then validity_of_doctype h pa child
                     else Some LXB_DOM_EXCEPTION_OK) })) }) }) })"

section \<open>Insertion, removal, replacement\<close>

definition lxb_dom_node_remove_spec :: "dom \<Rightarrow> addr \<Rightarrow> (lxb_dom_exception_code \<times> dom) option" where
  "lxb_dom_node_remove_spec h node = do {
     n \<leftarrow> nodes h node;
     (if n_parent n = None then Some (LXB_DOM_EXCEPTION_OK, h)
      else do { h \<leftarrow> lxb_dom_node_remove h node; Some (LXB_DOM_EXCEPTION_OK, h) }) }"

definition lxb_dom_node_adopt :: "dom \<Rightarrow> addr \<Rightarrow> (lxb_dom_exception_code \<times> dom) option" where
  "lxb_dom_node_adopt h node = do {
     n \<leftarrow> nodes h node;
     (if n_parent n \<noteq> None then do {
        (code, h) \<leftarrow> lxb_dom_node_remove_spec h node;
        (if code \<noteq> LXB_DOM_EXCEPTION_OK then Some (code, h) else Some (LXB_DOM_EXCEPTION_OK, h)) }
      else Some (LXB_DOM_EXCEPTION_OK, h)) }"

definition lxb_dom_node_insert_node ::
  "dom \<Rightarrow> addr \<Rightarrow> addr \<Rightarrow> addr option \<Rightarrow> (lxb_dom_exception_code \<times> dom) option" where
  "lxb_dom_node_insert_node h parent node child = do {
     (code, h) \<leftarrow> lxb_dom_node_adopt h node;
     (if code \<noteq> LXB_DOM_EXCEPTION_OK then Some (code, h)
      else do {
        h \<leftarrow> (case child of
               None \<Rightarrow> lxb_dom_node_insert_child h parent node
             | Some c \<Rightarrow> lxb_dom_node_insert_before h c node);
        Some (LXB_DOM_EXCEPTION_OK, h) }) }"

partial_function (option) insert_siblings_loop ::
  "dom \<Rightarrow> addr \<Rightarrow> addr option \<Rightarrow> addr option \<Rightarrow> (lxb_dom_exception_code \<times> dom) option" where
  [code]: "insert_siblings_loop h parent tmp child = (case tmp of
     None \<Rightarrow> Some (LXB_DOM_EXCEPTION_OK, h)
   | Some a \<Rightarrow> do {
       n \<leftarrow> nodes h a;
       (code, h) \<leftarrow> lxb_dom_node_insert_node h parent a child;
       (if code \<noteq> LXB_DOM_EXCEPTION_OK then Some (code, h)
        else insert_siblings_loop h parent (n_next n) child) })"

definition lxb_dom_node_insert ::
  "dom \<Rightarrow> addr \<Rightarrow> addr \<Rightarrow> addr option \<Rightarrow> (lxb_dom_exception_code \<times> dom) option" where
  "lxb_dom_node_insert h parent node child = do {
     n \<leftarrow> nodes h node;
     (if n_type n = LXB_DOM_NODE_TYPE_DOCUMENT_FRAGMENT \<and> n_first_child n = None
      then Some (LXB_DOM_EXCEPTION_OK, h)
      else if n_type n \<noteq> LXB_DOM_NODE_TYPE_DOCUMENT_FRAGMENT
      then lxb_dom_node_insert_node h parent node child
      else insert_siblings_loop h parent (n_first_child n) child) }"

definition lxb_dom_node_pre_insert ::
  "dom \<Rightarrow> addr option \<Rightarrow> addr option \<Rightarrow> addr option \<Rightarrow> (lxb_dom_exception_code \<times> dom) option" where
  "lxb_dom_node_pre_insert h parent node child = do {
     code \<leftarrow> lxb_dom_node_pre_insert_validity h parent node child;
     (if code \<noteq> LXB_DOM_EXCEPTION_OK then Some (code, h)
      else do {
        pa \<leftarrow> parent;
        na \<leftarrow> node;
        child \<leftarrow> (if child = node then map_option n_next (nodes h na) else Some child);
        lxb_dom_node_insert h pa na child }) }"

definition lxb_dom_node_insert_before_spec where
  "lxb_dom_node_insert_before_spec h dst node child = lxb_dom_node_pre_insert h dst node child"

definition lxb_dom_node_append_child where
  "lxb_dom_node_append_child h parent node = lxb_dom_node_pre_insert h parent node None"

definition lxb_dom_node_remove_child ::
  "dom \<Rightarrow> addr option \<Rightarrow> addr \<Rightarrow> (lxb_dom_exception_code \<times> dom) option" where
  "lxb_dom_node_remove_child h parent child = do {
     c \<leftarrow> nodes h child;
     (if parent \<noteq> n_parent c then Some (LXB_DOM_EXCEPTION_NOT_FOUND_ERR, h)
      else lxb_dom_node_remove_spec h child) }"

definition lxb_dom_node_replace_child ::
  "dom \<Rightarrow> addr option \<Rightarrow> addr option \<Rightarrow> addr option \<Rightarrow> (lxb_dom_exception_code \<times> dom) option" where
  "lxb_dom_node_replace_child h parent node child = do {
     code \<leftarrow> lxb_dom_node_pre_insert_validity h parent node child;
     (if code \<noteq> LXB_DOM_EXCEPTION_OK then Some (code, h)
      else do {
        pa \<leftarrow> parent;
        na \<leftarrow> node;
        ca \<leftarrow> child;
        c \<leftarrow> nodes h ca;
        let before = (if n_prev c = None then n_next c else n_prev c);
        (code, h) \<leftarrow> (if n_parent c \<noteq> None then lxb_dom_node_remove_spec h ca
                     else Some (LXB_DOM_EXCEPTION_OK, h));
        (if code \<noteq> LXB_DOM_EXCEPTION_OK then Some (code, h)
         else do {
           n \<leftarrow> nodes h na;
           (if n_type n \<noteq> LXB_DOM_NODE_TYPE_DOCUMENT_FRAGMENT
            then lxb_dom_node_insert_node h pa na before
            else insert_siblings_loop h pa (n_first_child n) before) }) }) }"

partial_function (option) remove_siblings_loop ::
  "dom \<Rightarrow> addr option \<Rightarrow> (lxb_dom_exception_code \<times> dom) option" where
  [code]: "remove_siblings_loop h child = (case child of
     None \<Rightarrow> Some (LXB_DOM_EXCEPTION_OK, h)
   | Some a \<Rightarrow> do {
       n \<leftarrow> nodes h a;
       (code, h) \<leftarrow> lxb_dom_node_remove_spec h a;
       (if code \<noteq> LXB_DOM_EXCEPTION_OK then Some (code, h)
        else remove_siblings_loop h (n_next n)) })"

definition lxb_dom_node_replace_all_spec ::
  "dom \<Rightarrow> addr \<Rightarrow> addr option \<Rightarrow> (lxb_dom_exception_code \<times> dom) option" where
  "lxb_dom_node_replace_all_spec h parent node = do {
     p \<leftarrow> nodes h parent;
     (code, h) \<leftarrow> remove_siblings_loop h (n_first_child p);
     (if code \<noteq> LXB_DOM_EXCEPTION_OK then Some (code, h)
      else lxb_dom_node_append_child h (Some parent) node) }"

section \<open>The validity rules on the forest\<close>

definition ty :: "dom \<Rightarrow> addr \<Rightarrow> lxb_dom_node_type" where
  "ty h a = (case nodes h a of None \<Rightarrow> LXB_DOM_NODE_TYPE_UNDEF | Some n \<Rightarrow> n_type n)"

lemma ty_Some [simp]: "nodes h a = Some n \<Longrightarrow> ty h a = n_type n"
  by (simp add: ty_def)

definition preceding :: "kids \<Rightarrow> addr \<Rightarrow> addr \<Rightarrow> addr list" where
  "preceding T p c = takeWhile (\<lambda>x. x \<noteq> c) (T p)"

definition following :: "kids \<Rightarrow> addr \<Rightarrow> addr \<Rightarrow> addr list" where
  "following T p c = tl (dropWhile (\<lambda>x. x \<noteq> c) (T p))"

lemma preceding_split [simp]: "T p = xs @ c # ys \<Longrightarrow> c \<notin> set xs \<Longrightarrow> preceding T p c = xs"
  by (simp add: preceding_def) (subst takeWhile_append2; auto)

lemma following_split [simp]: "T p = xs @ c # ys \<Longrightarrow> c \<notin> set xs \<Longrightarrow> following T p c = ys"
  by (simp add: following_def) (subst dropWhile_append2; auto)

text \<open>The rules for a document: one element, one doctype, the doctype first, no text.\<close>

definition element_fits :: "kids \<Rightarrow> (addr \<Rightarrow> lxb_dom_node_type) \<Rightarrow> addr \<Rightarrow> addr option \<Rightarrow> bool" where
  "element_fits T t p child \<longleftrightarrow>
     (\<forall>a\<in>set (T p). t a \<noteq> LXB_DOM_NODE_TYPE_ELEMENT) \<and>
     (case child of None \<Rightarrow> True
      | Some c \<Rightarrow> t c \<noteq> LXB_DOM_NODE_TYPE_DOCUMENT_TYPE \<and>
          (\<forall>a\<in>set (following T p c). t a \<noteq> LXB_DOM_NODE_TYPE_DOCUMENT_TYPE))"

definition doctype_fits :: "kids \<Rightarrow> (addr \<Rightarrow> lxb_dom_node_type) \<Rightarrow> addr \<Rightarrow> addr option \<Rightarrow> bool" where
  "doctype_fits T t p child \<longleftrightarrow>
     (\<forall>a\<in>set (T p). t a \<noteq> LXB_DOM_NODE_TYPE_DOCUMENT_TYPE) \<and>
     (\<forall>a\<in>set (case child of None \<Rightarrow> T p | Some c \<Rightarrow> preceding T p c). t a \<noteq> LXB_DOM_NODE_TYPE_ELEMENT)"

definition fragment_fits :: "kids \<Rightarrow> (addr \<Rightarrow> lxb_dom_node_type) \<Rightarrow> addr \<Rightarrow> addr \<Rightarrow> addr option \<Rightarrow> bool" where
  "fragment_fits T t p node child \<longleftrightarrow>
     (let els = filter (\<lambda>a. t a = LXB_DOM_NODE_TYPE_ELEMENT) (T node) in
      (\<forall>a\<in>set (T node). t a \<noteq> LXB_DOM_NODE_TYPE_TEXT) \<and> length els \<le> 1 \<and>
      (length els = 1 \<longrightarrow> element_fits T t p child))"

definition fits_document :: "kids \<Rightarrow> (addr \<Rightarrow> lxb_dom_node_type) \<Rightarrow> addr \<Rightarrow> addr \<Rightarrow> addr option \<Rightarrow> bool" where
  "fits_document T t p node child = (case t node of
     LXB_DOM_NODE_TYPE_TEXT \<Rightarrow> False
   | LXB_DOM_NODE_TYPE_DOCUMENT_FRAGMENT \<Rightarrow> fragment_fits T t p node child
   | LXB_DOM_NODE_TYPE_ELEMENT \<Rightarrow> element_fits T t p child
   | LXB_DOM_NODE_TYPE_DOCUMENT_TYPE \<Rightarrow> doctype_fits T t p child
   | _ \<Rightarrow> True)"

text \<open>
  The rules of the DOM standard as the comments of \<open>lxb_dom_node_pre_insert_validity\<close> quote them, in their
  order: \<open>insert_validity\<close>. \<open>code_validity\<close> leaves out the rule that the node be a document fragment, a doctype, an
  element or character data: the code tests the type of the parent there.
\<close>

definition insertable_types :: "lxb_dom_node_type set" where
  "insertable_types =
     {LXB_DOM_NODE_TYPE_DOCUMENT_FRAGMENT, LXB_DOM_NODE_TYPE_DOCUMENT_TYPE, LXB_DOM_NODE_TYPE_ELEMENT,
      LXB_DOM_NODE_TYPE_TEXT, LXB_DOM_NODE_TYPE_CDATA_SECTION, LXB_DOM_NODE_TYPE_PROCESSING_INSTRUCTION,
      LXB_DOM_NODE_TYPE_COMMENT, LXB_DOM_NODE_TYPE_CHARACTER_DATA}"

definition insert_validity :: "kids \<Rightarrow> (addr \<Rightarrow> lxb_dom_node_type) \<Rightarrow> addr \<Rightarrow> addr \<Rightarrow> addr option \<Rightarrow> lxb_dom_exception_code" where
  "insert_validity T t p node child =
     (if t p \<notin> {LXB_DOM_NODE_TYPE_ELEMENT, LXB_DOM_NODE_TYPE_DOCUMENT, LXB_DOM_NODE_TYPE_DOCUMENT_FRAGMENT}
         \<or> (node, p) \<in> (edges T)\<^sup>*
      then LXB_DOM_EXCEPTION_HIERARCHY_REQUEST_ERR
      else if \<exists>c. child = Some c \<and> c \<notin> set (T p) then LXB_DOM_EXCEPTION_NOT_FOUND_ERR
      else if t node \<notin> insertable_types then LXB_DOM_EXCEPTION_HIERARCHY_REQUEST_ERR
      else if (if t p = LXB_DOM_NODE_TYPE_DOCUMENT then fits_document T t p node child
               else t node \<noteq> LXB_DOM_NODE_TYPE_DOCUMENT_TYPE)
      then LXB_DOM_EXCEPTION_OK else LXB_DOM_EXCEPTION_HIERARCHY_REQUEST_ERR)"

definition code_validity :: "kids \<Rightarrow> (addr \<Rightarrow> lxb_dom_node_type) \<Rightarrow> addr \<Rightarrow> addr \<Rightarrow> addr option \<Rightarrow> lxb_dom_exception_code" where
  "code_validity T t p node child =
     (if t p \<notin> {LXB_DOM_NODE_TYPE_ELEMENT, LXB_DOM_NODE_TYPE_DOCUMENT, LXB_DOM_NODE_TYPE_DOCUMENT_FRAGMENT}
         \<or> (node, p) \<in> (edges T)\<^sup>*
      then LXB_DOM_EXCEPTION_HIERARCHY_REQUEST_ERR
      else if \<exists>c. child = Some c \<and> c \<notin> set (T p) then LXB_DOM_EXCEPTION_NOT_FOUND_ERR
      else if (if t p = LXB_DOM_NODE_TYPE_DOCUMENT then fits_document T t p node child
               else t node \<noteq> LXB_DOM_NODE_TYPE_DOCUMENT_TYPE)
      then LXB_DOM_EXCEPTION_OK else LXB_DOM_EXCEPTION_HIERARCHY_REQUEST_ERR)"

subsection \<open>The loops\<close>

lemma type_on_path_next:
  assumes f: "forest_on (sib (nodes h)) (ends (nodes h)) T"
  shows "T p = xs @ ys \<Longrightarrow> type_on_path n_next P h (hd_or ys None) = Some (\<exists>a\<in>set ys. ty h a \<in> P)"
proof (induction ys arbitrary: xs)
  case (Cons a ys)
  from forest_kid_node [OF f Cons.prems] obtain n where n: "nodes h a = Some n" "n_next n = hd_or ys None" .
  then show ?case using Cons.IH [of "xs @ [a]"] Cons.prems by (simp add: type_on_path.simps [of n_next P h "Some a"])
qed (simp add: type_on_path.simps)

lemma type_on_path_prev:
  assumes f: "forest_on (sib (nodes h)) (ends (nodes h)) T"
  shows "T p = xs @ ys \<Longrightarrow> type_on_path n_prev P h (last_or xs None) = Some (\<exists>a\<in>set xs. ty h a \<in> P)"
proof (induction xs arbitrary: ys rule: rev_induct)
  case (snoc a xs)
  from forest_kid_node [OF f, of p xs a ys] snoc.prems obtain n where n: "nodes h a = Some n" "n_prev n = last_or xs None"
    by auto
  then show ?case using snoc.IH [of "a # ys"] snoc.prems by (auto simp: type_on_path.simps [of n_prev P h "Some a"])
qed (simp add: type_on_path.simps)

lemma fragment_loop_count:
  assumes f: "forest_on (sib (nodes h)) (ends (nodes h)) T"
  shows "T p = xs @ a # ys \<Longrightarrow> c \<le> 1 \<Longrightarrow> fragment_elements_loop h a c =
    (let k = c + length (filter (\<lambda>a. ty h a = LXB_DOM_NODE_TYPE_ELEMENT) (a # ys)) in
     Some (if (\<exists>x\<in>set (a # ys). ty h x = LXB_DOM_NODE_TYPE_TEXT) \<or> k > 1 then None else Some k))"
proof (induction ys arbitrary: xs a c)
  case Nil
  from forest_kid_node [OF f Nil.prems(1)] obtain n where "nodes h a = Some n" "n_next n = None" by auto
  then show ?case using Nil by (auto simp: fragment_elements_loop.simps [of h a] Let_def)
next
  case (Cons b ys)
  from forest_kid_node [OF f Cons.prems(1)] obtain n where n: "nodes h a = Some n" "n_next n = Some b" by auto
  show ?case
  proof (cases "n_type n = LXB_DOM_NODE_TYPE_ELEMENT \<and> c = 1")
    case True
    with n show ?thesis by (simp add: fragment_elements_loop.simps [of h a] Let_def)
  next
    case False
    let ?c = "if n_type n = LXB_DOM_NODE_TYPE_ELEMENT then c + 1 else c"
    have "?c \<le> 1" using False Cons.prems(2) by auto
    with Cons.IH [of "xs @ [a]" b ?c] Cons.prems n False show ?thesis
      by (auto simp: fragment_elements_loop.simps [of h a] Let_def)
  qed
qed

lemma validity_of_element_spec:
  assumes f: "forest_on (sib (nodes h)) (ends (nodes h)) T" and p: "p \<in> dom (nodes h)"
    and c: "\<And>c. child = Some c \<Longrightarrow> c \<in> set (T p)"
  shows "validity_of_element h p child =
    Some (if element_fits T (ty h) p child then LXB_DOM_EXCEPTION_OK else LXB_DOM_EXCEPTION_HIERARCHY_REQUEST_ERR)"
proof -
  from p obtain pn where pn: "nodes h p = Some pn" by auto
  note ends = forest_end_fields(1) [OF f pn]
  note first = type_on_path_next [OF f, of p "[]" "T p", simplified]
  show ?thesis
  proof (cases child)
    case None
    then show ?thesis using pn ends first by (auto simp: validity_of_element_def element_fits_def)
  next
    case (Some k)
    with c obtain xs ys where split: "T p = xs @ k # ys" by (auto simp: in_set_conv_decomp)
    have "k \<notin> set xs" using forest_distinct [OF f, of p] split by simp
    moreover from forest_kid_node [OF f split] obtain n where "nodes h k = Some n" "n_next n = hd_or ys None" .
    moreover have "type_on_path n_next P h (hd_or ys None) = Some (\<exists>a\<in>set ys. ty h a \<in> P)" for P
      using type_on_path_next [OF f, of p "xs @ [k]" ys] split by simp
    ultimately show ?thesis using Some pn ends first split
      by (auto simp: validity_of_element_def element_fits_def)
  qed
qed

lemma validity_of_doctype_spec:
  assumes f: "forest_on (sib (nodes h)) (ends (nodes h)) T" and p: "p \<in> dom (nodes h)"
    and c: "\<And>c. child = Some c \<Longrightarrow> c \<in> set (T p)"
  shows "validity_of_doctype h p child =
    Some (if doctype_fits T (ty h) p child then LXB_DOM_EXCEPTION_OK else LXB_DOM_EXCEPTION_HIERARCHY_REQUEST_ERR)"
proof -
  from p obtain pn where pn: "nodes h p = Some pn" by auto
  note ends = forest_end_fields(1) [OF f pn]
  note first = type_on_path_next [OF f, of p "[]" "T p", simplified]
  show ?thesis
  proof (cases child)
    case None
    then show ?thesis using pn ends first by (auto simp: validity_of_doctype_def doctype_fits_def)
  next
    case (Some k)
    with c obtain xs ys where split: "T p = xs @ k # ys" by (auto simp: in_set_conv_decomp)
    have "k \<notin> set xs" using forest_distinct [OF f, of p] split by simp
    moreover from forest_kid_node [OF f split] obtain n where "nodes h k = Some n" "n_prev n = last_or xs None" .
    moreover note type_on_path_prev [OF f split]
    ultimately show ?thesis using Some pn ends first split
      by (auto simp: validity_of_doctype_def doctype_fits_def)
  qed
qed

lemma validity_of_fragment_spec:
  assumes f: "forest_on (sib (nodes h)) (ends (nodes h)) T" and p: "p \<in> dom (nodes h)"
    and c: "\<And>c. child = Some c \<Longrightarrow> c \<in> set (T p)" and n: "node \<in> dom (nodes h)"
  shows "validity_of_fragment h p node child =
    Some (if fragment_fits T (ty h) p node child then LXB_DOM_EXCEPTION_OK else LXB_DOM_EXCEPTION_HIERARCHY_REQUEST_ERR)"
proof -
  from n obtain nn where nn: "nodes h node = Some nn" by auto
  note fc = forest_end_fields(1) [OF f nn]
  show ?thesis
  proof (cases "T node")
    case Nil
    then show ?thesis using nn fc by (simp add: validity_of_fragment_def fragment_fits_def)
  next
    case (Cons a ys)
    from fragment_loop_count [OF f, of node "[]" a ys 0] Cons nn fc validity_of_element_spec [OF f p c]
    show ?thesis
      by (simp add: validity_of_fragment_def fragment_fits_def Let_def)
  qed
qed

theorem pre_insert_validity_spec:
  assumes wf: "dom_wf h T" and ns: "no_shadow_roots h" and p: "p \<in> dom (nodes h)" and n: "node \<in> dom (nodes h)"
    and c: "\<And>c. child = Some c \<Longrightarrow> c \<in> dom (nodes h)"
  shows "lxb_dom_node_pre_insert_validity h (Some p) (Some node) child = Some (code_validity T (ty h) p node child)"
proof -
  note f = dom_wf_forest [OF wf]
  have f': "forest (nodes h) T" using wf by (simp add: dom_wf_def)
  from p n obtain pn nn where pn: "nodes h p = Some pn" and nn: "nodes h node = Some nn" by auto
  note anc = inclusive_ancestor_iff [OF f' ns p, of node]
  have stray: "(case child of None \<Rightarrow> Some False | Some c \<Rightarrow> map_option (\<lambda>cn. n_parent cn \<noteq> Some p) (nodes h c))
      = Some (\<exists>c. child = Some c \<and> c \<notin> set (T p))"
  proof (cases child)
    case (Some c)
    with c obtain cn where "nodes h c = Some cn" by auto
    with forest_parent_edge [OF f' this, of p] Some show ?thesis by (simp add: edges_def)
  qed simp
  show ?thesis
  proof (cases "\<exists>c. child = Some c \<and> c \<notin> set (T p)")
    case True
    then show ?thesis using pn nn anc stray
      by (auto simp: lxb_dom_node_pre_insert_validity_def code_validity_def)
  next
    case False
    then have cin: "\<And>c. child = Some c \<Longrightarrow> c \<in> set (T p)" by auto
    show ?thesis
      using pn nn anc stray False validity_of_element_spec [OF f p cin] validity_of_doctype_spec [OF f p cin]
        validity_of_fragment_spec [OF f p cin n]
      by (cases "n_type nn") (auto simp: lxb_dom_node_pre_insert_validity_def code_validity_def fits_document_def)
  qed
qed

section \<open>What the operations do to the forest\<close>

definition detach :: "addr \<Rightarrow> kids \<Rightarrow> kids" where
  "detach a T = (\<lambda>p. filter (\<lambda>x. x \<noteq> a) (T p))"

definition put_before :: "addr option \<Rightarrow> addr \<Rightarrow> addr list \<Rightarrow> addr list" where
  "put_before c a xs = (case c of
     None \<Rightarrow> xs @ [a]
   | Some c \<Rightarrow> takeWhile (\<lambda>x. x \<noteq> c) xs @ a # dropWhile (\<lambda>x. x \<noteq> c) xs)"

definition move_before :: "kids \<Rightarrow> addr \<Rightarrow> addr \<Rightarrow> addr option \<Rightarrow> kids" where
  "move_before T p a c = (detach a T)(p := put_before c a (detach a T p))"

definition move_all_before :: "kids \<Rightarrow> addr \<Rightarrow> addr list \<Rightarrow> addr option \<Rightarrow> kids" where
  "move_all_before T p as c = fold (\<lambda>a T. move_before T p a c) as T"

lemma put_before_split [simp]:
  "c \<notin> set xs \<Longrightarrow> put_before (Some c) a (xs @ c # ys) = xs @ a # c # ys"
proof -
  assume "c \<notin> set xs"
  then have "takeWhile (\<lambda>x. x \<noteq> c) (xs @ c # ys) = xs" "dropWhile (\<lambda>x. x \<noteq> c) (xs @ c # ys) = c # ys"
    by (subst takeWhile_append2 dropWhile_append2; auto)+
  then show ?thesis by (simp add: put_before_def)
qed

lemma put_before_None [simp]: "put_before None a xs = xs @ [a]"
  by (simp add: put_before_def)

lemma set_put_before [simp]: "set (put_before c a xs) = insert a (set xs)"
proof -
  have "set (takeWhile P xs) \<union> set (dropWhile P xs) = set xs" for P
    by (metis set_append takeWhile_dropWhile_id)
  then show ?thesis by (auto simp: put_before_def split: option.splits)
qed

lemma detach_absent: "(\<And>p. a \<notin> set (T p)) \<Longrightarrow> detach a T = T"
  by (auto simp: detach_def fun_eq_iff intro!: filter_True)

lemma detach_split:
  assumes f: "forest_on s e T" and Tp: "T p = xs @ a # ys"
  shows "detach a T = T(p := xs @ ys)"
proof
  fix q
  from forest_distinct [OF f, of p] Tp have "a \<notin> set xs" "a \<notin> set ys" by auto
  moreover have "q \<noteq> p \<Longrightarrow> a \<notin> set (T q)" using forest_unique_parent [OF f, of a p q] Tp by auto
  moreover have "filter (\<lambda>x. x \<noteq> a) zs = zs" if "a \<notin> set zs" for zs using that by (induction zs) auto
  ultimately show "detach a T q = (T(p := xs @ ys)) q"
    using Tp by (auto simp: detach_def)
qed

lemma edges_detach: "edges (detach a T) = {(p, c) \<in> edges T. c \<noteq> a}"
  by (auto simp: edges_def detach_def)

lemma edges_move: "edges (move_before T p a c) = insert (p, a) (edges (detach a T))"
  by (auto simp: edges_def move_before_def split: if_splits)

text \<open>Moving a node under \<open>p\<close> creates no new path to \<open>p\<close>.\<close>

lemma move_no_new_path:
  assumes "(x, p) \<notin> (edges T)\<^sup>*"
  shows "(x, p) \<notin> (edges (move_before T p a c))\<^sup>*"
proof -
  have "(edges (detach a T))\<^sup>* \<subseteq> (edges T)\<^sup>*" by (rule rtrancl_mono) (auto simp: edges_detach)
  with assms show ?thesis unfolding edges_move rtrancl_insert by blast
qed

lemma same_payload_ty: "same_payload h h' \<Longrightarrow> ty h' = ty h"
proof
  fix a
  assume "same_payload h h'"
  then have "map_option payload (nodes h' a) = map_option payload (nodes h a)" by (simp add: same_payload_def)
  then show "ty h' a = ty h a"
    by (cases "nodes h a"; cases "nodes h' a") (auto simp: ty_def payload_def)
qed

lemma same_payload_dom: "same_payload h h' \<Longrightarrow> dom (nodes h') = dom (nodes h)"
proof -
  assume "same_payload h h'"
  then have "map_option payload (nodes h' a) = map_option payload (nodes h a)" for a by (simp add: same_payload_def)
  then have "nodes h' a = None \<longleftrightarrow> nodes h a = None" for a by (metis option.map_disc_iff)
  then show ?thesis by (simp add: dom_def)
qed

lemma same_payload_no_shadow: "same_payload h h' \<Longrightarrow> no_shadow_roots h \<Longrightarrow> no_shadow_roots h'"
proof -
  assume sp: "same_payload h h'" and ns: "no_shadow_roots h"
  have "n_type n' \<noteq> LXB_DOM_NODE_TYPE_SHADOW_ROOT" if n': "nodes h' a = Some n'" for a n'
  proof -
    from n' same_payload_dom [OF sp] obtain n where n: "nodes h a = Some n" by (metis domD domI)
    then have "n_type n \<noteq> LXB_DOM_NODE_TYPE_SHADOW_ROOT" using ns unfolding no_shadow_roots_def by (blast intro: ranI)
    moreover have "n_type n' = n_type n" using same_payload_ty [OF sp] n n' ty_Some by metis
    ultimately show ?thesis by simp
  qed
  then show ?thesis by (auto simp: no_shadow_roots_def ran_def)
qed

text \<open>Removal, whether or not the node has a parent.\<close>

lemma remove_detach:
  assumes wf: "dom_wf h T" and n: "nodes h a = Some n"
  shows "\<exists>h'. lxb_dom_node_remove h a = Some h' \<and> same_payload h h' \<and> dom_wf h' (detach a T) \<and>
           (\<exists>n'. nodes h' a = Some n' \<and> n_parent n' = None)"
proof (cases "n_parent n")
  case None
  note f = dom_wf_forest [OF wf]
  have "detach a T = T" using forest_detached(4) [OF f n None] by (intro detach_absent)
  then show ?thesis using remove_detached [OF wf n None] wf n None by auto
next
  case (Some p)
  note f = dom_wf_forest [OF wf]
  from Some n have "sib (nodes h) a = Some (Some p, n_prev n, n_next n)" by (simp add: sib_Some)
  then obtain xs ys where Tp: "T p = xs @ a # ys" using forest_split [OF f] by metis
  note d = detach_split [OF f Tp]
  from remove_refines [OF wf Tp] obtain h' where h': "lxb_dom_node_remove h a = Some h'"
    "same_payload h h'" "dom_wf h' (detach a T)" by (auto simp: d)
  from same_payload_alive [OF h'(2) n] obtain n' where n': "nodes h' a = Some n'" by blast
  have "n_parent n' \<noteq> Some q" for q
    using forest_parent_edge [of "nodes h'" "detach a T" a n' q] n' h'(3) by (auto simp: dom_wf_def edges_detach)
  then have "n_parent n' = None" by (cases "n_parent n'") auto
  with h' n' show ?thesis by blast
qed

lemma remove_spec_detach:
  assumes wf: "dom_wf h T" and n: "nodes h a = Some n"
  shows "\<exists>h'. lxb_dom_node_remove_spec h a = Some (LXB_DOM_EXCEPTION_OK, h') \<and> same_payload h h' \<and>
           dom_wf h' (detach a T) \<and> (\<exists>n'. nodes h' a = Some n' \<and> n_parent n' = None)"
proof -
  from remove_detach [OF assms] obtain h' where h': "lxb_dom_node_remove h a = Some h'" "same_payload h h'"
    "dom_wf h' (detach a T)" "\<exists>n'. nodes h' a = Some n' \<and> n_parent n' = None" by blast
  show ?thesis
  proof (cases "n_parent n")
    case None
    then have "h' = h" using remove_detached [OF wf n] h'(1) by simp
    with None h' n show ?thesis by (simp add: lxb_dom_node_remove_spec_def)
  qed (use h' n in \<open>auto simp: lxb_dom_node_remove_spec_def\<close>)
qed

lemma insert_node_refines:
  assumes wf: "dom_wf h T" and p: "p \<in> dom (nodes h)" and a: "a \<in> dom (nodes h)"
    and above: "(a, p) \<notin> (edges T)\<^sup>*"
    and c: "\<And>c. child = Some c \<Longrightarrow> c \<in> set (T p) \<and> c \<noteq> a"
  shows "\<exists>h'. lxb_dom_node_insert_node h p a child = Some (LXB_DOM_EXCEPTION_OK, h') \<and> same_payload h h' \<and>
           dom_wf h' (move_before T p a child)"
proof -
  from a obtain n where n: "nodes h a = Some n" by auto
  from remove_spec_detach [OF wf n] obtain h' n' where h':
    "lxb_dom_node_remove_spec h a = Some (LXB_DOM_EXCEPTION_OK, h')" "same_payload h h'"
    "dom_wf h' (detach a T)" "nodes h' a = Some n'" "n_parent n' = None" by blast
  have adopt: "lxb_dom_node_adopt h a = Some (LXB_DOM_EXCEPTION_OK, h')"
    using h'(1) n by (auto simp: lxb_dom_node_adopt_def lxb_dom_node_remove_spec_def)
  have "edges (detach a T) \<subseteq> edges T" by (auto simp: edges_detach)
  from rtrancl_mono [OF this] have above': "(a, p) \<notin> (edges (detach a T))\<^sup>*" using above by blast
  from p same_payload_dom [OF h'(2)] obtain pn where pn: "nodes h' p = Some pn" by (metis domD)
  show ?thesis
  proof (cases child)
    case None
    from insert_child_refines [OF h'(3) pn h'(4,5) above'] obtain h'' where
      "lxb_dom_node_insert_child h' p a = Some h''" "same_payload h' h''"
      "dom_wf h'' ((detach a T)(p := detach a T p @ [a]))" by blast
    with adopt None h'(2) show ?thesis
      by (auto simp: lxb_dom_node_insert_node_def move_before_def intro: same_payload_trans)
  next
    case (Some k)
    with c have "k \<in> set (detach a T p)" by (auto simp: detach_def)
    then obtain xs ys where split: "detach a T p = xs @ k # ys" "k \<notin> set xs"
      by (metis split_list_first)
    from insert_before_refines [OF h'(3) split(1) h'(4,5) above'] obtain h'' where
      "lxb_dom_node_insert_before h' k a = Some h''" "same_payload h' h''"
      "dom_wf h'' ((detach a T)(p := xs @ a # k # ys))" by blast
    with adopt Some h'(2) split show ?thesis
      by (auto simp: lxb_dom_node_insert_node_def move_before_def intro: same_payload_trans)
  qed
qed

lemma no_path_to_kid: "(a, p) \<notin> (edges T)\<^sup>* \<Longrightarrow> b \<in> set (T a) \<Longrightarrow> (b, p) \<notin> (edges T)\<^sup>*"
  by (auto simp: edges_def intro: converse_rtrancl_into_rtrancl)

lemma insert_siblings_refines:
  assumes "dom_wf h T" and "p \<in> dom (nodes h)" and "T fr = as" and "(fr, p) \<notin> (edges T)\<^sup>*"
    and "\<And>c. child = Some c \<Longrightarrow> c \<in> set (T p)"
  shows "\<exists>h'. insert_siblings_loop h p (hd_or as None) child = Some (LXB_DOM_EXCEPTION_OK, h') \<and>
           same_payload h h' \<and> dom_wf h' (move_all_before T p as child)"
  using assms
proof (induction as arbitrary: h T)
  case Nil
  then show ?case by (simp add: insert_siblings_loop.simps move_all_before_def)
next
  case (Cons a as)
  note f = dom_wf_forest [OF Cons.prems(1)]
  have ne: "fr \<noteq> p" using Cons.prems(4) by auto
  from forest_kid_node [OF f, of fr "[]" a as] Cons.prems(3) obtain n where
    n: "nodes h a = Some n" "n_next n = hd_or as None" by auto
  have below: "(a, p) \<notin> (edges T)\<^sup>*" using no_path_to_kid [OF Cons.prems(4), of a] Cons.prems(3) by simp
  have ca: "c \<in> set (T p) \<and> c \<noteq> a" if "child = Some c" for c
    using Cons.prems(3) Cons.prems(5) [OF that] forest_unique_parent [OF f, of a fr p] ne by auto
  from insert_node_refines [OF Cons.prems(1,2) _ below ca] n obtain h' where
    h': "lxb_dom_node_insert_node h p a child = Some (LXB_DOM_EXCEPTION_OK, h')" "same_payload h h'"
    "dom_wf h' (move_before T p a child)" by auto
  have "a \<notin> set as" using forest_distinct [OF f, of fr] Cons.prems(3) by simp
  then have fr: "move_before T p a child fr = as"
    using Cons.prems(3) ne by (auto simp: move_before_def detach_def filter_id_conv)
  have c': "c \<in> set (move_before T p a child p)" if "child = Some c" for c
    using ca [OF that] by (auto simp: move_before_def detach_def)
  have "p \<in> dom (nodes h')" using Cons.prems(2) same_payload_dom [OF h'(2)] by simp
  from Cons.IH [OF h'(3) this fr move_no_new_path [OF Cons.prems(4)] c'] obtain h'' where
    "insert_siblings_loop h' p (hd_or as None) child = Some (LXB_DOM_EXCEPTION_OK, h'')"
    "same_payload h' h''" "dom_wf h'' (move_all_before (move_before T p a child) p as child)" by blast
  with n h' show ?case
    by (auto simp: insert_siblings_loop.simps [of h p "Some a"] move_all_before_def intro: same_payload_trans)
qed

definition insert_kids :: "kids \<Rightarrow> (addr \<Rightarrow> lxb_dom_node_type) \<Rightarrow> addr \<Rightarrow> addr \<Rightarrow> addr option \<Rightarrow> kids" where
  "insert_kids T t p node child =
     (if t node = LXB_DOM_NODE_TYPE_DOCUMENT_FRAGMENT then move_all_before T p (T node) child
      else move_before T p node child)"

lemma insert_refines:
  assumes wf: "dom_wf h T" and p: "p \<in> dom (nodes h)" and a: "a \<in> dom (nodes h)"
    and above: "(a, p) \<notin> (edges T)\<^sup>*"
    and c: "\<And>c. child = Some c \<Longrightarrow> c \<in> set (T p) \<and> c \<noteq> a"
  shows "\<exists>h'. lxb_dom_node_insert h p a child = Some (LXB_DOM_EXCEPTION_OK, h') \<and> same_payload h h' \<and>
           dom_wf h' (insert_kids T (ty h) p a child)"
proof -
  from a obtain n where n: "nodes h a = Some n" by auto
  note fc = forest_end_fields(1) [OF dom_wf_forest [OF wf] n]
  show ?thesis
  proof (cases "n_type n = LXB_DOM_NODE_TYPE_DOCUMENT_FRAGMENT")
    case True
    with insert_siblings_refines [OF wf p refl above] c n fc wf show ?thesis
      by (cases "T a") (auto simp: lxb_dom_node_insert_def insert_kids_def move_all_before_def)
  next
    case False
    with insert_node_refines [OF assms] n show ?thesis by (simp add: lxb_dom_node_insert_def insert_kids_def)
  qed
qed

definition pre_insert_kids :: "kids \<Rightarrow> (addr \<Rightarrow> lxb_dom_node_type) \<Rightarrow> addr \<Rightarrow> addr \<Rightarrow> addr option \<Rightarrow> kids" where
  "pre_insert_kids T t p node child =
     (if code_validity T t p node child \<noteq> LXB_DOM_EXCEPTION_OK then T
      else insert_kids T t p node (if child = Some node then hd_or (following T p node) None else child))"

lemma code_validity_OK:
  "code_validity T t p node child = LXB_DOM_EXCEPTION_OK \<Longrightarrow>
     (node, p) \<notin> (edges T)\<^sup>* \<and> (\<forall>c. child = Some c \<longrightarrow> c \<in> set (T p))"
  unfolding code_validity_def by (auto split: if_splits)

theorem pre_insert_refines:
  assumes wf: "dom_wf h T" and ns: "no_shadow_roots h" and p: "p \<in> dom (nodes h)" and n: "node \<in> dom (nodes h)"
    and c: "\<And>c. child = Some c \<Longrightarrow> c \<in> dom (nodes h)"
  shows "\<exists>h'. lxb_dom_node_pre_insert h (Some p) (Some node) child =
             Some (code_validity T (ty h) p node child, h') \<and>
           same_payload h h' \<and> dom_wf h' (pre_insert_kids T (ty h) p node child)"
proof (cases "code_validity T (ty h) p node child = LXB_DOM_EXCEPTION_OK")
  case False
  then show ?thesis using pre_insert_validity_spec [OF assms] wf
    by (simp add: lxb_dom_node_pre_insert_def pre_insert_kids_def)
next
  case True
  note f = dom_wf_forest [OF wf]
  note ok = code_validity_OK [OF True]
  let ?child = "if child = Some node then hd_or (following T p node) None else child"
  from n obtain nn where nn: "nodes h node = Some nn" by auto
  have nx: "n_next nn = hd_or (following T p node) None \<and> node \<notin> set (following T p node) \<and>
      set (following T p node) \<subseteq> set (T p)" if child: "child = Some node"
  proof -
    from ok child obtain xs ys where split: "T p = xs @ node # ys" by (auto simp: in_set_conv_decomp)
    with forest_distinct [OF f, of p] have "node \<notin> set xs" "node \<notin> set ys" by auto
    with split forest_kid_node [OF f split] nn show ?thesis by auto
  qed
  have cc: "c \<in> set (T p) \<and> c \<noteq> node" if "?child = Some c" for c
    using that ok nx by (auto split: if_splits dest: hd_or_set)
  from insert_refines [OF wf p n _ cc] ok obtain h' where
    "lxb_dom_node_insert h p node ?child = Some (LXB_DOM_EXCEPTION_OK, h')" "same_payload h h'"
    "dom_wf h' (insert_kids T (ty h) p node ?child)" by auto
  then show ?thesis using pre_insert_validity_spec [OF assms] True nn nx
    by (auto simp: lxb_dom_node_pre_insert_def pre_insert_kids_def split: if_splits)
qed

text \<open>
  \<open>lxb_dom_node_remove_child\<close> detaches a child of the parent, and answers \<open>NOT_FOUND_ERR\<close>
  without any change for every other node.
\<close>

theorem remove_child_refines:
  assumes wf: "dom_wf h T" and c: "c \<in> dom (nodes h)"
  shows "\<exists>h'. lxb_dom_node_remove_child h (Some p) c =
             Some (if c \<in> set (T p) then LXB_DOM_EXCEPTION_OK else LXB_DOM_EXCEPTION_NOT_FOUND_ERR, h') \<and>
           same_payload h h' \<and> dom_wf h' (if c \<in> set (T p) then detach c T else T)"
proof -
  from c obtain n where n: "nodes h c = Some n" by auto
  have "n_parent n = Some p \<longleftrightarrow> c \<in> set (T p)"
    using forest_parent_edge [of "nodes h" T c n p] wf n by (simp add: dom_wf_def edges_def)
  with remove_spec_detach [OF wf n] n wf show ?thesis
    by (auto simp: lxb_dom_node_remove_child_def)
qed

subsection \<open>Replacing a child\<close>

text \<open>
  The source takes as the place of the new node the previous sibling of the child, and
  only without one the next sibling; it then inserts \<^emph>\<open>before\<close> that place.
\<close>

definition replace_place :: "kids \<Rightarrow> addr \<Rightarrow> addr \<Rightarrow> addr option" where
  "replace_place T p c =
     (if preceding T p c = [] then hd_or (following T p c) None else last_or (preceding T p c) None)"

theorem replace_child_refines:
  assumes wf: "dom_wf h T" and ns: "no_shadow_roots h" and p: "p \<in> dom (nodes h)"
    and n: "node \<in> dom (nodes h)" and c: "c \<in> dom (nodes h)"
    and ok: "code_validity T (ty h) p node (Some c) = LXB_DOM_EXCEPTION_OK"
    and place: "replace_place T p c \<noteq> Some node"
  shows "\<exists>h'. lxb_dom_node_replace_child h (Some p) (Some node) (Some c) = Some (LXB_DOM_EXCEPTION_OK, h') \<and>
           same_payload h h' \<and> dom_wf h' (insert_kids (detach c T) (ty h) p node (replace_place T p c))"
proof -
  note f = dom_wf_forest [OF wf]
  from code_validity_OK [OF ok] have above: "(node, p) \<notin> (edges T)\<^sup>*" and cp: "c \<in> set (T p)" by auto
  from c obtain cn where cn: "nodes h c = Some cn" by auto
  from cp obtain xs ys where split: "T p = xs @ c # ys" by (auto simp: in_set_conv_decomp)
  with forest_distinct [OF f, of p] have cxy: "c \<notin> set xs" "c \<notin> set ys" by auto
  from forest_kid_node [OF f split] cn have nb: "n_parent cn = Some p" "n_prev cn = last_or xs None"
    "n_next cn = hd_or ys None" by auto
  let ?b = "replace_place T p c"
  have pf: "preceding T p c = xs" "following T p c = ys"
    using preceding_split [of T p xs c ys] following_split [of T p xs c ys] split cxy by blast+
  have b: "?b = (if n_prev cn = None then n_next cn else n_prev cn)"
    using pf nb by (simp add: replace_place_def)
  from remove_spec_detach [OF wf cn] obtain h1 where h1:
    "lxb_dom_node_remove_spec h c = Some (LXB_DOM_EXCEPTION_OK, h1)" "same_payload h h1" "dom_wf h1 (detach c T)"
    by blast
  note sp = same_payload_dom [OF h1(2)] same_payload_ty [OF h1(2)]
  have "edges (detach c T) \<subseteq> edges T" by (auto simp: edges_detach)
  from rtrancl_mono [OF this] above have above': "(node, p) \<notin> (edges (detach c T))\<^sup>*" by blast
  have inb: "k \<in> set (detach c T p) \<and> k \<noteq> node" if k: "?b = Some k" for k
  proof -
    have "k \<in> set xs \<union> set ys" using k pf
      by (auto simp: replace_place_def split: if_splits dest: hd_or_set last_or_set)
    then show ?thesis using split cxy place k by (auto simp: detach_def)
  qed
  from n sp obtain nn where nn: "nodes h1 node = Some nn" by (metis domD)
  note fc = forest_end_fields(1) [OF dom_wf_forest [OF h1(3)] nn]
  from insert_refines [OF h1(3) _ _ above' inb] p n sp obtain h2 where h2:
    "lxb_dom_node_insert h1 p node ?b = Some (LXB_DOM_EXCEPTION_OK, h2)" "same_payload h1 h2"
    "dom_wf h2 (insert_kids (detach c T) (ty h) p node ?b)" by auto
  have "(if n_type nn \<noteq> LXB_DOM_NODE_TYPE_DOCUMENT_FRAGMENT then lxb_dom_node_insert_node h1 p node ?b
         else insert_siblings_loop h1 p (n_first_child nn) ?b) = Some (LXB_DOM_EXCEPTION_OK, h2)"
    using h2(1) nn fc by (auto simp: lxb_dom_node_insert_def insert_siblings_loop.simps [of _ _ None] split: if_splits)
  then have "lxb_dom_node_replace_child h (Some p) (Some node) (Some c) = Some (LXB_DOM_EXCEPTION_OK, h2)"
    using pre_insert_validity_spec [OF wf ns p n, of "Some c"] c ok cn nb h1(1) nn b
    by (cases "xs = []") (simp_all add: lxb_dom_node_replace_child_def Let_def split: if_splits)
  with h1(2) h2 show ?thesis by (blast intro: same_payload_trans)
qed

text \<open>
  C37: when the child to be replaced has a previous sibling \<open>l\<close>, the new node ends up in front of
  \<open>l\<close>, not at the place of the child: the source inserts \<^emph>\<open>before\<close> \<open>child->prev\<close>.
\<close>

corollary replace_child_position:
  assumes wf: "dom_wf h T" and ns: "no_shadow_roots h"
    and n: "nodes h node = Some nn" "n_type nn \<noteq> LXB_DOM_NODE_TYPE_DOCUMENT_FRAGMENT" "n_parent nn = None"
    and Tp: "T p = xs @ l # c # ys"
    and ok: "code_validity T (ty h) p node (Some c) = LXB_DOM_EXCEPTION_OK"
  shows "\<exists>h'. lxb_dom_node_replace_child h (Some p) (Some node) (Some c) = Some (LXB_DOM_EXCEPTION_OK, h') \<and>
           dom_wf h' (T(p := xs @ node # l # ys))"
proof -
  note f = dom_wf_forest [OF wf]
  note orphan = forest_detached(4) [OF f n(1,3)]
  from forest_distinct [OF f, of p] Tp have d: "c \<notin> set (xs @ [l])" "c \<notin> set ys" "l \<notin> set xs" by auto
  then have "preceding T p c = xs @ [l]" using preceding_split [of T p "xs @ [l]" c ys] Tp by simp
  then have place: "replace_place T p c = Some l" by (simp add: replace_place_def)
  have "node \<noteq> l" using orphan [of p] Tp by auto
  moreover have live: "p \<in> dom (nodes h)" "c \<in> dom (nodes h)"
    using forest_parent_dom [OF f, of c p] forest_kid_dom [OF f, of c p] Tp by auto
  ultimately obtain h' where h': "lxb_dom_node_replace_child h (Some p) (Some node) (Some c) = Some (LXB_DOM_EXCEPTION_OK, h')"
    "dom_wf h' (insert_kids (detach c T) (ty h) p node (Some l))"
    using replace_child_refines [OF wf ns live(1) _ live(2) ok] n(1) place by auto
  have dc: "detach c T = T(p := xs @ l # ys)" using detach_split [OF f, of p "xs @ [l]" c ys] Tp by simp
  have "node \<notin> set (detach c T q)" for q using orphan [of q] by (simp add: detach_def)
  then have "detach node (detach c T) = detach c T" by (rule detach_absent)
  then have "insert_kids (detach c T) (ty h) p node (Some l) = T(p := xs @ node # l # ys)"
    using n d dc by (simp add: insert_kids_def move_before_def)
  with h' show ?thesis by auto
qed

lemma sample_no_shadow: "no_shadow_roots sample_dom"
  by (auto simp: no_shadow_roots_def sample_dom_def sample_nodes_def sample_node_def ran_def split: if_splits)

lemma sample_ty [simp]: "ty sample_dom a = (case sample_nodes a of None \<Rightarrow> LXB_DOM_NODE_TYPE_UNDEF | Some n \<Rightarrow> n_type n)"
  by (simp add: ty_def)

theorem replace_child_position_witness:
  "\<exists>h'. lxb_dom_node_replace_child sample_dom (Some 3) (Some 7) (Some 5) = Some (LXB_DOM_EXCEPTION_OK, h') \<and>
     dom_wf h' (sample_kids(3 := [7, 4]))"
proof -
  have "(7, 3) \<notin> (edges sample_kids)\<^sup>*" using sample_path [of 7 3] by auto
  then have v: "code_validity sample_kids (ty sample_dom) 3 7 (Some 5) = LXB_DOM_EXCEPTION_OK"
    by (simp add: code_validity_def sample_nodes_def sample_node_def sample_kids_def)
  with replace_child_position [OF sample_wf sample_no_shadow, of 7 _ 3 "[]" 4 5 "[]"] show ?thesis
    by (simp add: sample_nodes_def sample_node_def sample_kids_def)
qed

section \<open>Replacing all children\<close>

lemma remove_siblings_refines:
  assumes "dom_wf h T" and "T p = as"
  shows "\<exists>h'. remove_siblings_loop h (hd_or as None) = Some (LXB_DOM_EXCEPTION_OK, h') \<and>
           same_payload h h' \<and> dom_wf h' (T(p := []))"
  using assms
proof (induction as arbitrary: h T)
  case Nil
  then have "T(p := []) = T" by auto
  with Nil show ?case by (simp add: remove_siblings_loop.simps)
next
  case (Cons a as)
  note f = dom_wf_forest [OF Cons.prems(1)]
  from forest_kid_node [OF f, of p "[]" a as] Cons.prems(2) obtain n where
    n: "nodes h a = Some n" "n_next n = hd_or as None" by auto
  from remove_spec_detach [OF Cons.prems(1) n(1)] obtain h1 where h1:
    "lxb_dom_node_remove_spec h a = Some (LXB_DOM_EXCEPTION_OK, h1)" "same_payload h h1" "dom_wf h1 (detach a T)"
    by blast
  have d: "detach a T = T(p := as)" using detach_split [OF f, of p "[]" a as] Cons.prems(2) by simp
  have "(T(p := as))(p := []) = T(p := [])" by simp
  with Cons.IH [of h1 "T(p := as)"] h1(3) d obtain h2 where
    "remove_siblings_loop h1 (hd_or as None) = Some (LXB_DOM_EXCEPTION_OK, h2)" "same_payload h1 h2"
    "dom_wf h2 (T(p := []))" by (metis fun_upd_same)
  moreover from n h1 this(1) have "remove_siblings_loop h (hd_or (a # as) None) = Some (LXB_DOM_EXCEPTION_OK, h2)"
    by (simp add: remove_siblings_loop.simps [of h "Some a"])
  ultimately show ?case using same_payload_trans [OF h1(2)] by blast
qed

text \<open>
  \<open>lxb_dom_node_replace_all_spec\<close> removes all children and appends the node when the rules
  allow it; when they do not, it answers the exception with the children already gone.
\<close>

theorem replace_all_spec_refines:
  assumes wf: "dom_wf h T" and ns: "no_shadow_roots h" and p: "p \<in> dom (nodes h)" and n: "node \<in> dom (nodes h)"
  shows "\<exists>h'. lxb_dom_node_replace_all_spec h p (Some node) =
             Some (code_validity (T(p := [])) (ty h) p node None, h') \<and>
           same_payload h h' \<and> dom_wf h' (pre_insert_kids (T(p := [])) (ty h) p node None)"
proof -
  from p obtain pn where pn: "nodes h p = Some pn" by auto
  from remove_siblings_refines [OF wf refl, of p] obtain h1 where h1:
    "remove_siblings_loop h (hd_or (T p) None) = Some (LXB_DOM_EXCEPTION_OK, h1)" "same_payload h h1"
    "dom_wf h1 (T(p := []))" by blast
  note sp = same_payload_dom [OF h1(2)] same_payload_ty [OF h1(2)] same_payload_no_shadow [OF h1(2) ns]
  from pre_insert_refines [OF h1(3), of p node None] p n sp obtain h2 where
    "lxb_dom_node_pre_insert h1 (Some p) (Some node) None =
      Some (code_validity (T(p := [])) (ty h) p node None, h2)" "same_payload h1 h2"
    "dom_wf h2 (pre_insert_kids (T(p := [])) (ty h) p node None)" by auto
  with h1 pn forest_end_fields(1) [OF dom_wf_forest [OF wf] pn] show ?thesis
    by (auto simp: lxb_dom_node_replace_all_spec_def lxb_dom_node_append_child_def intro: same_payload_trans)
qed

theorem remove_child_refines_witness:
  "\<exists>h'. lxb_dom_node_remove_child sample_dom (Some 3) 4 = Some (LXB_DOM_EXCEPTION_OK, h') \<and>
     dom_wf h' (detach 4 sample_kids)"
  using remove_child_refines [OF sample_wf, of 4 3] by (auto simp: sample_nodes_def sample_kids_def)

theorem replace_all_spec_refines_witness:
  "\<exists>h'. lxb_dom_node_replace_all_spec sample_dom 3 (Some 7) = Some (LXB_DOM_EXCEPTION_OK, h') \<and>
     dom_wf h' (sample_kids(3 := [7]))"
proof -
  let ?T = "sample_kids(3 := [])"
  have "edges ?T \<subseteq> edges sample_kids" by (auto simp: edges_def split: if_splits)
  from rtrancl_mono [OF this] have "(7, 3) \<notin> (edges ?T)\<^sup>*" using sample_path [of 7 3] by auto
  then have v: "code_validity ?T (ty sample_dom) 3 7 None = LXB_DOM_EXCEPTION_OK"
    by (simp add: code_validity_def sample_nodes_def sample_node_def)
  then have "pre_insert_kids ?T (ty sample_dom) 3 7 None = sample_kids(3 := [7])"
    by (simp add: pre_insert_kids_def insert_kids_def sample_nodes_def sample_node_def)
      (auto simp: sample_kids_def move_before_def put_before_def detach_def fun_eq_iff)
  with v replace_all_spec_refines [OF sample_wf sample_no_shadow, of 3 7] show ?thesis
    by (auto simp: sample_nodes_def)
qed

section \<open>Properties\<close>

text \<open>
  C3: \<open>lxb_dom_node_insert_before_spec\<close> always returns, without dereferencing a dead pointer; it moves the
  node (or the children of the fragment, in order) in front of the child exactly when it answers OK, and
  otherwise changes nothing. For a document fragment, a doctype, an element or character data the answer is
  the one the DOM rules in the comments of the code prescribe on the tree. The rule that no other kind of
  node may be inserted is not checked: for an attribute or a document the answer is that of the remaining
  rules, so that it is accepted below an element it is not above.
\<close>

theorem insert_before_spec_refines:
  assumes wf: "dom_wf h T" and ns: "no_shadow_roots h" and p: "p \<in> dom (nodes h)" and n: "node \<in> dom (nodes h)"
    and c: "c \<in> dom (nodes h)"
  shows "\<exists>code h'. lxb_dom_node_insert_before_spec h (Some p) (Some node) (Some c) = Some (code, h') \<and>
     same_payload h h' \<and>
     dom_wf h' (if code = LXB_DOM_EXCEPTION_OK
       then insert_kids T (ty h) p node (if c = node then hd_or (following T p node) None else Some c) else T) \<and>
     (ty h node \<in> insertable_types \<longrightarrow> code = insert_validity T (ty h) p node (Some c)) \<and>
     (ty h node \<notin> insertable_types \<longrightarrow> code = code_validity T (ty h) p node (Some c) \<and>
        (ty h p = LXB_DOM_NODE_TYPE_ELEMENT \<and> c \<in> set (T p) \<and> (node, p) \<notin> (edges T)\<^sup>* \<longrightarrow> code = LXB_DOM_EXCEPTION_OK))"
proof -
  obtain h' where h': "lxb_dom_node_insert_before_spec h (Some p) (Some node) (Some c) =
      Some (code_validity T (ty h) p node (Some c), h')" "same_payload h h'"
      "dom_wf h' (pre_insert_kids T (ty h) p node (Some c))"
    unfolding lxb_dom_node_insert_before_spec_def
    using pre_insert_refines [OF wf ns p n, of "Some c"] c by auto
  moreover have "ty h node \<in> insertable_types \<Longrightarrow>
      code_validity T (ty h) p node (Some c) = insert_validity T (ty h) p node (Some c)"
    unfolding insert_validity_def code_validity_def by simp
  moreover have "code_validity T (ty h) p node (Some c) = LXB_DOM_EXCEPTION_OK"
    if "ty h node \<notin> insertable_types" "ty h p = LXB_DOM_NODE_TYPE_ELEMENT" "c \<in> set (T p)" "(node, p) \<notin> (edges T)\<^sup>*"
    using that by (auto simp: code_validity_def insertable_types_def)
  ultimately show ?thesis
    by (intro exI [of _ "code_validity T (ty h) p node (Some c)"] exI [of _ h']) (auto simp: pre_insert_kids_def split: if_splits)
qed

theorem insert_before_spec_refines_witness:
  "\<exists>h'. lxb_dom_node_insert_before_spec sample_dom (Some 2) (Some 8) (Some 6) = Some (LXB_DOM_EXCEPTION_OK, h') \<and>
     dom_wf h' (sample_kids(2 := [3, 9, 10, 6], 8 := []))"
proof -
  have "(8, 2) \<notin> (edges sample_kids)\<^sup>*" using sample_path [of 8 2] by auto
  then have v: "insert_validity sample_kids (ty sample_dom) 2 8 (Some 6) = LXB_DOM_EXCEPTION_OK"
    by (simp add: insert_validity_def insertable_types_def sample_nodes_def sample_node_def sample_kids_def)
  have "insert_kids sample_kids (ty sample_dom) 2 8 (Some 6) = sample_kids(2 := [3, 9, 10, 6], 8 := [])"
    by (simp add: insert_kids_def move_all_before_def sample_nodes_def sample_node_def)
      (auto simp: sample_kids_def move_before_def put_before_def detach_def fun_eq_iff)
  moreover have "ty sample_dom 8 \<in> insertable_types" by (simp add: insertable_types_def sample_nodes_def sample_node_def)
  ultimately show ?thesis
    using v insert_before_spec_refines [OF sample_wf sample_no_shadow, of 2 8 6] by (auto simp: sample_nodes_def)
qed

text \<open>An attribute goes into the tree.\<close>

lemma attribute_inserted:
  "insert_validity sample_kids (ty sample_dom) 2 11 (Some 6) = LXB_DOM_EXCEPTION_HIERARCHY_REQUEST_ERR"
  "code_validity sample_kids (ty sample_dom) 2 11 (Some 6) = LXB_DOM_EXCEPTION_OK"
proof -
  have "(11, 2) \<notin> (edges sample_kids)\<^sup>*" using sample_path [of 11 2] by auto
  then show "insert_validity sample_kids (ty sample_dom) 2 11 (Some 6) = LXB_DOM_EXCEPTION_HIERARCHY_REQUEST_ERR"
    "code_validity sample_kids (ty sample_dom) 2 11 (Some 6) = LXB_DOM_EXCEPTION_OK"
    by (simp_all add: insert_validity_def code_validity_def insertable_types_def sample_nodes_def sample_node_def sample_kids_def)
qed

text \<open>
  C29: no node can become a child of itself or of one of its descendants: \<open>lxb_dom_node_append_child\<close>
  answers \<open>HIERARCHY_REQUEST_ERR\<close> and leaves the document alone, so no cycle arises.
\<close>

theorem append_child_rejected:
  assumes wf: "dom_wf h T" and ns: "no_shadow_roots h" and p: "p \<in> dom (nodes h)" and n: "node \<in> dom (nodes h)"
    and above: "(node, p) \<in> (edges T)\<^sup>*"
  shows "lxb_dom_node_append_child h (Some p) (Some node) = Some (LXB_DOM_EXCEPTION_HIERARCHY_REQUEST_ERR, h)"
  using pre_insert_validity_spec [OF wf ns p n, of None] above
  by (simp add: lxb_dom_node_append_child_def lxb_dom_node_pre_insert_def code_validity_def)

theorem append_child_rejected_witness:
  "lxb_dom_node_append_child sample_dom (Some 3) (Some 1) = Some (LXB_DOM_EXCEPTION_HIERARCHY_REQUEST_ERR, sample_dom)"
proof -
  have "(1, 2) \<in> edges sample_kids" "(2, 3) \<in> edges sample_kids" by (simp_all add: sample_edges)
  then have "(1, 3) \<in> (edges sample_kids)\<^sup>*" by (meson rtrancl.simps)
  with append_child_rejected [OF sample_wf sample_no_shadow, of 3 1] show ?thesis by (simp add: sample_nodes_def)
qed

end
