(* ===== verification/Lexbor_Tables.thy ===== *)
theory Lexbor_Tables
  imports Lexbor_Shs
begin

text \<open>
  The names known at compile time (dom/interfaces/attr_res.h, ns/res.h, tag/res.h): for each kind
  the data by identifier, and the static hash table over them, transcribed entry by entry; then the
  facts about them that the lookups need, by evaluation.
\<close>

record name_data =
  nd_str :: bytes
  nd_length :: nat
  nd_id :: nat

definition name_data :: "string \<Rightarrow> nat \<Rightarrow> nat \<Rightarrow> name_data" where
  "name_data s len i = \<lparr>nd_str = ascii s, nd_length = len, nd_id = i\<rparr>"

section \<open>Attribute names\<close>

definition lxb_dom_attr_res_data_default :: "name_data list" where
  "lxb_dom_attr_res_data_default = [
     name_data ''#undef'' 6 0, name_data ''active'' 6 1, name_data ''alt'' 3 2, name_data ''charset'' 7 3,
     name_data ''checked'' 7 4, name_data ''class'' 5 5, name_data ''color'' 5 6, name_data ''content'' 7 7,
     name_data ''dir'' 3 8, name_data ''disabled'' 8 9, name_data ''face'' 4 10, name_data ''focus'' 5 11,
     name_data ''for'' 3 12, name_data ''height'' 6 13, name_data ''hover'' 5 14, name_data ''href'' 4 15,
     name_data ''html'' 4 16, name_data ''http-equiv'' 10 17, name_data ''id'' 2 18, name_data ''is'' 2 19,
     name_data ''maxlength'' 9 20, name_data ''multiple'' 8 21, name_data ''placeholder'' 11 22,
     name_data ''pool'' 4 23, name_data ''public'' 6 24, name_data ''readonly'' 8 25, name_data ''required'' 8 26,
     name_data ''scheme'' 6 27, name_data ''selected'' 8 28, name_data ''size'' 4 29, name_data ''slot'' 4 30,
     name_data ''src'' 3 31, name_data ''style'' 5 32, name_data ''system'' 6 33, name_data ''title'' 5 34,
     name_data ''type'' 4 35, name_data ''width'' 5 36]"

definition lxb_dom_attr_res_shs_data :: "shs_entry list" where
  "lxb_dom_attr_res_shs_data = [
     shs_null 39 0, shs ''slot'' 30 4 2, shs ''#undef'' 0 6 0, shs ''active'' 1 6 0, shs ''html'' 16 4 0,
     shs ''href'' 15 4 4, shs ''hover'' 14 5 7, shs ''readonly'' 25 8 0, shs ''disabled'' 9 8 0,
     shs ''color'' 6 5 0, shs ''src'' 31 3 8, shs ''required'' 26 8 0, shs ''id'' 18 2 11, shs ''system'' 33 6 0,
     shs ''pool'' 23 4 13, shs ''placeholder'' 22 11 0, shs ''selected'' 28 8 0, shs ''scheme'' 27 6 0,
     shs ''http-equiv'' 17 10 0, shs ''size'' 29 4 16, shs ''style'' 32 5 0, shs ''class'' 5 5 17,
     shs ''width'' 36 5 0, shs ''height'' 13 6 0, shs ''focus'' 11 5 18, shs ''public'' 24 6 0,
     shs ''content'' 7 7 0, shs ''is'' 19 2 0, shs ''type'' 35 4 0, shs ''title'' 34 5 0, shs ''multiple'' 21 8 0,
     shs ''for'' 12 3 0, shs ''face'' 10 4 22, shs ''alt'' 2 3 23, shs ''dir'' 8 3 0, shs ''charset'' 3 7 26,
     shs ''maxlength'' 20 9 0, shs_null 0 0, shs ''checked'' 4 7 30, shs_null 0 0]"

section \<open>Namespaces and prefixes\<close>

definition lxb_ns_res_data :: "name_data list" where
  "lxb_ns_res_data = [
     name_data '''' 0 0, name_data '''' 0 1, name_data ''http://www.w3.org/1999/xhtml'' 28 2,
     name_data ''http://www.w3.org/1998/Math/MathML'' 34 3, name_data ''http://www.w3.org/2000/svg'' 26 4,
     name_data ''http://www.w3.org/1999/xlink'' 28 5, name_data ''http://www.w3.org/XML/1998/namespace'' 36 6,
     name_data ''http://www.w3.org/2000/xmlns/'' 29 7]"

definition lxb_ns_prefix_res_data :: "name_data list" where
  "lxb_ns_prefix_res_data = [
     name_data ''#undef'' 6 0, name_data ''#any'' 4 1, name_data ''html'' 4 2, name_data ''math'' 4 3,
     name_data ''svg'' 3 4, name_data ''xlink'' 5 5, name_data ''xml'' 3 6, name_data ''xmlns'' 5 7]"

definition lxb_ns_res_shs_data :: "shs_entry list" where
  "lxb_ns_res_shs_data = [
     shs_null 28 0, shs ''html'' 2 4 0, shs ''xmlns'' 7 5 0, shs_null 0 0, shs_null 0 0, shs_null 0 0, shs_null 0 0,
     shs ''svg'' 4 3 0, shs_null 0 0, shs_null 0 0, shs_null 0 0, shs_null 0 0, shs_null 0 0, shs_null 0 0,
     shs_null 0 0, shs_null 0 0, shs_null 0 0, shs ''math'' 3 4 0, shs_null 0 0, shs_null 0 0, shs_null 0 0,
     shs ''#undef'' 0 6 0, shs ''xlink'' 5 5 0, shs_null 0 0, shs_null 0 0, shs_null 0 0, shs ''#any'' 1 4 0,
     shs_null 0 0, shs ''xml'' 6 3 0]"

definition lxb_ns_res_shs_link_data :: "shs_entry list" where
  "lxb_ns_res_shs_link_data = [
     shs_null 22 0, shs ''http://www.w3.org/1999/xhtml'' 2 28 0, shs_null 0 0, shs_null 0 0, shs_null 0 0,
     shs_null 0 0, shs ''http://www.w3.org/2000/xmlns/'' 7 29 0, shs ''http://www.w3.org/1998/math/mathml'' 3 34 0,
     shs_null 0 0, shs ''http://www.w3.org/1999/xlink'' 5 28 0, shs_null 0 0, shs_null 0 0, shs_null 0 0,
     shs_null 0 0, shs_null 0 0, shs_null 0 0, shs ''#any'' 1 4 0, shs ''http://www.w3.org/2000/svg'' 4 26 0,
     shs_null 0 0, shs ''#undef'' 0 6 0, shs_null 0 0, shs ''http://www.w3.org/xml/1998/namespace'' 6 36 0,
     shs_null 0 0]"

section \<open>Tag names\<close>

definition lxb_tag_res_data_default :: "name_data list" where
  "lxb_tag_res_data_default = [
     name_data ''#undef'' 6 0, name_data ''#end-of-file'' 12 1, name_data ''#text'' 5 2,
     name_data ''#document'' 9 3, name_data ''!--'' 3 4, name_data ''!doctype'' 8 5, name_data ''a'' 1 6,
     name_data ''abbr'' 4 7, name_data ''acronym'' 7 8, name_data ''address'' 7 9, name_data ''altglyph'' 8 10,
     name_data ''altglyphdef'' 11 11, name_data ''altglyphitem'' 12 12, name_data ''animatecolor'' 12 13,
     name_data ''animatemotion'' 13 14, name_data ''animatetransform'' 16 15, name_data ''annotation-xml'' 14 16,
     name_data ''applet'' 6 17, name_data ''area'' 4 18, name_data ''article'' 7 19, name_data ''aside'' 5 20,
     name_data ''audio'' 5 21, name_data ''b'' 1 22, name_data ''base'' 4 23, name_data ''basefont'' 8 24,
     name_data ''bdi'' 3 25, name_data ''bdo'' 3 26, name_data ''bgsound'' 7 27, name_data ''big'' 3 28,
     name_data ''blink'' 5 29, name_data ''blockquote'' 10 30, name_data ''body'' 4 31, name_data ''br'' 2 32,
     name_data ''button'' 6 33, name_data ''canvas'' 6 34, name_data ''caption'' 7 35, name_data ''center'' 6 36,
     name_data ''cite'' 4 37, name_data ''clippath'' 8 38, name_data ''code'' 4 39, name_data ''col'' 3 40,
     name_data ''colgroup'' 8 41, name_data ''data'' 4 42, name_data ''datalist'' 8 43, name_data ''dd'' 2 44,
     name_data ''del'' 3 45, name_data ''desc'' 4 46, name_data ''details'' 7 47, name_data ''dfn'' 3 48,
     name_data ''dialog'' 6 49, name_data ''dir'' 3 50, name_data ''div'' 3 51, name_data ''dl'' 2 52,
     name_data ''dt'' 2 53, name_data ''em'' 2 54, name_data ''embed'' 5 55, name_data ''feblend'' 7 56,
     name_data ''fecolormatrix'' 13 57, name_data ''fecomponenttransfer'' 19 58, name_data ''fecomposite'' 11 59,
     name_data ''feconvolvematrix'' 16 60, name_data ''fediffuselighting'' 17 61,
     name_data ''fedisplacementmap'' 17 62, name_data ''fedistantlight'' 14 63, name_data ''fedropshadow'' 12 64,
     name_data ''feflood'' 7 65, name_data ''fefunca'' 7 66, name_data ''fefuncb'' 7 67, name_data ''fefuncg'' 7 68,
     name_data ''fefuncr'' 7 69, name_data ''fegaussianblur'' 14 70, name_data ''feimage'' 7 71,
     name_data ''femerge'' 7 72, name_data ''femergenode'' 11 73, name_data ''femorphology'' 12 74,
     name_data ''feoffset'' 8 75, name_data ''fepointlight'' 12 76, name_data ''fespecularlighting'' 18 77,
     name_data ''fespotlight'' 11 78, name_data ''fetile'' 6 79, name_data ''feturbulence'' 12 80,
     name_data ''fieldset'' 8 81, name_data ''figcaption'' 10 82, name_data ''figure'' 6 83,
     name_data ''font'' 4 84, name_data ''footer'' 6 85, name_data ''foreignobject'' 13 86, name_data ''form'' 4 87,
     name_data ''frame'' 5 88, name_data ''frameset'' 8 89, name_data ''glyphref'' 8 90, name_data ''h1'' 2 91,
     name_data ''h2'' 2 92, name_data ''h3'' 2 93, name_data ''h4'' 2 94, name_data ''h5'' 2 95,
     name_data ''h6'' 2 96, name_data ''head'' 4 97, name_data ''header'' 6 98, name_data ''hgroup'' 6 99,
     name_data ''hr'' 2 100, name_data ''html'' 4 101, name_data ''i'' 1 102, name_data ''iframe'' 6 103,
     name_data ''image'' 5 104, name_data ''img'' 3 105, name_data ''input'' 5 106, name_data ''ins'' 3 107,
     name_data ''isindex'' 7 108, name_data ''kbd'' 3 109, name_data ''keygen'' 6 110, name_data ''label'' 5 111,
     name_data ''legend'' 6 112, name_data ''li'' 2 113, name_data ''lineargradient'' 14 114,
     name_data ''link'' 4 115, name_data ''listing'' 7 116, name_data ''main'' 4 117,
     name_data ''malignmark'' 10 118, name_data ''map'' 3 119, name_data ''mark'' 4 120,
     name_data ''marquee'' 7 121, name_data ''math'' 4 122, name_data ''menu'' 4 123, name_data ''meta'' 4 124,
     name_data ''meter'' 5 125, name_data ''mfenced'' 7 126, name_data ''mglyph'' 6 127, name_data ''mi'' 2 128,
     name_data ''mn'' 2 129, name_data ''mo'' 2 130, name_data ''ms'' 2 131, name_data ''mtext'' 5 132,
     name_data ''multicol'' 8 133, name_data ''nav'' 3 134, name_data ''nextid'' 6 135, name_data ''nobr'' 4 136,
     name_data ''noembed'' 7 137, name_data ''noframes'' 8 138, name_data ''noscript'' 8 139,
     name_data ''object'' 6 140, name_data ''ol'' 2 141, name_data ''optgroup'' 8 142, name_data ''option'' 6 143,
     name_data ''output'' 6 144, name_data ''p'' 1 145, name_data ''param'' 5 146, name_data ''path'' 4 147,
     name_data ''picture'' 7 148, name_data ''plaintext'' 9 149, name_data ''pre'' 3 150,
     name_data ''progress'' 8 151, name_data ''q'' 1 152, name_data ''radialgradient'' 14 153,
     name_data ''rb'' 2 154, name_data ''rp'' 2 155, name_data ''rt'' 2 156, name_data ''rtc'' 3 157,
     name_data ''ruby'' 4 158, name_data ''s'' 1 159, name_data ''samp'' 4 160, name_data ''script'' 6 161,
     name_data ''search'' 6 162, name_data ''section'' 7 163, name_data ''select'' 6 164,
     name_data ''selectedcontent'' 15 165, name_data ''slot'' 4 166, name_data ''small'' 5 167,
     name_data ''source'' 6 168, name_data ''spacer'' 6 169, name_data ''span'' 4 170, name_data ''strike'' 6 171,
     name_data ''strong'' 6 172, name_data ''style'' 5 173, name_data ''sub'' 3 174, name_data ''summary'' 7 175,
     name_data ''sup'' 3 176, name_data ''svg'' 3 177, name_data ''table'' 5 178, name_data ''tbody'' 5 179,
     name_data ''td'' 2 180, name_data ''template'' 8 181, name_data ''textarea'' 8 182,
     name_data ''textpath'' 8 183, name_data ''tfoot'' 5 184, name_data ''th'' 2 185, name_data ''thead'' 5 186,
     name_data ''time'' 4 187, name_data ''title'' 5 188, name_data ''tr'' 2 189, name_data ''track'' 5 190,
     name_data ''tt'' 2 191, name_data ''u'' 1 192, name_data ''ul'' 2 193, name_data ''var'' 3 194,
     name_data ''video'' 5 195, name_data ''wbr'' 3 196, name_data ''xmp'' 3 197]"

definition lxb_tag_res_data_upper_default :: "name_data list" where
  "lxb_tag_res_data_upper_default = [
     name_data ''#UNDEF'' 6 0, name_data ''#END-OF-FILE'' 12 1, name_data ''#TEXT'' 5 2,
     name_data ''#DOCUMENT'' 9 3, name_data ''!--'' 3 4, name_data ''!DOCTYPE'' 8 5, name_data ''A'' 1 6,
     name_data ''ABBR'' 4 7, name_data ''ACRONYM'' 7 8, name_data ''ADDRESS'' 7 9, name_data ''ALTGLYPH'' 8 10,
     name_data ''ALTGLYPHDEF'' 11 11, name_data ''ALTGLYPHITEM'' 12 12, name_data ''ANIMATECOLOR'' 12 13,
     name_data ''ANIMATEMOTION'' 13 14, name_data ''ANIMATETRANSFORM'' 16 15, name_data ''ANNOTATION-XML'' 14 16,
     name_data ''APPLET'' 6 17, name_data ''AREA'' 4 18, name_data ''ARTICLE'' 7 19, name_data ''ASIDE'' 5 20,
     name_data ''AUDIO'' 5 21, name_data ''B'' 1 22, name_data ''BASE'' 4 23, name_data ''BASEFONT'' 8 24,
     name_data ''BDI'' 3 25, name_data ''BDO'' 3 26, name_data ''BGSOUND'' 7 27, name_data ''BIG'' 3 28,
     name_data ''BLINK'' 5 29, name_data ''BLOCKQUOTE'' 10 30, name_data ''BODY'' 4 31, name_data ''BR'' 2 32,
     name_data ''BUTTON'' 6 33, name_data ''CANVAS'' 6 34, name_data ''CAPTION'' 7 35, name_data ''CENTER'' 6 36,
     name_data ''CITE'' 4 37, name_data ''CLIPPATH'' 8 38, name_data ''CODE'' 4 39, name_data ''COL'' 3 40,
     name_data ''COLGROUP'' 8 41, name_data ''DATA'' 4 42, name_data ''DATALIST'' 8 43, name_data ''DD'' 2 44,
     name_data ''DEL'' 3 45, name_data ''DESC'' 4 46, name_data ''DETAILS'' 7 47, name_data ''DFN'' 3 48,
     name_data ''DIALOG'' 6 49, name_data ''DIR'' 3 50, name_data ''DIV'' 3 51, name_data ''DL'' 2 52,
     name_data ''DT'' 2 53, name_data ''EM'' 2 54, name_data ''EMBED'' 5 55, name_data ''FEBLEND'' 7 56,
     name_data ''FECOLORMATRIX'' 13 57, name_data ''FECOMPONENTTRANSFER'' 19 58, name_data ''FECOMPOSITE'' 11 59,
     name_data ''FECONVOLVEMATRIX'' 16 60, name_data ''FEDIFFUSELIGHTING'' 17 61,
     name_data ''FEDISPLACEMENTMAP'' 17 62, name_data ''FEDISTANTLIGHT'' 14 63, name_data ''FEDROPSHADOW'' 12 64,
     name_data ''FEFLOOD'' 7 65, name_data ''FEFUNCA'' 7 66, name_data ''FEFUNCB'' 7 67, name_data ''FEFUNCG'' 7 68,
     name_data ''FEFUNCR'' 7 69, name_data ''FEGAUSSIANBLUR'' 14 70, name_data ''FEIMAGE'' 7 71,
     name_data ''FEMERGE'' 7 72, name_data ''FEMERGENODE'' 11 73, name_data ''FEMORPHOLOGY'' 12 74,
     name_data ''FEOFFSET'' 8 75, name_data ''FEPOINTLIGHT'' 12 76, name_data ''FESPECULARLIGHTING'' 18 77,
     name_data ''FESPOTLIGHT'' 11 78, name_data ''FETILE'' 6 79, name_data ''FETURBULENCE'' 12 80,
     name_data ''FIELDSET'' 8 81, name_data ''FIGCAPTION'' 10 82, name_data ''FIGURE'' 6 83,
     name_data ''FONT'' 4 84, name_data ''FOOTER'' 6 85, name_data ''FOREIGNOBJECT'' 13 86, name_data ''FORM'' 4 87,
     name_data ''FRAME'' 5 88, name_data ''FRAMESET'' 8 89, name_data ''GLYPHREF'' 8 90, name_data ''H1'' 2 91,
     name_data ''H2'' 2 92, name_data ''H3'' 2 93, name_data ''H4'' 2 94, name_data ''H5'' 2 95,
     name_data ''H6'' 2 96, name_data ''HEAD'' 4 97, name_data ''HEADER'' 6 98, name_data ''HGROUP'' 6 99,
     name_data ''HR'' 2 100, name_data ''HTML'' 4 101, name_data ''I'' 1 102, name_data ''IFRAME'' 6 103,
     name_data ''IMAGE'' 5 104, name_data ''IMG'' 3 105, name_data ''INPUT'' 5 106, name_data ''INS'' 3 107,
     name_data ''ISINDEX'' 7 108, name_data ''KBD'' 3 109, name_data ''KEYGEN'' 6 110, name_data ''LABEL'' 5 111,
     name_data ''LEGEND'' 6 112, name_data ''LI'' 2 113, name_data ''LINEARGRADIENT'' 14 114,
     name_data ''LINK'' 4 115, name_data ''LISTING'' 7 116, name_data ''MAIN'' 4 117,
     name_data ''MALIGNMARK'' 10 118, name_data ''MAP'' 3 119, name_data ''MARK'' 4 120,
     name_data ''MARQUEE'' 7 121, name_data ''MATH'' 4 122, name_data ''MENU'' 4 123, name_data ''META'' 4 124,
     name_data ''METER'' 5 125, name_data ''MFENCED'' 7 126, name_data ''MGLYPH'' 6 127, name_data ''MI'' 2 128,
     name_data ''MN'' 2 129, name_data ''MO'' 2 130, name_data ''MS'' 2 131, name_data ''MTEXT'' 5 132,
     name_data ''MULTICOL'' 8 133, name_data ''NAV'' 3 134, name_data ''NEXTID'' 6 135, name_data ''NOBR'' 4 136,
     name_data ''NOEMBED'' 7 137, name_data ''NOFRAMES'' 8 138, name_data ''NOSCRIPT'' 8 139,
     name_data ''OBJECT'' 6 140, name_data ''OL'' 2 141, name_data ''OPTGROUP'' 8 142, name_data ''OPTION'' 6 143,
     name_data ''OUTPUT'' 6 144, name_data ''P'' 1 145, name_data ''PARAM'' 5 146, name_data ''PATH'' 4 147,
     name_data ''PICTURE'' 7 148, name_data ''PLAINTEXT'' 9 149, name_data ''PRE'' 3 150,
     name_data ''PROGRESS'' 8 151, name_data ''Q'' 1 152, name_data ''RADIALGRADIENT'' 14 153,
     name_data ''RB'' 2 154, name_data ''RP'' 2 155, name_data ''RT'' 2 156, name_data ''RTC'' 3 157,
     name_data ''RUBY'' 4 158, name_data ''S'' 1 159, name_data ''SAMP'' 4 160, name_data ''SCRIPT'' 6 161,
     name_data ''SEARCH'' 6 162, name_data ''SECTION'' 7 163, name_data ''SELECT'' 6 164,
     name_data ''SELECTEDCONTENT'' 15 165, name_data ''SLOT'' 4 166, name_data ''SMALL'' 5 167,
     name_data ''SOURCE'' 6 168, name_data ''SPACER'' 6 169, name_data ''SPAN'' 4 170, name_data ''STRIKE'' 6 171,
     name_data ''STRONG'' 6 172, name_data ''STYLE'' 5 173, name_data ''SUB'' 3 174, name_data ''SUMMARY'' 7 175,
     name_data ''SUP'' 3 176, name_data ''SVG'' 3 177, name_data ''TABLE'' 5 178, name_data ''TBODY'' 5 179,
     name_data ''TD'' 2 180, name_data ''TEMPLATE'' 8 181, name_data ''TEXTAREA'' 8 182,
     name_data ''TEXTPATH'' 8 183, name_data ''TFOOT'' 5 184, name_data ''TH'' 2 185, name_data ''THEAD'' 5 186,
     name_data ''TIME'' 4 187, name_data ''TITLE'' 5 188, name_data ''TR'' 2 189, name_data ''TRACK'' 5 190,
     name_data ''TT'' 2 191, name_data ''U'' 1 192, name_data ''UL'' 2 193, name_data ''VAR'' 3 194,
     name_data ''VIDEO'' 5 195, name_data ''WBR'' 3 196, name_data ''XMP'' 3 197]"

definition lxb_tag_res_shs_data_default :: "shs_entry list" where
  "lxb_tag_res_shs_data_default = [
     shs_null 262 0, shs ''radialgradient'' 153 14 0, shs ''fecomponenttransfer'' 58 19 0, shs ''abbr'' 7 4 1,
     shs ''feflood'' 65 7 0, shs ''marquee'' 121 7 0, shs ''feblend'' 56 7 4, shs ''optgroup'' 142 8 0,
     shs ''video'' 195 5 10, shs ''u'' 192 1 0, shs ''iframe'' 103 6 0, shs ''animatecolor'' 13 12 0,
     shs ''output'' 144 6 0, shs ''figcaption'' 82 10 0, shs ''mglyph'' 127 6 0, shs ''!--'' 4 3 0,
     shs ''fefuncg'' 68 7 0, shs ''aside'' 20 5 0, shs ''style'' 173 5 0, shs ''strike'' 171 6 0,
     shs ''header'' 98 6 0, shs ''glyphref'' 90 8 23, shs ''label'' 111 5 0, shs ''feconvolvematrix'' 60 16 0,
     shs ''altglyphdef'' 11 11 0, shs ''title'' 188 5 0, shs ''head'' 97 4 0, shs ''noframes'' 138 8 0,
     shs ''code'' 39 4 30, shs ''rb'' 154 2 5, shs ''blink'' 29 5 0, shs ''image'' 104 5 0, shs ''col'' 40 3 8,
     shs ''object'' 140 6 12, shs ''template'' 181 8 36, shs ''h2'' 92 2 13, shs ''lineargradient'' 114 14 0,
     shs ''math'' 122 4 0, shs ''base'' 23 4 45, shs ''dl'' 52 2 14, shs ''del'' 45 3 16, shs ''svg'' 177 3 17,
     shs ''dir'' 50 3 0, shs ''article'' 19 7 0, shs ''strong'' 172 6 0, shs ''dialog'' 49 6 0,
     shs ''details'' 47 7 0, shs ''textpath'' 183 8 52, shs ''mark'' 120 4 0, shs ''basefont'' 24 8 0,
     shs ''fediffuselighting'' 61 17 0, shs ''fespecularlighting'' 77 18 0, shs ''blockquote'' 30 10 0,
     shs ''script'' 161 6 58, shs ''malignmark'' 118 10 0, shs ''hr'' 100 2 18, shs ''source'' 168 6 19,
     shs ''mn'' 129 2 0, shs ''select'' 164 6 0, shs ''main'' 117 4 20, shs ''fieldset'' 81 8 62,
     shs ''ins'' 107 3 0, shs ''frameset'' 89 8 0, shs ''button'' 33 6 0, shs ''fecolormatrix'' 57 13 0,
     shs ''q'' 152 1 0, shs ''animatemotion'' 14 13 0, shs ''time'' 187 4 21, shs ''table'' 178 5 25,
     shs ''h6'' 96 2 26, shs ''cite'' 37 4 28, shs ''img'' 105 3 34, shs ''fepointlight'' 76 12 0,
     shs ''audio'' 21 5 0, shs ''#end-of-file'' 1 12 0, shs ''noscript'' 139 8 0, shs ''foreignobject'' 86 13 77,
     shs ''selectedcontent'' 165 15 0, shs ''spacer'' 169 6 0, shs ''samp'' 160 4 0, shs ''altglyphitem'' 12 12 0,
     shs ''data'' 42 4 0, shs ''mtext'' 132 5 0, shs ''path'' 147 4 0, shs ''input'' 106 5 0, shs ''th'' 185 2 38,
     shs ''p'' 145 1 0, shs ''dt'' 53 2 0, shs ''animatetransform'' 15 16 0, shs ''datalist'' 43 8 0,
     shs ''b'' 22 1 46, shs ''nextid'' 135 6 47, shs ''noembed'' 137 7 0, shs ''small'' 167 5 0,
     shs ''nav'' 134 3 0, shs ''slot'' 166 4 0, shs ''search'' 162 6 0, shs ''font'' 84 4 53,
     shs ''bgsound'' 27 7 0, shs ''param'' 146 5 0, shs ''figure'' 83 6 0, shs ''feoffset'' 75 8 60,
     shs ''#text'' 2 5 0, shs ''femerge'' 72 7 0, shs ''fespotlight'' 78 11 66, shs ''form'' 87 4 72,
     shs ''#document'' 3 9 76, shs ''fedistantlight'' 63 14 0, shs ''track'' 190 5 0, shs ''h3'' 93 2 78,
     shs ''femergenode'' 73 11 0, shs ''i'' 102 1 0, shs ''ul'' 193 2 0, shs ''h1'' 91 2 0, shs ''tbody'' 179 5 0,
     shs ''altglyph'' 10 8 0, shs ''legend'' 112 6 117, shs ''address'' 9 7 0, shs ''sup'' 176 3 0,
     shs ''body'' 31 4 79, shs ''caption'' 35 7 0, shs ''acronym'' 8 7 0, shs ''option'' 143 6 0,
     shs ''progress'' 151 8 124, shs ''fegaussianblur'' 70 14 0, shs_null 0 0, shs ''mi'' 128 2 80, shs_null 0 0,
     shs ''dfn'' 48 3 0, shs ''a'' 6 1 87, shs ''listing'' 116 7 88, shs ''span'' 170 4 0, shs ''area'' 18 4 0,
     shs ''clippath'' 38 8 0, shs ''section'' 163 7 0, shs ''li'' 113 2 89, shs_null 0 0, shs ''html'' 101 4 0,
     shs_null 0 0, shs ''fedropshadow'' 64 12 0, shs ''embed'' 55 5 0, shs_null 0 0, shs_null 0 0,
     shs ''multicol'' 133 8 0, shs ''var'' 194 3 93, shs ''rp'' 155 2 0, shs_null 0 0, shs ''link'' 115 4 0,
     shs ''mo'' 130 2 0, shs_null 0 0, shs_null 0 0, shs ''annotation-xml'' 16 14 0,
     shs ''fedisplacementmap'' 62 17 0, shs ''center'' 36 6 0, shs_null 0 0, shs_null 0 0, shs_null 0 0,
     shs_null 0 0, shs ''fefuncb'' 67 7 0, shs_null 0 0, shs_null 0 0, shs_null 0 0, shs ''meter'' 125 5 0,
     shs_null 0 0, shs_null 0 0, shs ''tt'' 191 2 0, shs ''big'' 28 3 94, shs_null 0 0, shs ''tfoot'' 184 5 0,
     shs ''desc'' 46 4 96, shs ''isindex'' 108 7 0, shs_null 0 0, shs ''menu'' 123 4 0, shs ''hgroup'' 99 6 0,
     shs_null 0 0, shs_null 0 0, shs ''wbr'' 196 3 0, shs_null 0 0, shs ''pre'' 150 3 98, shs_null 0 0,
     shs_null 0 0, shs_null 0 0, shs ''picture'' 148 7 0, shs ''h4'' 94 2 0, shs_null 0 0, shs_null 0 0,
     shs ''meta'' 124 4 99, shs_null 0 0, shs ''rtc'' 157 3 0, shs_null 0 0, shs ''frame'' 88 5 0,
     shs ''fetile'' 79 6 100, shs ''feimage'' 71 7 103, shs_null 0 0, shs ''xmp'' 197 3 0, shs_null 0 0,
     shs ''fecomposite'' 59 11 110, shs ''feturbulence'' 80 12 0, shs_null 0 0, shs ''summary'' 175 7 0,
     shs ''mfenced'' 126 7 0, shs_null 0 0, shs ''sub'' 174 3 0, shs ''colgroup'' 41 8 0, shs_null 0 0,
     shs_null 0 0, shs_null 0 0, shs_null 0 0, shs_null 0 0, shs_null 0 0, shs_null 0 0, shs ''dd'' 44 2 112,
     shs_null 0 0, shs_null 0 0, shs_null 0 0, shs_null 0 0, shs_null 0 0, shs_null 0 0, shs ''div'' 51 3 0,
     shs ''textarea'' 182 8 0, shs ''!doctype'' 5 8 0, shs ''applet'' 17 6 0, shs_null 0 0, shs ''br'' 32 2 113,
     shs_null 0 0, shs ''keygen'' 110 6 0, shs ''kbd'' 109 3 0, shs_null 0 0, shs ''plaintext'' 149 9 0,
     shs ''s'' 159 1 0, shs_null 0 0, shs_null 0 0, shs ''bdo'' 26 3 0, shs ''td'' 180 2 0, shs ''fefunca'' 66 7 0,
     shs ''ol'' 141 2 0, shs ''thead'' 186 5 0, shs ''nobr'' 136 4 115, shs_null 0 0, shs ''tr'' 189 2 0,
     shs ''map'' 119 3 0, shs_null 0 0, shs_null 0 0, shs_null 0 0, shs_null 0 0, shs ''#undef'' 0 6 116,
     shs ''em'' 54 2 0, shs_null 0 0, shs ''bdi'' 25 3 0, shs ''femorphology'' 74 12 0, shs ''ms'' 131 2 120,
     shs ''footer'' 85 6 0, shs ''fefuncr'' 69 7 0, shs ''rt'' 156 2 122, shs_null 0 0, shs_null 0 0, shs_null 0 0,
     shs ''h5'' 95 2 0, shs_null 0 0, shs ''ruby'' 158 4 123, shs ''canvas'' 34 6 0, shs_null 0 0, shs_null 0 0]"




section \<open>The tables are right\<close>

text \<open>
  The static hash table and the array of data agree: an entry points to the datum with its key, and
  every datum is reached; the data are numbered, and in lower case.
\<close>

fun data_check :: "nat \<Rightarrow> name_data list \<Rightarrow> bool" where
  "data_check i [] = True"
| "data_check i (d # ds) = (nd_id d = i \<and> nd_length d = length (nd_str d) \<and>
     map lexbor_str_res_map_lowercase (nd_str d) = nd_str d \<and> data_check (i + 1) ds)"

definition keys_point :: "shs_entry list \<Rightarrow> name_data list \<Rightarrow> bool" where
  "keys_point tbl data \<longleftrightarrow> list_all (\<lambda>e. case shs_key e of None \<Rightarrow> True
     | Some k \<Rightarrow> shs_value e < length data \<and> nd_str (data ! shs_value e) = ascii k) tbl"

definition data_reached :: "shs_entry list \<Rightarrow> name_data list \<Rightarrow> bool" where
  "data_reached tbl data \<longleftrightarrow> list_all (\<lambda>d. list_ex (\<lambda>e. map_option ascii (shs_key e) = Some (nd_str d)) tbl) data"

definition table_ok :: "shs_entry list \<Rightarrow> name_data list \<Rightarrow> bool" where
  "table_ok tbl data \<longleftrightarrow> keys_point tbl data \<and> data_reached tbl data \<and> distinct (map nd_str data)"

lemma attr_shs_wf: "shs_wf 8 lxb_dom_attr_res_shs_data"
  unfolding lxb_dom_attr_res_shs_data_def by (simp add: shs_eval)

lemma attr_table_ok: "table_ok lxb_dom_attr_res_shs_data lxb_dom_attr_res_data_default"
proof -
  note eval = lxb_dom_attr_res_shs_data_def lxb_dom_attr_res_data_default_def shs_def shs_null_def name_data_def ascii_inj
  have "keys_point lxb_dom_attr_res_shs_data lxb_dom_attr_res_data_default"
    unfolding keys_point_def by (simp add: eval)
  moreover have "data_reached lxb_dom_attr_res_shs_data lxb_dom_attr_res_data_default"
    unfolding data_reached_def by (simp add: eval)
  moreover have "distinct (map nd_str lxb_dom_attr_res_data_default)" by (simp add: eval)
  ultimately show ?thesis by (simp add: table_ok_def)
qed

lemma attr_data_check: "data_check 0 lxb_dom_attr_res_data_default"
  by (simp add: lxb_dom_attr_res_data_default_def name_data_def ascii_def lexbor_str_res_map_lowercase_def)

lemma ns_prefix_shs_wf: "shs_wf 8 lxb_ns_res_shs_data"
  unfolding lxb_ns_res_shs_data_def by (simp add: shs_eval)

lemma ns_link_shs_wf: "shs_wf 8 lxb_ns_res_shs_link_data"
  unfolding lxb_ns_res_shs_link_data_def by (simp add: shs_eval)

lemma data_check_nth: "data_check i ds \<Longrightarrow> j < length ds \<Longrightarrow> nd_id (ds ! j) = i + j \<and>
    nd_length (ds ! j) = length (nd_str (ds ! j)) \<and> map lexbor_str_res_map_lowercase (nd_str (ds ! j)) = nd_str (ds ! j)"
proof (induction ds arbitrary: i j)
  case (Cons d ds)
  then show ?case using Cons.IH [of "Suc i" "j - 1"] by (cases j) auto
qed simp

lemma static_lookup:
  assumes wf: "shs_wf fuel tbl" and ok: "table_ok tbl data" and ne: "key \<noteq> []"
    and run: "\<exists>r. look = Some r \<and> (\<forall>j. r = Some j \<longleftrightarrow> j < length tbl \<and> has_key tbl k j)"
  shows "\<exists>r. look = Some r \<and> (case r of
      None \<Rightarrow> k \<notin> nd_str ` set data
    | Some j \<Rightarrow> shs_value (tbl ! j) < length data \<and> nd_str (data ! shs_value (tbl ! j)) = k)"
proof -
  from run obtain r where r: "look = Some r" "\<forall>j. r = Some j \<longleftrightarrow> j < length tbl \<and> has_key tbl k j" by blast
  show ?thesis
  proof (cases r)
    case None
    have "k \<notin> nd_str ` set data"
    proof
      assume "k \<in> nd_str ` set data"
      then obtain e where "e \<in> set tbl" "map_option ascii (shs_key e) = Some k"
        using ok by (auto simp: table_ok_def data_reached_def list_all_iff list_ex_iff)
      then obtain j where "j < length tbl" "has_key tbl k j" by (metis in_set_conv_nth)
      with r(2) None show False by blast
    qed
    with r(1) None show ?thesis by simp
  next
    case (Some j)
    with r(2) have j: "j < length tbl" "has_key tbl k j" by auto
    then obtain s where s: "shs_key (tbl ! j) = Some s" "ascii s = k" by auto
    from ok j(1) have "case shs_key (tbl ! j) of None \<Rightarrow> True
       | Some k \<Rightarrow> shs_value (tbl ! j) < length data \<and> nd_str (data ! shs_value (tbl ! j)) = ascii k"
      by (auto simp: table_ok_def keys_point_def list_all_length)
    with s r(1) Some show ?thesis by simp
  qed
qed

text \<open>
  looking up an attribute name among those known at compile time finds exactly the datum whose
  name it is, without regard to case, for every non-empty name, and never leaves the table.
\<close>

theorem attr_static_lookup:
  assumes "key \<noteq> []"
  shows "\<exists>r. lexbor_shs_entry_get_lower_static lxb_dom_attr_res_shs_data key = Some r \<and> (case r of
      None \<Rightarrow> map lexbor_str_res_map_lowercase key \<notin> nd_str ` set lxb_dom_attr_res_data_default
    | Some j \<Rightarrow> nd_str (lxb_dom_attr_res_data_default ! shs_value (lxb_dom_attr_res_shs_data ! j)) =
        map lexbor_str_res_map_lowercase key)"
  using static_lookup [OF attr_shs_wf attr_table_ok assms get_lower_static_search [OF attr_shs_wf assms]]
  by (auto split: option.splits)

theorem attr_static_lookup_witness:
  "\<exists>r. lexbor_shs_entry_get_lower_static lxb_dom_attr_res_shs_data (ascii ''Http-Equiv'') = Some r \<and> (case r of
      None \<Rightarrow> map lexbor_str_res_map_lowercase (ascii ''Http-Equiv'') \<notin> nd_str ` set lxb_dom_attr_res_data_default
    | Some j \<Rightarrow> nd_str (lxb_dom_attr_res_data_default ! shs_value (lxb_dom_attr_res_shs_data ! j)) =
        map lexbor_str_res_map_lowercase (ascii ''Http-Equiv''))"
  by (rule attr_static_lookup) (simp add: ascii_def)

end
