(* ===== verification/Dom_Names.thy ===== *)
theory Dom_Names
  imports Lexbor_Hash Lexbor_Tables
begin

text \<open>
  Names as identifiers: attribute names (dom/interfaces/attr.c), tag names (tag/tag.c), namespaces
  and prefixes (ns/ns.c). A name known at compile time is identified by its index, any other by the
  address of its entry in one of the document's hash tables.
\<close>

section \<open>Name data\<close>

text \<open>A pointer to a name datum: in the static array (by index), or an entry of the table.\<close>

datatype name_ptr = Static nat | Entry addr

definition LXB_DOM_ATTR__LAST_ENTRY :: nat where "LXB_DOM_ATTR__LAST_ENTRY = 0x25"
definition LXB_TAG__LAST_ENTRY :: nat where "LXB_TAG__LAST_ENTRY = 0xc6"
definition LXB_NS__LAST_ENTRY :: nat where "LXB_NS__LAST_ENTRY = 0x08"
definition LXB_TAG__UNDEF :: nat where "LXB_TAG__UNDEF = 0"
definition LXB_NS__UNDEF :: nat where "LXB_NS__UNDEF = 0"

text \<open>The identifier (\<open>attr_id\<close>, \<open>tag_id\<close>, \<open>ns_id\<close>, \<open>prefix_id\<close>) and the string of a datum.\<close>

definition ptr_id :: "name_data list \<Rightarrow> lexbor_hash \<Rightarrow> name_ptr \<Rightarrow> nat option" where
  "ptr_id data hash p = (case p of
     Static i \<Rightarrow> if i < length data then Some (nd_id (data ! i)) else None
   | Entry x \<Rightarrow> map_option he_id (hs_entries hash x))"

definition ptr_str :: "name_data list \<Rightarrow> lexbor_hash \<Rightarrow> name_ptr \<Rightarrow> bytes option" where
  "ptr_str data hash p = (case p of
     Static i \<Rightarrow> if i < length data then Some (take (nd_length (data ! i)) (nd_str (data ! i))) else None
   | Entry x \<Rightarrow> hkey hash x)"

definition set_id :: "lexbor_hash \<Rightarrow> addr \<Rightarrow> nat \<Rightarrow> lexbor_hash option" where
  "set_id hash x i = do {
     e \<leftarrow> hs_entries hash x;
     Some (hash\<lparr>hs_entries := (hs_entries hash)(x \<mapsto> e\<lparr>he_id := i\<rparr>)\<rparr>) }"

text \<open>Interning a name: the new datum's identifier is its own address.\<close>

definition intern :: "lexbor_hash \<Rightarrow> lexbor_hash_insert \<Rightarrow> bytes \<Rightarrow> (name_ptr option \<times> lexbor_hash) option" where
  "intern hash ins name = do {
     (data, hash) \<leftarrow> lexbor_hash_insert hash ins name;
     (case data of
       None \<Rightarrow> Some (None, hash)
     | Some x \<Rightarrow> do { hash \<leftarrow> set_id hash x x; Some (Some (Entry x), hash) }) }"

definition static_ptr :: "shs_entry list \<Rightarrow> nat \<Rightarrow> name_ptr" where
  "static_ptr tbl j = Static (shs_value (tbl ! j))"

section \<open>Attribute names\<close>

text \<open>A name may be \<open>NULL\<close>.\<close>

definition lxb_dom_attr_local_name_append ::
  "lexbor_hash \<Rightarrow> bytes option \<Rightarrow> (name_ptr option \<times> lexbor_hash) option" where
  "lxb_dom_attr_local_name_append hash name = (case name of
     None \<Rightarrow> Some (None, hash)
   | Some name \<Rightarrow> if length name = 0 then Some (None, hash) else do {
       entry \<leftarrow> lexbor_shs_entry_get_lower_static lxb_dom_attr_res_shs_data name;
       (case entry of
         Some j \<Rightarrow> Some (Some (static_ptr lxb_dom_attr_res_shs_data j), hash)
       | None \<Rightarrow> intern hash lexbor_hash_insert_lower name) })"

definition lxb_dom_attr_qualified_name_append ::
  "lexbor_hash \<Rightarrow> bytes option \<Rightarrow> (name_ptr option \<times> lexbor_hash) option" where
  "lxb_dom_attr_qualified_name_append hash name = (case name of
     None \<Rightarrow> Some (None, hash)
   | Some name \<Rightarrow> if length name = 0 then Some (None, hash) else intern hash lexbor_hash_insert_raw name)"

definition lxb_dom_attr_data_undef :: name_ptr where
  "lxb_dom_attr_data_undef = Static 0"

definition lxb_dom_attr_data_by_id :: "nat \<Rightarrow> name_ptr option" where
  "lxb_dom_attr_data_by_id attr_id =
     (if attr_id \<ge> LXB_DOM_ATTR__LAST_ENTRY
      then (if attr_id = LXB_DOM_ATTR__LAST_ENTRY then None else Some (Entry attr_id))
      else Some (Static attr_id))"

definition lxb_dom_attr_data_by_local_name :: "lexbor_hash \<Rightarrow> bytes option \<Rightarrow> name_ptr option option" where
  "lxb_dom_attr_data_by_local_name hash name = (case name of
     None \<Rightarrow> Some None
   | Some name \<Rightarrow> if length name = 0 then Some None else do {
       entry \<leftarrow> lexbor_shs_entry_get_lower_static lxb_dom_attr_res_shs_data name;
       (case entry of
         Some j \<Rightarrow> Some (Some (static_ptr lxb_dom_attr_res_shs_data j))
       | None \<Rightarrow> map_option (map_option Entry) (lexbor_hash_search hash lexbor_hash_search_lower name)) })"

definition lxb_dom_attr_data_by_qualified_name :: "lexbor_hash \<Rightarrow> bytes option \<Rightarrow> name_ptr option option" where
  "lxb_dom_attr_data_by_qualified_name hash name = (case name of
     None \<Rightarrow> Some None
   | Some name \<Rightarrow> if length name = 0 then Some None else do {
       entry \<leftarrow> lexbor_shs_entry_get_static lxb_dom_attr_res_shs_data name;
       (case entry of
         Some j \<Rightarrow> Some (Some (static_ptr lxb_dom_attr_res_shs_data j))
       | None \<Rightarrow> map_option (map_option Entry) (lexbor_hash_search hash lexbor_hash_search_raw name)) })"

section \<open>Tag names\<close>

definition lxb_tag_append ::
  "lexbor_hash \<Rightarrow> nat \<Rightarrow> bytes \<Rightarrow> (name_ptr option \<times> lexbor_hash) option" where
  "lxb_tag_append hash tag_id name = do {
     entry \<leftarrow> lexbor_shs_entry_get_static lxb_tag_res_shs_data_default name;
     (case entry of
       Some j \<Rightarrow> Some (Some (static_ptr lxb_tag_res_shs_data_default j), hash)
     | None \<Rightarrow> do {
         (data, hash) \<leftarrow> lexbor_hash_insert hash lexbor_hash_insert_raw name;
         (case data of
           None \<Rightarrow> Some (None, hash)
         | Some x \<Rightarrow> do {
             hash \<leftarrow> set_id hash x (if tag_id = LXB_TAG__UNDEF then x else tag_id);
             Some (Some (Entry x), hash) }) }) }"

definition lxb_tag_append_lower :: "lexbor_hash \<Rightarrow> bytes \<Rightarrow> (name_ptr option \<times> lexbor_hash) option" where
  "lxb_tag_append_lower hash name = do {
     entry \<leftarrow> lexbor_shs_entry_get_lower_static lxb_tag_res_shs_data_default name;
     (case entry of
       Some j \<Rightarrow> Some (Some (static_ptr lxb_tag_res_shs_data_default j), hash)
     | None \<Rightarrow> intern hash lexbor_hash_insert_lower name) }"

definition lxb_tag_data_by_id :: "nat \<Rightarrow> name_ptr option" where
  "lxb_tag_data_by_id tag_id =
     (if tag_id \<ge> LXB_TAG__LAST_ENTRY
      then (if tag_id = LXB_TAG__LAST_ENTRY then None else Some (Entry tag_id))
      else Some (Static tag_id))"

definition lxb_tag_data_by_name :: "lexbor_hash \<Rightarrow> bytes option \<Rightarrow> name_ptr option option" where
  "lxb_tag_data_by_name hash name = (case name of
     None \<Rightarrow> Some None
   | Some name \<Rightarrow> if length name = 0 then Some None else do {
       entry \<leftarrow> lexbor_shs_entry_get_lower_static lxb_tag_res_shs_data_default name;
       (case entry of
         Some j \<Rightarrow> Some (Some (static_ptr lxb_tag_res_shs_data_default j))
       | None \<Rightarrow> map_option (map_option Entry) (lexbor_hash_search hash lexbor_hash_search_lower name)) })"

text \<open>The static datum is one of the upper-case array here.\<close>

definition lxb_tag_data_by_name_upper :: "lexbor_hash \<Rightarrow> bytes option \<Rightarrow> name_ptr option option" where
  "lxb_tag_data_by_name_upper hash name = (case name of
     None \<Rightarrow> Some None
   | Some name \<Rightarrow> if length name = 0 then Some None else do {
       entry \<leftarrow> lexbor_shs_entry_get_upper_static lxb_tag_res_shs_data_default name;
       (case entry of
         Some j \<Rightarrow> Some (Some (static_ptr lxb_tag_res_shs_data_default j))
       | None \<Rightarrow> map_option (map_option Entry) (lexbor_hash_search hash lexbor_hash_search_upper name)) })"

definition lxb_tag_name_by_id :: "lexbor_hash \<Rightarrow> nat \<Rightarrow> bytes option option" where
  "lxb_tag_name_by_id hash tag_id = (case lxb_tag_data_by_id tag_id of
     None \<Rightarrow> Some None
   | Some data \<Rightarrow> map_option Some (ptr_str lxb_tag_res_data_default hash data))"

definition lxb_tag_id_by_name :: "lexbor_hash \<Rightarrow> bytes option \<Rightarrow> nat option" where
  "lxb_tag_id_by_name hash name = do {
     data \<leftarrow> lxb_tag_data_by_name hash name;
     (case data of None \<Rightarrow> Some LXB_TAG__UNDEF | Some p \<Rightarrow> ptr_id lxb_tag_res_data_default hash p) }"

section \<open>Namespaces and prefixes\<close>

definition ns_append_by ::
  "shs_entry list \<Rightarrow> lexbor_hash \<Rightarrow> bytes option \<Rightarrow> (name_ptr option \<times> lexbor_hash) option" where
  "ns_append_by tbl hash name = (case name of
     None \<Rightarrow> Some (None, hash)
   | Some name \<Rightarrow> if length name = 0 then Some (None, hash) else do {
       entry \<leftarrow> lexbor_shs_entry_get_lower_static tbl name;
       (case entry of
         Some j \<Rightarrow> Some (Some (static_ptr tbl j), hash)
       | None \<Rightarrow> do {
           (data, hash) \<leftarrow> lexbor_hash_insert hash lexbor_hash_insert_lower name;
           (case data of
             None \<Rightarrow> Some (None, hash)
           | Some x \<Rightarrow>
               if x \<le> LXB_NS__LAST_ENTRY then Some (None, hash)
               else do { hash \<leftarrow> set_id hash x x; Some (Some (Entry x), hash) }) }) })"

definition lxb_ns_append where "lxb_ns_append = ns_append_by lxb_ns_res_shs_link_data"
definition lxb_ns_prefix_append where "lxb_ns_prefix_append = ns_append_by lxb_ns_res_shs_data"

definition lxb_ns_data_by_id :: "nat \<Rightarrow> name_ptr option" where
  "lxb_ns_data_by_id ns_id =
     (if ns_id \<ge> LXB_NS__LAST_ENTRY
      then (if ns_id = LXB_NS__LAST_ENTRY then None else Some (Entry ns_id))
      else Some (Static ns_id))"

definition lxb_ns_prefix_data_by_id :: "nat \<Rightarrow> name_ptr option" where
  "lxb_ns_prefix_data_by_id prefix_id =
     (if prefix_id \<ge> LXB_NS__LAST_ENTRY
      then (if prefix_id = LXB_NS__LAST_ENTRY then None else Some (Entry prefix_id))
      else Some (Static prefix_id))"

definition lxb_ns_by_id :: "lexbor_hash \<Rightarrow> nat \<Rightarrow> bytes option option" where
  "lxb_ns_by_id hash ns_id = (case lxb_ns_data_by_id ns_id of
     None \<Rightarrow> Some None
   | Some data \<Rightarrow> map_option Some (ptr_str lxb_ns_res_data hash data))"

definition ns_search_by :: "shs_entry list \<Rightarrow> lexbor_hash \<Rightarrow> bytes option \<Rightarrow> name_ptr option option" where
  "ns_search_by tbl hash name = (case name of
     None \<Rightarrow> Some None
   | Some name \<Rightarrow> if length name = 0 then Some None else do {
       entry \<leftarrow> lexbor_shs_entry_get_lower_static tbl name;
       (case entry of
         Some j \<Rightarrow> Some (Some (static_ptr tbl j))
       | None \<Rightarrow> map_option (map_option Entry) (lexbor_hash_search hash lexbor_hash_search_lower name)) })"

definition lxb_ns_data_by_link where "lxb_ns_data_by_link = ns_search_by lxb_ns_res_shs_link_data"
definition lxb_ns_prefix_data_by_name where "lxb_ns_prefix_data_by_name = ns_search_by lxb_ns_res_shs_data"


section \<open>Attribute tables\<close>

text \<open>
  The static name of a datum, the invariant of a document's table of attribute names (an entry is
  identified by its address, above the static identifiers), and what an identifier stands for. The
  identifier of a \<^emph>\<open>local\<close> name is the static one when there is one.
\<close>

definition attr_static :: "nat \<Rightarrow> bytes" where
  "attr_static i = nd_str (lxb_dom_attr_res_data_default ! i)"

definition attrs_ok :: "lexbor_hash \<Rightarrow> bool" where
  "attrs_ok H \<longleftrightarrow> hash_ok H \<and> LXB_DOM_ATTR__LAST_ENTRY < hs_fresh H \<and>
     (\<forall>x i. hash_ids H x = Some i \<longrightarrow> i = x \<and> LXB_DOM_ATTR__LAST_ENTRY < x)"

definition local_is :: "lexbor_hash \<Rightarrow> nat \<Rightarrow> bytes \<Rightarrow> bool" where
  "local_is H i k \<longleftrightarrow>
     (if i < LXB_DOM_ATTR__LAST_ENTRY then attr_static i = k
      else hkey H i = Some k \<and> k \<notin> attr_static ` {..<LXB_DOM_ATTR__LAST_ENTRY})"

abbreviation lower :: "bytes \<Rightarrow> bytes" where
  "lower \<equiv> map lexbor_str_res_map_lowercase"

lemma attr_data_length: "length lxb_dom_attr_res_data_default = LXB_DOM_ATTR__LAST_ENTRY"
  by (simp add: lxb_dom_attr_res_data_default_def LXB_DOM_ATTR__LAST_ENTRY_def)

lemma attr_static_names: "attr_static ` {..<LXB_DOM_ATTR__LAST_ENTRY} = nd_str ` set lxb_dom_attr_res_data_default"
  unfolding attr_static_def attr_data_length [symmetric] set_conv_nth by auto

lemma attr_static_inj:
  "i < LXB_DOM_ATTR__LAST_ENTRY \<Longrightarrow> j < LXB_DOM_ATTR__LAST_ENTRY \<Longrightarrow> attr_static i = attr_static j \<Longrightarrow> i = j"
  using attr_table_ok unfolding table_ok_def distinct_conv_nth attr_static_def
  by (metis attr_data_length length_map nth_map)

lemma attr_static_id:
  "i < LXB_DOM_ATTR__LAST_ENTRY \<Longrightarrow> ptr_id lxb_dom_attr_res_data_default H (Static i) = Some i"
  using data_check_nth [OF attr_data_check] by (simp add: ptr_id_def attr_data_length)

lemma attrs_ok_hash: "attrs_ok H \<Longrightarrow> hash_ok H"
  by (simp add: attrs_ok_def)

lemma attrs_ok_key: "attrs_ok H \<Longrightarrow> hkey H x = Some k \<Longrightarrow> LXB_DOM_ATTR__LAST_ENTRY < x \<and> hash_ids H x = Some x"
  by (cases "hs_entries H x") (auto simp: attrs_ok_def hkey_def hash_ids_def)

lemma hash_ok_key_inj: "hash_ok H \<Longrightarrow> hkey H x = Some k \<Longrightarrow> hkey H y = Some k \<Longrightarrow> x = y"
  by (auto simp: hash_ok_def dest: hash_wf_parts(5))

lemma local_is_inj:
  assumes "attrs_ok H" and "local_is H i k" and "local_is H j k"
  shows "i = j"
  using assms attr_static_inj hash_ok_key_inj [OF attrs_ok_hash]
  by (auto simp: local_is_def split: if_splits)

lemma local_is_fun: "local_is H i k \<Longrightarrow> local_is H i l \<Longrightarrow> k = l"
  by (auto simp: local_is_def split: if_splits)

lemma local_is_mono: "hkey H \<subseteq>\<^sub>m hkey H' \<Longrightarrow> local_is H i k \<Longrightarrow> local_is H' i k"
  by (auto simp: local_is_def map_le_def dom_def split: if_splits)

lemma no_local_is:
  "k \<notin> attr_static ` {..<LXB_DOM_ATTR__LAST_ENTRY} \<Longrightarrow> \<forall>x. hkey H x \<noteq> Some k \<Longrightarrow> \<not> local_is H i k"
  by (cases "i < LXB_DOM_ATTR__LAST_ENTRY") (auto simp: local_is_def)

subsection \<open>Looking up\<close>

lemma attr_static_found:
  assumes ne: "key \<noteq> []"
    and run: "\<exists>r. look = Some r \<and> (\<forall>j. r = Some j \<longleftrightarrow> j < length lxb_dom_attr_res_shs_data \<and> has_key lxb_dom_attr_res_shs_data k j)"
  shows "\<exists>r. look = Some r \<and> (case r of
      None \<Rightarrow> k \<notin> attr_static ` {..<LXB_DOM_ATTR__LAST_ENTRY}
    | Some j \<Rightarrow> \<exists>i < LXB_DOM_ATTR__LAST_ENTRY. static_ptr lxb_dom_attr_res_shs_data j = Static i \<and> attr_static i = k)"
  using static_lookup [OF attr_shs_wf attr_table_ok ne run]
  by (fastforce simp: attr_static_names attr_data_length static_ptr_def attr_static_def split: option.splits)

lemmas attr_lower_found = attr_static_found [OF _ get_lower_static_search [OF attr_shs_wf]]
lemmas attr_raw_found = attr_static_found [OF _ get_static_search [OF attr_shs_wf]]

lemma data_by_local_name_is:
  assumes ok: "attrs_ok H" and ne: "name \<noteq> []"
  shows "\<exists>r. lxb_dom_attr_data_by_local_name H (Some name) = Some r \<and> (case r of
      None \<Rightarrow> \<forall>i. \<not> local_is H i (lower name)
    | Some p \<Rightarrow> \<exists>i. ptr_id lxb_dom_attr_res_data_default H p = Some i \<and> local_is H i (lower name))"
proof -
  from ok obtain C where wf: "hash_wf H C" by (auto simp: attrs_ok_def hash_ok_def)
  from attr_lower_found [OF ne ne] obtain s where s: "lexbor_shs_entry_get_lower_static lxb_dom_attr_res_shs_data name = Some s"
    "case s of None \<Rightarrow> lower name \<notin> attr_static ` {..<LXB_DOM_ATTR__LAST_ENTRY}
     | Some j \<Rightarrow> \<exists>i < LXB_DOM_ATTR__LAST_ENTRY. static_ptr lxb_dom_attr_res_shs_data j = Static i \<and> attr_static i = lower name"
    by blast
  from search_is(2) [OF wf] obtain r where r: "lexbor_hash_search H lexbor_hash_search_lower name = Some r"
    "\<forall>x. r = Some x \<longleftrightarrow> hkey H x = Some (lower name)" by blast
  show ?thesis
  proof (cases s)
    case (Some j)
    with s obtain i where i: "i < LXB_DOM_ATTR__LAST_ENTRY" "static_ptr lxb_dom_attr_res_shs_data j = Static i"
      "attr_static i = lower name" by auto
    then have "local_is H i (lower name)" by (simp add: local_is_def)
    with i s(1) Some ne show ?thesis
      by (auto simp: lxb_dom_attr_data_by_local_name_def attr_static_id intro!: exI [of _ i])
  next
    case None
    with s(2) have n: "lower name \<notin> attr_static ` {..<LXB_DOM_ATTR__LAST_ENTRY}" by simp
    have run: "lxb_dom_attr_data_by_local_name H (Some name) = Some (map_option Entry r)"
      using s(1) None r(1) ne by (simp add: lxb_dom_attr_data_by_local_name_def)
    show ?thesis
    proof (cases r)
      case None
      with r(2) n have "\<not> local_is H i (lower name)" for i by (simp add: no_local_is)
      with run None show ?thesis by simp
    next
      case (Some x)
      with r(2) have k: "hkey H x = Some (lower name)" by blast
      with attrs_ok_key [OF ok k] n have "local_is H x (lower name)" by (simp add: local_is_def)
      moreover have "ptr_id lxb_dom_attr_res_data_default H (Entry x) = Some x"
        using attrs_ok_key [OF ok k] by (simp add: ptr_id_def hash_ids_def)
      ultimately show ?thesis using run Some by auto
    qed
  qed
qed

subsection \<open>Interning\<close>

lemma set_id_wf:
  assumes "hash_wf H C" and "hs_entries H x = Some e"
  shows "hash_wf (H\<lparr>hs_entries := (hs_entries H)(x \<mapsto> e\<lparr>he_id := i\<rparr>)\<rparr>) C"
    and "hkey (H\<lparr>hs_entries := (hs_entries H)(x \<mapsto> e\<lparr>he_id := i\<rparr>)\<rparr>) = hkey H"
    and "hash_ids (H\<lparr>hs_entries := (hs_entries H)(x \<mapsto> e\<lparr>he_id := i\<rparr>)\<rparr>) = (hash_ids H)(x \<mapsto> i)"
proof -
  let ?H = "H\<lparr>hs_entries := (hs_entries H)(x \<mapsto> e\<lparr>he_id := i\<rparr>)\<rparr>"
  have key: "entry_key ?H d = entry_key H d" "entry_key H (e\<lparr>he_id := i\<rparr>) = entry_key H e" for d
    by (auto simp: entry_key_def lexbor_hash_entry_str_def cong: if_cong option.case_cong hash_str.case_cong)
  show k: "hkey ?H = hkey H"
    by (rule ext) (use assms(2) in \<open>simp add: hkey_def key\<close>)
  show "hash_ids ?H = (hash_ids H)(x \<mapsto> i)"
    by (rule ext) (simp add: hash_ids_def)
  have c: "chain (hs_entries ?H) p xs = chain (hs_entries H) p xs" for p xs
    by (induction xs arbitrary: p) (use assms(2) in auto)
  have s: "slot ?H = slot H" by (rule ext) (simp add: slot_def table_idx_def)
  show "hash_wf ?H C"
    using assms unfolding hash_wf_def k s c by (auto split: if_splits)
qed

lemma copy_fresh:
  assumes "hash_copy_by f H x key = Some (st, H')"
  shows "hs_fresh H' = hs_fresh H"
proof -
  from assms obtain e where e: "hs_entries H x = Some e" by (auto simp: hash_copy_by_def bind_eq_Some_conv)
  show ?thesis
    by (cases "he_u e") (use assms e in \<open>auto simp: hash_copy_by_def Let_def bind_eq_Some_conv
      split: if_splits prod.splits\<close>)
qed

lemma create_fresh:
  "hash_entry_create H (hash_copy_by f) key = Some (r, H') \<Longrightarrow> hs_fresh H \<le> hs_fresh H'"
  by (auto simp: hash_entry_create_def dobject_calloc_def Let_def bind_eq_Some_conv dest!: copy_fresh
      split: if_splits)

lemma insert_fresh:
  assumes "lexbor_hash_insert H ins key = Some (r, H')" and copy: "hf_copy ins = hash_copy_by f"
  shows "hs_fresh H \<le> hs_fresh H'"
proof -
  let ?i = "table_idx H (hf_hash ins key)"
  from assms(1) obtain p where p: "table_get H ?i = Some p" by (auto simp: lexbor_hash_insert_def Let_def bind_eq_Some_conv)
  show ?thesis
  proof (cases p)
    case None
    with assms p show ?thesis by (auto simp: lexbor_hash_insert_def Let_def bind_eq_Some_conv dest!: create_fresh)
  next
    case (Some x)
    with assms(1) p obtain q where q: "hash_insert_loop H (hf_cmp ins) key x = Some q"
      by (auto simp: lexbor_hash_insert_def Let_def bind_eq_Some_conv)
    show ?thesis
      by (cases q) (use assms p Some q in \<open>auto simp: lexbor_hash_insert_def Let_def bind_eq_Some_conv set_next_def
        dest!: create_fresh\<close>)
  qed
qed

text \<open>Interning keeps the invariant; it gives the entry of the name, or fails for lack of memory.\<close>

lemma intern_is:
  assumes ok: "attrs_ok H" and n: "length name < 2 ^ 62"
    and ins: "(ins, f) \<in> {(lexbor_hash_insert_raw, \<lambda>c. c), (lexbor_hash_insert_lower, lexbor_str_res_map_lowercase),
      (lexbor_hash_insert_upper, lexbor_str_res_map_uppercase)}"
  shows "\<exists>r H'. intern H ins name = Some (r, H') \<and> attrs_ok H' \<and> hkey H \<subseteq>\<^sub>m hkey H' \<and>
     (case r of
        None \<Rightarrow> hkey H' = hkey H \<and> (\<forall>x. hkey H x \<noteq> Some (map f name))
      | Some p \<Rightarrow> \<exists>x. p = Entry x \<and> hkey H' x = Some (map f name))"
proof -
  from ok obtain C where wf: "hash_wf H C" by (auto simp: attrs_ok_def hash_ok_def)
  from insert_variants_is [OF wf n ins] obtain r H1 C1 where i: "lexbor_hash_insert H ins name = Some (r, H1)" "hash_wf H1 C1"
    "case r of
        None \<Rightarrow> hkey H1 = hkey H \<and> hash_ids H1 = hash_ids H \<and> (\<forall>x. hkey H x \<noteq> Some (map f name))
      | Some x \<Rightarrow> H1 = H \<and> hkey H x = Some (map f name) \<or>
          (\<forall>y. hkey H y \<noteq> Some (map f name)) \<and> x = hs_fresh H \<and> hkey H1 = (hkey H)(x \<mapsto> map f name) \<and>
          hash_ids H1 = (hash_ids H)(x \<mapsto> 0)" by blast
  have "hf_copy ins = hash_copy_by f"
    using ins by (auto simp: lexbor_hash_insert_raw_def lexbor_hash_insert_lower_def lexbor_hash_insert_upper_def
      lexbor_hash_copy_def lexbor_hash_copy_lower_def lexbor_hash_copy_upper_def)
  then have fresh: "hs_fresh H \<le> hs_fresh H1" using insert_fresh i(1) by blast
  show ?thesis
  proof (cases r)
    case None
    with i(3) have "hkey H1 = hkey H" "hash_ids H1 = hash_ids H" "\<forall>x. hkey H x \<noteq> Some (map f name)" by auto
    moreover have "attrs_ok H1" using ok i(2) fresh calculation by (auto simp: attrs_ok_def hash_ok_def)
    moreover have "intern H ins name = Some (None, H1)" using i(1) None by (simp add: intern_def)
    ultimately show ?thesis by auto
  next
    case (Some x)
    with i(3) have c: "H1 = H \<and> hkey H x = Some (map f name) \<or>
        x = hs_fresh H \<and> hkey H1 = (hkey H)(x \<mapsto> map f name) \<and> hash_ids H1 = (hash_ids H)(x \<mapsto> 0)" by auto
    then have kx: "hkey H1 x = Some (map f name)" by auto
    then obtain e where e: "hs_entries H1 x = Some e" by (auto simp: hkey_def bind_eq_Some_conv)
    let ?H = "H1\<lparr>hs_entries := (hs_entries H1)(x \<mapsto> e\<lparr>he_id := x\<rparr>)\<rparr>"
    note s = set_id_wf [OF i(2) e, of x]
    have run: "intern H ins name = Some (Some (Entry x), ?H)"
      using i(1) Some e by (simp add: intern_def set_id_def)
    have "hkey H (hs_fresh H) = None"
      using hash_wf_parts(6) [OF wf, of "hs_fresh H"] by (cases "hs_entries H (hs_fresh H)") (auto simp: hkey_def)
    with c have "hkey H \<subseteq>\<^sub>m hkey H1" by (auto simp: map_le_def dom_def)
    moreover have "attrs_ok ?H"
    proof -
      have "LXB_DOM_ATTR__LAST_ENTRY < x"
        using c ok attrs_ok_key [OF ok, of x] by (auto simp: attrs_ok_def)
      with c ok fresh s show ?thesis by (auto simp: attrs_ok_def hash_ok_def)
    qed
    ultimately show ?thesis using run s kx by auto
  qed
qed

lemma entry_ptr_id:
  "attrs_ok H \<Longrightarrow> hkey H x = Some k \<Longrightarrow> ptr_id lxb_dom_attr_res_data_default H (Entry x) = Some x"
  using attrs_ok_key by (simp add: ptr_id_def hash_ids_def)

lemma local_name_append_is:
  assumes ok: "attrs_ok H" and n: "length name < 2 ^ 62" and ne: "name \<noteq> []"
  shows "\<exists>r H'. lxb_dom_attr_local_name_append H (Some name) = Some (r, H') \<and> attrs_ok H' \<and> hkey H \<subseteq>\<^sub>m hkey H' \<and>
     (case r of
        None \<Rightarrow> hkey H' = hkey H \<and> (\<forall>i. \<not> local_is H i (lower name))
      | Some p \<Rightarrow> \<exists>i. ptr_id lxb_dom_attr_res_data_default H' p = Some i \<and> local_is H' i (lower name))"
proof -
  from attr_lower_found [OF ne ne] obtain s where s: "lexbor_shs_entry_get_lower_static lxb_dom_attr_res_shs_data name = Some s"
    "case s of None \<Rightarrow> lower name \<notin> attr_static ` {..<LXB_DOM_ATTR__LAST_ENTRY}
     | Some j \<Rightarrow> \<exists>i < LXB_DOM_ATTR__LAST_ENTRY. static_ptr lxb_dom_attr_res_shs_data j = Static i \<and> attr_static i = lower name"
    by blast
  show ?thesis
  proof (cases s)
    case (Some j)
    with s obtain i where i: "i < LXB_DOM_ATTR__LAST_ENTRY" "static_ptr lxb_dom_attr_res_shs_data j = Static i"
      "attr_static i = lower name" by auto
    then have "local_is H i (lower name)" by (simp add: local_is_def)
    with i s(1) Some ne ok show ?thesis
      by (auto simp: lxb_dom_attr_local_name_append_def attr_static_id intro!: exI [of _ i])
  next
    case None
    with s(2) have st: "lower name \<notin> attr_static ` {..<LXB_DOM_ATTR__LAST_ENTRY}" by simp
    have run: "lxb_dom_attr_local_name_append H (Some name) = intern H lexbor_hash_insert_lower name"
      using s(1) None ne by (simp add: lxb_dom_attr_local_name_append_def)
    from intern_is [OF ok n, of lexbor_hash_insert_lower lexbor_str_res_map_lowercase] obtain r H' where
      i: "intern H lexbor_hash_insert_lower name = Some (r, H')" "attrs_ok H'" "hkey H \<subseteq>\<^sub>m hkey H'"
      "case r of None \<Rightarrow> hkey H' = hkey H \<and> (\<forall>x. hkey H x \<noteq> Some (lower name))
       | Some p \<Rightarrow> \<exists>x. p = Entry x \<and> hkey H' x = Some (lower name)" by auto
    show ?thesis
    proof (cases r)
      case None
      with i(4) st have "\<forall>i. \<not> local_is H i (lower name)" by (simp add: no_local_is)
      with i run None show ?thesis by auto
    next
      case (Some p)
      with i(4) obtain x where x: "p = Entry x" "hkey H' x = Some (lower name)" by auto
      with attrs_ok_key [OF i(2) x(2)] st have "local_is H' x (lower name)" by (simp add: local_is_def)
      with entry_ptr_id [OF i(2) x(2)] i(1-3) run Some x show ?thesis by auto
    qed
  qed
qed

end
