(* ===== verification/Dom_Attr.thy ===== *)
theory Dom_Attr
  imports Dom_Node Dom_Names
begin

text \<open>
  Attributes of elements (dom/interfaces/attr.c, dom/interfaces/element.c), which the QuickBEAM
  bridge exports (\<open>qb_element_set_attribute\<close>, \<open>qb_element_get_attribute\<close>, ...): creation, naming
  through the document's table of names, values as strings in its text arena, and the doubly linked
  list in which an element keeps them. Then the invariant of attribute lists.
\<close>

section \<open>Objects\<close>

text \<open>
  Requests to the object pool (\<open>doc->mraw\<close>): the \<open>k\<close>-th fails when \<open>obj_fails k\<close>; a freed address is
  not given out again. Freeing an object removes it from the map of every kind.
\<close>

definition obj_calloc :: "dom \<Rightarrow> addr option \<times> dom" where
  "obj_calloc h = (let h' = h\<lparr>obj_reqs := obj_reqs h + 1\<rparr> in
     if obj_fails h (obj_reqs h) then (None, h')
     else (Some (obj_fresh h), h'\<lparr>obj_fresh := obj_fresh h + 1\<rparr>))"

definition obj_gone :: "dom \<Rightarrow> addr \<Rightarrow> dom" where
  "obj_gone h a = h\<lparr>nodes := (nodes h)(a := None), elements := (elements h)(a := None),
     attributes := (attributes h)(a := None), chardata := (chardata h)(a := None),
     pi_targets := (pi_targets h)(a := None), doctypes := (doctypes h)(a := None),
     fragment_hosts := (fragment_hosts h)(a := None), template_contents := (template_contents h)(a := None),
     shadow_hosts := (shadow_hosts h)(a := None), docs := (docs h)(a := None)\<rparr>"

definition obj_free :: "dom \<Rightarrow> addr \<Rightarrow> dom option" where
  "obj_free h a = do { _ \<leftarrow> nodes h a; Some (obj_gone h a) }"

definition zero_node :: "addr \<Rightarrow> lxb_dom_node_type \<Rightarrow> lxb_dom_node" where
  "zero_node doc t = \<lparr>n_local_name = 0, n_prefix = 0, n_ns = 0, n_owner_document = doc, n_next = None,
     n_prev = None, n_parent = None, n_first_child = None, n_last_child = None, n_user = None, n_type = t\<rparr>"

definition lxb_dom_document_owner :: "dom \<Rightarrow> addr \<Rightarrow> addr option" where
  "lxb_dom_document_owner h document = map_option n_owner_document (nodes h document)"

definition owner_doc :: "dom \<Rightarrow> addr \<Rightarrow> lxb_dom_document option" where
  "owner_doc h a = do { n \<leftarrow> nodes h a; docs h (n_owner_document n) }"

definition lxb_dom_node_interface_destroy :: "dom \<Rightarrow> addr \<Rightarrow> dom option" where
  "lxb_dom_node_interface_destroy h node = do {
     h \<leftarrow> node_event (cb_destroy lxb_dom_document_node_cbs) h node;
     obj_free h node }"

section \<open>Attribute nodes (attr.c)\<close>

definition LXB_DOM_ATTR_ID :: nat where "LXB_DOM_ATTR_ID = 0x12"
definition LXB_DOM_ATTR_CLASS :: nat where "LXB_DOM_ATTR_CLASS = 0x05"
definition LXB_NS_HTML :: nat where "LXB_NS_HTML = 0x02"

definition lxb_dom_attr_interface_create :: "dom \<Rightarrow> addr \<Rightarrow> (addr option \<times> dom) option" where
  "lxb_dom_attr_interface_create h document = do {
     let (attr, h) = obj_calloc h;
     (case attr of
       None \<Rightarrow> Some (None, h)
     | Some a \<Rightarrow> do {
         owner \<leftarrow> lxb_dom_document_owner h document;
         Some (Some a, h\<lparr>nodes := (nodes h)(a \<mapsto> zero_node owner LXB_DOM_NODE_TYPE_ATTRIBUTE),
           attributes := (attributes h)(a \<mapsto> \<lparr>at_upper_name = 0, at_qualified_name = 0, at_value = None,
             at_owner = None, at_next = None, at_prev = None\<rparr>)\<rparr>) }) }"

definition free_text :: "dom \<Rightarrow> addr option \<Rightarrow> dom option" where
  "free_text h p = map_option (\<lambda>A. h\<lparr>text_arena := A\<rparr>) (lexbor_mraw_free (text_arena h) p)"

definition lxb_dom_attr_interface_destroy :: "dom \<Rightarrow> addr \<Rightarrow> dom option" where
  "lxb_dom_attr_interface_destroy h attr = do {
     at \<leftarrow> attributes h attr;
     let value = at_value at;
     h \<leftarrow> lxb_dom_node_interface_destroy h attr;
     (case value of
       None \<Rightarrow> Some h
     | Some v \<Rightarrow> if str_data v \<noteq> None then free_text h (str_data v) else Some h) }"

text \<open>The name: the identifier of the lower-case name, and on request the original name.\<close>

definition lxb_dom_attr_set_name :: "dom \<Rightarrow> addr \<Rightarrow> bytes \<Rightarrow> bool \<Rightarrow> (lxb_status \<times> dom) option" where
  "lxb_dom_attr_set_name h attr name to_lowercase = do {
     doc \<leftarrow> owner_doc h attr;
     hash \<leftarrow> hashes h (doc_attrs doc);
     (data, hash) \<leftarrow> lxb_dom_attr_local_name_append hash (Some name);
     let h = h\<lparr>hashes := (hashes h)(doc_attrs doc \<mapsto> hash)\<rparr>;
     (case data of
       None \<Rightarrow> Some (LXB_STATUS_ERROR_MEMORY_ALLOCATION, h)
     | Some data \<Rightarrow> do {
         attr_id \<leftarrow> ptr_id lxb_dom_attr_res_data_default hash data;
         h \<leftarrow> wr_node h attr (\<lambda>n. n\<lparr>n_local_name := attr_id\<rparr>);
         (if \<not> to_lowercase then do {
            (data, hash) \<leftarrow> lxb_dom_attr_qualified_name_append hash (Some name);
            let h = h\<lparr>hashes := (hashes h)(doc_attrs doc \<mapsto> hash)\<rparr>;
            (case data of
              Some (Entry x) \<Rightarrow> do {
                h \<leftarrow> wr_attr h attr (\<lambda>at. at\<lparr>at_qualified_name := x\<rparr>);
                Some (LXB_STATUS_OK, h) }
            | _ \<Rightarrow> Some (LXB_STATUS_ERROR_MEMORY_ALLOCATION, h)) }
          else Some (LXB_STATUS_OK, h)) }) }"

text \<open>
  The value. The string struct is an object of its own (\<open>at_value\<close> is \<open>Some\<close> when there is one);
  the characters are a block of the text arena, resized when it is too small.
\<close>

definition wr_value :: "dom \<Rightarrow> addr \<Rightarrow> lexbor_str \<Rightarrow> arena \<Rightarrow> dom option" where
  "wr_value h attr v A = wr_attr (h\<lparr>text_arena := A\<rparr>) attr (\<lambda>at. at\<lparr>at_value := Some v\<rparr>)"

text \<open>The string struct, allocated when there is none.\<close>

definition value_struct :: "dom \<Rightarrow> addr \<Rightarrow> (bool \<times> dom) option" where
  "value_struct h attr = do {
     at \<leftarrow> attributes h attr;
     (if at_value at = None then do {
        let (p, h) = obj_calloc h;
        (if p = None then Some (False, h)
         else do {
           h \<leftarrow> wr_attr h attr (\<lambda>at. at\<lparr>at_value := Some \<lparr>str_data = None, str_length = 0\<rparr>\<rparr>);
           Some (True, h) }) }
      else Some (True, h)) }"

text \<open>An empty block of sufficient size; the first component is whether it was granted.\<close>

definition value_room :: "dom \<Rightarrow> addr \<Rightarrow> nat \<Rightarrow> (bool \<times> dom) option" where
  "value_room h attr value_len = do {
     at \<leftarrow> attributes h attr;
     v \<leftarrow> at_value at;
     (if str_data v = None then do {
        (_, v, A) \<leftarrow> lexbor_str_init (Some v) (text_arena h) value_len;
        v \<leftarrow> v;
        h \<leftarrow> wr_value h attr v A;
        Some (str_data v \<noteq> None, h) }
      else do {
        let v = v\<lparr>str_length := 0\<rparr>;
        h \<leftarrow> wr_value h attr v (text_arena h);
        sz \<leftarrow> lexbor_str_size v (text_arena h);
        (if sz \<le> value_len then do {
           (tmp, v, A) \<leftarrow> lexbor_str_realloc v (text_arena h) (value_len + 1);
           h \<leftarrow> wr_value h attr v A;
           Some (tmp \<noteq> None, h) }
         else Some (True, h)) }) }"

definition value_store :: "dom \<Rightarrow> addr \<Rightarrow> bytes \<Rightarrow> dom option" where
  "value_store h attr value = do {
     at \<leftarrow> attributes h attr;
     v \<leftarrow> at_value at;
     A \<leftarrow> blk_write (text_arena h) (str_data v) 0 value;
     A \<leftarrow> blk_write A (str_data v) (length value) [0];
     wr_value h attr (v\<lparr>str_length := length value\<rparr>) A }"

definition lxb_dom_attr_set_value :: "dom \<Rightarrow> addr \<Rightarrow> bytes \<Rightarrow> (lxb_status \<times> dom) option" where
  "lxb_dom_attr_set_value h attr value = do {
     _ \<leftarrow> owner_doc h attr;
     (status, h) \<leftarrow> (case cb_set_value lxb_dom_document_node_cbs of
         None \<Rightarrow> Some (LXB_STATUS_OK, h) | Some f \<Rightarrow> f h attr value);
     (if status \<noteq> LXB_STATUS_OK then Some (status, h)
      else do {
        (granted, h) \<leftarrow> value_struct h attr;
        (if \<not> granted then Some (LXB_STATUS_ERROR_MEMORY_ALLOCATION, h)
         else do {
           (granted, h) \<leftarrow> value_room h attr (length value);
           (if \<not> granted then Some (LXB_STATUS_ERROR_MEMORY_ALLOCATION, h)
            else do { h \<leftarrow> value_store h attr value; Some (LXB_STATUS_OK, h) }) }) }) }"

definition lxb_dom_attr_set_existing_value where
  "lxb_dom_attr_set_existing_value = lxb_dom_attr_set_value"

text \<open>The value as the callers see it: a pointer to the characters, and their number.\<close>

definition lxb_dom_attr_value :: "dom \<Rightarrow> addr \<Rightarrow> (addr option \<times> nat) option" where
  "lxb_dom_attr_value h attr = do {
     at \<leftarrow> attributes h attr;
     (case at_value at of
       None \<Rightarrow> Some (None, 0)
     | Some v \<Rightarrow> Some (str_data v, str_length v)) }"

definition lxb_dom_attr_compare :: "dom \<Rightarrow> addr \<Rightarrow> addr \<Rightarrow> bool option" where
  "lxb_dom_attr_compare h first second = do {
     n \<leftarrow> nodes h first; m \<leftarrow> nodes h second;
     x \<leftarrow> attributes h first; y \<leftarrow> attributes h second;
     (if n_local_name n = n_local_name m \<and> n_ns n = n_ns m \<and> at_qualified_name x = at_qualified_name y
      then (case at_value x of
          None \<Rightarrow> Some (at_value y = None)
        | Some v \<Rightarrow>
            (case at_value y of
              None \<Rightarrow> Some False
            | Some w \<Rightarrow>
                if str_length v = str_length w then do {
                  a \<leftarrow> blk_read (text_arena h) (str_data v) 0 (str_length v);
                  b \<leftarrow> blk_read (text_arena h) (str_data w) 0 (str_length v);
                  lexbor_str_data_ncmp a b (str_length v) }
                else Some False))
      else Some False) }"

definition lxb_dom_attr_clone_name_value :: "dom \<Rightarrow> addr \<Rightarrow> addr \<Rightarrow> (lxb_status \<times> dom) option" where
  "lxb_dom_attr_clone_name_value h attr_from attr_to = do {
     n \<leftarrow> nodes h attr_from;
     x \<leftarrow> attributes h attr_from;
     h \<leftarrow> wr_node h attr_to (\<lambda>m. m\<lparr>n_local_name := n_local_name n\<rparr>);
     h \<leftarrow> wr_attr h attr_to (\<lambda>y. y\<lparr>at_qualified_name := at_qualified_name x\<rparr>);
     x \<leftarrow> attributes h attr_from;
     (case at_value x of
       Some v \<Rightarrow> if str_data v \<noteq> None then do {
           value \<leftarrow> blk_read (text_arena h) (str_data v) 0 (str_length v);
           lxb_dom_attr_set_value h attr_to value }
         else Some (LXB_STATUS_OK, h)
     | None \<Rightarrow> Some (LXB_STATUS_OK, h)) }"

text \<open>The names of an attribute, read back through the table.\<close>

definition lxb_dom_attr_local_name :: "dom \<Rightarrow> addr \<Rightarrow> bytes option" where
  "lxb_dom_attr_local_name h attr = do {
     n \<leftarrow> nodes h attr;
     doc \<leftarrow> owner_doc h attr;
     hash \<leftarrow> hashes h (doc_attrs doc);
     data \<leftarrow> lxb_dom_attr_data_by_id (n_local_name n);
     ptr_str lxb_dom_attr_res_data_default hash data }"

definition lxb_dom_attr_qualified_name :: "dom \<Rightarrow> addr \<Rightarrow> bytes option" where
  "lxb_dom_attr_qualified_name h attr = do {
     n \<leftarrow> nodes h attr;
     at \<leftarrow> attributes h attr;
     doc \<leftarrow> owner_doc h attr;
     hash \<leftarrow> hashes h (doc_attrs doc);
     data \<leftarrow> lxb_dom_attr_data_by_id (if at_qualified_name at \<noteq> 0 then at_qualified_name at else n_local_name n);
     ptr_str lxb_dom_attr_res_data_default hash data }"

text \<open>Taking an attribute out of the cached ones and out of the list.\<close>

definition attr_uncache :: "dom \<Rightarrow> addr \<Rightarrow> addr \<Rightarrow> dom option" where
  "attr_uncache h element attr = do {
     e \<leftarrow> elements h element;
     (if el_attr_id e = Some attr then wr_element h element (\<lambda>e. e\<lparr>el_attr_id := None\<rparr>)
      else if el_attr_class e = Some attr then wr_element h element (\<lambda>e. e\<lparr>el_attr_class := None\<rparr>)
      else Some h) }"

definition attr_unlink :: "dom \<Rightarrow> addr \<Rightarrow> addr \<Rightarrow> dom option" where
  "attr_unlink h element attr = do {
     at \<leftarrow> attributes h attr;
     h \<leftarrow> (case at_prev at of
            Some p \<Rightarrow> wr_attr h p (\<lambda>x. x\<lparr>at_next := at_next at\<rparr>)
          | None \<Rightarrow> wr_element h element (\<lambda>e. e\<lparr>el_first_attr := at_next at\<rparr>));
     at \<leftarrow> attributes h attr;
     h \<leftarrow> (case at_next at of
            Some x \<Rightarrow> wr_attr h x (\<lambda>x. x\<lparr>at_prev := at_prev at\<rparr>)
          | None \<Rightarrow> wr_element h element (\<lambda>e. e\<lparr>el_last_attr := at_prev at\<rparr>));
     wr_attr h attr (\<lambda>x. x\<lparr>at_next := None, at_prev := None, at_owner := None\<rparr>) }"

definition lxb_dom_attr_remove :: "dom \<Rightarrow> addr \<Rightarrow> dom option" where
  "lxb_dom_attr_remove h attr = do {
     at \<leftarrow> attributes h attr;
     h \<leftarrow> node_event (cb_remove lxb_dom_document_node_cbs) h attr;
     element \<leftarrow> at_owner at;
     h \<leftarrow> attr_uncache h element attr;
     attr_unlink h element attr }"

section \<open>Attributes of an element (element.c)\<close>

definition lxb_dom_element_attr_remove :: "dom \<Rightarrow> addr \<Rightarrow> addr \<Rightarrow> (lxb_status \<times> dom) option" where
  "lxb_dom_element_attr_remove h element attr = do {
     h \<leftarrow> lxb_dom_attr_remove h attr;
     Some (LXB_STATUS_OK, h) }"

definition drop_existing :: "dom \<Rightarrow> addr \<Rightarrow> addr option \<Rightarrow> dom option" where
  "drop_existing h element exist = (case exist of
     None \<Rightarrow> Some h
   | Some x \<Rightarrow> do {
       (_, h) \<leftarrow> lxb_dom_element_attr_remove h element x;
       lxb_dom_attr_interface_destroy h x })"

text \<open>Remembering an \<open>id\<close> or \<open>class\<close> attribute, and linking an attribute behind the others.\<close>

definition attr_cache :: "dom \<Rightarrow> addr \<Rightarrow> addr \<Rightarrow> dom option" where
  "attr_cache h element attr = do {
     n \<leftarrow> nodes h attr;
     e \<leftarrow> elements h element;
     (if n_local_name n = LXB_DOM_ATTR_ID then do {
        h \<leftarrow> drop_existing h element (el_attr_id e);
        wr_element h element (\<lambda>e. e\<lparr>el_attr_id := Some attr\<rparr>) }
      else if n_local_name n = LXB_DOM_ATTR_CLASS then do {
        h \<leftarrow> drop_existing h element (el_attr_class e);
        wr_element h element (\<lambda>e. e\<lparr>el_attr_class := Some attr\<rparr>) }
      else Some h) }"

definition attr_link :: "dom \<Rightarrow> addr \<Rightarrow> addr \<Rightarrow> dom option" where
  "attr_link h element attr = do {
     e \<leftarrow> elements h element;
     h \<leftarrow> (if el_first_attr e = None
          then wr_element h element (\<lambda>e. e\<lparr>el_first_attr := Some attr, el_last_attr := Some attr\<rparr>)
          else do {
            h \<leftarrow> wr_attr h attr (\<lambda>x. x\<lparr>at_prev := el_last_attr e\<rparr>);
            l \<leftarrow> el_last_attr e;
            h \<leftarrow> wr_attr h l (\<lambda>x. x\<lparr>at_next := Some attr\<rparr>);
            wr_element h element (\<lambda>e. e\<lparr>el_last_attr := Some attr\<rparr>) });
     wr_attr h attr (\<lambda>x. x\<lparr>at_owner := Some element\<rparr>) }"

definition lxb_dom_element_attr_append :: "dom \<Rightarrow> addr \<Rightarrow> addr \<Rightarrow> (lxb_status \<times> dom) option" where
  "lxb_dom_element_attr_append h element attr = do {
     h \<leftarrow> attr_cache h element attr;
     h \<leftarrow> attr_link h element attr;
     _ \<leftarrow> owner_doc h element;
     h \<leftarrow> (case cb_insert lxb_dom_document_node_cbs of None \<Rightarrow> Some h | Some f \<Rightarrow> f h attr);
     Some (LXB_STATUS_OK, h) }"

text \<open>The search loops: by local or qualified name, and by local name only.\<close>

partial_function (option) attr_loop ::
  "dom \<Rightarrow> (lxb_dom_node \<Rightarrow> lxb_dom_attr \<Rightarrow> bool) \<Rightarrow> addr option \<Rightarrow> addr option option" where
  [code]: "attr_loop h hit attr = (if attr = None then Some None
   else do {
     a \<leftarrow> attr;
     n \<leftarrow> nodes h a;
     at \<leftarrow> attributes h a;
     (if hit n at then Some (Some a) else attr_loop h hit (at_next at)) })"

definition named :: "nat \<Rightarrow> lxb_dom_node \<Rightarrow> lxb_dom_attr \<Rightarrow> bool" where
  "named attr_id n at \<longleftrightarrow> n_local_name n = attr_id \<or> at_qualified_name at = attr_id"

definition attr_by_data :: "dom \<Rightarrow> addr \<Rightarrow> lexbor_hash \<Rightarrow> name_ptr option \<Rightarrow> addr option option" where
  "attr_by_data h element hash data = (case data of
     None \<Rightarrow> Some None
   | Some p \<Rightarrow> do {
       e \<leftarrow> elements h element;
       attr_id \<leftarrow> ptr_id lxb_dom_attr_res_data_default hash p;
       attr_loop h (named attr_id) (el_first_attr e) })"

definition lower_case_names :: "lxb_dom_node \<Rightarrow> lxb_dom_document \<Rightarrow> bool" where
  "lower_case_names n doc \<longleftrightarrow> n_ns n = LXB_NS_HTML \<and> doc_type doc = LXB_DOM_DOCUMENT_DTYPE_HTML"

definition lxb_dom_element_attr_by_name :: "dom \<Rightarrow> addr \<Rightarrow> bytes \<Rightarrow> addr option option" where
  "lxb_dom_element_attr_by_name h element qualified_name = do {
     n \<leftarrow> nodes h element;
     doc \<leftarrow> owner_doc h element;
     hash \<leftarrow> hashes h (doc_attrs doc);
     data \<leftarrow> (if lower_case_names n doc
       then lxb_dom_attr_data_by_local_name hash (Some qualified_name)
       else lxb_dom_attr_data_by_qualified_name hash (Some qualified_name));
     attr_by_data h element hash data }"

definition lxb_dom_element_attr_by_local_name_data :: "dom \<Rightarrow> addr \<Rightarrow> name_ptr \<Rightarrow> addr option option" where
  "lxb_dom_element_attr_by_local_name_data h element data = do {
     doc \<leftarrow> owner_doc h element;
     hash \<leftarrow> hashes h (doc_attrs doc);
     attr_by_data h element hash (Some data) }"

definition lxb_dom_element_attr_by_id :: "dom \<Rightarrow> addr \<Rightarrow> nat \<Rightarrow> addr option option" where
  "lxb_dom_element_attr_by_id h element attr_id = do {
     e \<leftarrow> elements h element;
     attr_loop h (\<lambda>n _. n_local_name n = attr_id) (el_first_attr e) }"

definition lxb_dom_element_attr_is_exist :: "dom \<Rightarrow> addr \<Rightarrow> bytes \<Rightarrow> addr option option" where
  "lxb_dom_element_attr_is_exist h element qualified_name = do {
     doc \<leftarrow> owner_doc h element;
     hash \<leftarrow> hashes h (doc_attrs doc);
     data \<leftarrow> lxb_dom_attr_data_by_local_name hash (Some qualified_name);
     attr_by_data h element hash data }"

definition lxb_dom_element_has_attributes :: "dom \<Rightarrow> addr \<Rightarrow> bool option" where
  "lxb_dom_element_has_attributes h element = map_option (\<lambda>e. el_first_attr e \<noteq> None) (elements h element)"

definition lxb_dom_element_set_attribute :: "dom \<Rightarrow> addr \<Rightarrow> bytes \<Rightarrow> bytes \<Rightarrow> (addr option \<times> dom) option" where
  "lxb_dom_element_set_attribute h element qualified_name value = do {
     attr \<leftarrow> lxb_dom_element_attr_is_exist h element qualified_name;
     (case attr of
       Some a \<Rightarrow> do {
         (status, h) \<leftarrow> lxb_dom_attr_set_value h a value;
         (if status \<noteq> LXB_STATUS_OK then do { h \<leftarrow> lxb_dom_attr_interface_destroy h a; Some (None, h) }
          else Some (Some a, h)) }
     | None \<Rightarrow> do {
         n \<leftarrow> nodes h element;
         doc \<leftarrow> owner_doc h element;
         (attr, h) \<leftarrow> lxb_dom_attr_interface_create h (n_owner_document n);
         (case attr of
           None \<Rightarrow> Some (None, h)
         | Some a \<Rightarrow> do {
             h \<leftarrow> wr_node h a (\<lambda>m. m\<lparr>n_ns := n_ns n\<rparr>);
             (status, h) \<leftarrow> lxb_dom_attr_set_name h a qualified_name (lower_case_names n doc);
             (if status \<noteq> LXB_STATUS_OK then do { h \<leftarrow> lxb_dom_attr_interface_destroy h a; Some (None, h) }
              else do {
                (status, h) \<leftarrow> lxb_dom_attr_set_value h a value;
                (if status \<noteq> LXB_STATUS_OK then do { h \<leftarrow> lxb_dom_attr_interface_destroy h a; Some (None, h) }
                 else do {
                   (_, h) \<leftarrow> lxb_dom_element_attr_append h element a;
                   Some (Some a, h) }) }) }) }) }"

definition lxb_dom_element_get_attribute :: "dom \<Rightarrow> addr \<Rightarrow> bytes \<Rightarrow> (addr option \<times> nat) option" where
  "lxb_dom_element_get_attribute h element qualified_name = do {
     attr \<leftarrow> lxb_dom_element_attr_by_name h element qualified_name;
     (case attr of None \<Rightarrow> Some (None, 0) | Some a \<Rightarrow> lxb_dom_attr_value h a) }"

definition lxb_dom_element_remove_attribute :: "dom \<Rightarrow> addr \<Rightarrow> bytes \<Rightarrow> (lxb_status \<times> dom) option" where
  "lxb_dom_element_remove_attribute h element qualified_name = do {
     attr \<leftarrow> lxb_dom_element_attr_by_name h element qualified_name;
     (case attr of
       None \<Rightarrow> Some (LXB_STATUS_OK, h)
     | Some a \<Rightarrow> do {
         (status, h) \<leftarrow> lxb_dom_element_attr_remove h element a;
         (if status \<noteq> LXB_STATUS_OK then Some (status, h)
          else do { h \<leftarrow> lxb_dom_attr_interface_destroy h a; Some (LXB_STATUS_OK, h) }) }) }"

definition lxb_dom_element_has_attribute :: "dom \<Rightarrow> addr \<Rightarrow> bytes \<Rightarrow> bool option" where
  "lxb_dom_element_has_attribute h element qualified_name =
     map_option (\<lambda>attr. attr \<noteq> None) (lxb_dom_element_attr_by_name h element qualified_name)"

text \<open>Comparing elements: as many attributes, and each of the first has an equal one in the second.\<close>

partial_function (option) count_loop :: "dom \<Rightarrow> addr option \<Rightarrow> addr option \<Rightarrow> bool option" where
  [code]: "count_loop h f_attr s_attr = (if f_attr = None \<or> s_attr = None then Some (f_attr = None \<and> s_attr = None)
   else do {
     f \<leftarrow> f_attr; s \<leftarrow> s_attr;
     x \<leftarrow> attributes h f; y \<leftarrow> attributes h s;
     count_loop h (at_next x) (at_next y) })"

partial_function (option) equal_loop :: "dom \<Rightarrow> addr \<Rightarrow> addr option \<Rightarrow> bool option" where
  [code]: "equal_loop h f s_attr = (if s_attr = None then Some False
   else do {
     s \<leftarrow> s_attr;
     same \<leftarrow> lxb_dom_attr_compare h f s;
     y \<leftarrow> attributes h s;
     (if same then Some True else equal_loop h f (at_next y)) })"

partial_function (option) compare_loop :: "dom \<Rightarrow> addr option \<Rightarrow> addr option \<Rightarrow> bool option" where
  [code]: "compare_loop h f_attr s_first = (if f_attr = None then Some True
   else do {
     f \<leftarrow> f_attr;
     found \<leftarrow> equal_loop h f s_first;
     x \<leftarrow> attributes h f;
     (if \<not> found then Some False else compare_loop h (at_next x) s_first) })"

definition lxb_dom_element_compare :: "dom \<Rightarrow> addr \<Rightarrow> addr \<Rightarrow> bool option" where
  "lxb_dom_element_compare h first second = do {
     n \<leftarrow> nodes h first; m \<leftarrow> nodes h second;
     e \<leftarrow> elements h first; d \<leftarrow> elements h second;
     (if n_local_name n \<noteq> n_local_name m \<or> n_ns n \<noteq> n_ns m \<or> el_qualified_name e \<noteq> el_qualified_name d
      then Some False
      else do {
        same \<leftarrow> count_loop h (el_first_attr e) (el_first_attr d);
        (if \<not> same then Some False else compare_loop h (el_first_attr e) (el_first_attr d)) }) }"

text \<open>The cached attributes.\<close>

definition cached_value :: "dom \<Rightarrow> addr option \<Rightarrow> (addr option \<times> nat) option" where
  "cached_value h attr = (case attr of None \<Rightarrow> Some (None, 0) | Some a \<Rightarrow> lxb_dom_attr_value h a)"

definition lxb_dom_element_id :: "dom \<Rightarrow> addr \<Rightarrow> (addr option \<times> nat) option" where
  "lxb_dom_element_id h element = do { e \<leftarrow> elements h element; cached_value h (el_attr_id e) }"

definition lxb_dom_element_class :: "dom \<Rightarrow> addr \<Rightarrow> (addr option \<times> nat) option" where
  "lxb_dom_element_class h element = do { e \<leftarrow> elements h element; cached_value h (el_attr_class e) }"


section \<open>Invariant\<close>

text \<open>Who owns characters in the text arena, and which block.\<close>

datatype text_owner = Attr_value addr | Char_data addr | Is_value addr | Pi_target addr | Public_id addr | System_id addr

fun text_of :: "dom \<Rightarrow> text_owner \<Rightarrow> lexbor_str option" where
  "text_of h (Attr_value a) = do { at \<leftarrow> attributes h a; at_value at }"
| "text_of h (Char_data a) = chardata h a"
| "text_of h (Is_value a) = do { e \<leftarrow> elements h a; el_is_value e }"
| "text_of h (Pi_target a) = pi_targets h a"
| "text_of h (Public_id a) = map_option dt_public_id (doctypes h a)"
| "text_of h (System_id a) = map_option dt_system_id (doctypes h a)"

definition text_ptr :: "dom \<Rightarrow> text_owner \<Rightarrow> addr option" where
  "text_ptr h x = do { s \<leftarrow> text_of h x; str_data s }"

text \<open>Every block is live and owned once; outside \<open>X\<close> the owner's string is terminated by NUL.\<close>

definition texts_ok_but :: "dom \<Rightarrow> text_owner set \<Rightarrow> bool" where
  "texts_ok_but h X \<longleftrightarrow> ar_wf (text_arena h) \<and>
     (\<forall>x p. text_ptr h x = Some p \<longrightarrow> ar_blocks (text_arena h) p \<noteq> None) \<and>
     (\<forall>x y p. text_ptr h x = Some p \<longrightarrow> text_ptr h y = Some p \<longrightarrow> x = y) \<and>
     (\<forall>x s p. x \<notin> X \<longrightarrow> text_of h x = Some s \<longrightarrow> str_data s = Some p \<longrightarrow> (\<exists>cs. str_is (text_arena h) s cs))"

abbreviation texts_ok :: "dom \<Rightarrow> bool" where
  "texts_ok h \<equiv> texts_ok_but h {}"

text \<open>An attribute list: pointers, cached attributes, and distinct names.\<close>

definition attr_sib :: "dom \<Rightarrow> sibs" where
  "attr_sib h a = map_option (\<lambda>x. (at_owner x, at_prev x, at_next x)) (attributes h a)"

definition has_id :: "dom \<Rightarrow> nat \<Rightarrow> addr \<Rightarrow> bool" where
  "has_id h i a \<longleftrightarrow> map_option n_local_name (nodes h a) = Some i"

definition attr_list :: "dom \<Rightarrow> addr \<Rightarrow> addr list \<Rightarrow> bool" where
  "attr_list h el As \<longleftrightarrow>
     (\<exists>e. elements h el = Some e \<and> el_first_attr e = hd_or As None \<and> el_last_attr e = last_or As None \<and>
        el_attr_id e = find (has_id h LXB_DOM_ATTR_ID) As \<and> el_attr_class e = find (has_id h LXB_DOM_ATTR_CLASS) As) \<and>
     dll (attr_sib h) el None As None \<and> distinct As \<and> distinct (map (\<lambda>a. map_option n_local_name (nodes h a)) As)"

text \<open>The document of a node, with its table of attribute names.\<close>

definition in_doc :: "dom \<Rightarrow> addr \<Rightarrow> addr \<Rightarrow> lxb_dom_document \<Rightarrow> lexbor_hash \<Rightarrow> bool" where
  "in_doc h a D d H \<longleftrightarrow> (\<exists>n m. nodes h a = Some n \<and> n_owner_document n = D \<and> docs h D = Some d \<and>
     nodes h D = Some m \<and> n_owner_document m = D \<and> hashes h (doc_attrs d) = Some H \<and> attrs_ok H)"

text \<open>An attribute with the local name \<open>k\<close> and the value \<open>cs\<close>.\<close>

definition attr_is :: "dom \<Rightarrow> lexbor_hash \<Rightarrow> addr \<Rightarrow> bytes \<times> bytes option \<Rightarrow> bool" where
  "attr_is h H a kv \<longleftrightarrow> (\<exists>n at. nodes h a = Some n \<and> attributes h a = Some at \<and>
     local_is H (n_local_name n) (fst kv) \<and>
     (at_qualified_name at = 0 \<or> (\<exists>r. hkey H (at_qualified_name at) = Some r \<and> lower r = fst kv)) \<and>
     (case at_value at of None \<Rightarrow> snd kv = None
      | Some v \<Rightarrow> (\<exists>cs. snd kv = Some cs \<and> str_is (text_arena h) v cs)))"

definition attrs_are :: "dom \<Rightarrow> addr \<Rightarrow> (bytes \<times> bytes option) list \<Rightarrow> bool" where
  "attrs_are h el m \<longleftrightarrow> (\<exists>As D d H. in_doc h el D d H \<and> attr_list h el As \<and>
     (\<forall>a \<in> set As. \<exists>n. nodes h a = Some n \<and> n_owner_document n = D) \<and> list_all2 (attr_is h H) As m)"

text \<open>
  Every object is a node whose type field names its kind, at an address already given out.
\<close>

definition CHARDATA_TYPES :: "lxb_dom_node_type set" where
  "CHARDATA_TYPES = {LXB_DOM_NODE_TYPE_TEXT, LXB_DOM_NODE_TYPE_CDATA_SECTION, LXB_DOM_NODE_TYPE_COMMENT,
     LXB_DOM_NODE_TYPE_PROCESSING_INSTRUCTION}"

definition kind_ok :: "dom \<Rightarrow> addr \<Rightarrow> lxb_dom_node \<Rightarrow> bool" where
  "kind_ok h a n \<longleftrightarrow>
     (elements h a \<noteq> None \<longleftrightarrow> n_type n = LXB_DOM_NODE_TYPE_ELEMENT) \<and>
     (attributes h a \<noteq> None \<longleftrightarrow> n_type n = LXB_DOM_NODE_TYPE_ATTRIBUTE) \<and>
     (docs h a \<noteq> None \<longleftrightarrow> n_type n = LXB_DOM_NODE_TYPE_DOCUMENT) \<and>
     (chardata h a \<noteq> None \<longleftrightarrow> n_type n \<in> CHARDATA_TYPES) \<and>
     (pi_targets h a \<noteq> None \<longleftrightarrow> n_type n = LXB_DOM_NODE_TYPE_PROCESSING_INSTRUCTION) \<and>
     (doctypes h a \<noteq> None \<longleftrightarrow> n_type n = LXB_DOM_NODE_TYPE_DOCUMENT_TYPE) \<and>
     (fragment_hosts h a \<noteq> None \<longleftrightarrow> n_type n = LXB_DOM_NODE_TYPE_DOCUMENT_FRAGMENT) \<and>
     (template_contents h a \<noteq> None \<longrightarrow> n_type n = LXB_DOM_NODE_TYPE_ELEMENT)"

definition no_struct :: "dom \<Rightarrow> addr \<Rightarrow> bool" where
  "no_struct h a \<longleftrightarrow> elements h a = None \<and> attributes h a = None \<and> docs h a = None \<and> chardata h a = None \<and>
     pi_targets h a = None \<and> doctypes h a = None \<and> fragment_hosts h a = None \<and> template_contents h a = None"

definition heap_typed :: "dom \<Rightarrow> bool" where
  "heap_typed h \<longleftrightarrow> (\<forall>a. case nodes h a of
     None \<Rightarrow> no_struct h a
   | Some n \<Rightarrow> kind_ok h a n \<and> a < obj_fresh h)"

abbreviation same_other_structs :: "dom \<Rightarrow> dom \<Rightarrow> bool" where
  "same_other_structs h h' \<equiv> chardata h' = chardata h \<and> pi_targets h' = pi_targets h \<and> doctypes h' = doctypes h \<and>
     fragment_hosts h' = fragment_hosts h \<and> template_contents h' = template_contents h"

text \<open>It is enough to look at the addresses whose structs change.\<close>

definition same_structs :: "dom \<Rightarrow> dom \<Rightarrow> addr \<Rightarrow> bool" where
  "same_structs h h' b \<longleftrightarrow> map_option n_type (nodes h' b) = map_option n_type (nodes h b) \<and>
     (elements h' b = None) = (elements h b = None) \<and> (attributes h' b = None) = (attributes h b = None) \<and>
     (docs h' b = None) = (docs h b = None) \<and> (chardata h' b = None) = (chardata h b = None) \<and>
     (pi_targets h' b = None) = (pi_targets h b = None) \<and> (doctypes h' b = None) = (doctypes h b = None) \<and>
     (fragment_hosts h' b = None) = (fragment_hosts h b = None) \<and> (template_contents h' b = None) = (template_contents h b = None)"

lemma heap_typed_frame:
  assumes "heap_typed h" and "obj_fresh h \<le> obj_fresh h'"
    and "\<And>b. same_structs h h' b \<or> (case nodes h' b of None \<Rightarrow> no_struct h' b | Some n \<Rightarrow> kind_ok h' b n \<and> b < obj_fresh h')"
  shows "heap_typed h'"
  unfolding heap_typed_def
proof
  fix b
  show "case nodes h' b of None \<Rightarrow> no_struct h' b | Some n \<Rightarrow> kind_ok h' b n \<and> b < obj_fresh h'"
  proof (cases "same_structs h h' b")
    case True
    have "case nodes h b of None \<Rightarrow> no_struct h b | Some n \<Rightarrow> kind_ok h b n \<and> b < obj_fresh h"
      using assms(1) by (simp add: heap_typed_def)
    with True assms(2) show ?thesis
      by (cases "nodes h b"; cases "nodes h' b") (simp_all add: same_structs_def no_struct_def kind_ok_def)
  qed (use assms(3) in blast)
qed

lemma heap_typed_kind: "heap_typed h \<Longrightarrow> nodes h a = Some n \<Longrightarrow> kind_ok h a n"
  by (auto simp: heap_typed_def split: option.splits)

lemma fresh_absent: "heap_typed h \<Longrightarrow> nodes h a = None \<Longrightarrow>
    elements h a = None \<and> attributes h a = None \<and> docs h a = None \<and> chardata h a = None \<and>
    pi_targets h a = None \<and> doctypes h a = None \<and> fragment_hosts h a = None \<and> template_contents h a = None"
  by (auto simp: heap_typed_def no_struct_def split: option.splits dest!: spec [of _ a])

lemma fresh_node: "heap_typed h \<Longrightarrow> nodes h (obj_fresh h) = None"
  by (force simp: heap_typed_def split: option.splits)

text \<open>The abstract state: the association list of each element, in the order of its attributes.\<close>

definition attrs_wf :: "dom \<Rightarrow> (addr \<Rightarrow> (bytes \<times> bytes option) list) \<Rightarrow> bool" where
  "attrs_wf h M \<longleftrightarrow> texts_ok h \<and> heap_typed h \<and> (\<forall>el \<in> dom (elements h). attrs_are h el (M el))"

section \<open>Searching the list\<close>

lemma attr_loop_find:
  assumes "dll (attr_sib h) el pv As None" and "\<forall>a \<in> set As. nodes h a \<noteq> None"
  shows "attr_loop h hit (hd_or As None) =
     Some (find (\<lambda>a. \<exists>n at. nodes h a = Some n \<and> attributes h a = Some at \<and> hit n at) As)"
  using assms
proof (induction As arbitrary: pv)
  case Nil
  show ?case by (subst attr_loop.simps) simp
next
  case (Cons a As)
  then obtain at n where a: "attributes h a = Some at" "at_next at = hd_or As None" "nodes h a = Some n"
    by (auto simp: attr_sib_def)
  from Cons have "attr_loop h hit (hd_or As None) =
     Some (find (\<lambda>a. \<exists>n at. nodes h a = Some n \<and> attributes h a = Some at \<and> hit n at) As)" by auto
  with a show ?case by (subst attr_loop.simps) simp
qed

lemma attr_static_0: "attr_static 0 = ascii ''#undef''"
  by (simp add: attr_static_def lxb_dom_attr_res_data_default_def name_data_def)

text \<open>On a well-formed attribute the two tests of the loop agree.\<close>

lemma lower_comp [simp]: "lexbor_str_res_map_lowercase \<circ> lexbor_str_res_map_lowercase = lexbor_str_res_map_lowercase"
  by (rule ext) (simp add: map_lowercase_idem)

lemma named_local:
  assumes ok: "attrs_ok H" and i: "local_is H i (lower key)" and key: "lower key \<noteq> ascii ''#undef''"
    and n: "local_is H (n_local_name n) k"
    and q: "at_qualified_name at = 0 \<or> (\<exists>r. hkey H (at_qualified_name at) = Some r \<and> lower r = k)"
  shows "named i n at \<longleftrightarrow> k = lower key"
proof -
  have "i \<noteq> 0" using i key by (cases "i = 0") (simp_all add: local_is_def attr_static_0 LXB_DOM_ATTR__LAST_ENTRY_def)
  have "k = lower key" if e: "at_qualified_name at = i"
  proof -
    from q e \<open>i \<noteq> 0\<close> obtain r where r: "hkey H i = Some r" "lower r = k" by auto
    with attrs_ok_key [OF ok r(1)] i have "r = lower key" by (simp add: local_is_def)
    with r(2) show ?thesis by simp
  qed
  moreover have "n_local_name n = i \<longleftrightarrow> k = lower key"
    using local_is_inj [OF ok n] local_is_fun [OF n] i by auto
  ultimately show ?thesis by (auto simp: named_def)
qed

text \<open>The attribute with a key, by the side of the abstract list.\<close>

definition attr_at :: "addr list \<Rightarrow> (bytes \<times> 'v) list \<Rightarrow> bytes \<Rightarrow> addr option" where
  "attr_at As m k = map_option fst (find (\<lambda>(a, kv). fst kv = k) (zip As m))"

lemma attr_at_find:
  assumes "list_all2 R As m" and "\<And>a kv. a \<in> set As \<Longrightarrow> R a kv \<Longrightarrow> P a \<longleftrightarrow> fst kv = k"
  shows "find P As = attr_at As m k"
  using assms by (induction rule: list_all2_induct) (auto simp: attr_at_def)

lemma attr_at_None: "list_all2 R As m \<Longrightarrow> attr_at As m k = None \<longleftrightarrow> k \<notin> fst ` set m"
  by (induction rule: list_all2_induct) (auto simp: attr_at_def)

lemma attr_at_Some:
  "list_all2 R As m \<Longrightarrow> attr_at As m k = Some a \<Longrightarrow>
   \<exists>xs v ys bs cs. m = xs @ (k, v) # ys \<and> As = bs @ a # cs \<and> length bs = length xs \<and> k \<notin> fst ` set xs \<and>
     list_all2 R bs xs \<and> R a (k, v) \<and> list_all2 R cs ys"
proof (induction rule: list_all2_induct)
  case (Cons b bs kv m)
  show ?case
  proof (cases "fst kv = k")
    case True
    with Cons.prems Cons.hyps show ?thesis
      by (intro exI [of _ "[]"] exI [of _ "snd kv"] exI [of _ m] exI [of _ bs]) (auto simp: attr_at_def)
  next
    case False
    with Cons.prems have "attr_at bs m k = Some a" by (simp add: attr_at_def)
    with Cons.IH obtain xs v ys as cs where i: "m = xs @ (k, v) # ys" "bs = as @ a # cs" "length as = length xs"
      "k \<notin> fst ` set xs" "list_all2 R as xs" "R a (k, v)" "list_all2 R cs ys" by blast
    with False Cons.hyps(1) show ?thesis
      by (intro exI [of _ "kv # xs"] exI [of _ v] exI [of _ ys] exI [of _ "b # as"] exI [of _ cs]) auto
  qed
qed (simp add: attr_at_def)

lemma all2_left: "list_all2 R xs ys \<Longrightarrow> x \<in> set xs \<Longrightarrow> \<exists>y \<in> set ys. R x y"
  by (induction rule: list_all2_induct) auto

lemma attr_by_local_is:
  assumes doc: "attrs_ok H" and al: "attr_list h el As" and m: "list_all2 (attr_is h H) As m"
    and key: "key \<noteq> []" "lower key \<noteq> ascii ''#undef''"
  shows "\<exists>data. lxb_dom_attr_data_by_local_name H (Some key) = Some data \<and>
     attr_by_data h el H data = Some (attr_at As m (lower key))"
proof -
  from data_by_local_name_is [OF doc key(1)] obtain data where data:
    "lxb_dom_attr_data_by_local_name H (Some key) = Some data"
    "case data of None \<Rightarrow> \<forall>i. \<not> local_is H i (lower key)
     | Some p \<Rightarrow> \<exists>i. ptr_id lxb_dom_attr_res_data_default H p = Some i \<and> local_is H i (lower key)" by blast
  show ?thesis
  proof (cases data)
    case None
    have "lower key \<notin> fst ` set m"
    proof
      assume "lower key \<in> fst ` set m"
      then obtain kv where "kv \<in> set m" "fst kv = lower key" by auto
      with m have "\<exists>a. attr_is h H a kv" by (auto simp: list_all2_conv_all_nth in_set_conv_nth)
      with data(2) None \<open>fst kv = lower key\<close> show False by (auto simp: attr_is_def)
    qed
    then have "attr_at As m (lower key) = None" using attr_at_None [OF m] by simp
    with data(1) None show ?thesis by (simp add: attr_by_data_def)
  next
    case (Some p)
    with data(2) obtain i where i: "ptr_id lxb_dom_attr_res_data_default H p = Some i" "local_is H i (lower key)" by auto
    from al obtain e where e: "elements h el = Some e" "el_first_attr e = hd_or As None" "dll (attr_sib h) el None As None"
      by (auto simp: attr_list_def)
    have "\<forall>a \<in> set As. nodes h a \<noteq> None"
      using all2_left [OF m] by (fastforce simp: attr_is_def)
    then have "attr_loop h (named i) (hd_or As None) =
        Some (find (\<lambda>a. \<exists>n at. nodes h a = Some n \<and> attributes h a = Some at \<and> named i n at) As)"
      by (rule attr_loop_find [OF e(3)])
    also have "find (\<lambda>a. \<exists>n at. nodes h a = Some n \<and> attributes h a = Some at \<and> named i n at) As = attr_at As m (lower key)"
    proof (rule attr_at_find [OF m])
      fix a kv assume "attr_is h H a kv"
      with named_local [OF doc i(2) key(2)]
      show "(\<exists>n at. nodes h a = Some n \<and> attributes h a = Some at \<and> named i n at) \<longleftrightarrow> fst kv = lower key"
        by (auto simp: attr_is_def)
    qed
    finally show ?thesis using data(1) Some i(1) e by (simp add: attr_by_data_def)
  qed
qed

section \<open>Storing values\<close>

definition vdata :: "lexbor_str option \<Rightarrow> addr option" where
  "vdata v = do { s \<leftarrow> v; str_data s }"

text \<open>What replacing a string does to the blocks: only its own block may change, move or appear.\<close>

definition value_blocks ::
  "(addr \<rightharpoonup> bytes) \<Rightarrow> lexbor_str option \<Rightarrow> (addr \<rightharpoonup> bytes) \<Rightarrow> lexbor_str option \<Rightarrow> bool" where
  "value_blocks B v B' v' \<longleftrightarrow>
     (\<forall>p. vdata v \<noteq> Some p \<longrightarrow> vdata v' \<noteq> Some p \<longrightarrow> B' p = B p) \<and>
     (\<forall>q. vdata v' = Some q \<longrightarrow> B' q \<noteq> None \<and> (vdata v = Some q \<or> B q = None))"

lemma value_store_is:
  assumes at: "attributes h a = Some at" "at_value at = Some v" "str_data v = Some q"
    and b: "ar_blocks (text_arena h) q = Some b" "length value < length b" and wf: "ar_wf (text_arena h)"
  shows "\<exists>A rest. value_store h a value = Some (h\<lparr>text_arena := A,
      attributes := (attributes h)(a \<mapsto> at\<lparr>at_value := Some (v\<lparr>str_length := length value\<rparr>)\<rparr>)\<rparr>) \<and> ar_wf A \<and>
      ar_blocks A = (ar_blocks (text_arena h))(q \<mapsto> value @ 0 # rest)"
proof -
  from write_behind [where cs = "[]", OF _ b(2)] b(1) obtain A1 A2 rest where w:
    "blk_write (text_arena h) (Some q) 0 value = Some A1" "blk_write A1 (Some q) (length value) [0] = Some A2"
    "A2 = text_arena h\<lparr>ar_blocks := (ar_blocks (text_arena h))(q \<mapsto> value @ 0 # rest)\<rparr>" by fastforce
  have "ar_wf A2" using wf b(1) by (auto simp: w(3) ar_wf_def)
  with w at show ?thesis by (auto simp: value_store_def wr_value_def wr_attr_def intro!: exI [of _ A2])
qed

lemma value_room_is:
  assumes at: "attributes h a = Some at" "at_value at = Some v"
    and live: "\<And>p. str_data v = Some p \<Longrightarrow> \<exists>b. ar_blocks (text_arena h) p = Some b"
    and wf: "ar_wf (text_arena h)" and n: "n < 2 ^ 62"
  shows "\<exists>ok v' A. value_room h a n = Some (ok, h\<lparr>text_arena := A,
      attributes := (attributes h)(a \<mapsto> at\<lparr>at_value := Some v'\<rparr>)\<rparr>) \<and> ar_wf A \<and>
      value_blocks (ar_blocks (text_arena h)) (Some v) (ar_blocks A) (Some v') \<and>
      (ok \<longrightarrow> (\<exists>q b. str_data v' = Some q \<and> ar_blocks A q = Some b \<and> n < length b))"
proof (cases "str_data v")
  case None
  have n1: "n + 1 < 2 ^ 63" using n by simp
  from str_init_is [OF wf n1, of v] obtain r v' A where i: "lexbor_str_init (Some v) (text_arena h) n = Some (r, Some v', A)"
    "ar_wf A" "r \<noteq> None \<and> str_is A v' [] \<and> ar_blocks (text_arena h) (the (str_data v')) = None \<and>
        (\<exists>b. ar_blocks A = (ar_blocks (text_arena h))(the (str_data v') \<mapsto> b) \<and> n < length b) \<or>
      r = None \<and> str_data v' = None \<and> str_length v' = 0 \<and> ar_blocks A = ar_blocks (text_arena h)" by blast
  have run: "value_room h a n = Some (str_data v' \<noteq> None, h\<lparr>text_arena := A,
      attributes := (attributes h)(a \<mapsto> at\<lparr>at_value := Some v'\<rparr>)\<rparr>)"
    using at None i(1) by (simp add: value_room_def wr_value_def wr_attr_def)
  have "value_blocks (ar_blocks (text_arena h)) (Some v) (ar_blocks A) (Some v')"
    using i(3) None by (auto simp: value_blocks_def vdata_def str_is_def)
  moreover have "str_data v' \<noteq> None \<longrightarrow> (\<exists>q b. str_data v' = Some q \<and> ar_blocks A q = Some b \<and> n < length b)"
    using i(3) by auto
  ultimately show ?thesis using run i(2) by blast
next
  case (Some p)
  with live obtain b where b: "ar_blocks (text_arena h) p = Some b" by blast
  let ?v = "v\<lparr>str_length := 0\<rparr>"
  show ?thesis
  proof (cases "length b \<le> n")
    case False
    have "value_room h a n = Some (True, h\<lparr>text_arena := text_arena h,
        attributes := (attributes h)(a \<mapsto> at\<lparr>at_value := Some ?v\<rparr>)\<rparr>)"
      using at Some b False by (simp add: value_room_def wr_value_def wr_attr_def lexbor_str_size_def lexbor_mraw_data_size_def Let_def)
    moreover have "value_blocks (ar_blocks (text_arena h)) (Some v) (ar_blocks (text_arena h)) (Some ?v)"
      using Some b by (simp add: value_blocks_def vdata_def)
    moreover have "True \<longrightarrow> (\<exists>q b. str_data ?v = Some q \<and> ar_blocks (text_arena h) q = Some b \<and> n < length b)"
      using Some b False by auto
    ultimately show ?thesis using wf by blast
  next
    case True
    with n have len: "length b < n + 1" "n + 1 < 2 ^ 63" by auto
    from mraw_realloc_grow [OF wf b len] obtain r A where g: "lexbor_mraw_realloc (text_arena h) (Some p) (n + 1) = Some (r, A)"
      "ar_wf A" "case r of None \<Rightarrow> \<exists>extra. ar_blocks A = (ar_blocks (text_arena h))(p \<mapsto> b @ extra)
       | Some q \<Rightarrow> (q = p \<or> ar_blocks (text_arena h) q = None) \<and> (\<exists>extra. n + 1 \<le> length (b @ extra) \<and>
           ar_blocks A = (ar_blocks (text_arena h))(p := None, q \<mapsto> b @ extra))" by blast
    let ?w = "case r of None \<Rightarrow> ?v | Some q \<Rightarrow> ?v\<lparr>str_data := Some q\<rparr>"
    have "value_room h a n = Some (r \<noteq> None, h\<lparr>text_arena := A,
        attributes := (attributes h)(a \<mapsto> at\<lparr>at_value := Some ?w\<rparr>)\<rparr>)"
      using at Some b True g(1)
      by (cases r) (simp_all add: value_room_def wr_value_def wr_attr_def lexbor_str_size_def lexbor_mraw_data_size_def
          lexbor_str_realloc_def at_off_def Let_def)
    moreover have "value_blocks (ar_blocks (text_arena h)) (Some v) (ar_blocks A) (Some ?w)"
      using g(3) Some b by (cases r) (auto simp: value_blocks_def vdata_def)
    moreover have "r \<noteq> None \<longrightarrow> (\<exists>q c. str_data ?w = Some q \<and> ar_blocks A q = Some c \<and> n < length c)"
      using g(3) by (cases r) auto
    ultimately show ?thesis using g(2) by blast
  qed
qed

lemma value_blocks_store:
  "value_blocks B v B' (Some w) \<Longrightarrow> str_data w = Some q \<Longrightarrow> value_blocks B v (B'(q \<mapsto> c)) (Some (w\<lparr>str_length := n\<rparr>))"
  by (auto simp: value_blocks_def vdata_def)

lemma value_struct_is:
  assumes at: "attributes h a = Some at"
  shows "\<exists>g reqs fresh. value_struct h a = Some (g, h\<lparr>obj_reqs := reqs, obj_fresh := fresh,
      attributes := (attributes h)(a \<mapsto> if g then at\<lparr>at_value := Some (case at_value at of
        None \<Rightarrow> \<lparr>str_data = None, str_length = 0\<rparr> | Some v \<Rightarrow> v)\<rparr> else at)\<rparr>) \<and> obj_fresh h \<le> fresh"
proof (cases "at_value at")
  case (Some v)
  have "h = h\<lparr>obj_reqs := obj_reqs h, obj_fresh := obj_fresh h, attributes := (attributes h)(a \<mapsto> at\<lparr>at_value := Some v\<rparr>)\<rparr>"
    using at Some by (simp add: fun_upd_idem)
  with at Some show ?thesis
    by (intro exI [of _ True] exI [of _ "obj_reqs h"] exI [of _ "obj_fresh h"]) (simp add: value_struct_def)
next
  case None
  show ?thesis
  proof (cases "obj_fails h (obj_reqs h)")
    case True
    have "(attributes h)(a \<mapsto> at) = attributes h" using at by auto
    with at None True show ?thesis
      by (intro exI [of _ False] exI [of _ "obj_reqs h + 1"] exI [of _ "obj_fresh h"])
        (simp add: value_struct_def obj_calloc_def Let_def)
  next
    case False
    with at None show ?thesis
      by (intro exI [of _ True] exI [of _ "obj_reqs h + 1"] exI [of _ "obj_fresh h + 1"])
        (simp add: value_struct_def obj_calloc_def Let_def wr_attr_def)
  qed
qed

text \<open>Setting a value: the string is replaced, or memory was refused.\<close>

lemma set_value_is:
  assumes at: "attributes h a = Some at" and doc: "owner_doc h a \<noteq> None"
    and live: "\<And>p. vdata (at_value at) = Some p \<Longrightarrow> \<exists>b. ar_blocks (text_arena h) p = Some b"
    and wf: "ar_wf (text_arena h)" and n: "length value < 2 ^ 62"
  shows "\<exists>st v' A reqs fresh. lxb_dom_attr_set_value h a value = Some (st, h\<lparr>text_arena := A, obj_reqs := reqs,
      obj_fresh := fresh, attributes := (attributes h)(a \<mapsto> at\<lparr>at_value := v'\<rparr>)\<rparr>) \<and> obj_fresh h \<le> fresh \<and> ar_wf A \<and>
      value_blocks (ar_blocks (text_arena h)) (at_value at) (ar_blocks A) v' \<and>
      (if st = LXB_STATUS_OK then \<exists>v. v' = Some v \<and> str_is A v value
       else st = LXB_STATUS_ERROR_MEMORY_ALLOCATION)"
proof -
  define v where "v = (case at_value at of None \<Rightarrow> \<lparr>str_data = None, str_length = 0\<rparr> | Some v \<Rightarrow> v)"
  have vd: "vdata (Some v) = vdata (at_value at)" by (auto simp: v_def vdata_def split: option.splits)
  from value_struct_is [OF at] obtain g reqs fresh where s: "value_struct h a = Some (g, h\<lparr>obj_reqs := reqs,
      obj_fresh := fresh, attributes := (attributes h)(a \<mapsto> if g then at\<lparr>at_value := Some v\<rparr> else at)\<rparr>)" "obj_fresh h \<le> fresh"
    unfolding v_def by blast
  let ?h1 = "h\<lparr>obj_reqs := reqs, obj_fresh := fresh, attributes := (attributes h)(a \<mapsto> at\<lparr>at_value := Some v\<rparr>)\<rparr>"
  show ?thesis
  proof (cases g)
    case False
    with s(1) at doc have "lxb_dom_attr_set_value h a value = Some (LXB_STATUS_ERROR_MEMORY_ALLOCATION,
        h\<lparr>obj_reqs := reqs, obj_fresh := fresh, attributes := (attributes h)(a \<mapsto> at)\<rparr>)"
      by (auto simp: lxb_dom_attr_set_value_def lxb_dom_document_node_cbs_def)
    moreover have "value_blocks (ar_blocks (text_arena h)) (at_value at) (ar_blocks (text_arena h)) (at_value at)"
      using live by (auto simp: value_blocks_def)
    ultimately show ?thesis using wf s(2)
      by (intro exI [of _ LXB_STATUS_ERROR_MEMORY_ALLOCATION] exI [of _ "at_value at"] exI [of _ "text_arena h"]
          exI [of _ reqs] exI [of _ fresh]) simp
  next
    case True
    have live': "\<exists>b. ar_blocks (text_arena ?h1) p = Some b" if "str_data v = Some p" for p
      using live [of p] that vd by (simp add: vdata_def)
    have at1: "attributes ?h1 a = Some (at\<lparr>at_value := Some v\<rparr>)" "at_value (at\<lparr>at_value := Some v\<rparr>) = Some v"
      "ar_wf (text_arena ?h1)" using wf by simp_all
    from value_room_is [OF at1(1,2) _ at1(3) n, OF live'] have "\<exists>ok v' A. value_room ?h1 a (length value) = Some (ok, ?h1\<lparr>text_arena := A,
        attributes := (attributes h)(a \<mapsto> at\<lparr>at_value := Some v'\<rparr>)\<rparr>) \<and> ar_wf A \<and>
      value_blocks (ar_blocks (text_arena h)) (Some v) (ar_blocks A) (Some v') \<and>
      (ok \<longrightarrow> (\<exists>q b. str_data v' = Some q \<and> ar_blocks A q = Some b \<and> length value < length b))"
      by simp
    then obtain ok v1 A1 where
      r: "value_room ?h1 a (length value) = Some (ok, ?h1\<lparr>text_arena := A1,
        attributes := (attributes h)(a \<mapsto> at\<lparr>at_value := Some v1\<rparr>)\<rparr>)" "ar_wf A1"
      "value_blocks (ar_blocks (text_arena h)) (Some v) (ar_blocks A1) (Some v1)"
      "ok \<longrightarrow> (\<exists>q b. str_data v1 = Some q \<and> ar_blocks A1 q = Some b \<and> length value < length b)"
      by blast
    have r3: "value_blocks (ar_blocks (text_arena h)) (at_value at) (ar_blocks A1) (Some v1)"
      using r(3) vd by (simp only: value_blocks_def)
    let ?h2 = "?h1\<lparr>text_arena := A1, attributes := (attributes h)(a \<mapsto> at\<lparr>at_value := Some v1\<rparr>)\<rparr>"
    have run: "lxb_dom_attr_set_value h a value = (if ok then value_store ?h2 a value \<bind> (\<lambda>h. Some (LXB_STATUS_OK, h))
        else Some (LXB_STATUS_ERROR_MEMORY_ALLOCATION, ?h2))"
      using s(1) r(1) True at doc
      by (auto simp: lxb_dom_attr_set_value_def lxb_dom_document_node_cbs_def)
    show ?thesis
    proof (cases ok)
      case False
      with run r r3 s(2) show ?thesis
        by (intro exI [of _ LXB_STATUS_ERROR_MEMORY_ALLOCATION] exI [of _ "Some v1"] exI [of _ A1]
            exI [of _ reqs] exI [of _ fresh]) simp
    next
      case ok: True
      with r(4) obtain q b where q: "str_data v1 = Some q" "ar_blocks A1 q = Some b" "length value < length b" by blast
      have at2: "attributes ?h2 a = Some (at\<lparr>at_value := Some v1\<rparr>)" "at_value (at\<lparr>at_value := Some v1\<rparr>) = Some v1"
        "ar_blocks (text_arena ?h2) q = Some b" "ar_wf (text_arena ?h2)" using q(2) r(2) by simp_all
      from value_store_is [OF at2(1,2) q(1) at2(3) q(3) at2(4)] obtain A rest where st: "value_store ?h2 a value = Some (?h2\<lparr>text_arena := A,
          attributes := (attributes h)(a \<mapsto> at\<lparr>at_value := Some (v1\<lparr>str_length := length value\<rparr>)\<rparr>)\<rparr>)" "ar_wf A"
        "ar_blocks A = (ar_blocks A1)(q \<mapsto> value @ 0 # rest)" by auto
      have "value_blocks (ar_blocks (text_arena h)) (at_value at) (ar_blocks A) (Some (v1\<lparr>str_length := length value\<rparr>))"
        unfolding st(3) by (rule value_blocks_store [OF r3 q(1)])
      moreover have "str_is A (v1\<lparr>str_length := length value\<rparr>) value" using st(3) q(1) by (auto simp: str_is_def)
      ultimately show ?thesis using run ok st(1,2) s(2)
        by (intro exI [of _ LXB_STATUS_OK] exI [of _ "Some (v1\<lparr>str_length := length value\<rparr>)"] exI [of _ A]
            exI [of _ reqs] exI [of _ fresh]) simp
    qed
  qed
qed

end
