(* ===== verification/Dom_Attrs.thy ===== *)
theory Dom_Attrs
  imports Dom_Attr "HOL-Library.AList"
begin

text \<open>
  The attributes of an element as an association list: the operations of element.c refine
  \<open>AList.update\<close>, \<open>map_of\<close> and \<open>AList.delete\<close>, for HTML elements of HTML documents, on every branch on
  which memory is granted; and what happens on the others.
\<close>

section \<open>Linking and unlinking an attribute\<close>

lemma attr_sib_upd: "attributes h' = (attributes h)(a \<mapsto> x) \<Longrightarrow> attr_sib h' = (attr_sib h)(a \<mapsto> (at_owner x, at_prev x, at_next x))"
  by (rule ext) (simp add: attr_sib_def)

lemma attr_dll_Some: "dll (attr_sib h) el pv As nx \<Longrightarrow> a \<in> set As \<Longrightarrow> \<exists>x. attributes h a = Some x \<and> at_owner x = Some el"
  by (drule dll_parent, assumption) (auto simp: attr_sib_def)

lemma find_has_id_None: "find (has_id h i) As = None \<longleftrightarrow> (\<forall>a \<in> set As. \<not> has_id h i a)"
  by (induction As) auto

lemma find_snoc: "find P (xs @ [a]) = (if find P xs = None \<and> P a then Some a else find P xs)"
  by (induction xs) auto

lemma attr_cache_is:
  assumes "elements h el = Some e" "nodes h a = Some n"
    and "n_local_name n = LXB_DOM_ATTR_ID \<Longrightarrow> el_attr_id e = None"
    and "n_local_name n = LXB_DOM_ATTR_CLASS \<Longrightarrow> el_attr_class e = None"
  shows "attr_cache h el a = Some (h\<lparr>elements := (elements h)(el \<mapsto>
     e\<lparr>el_attr_id := (if n_local_name n = LXB_DOM_ATTR_ID then Some a else el_attr_id e),
       el_attr_class := (if n_local_name n = LXB_DOM_ATTR_CLASS then Some a else el_attr_class e)\<rparr>)\<rparr>)"
proof -
  have "LXB_DOM_ATTR_ID \<noteq> LXB_DOM_ATTR_CLASS" by (simp add: LXB_DOM_ATTR_ID_def LXB_DOM_ATTR_CLASS_def)
  with assms show ?thesis by (auto simp: attr_cache_def drop_existing_def wr_element_def fun_upd_idem)
qed

lemma attr_link_is:
  assumes e: "elements h el = Some e" "el_first_attr e = hd_or As None" "el_last_attr e = last_or As None"
    and dll: "dll (attr_sib h) el None As None" "distinct As"
    and a: "a \<notin> set As" "attributes h a = Some x" "at_prev x = None" "at_next x = None"
  shows "\<exists>m. attr_link h el a = Some (h\<lparr>attributes := m, elements := (elements h)(el \<mapsto>
       e\<lparr>el_first_attr := hd_or (As @ [a]) None, el_last_attr := Some a\<rparr>)\<rparr>) \<and>
     dll (attr_sib (h\<lparr>attributes := m\<rparr>)) el None (As @ [a]) None \<and>
     (\<forall>b. b \<notin> insert a (set As) \<longrightarrow> m b = attributes h b) \<and>
     (\<forall>b y. attributes h b = Some y \<longrightarrow> (\<exists>y'. m b = Some y' \<and> at_value y' = at_value y \<and>
        at_qualified_name y' = at_qualified_name y))"
proof -
  let ?l = "last_or As None"
  let ?x = "x\<lparr>at_prev := ?l, at_owner := Some el\<rparr>"
  obtain m where run: "attr_link h el a = Some (h\<lparr>attributes := m, elements := (elements h)(el \<mapsto>
       e\<lparr>el_first_attr := hd_or (As @ [a]) None, el_last_attr := Some a\<rparr>)\<rparr>)"
    and sib: "attr_sib (h\<lparr>attributes := m\<rparr>) = (set_nx (attr_sib h) ?l (Some a))(a \<mapsto> (Some el, ?l, None))"
    and frame: "\<forall>b. b \<notin> insert a (set As) \<longrightarrow> m b = attributes h b"
    and vals: "\<forall>b y. attributes h b = Some y \<longrightarrow> (\<exists>y'. m b = Some y' \<and> at_value y' = at_value y \<and>
        at_qualified_name y' = at_qualified_name y)"
  proof (cases "As = []")
    case True
    let ?m = "(attributes h)(a \<mapsto> ?x)"
    have x: "x\<lparr>at_owner := Some el\<rparr> = ?x" using True a(3) by simp
    show thesis
    proof (rule that [of ?m])
      show "attr_link h el a = Some (h\<lparr>attributes := ?m, elements := (elements h)(el \<mapsto>
          e\<lparr>el_first_attr := hd_or (As @ [a]) None, el_last_attr := Some a\<rparr>)\<rparr>)"
        unfolding x [symmetric] using e True a by (simp add: attr_link_def wr_element_def wr_attr_def)
    qed (use True a in \<open>auto simp: attr_sib_def set_nx_def\<close>)
  next
    case False
    then obtain l where l: "?l = Some l" by (cases ?l) auto
    with last_or_set [OF l] dll(1) obtain y where y: "attributes h l = Some y" "l \<in> set As" using attr_dll_Some by blast
    with a(1) have la: "l \<noteq> a" by auto
    let ?m = "(attributes h)(l \<mapsto> y\<lparr>at_next := Some a\<rparr>, a \<mapsto> ?x)"
    obtain f where f: "el_first_attr e = Some f" "hd_or (As @ [a]) None = Some f" using e(2) False by (cases As) auto
    have fe: "e\<lparr>el_first_attr := Some f, el_last_attr := Some a\<rparr> = e\<lparr>el_last_attr := Some a\<rparr>" using f(1) by simp
    have m: "((attributes h)(a \<mapsto> x\<lparr>at_prev := Some l\<rparr>))(l \<mapsto> y\<lparr>at_next := Some a\<rparr>, a \<mapsto> ?x) = ?m"
      using la by auto
    show thesis
    proof (rule that [of ?m])
      show "attr_link h el a = Some (h\<lparr>attributes := ?m, elements := (elements h)(el \<mapsto>
          e\<lparr>el_first_attr := hd_or (As @ [a]) None, el_last_attr := Some a\<rparr>)\<rparr>)"
        unfolding m [symmetric] f(2) using e(1,3) f(1) y(1) la a(2) l
        by (simp add: attr_link_def wr_element_def wr_attr_def fe)
    qed (use l y la a in \<open>auto simp: attr_sib_def set_nx_def fun_eq_iff\<close>)
  qed
  have "dll (attr_sib (h\<lparr>attributes := m\<rparr>)) el None (As @ [a]) None"
    using dll_close_next [OF dll, of "Some a"] a(1) by (simp add: sib)
  with run frame vals show ?thesis by blast
qed
text \<open>Appending a detached attribute whose name does not occur in the list.\<close>

lemma attr_append_is:
  assumes al: "attr_list h el As" and el: "elements h el = Some e" and a: "a \<notin> set As" "attributes h a = Some x" "at_prev x = None" "at_next x = None"
    and n: "nodes h a = Some n" "\<forall>b \<in> set As. \<not> has_id h (n_local_name n) b" and doc: "owner_doc h el \<noteq> None"
  shows "\<exists>m e'. lxb_dom_element_attr_append h el a =
       Some (LXB_STATUS_OK, h\<lparr>attributes := m, elements := (elements h)(el \<mapsto> e')\<rparr>) \<and>
     el_is_value e' = el_is_value e \<and>
     attr_list (h\<lparr>attributes := m, elements := (elements h)(el \<mapsto> e')\<rparr>) el (As @ [a]) \<and>
     (\<forall>b. b \<notin> insert a (set As) \<longrightarrow> m b = attributes h b) \<and>
     (\<forall>b y. attributes h b = Some y \<longrightarrow> (\<exists>y'. m b = Some y' \<and> at_value y' = at_value y \<and>
        at_qualified_name y' = at_qualified_name y))"
proof -
  let ?i = "n_local_name n"
  from al el have e: "el_first_attr e = hd_or As None" "el_last_attr e = last_or As None"
    "el_attr_id e = find (has_id h LXB_DOM_ATTR_ID) As" "el_attr_class e = find (has_id h LXB_DOM_ATTR_CLASS) As"
    "dll (attr_sib h) el None As None" "distinct As" "distinct (map (\<lambda>a. map_option n_local_name (nodes h a)) As)"
    by (auto simp: attr_list_def)
  have none: "?i = j \<Longrightarrow> find (has_id h j) As = None" for j using n(2) by (auto simp: find_has_id_None)
  let ?e1 = "e\<lparr>el_attr_id := (if ?i = LXB_DOM_ATTR_ID then Some a else el_attr_id e),
       el_attr_class := (if ?i = LXB_DOM_ATTR_CLASS then Some a else el_attr_class e)\<rparr>"
  let ?h1 = "h\<lparr>elements := (elements h)(el \<mapsto> ?e1)\<rparr>"
  have c: "attr_cache h el a = Some ?h1" using none by (intro attr_cache_is el n(1)) (simp_all add: e)
  have s1: "attr_sib ?h1 = attr_sib h" by (simp add: attr_sib_def fun_eq_iff)
  have pre: "elements ?h1 el = Some ?e1" "el_first_attr ?e1 = hd_or As None" "el_last_attr ?e1 = last_or As None"
    "dll (attr_sib ?h1) el None As None" "attributes ?h1 a = Some x"
    using e a(2) unfolding s1 by simp_all
  from attr_link_is [OF pre(1,2,3,4) e(6) a(1) pre(5) a(3,4)] obtain m where
    m: "attr_link ?h1 el a = Some (?h1\<lparr>attributes := m, elements := (elements ?h1)(el \<mapsto>
       ?e1\<lparr>el_first_attr := hd_or (As @ [a]) None, el_last_attr := Some a\<rparr>)\<rparr>)"
     "dll (attr_sib (?h1\<lparr>attributes := m\<rparr>)) el None (As @ [a]) None"
     "\<forall>b. b \<notin> insert a (set As) \<longrightarrow> m b = attributes h b"
     "\<forall>b y. attributes h b = Some y \<longrightarrow> (\<exists>y'. m b = Some y' \<and> at_value y' = at_value y \<and>
        at_qualified_name y' = at_qualified_name y)" by auto
  let ?e2 = "?e1\<lparr>el_first_attr := hd_or (As @ [a]) None, el_last_attr := Some a\<rparr>"
  let ?h2 = "h\<lparr>attributes := m, elements := (elements h)(el \<mapsto> ?e2)\<rparr>"
  have h2: "?h1\<lparr>attributes := m, elements := (elements ?h1)(el \<mapsto> ?e2)\<rparr> = ?h2" by simp
  have "owner_doc ?h2 el = owner_doc h el" by (simp add: owner_doc_def)
  with c m(1) doc have run: "lxb_dom_element_attr_append h el a = Some (LXB_STATUS_OK, ?h2)"
    unfolding h2 by (auto simp: lxb_dom_element_attr_append_def lxb_dom_document_node_cbs_def)
  have hid: "has_id ?h2 = has_id h" "has_id h i a = (?i = i)" for i using n(1) by (simp_all add: has_id_def fun_eq_iff)
  have s2: "attr_sib ?h2 = attr_sib (?h1\<lparr>attributes := m\<rparr>)" by (simp add: attr_sib_def fun_eq_iff)
  have ids: "find (has_id h j) (As @ [a]) = (if ?i = j then Some a else find (has_id h j) As)" for j
    using none [of j] hid(2) by (simp add: find_snoc)
  have "el_attr_id ?e2 = find (has_id ?h2 LXB_DOM_ATTR_ID) (As @ [a])"
    "el_attr_class ?e2 = find (has_id ?h2 LXB_DOM_ATTR_CLASS) (As @ [a])"
    unfolding hid(1) ids by (simp_all add: e(3,4))
  moreover have "elements ?h2 el = Some ?e2" "el_first_attr ?e2 = hd_or (As @ [a]) None" "el_last_attr ?e2 = last_or (As @ [a]) None"
    by simp_all
  moreover have "distinct (map (\<lambda>a. map_option n_local_name (nodes ?h2 a)) (As @ [a]))"
    using e(7) n by (auto simp del: map_option_eq_Some simp: has_id_def)
  ultimately have "attr_list ?h2 el (As @ [a])"
    unfolding attr_list_def s2 using m(2) e(6) a(1) by auto
  with run m(3,4) show ?thesis by (intro exI [of _ m] exI [of _ ?e2]) simp
qed

text \<open>Unlinking.\<close>

lemma dll_unlink:
  assumes d: "dll s el None (bs @ a # cs) None" and dist: "distinct (bs @ a # cs)"
  shows "dll ((set_pv (set_nx s (last_or bs None) (hd_or cs None)) (hd_or cs None) (last_or bs None))(a \<mapsto> v)) el None (bs @ cs) None"
proof -
  let ?n = "hd_or cs None" and ?p = "last_or bs None"
  from d have bs: "dll s el None bs (Some a)" and cs: "dll s el (Some a) cs None" by auto
  have "?n \<notin> Some ` set bs" "?p \<notin> Some ` set cs"
    using dist by (auto dest!: last_or_set hd_or_set dest: sym)
  moreover have "dll (set_nx s ?p ?n) el None bs ?n" using dll_close_next [OF bs] dist by simp
  moreover have "dll (set_nx s ?p ?n) el (Some a) cs None" using cs calculation(2) by simp
  ultimately show ?thesis using dll_close_prev [of "set_nx s ?p ?n" el "Some a" cs None ?p] dist by simp
qed

lemma attr_unlink_is:
  assumes e: "elements h el = Some e" "el_first_attr e = hd_or (bs @ a # cs) None" "el_last_attr e = last_or (bs @ a # cs) None"
    and d: "dll (attr_sib h) el None (bs @ a # cs) None" and dist: "distinct (bs @ a # cs)"
  shows "\<exists>m. attr_unlink h el a = Some (h\<lparr>attributes := m, elements := (elements h)(el \<mapsto>
       e\<lparr>el_first_attr := hd_or (bs @ cs) None, el_last_attr := last_or (bs @ cs) None\<rparr>)\<rparr>) \<and>
     dll (attr_sib (h\<lparr>attributes := m\<rparr>)) el None (bs @ cs) None \<and>
     (\<forall>b. b \<notin> set (bs @ a # cs) \<longrightarrow> m b = attributes h b) \<and>
     (\<forall>b y. attributes h b = Some y \<longrightarrow> (\<exists>y'. m b = Some y' \<and> at_value y' = at_value y \<and>
        at_qualified_name y' = at_qualified_name y))"
proof -
  let ?n = "hd_or cs None" and ?p = "last_or bs None"
  from d have "attr_sib h a = Some (Some el, ?p, ?n)" by simp
  then obtain x where x: "attributes h a = Some x" "at_prev x = ?p" "at_next x = ?n" by (auto simp: attr_sib_def)
  define m1 where "m1 = (case ?p of None \<Rightarrow> attributes h
    | Some p \<Rightarrow> (attributes h)(p \<mapsto> (the (attributes h p))\<lparr>at_next := ?n\<rparr>))"
  define m2 where "m2 = (case ?n of None \<Rightarrow> m1 | Some q \<Rightarrow> m1(q \<mapsto> (the (m1 q))\<lparr>at_prev := ?p\<rparr>))"
  have pa: "?p = Some p \<Longrightarrow> p \<noteq> a \<and> p \<in> set bs \<and> (\<exists>y. attributes h p = Some y)" for p
    using dist last_or_set [of bs p] attr_dll_Some [OF d, of p] by auto
  have qa: "?n = Some q \<Longrightarrow> q \<noteq> a \<and> q \<in> set cs \<and> ?p \<noteq> Some q \<and> (\<exists>y. attributes h q = Some y)" for q
    using dist hd_or_set [of cs q] attr_dll_Some [OF d, of q] by (auto dest!: last_or_set)
  let ?e1 = "e\<lparr>el_first_attr := hd_or (bs @ cs) None\<rparr>"
  let ?e2 = "?e1\<lparr>el_last_attr := last_or (bs @ cs) None\<rparr>"
  let ?h1 = "h\<lparr>attributes := m1, elements := (elements h)(el \<mapsto> ?e1)\<rparr>"
  let ?h2 = "h\<lparr>attributes := m2, elements := (elements h)(el \<mapsto> ?e2)\<rparr>"
  let ?m = "m2(a \<mapsto> x\<lparr>at_next := None, at_prev := None, at_owner := None\<rparr>)"
  have run1: "(case at_prev x of
            Some p \<Rightarrow> wr_attr h p (\<lambda>y. y\<lparr>at_next := at_next x\<rparr>)
          | None \<Rightarrow> wr_element h el (\<lambda>e. e\<lparr>el_first_attr := at_next x\<rparr>)) = Some ?h1"
  proof (cases ?p)
    case None
    then show ?thesis using e(1) x by (simp add: m1_def wr_element_def)
  next
    case (Some p)
    then have "hd_or (bs @ cs) None = el_first_attr e" using e(2) by (cases bs) auto
    then have "?e1 = e" by simp
    with Some pa [OF Some] e(1) x show ?thesis by (auto simp: m1_def wr_attr_def fun_upd_idem)
  qed
  have x1: "m1 a = Some x" using pa x by (auto simp: m1_def split: option.splits)
  have run2: "(case at_next x of
            Some q \<Rightarrow> wr_attr ?h1 q (\<lambda>y. y\<lparr>at_prev := at_prev x\<rparr>)
          | None \<Rightarrow> wr_element ?h1 el (\<lambda>e. e\<lparr>el_last_attr := at_prev x\<rparr>)) = Some ?h2"
  proof (cases ?n)
    case None
    then have "cs = []" by simp
    with None show ?thesis using x by (simp add: m2_def wr_element_def)
  next
    case (Some q)
    then have "cs \<noteq> []" by auto
    then have "last_or (bs @ cs) None = el_last_attr e" using e(3) by (simp add: last_or_nonempty)
    then have "?e2 = ?e1" by simp
    moreover have "m1 q = attributes h q" using qa [OF Some] by (auto simp: m1_def split: option.splits)
    ultimately show ?thesis using Some qa [OF Some] x by (auto simp: m2_def wr_attr_def fun_upd_idem)
  qed
  have x2: "m2 a = Some x" using qa x1 by (auto simp: m2_def split: option.splits)
  have run: "attr_unlink h el a = Some (h\<lparr>attributes := ?m, elements := (elements h)(el \<mapsto> ?e2)\<rparr>)"
    using run1 run2 x(1) x1 x2 by (simp add: attr_unlink_def wr_attr_Some del: hd_or_append last_or_append)
  have s1: "attr_sib (h\<lparr>attributes := m1\<rparr>) = set_nx (attr_sib h) ?p ?n"
    using pa by (auto simp: attr_sib_def m1_def set_nx_def fun_eq_iff split: option.splits)
  have s2: "attr_sib (h\<lparr>attributes := m2\<rparr>) = set_pv (attr_sib (h\<lparr>attributes := m1\<rparr>)) ?n ?p"
  proof (cases ?n)
    case (Some q)
    have "m1 q = attributes h q" using qa [OF Some] by (auto simp: m1_def split: option.splits)
    with qa [OF Some] Some show ?thesis by (auto simp: attr_sib_def m2_def set_pv_def fun_eq_iff)
  qed (simp add: attr_sib_def m2_def set_pv_def)
  have "attr_sib (h\<lparr>attributes := ?m\<rparr>) =
      (set_pv (set_nx (attr_sib h) ?p ?n) ?n ?p)(a \<mapsto> (None, None, None))"
    unfolding s1 [symmetric] s2 [symmetric] by (auto simp: attr_sib_def fun_eq_iff)
  with dll_unlink [OF d dist] have "dll (attr_sib (h\<lparr>attributes := ?m\<rparr>)) el None (bs @ cs) None" by metis
  moreover have "?m b = attributes h b" if "b \<notin> set (bs @ a # cs)" for b
    using that pa qa by (auto simp: m1_def m2_def split: option.splits)
  moreover have "\<exists>y'. ?m b = Some y' \<and> at_value y' = at_value y \<and> at_qualified_name y' = at_qualified_name y"
    if "attributes h b = Some y" for b y
    using that x pa qa by (auto simp: m1_def m2_def split: option.splits)
  ultimately show ?thesis using run by (intro exI [of _ ?m]) blast
qed

lemma find_drop_one:
  assumes "distinct (map g (bs @ a # cs))" and "\<And>b. P b \<longleftrightarrow> g b = v"
  shows "find P (bs @ cs) = (if find P (bs @ a # cs) = Some a then None else find P (bs @ a # cs))"
proof (cases "P a")
  case True
  then have "\<forall>b \<in> set bs \<union> set cs. \<not> P b" using assms by (auto simp: image_iff)
  with True have "find P (bs @ cs) = None" "find P (bs @ a # cs) = Some a"
    by (induction bs) (auto simp: find_None_iff)
  then show ?thesis by simp
next
  case False
  then have "find P (bs @ a # cs) = find P (bs @ cs)" by (induction bs) auto
  moreover have "find P (bs @ cs) \<noteq> Some a" using False by (auto simp: find_Some_iff)
  ultimately show ?thesis by simp
qed

text \<open>Removing an attribute of the list.\<close>

lemma attr_remove_is:
  assumes al: "attr_list h el (bs @ a # cs)" and el: "elements h el = Some e" and doc: "owner_doc h a \<noteq> None"
  shows "\<exists>m e'. lxb_dom_attr_remove h a = Some (h\<lparr>attributes := m, elements := (elements h)(el \<mapsto> e')\<rparr>) \<and>
     el_is_value e' = el_is_value e \<and>
     attr_list (h\<lparr>attributes := m, elements := (elements h)(el \<mapsto> e')\<rparr>) el (bs @ cs) \<and>
     (\<forall>b. b \<notin> set (bs @ a # cs) \<longrightarrow> m b = attributes h b) \<and>
     (\<forall>b y. attributes h b = Some y \<longrightarrow> (\<exists>y'. m b = Some y' \<and> at_value y' = at_value y \<and>
        at_qualified_name y' = at_qualified_name y))"
proof -
  let ?As = "bs @ a # cs" and ?I = "LXB_DOM_ATTR_ID" and ?C = "LXB_DOM_ATTR_CLASS"
  from al el have e: "el_first_attr e = hd_or ?As None" "el_last_attr e = last_or ?As None"
    "el_attr_id e = find (has_id h ?I) ?As" "el_attr_class e = find (has_id h ?C) ?As"
    "dll (attr_sib h) el None ?As None" "distinct ?As" "distinct (map (\<lambda>a. map_option n_local_name (nodes h a)) ?As)"
    by (auto simp: attr_list_def)
  have ne: "?I \<noteq> ?C" by (simp add: LXB_DOM_ATTR_ID_def LXB_DOM_ATTR_CLASS_def)
  have fd: "find (has_id h i) (bs @ cs) = (if find (has_id h i) ?As = Some a then None else find (has_id h i) ?As)" for i
    by (rule find_drop_one [OF e(7), of _ "Some i"]) (simp only: has_id_def)
  let ?e1 = "e\<lparr>el_attr_id := find (has_id h ?I) (bs @ cs), el_attr_class := find (has_id h ?C) (bs @ cs)\<rparr>"
  let ?h1 = "h\<lparr>elements := (elements h)(el \<mapsto> ?e1)\<rparr>"
  have both: "\<not> (find (has_id h ?I) ?As = Some a \<and> find (has_id h ?C) ?As = Some a)"
    using ne by (auto simp: find_Some_iff has_id_def)
  have unc: "attr_uncache h el a = Some ?h1"
    using el both unfolding fd e(3,4) [symmetric] by (auto simp: attr_uncache_def wr_element_def fun_upd_idem)
  have s1: "attr_sib ?h1 = attr_sib h" by (simp add: attr_sib_def fun_eq_iff)
  have pre: "elements ?h1 el = Some ?e1" "el_first_attr ?e1 = hd_or ?As None" "el_last_attr ?e1 = last_or ?As None"
    "dll (attr_sib ?h1) el None ?As None"
    using e unfolding s1 by simp_all
  from attr_unlink_is [OF pre e(6)] obtain m where
    m: "attr_unlink ?h1 el a = Some (?h1\<lparr>attributes := m, elements := (elements ?h1)(el \<mapsto>
       ?e1\<lparr>el_first_attr := hd_or (bs @ cs) None, el_last_attr := last_or (bs @ cs) None\<rparr>)\<rparr>)"
     "dll (attr_sib (?h1\<lparr>attributes := m\<rparr>)) el None (bs @ cs) None"
     "\<forall>b. b \<notin> set ?As \<longrightarrow> m b = attributes h b"
     "\<forall>b y. attributes h b = Some y \<longrightarrow> (\<exists>y'. m b = Some y' \<and> at_value y' = at_value y \<and>
        at_qualified_name y' = at_qualified_name y)"
    by (auto simp del: hd_or_append last_or_append)
  let ?e2 = "?e1\<lparr>el_first_attr := hd_or (bs @ cs) None, el_last_attr := last_or (bs @ cs) None\<rparr>"
  let ?h2 = "h\<lparr>attributes := m, elements := (elements h)(el \<mapsto> ?e2)\<rparr>"
  have h2: "?h1\<lparr>attributes := m, elements := (elements ?h1)(el \<mapsto> ?e2)\<rparr> = ?h2" by simp
  from e(5) obtain x where x: "attributes h a = Some x" "at_owner x = Some el" by (auto simp: attr_sib_def)
  have "node_event (cb_remove lxb_dom_document_node_cbs) h a = Some h"
    using doc by (auto simp: node_event_def owner_doc_def lxb_dom_document_node_cbs_def bind_eq_Some_conv)
  with x unc m(1) have run: "lxb_dom_attr_remove h a = Some ?h2"
    unfolding h2 by (simp add: lxb_dom_attr_remove_def)
  have hid: "has_id ?h2 = has_id h" by (simp add: has_id_def fun_eq_iff)
  have s2: "attr_sib ?h2 = attr_sib (?h1\<lparr>attributes := m\<rparr>)" by (simp add: attr_sib_def fun_eq_iff)
  have "attr_list ?h2 el (bs @ cs)"
    unfolding attr_list_def s2 hid using m(2) e(6,7) by auto
  with run m(3,4) show ?thesis by (intro exI [of _ m] exI [of _ ?e2]) simp
qed

section \<open>What an operation on one attribute leaves alone\<close>

definition names_grow :: "dom \<Rightarrow> dom \<Rightarrow> bool" where
  "names_grow h h' \<longleftrightarrow> (\<forall>t H. hashes h t = Some H \<longrightarrow> attrs_ok H \<longrightarrow>
     (\<exists>H'. hashes h' t = Some H' \<and> attrs_ok H' \<and> hkey H \<subseteq>\<^sub>m hkey H'))"

definition strings_kept_but :: "dom \<Rightarrow> dom \<Rightarrow> text_owner set \<Rightarrow> bool" where
  "strings_kept_but h h' X \<longleftrightarrow> (\<forall>x s cs. x \<notin> X \<longrightarrow> text_of h x = Some s \<longrightarrow>
     str_is (text_arena h) s cs \<longrightarrow> str_is (text_arena h') s cs)"

abbreviation strings_kept :: "dom \<Rightarrow> dom \<Rightarrow> addr \<Rightarrow> bool" where
  "strings_kept h h' a \<equiv> strings_kept_but h h' {Attr_value a}"

text \<open>Only the attribute \<open>a\<close> and the list of the element \<open>el\<close> change.\<close>

definition only_changes :: "dom \<Rightarrow> dom \<Rightarrow> addr \<Rightarrow> addr \<Rightarrow> bool" where
  "only_changes h h' a el \<longleftrightarrow> names_grow h h' \<and> strings_kept h h' a \<and> docs h' = docs h \<and>
     a \<notin> dom (elements h) \<and> a \<notin> dom (docs h) \<and> (\<forall>x. attributes h a = Some x \<longrightarrow> at_owner x = Some el) \<and>
     (\<forall>b. b \<noteq> a \<longrightarrow> nodes h' b = nodes h b) \<and> (\<forall>b. b \<noteq> el \<longrightarrow> elements h' b = elements h b) \<and>
     (\<forall>b. b \<noteq> a \<longrightarrow> (\<forall>x. attributes h b = Some x \<longrightarrow> at_owner x \<noteq> Some el) \<longrightarrow> attributes h' b = attributes h b)"

lemma names_growD:
  "names_grow h h' \<Longrightarrow> hashes h t = Some H \<Longrightarrow> attrs_ok H \<Longrightarrow>
   \<exists>H'. hashes h' t = Some H' \<and> attrs_ok H' \<and> hkey H \<subseteq>\<^sub>m hkey H'"
  by (auto simp: names_grow_def)

lemma strings_keptD:
  "strings_kept h h' a \<Longrightarrow> attributes h b = Some y \<Longrightarrow> b \<noteq> a \<Longrightarrow> at_value y = Some v \<Longrightarrow>
   str_is (text_arena h) v cs \<Longrightarrow> str_is (text_arena h') v cs"
  unfolding strings_kept_but_def by (drule spec [of _ "Attr_value b"]) simp

lemma attr_list_cong:
  assumes "attr_list h el As" and el: "elements h' el = elements h el"
    and sib: "\<And>b. b \<in> set As \<Longrightarrow> attr_sib h' b = attr_sib h b"
    and name: "\<And>b. b \<in> set As \<Longrightarrow> map_option n_local_name (nodes h' b) = map_option n_local_name (nodes h b)"
  shows "attr_list h' el As"
proof -
  have "find (has_id h' i) As = find (has_id h i) As" for i
    using name by (intro find_cong) (auto simp: has_id_def)
  moreover have "dll (attr_sib h') el None As None = dll (attr_sib h) el None As None"
    by (rule dll_cong) (rule sib)
  moreover have "map (\<lambda>a. map_option n_local_name (nodes h' a)) As = map (\<lambda>a. map_option n_local_name (nodes h a)) As"
    by (rule map_cong) (simp_all add: name)
  ultimately show ?thesis using assms(1) unfolding attr_list_def el by (simp only:)
qed

lemma attr_is_frame:
  assumes "attr_is h H b kv" and "map_option n_local_name (nodes h' b) = map_option n_local_name (nodes h b)" and "attributes h b = Some x" and "attributes h' b = Some x'"
    and "at_value x' = at_value x" "at_qualified_name x' = at_qualified_name x"
    and "hkey H \<subseteq>\<^sub>m hkey H'" and "\<And>v cs. at_value x = Some v \<Longrightarrow> str_is (text_arena h) v cs \<Longrightarrow> str_is (text_arena h') v cs"
  shows "attr_is h' H' b kv"
proof -
  from assms(1,3) obtain n where n: "nodes h b = Some n" "local_is H (n_local_name n) (fst kv)"
    "at_qualified_name x = 0 \<or> (\<exists>r. hkey H (at_qualified_name x) = Some r \<and> lower r = fst kv)"
    "case at_value x of None \<Rightarrow> snd kv = None | Some v \<Rightarrow> (\<exists>cs. snd kv = Some cs \<and> str_is (text_arena h) v cs)"
    by (auto simp: attr_is_def)
  from n(3) assms(7) have "at_qualified_name x = 0 \<or> (\<exists>r. hkey H' (at_qualified_name x) = Some r \<and> lower r = fst kv)"
    by (auto simp: map_le_def dom_def)
  moreover from n(4) assms(8) have "case at_value x of None \<Rightarrow> snd kv = None
      | Some v \<Rightarrow> (\<exists>cs. snd kv = Some cs \<and> str_is (text_arena h') v cs)"
    by (auto split: option.splits)
  ultimately show ?thesis using n(1) assms(2,4-6) local_is_mono [OF assms(7) n(2)] by (auto simp: attr_is_def)
qed

lemma attrs_frame:
  assumes "list_all2 (attr_is h H) bs xs" and sk: "strings_kept h h' a" and "hkey H \<subseteq>\<^sub>m hkey H'"
    and b: "\<And>b. b \<in> set bs \<Longrightarrow> b \<noteq> a \<and> nodes h' b = nodes h b"
    and at: "\<And>b x. b \<in> set bs \<Longrightarrow> attributes h b = Some x \<Longrightarrow> \<exists>x'. attributes h' b = Some x' \<and> at_value x' = at_value x \<and>
      at_qualified_name x' = at_qualified_name x"
  shows "list_all2 (attr_is h' H') bs xs"
proof (rule list.rel_mono_strong [OF assms(1)])
  fix c kv assume c: "c \<in> set bs" and i: "attr_is h H c kv"
  from i obtain y where y: "attributes h c = Some y" by (auto simp: attr_is_def)
  from at [OF c y] obtain y' where y': "attributes h' c = Some y'" "at_value y' = at_value y"
    "at_qualified_name y' = at_qualified_name y" by blast
  show "attr_is h' H' c kv"
    by (rule attr_is_frame [OF i _ y y' assms(3) strings_keptD [OF sk y]]) (use b [OF c] in auto)
qed

lemma in_doc_frame:
  assumes "in_doc h el D d H" and "names_grow h h'" and "docs h' = docs h" and "nodes h' el = nodes h el"
    and "nodes h' D = nodes h D"
  shows "\<exists>H'. in_doc h' el D d H' \<and> hkey H \<subseteq>\<^sub>m hkey H'"
  using assms names_growD [OF assms(2)] by (fastforce simp: in_doc_def)

text \<open>Every other element keeps its attributes.\<close>

lemma attrs_are_other:
  assumes c: "only_changes h h' a el" and are: "attrs_are h el' m" and ne: "el' \<noteq> el" and el': "elements h el' \<noteq> None"
  shows "attrs_are h' el' m"
proof -
  from are obtain As D d H where A: "in_doc h el' D d H" "attr_list h el' As"
    "\<forall>b \<in> set As. \<exists>n. nodes h b = Some n \<and> n_owner_document n = D" "list_all2 (attr_is h H) As m"
    by (auto simp: attrs_are_def)
  have own: "\<exists>x. attributes h b = Some x \<and> at_owner x = Some el'" if "b \<in> set As" for b
    using A(2) that attr_dll_Some by (auto simp: attr_list_def)
  have D: "D \<in> dom (docs h)" using A(1) by (auto simp: in_doc_def)
  with c el' have a: "a \<noteq> D" "a \<noteq> el'" by (auto simp: only_changes_def)
  have b: "b \<noteq> a \<and> attributes h' b = attributes h b \<and> nodes h' b = nodes h b" if "b \<in> set As" for b
  proof -
    from own [OF that] obtain x where x: "attributes h b = Some x" "at_owner x = Some el'" by blast
    with c ne have "b \<noteq> a" by (auto simp: only_changes_def)
    with x c ne show ?thesis unfolding only_changes_def by (metis option.inject)
  qed
  have "nodes h' el' = nodes h el'" "nodes h' D = nodes h D" using c a by (auto simp: only_changes_def)
  moreover have "names_grow h h'" "docs h' = docs h" using c by (simp_all add: only_changes_def)
  ultimately obtain H' where H': "in_doc h' el' D d H'" "hkey H \<subseteq>\<^sub>m hkey H'" using in_doc_frame [OF A(1)] by blast
  have "elements h' el' = elements h el'" using c ne by (auto simp: only_changes_def)
  with A(2) b have "attr_list h' el' As" by (intro attr_list_cong [OF A(2)]) (auto simp: attr_sib_def)
  moreover have "list_all2 (attr_is h' H') As m"
    by (rule attrs_frame [OF A(4) _ H'(2)]) (use b c in \<open>auto simp: only_changes_def\<close>)
  ultimately show ?thesis using H'(1) A(3) b unfolding attrs_are_def by metis
qed

section \<open>Strings\<close>

lemma text_ptr_vdata: "text_ptr h x = vdata (text_of h x)"
  by (simp add: text_ptr_def vdata_def)

lemma texts_live: "texts_ok_but h X \<Longrightarrow> vdata (text_of h x) = Some p \<Longrightarrow> \<exists>b. ar_blocks (text_arena h) p = Some b"
  by (auto simp: texts_ok_but_def text_ptr_vdata)

lemma texts_wf: "texts_ok_but h X \<Longrightarrow> ar_wf (text_arena h)"
  by (simp add: texts_ok_but_def)

text \<open>Replacing, adding or freeing the string of one owner.\<close>

lemma texts_replace:
  assumes tx: "texts_ok h" and tof: "\<And>x. x \<noteq> w \<Longrightarrow> text_of h' x = text_of h x" and wf: "ar_wf (text_arena h')"
    and vb: "value_blocks (ar_blocks (text_arena h)) (text_of h w) (ar_blocks (text_arena h')) (text_of h' w)"
  shows "strings_kept_but h h' {w}"
    and "(\<And>v p. text_of h' w = Some v \<Longrightarrow> str_data v = Some p \<Longrightarrow> \<exists>cs. str_is (text_arena h') v cs) \<Longrightarrow> texts_ok h'"
proof -
  let ?B = "ar_blocks (text_arena h)" and ?B' = "ar_blocks (text_arena h')"
  let ?v = "vdata (text_of h w)" and ?v' = "vdata (text_of h' w)"
  have same: "?B' p = ?B p \<and> ?v' \<noteq> Some p" if "x \<noteq> w" "vdata (text_of h x) = Some p" for x p
  proof -
    have "?v \<noteq> Some p" using tx that by (auto simp: texts_ok_but_def text_ptr_vdata)
    moreover have "?v' \<noteq> Some p" using vb calculation texts_live [OF tx that(2)] by (auto simp: value_blocks_def)
    ultimately show ?thesis using vb by (simp add: value_blocks_def)
  qed
  show kept: "strings_kept_but h h' {w}"
    unfolding strings_kept_but_def
  proof (intro allI impI)
    fix x s cs assume x: "x \<notin> {w}" "text_of h x = Some s" "str_is (text_arena h) s cs"
    then have "vdata (text_of h x) = str_data s" by (simp add: vdata_def)
    with same x(1,3) show "str_is (text_arena h') s cs" by (auto simp: str_is_def)
  qed
  assume own: "\<And>v p. text_of h' w = Some v \<Longrightarrow> str_data v = Some p \<Longrightarrow> \<exists>cs. str_is (text_arena h') v cs"
  have "\<exists>cs. str_is (text_arena h') s cs" if "text_of h' x = Some s" "str_data s = Some p" for x s p
  proof (cases "x = w")
    case False
    with that(1) tof have t: "text_of h x = Some s" by simp
    with tx that(2) obtain cs where "str_is (text_arena h) s cs" unfolding texts_ok_but_def by blast
    with kept False t show ?thesis unfolding strings_kept_but_def by blast
  qed (use own that in blast)
  moreover have "?B' p \<noteq> None" if "vdata (text_of h' x) = Some p" for x p
  proof (cases "x = w")
    case True
    with that vb show ?thesis by (auto simp: value_blocks_def)
  next
    case False
    then have "vdata (text_of h x) = Some p" using that tof by simp
    with same [OF False] texts_live [OF tx] show ?thesis by fastforce
  qed
  moreover have "x = y" if "vdata (text_of h' x) = Some p" "vdata (text_of h' y) = Some p" for x y p
  proof -
    have ne: "\<not> (z \<noteq> w \<and> vdata (text_of h' z) = Some p \<and> ?v' = Some p)" for z
      using same [of z p] tof [of z] by auto
    then have "x = w \<longleftrightarrow> y = w" using that by metis
    moreover have "x = y" if "x \<noteq> w" "y \<noteq> w"
    proof -
      have "vdata (text_of h x) = Some p" "vdata (text_of h y) = Some p" using that tof \<open>vdata (text_of h' x) = Some p\<close>
        \<open>vdata (text_of h' y) = Some p\<close> by auto
      with tx show ?thesis unfolding texts_ok_but_def text_ptr_vdata by blast
    qed
    ultimately show ?thesis by blast
  qed
  ultimately show "texts_ok h'" using wf unfolding texts_ok_but_def text_ptr_vdata by blast
qed

lemma value_blocks_free:
  assumes "value_blocks B v B' v'"
  shows "value_blocks B v (case vdata v' of None \<Rightarrow> B' | Some p \<Rightarrow> B'(p := None)) None"
  using assms by (auto simp: value_blocks_def vdata_def split: option.splits)

text \<open>Destroying an attribute frees its string.\<close>

lemma attr_destroy_is:
  assumes at: "attributes h a = Some at" and doc: "owner_doc h a \<noteq> None" and wf: "ar_wf (text_arena h)"
    and live: "\<And>p. vdata (at_value at) = Some p \<Longrightarrow> \<exists>b. ar_blocks (text_arena h) p = Some b"
  shows "\<exists>A. lxb_dom_attr_interface_destroy h a = Some ((obj_gone h a)\<lparr>text_arena := A\<rparr>) \<and> ar_wf A \<and>
     ar_blocks A = (case vdata (at_value at) of None \<Rightarrow> ar_blocks (text_arena h) | Some p \<Rightarrow> (ar_blocks (text_arena h))(p := None))"
proof -
  from doc obtain n d where n: "nodes h a = Some n" "docs h (n_owner_document n) = Some d" by (auto simp: owner_doc_def bind_eq_Some_conv)
  then have d: "lxb_dom_node_interface_destroy h a = Some (obj_gone h a)"
    by (simp add: lxb_dom_node_interface_destroy_def node_event_def lxb_dom_document_node_cbs_def obj_free_def)
  have A: "text_arena (obj_gone h a) = text_arena h" by (simp add: obj_gone_def)
  show ?thesis
  proof (cases "vdata (at_value at)")
    case None
    with at d have "lxb_dom_attr_interface_destroy h a = Some (obj_gone h a)"
      by (auto simp: lxb_dom_attr_interface_destroy_def vdata_def split: option.splits)
    with None wf A show ?thesis by (intro exI [of _ "text_arena h"]) (simp add: obj_gone_def)
  next
    case (Some p)
    with live obtain b where b: "ar_blocks (text_arena h) p = Some b" by blast
    from Some obtain v where v: "at_value at = Some v" "str_data v = Some p" by (auto simp: vdata_def bind_eq_Some_conv)
    let ?A = "text_arena h\<lparr>ar_blocks := (ar_blocks (text_arena h))(p := None)\<rparr>"
    have "lxb_dom_attr_interface_destroy h a = Some ((obj_gone h a)\<lparr>text_arena := ?A\<rparr>)"
      using at d v b by (simp add: lxb_dom_attr_interface_destroy_def free_text_def A lexbor_mraw_free_def)
    moreover have "ar_wf ?A" using wf by (auto simp: ar_wf_def)
    ultimately show ?thesis using Some by auto
  qed
qed

text \<open>An HTML element of an HTML document: its attribute names are in lower case.\<close>

definition html_element :: "dom \<Rightarrow> addr \<Rightarrow> bool" where
  "html_element h el \<longleftrightarrow> elements h el \<noteq> None \<and>
     (\<exists>n d. nodes h el = Some n \<and> docs h (n_owner_document n) = Some d \<and> lower_case_names n d)"

definition same_elements :: "dom \<Rightarrow> dom \<Rightarrow> bool" where
  "same_elements h h' \<longleftrightarrow> dom (elements h') = dom (elements h) \<and> (\<forall>el. html_element h' el = html_element h el)"

lemma same_elements_I:
  assumes "dom (elements h') = dom (elements h)" and "docs h' = docs h"
    and "\<And>el. elements h el \<noteq> None \<Longrightarrow> nodes h' el = nodes h el"
  shows "same_elements h h'"
proof -
  have "elements h' el \<noteq> None \<longleftrightarrow> elements h el \<noteq> None" for el using assms(1) by blast
  with assms show ?thesis unfolding same_elements_def html_element_def by metis
qed

section \<open>Replacing a value\<close>

lemma attrs_wf_I:
  assumes wf: "attrs_wf h M" and c: "only_changes h h' a el" and "texts_ok h'" "heap_typed h'"
    and "\<And>b. elements h' b \<noteq> None \<longleftrightarrow> elements h b \<noteq> None" and "attrs_are h' el m"
  shows "attrs_wf h' (M(el := m))"
  using assms attrs_are_other [OF c] unfolding attrs_wf_def by (auto simp: dom_def)

lemma heap_typed_attr:
  assumes "heap_typed h" and "\<And>b. (attributes h' b = None) = (attributes h b = None)" and "nodes h' = nodes h"
    and "\<And>b. (elements h' b = None) = (elements h b = None)" and "same_other_structs h h'" and "docs h' = docs h"
    and "obj_fresh h \<le> obj_fresh h'"
  shows "heap_typed h'"
  by (rule heap_typed_frame [OF assms(1,7)]) (use assms in \<open>simp add: same_structs_def\<close>)

text \<open>An element with its list, as the proofs take it apart.\<close>

definition el_at :: "dom \<Rightarrow> addr \<Rightarrow> addr list \<Rightarrow> addr \<Rightarrow> lxb_dom_document \<Rightarrow> lexbor_hash \<Rightarrow> (bytes \<times> bytes option) list \<Rightarrow> bool" where
  "el_at h el As D d H m \<longleftrightarrow> in_doc h el D d H \<and> attr_list h el As \<and>
     (\<forall>a \<in> set As. \<exists>n. nodes h a = Some n \<and> n_owner_document n = D) \<and> list_all2 (attr_is h H) As m"

lemma attrs_are_el_at: "attrs_are h el m \<longleftrightarrow> (\<exists>As D d H. el_at h el As D d H m)"
  by (simp add: attrs_are_def el_at_def)

lemma el_at_attr:
  assumes "el_at h el As D d H m" and "a \<in> set As" and "heap_typed h"
  shows "\<exists>x. attributes h a = Some x \<and> at_owner x = Some el" "owner_doc h a = Some d" "a \<notin> dom (elements h)" "a \<notin> dom (docs h)"
proof -
  show x: "\<exists>x. attributes h a = Some x \<and> at_owner x = Some el"
    using assms(1,2) attr_dll_Some by (auto simp: el_at_def attr_list_def)
  from assms(1,2) obtain n where n: "nodes h a = Some n" "n_owner_document n = D" "docs h D = Some d"
    by (auto simp: el_at_def in_doc_def)
  then show "owner_doc h a = Some d" by (simp add: owner_doc_def)
  have "kind_ok h a n" using assms(3) n(1) by (auto simp: heap_typed_def split: option.splits)
  with x show "a \<notin> dom (elements h)" "a \<notin> dom (docs h)" by (auto simp: kind_ok_def)
qed

lemma names_grow_same: "hashes h' = hashes h \<Longrightarrow> names_grow h h'"
  by (simp add: names_grow_def)

lemma in_doc_cong: "nodes h' = nodes h \<Longrightarrow> docs h' = docs h \<Longrightarrow> hashes h' = hashes h \<Longrightarrow> in_doc h' el D d H = in_doc h el D d H"
  by (simp add: in_doc_def)

text \<open>Setting the value of an attribute in the list of \<open>el\<close>.\<close>

definition gone_only :: "dom \<Rightarrow> dom \<Rightarrow> addr \<Rightarrow> bool" where
  "gone_only h h' a \<longleftrightarrow> nodes h' = (nodes h)(a := None) \<and> attributes h' = (attributes h)(a := None) \<and>
     elements h' = elements h \<and> docs h' = docs h \<and> hashes h' = hashes h"

lemma set_value_in_list:
  assumes wf: "attrs_wf h M" and el: "el_at h el (bs @ a # cs) D d H (xs @ (k, v) # ys)"
    and len: "length bs = length xs" and n: "length value < 2 ^ 62"
  shows "\<exists>st h'. lxb_dom_attr_set_value h a value = Some (st, h') \<and>
     (if st = LXB_STATUS_OK then attrs_wf h' (M(el := xs @ (k, Some value) # ys)) \<and> same_elements h h'
      else \<exists>h''. lxb_dom_attr_interface_destroy h' a = Some h'' \<and> gone_only h h'' a)"
proof -
  have tx: "texts_ok h" and ty: "heap_typed h" using wf by (auto simp: attrs_wf_def)
  note a = el_at_attr [OF el _ ty, of a, simplified]
  then obtain x where x: "attributes h a = Some x" "at_owner x = Some el" by blast
  have vd: "text_of h (Attr_value a) = at_value x" using x by simp
  have live: "\<exists>b. ar_blocks (text_arena h) p = Some b" if "vdata (at_value x) = Some p" for p
    using texts_live [OF tx] that vd by metis
  from set_value_is [OF x(1) _ live texts_wf [OF tx] n] a(2) obtain st w A reqs fresh where
    r: "lxb_dom_attr_set_value h a value = Some (st, h\<lparr>text_arena := A, obj_reqs := reqs,
      obj_fresh := fresh, attributes := (attributes h)(a \<mapsto> x\<lparr>at_value := w\<rparr>)\<rparr>)" "obj_fresh h \<le> fresh" "ar_wf A"
      "value_blocks (ar_blocks (text_arena h)) (at_value x) (ar_blocks A) w"
      "if st = LXB_STATUS_OK then \<exists>v. w = Some v \<and> str_is A v value else st = LXB_STATUS_ERROR_MEMORY_ALLOCATION"
    by auto
  let ?h = "h\<lparr>text_arena := A, obj_reqs := reqs, obj_fresh := fresh, attributes := (attributes h)(a \<mapsto> x\<lparr>at_value := w\<rparr>)\<rparr>"
  have tof: "text_of ?h z = text_of h z" if "z \<noteq> Attr_value a" for z using that by (cases z) auto
  have vb: "value_blocks (ar_blocks (text_arena h)) (text_of h (Attr_value a)) (ar_blocks (text_arena ?h)) (text_of ?h (Attr_value a))"
    using r(4) vd by simp
  note t = texts_replace [OF tx tof _ vb]
  have sk: "strings_kept h ?h a" using t(1) r(3) by simp
  have c: "only_changes h ?h a el"
    using sk a x by (auto simp: only_changes_def names_grow_same)
  have "attrs_wf ?h (M(el := xs @ (k, Some value) # ys)) \<and> same_elements h ?h" if ok: "st = LXB_STATUS_OK"
  proof
    from r(5) ok obtain u where u: "w = Some u" "str_is A u value" by auto
    have "attrs_are ?h el (xs @ (k, Some value) # ys)"
    proof -
      have l: "attr_is h H a (k, v)" "list_all2 (attr_is h H) bs xs" "list_all2 (attr_is h H) cs ys"
        using el len by (auto simp: el_at_def list_all2_append)
      have ne: "b \<noteq> a" if "b \<in> set bs \<union> set cs" for b using el that by (auto simp: el_at_def attr_list_def)
      have "list_all2 (attr_is ?h H) bs xs" by (rule attrs_frame [OF l(2) sk]) (use ne in auto)
      moreover have "list_all2 (attr_is ?h H) cs ys" by (rule attrs_frame [OF l(3) sk]) (use ne in auto)
      moreover have "attr_is ?h H a (k, Some value)" using l(1) x u by (auto simp: attr_is_def)
      ultimately have "list_all2 (attr_is ?h H) (bs @ a # cs) (xs @ (k, Some value) # ys)"
        by (auto intro!: list_all2_appendI)
      moreover have "attr_list ?h el (bs @ a # cs)"
        by (rule attr_list_cong [of h]) (use el x in \<open>auto simp: el_at_def attr_sib_def\<close>)
      ultimately show ?thesis using el unfolding attrs_are_el_at el_at_def
        by (intro exI [of _ "bs @ a # cs"] exI [of _ D] exI [of _ d] exI [of _ H]) (auto simp: in_doc_def)
    qed
    moreover have "texts_ok ?h" using t(2) r(3) u by auto
    moreover have "heap_typed ?h" by (rule heap_typed_attr [OF ty]) (use x r(2) in auto)
    ultimately show "attrs_wf ?h (M(el := xs @ (k, Some value) # ys))" by (intro attrs_wf_I [OF wf c]) simp_all
    show "same_elements h ?h" by (rule same_elements_I) simp_all
  qed
  moreover have "\<exists>h''. lxb_dom_attr_interface_destroy ?h a = Some h'' \<and> gone_only h h'' a"
  proof -
    have doc: "owner_doc ?h a = Some d" using a(2) by (simp add: owner_doc_def)
    have pre: "attributes ?h a = Some (x\<lparr>at_value := w\<rparr>)" "owner_doc ?h a \<noteq> None" "ar_wf (text_arena ?h)"
      using doc r(3) by simp_all
    have "\<exists>b. ar_blocks (text_arena ?h) p = Some b" if "vdata (at_value (x\<lparr>at_value := w\<rparr>)) = Some p" for p
      using r(4) that by (auto simp: value_blocks_def)
    from attr_destroy_is [OF pre this] obtain B where
      B: "lxb_dom_attr_interface_destroy ?h a = Some ((obj_gone ?h a)\<lparr>text_arena := B\<rparr>)" by blast
    have un: "c(a := None) = c" if "a \<notin> dom c" for c :: "addr \<rightharpoonup> 'z" using that by auto
    have "gone_only h ((obj_gone ?h a)\<lparr>text_arena := B\<rparr>) a"
      using un [OF a(3)] un [OF a(4)] by (simp add: gone_only_def obj_gone_def)
    with B show ?thesis by blast
  qed
  ultimately show ?thesis using r(1) by (cases "st = LXB_STATUS_OK") (auto simp del: fun_upd_apply)
qed

section \<open>A new attribute\<close>

lemma attrs_wf_unchanged:
  assumes "attrs_wf h M" and "only_changes h h' a a" and "texts_ok h'" and "heap_typed h'" and "elements h' = elements h"
  shows "attrs_wf h' M"
proof -
  have "attrs_are h' el (M el)" if "el \<in> dom (elements h)" for el
  proof (rule attrs_are_other [OF assms(2)])
    show "attrs_are h el (M el)" using assms(1) that by (simp add: attrs_wf_def)
    show "el \<noteq> a" using assms(2) that by (auto simp: only_changes_def)
  qed (use that in auto)
  with assms(3-5) show ?thesis by (simp add: attrs_wf_def)
qed

text \<open>A state that differs from \<open>h\<close> in an unlinked attribute \<open>a\<close>, at a fresh address, and in the names.\<close>

definition with_new :: "dom \<Rightarrow> addr \<Rightarrow> lxb_dom_node \<Rightarrow> lxb_dom_attr \<Rightarrow> arena \<Rightarrow> (addr \<rightharpoonup> lexbor_hash) \<Rightarrow> nat \<Rightarrow> nat \<Rightarrow> dom" where
  "with_new h a n x A hs reqs fresh = h\<lparr>nodes := (nodes h)(a \<mapsto> n), attributes := (attributes h)(a \<mapsto> x),
     text_arena := A, hashes := hs, obj_reqs := reqs, obj_fresh := fresh\<rparr>"

definition new_ok :: "dom \<Rightarrow> addr \<Rightarrow> lxb_dom_node \<Rightarrow> lxb_dom_attr \<Rightarrow> arena \<Rightarrow> (addr \<rightharpoonup> lexbor_hash) \<Rightarrow> nat \<Rightarrow> bool" where
  "new_ok h a n x A hs fresh \<longleftrightarrow> nodes h a = None \<and> n_type n = LXB_DOM_NODE_TYPE_ATTRIBUTE \<and>
     docs h (n_owner_document n) \<noteq> None \<and> ar_wf A \<and> a < fresh \<and> obj_fresh h \<le> fresh \<and>
     names_grow h (h\<lparr>hashes := hs\<rparr>) \<and>
     value_blocks (ar_blocks (text_arena h)) None (ar_blocks A) (at_value x)"

lemma destroy_new:
  assumes wf: "attrs_wf h M" and ok: "new_ok h a n x A hs fresh"
  shows "\<exists>h'. lxb_dom_attr_interface_destroy (with_new h a n x A hs reqs fresh) a = Some h' \<and> attrs_wf h' M \<and> same_elements h h'"
proof -
  let ?h = "with_new h a n x A hs reqs fresh"
  have tx: "texts_ok h" and ty: "heap_typed h" using wf by (auto simp: attrs_wf_def)
  note absent = fresh_absent [OF ty]
  have a: "elements h a = None" "attributes h a = None" "docs h a = None" "chardata h a = None" "pi_targets h a = None"
    "doctypes h a = None" "fragment_hosts h a = None" "template_contents h a = None" "nodes h a = None"
    using ok absent by (auto simp: new_ok_def)
  have pre: "attributes ?h a = Some x" "owner_doc ?h a \<noteq> None" "ar_wf (text_arena ?h)"
    using ok by (auto simp: new_ok_def with_new_def owner_doc_def)
  have live: "\<exists>b. ar_blocks (text_arena ?h) p = Some b" if "vdata (at_value x) = Some p" for p
    using ok that by (auto simp: new_ok_def with_new_def value_blocks_def)
  have A: "text_arena ?h = A" by (simp add: with_new_def)
  from attr_destroy_is [OF pre live, unfolded A] obtain A' where r: "lxb_dom_attr_interface_destroy ?h a = Some ((obj_gone ?h a)\<lparr>text_arena := A'\<rparr>)"
    "ar_wf A'" "ar_blocks A' = (case vdata (at_value x) of None \<Rightarrow> ar_blocks A | Some p \<Rightarrow> (ar_blocks A)(p := None))"
    by blast
  let ?g = "(obj_gone ?h a)\<lparr>text_arena := A'\<rparr>"
  have un: "m(a := None) = m" if "m a = None" for m :: "addr \<rightharpoonup> 'z" using that by auto
  have g: "nodes ?g = nodes h" "elements ?g = elements h" "attributes ?g = attributes h" "same_other_structs h ?g"
    "docs ?g = docs h" "hashes ?g = hs" "obj_fresh ?g = fresh" "text_arena ?g = A'"
    using a by (auto simp: obj_gone_def with_new_def un)
  have tof: "text_of ?g z = text_of h z" for z by (cases z) (simp_all add: g)
  have "value_blocks (ar_blocks (text_arena h)) None (ar_blocks A') None"
    using value_blocks_free [of "ar_blocks (text_arena h)" None "ar_blocks A" "at_value x"] ok r(3) by (simp add: new_ok_def)
  then have vb: "value_blocks (ar_blocks (text_arena h)) (text_of h (Attr_value a)) (ar_blocks (text_arena ?g)) (text_of ?g (Attr_value a))"
    unfolding tof g(8) using a(2) by simp
  note t = texts_replace [OF tx tof _ vb]
  have sk: "strings_kept h ?g a" using t(1) r(2) by (simp add: g)
  have "names_grow h ?g" using ok by (auto simp: new_ok_def names_grow_def g)
  with sk have "only_changes h ?g a a" using a by (auto simp: only_changes_def g dom_def)
  moreover have "texts_ok ?g" using t(2) r(2) a(2) by (simp add: g tof del: text_of.simps) simp
  moreover have "heap_typed ?g" by (rule heap_typed_attr [OF ty]) (use ok in \<open>auto simp: g new_ok_def\<close>)
  ultimately have "attrs_wf ?g M" by (rule attrs_wf_unchanged [OF wf]) (rule g)
  moreover have "same_elements h ?g" by (rule same_elements_I) (simp_all add: g)
  ultimately show ?thesis using r(1) by blast
qed

lemma append_new:
  assumes wf: "attrs_wf h M" and el: "el_at h el As D d H m" and ok: "new_ok h a n x A hs fresh"
    and n: "n_owner_document n = D" "local_is H' (n_local_name n) k" and k: "k \<notin> fst ` set m"
    and x: "at_prev x = None" "at_next x = None" "at_qualified_name x = 0" "at_value x = Some v" "str_is A v cs"
    and H': "hs (doc_attrs d) = Some H'" "attrs_ok H'" "hkey H \<subseteq>\<^sub>m hkey H'"
  shows "\<exists>h'. lxb_dom_element_attr_append (with_new h a n x A hs reqs fresh) el a = Some (LXB_STATUS_OK, h') \<and>
     attrs_wf h' (M(el := m @ [(k, Some cs)])) \<and> same_elements h h'"
proof -
  let ?h = "with_new h a n x A hs reqs fresh"
  have tx: "texts_ok h" and ty: "heap_typed h" using wf by (auto simp: attrs_wf_def)
  have a: "elements h a = None" "attributes h a = None" "docs h a = None" "chardata h a = None" "pi_targets h a = None"
    "doctypes h a = None" "fragment_hosts h a = None" "template_contents h a = None" "nodes h a = None"
    using ok fresh_absent [OF ty, of a] by (auto simp: new_ok_def)
  note w = with_new_def
  from el obtain e N where e: "elements h el = Some e" and N: "nodes h el = Some N" "n_owner_document N = D" "docs h D = Some d"
    "hashes h (doc_attrs d) = Some H" "attrs_ok H"
    by (auto simp: el_at_def attr_list_def in_doc_def)
  have As: "b \<noteq> a \<and> nodes ?h b = nodes h b \<and> attributes ?h b = attributes h b" if "b \<in> set As" for b
    using el_at_attr(1) [OF el that ty] a(2) by (auto simp: w)
  then have aAs: "a \<notin> set As" by blast
  have al: "attr_list ?h el As"
    by (rule attr_list_cong [of h]) (use el As in \<open>auto simp: el_at_def attr_sib_def w\<close>)
  have "\<not> has_id ?h (n_local_name n) b" if b: "b \<in> set As" for b
  proof
    assume i: "has_id ?h (n_local_name n) b"
    from el b all2_left [of "attr_is h H" As m b] obtain kv where kv: "kv \<in> set m" "attr_is h H b kv" by (auto simp: el_at_def)
    then have "local_is H (n_local_name n) (fst kv)" using i As [OF b] by (auto simp: attr_is_def has_id_def)
    then have "fst kv = k" using local_is_mono [OF H'(3)] local_is_fun n(2) by blast
    with kv(1) k show False by force
  qed
  then have ids: "\<forall>b \<in> set As. \<not> has_id ?h (n_local_name n) b" by blast
  have pre: "elements ?h el = Some e" "attributes ?h a = Some x" "nodes ?h a = Some n" "owner_doc ?h el \<noteq> None"
    using e N a by (auto simp: w owner_doc_def)
  from attr_append_is [OF al pre(1) aAs pre(2) x(1,2) pre(3) ids pre(4)] obtain at e' where
    r: "lxb_dom_element_attr_append ?h el a = Some (LXB_STATUS_OK, ?h\<lparr>attributes := at, elements := (elements ?h)(el \<mapsto> e')\<rparr>)"
      "el_is_value e' = el_is_value e" "attr_list (?h\<lparr>attributes := at, elements := (elements ?h)(el \<mapsto> e')\<rparr>) el (As @ [a])"
      "\<forall>b. b \<notin> insert a (set As) \<longrightarrow> at b = attributes ?h b"
      "\<forall>b y. attributes ?h b = Some y \<longrightarrow> (\<exists>y'. at b = Some y' \<and> at_value y' = at_value y \<and>
        at_qualified_name y' = at_qualified_name y)" by blast
  let ?g = "?h\<lparr>attributes := at, elements := (elements ?h)(el \<mapsto> e')\<rparr>"
  have g: "nodes ?g = (nodes h)(a \<mapsto> n)" "elements ?g = (elements h)(el \<mapsto> e')" "attributes ?g = at" "same_other_structs h ?g"
    "docs ?g = docs h" "hashes ?g = hs" "obj_fresh ?g = fresh" "text_arena ?g = A"
    by (simp_all add: w)
  have at: "(case at b of None \<Rightarrow> None | Some y \<Rightarrow> at_value y) = (case attributes ?h b of None \<Rightarrow> None | Some y \<Rightarrow> at_value y) \<and>
      (at b = None \<longleftrightarrow> attributes ?h b = None)" for b
  proof (cases "attributes ?h b")
    case None
    have "b \<notin> insert a (set As)" using None pre(2) el_at_attr(1) [OF el _ ty, of b] As [of b] by auto
    with r(4) None show ?thesis by simp
  next
    case (Some y)
    with r(5) obtain y' where "at b = Some y'" "at_value y' = at_value y" by blast
    with Some show ?thesis by simp
  qed
  have tof: "text_of ?g z = text_of h z" if "z \<noteq> Attr_value a" for z
  proof (cases z)
    case (Attr_value b)
    then have "b \<noteq> a" using that by simp
    then have "attributes ?h b = attributes h b" by (simp add: w)
    with at [of b] Attr_value show ?thesis by (auto simp: g split: option.splits)
  qed (use e r(2) in \<open>auto simp: g\<close>)
  have ta: "text_of ?g (Attr_value a) = Some v" using at [of a] pre(2) x(4) by (auto simp: g split: option.splits)
  have "value_blocks (ar_blocks (text_arena h)) (text_of h (Attr_value a)) (ar_blocks (text_arena ?g)) (text_of ?g (Attr_value a))"
    unfolding ta g(8) using a(2) ok x(4) by (simp add: new_ok_def)
  note t = texts_replace [OF tx tof _ this]
  have sk: "strings_kept h ?g a" using t(1) ok by (simp add: g new_ok_def)
  have tok: "texts_ok ?g"
    by (rule t(2)) (use ok x(5) ta in \<open>auto simp: g new_ok_def simp del: text_of.simps\<close>)
  have other: "at b = attributes h b" if "b \<noteq> a" "\<forall>y. attributes h b = Some y \<longrightarrow> at_owner y \<noteq> Some el" for b
  proof -
    have "b \<notin> set As" using el_at_attr(1) [OF el _ ty, of b] that(2) by auto
    with r(4) that(1) have "at b = attributes ?h b" by blast
    with that(1) show ?thesis by (simp add: w)
  qed
  have c: "only_changes h ?g a el"
    unfolding only_changes_def
  proof (intro conjI)
    show "names_grow h ?g" using ok by (simp add: new_ok_def names_grow_def g)
    show "\<forall>b. b \<noteq> a \<longrightarrow> (\<forall>y. attributes h b = Some y \<longrightarrow> at_owner y \<noteq> Some el) \<longrightarrow> attributes ?g b = attributes h b"
      using other by (simp add: g)
  qed (use sk a in \<open>simp_all add: g dom_def\<close>)
  have none: "at b = None \<longleftrightarrow> b \<noteq> a \<and> attributes h b = None" for b using at [of b] by (auto simp: w)
  have typed: "heap_typed ?g"
  proof (rule heap_typed_frame [OF ty])
    show "obj_fresh h \<le> obj_fresh ?g" using ok by (simp add: new_ok_def g)
  next
    fix b
    show "same_structs h ?g b \<or> (case nodes ?g b of None \<Rightarrow> no_struct ?g b | Some n \<Rightarrow> kind_ok ?g b n \<and> b < obj_fresh ?g)"
    proof (cases "b = a")
      case True
      have "el \<noteq> a" "at a \<noteq> None" using e a(1) none [of a] by auto
      moreover have "n_type n = LXB_DOM_NODE_TYPE_ATTRIBUTE" "a < fresh" using ok by (auto simp: new_ok_def)
      ultimately show ?thesis using True a by (simp add: g kind_ok_def CHARDATA_TYPES_def)
    next
      case False
      then show ?thesis using none [of b] e by (simp add: g same_structs_def)
    qed
  qed
  have "attrs_are ?g el (m @ [(k, Some cs)])"
  proof -
    have "list_all2 (attr_is ?g H') As m"
    proof (rule attrs_frame [OF _ sk H'(3)])
      show "list_all2 (attr_is h H) As m" using el by (simp add: el_at_def)
      show "b \<noteq> a \<and> nodes ?g b = nodes h b" if "b \<in> set As" for b using As [OF that] by (simp add: g)
      show "\<exists>y'. attributes ?g b = Some y' \<and> at_value y' = at_value y \<and> at_qualified_name y' = at_qualified_name y"
        if "b \<in> set As" "attributes h b = Some y" for b y using r(5) As [OF that(1)] that(2) by (simp add: g)
    qed
    moreover have "attr_is ?g H' a (k, Some cs)"
    proof -
      from r(5) pre(2) obtain x' where "at a = Some x'" "at_value x' = at_value x" "at_qualified_name x' = at_qualified_name x" by blast
      then show ?thesis using x n(2) by (simp add: attr_is_def g)
    qed
    moreover have "in_doc ?g el D d H'" "\<forall>b \<in> set (As @ [a]). \<exists>n. nodes ?g b = Some n \<and> n_owner_document n = D"
      using el a N n(1) H' As by (auto simp: el_at_def in_doc_def g)
    ultimately show ?thesis using r(3) unfolding attrs_are_el_at el_at_def
      by (intro exI [of _ "As @ [a]"] exI [of _ D] exI [of _ d] exI [of _ H']) (simp add: list_all2_appendI)
  qed
  then have "attrs_wf ?g (M(el := m @ [(k, Some cs)]))"
    by (intro attrs_wf_I [OF wf c tok typed]) (use e in \<open>auto simp: g\<close>)
  moreover have "same_elements h ?g" by (rule same_elements_I) (use e a in \<open>auto simp: g\<close>)
  ultimately show ?thesis using r(1) by blast
qed

section \<open>Setting an attribute\<close>

lemma set_name_new:
  assumes d: "docs h (n_owner_document n) = Some d" and H: "hs (doc_attrs d) = Some H" "attrs_ok H"
    and len: "length name < 2 ^ 62"
  shows "\<exists>st i H'. lxb_dom_attr_set_name (with_new h a n x A hs reqs fresh) a name True =
       Some (st, with_new h a (n\<lparr>n_local_name := i\<rparr>) x A (hs(doc_attrs d \<mapsto> H')) reqs fresh) \<and>
     attrs_ok H' \<and> hkey H \<subseteq>\<^sub>m hkey H' \<and> (st = LXB_STATUS_OK \<longrightarrow> name \<noteq> [] \<and> local_is H' i (lower name))"
proof (cases "name = []")
  case True
  have "n\<lparr>n_local_name := n_local_name n\<rparr> = n" by simp
  with True d H show ?thesis
    by (intro exI [of _ LXB_STATUS_ERROR_MEMORY_ALLOCATION] exI [of _ "n_local_name n"] exI [of _ H])
      (simp add: lxb_dom_attr_set_name_def with_new_def owner_doc_def lxb_dom_attr_local_name_append_def fun_upd_idem)
next
  case False
  from local_name_append_is [OF H(2) len False] obtain r H' where
    i: "lxb_dom_attr_local_name_append H (Some name) = Some (r, H')" "attrs_ok H'" "hkey H \<subseteq>\<^sub>m hkey H'"
      "case r of None \<Rightarrow> hkey H' = hkey H \<and> (\<forall>i. \<not> local_is H i (lower name))
       | Some p \<Rightarrow> \<exists>i. ptr_id lxb_dom_attr_res_data_default H' p = Some i \<and> local_is H' i (lower name)" by blast
  have n: "n\<lparr>n_local_name := n_local_name n\<rparr> = n" by simp
  show ?thesis
  proof (cases r)
    case None
    with i d H n show ?thesis
      by (intro exI [of _ LXB_STATUS_ERROR_MEMORY_ALLOCATION] exI [of _ "n_local_name n"] exI [of _ H'])
        (simp add: lxb_dom_attr_set_name_def with_new_def owner_doc_def)
  next
    case (Some p)
    with i(4) obtain j where j: "ptr_id lxb_dom_attr_res_data_default H' p = Some j" "local_is H' j (lower name)" by auto
    with Some i(1-3) d H False show ?thesis
      by (intro exI [of _ LXB_STATUS_OK] exI [of _ j] exI [of _ H'])
        (simp add: lxb_dom_attr_set_name_def with_new_def owner_doc_def wr_node_def)
  qed
qed

text \<open>Setting the value of the new attribute.\<close>

lemma set_value_new:
  assumes wf: "attrs_wf h M" and ok: "new_ok h a n x (text_arena h) hs fresh" and x: "at_value x = None"
    and len: "length value < 2 ^ 62"
  shows "\<exists>st A w reqs' fresh'. lxb_dom_attr_set_value (with_new h a n x (text_arena h) hs reqs fresh) a value =
       Some (st, with_new h a n (x\<lparr>at_value := w\<rparr>) A hs reqs' fresh') \<and>
     new_ok h a n (x\<lparr>at_value := w\<rparr>) A hs fresh' \<and> (st = LXB_STATUS_OK \<longrightarrow> (\<exists>v. w = Some v \<and> str_is A v value))"
proof -
  let ?h = "with_new h a n x (text_arena h) hs reqs fresh"
  have tx: "texts_ok h" using wf by (simp add: attrs_wf_def)
  have pre: "attributes ?h a = Some x" "owner_doc ?h a \<noteq> None" "ar_wf (text_arena ?h)"
    using ok by (auto simp: new_ok_def with_new_def owner_doc_def)
  have live: "\<exists>b. ar_blocks (text_arena ?h) p = Some b" if "vdata (at_value x) = Some p" for p
    using that x by (simp add: vdata_def)
  from set_value_is [OF pre(1,2) live pre(3) len] obtain st w A reqs' fresh' where
    r: "lxb_dom_attr_set_value ?h a value = Some (st, ?h\<lparr>text_arena := A, obj_reqs := reqs',
        obj_fresh := fresh', attributes := (attributes ?h)(a \<mapsto> x\<lparr>at_value := w\<rparr>)\<rparr>)" "obj_fresh ?h \<le> fresh'" "ar_wf A"
      "value_blocks (ar_blocks (text_arena ?h)) (at_value x) (ar_blocks A) w"
      "if st = LXB_STATUS_OK then \<exists>v. w = Some v \<and> str_is A v value else st = LXB_STATUS_ERROR_MEMORY_ALLOCATION"
    by blast
  have h: "?h\<lparr>text_arena := A, obj_reqs := reqs', obj_fresh := fresh', attributes := (attributes ?h)(a \<mapsto> x\<lparr>at_value := w\<rparr>)\<rparr> =
      with_new h a n (x\<lparr>at_value := w\<rparr>) A hs reqs' fresh'" by (simp add: with_new_def)
  moreover have "new_ok h a n (x\<lparr>at_value := w\<rparr>) A hs fresh'"
    using ok r(2-4) x by (auto simp: new_ok_def with_new_def)
  moreover have "st = LXB_STATUS_OK \<longrightarrow> (\<exists>v. w = Some v \<and> str_is A v value)" using r(5) by simp
  ultimately show ?thesis using r(1) [unfolded h] by blast
qed

lemma create_new:
  assumes d: "nodes h D = Some m" "n_owner_document m = D"
  shows "lxb_dom_attr_interface_create h D =
     Some (if obj_fails h (obj_reqs h) then (None, h\<lparr>obj_reqs := obj_reqs h + 1\<rparr>)
       else (Some (obj_fresh h), with_new h (obj_fresh h) (zero_node D LXB_DOM_NODE_TYPE_ATTRIBUTE)
         \<lparr>at_upper_name = 0, at_qualified_name = 0, at_value = None, at_owner = None, at_next = None, at_prev = None\<rparr>
         (text_arena h) (hashes h) (obj_reqs h + 1) (obj_fresh h + 1)))"
  using assms by (simp add: lxb_dom_attr_interface_create_def obj_calloc_def lxb_dom_document_owner_def with_new_def Let_def)

lemma attrs_wf_reqs: "attrs_wf h M \<Longrightarrow> attrs_wf (h\<lparr>obj_reqs := r\<rparr>) M \<and> same_elements h (h\<lparr>obj_reqs := r\<rparr>)"
proof
  let ?h = "h\<lparr>obj_reqs := r\<rparr>"
  assume wf: "attrs_wf h M"
  then have tx: "texts_ok h" and ty: "heap_typed h" by (auto simp: attrs_wf_def)
  have tof: "text_of ?h z = text_of h z" for z by (cases z) simp_all
  have live: "vdata (text_of h z) = Some p \<Longrightarrow> \<exists>b. ar_blocks (text_arena h) p = Some b" for z p
    using texts_live [OF tx] by blast
  have "nodes h (obj_fresh h) = None" by (rule fresh_node [OF ty])
  note absent = fresh_absent [OF ty this]
  have "value_blocks (ar_blocks (text_arena h)) (text_of h (Attr_value (obj_fresh h))) (ar_blocks (text_arena ?h))
      (text_of ?h (Attr_value (obj_fresh h)))"
    using absent by (simp add: value_blocks_def vdata_def)
  note t = texts_replace [OF tx tof _ this]
  have "texts_ok ?h" by (rule t(2)) (use texts_wf [OF tx] absent in simp_all)
  moreover have "only_changes h ?h (obj_fresh h) (obj_fresh h)"
    using t(1) texts_wf [OF tx] absent by (auto simp: only_changes_def names_grow_same dom_def)
  moreover have "heap_typed ?h" by (rule heap_typed_attr [OF ty]) simp_all
  ultimately show "attrs_wf ?h M" by (intro attrs_wf_unchanged [OF wf]) simp_all
  show "same_elements h ?h" by (rule same_elements_I) simp_all
qed

lemma update_at: "k \<notin> fst ` set xs \<Longrightarrow> AList.update k w (xs @ (k, v) # ys) = xs @ (k, w) # ys"
  by (induction xs) auto

lemma update_append: "k \<notin> fst ` set xs \<Longrightarrow> AList.update k w xs = xs @ [(k, w)]"
  by (induction xs) auto

lemma html_element_at:
  assumes wf: "attrs_wf h M" and el: "html_element h el"
  shows "\<exists>N d As H. nodes h el = Some N \<and> owner_doc h el = Some d \<and> lower_case_names N d \<and>
     hashes h (doc_attrs d) = Some H \<and> attrs_ok H \<and> el_at h el As (n_owner_document N) d H (M el)"
proof -
  from el obtain N d where e: "elements h el \<noteq> None" "nodes h el = Some N" "docs h (n_owner_document N) = Some d"
    "lower_case_names N d" by (auto simp: html_element_def)
  from wf e obtain As H where at: "el_at h el As (n_owner_document N) d H (M el)"
    unfolding attrs_wf_def attrs_are_el_at by (fastforce simp: el_at_def in_doc_def)
  then have "hashes h (doc_attrs d) = Some H" "attrs_ok H" by (auto simp: el_at_def in_doc_def)
  with e at show ?thesis by (intro exI [of _ N] exI [of _ d] exI [of _ As] exI [of _ H]) (simp add: owner_doc_def)
qed

lemma by_name_is:
  assumes el: "nodes h el = Some N" "owner_doc h el = Some d" "lower_case_names N d" "hashes h (doc_attrs d) = Some H" "attrs_ok H"
    and at: "el_at h el As D d H m" and name: "name \<noteq> []" "lower name \<noteq> ascii ''#undef''"
  shows "lxb_dom_element_attr_by_name h el name = Some (attr_at As m (lower name))"
  using attr_by_local_is [OF el(5) _ _ name, of h el As m] at el
  by (auto simp: lxb_dom_element_attr_by_name_def el_at_def)

lemma existing_attr:
  assumes wf: "attrs_wf h M" and el: "html_element h el" and name: "lower name \<noteq> ascii ''#undef''"
  shows "\<exists>N d As H m. nodes h el = Some N \<and> docs h (n_owner_document N) = Some d \<and> lower_case_names N d \<and>
     el_at h el As (n_owner_document N) d H (M el) \<and> hashes h (doc_attrs d) = Some H \<and> attrs_ok H \<and>
     nodes h (n_owner_document N) = Some m \<and> n_owner_document m = n_owner_document N \<and>
     lxb_dom_element_attr_is_exist h el name = Some (if name = [] then None else attr_at As (M el) (lower name))"
proof -
  from el obtain N d where e: "elements h el \<noteq> None" "nodes h el = Some N" "docs h (n_owner_document N) = Some d"
    "lower_case_names N d" by (auto simp: html_element_def)
  from wf e obtain As H where at: "el_at h el As (n_owner_document N) d H (M el)"
    unfolding attrs_wf_def attrs_are_el_at by (fastforce simp: el_at_def in_doc_def)
  then obtain m where H: "hashes h (doc_attrs d) = Some H" "attrs_ok H" "nodes h (n_owner_document N) = Some m"
    "n_owner_document m = n_owner_document N" by (auto simp: el_at_def in_doc_def e)
  have doc: "owner_doc h el = Some d" using e by (simp add: owner_doc_def)
  have l2: "list_all2 (attr_is h H) As (M el)" and al: "attr_list h el As" using at by (auto simp: el_at_def)
  have "lxb_dom_element_attr_is_exist h el name = Some (if name = [] then None else attr_at As (M el) (lower name))"
  proof (cases "name = []")
    case True
    then show ?thesis using doc H(1) by (simp add: lxb_dom_element_attr_is_exist_def lxb_dom_attr_data_by_local_name_def attr_by_data_def)
  next
    case False
    from attr_by_local_is [OF H(2) al l2 False name] doc H(1) False show ?thesis
      by (auto simp: lxb_dom_element_attr_is_exist_def)
  qed
  with e at H show ?thesis by blast
qed

text \<open>
  Replacing the value of an attribute the element has. When the memory for the value is refused, the
  attribute is destroyed where it stands in the list.
\<close>

lemma set_existing_is:
  assumes wf: "attrs_wf h M" and el: "html_element h el" and name: "name \<noteq> []" "lower name \<noteq> ascii ''#undef''"
    and len: "length value < 2 ^ 62" and has: "lower name \<in> fst ` set (M el)"
  shows "\<exists>a r h'. lxb_dom_element_attr_by_name h el name = Some (Some a) \<and>
     lxb_dom_element_set_attribute h el name value = Some (r, h') \<and>
     (r \<noteq> None \<longrightarrow> attrs_wf h' (M(el := AList.update (lower name) (Some value) (M el))) \<and> same_elements h h') \<and>
     (r = None \<longrightarrow> gone_only h h' a)"
proof -
  from existing_attr [OF wf el name(2)] obtain N d As H where e: "nodes h el = Some N" "docs h (n_owner_document N) = Some d"
    "lower_case_names N d" and at: "el_at h el As (n_owner_document N) d H (M el)" and H: "hashes h (doc_attrs d) = Some H" "attrs_ok H"
    and exist: "lxb_dom_element_attr_is_exist h el name = Some (if name = [] then None else attr_at As (M el) (lower name))" by blast
  have doc: "owner_doc h el = Some d" using e by (simp add: owner_doc_def)
  have l2: "list_all2 (attr_is h H) As (M el)" using at by (simp add: el_at_def)
  note look = by_name_is [OF e(1) doc e(3) H at name]
  from has attr_at_None [OF l2] obtain a where a: "attr_at As (M el) (lower name) = Some a" by blast
  from attr_at_Some [OF l2 a] obtain xs v ys bs cs where s: "M el = xs @ (lower name, v) # ys" "As = bs @ a # cs"
    "length bs = length xs" "lower name \<notin> fst ` set xs" by blast
  from set_value_in_list [OF wf at [unfolded s(1,2)] s(3) len] obtain st h1 where
    r: "lxb_dom_attr_set_value h a value = Some (st, h1)"
      "if st = LXB_STATUS_OK then attrs_wf h1 (M(el := xs @ (lower name, Some value) # ys)) \<and> same_elements h h1
       else \<exists>h2. lxb_dom_attr_interface_destroy h1 a = Some h2 \<and> gone_only h h2 a" by blast
  show ?thesis
  proof (cases "st = LXB_STATUS_OK")
    case ok: True
    with exist a name(1) r(1) have run: "lxb_dom_element_set_attribute h el name value = Some (Some a, h1)"
      by (simp add: lxb_dom_element_set_attribute_def)
    have "attrs_wf h1 (M(el := AList.update (lower name) (Some value) (M el))) \<and> same_elements h h1"
      using r(2) ok s(4) by (simp add: s(1) update_at)
    with run look a show ?thesis by auto
  next
    case bad: False
    with r(2) obtain h2 where h2: "lxb_dom_attr_interface_destroy h1 a = Some h2" "gone_only h h2 a" by auto
    with exist a name(1) r(1) bad have run: "lxb_dom_element_set_attribute h el name value = Some (None, h2)"
      by (simp add: lxb_dom_element_set_attribute_def)
    with h2 look a show ?thesis by auto
  qed
qed

text \<open>
  Setting an attribute of an HTML element never does anything undefined. It updates the association
  list when it returns an attribute; when it returns \<open>NULL\<close> for a name the element does not have,
  nothing has changed.
\<close>

lemma set_attribute_is:
  assumes wf: "attrs_wf h M" and el: "html_element h el" and name: "lower name \<noteq> ascii ''#undef''"
    and len: "length name < 2 ^ 62" "length value < 2 ^ 62"
  shows "\<exists>r h'. lxb_dom_element_set_attribute h el name value = Some (r, h') \<and>
     (r \<noteq> None \<longrightarrow> attrs_wf h' (M(el := AList.update (lower name) (Some value) (M el))) \<and> same_elements h h') \<and>
     (r = None \<longrightarrow> lower name \<notin> fst ` set (M el) \<or> name = [] \<longrightarrow> attrs_wf h' M \<and> same_elements h h')"
proof -
  have tx: "texts_ok h" and ty: "heap_typed h" using wf by (auto simp: attrs_wf_def)
  from existing_attr [OF wf el name] obtain N d As H m where e: "nodes h el = Some N" "docs h (n_owner_document N) = Some d"
    "lower_case_names N d" and at: "el_at h el As (n_owner_document N) d H (M el)" and H: "hashes h (doc_attrs d) = Some H" "attrs_ok H"
    "nodes h (n_owner_document N) = Some m" "n_owner_document m = n_owner_document N"
    and exist: "lxb_dom_element_attr_is_exist h el name = Some (if name = [] then None else attr_at As (M el) (lower name))" by blast
  let ?D = "n_owner_document N"
  have doc: "owner_doc h el = Some d" using e by (simp add: owner_doc_def)
  have l2: "list_all2 (attr_is h H) As (M el)" using at by (simp add: el_at_def)
  show ?thesis
  proof (cases "name \<noteq> [] \<and> attr_at As (M el) (lower name) \<noteq> None")
    case True
    then have nm: "name \<noteq> []" and has: "lower name \<in> fst ` set (M el)" using attr_at_None [OF l2, of "lower name"] by simp_all
    from set_existing_is [OF wf el nm name len(2) has] obtain r h' where
      "lxb_dom_element_set_attribute h el name value = Some (r, h')"
      "r \<noteq> None \<longrightarrow> attrs_wf h' (M(el := AList.update (lower name) (Some value) (M el))) \<and> same_elements h h'" by blast
    then show ?thesis using nm has by (intro exI [of _ r] exI [of _ h']) simp
  next
    case False
    then have none: "lxb_dom_element_attr_is_exist h el name = Some None" using exist by auto
    have not_in: "lower name \<notin> fst ` set (M el)" if "name \<noteq> []" using False that attr_at_None [OF l2] by blast
    let ?a = "obj_fresh h" and ?z = "zero_node ?D LXB_DOM_NODE_TYPE_ATTRIBUTE"
    let ?x = "\<lparr>at_upper_name = 0, at_qualified_name = 0, at_value = None, at_owner = None, at_next = None, at_prev = None\<rparr>"
    have fresh: "nodes h ?a = None" by (rule fresh_node [OF ty])
    let ?n = "?z\<lparr>n_ns := n_ns N\<rparr>" and ?r = "obj_reqs h + 1" and ?f = "obj_fresh h + 1"
    show ?thesis
    proof (cases "obj_fails h (obj_reqs h)")
      case True
      then have "lxb_dom_element_set_attribute h el name value = Some (None, h\<lparr>obj_reqs := ?r\<rparr>)"
        using none e doc create_new [OF H(3,4)] by (simp add: lxb_dom_element_set_attribute_def)
      with attrs_wf_reqs [OF wf, of ?r] show ?thesis by blast
    next
      case granted: False
      let ?h1 = "with_new h ?a ?n ?x (text_arena h) (hashes h) ?r ?f"
      have h1: "wr_node (with_new h ?a ?z ?x (text_arena h) (hashes h) ?r ?f) ?a (\<lambda>m. m\<lparr>n_ns := n_ns N\<rparr>) = Some ?h1"
        by (simp add: wr_node_def with_new_def)
      have D: "docs h (n_owner_document ?n) = Some d" using e by (simp add: zero_node_def)
      from set_name_new [where n = ?n and hs = "hashes h" and a = ?a and x = ?x and A = "text_arena h" and reqs = ?r
          and fresh = ?f, OF D H(1,2) len(1)]
      obtain st i H' where nm: "lxb_dom_attr_set_name ?h1 ?a name True =
          Some (st, with_new h ?a (?n\<lparr>n_local_name := i\<rparr>) ?x (text_arena h) ((hashes h)(doc_attrs d \<mapsto> H')) ?r ?f)"
        "attrs_ok H'" "hkey H \<subseteq>\<^sub>m hkey H'" "st = LXB_STATUS_OK \<longrightarrow> name \<noteq> [] \<and> local_is H' i (lower name)" by blast
      let ?n2 = "?n\<lparr>n_local_name := i\<rparr>" and ?hs = "(hashes h)(doc_attrs d \<mapsto> H')"
      let ?h2 = "with_new h ?a ?n2 ?x (text_arena h) ?hs ?r ?f"
      have ok2: "new_ok h ?a ?n2 ?x (text_arena h) ?hs ?f"
        using fresh D texts_wf [OF tx] nm(2,3) H(1,2)
        by (auto simp: new_ok_def zero_node_def names_grow_def value_blocks_def vdata_def)
      show ?thesis
      proof (cases "st = LXB_STATUS_OK")
        case False
        from destroy_new [OF wf ok2, of ?r] obtain h' where h': "lxb_dom_attr_interface_destroy ?h2 ?a = Some h'"
          "attrs_wf h' M" "same_elements h h'" by blast
        have "lxb_dom_element_set_attribute h el name value = Some (None, h')"
          using none e doc create_new [OF H(3,4)] granted h1 nm(1) False h'(1)
          by (simp add: lxb_dom_element_set_attribute_def)
        with h' show ?thesis by blast
      next
        case True
        with nm(4) have ne: "name \<noteq> []" and loc: "local_is H' i (lower name)" by auto
        from set_value_new [OF wf ok2 _ len(2), of ?r] obtain st2 A w r3 f3 where
          sv: "lxb_dom_attr_set_value ?h2 ?a value = Some (st2, with_new h ?a ?n2 (?x\<lparr>at_value := w\<rparr>) A ?hs r3 f3)"
          "new_ok h ?a ?n2 (?x\<lparr>at_value := w\<rparr>) A ?hs f3" "st2 = LXB_STATUS_OK \<longrightarrow> (\<exists>v. w = Some v \<and> str_is A v value)"
          by auto
        let ?x3 = "?x\<lparr>at_value := w\<rparr>"
        show ?thesis
        proof (cases "st2 = LXB_STATUS_OK")
          case False
          from destroy_new [OF wf sv(2), of r3] obtain h' where
            h': "lxb_dom_attr_interface_destroy (with_new h ?a ?n2 ?x3 A ?hs r3 f3) ?a = Some h'"
            "attrs_wf h' M" "same_elements h h'" by blast
          have "lxb_dom_element_set_attribute h el name value = Some (None, h')"
            using none e doc create_new [OF H(3,4)] granted h1 nm(1) True sv(1) False h'(1)
            by (simp add: lxb_dom_element_set_attribute_def)
          with h' show ?thesis by blast
        next
          case ok3: True
          with sv(3) obtain v where v: "w = Some v" "str_is A v value" by blast
          have "\<exists>h'. lxb_dom_element_attr_append (with_new h ?a ?n2 ?x3 A ?hs r3 f3) el ?a = Some (LXB_STATUS_OK, h') \<and>
             attrs_wf h' (M(el := M el @ [(lower name, Some value)])) \<and> same_elements h h'"
            by (rule append_new [OF wf at sv(2) _ _ not_in [OF ne] _ _ _ _ v(2) _ nm(2,3)])
              (use loc v(1) in \<open>simp_all add: zero_node_def\<close>)
          then obtain h' where h': "lxb_dom_element_attr_append (with_new h ?a ?n2 ?x3 A ?hs r3 f3) el ?a = Some (LXB_STATUS_OK, h')"
            "attrs_wf h' (M(el := M el @ [(lower name, Some value)]))" "same_elements h h'" by blast
          have "lxb_dom_element_set_attribute h el name value = Some (Some ?a, h')"
            using none e doc create_new [OF H(3,4)] granted h1 nm(1) True sv(1) ok3 h'(1)
            by (simp add: lxb_dom_element_set_attribute_def)
          moreover have "AList.update (lower name) (Some value) (M el) = M el @ [(lower name, Some value)]"
            by (rule update_append [OF not_in [OF ne]])
          ultimately show ?thesis using h'(2,3) by auto
        qed
      qed
    qed
  qed
qed

section \<open>Reading and removing\<close>

text \<open>The characters behind a returned pointer, which the bridge's callers copy.\<close>

definition attr_read :: "dom \<Rightarrow> addr \<Rightarrow> bytes \<Rightarrow> bytes option option" where
  "attr_read h el name = do {
     (p, n) \<leftarrow> lxb_dom_element_get_attribute h el name;
     (if p = None then Some None else map_option Some (blk_read (text_arena h) p 0 n)) }"

lemma str_is_read: "str_is A s cs \<Longrightarrow> str_data s \<noteq> None \<and> str_length s = length cs \<and> blk_read A (str_data s) 0 (length cs) = Some cs"
  by (auto simp: str_is_def blk_read_def)

lemma attr_read_is:
  assumes wf: "attrs_wf h M" and el: "html_element h el" and name: "name \<noteq> []" "lower name \<noteq> ascii ''#undef''"
  shows "attr_read h el name = Some (Option.bind (map_of (M el) (lower name)) (\<lambda>v. v))"
    and "lxb_dom_element_has_attribute h el name = Some (map_of (M el) (lower name) \<noteq> None)"
proof -
  from html_element_at [OF wf el] obtain N d As H where e: "nodes h el = Some N" "owner_doc h el = Some d" "lower_case_names N d"
    "hashes h (doc_attrs d) = Some H" "attrs_ok H" and at: "el_at h el As (n_owner_document N) d H (M el)" by blast
  have l2: "list_all2 (attr_is h H) As (M el)" using at by (simp add: el_at_def)
  note look = by_name_is [OF e at name]
  show "attr_read h el name = Some (Option.bind (map_of (M el) (lower name)) (\<lambda>v. v))"
  proof (cases "attr_at As (M el) (lower name)")
    case None
    with attr_at_None [OF l2] have "map_of (M el) (lower name) = None" by (simp add: map_of_eq_None_iff)
    with look None show ?thesis by (simp add: attr_read_def lxb_dom_element_get_attribute_def)
  next
    case (Some a)
    from attr_at_Some [OF l2 Some] obtain xs v ys where s: "M el = xs @ (lower name, v) # ys" "lower name \<notin> fst ` set xs"
      "attr_is h H a (lower name, v)" by blast
    have m: "map_of (M el) (lower name) = Some v"
      using s(2) by (simp add: s(1) map_add_def map_of_eq_None_iff [THEN iffD2] split: option.splits)
    from s(3) obtain x where x: "attributes h a = Some x"
      "case at_value x of None \<Rightarrow> v = None | Some w \<Rightarrow> (\<exists>cs. v = Some cs \<and> str_is (text_arena h) w cs)"
      unfolding attr_is_def snd_conv by blast
    have "lxb_dom_element_get_attribute h el name = lxb_dom_attr_value h a"
      using look Some by (simp add: lxb_dom_element_get_attribute_def)
    with x show ?thesis unfolding m
      by (auto simp: attr_read_def lxb_dom_attr_value_def dest!: str_is_read split: option.splits)
  qed
  show "lxb_dom_element_has_attribute h el name = Some (map_of (M el) (lower name) \<noteq> None)"
    using look attr_at_None [OF l2, of "lower name"] map_of_eq_None_iff [of "M el" "lower name"]
    unfolding lxb_dom_element_has_attribute_def by (simp del: not_None_eq)
qed

lemma keys_distinct:
  assumes "attrs_ok H" and "el_at h el As D d H m"
  shows "distinct (map fst m)"
proof -
  have l: "list_all2 (attr_is h H) As m" and ids: "distinct (map (\<lambda>a. map_option n_local_name (nodes h a)) As)"
    using assms(2) by (auto simp: el_at_def attr_list_def)
  have len: "length As = length m" using l by (rule list_all2_lengthD)
  have "i = j" if ij: "i < length m" "j < length m" "fst (m ! i) = fst (m ! j)" for i j
  proof -
    have "attr_is h H (As ! i) (m ! i)" "attr_is h H (As ! j) (m ! j)" using l ij by (auto simp: list_all2_conv_all_nth)
    then obtain n n' where n: "nodes h (As ! i) = Some n" "nodes h (As ! j) = Some n'"
      "local_is H (n_local_name n) (fst (m ! i))" "local_is H (n_local_name n') (fst (m ! j))" by (auto simp: attr_is_def)
    then have "n_local_name n = n_local_name n'" using local_is_inj [OF assms(1)] ij(3) by metis
    with n have "map (\<lambda>a. map_option n_local_name (nodes h a)) As ! i = map (\<lambda>a. map_option n_local_name (nodes h a)) As ! j"
      using ij len by simp
    with ids show "i = j" using ij len nth_eq_iff_index_eq by (metis length_map)
  qed
  then show ?thesis by (simp add: distinct_conv_nth) metis
qed

lemma delete_at:
  "k \<notin> fst ` set xs \<Longrightarrow> k \<notin> fst ` set ys \<Longrightarrow> AList.delete k (xs @ (k, v) # ys) = xs @ ys"
  by (induction xs) auto

lemma same_values:
  assumes "\<forall>b y. f b = Some y \<longrightarrow> (\<exists>y'. m b = Some y' \<and> at_value y' = at_value y \<and> at_qualified_name y' = at_qualified_name y)"
    and "\<And>b. f b = None \<Longrightarrow> m b = None"
  shows "(m b = None \<longleftrightarrow> f b = None) \<and> m b \<bind> at_value = f b \<bind> at_value"
  using assms by (cases "f b") fastforce+

lemma remove_in_list:
  assumes wf: "attrs_wf h M" and at: "el_at h el (bs @ a # cs) D d H (xs @ (k, v) # ys)" and len: "length bs = length xs"
    and el: "elements h el = Some e"
  shows "\<exists>h1 h2. lxb_dom_attr_remove h a = Some h1 \<and> lxb_dom_attr_interface_destroy h1 a = Some h2 \<and>
     attrs_wf h2 (M(el := xs @ ys)) \<and> same_elements h h2"
proof -
  let ?As = "bs @ a # cs"
  have tx: "texts_ok h" and ty: "heap_typed h" using wf by (auto simp: attrs_wf_def)
  note a = el_at_attr [OF at _ ty, of a, simplified]
  then obtain x where x: "attributes h a = Some x" "at_owner x = Some el" by blast
  have al: "attr_list h el ?As" using at by (simp add: el_at_def)
  then have dist: "distinct ?As" by (simp add: attr_list_def)
  from attr_remove_is [OF al el] a(2) obtain m e' where r:
    "lxb_dom_attr_remove h a = Some (h\<lparr>attributes := m, elements := (elements h)(el \<mapsto> e')\<rparr>)"
    "el_is_value e' = el_is_value e" "attr_list (h\<lparr>attributes := m, elements := (elements h)(el \<mapsto> e')\<rparr>) el (bs @ cs)"
    "\<forall>b. b \<notin> set ?As \<longrightarrow> m b = attributes h b"
    "\<forall>b y. attributes h b = Some y \<longrightarrow> (\<exists>y'. m b = Some y' \<and> at_value y' = at_value y \<and> at_qualified_name y' = at_qualified_name y)"
    by blast
  let ?h1 = "h\<lparr>attributes := m, elements := (elements h)(el \<mapsto> e')\<rparr>"
  have none: "m b = None" if "attributes h b = None" for b using r(4) el_at_attr(1) [OF at _ ty, of b] that by (metis option.distinct(1))
  note vals = same_values [OF r(5) none]
  from r(5) x obtain x' where x': "m a = Some x'" "at_value x' = at_value x" by blast
  have vd: "text_of h (Attr_value a) = at_value x" using x by simp
  have pre: "attributes ?h1 a = Some x'" "owner_doc ?h1 a \<noteq> None" "ar_wf (text_arena ?h1)"
    using x'(1) a(2) texts_wf [OF tx] by (simp_all add: owner_doc_def)
  have live: "\<exists>b. ar_blocks (text_arena h) p = Some b" if "vdata (at_value x) = Some p" for p
    using texts_live [OF tx, of "Attr_value a" p] that vd by simp
  have A1: "text_arena ?h1 = text_arena h" by simp
  from attr_destroy_is [OF pre, unfolded A1 x'(2), OF live] obtain A where dst: "lxb_dom_attr_interface_destroy ?h1 a = Some ((obj_gone ?h1 a)\<lparr>text_arena := A\<rparr>)"
    "ar_wf A" "ar_blocks A = (case vdata (at_value x) of None \<Rightarrow> ar_blocks (text_arena h) | Some p \<Rightarrow> (ar_blocks (text_arena h))(p := None))"
    by blast
  let ?g = "(obj_gone ?h1 a)\<lparr>text_arena := A\<rparr>"
  have ea: "el \<noteq> a" using a(3) el by auto
  have un: "f(a := None) = f" if "f a = None" for f :: "addr \<rightharpoonup> 'z" using that by auto
  from at obtain n where n: "nodes h a = Some n" by (auto simp: el_at_def)
  have "n_type n = LXB_DOM_NODE_TYPE_ATTRIBUTE" using heap_typed_kind [OF ty n] x by (auto simp: kind_ok_def)
  then have ca: "chardata h a = None" "docs h a = None" "elements h a = None" "pi_targets h a = None"
    "doctypes h a = None" "fragment_hosts h a = None" "template_contents h a = None"
    using heap_typed_kind [OF ty n] by (auto simp: kind_ok_def CHARDATA_TYPES_def)
  have g: "nodes ?g = (nodes h)(a := None)" "elements ?g = (elements h)(el \<mapsto> e')" "attributes ?g = m(a := None)"
    "same_other_structs h ?g" "docs ?g = docs h" "hashes ?g = hashes h" "obj_fresh ?g = obj_fresh h" "text_arena ?g = A"
    using ca ea by (auto simp: obj_gone_def un fun_upd_twist)
  have tof: "text_of ?g z = text_of h z" if "z \<noteq> Attr_value a" for z
    using that vals el r(2) by (cases z) (auto simp: g)
  have ta: "text_of ?g (Attr_value a) = None" by (simp add: g)
  have "value_blocks (ar_blocks (text_arena h)) (text_of h (Attr_value a)) (ar_blocks (text_arena ?g)) (text_of ?g (Attr_value a))"
    unfolding ta g(8) dst(3) vd by (rule value_blocks_free)
      (use texts_live [OF tx, of "Attr_value a"] vd in \<open>simp add: value_blocks_def\<close>)
  note t = texts_replace [OF tx tof _ this]
  have sk: "strings_kept h ?g a" using t(1) dst(2) by (simp add: g)
  have tok: "texts_ok ?g" by (rule t(2)) (use dst(2) ta in \<open>auto simp: g simp del: text_of.simps\<close>)
  have c: "only_changes h ?g a el"
    unfolding only_changes_def
  proof (intro conjI)
    show "\<forall>b. b \<noteq> a \<longrightarrow> (\<forall>y. attributes h b = Some y \<longrightarrow> at_owner y \<noteq> Some el) \<longrightarrow> attributes ?g b = attributes h b"
      using r(4) el_at_attr(1) [OF at _ ty] by (auto simp: g)
  qed (use sk a x in \<open>simp_all add: g names_grow_same\<close>)
  have typed: "heap_typed ?g"
  proof (rule heap_typed_frame [OF ty])
    fix b
    show "same_structs h ?g b \<or> (case nodes ?g b of None \<Rightarrow> no_struct ?g b | Some n \<Rightarrow> kind_ok ?g b n \<and> b < obj_fresh ?g)"
      using ca ea el vals [of b] by (cases "b = a") (simp_all add: g no_struct_def same_structs_def)
  qed (simp add: g)
  have "attrs_are ?g el (xs @ ys)"
  proof -
    have l: "list_all2 (attr_is h H) bs xs" "list_all2 (attr_is h H) cs ys"
      using at len by (auto simp: el_at_def list_all2_append)
    have fr: "b \<noteq> a \<and> nodes ?g b = nodes h b" "attributes h b = Some y \<Longrightarrow> \<exists>y'. attributes ?g b = Some y' \<and>
        at_value y' = at_value y \<and> at_qualified_name y' = at_qualified_name y" if "b \<in> set bs \<union> set cs" for b y
      using dist that r(5) by (auto simp: g)
    have "list_all2 (attr_is ?g H) bs xs" by (rule attrs_frame [OF l(1) sk]) (use fr in auto)
    moreover have "list_all2 (attr_is ?g H) cs ys" by (rule attrs_frame [OF l(2) sk]) (use fr in auto)
    moreover have "attr_list ?g el (bs @ cs)"
      by (rule attr_list_cong [OF r(3)]) (use fr dist in \<open>auto simp: g attr_sib_def\<close>)
    moreover have "D \<noteq> a" using a(4) at by (auto simp: el_at_def in_doc_def)
    then have "in_doc ?g el D d H" using at ea by (auto simp: el_at_def in_doc_def g)
    moreover have "\<forall>b \<in> set (bs @ cs). \<exists>n. nodes ?g b = Some n \<and> n_owner_document n = D" using at fr by (auto simp: el_at_def)
    ultimately show ?thesis unfolding attrs_are_el_at el_at_def
      by (intro exI [of _ "bs @ cs"] exI [of _ D] exI [of _ d] exI [of _ H]) (simp add: list_all2_appendI)
  qed
  then have "attrs_wf ?g (M(el := xs @ ys))"
    by (intro attrs_wf_I [OF wf c tok typed]) (use el in \<open>auto simp: g\<close>)
  moreover have "same_elements h ?g" by (rule same_elements_I) (use el ca in \<open>auto simp: g\<close>)
  ultimately show ?thesis using r(1) dst(1) by blast
qed

lemma remove_attribute_is:
  assumes wf: "attrs_wf h M" and el: "html_element h el" and name: "name \<noteq> []" "lower name \<noteq> ascii ''#undef''"
  shows "\<exists>h'. lxb_dom_element_remove_attribute h el name = Some (LXB_STATUS_OK, h') \<and>
     attrs_wf h' (M(el := AList.delete (lower name) (M el))) \<and> same_elements h h'"
proof -
  from html_element_at [OF wf el] obtain N d As H where e: "nodes h el = Some N" "owner_doc h el = Some d" "lower_case_names N d"
    "hashes h (doc_attrs d) = Some H" "attrs_ok H" and at: "el_at h el As (n_owner_document N) d H (M el)" by blast
  have l2: "list_all2 (attr_is h H) As (M el)" using at by (simp add: el_at_def)
  note look = by_name_is [OF e at name]
  show ?thesis
  proof (cases "attr_at As (M el) (lower name)")
    case None
    with attr_at_None [OF l2] have "AList.delete (lower name) (M el) = M el" by (simp add: AList.delete_idem)
    then have "M(el := AList.delete (lower name) (M el)) = M" by simp
    with look None wf show ?thesis
      by (auto simp: lxb_dom_element_remove_attribute_def same_elements_def)
  next
    case (Some a)
    from attr_at_Some [OF l2 Some] obtain xs v ys bs cs where s: "As = bs @ a # cs" "M el = xs @ (lower name, v) # ys"
      "length bs = length xs" by blast
    have "distinct (map fst (M el))" by (rule keys_distinct [OF e(5) at])
    then have del: "AList.delete (lower name) (M el) = xs @ ys" unfolding s(2) by (intro delete_at) auto
    from el obtain el' where el': "elements h el = Some el'" by (auto simp: html_element_def)
    from remove_in_list [OF wf at [unfolded s(1,2)] s(3) el'] obtain h1 h2 where r: "lxb_dom_attr_remove h a = Some h1"
      "lxb_dom_attr_interface_destroy h1 a = Some h2" "attrs_wf h2 (M(el := xs @ ys))" "same_elements h h2" by blast
    then show ?thesis using look Some
      by (simp add: lxb_dom_element_remove_attribute_def lxb_dom_element_attr_remove_def del)
  qed
qed

end
