(* ===== verification/Dom_Attr_Sample.thy ===== *)
theory Dom_Attr_Sample
  imports Dom_Attrs Dom_Sample
begin

text \<open>
  The sample document with its attribute, as an \<open>id\<close> or as a \<open>class\<close>, and with any plan of the text
  arena: the concrete inputs of the attribute and query properties.
\<close>

definition sample_named :: "bool \<Rightarrow> (nat \<Rightarrow> (nat \<times> bool) option) \<Rightarrow> dom" where
  "sample_named b f = sample_dom\<lparr>
     nodes := sample_nodes(11 \<mapsto> sample_node LXB_DOM_NODE_TYPE_ATTRIBUTE (if b then 5 else 18) None None None None None),
     elements := (elements sample_dom)(6 \<mapsto> (sample_element (Some 11))
       \<lparr>el_attr_id := (if b then None else Some 11), el_attr_class := (if b then Some 11 else None)\<rparr>),
     text_arena := (text_arena sample_dom)\<lparr>ar_plan := f\<rparr>\<rparr>"

definition sample_plan :: "(nat \<Rightarrow> (nat \<times> bool) option) \<Rightarrow> dom" where
  "sample_plan f = sample_dom\<lparr>text_arena := (text_arena sample_dom)\<lparr>ar_plan := f\<rparr>\<rparr>"

definition sample_values :: "bool \<Rightarrow> addr \<Rightarrow> (bytes \<times> bytes option) list" where
  "sample_values b = (\<lambda>_. [])(6 := [(if b then ascii ''class'' else ascii ''id'', Some (ascii ''x''))])"

definition sample_attrs :: "addr \<Rightarrow> (bytes \<times> bytes option) list" where
  "sample_attrs = (\<lambda>_. [])(6 := [(ascii ''id'', Some (ascii ''x''))])"

lemma sample_plan_named: "sample_plan f = sample_named False f" "sample_attrs = sample_values False"
  by (simp_all add: sample_plan_def sample_named_def sample_attrs_def sample_values_def)
    (simp add: sample_dom_def sample_nodes_def sample_element_def fun_upd_twist)

lemma sample_table_ok: "attrs_ok sample_table"
proof -
  have "hash_wf sample_table (\<lambda>_. [])"
    by (rule empty_table_wf) (simp_all add: sample_table_def hash0_def)
  then show ?thesis
    by (auto simp: attrs_ok_def hash_ok_def sample_table_def hash0_def hash_ids_def LXB_DOM_ATTR__LAST_ENTRY_def)
qed

lemma plan_simps [simp]: "nodes (sample_plan f) = sample_nodes" "elements (sample_plan f) = elements sample_dom"
  "attributes (sample_plan f) = attributes sample_dom" "chardata (sample_plan f) = chardata sample_dom"
  "docs (sample_plan f) = docs sample_dom" "hashes (sample_plan f) = hashes sample_dom"
  "ar_blocks (text_arena (sample_plan f)) = ar_blocks (text_arena sample_dom)" "obj_fresh (sample_plan f) = obj_fresh sample_dom"
  by (simp_all add: sample_plan_def)

lemma named_simps [simp]: "attributes (sample_named b f) = attributes sample_dom" "chardata (sample_named b f) = chardata sample_dom"
  "docs (sample_named b f) = docs sample_dom" "hashes (sample_named b f) = hashes sample_dom"
  "ar_blocks (text_arena (sample_named b f)) = ar_blocks (text_arena sample_dom)" "obj_fresh (sample_named b f) = obj_fresh sample_dom"
  by (simp_all add: sample_named_def)

definition sample_doc :: lxb_dom_document where
  "sample_doc = the (docs sample_dom 1)"

lemma sample_id: "local_is sample_table 18 (ascii ''id'')" "local_is sample_table 5 (ascii ''class'')"
  by (simp_all add: local_is_def LXB_DOM_ATTR__LAST_ENTRY_def attr_static_def lxb_dom_attr_res_data_default_def name_data_def)

lemma sample_named_at:
  "el_at (sample_named b f) el (if el = 6 then [11] else []) 1 sample_doc sample_table (sample_values b el)"
  if "el \<in> {2, 3, 6, 7, 9, 10}"
proof -
  have "in_doc (sample_named b f) el 1 sample_doc sample_table"
    using that sample_table_ok by (auto simp: in_doc_def sample_doc_def sample_named_def sample_defs)
  moreover have "attr_list (sample_named b f) el (if el = 6 then [11] else [])"
    using that by (auto simp: attr_list_def sample_named_def sample_defs sample_element_def attr_sib_def has_id_def LXB_DOM_ATTR_ID_def LXB_DOM_ATTR_CLASS_def)
  moreover have "list_all2 (attr_is (sample_named b f) sample_table) (if el = 6 then [11] else []) (sample_values b el)"
    using sample_id by (auto simp: attr_is_def sample_values_def sample_named_def sample_defs str_is_def ascii_def)
  ultimately show ?thesis by (auto simp: el_at_def sample_named_def sample_defs)
qed

lemma sample_values_wf: "attrs_wf (sample_named b f) (sample_values b)"
  unfolding attrs_wf_def
proof (intro conjI ballI)
  have A: "ar_blocks (text_arena (sample_named b f)) = [100 \<mapsto> [0x20, 0x0A, 0, 0, 0, 0, 0, 0], 101 \<mapsto> [0x61, 0, 0, 0, 0, 0, 0, 0],
        102 \<mapsto> [0x78, 0, 0, 0, 0, 0, 0, 0]]" by (simp add: sample_dom_def)
  have t: "(x, s) \<in> {(Attr_value 11, \<lparr>str_data = Some 102, str_length = 1\<rparr>), (Char_data 4, \<lparr>str_data = Some 100, str_length = 2\<rparr>),
      (Char_data 5, \<lparr>str_data = Some 101, str_length = 1\<rparr>)}" if "text_of (sample_named b f) x = Some s" for x s
    using that by (cases x) (auto simp: sample_named_def sample_defs sample_element_def split: if_splits)
  have p: "(x, p) \<in> {(Attr_value 11, 102), (Char_data 4, 100), (Char_data 5, 101)}" if "text_ptr (sample_named b f) x = Some p" for x p
    using that t [of x] by (fastforce simp: text_ptr_def bind_eq_Some_conv)
  show "texts_ok (sample_named b f)"
    unfolding texts_ok_but_def
  proof (intro conjI allI impI)
    show "ar_wf (text_arena (sample_named b f))" by (auto simp: ar_wf_def sample_named_def sample_dom_def split: if_splits)
  next
    fix x p q assume "text_ptr (sample_named b f) x = Some q"
    from p [OF this] show "ar_blocks (text_arena (sample_named b f)) q \<noteq> None" unfolding A by auto
  next
    fix x y q assume "text_ptr (sample_named b f) x = Some q" "text_ptr (sample_named b f) y = Some q"
    from p [OF this(1)] p [OF this(2)] show "x = y" by auto
  next
    fix x s q assume "text_of (sample_named b f) x = Some s"
    from t [OF this] show "\<exists>cs. str_is (text_arena (sample_named b f)) s cs" unfolding str_is_def A
      by (elim insertE emptyE) (auto intro: exI [of _ "[_, _]"] exI [of _ "[_]"])
  qed
  show "heap_typed (sample_named b f)"
    by (auto simp: heap_typed_def no_struct_def kind_ok_def CHARDATA_TYPES_def sample_named_def sample_defs split: option.splits)
next
  fix el
  assume "el \<in> dom (elements (sample_named b f))"
  then have "el \<in> {2, 3, 6, 7, 9, 10}" by (auto simp: sample_named_def sample_defs split: if_splits)
  from sample_named_at [OF this] show "attrs_are (sample_named b f) el (sample_values b el)"
    unfolding attrs_are_el_at by blast
qed


lemma sample_el_at:
  "el_at (sample_plan f) el (if el = 6 then [11] else []) 1 sample_doc sample_table (sample_attrs el)"
  if "el \<in> {2, 3, 6, 7, 9, 10}"
  unfolding sample_plan_named by (rule sample_named_at [OF that])

lemma sample_attrs_wf: "attrs_wf (sample_plan f) sample_attrs"
  unfolding sample_plan_named by (rule sample_values_wf)

end
