(* ===== verification/Dom_Attr_Store.thy ===== *)
theory Dom_Attr_Store
  imports Dom_Attr_Sample
begin

text \<open>
  What the attribute operations promise together: for HTML elements of HTML documents they are an
  association list, for any sequence of operations, until a store is refused. The contract is a
  locale, interpreted on the model of \<open>element.c\<close>.
\<close>

section \<open>Stores keyed by name\<close>

datatype ('n, 'w) store_op = Put 'n 'w | Drop 'n | Look 'n

text \<open>
  A run of operations on a store: the answers of the look-ups, whether every store was granted, and
  the store it leaves. It stops at the first refusal.
\<close>

primrec run_store ::
  "('h \<Rightarrow> 'n \<Rightarrow> 'w \<Rightarrow> (bool \<times> 'h) option) \<Rightarrow> ('h \<Rightarrow> 'n \<Rightarrow> 'h option) \<Rightarrow> ('h \<Rightarrow> 'n \<Rightarrow> 'r option) \<Rightarrow>
   ('n, 'w) store_op list \<Rightarrow> 'h \<Rightarrow> ('r list \<times> bool \<times> 'h) option" where
  "run_store put drp look [] h = Some ([], True, h)"
| "run_store put drp look (op # ops) h = (case op of
     Put n w \<Rightarrow> do { (ok, h) \<leftarrow> put h n w; (if ok then run_store put drp look ops h else Some ([], False, h)) }
   | Drop n \<Rightarrow> do { h \<leftarrow> drp h n; run_store put drp look ops h }
   | Look n \<Rightarrow> do { r \<leftarrow> look h n; (rs, ok, h) \<leftarrow> run_store put drp look ops h; Some (r # rs, ok, h) })"

text \<open>
  The same operations on an association list. The key of a name is \<open>None\<close> when it can name nothing:
  then there is nothing to look up or to drop, and a store under it ends the run.
\<close>

primrec run_alist ::
  "('n \<Rightarrow> 'k option) \<Rightarrow> ('w \<Rightarrow> 'v) \<Rightarrow> ('v option \<Rightarrow> 'r) \<Rightarrow> ('n, 'w) store_op list \<Rightarrow> ('k \<times> 'v) list \<Rightarrow> 'r list \<times> ('k \<times> 'v) list" where
  "run_alist norm wrap answer [] m = ([], m)"
| "run_alist norm wrap answer (op # ops) m = (case op of
     Put n w \<Rightarrow> (case norm n of None \<Rightarrow> ([], m) | Some k \<Rightarrow> run_alist norm wrap answer ops (AList.update k (wrap w) m))
   | Drop n \<Rightarrow> run_alist norm wrap answer ops (case norm n of None \<Rightarrow> m | Some k \<Rightarrow> AList.delete k m)
   | Look n \<Rightarrow> (let (rs, m') = run_alist norm wrap answer ops m in (answer (Option.bind (norm n) (map_of m)) # rs, m')))"

locale keyed_store =
  fixes inv :: "'h \<Rightarrow> ('k \<times> 'v) list \<Rightarrow> bool"
    and put :: "'h \<Rightarrow> 'n \<Rightarrow> 'w \<Rightarrow> (bool \<times> 'h) option"
    and drp :: "'h \<Rightarrow> 'n \<Rightarrow> 'h option"
    and look :: "'h \<Rightarrow> 'n \<Rightarrow> 'r option"
    and norm :: "'n \<Rightarrow> 'k option" and wrap :: "'w \<Rightarrow> 'v" and answer :: "'v option \<Rightarrow> 'r"
    and good :: "('n, 'w) store_op \<Rightarrow> bool"
  assumes put_law: "inv h m \<Longrightarrow> good (Put n w) \<Longrightarrow>
      \<exists>ok h'. put h n w = Some (ok, h') \<and> (ok \<longrightarrow> (\<exists>k. norm n = Some k \<and> inv h' (AList.update k (wrap w) m)))"
    and drop_law: "inv h m \<Longrightarrow> good (Drop n) \<Longrightarrow>
      \<exists>h'. drp h n = Some h' \<and> inv h' (case norm n of None \<Rightarrow> m | Some k \<Rightarrow> AList.delete k m)"
    and look_law: "inv h m \<Longrightarrow> good (Look n) \<Longrightarrow> look h n = Some (answer (Option.bind (norm n) (map_of m)))"
begin

lemma run_refines:
  assumes "inv h m" and "\<forall>op \<in> set ops. good op"
  shows "\<exists>rs ok h'. run_store put drp look ops h = Some (rs, ok, h') \<and>
     (ok \<longrightarrow> rs = fst (run_alist norm wrap answer ops m) \<and> inv h' (snd (run_alist norm wrap answer ops m))) \<and>
     (\<exists>rest. fst (run_alist norm wrap answer ops m) = rs @ rest)"
  using assms
proof (induction ops arbitrary: h m)
  case Nil
  then show ?case by (intro exI [of _ "[]"] exI [of _ True] exI [of _ h]) simp
next
  case (Cons op ops)
  note IH = Cons.IH
  have good: "good op" "\<forall>op \<in> set ops. good op" using Cons.prems(2) by simp_all
  show ?case
  proof (cases op)
    case (Put n w)
    with put_law [OF Cons.prems(1)] good(1) obtain ok h1 where p: "put h n w = Some (ok, h1)"
      "ok \<longrightarrow> (\<exists>k. norm n = Some k \<and> inv h1 (AList.update k (wrap w) m))" by blast
    show ?thesis
    proof (cases ok)
      case True
      with p(2) obtain k where "norm n = Some k" "inv h1 (AList.update k (wrap w) m)" by blast
      with p(1) IH [of h1 "AList.update k (wrap w) m"] good(2) Put True show ?thesis by simp
    next
      case False
      with p Put show ?thesis by (intro exI [of _ "[]"] exI [of _ False] exI [of _ h1]) simp
    qed
  next
    case (Drop n)
    with drop_law [OF Cons.prems(1)] good(1) obtain h1 where p: "drp h n = Some h1"
      "inv h1 (case norm n of None \<Rightarrow> m | Some k \<Rightarrow> AList.delete k m)" by blast
    from IH [OF p(2) good(2)] p(1) Drop show ?thesis by simp
  next
    case (Look n)
    with look_law [OF Cons.prems(1)] good(1) have "look h n = Some (answer (Option.bind (norm n) (map_of m)))" by blast
    with IH [OF Cons.prems(1) good(2)] Look show ?thesis
      by (cases "run_alist norm wrap answer ops m") auto
  qed
qed

text \<open>What was stored under a name is read under every name of the same key, and under no other.\<close>

lemma put_then_look:
  assumes "inv h m" and "good (Put n w)" and "put h n w = Some (True, h')" and "good (Look k)"
  shows "look h' k = (if norm k = norm n then Some (answer (Some (wrap w))) else look h k)"
proof -
  from put_law [OF assms(1,2)] assms(3) obtain i where i: "norm n = Some i" "inv h' (AList.update i (wrap w) m)" by auto
  from look_law [OF i(2) assms(4)] look_law [OF assms(1,4)] i(1) show ?thesis
    by (cases "norm k") (simp_all add: update_conv)
qed

lemma drop_then_look:
  assumes "inv h m" and "good (Drop n)" and "drp h n = Some h'" and "good (Look k)"
  shows "look h' k = (if norm k = norm n then Some (answer None) else look h k)"
proof -
  from drop_law [OF assms(1,2)] assms(3) have "inv h' (case norm n of None \<Rightarrow> m | Some k \<Rightarrow> AList.delete k m)" by simp
  from look_law [OF this assms(4)] look_law [OF assms(1,4)] show ?thesis
    by (cases "norm n"; cases "norm k") (auto simp: AList.delete_conv)
qed

end

section \<open>The attributes of an element\<close>

definition attr_put :: "addr \<Rightarrow> dom \<Rightarrow> bytes \<Rightarrow> bytes \<Rightarrow> (bool \<times> dom) option" where
  "attr_put el h name value = do {
     (attr, h) \<leftarrow> lxb_dom_element_set_attribute h el name value;
     Some (attr \<noteq> None, h) }"

definition attr_drop :: "addr \<Rightarrow> dom \<Rightarrow> bytes \<Rightarrow> dom option" where
  "attr_drop el h name = map_option snd (lxb_dom_element_remove_attribute h el name)"

definition attr_look :: "addr \<Rightarrow> dom \<Rightarrow> bytes \<Rightarrow> bytes option option" where
  "attr_look el h name = attr_read h el name"

text \<open>
  The empty name names nothing; every other name is looked up in lower case. The operations the
  contract covers: lengths that fit in memory, and any name but \<open>#undef\<close>, whose behaviour is
  \<open>undef_names_first\<close> below.
\<close>

definition attr_key :: "bytes \<Rightarrow> bytes option" where
  "attr_key name = (if name = [] then None else Some (lower name))"

primrec attr_op_ok :: "(bytes, bytes) store_op \<Rightarrow> bool" where
  "attr_op_ok (Put name value) \<longleftrightarrow> lower name \<noteq> ascii ''#undef'' \<and> length name < 2 ^ 62 \<and> length value < 2 ^ 62"
| "attr_op_ok (Drop name) \<longleftrightarrow> lower name \<noteq> ascii ''#undef''"
| "attr_op_ok (Look name) \<longleftrightarrow> lower name \<noteq> ascii ''#undef''"

definition attr_inv :: "(addr \<Rightarrow> (bytes \<times> bytes option) list) \<Rightarrow> addr \<Rightarrow> dom \<Rightarrow> (bytes \<times> bytes option) list \<Rightarrow> bool" where
  "attr_inv M el h m \<longleftrightarrow> attrs_wf h (M(el := m)) \<and> html_element h el"

abbreviation run_attrs :: "addr \<Rightarrow> (bytes, bytes) store_op list \<Rightarrow> dom \<Rightarrow> (bytes option list \<times> bool \<times> dom) option" where
  "run_attrs el \<equiv> run_store (attr_put el) (attr_drop el) (attr_look el)"

abbreviation alist_attrs :: "(bytes, bytes) store_op list \<Rightarrow> (bytes \<times> bytes option) list \<Rightarrow> bytes option list \<times> (bytes \<times> bytes option) list" where
  "alist_attrs \<equiv> run_alist attr_key Some (\<lambda>v. Option.bind v (\<lambda>v. v))"

text \<open>The empty name: nothing is found under it, and nothing is stored under it.\<close>

lemma empty_name_absent:
  assumes "attrs_wf h M" and "html_element h el"
  shows "lxb_dom_element_attr_by_name h el [] = Some None" and "attr_read h el [] = Some None"
    and "lxb_dom_element_has_attribute h el [] = Some False" and "lxb_dom_element_remove_attribute h el [] = Some (LXB_STATUS_OK, h)"
proof -
  from html_element_at [OF assms] show none: "lxb_dom_element_attr_by_name h el [] = Some None"
    by (auto simp: lxb_dom_element_attr_by_name_def lxb_dom_attr_data_by_local_name_def attr_by_data_def)
  then show "attr_read h el [] = Some None" and "lxb_dom_element_has_attribute h el [] = Some False"
    and "lxb_dom_element_remove_attribute h el [] = Some (LXB_STATUS_OK, h)"
    by (simp_all add: attr_read_def lxb_dom_element_get_attribute_def lxb_dom_element_has_attribute_def lxb_dom_element_remove_attribute_def)
qed

lemma empty_name_refused:
  assumes wf: "attrs_wf h M" and el: "html_element h el" and run: "lxb_dom_element_set_attribute h el name value = Some (Some a, h')"
  shows "name \<noteq> []"
proof
  assume "name = []"
  with html_element_at [OF wf el] have "lxb_dom_element_attr_is_exist h el name = Some None"
    by (auto simp: lxb_dom_element_attr_is_exist_def lxb_dom_attr_data_by_local_name_def attr_by_data_def)
  moreover have "st \<noteq> LXB_STATUS_OK" if "lxb_dom_attr_set_name g b name True = Some (st, g')" for g b st g'
    using that \<open>name = []\<close> by (auto simp: lxb_dom_attr_set_name_def lxb_dom_attr_local_name_append_def bind_eq_Some_conv split: if_splits option.splits)
  ultimately show False using run html_element_at [OF wf el]
    by (auto simp: lxb_dom_element_set_attribute_def bind_eq_Some_conv split: if_splits option.splits)
qed

lemma attr_store_laws:
  assumes inv: "attr_inv M el h m"
  shows "attr_op_ok (Put name val) \<Longrightarrow> \<exists>ok h'. attr_put el h name val = Some (ok, h') \<and>
      (ok \<longrightarrow> (\<exists>k. attr_key name = Some k \<and> attr_inv M el h' (AList.update k (Some val) m)))"
    and "attr_op_ok (Drop name :: (bytes, bytes) store_op) \<Longrightarrow> \<exists>h'. attr_drop el h name = Some h' \<and>
      attr_inv M el h' (case attr_key name of None \<Rightarrow> m | Some k \<Rightarrow> AList.delete k m)"
    and "attr_op_ok (Look name :: (bytes, bytes) store_op) \<Longrightarrow>
      attr_look el h name = Some (Option.bind (Option.bind (attr_key name) (map_of m)) (\<lambda>v. v))"
proof -
  from inv have wf: "attrs_wf h (M(el := m))" and html: "html_element h el" by (simp_all add: attr_inv_def)
  {
    assume "attr_op_ok (Put name val)"
    then have ok: "lower name \<noteq> ascii ''#undef''" "length name < 2 ^ 62" "length val < 2 ^ 62" by simp_all
    from set_attribute_is [OF wf html ok] obtain r h' where r: "lxb_dom_element_set_attribute h el name val = Some (r, h')"
      "r \<noteq> None \<longrightarrow> attrs_wf h' (M(el := AList.update (lower name) (Some val) m)) \<and> same_elements h h'" by auto
    then have "r \<noteq> None \<longrightarrow> attr_inv M el h' (AList.update (lower name) (Some val) m)"
      using html by (simp add: attr_inv_def same_elements_def)
    moreover have "r \<noteq> None \<longrightarrow> attr_key name = Some (lower name)"
      using empty_name_refused [OF wf html, of name val _ h'] r(1) by (cases r) (auto simp: attr_key_def)
    ultimately show "\<exists>ok h'. attr_put el h name val = Some (ok, h') \<and>
        (ok \<longrightarrow> (\<exists>k. attr_key name = Some k \<and> attr_inv M el h' (AList.update k (Some val) m)))"
      using r(1) by (intro exI [of _ "r \<noteq> None"] exI [of _ h']) (auto simp: attr_put_def)
  next
    assume "attr_op_ok (Drop name :: (bytes, bytes) store_op)"
    with remove_attribute_is [OF wf html, of name] empty_name_absent(4) [OF wf html] inv html
    show "\<exists>h'. attr_drop el h name = Some h' \<and> attr_inv M el h' (case attr_key name of None \<Rightarrow> m | Some k \<Rightarrow> AList.delete k m)"
      by (cases "name = []") (auto simp: attr_drop_def attr_inv_def same_elements_def attr_key_def)
  next
    assume "attr_op_ok (Look name :: (bytes, bytes) store_op)"
    then show "attr_look el h name = Some (Option.bind (Option.bind (attr_key name) (map_of m)) (\<lambda>v. v))"
      using attr_read_is(1) [OF wf html, of name] empty_name_absent(2) [OF wf html]
      by (cases "name = []") (simp_all add: attr_look_def attr_key_def)
  }
qed

interpretation attrs: keyed_store "attr_inv M el" "attr_put el" "attr_drop el" "attr_look el" attr_key Some
  "\<lambda>v. Option.bind v (\<lambda>v. v)" attr_op_ok
  for M el
  by unfold_locales (simp_all only: attr_store_laws)

text \<open>
  C5: Any sequence of setAttribute, removeAttribute and getAttribute calls on an HTML element of an
  HTML document, under any names but \<open>#undef\<close>, runs without undefined behaviour and answers every
  read as an association list keyed by the lower-cased name does, up to the first set that is refused
  (its memory is, or its name is empty); an empty name is never found, and the attributes of every
  other element are untouched.
\<close>

theorem attribute_ops_refine:
  assumes "attrs_wf h M" and "html_element h el" and "\<forall>op \<in> set ops. attr_op_ok op"
  shows "\<exists>rs ok h'. run_attrs el ops h = Some (rs, ok, h') \<and>
     (ok \<longrightarrow> rs = fst (alist_attrs ops (M el)) \<and> attrs_wf h' (M(el := snd (alist_attrs ops (M el))))) \<and>
     (\<exists>rest. fst (alist_attrs ops (M el)) = rs @ rest)"
proof -
  have "attr_inv M el h (M el)" using assms(1,2) by (simp add: attr_inv_def)
  from attrs.run_refines [OF this assms(3)] show ?thesis by (auto simp: attr_inv_def)
qed

text \<open>
  C24: After a granted setAttribute of a name other than \<open>#undef\<close>, the value is read back under every
  spelling of the name, and hasAttribute is true; every other name (the empty one too, only \<open>#undef\<close>
  not), and every other HTML element, answers as before.
\<close>

theorem set_get_attribute:
  assumes "attrs_wf h M" and "html_element h el" and "attr_op_ok (Put name value)"
    and "lxb_dom_element_set_attribute h el name value = Some (Some a, h')"
    and "html_element h e" and "lower k \<noteq> ascii ''#undef''"
  shows "attr_read h' e k = (if e = el \<and> lower k = lower name then Some (Some value) else attr_read h e k) \<and>
    lxb_dom_element_has_attribute h' e k =
      (if e = el \<and> lower k = lower name then Some True else lxb_dom_element_has_attribute h e k)"
proof -
  have ok: "lower name \<noteq> ascii ''#undef''" "length name < 2 ^ 62" "length value < 2 ^ 62" using assms(3) by simp_all
  from set_attribute_is [OF assms(1,2) ok] assms(4) have wf: "attrs_wf h' (M(el := AList.update (lower name) (Some value) (M el)))"
    and "same_elements h h'" by auto
  with assms(5) have html: "html_element h' e" by (simp add: same_elements_def)
  show ?thesis
  proof (cases "k = []")
    case True
    then have "lower k \<noteq> lower name" using empty_name_refused [OF assms(1,2,4)] by simp
    with True show ?thesis by (simp add: empty_name_absent [OF wf html] empty_name_absent [OF assms(1,5)])
  next
    case False
    note after = attr_read_is [OF wf html False assms(6)] and before = attr_read_is [OF assms(1,5) False assms(6)]
    show ?thesis unfolding after before by (simp add: update_conv')
  qed
qed

text \<open>
  The name \<open>#undef\<close> is in the static table with the id 0, which is also the qualified name of every
  attribute that has none: the search loop stops at the first such attribute, whatever its name.
\<close>

lemma undef_finds_first:
  assumes wf: "attrs_wf h M" and el: "html_element h el" and name: "lower name = ascii ''#undef''"
    and a: "el_first_attr (the (elements h el)) = Some a" "attributes h a = Some x" "at_qualified_name x = 0"
  shows "lxb_dom_element_attr_by_name h el name = Some (Some a)" and "lxb_dom_element_attr_is_exist h el name = Some (Some a)"
proof -
  from html_element_at [OF wf el] obtain N d As H where e: "nodes h el = Some N" "owner_doc h el = Some d" "lower_case_names N d"
    "hashes h (doc_attrs d) = Some H" "attrs_ok H" and at: "el_at h el As (n_owner_document N) d H (M el)" by blast
  have "name \<noteq> []" using name by (auto simp: ascii_def)
  from data_by_local_name_is [OF e(5) this] obtain data where data: "lxb_dom_attr_data_by_local_name H (Some name) = Some data"
    "case data of None \<Rightarrow> \<forall>i. \<not> local_is H i (lower name)
     | Some p \<Rightarrow> \<exists>i. ptr_id lxb_dom_attr_res_data_default H p = Some i \<and> local_is H i (lower name)" by blast
  have zero: "local_is H 0 (lower name)" by (simp add: local_is_def name attr_static_0 LXB_DOM_ATTR__LAST_ENTRY_def)
  with data(2) obtain p i where p: "data = Some p" "ptr_id lxb_dom_attr_res_data_default H p = Some i" "local_is H i (lower name)"
    by (auto split: option.splits)
  with local_is_inj [OF e(5) zero p(3)] have "ptr_id lxb_dom_attr_res_data_default H p = Some 0" by simp
  moreover obtain n E where "nodes h a = Some n" "elements h el = Some E"
  proof -
    have "heap_typed h" using wf by (simp add: attrs_wf_def)
    then have "nodes h a \<noteq> None" using fresh_absent [of h a] a(2) by (cases "nodes h a") auto
    with el that show ?thesis by (auto simp: html_element_def)
  qed
  ultimately have "attr_by_data h el H data = Some (Some a)"
    using a p(1) by (simp add: attr_by_data_def named_def) (subst attr_loop.simps, simp add: named_def)
  with data(1) e show "lxb_dom_element_attr_by_name h el name = Some (Some a)" and "lxb_dom_element_attr_is_exist h el name = Some (Some a)"
    by (simp_all add: lxb_dom_element_attr_by_name_def lxb_dom_element_attr_is_exist_def)
qed

text \<open>So \<open>#undef\<close> reads, overwrites and removes the first attribute of the element.\<close>

lemma undef_names_first:
  assumes wf: "attrs_wf h M" and el: "html_element h el" and name: "lower name = ascii ''#undef''"
    and first: "el_first_attr (the (elements h el)) = Some a" "attributes h a = Some x" "at_qualified_name x = 0"
    and m: "M el = (k, v) # m" and len: "length val < 2 ^ 62"
  shows "attr_read h el name = Some v" and "lxb_dom_element_has_attribute h el name = Some True"
    and "\<exists>r h'. lxb_dom_element_set_attribute h el name val = Some (r, h') \<and>
      (r \<noteq> None \<longrightarrow> attrs_wf h' (M(el := (k, Some val) # m)))"
    and "\<exists>h'. lxb_dom_element_remove_attribute h el name = Some (LXB_STATUS_OK, h') \<and> attrs_wf h' (M(el := m))"
proof -
  note found = undef_finds_first [OF wf el name first]
  from html_element_at [OF wf el] obtain N d As H where "nodes h el = Some N" and at: "el_at h el As (n_owner_document N) d H (M el)" by blast
  then obtain bs where As: "As = a # bs" using first(1) m by (cases As) (auto simp: el_at_def attr_list_def)
  have at': "el_at h el ([] @ a # bs) (n_owner_document N) d H ([] @ (k, v) # m)" using at by (simp add: As m)
  have none: "length ([] :: addr list) = length ([] :: (bytes \<times> bytes option) list)" by simp
  have here: "attr_is h H a (k, v)" using at' by (simp add: el_at_def)
  then have val: "case at_value x of None \<Rightarrow> v = None | Some w \<Rightarrow> (\<exists>cs. v = Some cs \<and> str_is (text_arena h) w cs)"
    unfolding attr_is_def snd_conv using first(2) by auto
  show "attr_read h el name = Some v"
    using found(1) val first(2)
    by (auto simp: attr_read_def lxb_dom_element_get_attribute_def lxb_dom_attr_value_def dest!: str_is_read split: option.splits)
  show "lxb_dom_element_has_attribute h el name = Some True"
    using found(1) by (simp add: lxb_dom_element_has_attribute_def)
  from set_value_in_list [OF wf at' none len, unfolded append_Nil] obtain st h1 where r: "lxb_dom_attr_set_value h a val = Some (st, h1)"
    "if st = LXB_STATUS_OK then attrs_wf h1 (M(el := (k, Some val) # m)) \<and> same_elements h h1
     else \<exists>h2. lxb_dom_attr_interface_destroy h1 a = Some h2 \<and> gone_only h h2 a" by blast
  then show "\<exists>r h'. lxb_dom_element_set_attribute h el name val = Some (r, h') \<and>
      (r \<noteq> None \<longrightarrow> attrs_wf h' (M(el := (k, Some val) # m)))"
    using found(2) by (cases "st = LXB_STATUS_OK") (auto simp: lxb_dom_element_set_attribute_def)
  from el obtain E where "elements h el = Some E" by (auto simp: html_element_def)
  from remove_in_list [OF wf at' none this, unfolded append_Nil] obtain h1 h2 where "lxb_dom_attr_remove h a = Some h1"
    "lxb_dom_attr_interface_destroy h1 a = Some h2" "attrs_wf h2 (M(el := m))" by blast
  then show "\<exists>h'. lxb_dom_element_remove_attribute h el name = Some (LXB_STATUS_OK, h') \<and> attrs_wf h' (M(el := m))"
    using found(1) by (auto simp: lxb_dom_element_remove_attribute_def lxb_dom_element_attr_remove_def)
qed

text \<open>On the sample: the \<open>id\<close> attribute answers to \<open>#undef\<close>.\<close>

lemma sample_undef:
  "attr_read (sample_plan f) 6 (ascii ''#undef'') = Some (Some (ascii ''x''))"
  by (rule undef_names_first(1) [OF sample_attrs_wf, where a = 11 and k = "ascii ''id''" and m = "[]" and val = "[]"])
    (auto simp: html_element_def lower_case_names_def sample_defs LXB_NS_HTML_def sample_element_def sample_attrs_def
      ascii_def lexbor_str_res_map_lowercase_def)

text \<open>Walking onto a destroyed attribute is undefined.\<close>

lemma attr_loop_gone:
  assumes "attr_loop h hit s = Some (Some a)"
    and "nodes h' = (nodes h)(a := None)" and "attributes h' = (attributes h)(a := None)"
  shows "attributes h a \<noteq> None \<and> attr_loop h' hit s = None"
proof -
  let ?P = "\<lambda>g k s r. g = h \<longrightarrow> r = Some a \<longrightarrow> attributes h a \<noteq> None \<and> attr_loop h' k s = None"
  have "?P h hit s (Some a)"
  proof (rule attr_loop.raw_induct [where P = ?P, OF _ assms(1)])
    fix loop g k s r
    assume IH: "\<And>g k s r. loop g k s = Some r \<Longrightarrow> ?P g k s r"
      and run: "(if s = None then Some None else do {
        b \<leftarrow> s; n \<leftarrow> nodes g b; at \<leftarrow> attributes g b; if k n at then Some (Some b) else loop g k (at_next at) }) = Some r"
    show "?P g k s r"
    proof (intro impI)
      assume "g = h" and "r = Some a"
      then show "attributes h a \<noteq> None \<and> attr_loop h' k s = None"
        using run IH [of h k _ r] assms(2,3)
        by (subst attr_loop.simps) (auto simp: bind_eq_Some_conv split: if_splits)
    qed
  qed
  then show ?thesis by simp
qed

lemma element_not_attr:
  assumes "heap_typed h" and "elements h a \<noteq> None"
  shows "attributes h a = None"
proof (cases "nodes h a")
  case None
  with fresh_absent [OF assms(1)] show ?thesis by blast
next
  case (Some n)
  from heap_typed_kind [OF assms(1) this] assms(2) show ?thesis by (auto simp: kind_ok_def)
qed

text \<open>
  C34: When the memory for a new value of an attribute the element has is refused, setAttribute returns
  NULL and the attribute is gone, but it is still in the element's list: the element is as it was, and
  the next getAttribute of that name runs onto the freed attribute.
\<close>

theorem set_failure_dangles:
  assumes "attrs_wf h M" and "html_element h el" and "name \<noteq> []" and "lower name \<noteq> ascii ''#undef''"
    and "length value < 2 ^ 62" and "lower name \<in> fst ` set (M el)"
    and "lxb_dom_element_set_attribute h el name value = Some (None, h')"
  shows "(\<exists>a. lxb_dom_element_attr_by_name h el name = Some (Some a) \<and> attributes h a \<noteq> None \<and> attributes h' a = None) \<and>
    elements h' = elements h \<and> lxb_dom_element_get_attribute h' el name = None"
proof -
  from set_existing_is [OF assms(1-6)] assms(7) obtain a where a: "lxb_dom_element_attr_by_name h el name = Some (Some a)"
    and gone: "nodes h' = (nodes h)(a := None)" "attributes h' = (attributes h)(a := None)" "elements h' = elements h"
      "docs h' = docs h" "hashes h' = hashes h"
    by (auto simp: gone_only_def)
  from a obtain data where loop: "attr_loop h (named data) (el_first_attr (the (elements h el))) = Some (Some a)"
    by (auto simp: lxb_dom_element_attr_by_name_def attr_by_data_def bind_eq_Some_conv split: option.splits)
  have live: "attributes h a \<noteq> None" using attr_loop_gone [OF loop gone(1,2)] by simp
  then have "a \<noteq> el" using element_not_attr [of h el] assms(1,2) by (auto simp: attrs_wf_def html_element_def)
  then have "owner_doc h' el = owner_doc h el" "nodes h' el = nodes h el" by (simp_all add: gone owner_doc_def)
  then have "lxb_dom_element_attr_by_name h' el name = None"
    using a attr_loop_gone [OF _ gone(1,2)] unfolding lxb_dom_element_attr_by_name_def attr_by_data_def gone
    by (auto simp: bind_eq_Some_conv bind_eq_None_conv split: option.splits)
  then show ?thesis using a live by (simp add: gone lxb_dom_element_get_attribute_def)
qed

section \<open>Witnesses\<close>

lemma sample_html: "html_element (sample_plan f) 6" "html_element (sample_plan f) 3"
  by (auto simp: html_element_def lower_case_names_def sample_defs LXB_NS_HTML_def)

lemma sample_exist: "lxb_dom_element_attr_is_exist (sample_plan f) 6 (ascii ''ID'') = Some (Some 11)"
proof -
  have at: "el_at (sample_plan f) 6 [11] 1 sample_doc sample_table (sample_attrs 6)" using sample_el_at [of 6] by simp
  then have al: "attr_list (sample_plan f) 6 [11]" "list_all2 (attr_is (sample_plan f) sample_table) [11] (sample_attrs 6)"
    "owner_doc (sample_plan f) 6 = Some sample_doc" "hashes (sample_plan f) (doc_attrs sample_doc) = Some sample_table"
    by (auto simp: el_at_def in_doc_def owner_doc_def)
  have low: "lower (ascii ''ID'') = ascii ''id''" by (simp add: ascii_def lexbor_str_res_map_lowercase_def)
  from attr_by_local_is [OF sample_table_ok al(1,2), of "ascii ''ID''"] al(3,4) low show ?thesis
    by (auto simp: lxb_dom_element_attr_is_exist_def ascii_def sample_attrs_def attr_at_def)
qed

lemma sample_attr_11: "attributes sample_dom 11 = Some \<lparr>at_upper_name = 0, at_qualified_name = 0,
    at_value = Some \<lparr>str_data = Some 102, str_length = 1\<rparr>, at_owner = Some 6, at_next = None, at_prev = None\<rparr>"
  "owner_doc (sample_plan f) 11 = Some sample_doc" "\<exists>n. sample_nodes 11 = Some n \<and> docs sample_dom (n_owner_document n) = Some sample_doc"
  by (simp_all add: sample_doc_def owner_doc_def sample_defs)

lemma sample_arena: "text_arena (sample_plan f) = \<lparr>ar_blocks = [100 \<mapsto> [0x20, 0x0A, 0, 0, 0, 0, 0, 0],
    101 \<mapsto> [0x61, 0, 0, 0, 0, 0, 0, 0], 102 \<mapsto> [0x78, 0, 0, 0, 0, 0, 0, 0]], ar_fresh = 103, ar_reqs = 0, ar_plan = f,
    ar_slack = \<lambda>_. 0, ar_junk = \<lambda>_ _. 0xAA\<rparr>"
  by (simp add: sample_plan_def sample_dom_def)

lemmas set_value_defs = lxb_dom_attr_set_value_def value_struct_def value_room_def
  value_store_def wr_value_def wr_attr_def lexbor_str_size_def lexbor_str_realloc_def lxb_dom_document_node_cbs_def
  lexbor_mraw_data_size_def lexbor_mraw_realloc_def lexbor_mem_align_def blk_write_def Let_def

lemma sample_set_value: "\<exists>h. lxb_dom_attr_set_value (sample_plan f) 11 [121, 121] = Some (LXB_STATUS_OK, h)"
  by (simp add: set_value_defs sample_attr_11 sample_arena)

lemma sample_set_refused:
  "\<exists>h h'. lxb_dom_attr_set_value (sample_plan (\<lambda>_. None)) 11 (replicate 9 121) = Some (LXB_STATUS_ERROR_MEMORY_ALLOCATION, h) \<and>
     lxb_dom_attr_interface_destroy h 11 = Some h'"
  using sample_attr_11(3)
  by (auto simp: set_value_defs sample_attr_11(1,2) sample_arena lxb_dom_attr_interface_destroy_def lxb_dom_node_interface_destroy_def
    node_event_def obj_free_def obj_gone_def free_text_def lexbor_mraw_free_def)

lemma sample_set:
  "\<exists>h. lxb_dom_element_set_attribute (sample_plan f) 6 (ascii ''ID'') (ascii ''yy'') = Some (Some 11, h)"
  using sample_exist [of f] sample_set_value [of f] by (auto simp: lxb_dom_element_set_attribute_def ascii_def)

lemma sample_refused:
  "\<exists>h. lxb_dom_element_set_attribute (sample_plan (\<lambda>_. None)) 6 (ascii ''ID'') (replicate 9 121) = Some (None, h)"
  using sample_exist [of "\<lambda>_. None"] sample_set_refused by (auto simp: lxb_dom_element_set_attribute_def)

lemma attribute_ops_refine_witness:
  "\<exists>h'. run_attrs 6 [Put (ascii ''ID'') (ascii ''yy''), Look (ascii ''iD''), Drop (ascii ''Id''), Look (ascii ''id'')]
     (sample_plan (\<lambda>_. None)) = Some ([Some (ascii ''yy''), None], True, h') \<and> attrs_wf h' (\<lambda>_. [])"
proof -
  let ?ops = "[Put (ascii ''ID'') (ascii ''yy''), Look (ascii ''iD''), Drop (ascii ''Id''), Look (ascii ''id'')]"
  have ok: "\<forall>op \<in> set ?ops. attr_op_ok op" by (simp add: ascii_def lexbor_str_res_map_lowercase_def)
  have m: "alist_attrs ?ops (sample_attrs 6) = ([Some (ascii ''yy''), None], [])"
    by (simp add: attr_key_def sample_attrs_def ascii_def lexbor_str_res_map_lowercase_def)
  have all: "sample_attrs(6 := []) = (\<lambda>_. [])" by (simp add: sample_attrs_def fun_eq_iff)
  from attribute_ops_refine [OF sample_attrs_wf sample_html(1) ok, of "\<lambda>_. None"] obtain rs okay h' where
    r: "run_attrs 6 ?ops (sample_plan (\<lambda>_. None)) = Some (rs, okay, h')"
      "okay \<longrightarrow> rs = [Some (ascii ''yy''), None] \<and> attrs_wf h' (\<lambda>_. [])" unfolding m fst_conv snd_conv all by blast
  moreover have okay using r(1) sample_set [of "\<lambda>_. None"]
    by (auto simp: attr_put_def bind_eq_Some_conv)
  ultimately show ?thesis by simp
qed

lemma set_get_attribute_witness:
  "\<exists>h'. lxb_dom_element_set_attribute (sample_plan (\<lambda>_. None)) 6 (ascii ''ID'') (ascii ''yy'') = Some (Some 11, h') \<and>
     attr_read h' 6 (ascii ''iD'') = Some (Some (ascii ''yy'')) \<and>
     attr_read h' 3 (ascii ''id'') = attr_read (sample_plan (\<lambda>_. None)) 3 (ascii ''id'')"
proof -
  from sample_set [of "\<lambda>_. None"] obtain h' where
    r: "lxb_dom_element_set_attribute (sample_plan (\<lambda>_. None)) 6 (ascii ''ID'') (ascii ''yy'') = Some (Some 11, h')" by blast
  have ok: "attr_op_ok (Put (ascii ''ID'') (ascii ''yy''))" by (simp add: ascii_def lexbor_str_res_map_lowercase_def)
  have n: "lower (ascii s) \<noteq> ascii ''#undef''" if "s \<in> {''iD'', ''id''}" for s
    using that by (auto simp: ascii_def lexbor_str_res_map_lowercase_def)
  note set = set_get_attribute [OF sample_attrs_wf sample_html(1) ok r]
  have "lower (ascii ''iD'') = lower (ascii ''ID'')" by (simp add: ascii_def lexbor_str_res_map_lowercase_def)
  then show ?thesis
    using r set [OF sample_html(1) n [of "''iD''"]] set [OF sample_html(2) n [of "''id''"]] by simp
qed

lemma set_failure_dangles_witness:
  "\<exists>h'. lxb_dom_element_set_attribute (sample_plan (\<lambda>_. None)) 6 (ascii ''ID'') (replicate 9 121) = Some (None, h') \<and>
     el_first_attr (the (elements h' 6)) = Some 11 \<and> attributes h' 11 = None \<and>
     lxb_dom_element_get_attribute h' 6 (ascii ''ID'') = None"
proof -
  from sample_refused obtain h' where
    r: "lxb_dom_element_set_attribute (sample_plan (\<lambda>_. None)) 6 (ascii ''ID'') (replicate 9 121) = Some (None, h')" by blast
  have "ascii ''ID'' \<noteq> []" "lower (ascii ''ID'') \<noteq> ascii ''#undef''" "length (replicate 9 121 :: bytes) < 2 ^ 62"
    "lower (ascii ''ID'') \<in> fst ` set (sample_attrs 6)"
    by (simp_all add: ascii_def lexbor_str_res_map_lowercase_def sample_attrs_def)
  from set_failure_dangles [OF sample_attrs_wf sample_html(1) this r] obtain a where
    a: "attributes (sample_plan (\<lambda>_. None)) a \<noteq> None" "attributes h' a = None" "elements h' = elements (sample_plan (\<lambda>_. None))"
      "lxb_dom_element_get_attribute h' 6 (ascii ''ID'') = None" by blast
  from a(1) have "a = 11" by (auto simp: sample_dom_def split: if_splits)
  with a r show ?thesis by (simp add: sample_dom_def sample_element_def)
qed

end
