(* ===== verification/Html_Escape.thy ===== *)
theory Html_Escape
  imports Lexbor_Str Lexbor_Shs
begin

text \<open>
  What the HTML serializer (lexbor/html/serialize.c) writes through: the callback it is given, the two
  functions that escape text and attribute values, and two callbacks, the one that appends to a
  \<open>lexbor_str_t\<close> and the growing buffer of lexbor_bridge.c. What a serializer hands to its callback is
  stated by \<open>emits\<close>; what a callback promises is the locale \<open>text_callback\<close>, which gives the contract
  \<open>byte_sink\<close>.
\<close>

section \<open>Callbacks\<close>

text \<open>A callback gets some bytes and its context \<open>'c\<close>; it answers a status and changes the context.\<close>

type_synonym 'c callback = "bytes \<Rightarrow> 'c \<Rightarrow> (lxb_status \<times> 'c) option"

text \<open>
  Going on only if the status is OK: the macro \<open>lxb_html_serialize_send\<close>, and the statement
  \<open>if (status != LXB_STATUS_OK) return status\<close> after every call.
\<close>

definition checked :: "(lxb_status \<times> 'c) option \<Rightarrow> ('c \<Rightarrow> (lxb_status \<times> 'c) option) \<Rightarrow> (lxb_status \<times> 'c) option" where
  "checked r k = do { (status, c) \<leftarrow> r; (if status \<noteq> LXB_STATUS_OK then Some (status, c) else k c) }"

lemma checked_simps [simp]:
  "checked (Some (LXB_STATUS_OK, c)) k = k c"
  "status \<noteq> LXB_STATUS_OK \<Longrightarrow> checked (Some (status, c)) k = Some (status, c)"
  "checked None k = None"
  by (simp_all add: checked_def)

lemma checked_ok [simp]: "checked r (\<lambda>c. Some (LXB_STATUS_OK, c)) = r"
  by (cases r) (auto simp: checked_def)

lemma checked_assoc [simp]: "checked (checked r f) g = checked r (\<lambda>c. checked (f c) g)"
  by (cases r) (auto simp: checked_def)

lemma checked_cong [fundef_cong]:
  "r = r' \<Longrightarrow> (\<And>c. r' = Some (LXB_STATUS_OK, c) \<Longrightarrow> k c = k' c) \<Longrightarrow> checked r k = checked r' k'"
  by (cases r') (auto simp: checked_def)

lemma checked_mono [partial_function_mono]:
  assumes "mono_option B" and "\<And>c :: 'c. mono_option (\<lambda>f. C c f)"
  shows "mono_option (\<lambda>f. checked (B f) (\<lambda>c. C c f))"
proof -
  have *: "mono_option (\<lambda>f. if fst y \<noteq> LXB_STATUS_OK then Some y else C (snd y) f)" for y :: "lxb_status \<times> 'c"
    using assms(2) [of "snd y"] by (cases "fst y = LXB_STATUS_OK") (simp_all add: option.const_mono)
  have "mono_option (\<lambda>f. Option.bind (B f) (\<lambda>y. if fst y \<noteq> LXB_STATUS_OK then Some y else C (snd y) f))"
    by (rule bind_mono [OF assms(1)]) (rule *)
  then show ?thesis by (simp only: checked_def case_prod_unfold prod.collapse)
qed

text \<open>Handing pieces to a callback, in order.\<close>

primrec send_all :: "'c callback \<Rightarrow> bytes list \<Rightarrow> 'c \<Rightarrow> (lxb_status \<times> 'c) option" where
  "send_all cb [] c = Some (LXB_STATUS_OK, c)"
| "send_all cb (x # xs) c = checked (cb x c) (send_all cb xs)"

lemma send_all_fun: "send_all cb [] = (\<lambda>c. Some (LXB_STATUS_OK, c))" "send_all cb (x # xs) = (\<lambda>c. checked (cb x c) (send_all cb xs))"
  by (simp_all add: fun_eq_iff)

lemma send_all_append: "send_all cb (xs @ ys) = (\<lambda>c. checked (send_all cb xs c) (send_all cb ys))"
  by (induction xs) (simp_all add: send_all_fun)

text \<open>\<open>f\<close> hands to its callback exactly the bytes \<open>s\<close>, in pieces, until the callback refuses one.\<close>

definition emits :: "'c callback \<Rightarrow> ('c \<Rightarrow> (lxb_status \<times> 'c) option) \<Rightarrow> bytes \<Rightarrow> bool" where
  "emits cb f s \<longleftrightarrow> (\<exists>xs. concat xs = s \<and> f = send_all cb xs)"

named_theorems emits_intros \<open>what the pieces of a serializer emit\<close>

lemma emits_one [emits_intros]: "emits cb (cb x) x"
  unfolding emits_def by (intro exI [of _ "[x]"]) (simp add: send_all_fun)

lemma emits_none [emits_intros]: "emits cb (\<lambda>c. Some (LXB_STATUS_OK, c)) []"
  unfolding emits_def by (intro exI [of _ "[]"]) (simp add: send_all_fun)

lemma emits_seq [emits_intros]:
  assumes "emits cb f s" and "emits cb g t"
  shows "emits cb (\<lambda>c. checked (f c) g) (s @ t)"
proof -
  from assms obtain xs ys where "concat xs = s" "f = send_all cb xs" "concat ys = t" "g = send_all cb ys"
    unfolding emits_def by blast
  then show ?thesis unfolding emits_def by (intro exI [of _ "xs @ ys"]) (simp add: send_all_append)
qed

lemma emits_eq: "emits cb f s \<Longrightarrow> s = t \<Longrightarrow> emits cb f t"
  by simp

lemma emits_if: "(b \<Longrightarrow> emits cb f s) \<Longrightarrow> (\<not> b \<Longrightarrow> emits cb g t) \<Longrightarrow> emits cb (\<lambda>c. if b then f c else g c) (if b then s else t)"
  by simp

section \<open>Escaping\<close>

text \<open>The characters that are replaced, apart from the two bytes of a no-break space.\<close>

definition entity :: "bool \<Rightarrow> byte \<Rightarrow> bytes option" where
  "entity quot c =
     (if c = 0x26 then Some (ascii ''&amp;'')
      else if c = 0x3C then Some (ascii ''&lt;'')
      else if c = 0x3E then Some (ascii ''&gt;'')
      else if quot \<and> c = 0x22 then Some (ascii ''&quot;'')
      else None)"

definition nbsp :: bytes where "nbsp = ascii ''&nbsp;''"

text \<open>
  The loop over the bytes of a string: \<open>i\<close> is the position, \<open>pos\<close> the first byte not yet sent.
  \<open>quot\<close> is true in the function for attribute values.
\<close>

definition send_pending :: "'c callback \<Rightarrow> bytes \<Rightarrow> nat \<Rightarrow> nat \<Rightarrow> 'c \<Rightarrow> (lxb_status \<times> 'c) option" where
  "send_pending cb s pos i c = (if pos \<noteq> i then cb (take (i - pos) (drop pos s)) c else Some (LXB_STATUS_OK, c))"

function escape_loop :: "bool \<Rightarrow> 'c callback \<Rightarrow> bytes \<Rightarrow> nat \<Rightarrow> nat \<Rightarrow> 'c \<Rightarrow> (lxb_status \<times> 'c) option" where
  "escape_loop quot cb s pos i c =
     (if i < length s then
        (if s ! i = 0xC2 then
           (if i + 1 = length s then escape_loop quot cb s pos (i + 1) c
            else if s ! (i + 1) \<noteq> 0xA0 then escape_loop quot cb s pos (i + 1) c
            else checked (send_pending cb s pos i c) (\<lambda>c. checked (cb nbsp c) (\<lambda>c. escape_loop quot cb s (i + 2) (i + 2) c)))
         else
           (case entity quot (s ! i) of
              Some e \<Rightarrow> checked (send_pending cb s pos i c) (\<lambda>c. checked (cb e c) (\<lambda>c. escape_loop quot cb s (i + 1) (i + 1) c))
            | None \<Rightarrow> escape_loop quot cb s pos (i + 1) c))
      else send_pending cb s pos i c)"
  by auto
termination by (relation "measure (\<lambda>(quot, cb, s, pos, i, c). length s - i)") auto

declare escape_loop.simps [simp del]

definition lxb_html_serialize_send_escaping_attribute_string :: "'c callback \<Rightarrow> bytes \<Rightarrow> 'c \<Rightarrow> (lxb_status \<times> 'c) option" where
  "lxb_html_serialize_send_escaping_attribute_string cb data = escape_loop True cb data 0 0"

definition lxb_html_serialize_send_escaping_string :: "'c callback \<Rightarrow> bytes \<Rightarrow> 'c \<Rightarrow> (lxb_status \<times> 'c) option" where
  "lxb_html_serialize_send_escaping_string cb data = escape_loop False cb data 0 0"

text \<open>The specification.\<close>

fun escape :: "bool \<Rightarrow> bytes \<Rightarrow> bytes" where
  "escape quot [] = []"
| "escape quot (x # xs) =
     (if x = 0xC2 \<and> take 1 xs = [0xA0] then nbsp @ escape quot (tl xs)
      else (case entity quot x of Some e \<Rightarrow> e | None \<Rightarrow> [x]) @ escape quot xs)"

lemma entity_C2 [simp]: "entity quot 0xC2 = None"
  by (simp add: entity_def)

lemma emits_pending: "pos \<le> i \<Longrightarrow> i \<le> length s \<Longrightarrow> emits cb (send_pending cb s pos i) (take (i - pos) (drop pos s))"
  by (cases "pos = i") (auto simp: send_pending_def [abs_def] intro: emits_intros)

lemma take_pending: "pos \<le> i \<Longrightarrow> i < length s \<Longrightarrow> take (Suc i - pos) (drop pos s) = take (i - pos) (drop pos s) @ [s ! i]"
  by (simp add: Suc_diff_le take_Suc_conv_app_nth)

lemma escape_loop_emits:
  "pos \<le> i \<Longrightarrow> i \<le> length s \<Longrightarrow>
     emits cb (escape_loop quot cb s pos i) (take (i - pos) (drop pos s) @ escape quot (drop i s))"
proof (induction "length s - i" arbitrary: pos i rule: less_induct)
  case less
  note p = emits_pending [OF less.prems, of cb]
  show ?case
  proof (cases "i < length s")
    case False
    then have "escape_loop quot cb s pos i = send_pending cb s pos i" by (auto simp: escape_loop.simps fun_eq_iff)
    with p False less.prems show ?thesis by simp
  next
    case True
    let ?x = "s ! i"
    have d: "drop i s = ?x # drop (Suc i) s" using True by (simp add: Cons_nth_drop_Suc)
    have skip: "emits cb (escape_loop quot cb s pos (Suc i)) (take (i - pos) (drop pos s) @ [?x] @ escape quot (drop (Suc i) s))"
      using less.hyps [of "Suc i" pos] less.prems True take_pending [OF less.prems(1) True] by simp
    show ?thesis
    proof (cases "?x = 0xC2 \<and> Suc i < length s \<and> s ! Suc i = 0xA0")
      case T: True
      have d2: "drop (Suc i) s = 0xA0 # drop (i + 2) s" using T Cons_nth_drop_Suc [of "Suc i" s] by simp
      have lt: "length s - (i + 2) < length s - i" using T True by linarith
      have "emits cb (escape_loop quot cb s (i + 2) (i + 2)) (escape quot (drop (i + 2) s))"
        using less.hyps [OF lt order_refl] T by simp
      then have "emits cb (\<lambda>c. checked (send_pending cb s pos i c) (\<lambda>c. checked (cb nbsp c) (\<lambda>c. escape_loop quot cb s (i + 2) (i + 2) c)))
          (take (i - pos) (drop pos s) @ nbsp @ escape quot (drop (i + 2) s))"
        by (intro emits_seq p emits_one)
      moreover have "escape_loop quot cb s pos i = (\<lambda>c. checked (send_pending cb s pos i c) (\<lambda>c. checked (cb nbsp c) (\<lambda>c. escape_loop quot cb s (i + 2) (i + 2) c)))"
        using T True by (simp add: fun_eq_iff escape_loop.simps [of quot cb s pos i])
      ultimately show ?thesis using T unfolding d d2 by simp
    next
      case F: False
      have one: "\<not> (?x = 0xC2 \<and> take 1 (drop (Suc i) s) = [0xA0])"
        using F by (cases "Suc i < length s") (auto simp: Cons_nth_drop_Suc [symmetric])
      show ?thesis
      proof (cases "entity quot ?x")
        case None
        then have "escape_loop quot cb s pos i = escape_loop quot cb s pos (Suc i)"
          using F True by (auto simp: fun_eq_iff escape_loop.simps [of quot cb s pos i])
        with skip None one show ?thesis unfolding d by auto
      next
        case (Some e)
        then have "?x \<noteq> 0xC2" by auto
        then have "escape_loop quot cb s pos i = (\<lambda>c. checked (send_pending cb s pos i c) (\<lambda>c. checked (cb e c) (\<lambda>c. escape_loop quot cb s (i + 1) (i + 1) c)))"
          using Some True by (simp add: fun_eq_iff escape_loop.simps [of quot cb s pos i])
        moreover have "emits cb (escape_loop quot cb s (i + 1) (i + 1)) (escape quot (drop (i + 1) s))"
          using less.hyps [of "i + 1" "i + 1"] True by simp
        then have "emits cb (\<lambda>c. checked (send_pending cb s pos i c) (\<lambda>c. checked (cb e c) (\<lambda>c. escape_loop quot cb s (i + 1) (i + 1) c)))
            (take (i - pos) (drop pos s) @ e @ escape quot (drop (i + 1) s))"
          by (intro emits_seq p emits_one)
        ultimately show ?thesis using Some one unfolding d by auto
      qed
    qed
  qed
qed

lemma emits_escaping [emits_intros]:
  "emits cb (lxb_html_serialize_send_escaping_attribute_string cb s) (escape True s)"
  "emits cb (lxb_html_serialize_send_escaping_string cb s) (escape False s)"
  using escape_loop_emits [of 0 0 s cb] by (simp_all add: lxb_html_serialize_send_escaping_attribute_string_def [abs_def]
    lxb_html_serialize_send_escaping_string_def [abs_def])

text \<open>
  Reading escaped text again, as an HTML parser resolves these five named character references.
\<close>

definition references :: "(bytes \<times> bytes) list" where
  "references = [(ascii ''amp;'', [0x26]), (ascii ''nbsp;'', [0xC2, 0xA0]), (ascii ''lt;'', [0x3C]), (ascii ''gt;'', [0x3E]),
     (ascii ''quot;'', [0x22])]"

fun unescape :: "bytes \<Rightarrow> bytes" where
  "unescape [] = []"
| "unescape (x # xs) =
     (if x = 0x26 then
        (case find (\<lambda>(name, _). take (length name) xs = name) references of
           Some (name, cs) \<Rightarrow> cs @ unescape (drop (length name) xs)
         | None \<Rightarrow> x # unescape xs)
      else x # unescape xs)"

lemma unescape_refs:
  "unescape (ascii ''&amp;'' @ xs) = 0x26 # unescape xs" "unescape (ascii ''&lt;'' @ xs) = 0x3C # unescape xs"
  "unescape (ascii ''&gt;'' @ xs) = 0x3E # unescape xs" "unescape (ascii ''&quot;'' @ xs) = 0x22 # unescape xs"
  "unescape (nbsp @ xs) = 0xC2 # 0xA0 # unescape xs"
  by (simp_all add: ascii_def references_def nbsp_def)

lemma unescape_plain: "x \<noteq> 0x26 \<Longrightarrow> unescape (x # xs) = x # unescape xs"
  by simp

lemma entity_cases:
  "entity quot x = Some e \<Longrightarrow> unescape (e @ xs) = x # unescape xs"
  "entity quot x = None \<Longrightarrow> x \<noteq> 0x26"
  using unescape_refs by (auto simp: entity_def simp del: unescape.simps split: if_splits)

lemma unescape_escape: "unescape (escape quot s) = s"
proof (induction quot s rule: escape.induct)
  case (2 quot x xs)
  show ?case
  proof (cases "x = 0xC2 \<and> take 1 xs = [0xA0]")
    case True
    then have "xs = 0xA0 # tl xs" by (cases xs) auto
    with True 2(1) show ?thesis by (simp add: unescape_refs del: unescape.simps)
  next
    case False
    with 2(2) show ?thesis using entity_cases [of quot x] unescape_plain [of x]
      by (cases "entity quot x") (auto simp del: unescape.simps)
  qed
qed simp

lemma entity_safe: "entity quot x = Some e \<Longrightarrow> set e \<inter> {0x3C, 0x3E, 0x22} = {}"
  by (auto simp: entity_def ascii_def split: if_splits)

lemma escape_safe: "set (escape quot s) \<inter> ({0x3C, 0x3E} \<union> (if quot then {0x22} else {})) = {}"
proof (induction quot s rule: escape.induct)
  case (2 quot x xs)
  have n: "set nbsp \<inter> {0x3C, 0x3E, 0x22} = {}" by (simp add: nbsp_def ascii_def)
  have "entity quot x = None \<Longrightarrow> x \<notin> {0x3C, 0x3E} \<union> (if quot then {0x22} else {})" by (auto simp: entity_def)
  with 2 n entity_safe [of quot x] show ?case by (cases "entity quot x") (auto split: if_splits)
qed simp

section \<open>What a callback promises\<close>

text \<open>
  The context holds some bytes; a call appends its bytes and answers OK, or leaves them as they are and
  answers an error. \<open>limit\<close> bounds the bytes held.
\<close>

definition put_by :: "'c callback \<Rightarrow> 'c \<Rightarrow> bytes \<Rightarrow> (bool \<times> 'c) option" where
  "put_by cb c xs = map_option (\<lambda>(status, c). (status = LXB_STATUS_OK, c)) (cb xs c)"

lemma feed_put_by: "feed (put_by cb) c xs = map_option (\<lambda>(status, c). (status = LXB_STATUS_OK, c)) (send_all cb xs c)"
proof (induction xs arbitrary: c)
  case (Cons x xs)
  then show ?case by (cases "cb x c") (auto simp: put_by_def checked_def)
qed simp

locale text_callback =
  fixes cb :: "bytes \<Rightarrow> 'c \<Rightarrow> (lxb_status \<times> 'c) option"
    and holds :: "'c \<Rightarrow> bytes \<Rightarrow> bool"
    and limit :: nat
  assumes cb_law: "holds c cs \<Longrightarrow> length cs + length xs < limit \<Longrightarrow>
      \<exists>status c'. cb xs c = Some (status, c') \<and> holds c' (if status = LXB_STATUS_OK then cs @ xs else cs)"

sublocale text_callback \<subseteq> byte_sink "put_by cb" holds limit
proof
  fix c :: 'c and cs xs :: bytes
  assume "holds c cs" "length cs + length xs < limit"
  from cb_law [OF this] obtain status c' where "cb xs c = Some (status, c')"
    "holds c' (if status = LXB_STATUS_OK then cs @ xs else cs)" by blast
  then show "\<exists>ok c'. put_by cb c xs = Some (ok, c') \<and> holds c' (if ok then cs @ xs else cs)"
    by (intro exI [of _ "status = LXB_STATUS_OK"] exI [of _ c']) (simp add: put_by_def)
qed

context text_callback
begin

text \<open>A serializer that emits \<open>s\<close> appends \<open>s\<close>, or answers an error and has appended a beginning of it.\<close>

lemma emits_holds:
  assumes e: "emits cb f s" and c: "holds c cs" "length cs + length s < limit"
  shows "\<exists>status c' k. f c = Some (status, c') \<and> holds c' (cs @ take k s) \<and> (status = LXB_STATUS_OK \<longrightarrow> k = length s)"
proof -
  from e obtain xs where xs: "concat xs = s" "f = send_all cb xs" by (auto simp: emits_def)
  from feed_prefix [OF c(1), of xs] c(2) xs(1) obtain ok c' k where
    p: "feed (put_by cb) c xs = Some (ok, c')" "holds c' (cs @ concat (take k xs))" "if ok then k = length xs else k < length xs"
    by auto
  have pre: "concat (take k xs) = take (length (concat (take k xs))) s"
    using xs(1) by (metis append_eq_conv_conj append_take_drop_id concat_append)
  from p(1) obtain status where f: "f c = Some (status, c')" "ok = (status = LXB_STATUS_OK)"
    by (auto simp: feed_put_by xs(2))
  have "ok \<Longrightarrow> length (concat (take k xs)) = length s" using p(3) xs(1) by simp
  with f p(2) pre show ?thesis by (intro exI [of _ status] exI [of _ c'] exI [of _ "length (concat (take k xs))"]) auto
qed

end

section \<open>The string of \<open>lxb_html_serialize_str\<close>\<close>

definition lxb_html_serialize_str_callback :: "(lexbor_str \<times> arena) callback" where
  "lxb_html_serialize_str_callback data ctx = (case ctx of (str, mraw) \<Rightarrow> do {
     (ret, str, mraw) \<leftarrow> lexbor_str_append str mraw data;
     (if ret = None then Some (LXB_STATUS_ERROR_MEMORY_ALLOCATION, str, mraw)
      else Some (LXB_STATUS_OK, str, mraw)) })"

interpretation str_cb: text_callback lxb_html_serialize_str_callback "str_view A0 s0" "2 ^ 62" for A0 s0
proof
  fix c :: "lexbor_str \<times> arena" and cs xs :: bytes
  assume "str_view A0 s0 c cs" "length cs + length xs < 2 ^ 62"
  from string_sink.put_law [OF this] obtain ok c' where
    p: "str_put c xs = Some (ok, c')" "str_view A0 s0 c' (if ok then cs @ xs else cs)" by blast
  obtain s A where c: "c = (s, A)" by force
  from p(1) c obtain r s' A' where a: "lexbor_str_append s A xs = Some (r, s', A')" "ok = (r \<noteq> None)" "c' = (s', A')"
    by (auto simp: str_put_def)
  show "\<exists>status c'. lxb_html_serialize_str_callback xs c = Some (status, c') \<and>
      str_view A0 s0 c' (if status = LXB_STATUS_OK then cs @ xs else cs)"
    using a p(2) by (cases r) (auto simp: c lxb_html_serialize_str_callback_def)
qed

section \<open>The growing buffer of the bridge\<close>

text \<open>
  \<open>qb_strbuf_t\<close>: the block of the C heap behind \<open>data\<close>, the bytes used and the size asked for. The answers of
  \<open>realloc\<close> are a plan: request \<open>k\<close> fails when \<open>sb_fails k\<close>; the bytes behind the old contents are \<open>sb_junk\<close>.
\<close>

record qb_strbuf =
  sb_data :: bytes
  sb_len :: nat
  sb_cap :: nat
  sb_reqs :: nat
  sb_fails :: "nat \<Rightarrow> bool"
  sb_junk :: "nat \<Rightarrow> nat \<Rightarrow> byte"

definition sb_realloc :: "qb_strbuf \<Rightarrow> nat \<Rightarrow> bool \<times> qb_strbuf" where
  "sb_realloc buf n = (let r = sb_reqs buf; buf = buf\<lparr>sb_reqs := r + 1\<rparr> in
     if sb_fails buf r then (False, buf)
     else (True, buf\<lparr>sb_data := take n (sb_data buf) @ map (sb_junk buf r) [0..<n - length (sb_data buf)]\<rparr>))"

definition sb_write :: "qb_strbuf \<Rightarrow> nat \<Rightarrow> bytes \<Rightarrow> qb_strbuf option" where
  "sb_write buf off xs =
     (if off + length xs \<le> length (sb_data buf)
      then Some (buf\<lparr>sb_data := take off (sb_data buf) @ xs @ drop (off + length xs) (sb_data buf)\<rparr>) else None)"

text \<open>The sums of \<open>size_t\<close> wrap.\<close>

definition qb_strbuf_cb :: "qb_strbuf callback" where
  "qb_strbuf_cb data buf = (
     let need = (sb_len buf + length data) mod (SIZE_MAX + 1);
         new_cap = ((need + 1) * 2) mod (SIZE_MAX + 1);
         (ok, buf) = (if need \<ge> sb_cap buf
           then (case sb_realloc buf new_cap of (ok, buf) \<Rightarrow> (ok, if ok then buf\<lparr>sb_cap := new_cap\<rparr> else buf))
           else (True, buf))
     in if \<not> ok then Some (LXB_STATUS_ERROR_MEMORY_ALLOCATION, buf)
        else do {
          buf \<leftarrow> sb_write buf (sb_len buf) data;
          let buf = buf\<lparr>sb_len := sb_len buf + length data\<rparr>;
          buf \<leftarrow> sb_write buf (sb_len buf) [0];
          Some (LXB_STATUS_OK, buf) })"

text \<open>The buffer holds a C string, with its NUL inside the block.\<close>

definition sb_holds :: "qb_strbuf \<Rightarrow> bytes \<Rightarrow> bool" where
  "sb_holds buf cs \<longleftrightarrow> sb_len buf = length cs \<and> sb_cap buf = length (sb_data buf) \<and>
     (\<exists>rest. sb_data buf = cs @ 0 # rest)"

lemma sb_write_in: "off + length xs \<le> length (sb_data buf) \<Longrightarrow> sb_write buf off xs =
    Some (buf\<lparr>sb_data := take off (sb_data buf) @ xs @ drop (off + length xs) (sb_data buf)\<rparr>)"
  by (simp add: sb_write_def)

lemma sb_append:
  assumes "sb_len buf = length cs" and "sb_cap buf = length (sb_data buf)" and "take (length cs) (sb_data buf) = cs"
    and "length cs + length xs < length (sb_data buf)"
  shows "\<exists>b b'. sb_write buf (length cs) xs = Some b \<and>
      sb_write (b\<lparr>sb_len := sb_len b + length xs\<rparr>) (sb_len b + length xs) [0] = Some b' \<and> sb_len b = length cs \<and> sb_holds b' (cs @ xs)"
proof -
  let ?rest = "drop (length cs + length xs) (sb_data buf)"
  let ?b = "buf\<lparr>sb_data := cs @ xs @ ?rest\<rparr>"
  let ?b' = "buf\<lparr>sb_data := (cs @ xs) @ 0 # drop 1 ?rest, sb_len := length cs + length xs\<rparr>"
  have l: "length cs + length xs + length ?rest = length (sb_data buf)" using assms(4) by simp
  have 1: "sb_write buf (length cs) xs = Some ?b" using assms(3,4) by (subst sb_write_in) auto
  have "1 \<le> length ?rest" using assms(4) by simp
  with assms(1) have 2: "sb_write (?b\<lparr>sb_len := sb_len ?b + length xs\<rparr>) (sb_len ?b + length xs) [0] = Some ?b'"
    by (subst sb_write_in) (auto simp: take_append drop_append)
  have "sb_holds ?b' (cs @ xs)" using assms(2,4) l by (auto simp: sb_holds_def)
  with 1 2 assms(1) show ?thesis by (intro exI [of _ ?b] exI [of _ ?b']) auto
qed

interpretation strbuf_cb: text_callback qb_strbuf_cb sb_holds "2 ^ 62"
proof
  fix buf :: qb_strbuf and cs xs :: bytes
  assume h: "sb_holds buf cs" and n: "length cs + length xs < 2 ^ 62"
  then have len: "sb_len buf = length cs" "sb_cap buf = length (sb_data buf)" "take (length cs) (sb_data buf) = cs"
    "length cs < length (sb_data buf)" by (auto simp: sb_holds_def)
  let ?need = "length cs + length xs" and ?cap = "(length cs + length xs + 1) * 2"
  have w: "(sb_len buf + length xs) mod (SIZE_MAX + 1) = ?need" "((?need + 1) * 2) mod (SIZE_MAX + 1) = ?cap"
    using n len(1) by simp_all
  show "\<exists>status c'. qb_strbuf_cb xs buf = Some (status, c') \<and> sb_holds c' (if status = LXB_STATUS_OK then cs @ xs else cs)"
  proof (cases "?need \<ge> sb_cap buf")
    case False
    with sb_append [of buf cs xs] len obtain b b' where b: "sb_write buf (length cs) xs = Some b"
      "sb_write (b\<lparr>sb_len := sb_len b + length xs\<rparr>) (sb_len b + length xs) [0] = Some b'" "sb_len b = length cs" "sb_holds b' (cs @ xs)"
      by auto
    then have "qb_strbuf_cb xs buf = Some (LXB_STATUS_OK, b')"
      using False len unfolding qb_strbuf_cb_def Let_def w by (simp add: Let_def)
    with b(4) show ?thesis by simp
  next
    case True
    let ?buf1 = "buf\<lparr>sb_reqs := sb_reqs buf + 1\<rparr>"
    let ?buf2 = "buf\<lparr>sb_reqs := sb_reqs buf + 1,
      sb_data := take ?cap (sb_data buf) @ map (sb_junk buf (sb_reqs buf)) [0..<?cap - length (sb_data buf)], sb_cap := ?cap\<rparr>"
    show ?thesis
    proof (cases "sb_fails buf (sb_reqs buf)")
      case F: True
      then have "qb_strbuf_cb xs buf = Some (LXB_STATUS_ERROR_MEMORY_ALLOCATION, ?buf1)"
        using True unfolding qb_strbuf_cb_def Let_def w by (simp add: Let_def sb_realloc_def)
      with h show ?thesis by (auto simp: sb_holds_def)
    next
      case F: False
      have cap: "length (sb_data buf) \<le> ?cap" using True len(2) by simp
      then have l2: "length (sb_data ?buf2) = ?cap" by simp
      have "take (length cs) (sb_data ?buf2) = cs" using len(3,4) cap by (simp add: min_absorb1)
      with sb_append [of ?buf2 cs xs] len(1) l2 obtain b b' where b: "sb_write ?buf2 (length cs) xs = Some b"
        "sb_write (b\<lparr>sb_len := sb_len b + length xs\<rparr>) (sb_len b + length xs) [0] = Some b'" "sb_len b = length cs" "sb_holds b' (cs @ xs)"
        by auto
      then have "qb_strbuf_cb xs buf = Some (LXB_STATUS_OK, b')"
        using True F len unfolding qb_strbuf_cb_def Let_def w by (simp add: Let_def sb_realloc_def)
      with b(4) show ?thesis by simp
    qed
  qed
qed

section \<open>Properties\<close>

text \<open>
  C10: Both escaping functions hand a text to any callback that loses nothing when the five character references of
  HTML are resolved again: reading the output gives the very bytes back, whatever they are (also a lone or final
  byte 0xC2). The output contains no angle bracket, and for an attribute value no quotation mark: text written
  with them cannot open or close a tag, nor end an attribute value.
\<close>

theorem escaping_roundtrip:
  "\<exists>text value. emits cb (lxb_html_serialize_send_escaping_string cb s) text \<and> unescape text = s \<and> set text \<inter> {0x3C, 0x3E} = {} \<and>
     emits cb (lxb_html_serialize_send_escaping_attribute_string cb s) value \<and> unescape value = s \<and>
     set value \<inter> {0x22, 0x3C, 0x3E} = {}"
proof (intro exI conjI)
  show "set (escape False s) \<inter> {0x3C, 0x3E} = {}" using escape_safe [of False s] by simp
  show "set (escape True s) \<inter> {0x22, 0x3C, 0x3E} = {}" using escape_safe [of True s] by auto
qed (rule emits_escaping unescape_escape)+

text \<open>
  C21: The growing buffer of the bridge. Whatever pieces a serializer sends to \<open>qb_strbuf_cb\<close> and whichever reallocations fail, no byte is
  written outside the block as long as the text stays below 2^62 bytes; the buffer holds a C string, which is all
  of the text when the status is OK, and otherwise a beginning of it, still in a block that can be freed.
\<close>

theorem strbuf_collects:
  assumes "sb_holds buf cs" and "length cs + length (concat xs) < 2 ^ 62"
  shows "\<exists>status buf' k. send_all qb_strbuf_cb xs buf = Some (status, buf') \<and> sb_holds buf' (cs @ take k (concat xs)) \<and>
     (status = LXB_STATUS_OK \<longrightarrow> k = length (concat xs))"
proof (rule strbuf_cb.emits_holds [OF _ assms])
  show "emits qb_strbuf_cb (send_all qb_strbuf_cb xs) (concat xs)" unfolding emits_def by blast
qed

text \<open>Three pieces, the second of which makes the buffer grow beyond its first 64 bytes, the third after a failure.\<close>

lemma strbuf_collects_witness:
  "\<exists>status buf' k. send_all qb_strbuf_cb [ascii ''color: red; '', replicate 60 0x61, ascii '';'']
       \<lparr>sb_data = 0 # replicate 63 0xAA, sb_len = 0, sb_cap = 64, sb_reqs = 0, sb_fails = (\<lambda>k. k = 1), sb_junk = (\<lambda>_ _. 0xAA)\<rparr> =
         Some (status, buf') \<and>
     sb_holds buf' ([] @ take k (concat [ascii ''color: red; '', replicate 60 0x61, ascii '';''])) \<and>
     (status = LXB_STATUS_OK \<longrightarrow> k = length (concat [ascii ''color: red; '', replicate 60 0x61, ascii '';'']))"
  by (rule strbuf_collects) (simp_all add: sb_holds_def ascii_def)

end
