(* ===== verification/Lexbor_Array.thy ===== *)
theory Lexbor_Array
  imports QB_Prelude
begin

text \<open>
  The pointer arrays of lexbor (core/array.c, core/array.h) and the node collections built
  on them (dom/collection.c, dom/collection.h). An array is the malloc'ed block of its
  cells, where \<open>None\<close> is a cell that has not been written; reading such a cell, or any
  cell outside the block, is undefined. The abstract value is the list of the first
  \<open>length\<close> cells, and every operation is refined to the list operation it stands for,
  failures of the allocator included. The interface the collections and the queries use
  (append one value, or fail and keep what is there) is the locale \<open>appendable\<close>.
\<close>

section \<open>The C allocator\<close>

text \<open>The \<open>k\<close>-th request of the process succeeds when \<open>lc_plan k\<close> holds.\<close>

record libc =
  lc_reqs :: nat
  lc_plan :: "nat \<Rightarrow> bool"

definition lc_ask :: "libc \<Rightarrow> bool \<times> libc" where
  "lc_ask L = (lc_plan L (lc_reqs L), L\<lparr>lc_reqs := lc_reqs L + 1\<rparr>)"

text \<open>A request of \<open>sizeof(void *) * n\<close> bytes: the product is a \<open>size_t\<close> and may wrap.\<close>

definition ptr_cells :: "nat \<Rightarrow> nat" where
  "ptr_cells n = (8 * n) mod (SIZE_MAX + 1) div 8"

section \<open>Arrays\<close>

type_synonym pcell = "addr option option"

record lexbor_array =
  arr_list :: "pcell list option"
  arr_size :: nat
  arr_length :: nat

definition lexbor_array_create :: "libc \<Rightarrow> lexbor_array option \<times> libc" where
  "lexbor_array_create L = (let (ok, L) = lc_ask L in
     (if ok then Some \<lparr>arr_list = None, arr_size = 0, arr_length = 0\<rparr> else None, L))"

definition lexbor_array_init :: "libc \<Rightarrow> lexbor_array option \<Rightarrow> nat \<Rightarrow> lxb_status \<times> lexbor_array option \<times> libc" where
  "lexbor_array_init L array sz = (case array of
     None \<Rightarrow> (LXB_STATUS_ERROR_OBJECT_IS_NULL, None, L)
   | Some a \<Rightarrow>
      (if sz = 0 then (LXB_STATUS_ERROR_TOO_SMALL_SIZE, Some a, L)
       else let a = a\<lparr>arr_length := 0, arr_size := sz\<rparr>; (ok, L) = lc_ask L in
         if ok then (LXB_STATUS_OK, Some (a\<lparr>arr_list := Some (replicate (ptr_cells sz) None)\<rparr>), L)
         else (LXB_STATUS_ERROR_MEMORY_ALLOCATION, Some (a\<lparr>arr_list := None\<rparr>), L)))"

definition lexbor_array_clean :: "lexbor_array option \<Rightarrow> lexbor_array option" where
  "lexbor_array_clean array = map_option (\<lambda>a. a\<lparr>arr_length := 0\<rparr>) array"

definition lexbor_array_destroy :: "lexbor_array option \<Rightarrow> bool \<Rightarrow> lexbor_array option" where
  "lexbor_array_destroy array self_destroy = (case array of
     None \<Rightarrow> None
   | Some a \<Rightarrow>
      (let a = (if arr_list a \<noteq> None then a\<lparr>arr_length := 0, arr_size := 0, arr_list := None\<rparr> else a) in
       if self_destroy then None else Some a))"

text \<open>\<open>realloc\<close> keeps the cells that fit and adds uninitialised ones.\<close>

definition realloc_cells :: "nat \<Rightarrow> pcell list option \<Rightarrow> pcell list" where
  "realloc_cells n cells = (case cells of
     None \<Rightarrow> replicate n None
   | Some cs \<Rightarrow> take n cs @ replicate (n - length cs) None)"

definition lexbor_array_expand :: "libc \<Rightarrow> lexbor_array \<Rightarrow> nat \<Rightarrow> bool \<times> lexbor_array \<times> libc" where
  "lexbor_array_expand L a up_to =
     (if arr_length a > SIZE_MAX - up_to then (False, a, L)
      else let new_size = arr_length a + up_to; (ok, L) = lc_ask L in
        if ok then (True, a\<lparr>arr_list := Some (realloc_cells (ptr_cells new_size) (arr_list a)), arr_size := new_size\<rparr>, L)
        else (False, a, L))"

text \<open>Storing \<open>xs\<close> from cell \<open>i\<close> on, and reading \<open>n\<close> cells from \<open>i\<close>.\<close>

definition put_cells :: "lexbor_array \<Rightarrow> nat \<Rightarrow> pcell list \<Rightarrow> lexbor_array option" where
  "put_cells a i xs = (case arr_list a of
     None \<Rightarrow> if xs = [] then Some a else None
   | Some cs \<Rightarrow>
      (if i + length xs \<le> length cs then Some (a\<lparr>arr_list := Some (take i cs @ xs @ drop (i + length xs) cs)\<rparr>)
       else None))"

definition get_cells :: "lexbor_array \<Rightarrow> nat \<Rightarrow> nat \<Rightarrow> pcell list option" where
  "get_cells a i n = (case arr_list a of
     None \<Rightarrow> if n = 0 then Some [] else None
   | Some cs \<Rightarrow> if i + n \<le> length cs then Some (take n (drop i cs)) else None)"

definition load_cell :: "lexbor_array \<Rightarrow> nat \<Rightarrow> addr option option" where
  "load_cell a i = do { cs \<leftarrow> get_cells a i 1; hd cs }"

definition lexbor_array_push :: "libc \<Rightarrow> lexbor_array \<Rightarrow> addr option \<Rightarrow> (lxb_status \<times> lexbor_array \<times> libc) option" where
  "lexbor_array_push L a v =
     (let (ok, a, L) = (if arr_length a \<ge> arr_size a then lexbor_array_expand L a 128 else (True, a, L)) in
      if \<not> ok then Some (LXB_STATUS_ERROR_MEMORY_ALLOCATION, a, L)
      else do {
        a \<leftarrow> put_cells a (arr_length a) [Some v];
        Some (LXB_STATUS_OK, a\<lparr>arr_length := arr_length a + 1\<rparr>, L) })"

definition lexbor_array_pop :: "lexbor_array \<Rightarrow> (addr option \<times> lexbor_array) option" where
  "lexbor_array_pop a =
     (if arr_length a = 0 then Some (None, a)
      else do {
        let a = a\<lparr>arr_length := arr_length a - 1\<rparr>;
        v \<leftarrow> load_cell a (arr_length a);
        Some (v, a) })"

definition lexbor_array_insert ::
  "libc \<Rightarrow> lexbor_array \<Rightarrow> nat \<Rightarrow> addr option \<Rightarrow> (lxb_status \<times> lexbor_array \<times> libc) option" where
  "lexbor_array_insert L a idx v =
     (if idx \<ge> arr_length a
      then let up_to = (idx - arr_length a + 1) mod (SIZE_MAX + 1);
               (ok, a, L) = (if idx \<ge> arr_size a then lexbor_array_expand L a up_to else (True, a, L)) in
        if \<not> ok then Some (LXB_STATUS_ERROR_MEMORY_ALLOCATION, a, L)
        else do {
          a \<leftarrow> put_cells a (arr_length a) (replicate up_to (Some None));
          a \<leftarrow> put_cells a idx [Some v];
          Some (LXB_STATUS_OK, a\<lparr>arr_length := arr_length a + up_to\<rparr>, L) }
      else let (ok, a, L) = (if arr_length a \<ge> arr_size a then lexbor_array_expand L a 32 else (True, a, L)) in
        if \<not> ok then Some (LXB_STATUS_ERROR_MEMORY_ALLOCATION, a, L)
        else do {
          cs \<leftarrow> get_cells a idx (arr_length a - idx);
          a \<leftarrow> put_cells a (idx + 1) cs;
          a \<leftarrow> put_cells a idx [Some v];
          Some (LXB_STATUS_OK, a\<lparr>arr_length := arr_length a + 1\<rparr>, L) })"

definition lexbor_array_set ::
  "libc \<Rightarrow> lexbor_array \<Rightarrow> nat \<Rightarrow> addr option \<Rightarrow> (lxb_status \<times> lexbor_array \<times> libc) option" where
  "lexbor_array_set L a idx v =
     (if idx \<ge> arr_length a
      then let up_to = (idx - arr_length a + 1) mod (SIZE_MAX + 1);
               (ok, a, L) = (if idx \<ge> arr_size a then lexbor_array_expand L a up_to else (True, a, L)) in
        if \<not> ok then Some (LXB_STATUS_ERROR_MEMORY_ALLOCATION, a, L)
        else do {
          a \<leftarrow> put_cells a (arr_length a) (replicate up_to (Some None));
          let a = a\<lparr>arr_length := arr_length a + up_to\<rparr>;
          a \<leftarrow> put_cells a idx [Some v];
          Some (LXB_STATUS_OK, a, L) }
      else do {
        a \<leftarrow> put_cells a idx [Some v];
        Some (LXB_STATUS_OK, a, L) })"

definition lexbor_array_delete :: "lexbor_array \<Rightarrow> nat \<Rightarrow> nat \<Rightarrow> lexbor_array option" where
  "lexbor_array_delete a begin len =
     (if begin \<ge> arr_length a \<or> len = 0 then Some a
      else let end_len = (begin + len) mod (SIZE_MAX + 1) in
        if end_len \<ge> arr_length a then Some (a\<lparr>arr_length := begin\<rparr>)
        else do {
          cs \<leftarrow> get_cells a end_len (arr_length a - end_len);
          a \<leftarrow> put_cells a begin cs;
          Some (a\<lparr>arr_length := (arr_length a + (SIZE_MAX + 1) - len) mod (SIZE_MAX + 1)\<rparr>) })"

definition lexbor_array_get :: "lexbor_array \<Rightarrow> nat \<Rightarrow> addr option option" where
  "lexbor_array_get a idx = (if idx \<ge> arr_length a then Some None else load_cell a idx)"

section \<open>Collections\<close>

record lxb_dom_collection =
  co_array :: lexbor_array
  co_document :: "addr option"

definition lxb_dom_collection_create :: "libc \<Rightarrow> addr option \<Rightarrow> lxb_dom_collection option \<times> libc" where
  "lxb_dom_collection_create L document = (let (ok, L) = lc_ask L in
     if ok then (Some \<lparr>co_array = \<lparr>arr_list = None, arr_size = 0, arr_length = 0\<rparr>, co_document = document\<rparr>, L)
     else (None, L))"

definition lxb_dom_collection_init ::
  "libc \<Rightarrow> lxb_dom_collection option \<Rightarrow> nat \<Rightarrow> lxb_status \<times> lxb_dom_collection option \<times> libc" where
  "lxb_dom_collection_init L col start_list_size = (case col of
     None \<Rightarrow> (LXB_STATUS_ERROR_WRONG_ARGS, None, L)
   | Some c \<Rightarrow>
      (if co_document c = None then (LXB_STATUS_ERROR_INCOMPLETE_OBJECT, Some c, L)
       else let (status, arr, L) = lexbor_array_init L (Some (co_array c)) start_list_size in
         (status, map_option (\<lambda>a. c\<lparr>co_array := a\<rparr>) arr, L)))"

definition lxb_dom_collection_destroy :: "lxb_dom_collection option \<Rightarrow> bool \<Rightarrow> lxb_dom_collection option" where
  "lxb_dom_collection_destroy col self_destroy = (case col of
     None \<Rightarrow> None
   | Some c \<Rightarrow>
      (let c = (if arr_list (co_array c) \<noteq> None
         then c\<lparr>co_array := (the (lexbor_array_destroy (Some (co_array c)) False))\<lparr>arr_list := None\<rparr>\<rparr> else c) in
       if self_destroy then None else Some c))"

definition lxb_dom_collection_make :: "libc \<Rightarrow> addr option \<Rightarrow> nat \<Rightarrow> lxb_dom_collection option \<times> libc" where
  "lxb_dom_collection_make L document start_list_size =
     (let (col, L) = lxb_dom_collection_create L document;
          (status, col, L) = lxb_dom_collection_init L col start_list_size in
      if status \<noteq> LXB_STATUS_OK then (lxb_dom_collection_destroy col True, L) else (col, L))"

definition lxb_dom_collection_clean :: "lxb_dom_collection \<Rightarrow> lxb_dom_collection" where
  "lxb_dom_collection_clean col = col\<lparr>co_array := the (lexbor_array_clean (Some (co_array col)))\<rparr>"

definition lxb_dom_collection_append ::
  "libc \<Rightarrow> lxb_dom_collection \<Rightarrow> addr \<Rightarrow> (lxb_status \<times> lxb_dom_collection \<times> libc) option" where
  "lxb_dom_collection_append L col v =
     map_option (\<lambda>(st, a, L). (st, col\<lparr>co_array := a\<rparr>, L)) (lexbor_array_push L (co_array col) (Some v))"

definition lxb_dom_collection_element :: "lxb_dom_collection \<Rightarrow> nat \<Rightarrow> addr option option" where
  "lxb_dom_collection_element col idx = lexbor_array_get (co_array col) idx"

definition lxb_dom_collection_node :: "lxb_dom_collection \<Rightarrow> nat \<Rightarrow> addr option option" where
  "lxb_dom_collection_node col idx = lexbor_array_get (co_array col) idx"

definition lxb_dom_collection_length :: "lxb_dom_collection \<Rightarrow> nat" where
  "lxb_dom_collection_length col = arr_length (co_array col)"

section \<open>Arrays as lists\<close>

text \<open>
  \<open>arr_is a xs\<close>: the array \<open>a\<close> stands for the list \<open>xs\<close>. The block has \<open>size\<close> cells, of
  which the first \<open>length\<close> have been written; its size in bytes does not wrap.
\<close>

definition arr_is :: "lexbor_array \<Rightarrow> addr option list \<Rightarrow> bool" where
  "arr_is a xs \<longleftrightarrow> (\<exists>rest. arr_list a = Some (map Some xs @ rest) \<and> arr_length a = length xs \<and>
     arr_size a = length xs + length rest \<and> arr_size a < 2 ^ 61)"

lemma arr_isE:
  assumes "arr_is a xs"
  obtains rest where "arr_list a = Some (map Some xs @ rest)" and "arr_length a = length xs"
    and "arr_size a = length xs + length rest" and "arr_size a < 2 ^ 61"
  using assms by (auto simp: arr_is_def)

lemma arr_isI [intro]:
  "arr_list a = Some (map Some xs @ rest) \<Longrightarrow> arr_length a = length xs \<Longrightarrow>
   arr_size a = length xs + length rest \<Longrightarrow> arr_size a < 2 ^ 61 \<Longrightarrow> arr_is a xs"
  by (auto simp: arr_is_def)

lemma arr_is_unique: "arr_is a xs \<Longrightarrow> arr_is a ys \<Longrightarrow> xs = ys"
  by (auto simp: arr_is_def dest: append_eq_append_conv [THEN iffD1, rotated] map_injective [OF _ inj_Some])

lemma ptr_cells_exact [simp]: "n < 2 ^ 61 \<Longrightarrow> ptr_cells n = n"
  by (simp add: ptr_cells_def)

lemma init_is:
  "0 < sz \<Longrightarrow> sz < 2 ^ 61 \<Longrightarrow> lexbor_array_init L (Some a) sz = (st, a', L') \<Longrightarrow>
     st = LXB_STATUS_OK \<and> (\<exists>b. a' = Some b \<and> arr_is b []) \<or>
     st = LXB_STATUS_ERROR_MEMORY_ALLOCATION \<and> (\<exists>b. a' = Some b \<and> arr_list b = None)"
  by (auto simp: lexbor_array_init_def lc_ask_def arr_is_def Let_def split: if_splits)

text \<open>Expansion keeps the list and makes room.\<close>

lemma expand_is:
  assumes a: "arr_is a xs" and r: "arr_size a \<le> length xs + up" and up: "length xs + up < 2 ^ 61"
    and e: "lexbor_array_expand L a up = (ok, a', L')"
  shows "if ok then arr_is a' xs \<and> arr_size a' = length xs + up else a' = a"
proof -
  from a obtain rest where rest: "arr_list a = Some (map Some xs @ rest)" "arr_length a = length xs"
    "arr_size a = length xs + length rest" by (rule arr_isE)
  have "\<not> length xs > SIZE_MAX - up" using up by simp
  with e rest r up show ?thesis
    by (auto simp: lexbor_array_expand_def lc_ask_def Let_def realloc_cells_def split: if_splits
        intro!: arr_isI [where rest = "rest @ replicate (up - length rest) None"])
qed

lemma put_is:
  assumes a: "arr_is a xs" and fit: "length xs < arr_size a"
  shows "\<exists>b. put_cells a (length xs) [Some v] = Some b \<and> arr_is (b\<lparr>arr_length := length xs + 1\<rparr>) (xs @ [v]) \<and>
     arr_length b = length xs"
proof -
  from a obtain rest where rest: "arr_list a = Some (map Some xs @ rest)" "arr_length a = length xs"
    "arr_size a = length xs + length rest" "arr_size a < 2 ^ 61" by (rule arr_isE)
  with fit obtain c cs where "rest = c # cs" by (cases rest) auto
  with rest show ?thesis by (auto simp: put_cells_def intro!: arr_isI [where rest = cs])
qed

lemma put_nulls_is:
  assumes a: "arr_is a xs" and fit: "length xs + n \<le> arr_size a"
  shows "\<exists>b. put_cells a (length xs) (replicate n (Some None)) = Some b \<and>
     arr_is (b\<lparr>arr_length := length xs + n\<rparr>) (xs @ replicate n None) \<and> arr_length b = length xs"
proof -
  from a obtain rest where rest: "arr_list a = Some (map Some xs @ rest)" "arr_length a = length xs"
    "arr_size a = length xs + length rest" "arr_size a < 2 ^ 61" by (rule arr_isE)
  with fit show ?thesis by (auto simp: put_cells_def intro!: arr_isI [where rest = "drop n rest"])
qed

lemma put_at_is:
  assumes a: "arr_is a xs" and i: "i < length xs"
  shows "\<exists>b. put_cells a i [Some v] = Some b \<and> arr_is b (xs[i := v]) \<and> arr_length b = length xs \<and> arr_size b = arr_size a"
proof -
  from a obtain rest where rest: "arr_list a = Some (map Some xs @ rest)" "arr_length a = length xs"
    "arr_size a = length xs + length rest" "arr_size a < 2 ^ 61" by (rule arr_isE)
  with i show ?thesis
    by (auto simp: put_cells_def upd_conv_take_nth_drop take_map drop_map intro!: arr_isI [where rest = rest])
qed

lemma load_is: "arr_is a xs \<Longrightarrow> i < length xs \<Longrightarrow> load_cell a i = Some (xs ! i)"
proof -
  assume "arr_is a xs" and i: "i < length xs"
  then obtain rest where rest: "arr_list a = Some (map Some xs @ rest)" by (auto simp: arr_is_def)
  have "take 1 (drop i (map Some xs @ rest)) = [Some (xs ! i)]"
    using i by (simp add: take_Suc_conv_app_nth drop_map)
  with rest i show ?thesis by (simp add: load_cell_def get_cells_def)
qed


section \<open>The operations on lists\<close>

lemma push_is:
  assumes a: "arr_is a xs" and room: "length xs + 128 < 2 ^ 61"
  shows "\<exists>st a' L'. lexbor_array_push L a v = Some (st, a', L') \<and>
     (st = LXB_STATUS_OK \<and> arr_is a' (xs @ [v]) \<or> st = LXB_STATUS_ERROR_MEMORY_ALLOCATION \<and> a' = a)"
proof -
  have len: "arr_length a = length xs" using a by (auto elim: arr_isE)
  show ?thesis
  proof (cases "length xs \<ge> arr_size a")
    case False
    with put_is [OF a, of v] obtain b where "put_cells a (length xs) [Some v] = Some b"
      "arr_is (b\<lparr>arr_length := length xs + 1\<rparr>) (xs @ [v])" "arr_length b = length xs" by auto
    with len False show ?thesis by (simp add: lexbor_array_push_def)
  next
    case True
    obtain ok b L' where e: "lexbor_array_expand L a 128 = (ok, b, L')" by (metis prod_cases3)
    from expand_is [OF a _ room e] True have b: "if ok then arr_is b xs \<and> arr_size b = length xs + 128 else b = a" by simp
    show ?thesis
    proof (cases ok)
      case False
      with b e len True show ?thesis by (simp add: lexbor_array_push_def)
    next
      case ok: True
      with b have b: "arr_is b xs" "length xs < arr_size b" by auto
      from put_is [OF b, of v] obtain c where "put_cells b (length xs) [Some v] = Some c"
        "arr_is (c\<lparr>arr_length := length xs + 1\<rparr>) (xs @ [v])" "arr_length c = length xs" by auto
      moreover have "arr_length b = length xs" using b by (auto elim: arr_isE)
      ultimately show ?thesis using e len ok True by (simp add: lexbor_array_push_def)
    qed
  qed
qed

lemma pop_is:
  assumes a: "arr_is a xs"
  shows "\<exists>a'. lexbor_array_pop a = Some (if xs = [] then None else last xs, a') \<and> arr_is a' (butlast xs)"
proof (cases xs rule: rev_cases)
  case Nil
  with a show ?thesis by (auto simp: lexbor_array_pop_def elim: arr_isE)
next
  case (snoc ys y)
  from a obtain rest where rest: "arr_list a = Some (map Some xs @ rest)" "arr_length a = length xs"
    "arr_size a = length xs + length rest" "arr_size a < 2 ^ 61" by (rule arr_isE)
  have "load_cell (a\<lparr>arr_length := length ys\<rparr>) (length ys) = load_cell a (length ys)"
    by (simp add: load_cell_def get_cells_def)
  also have "\<dots> = Some y" using load_is [OF a, of "length ys"] snoc by simp
  finally show ?thesis using rest snoc
    by (auto simp: lexbor_array_pop_def intro!: arr_isI [where rest = "Some y # rest"])
qed

lemma get_is: "arr_is a xs \<Longrightarrow> lexbor_array_get a i = Some (if i < length xs then xs ! i else None)"
  using load_is [of a xs i] by (auto simp: lexbor_array_get_def not_le elim: arr_isE)

text \<open>Writing beyond the end fills the gap with \<open>NULL\<close>.\<close>

lemma grow_for:
  assumes a: "arr_is a xs" and i: "length xs \<le> i" "i + 1 < 2 ^ 61"
    and e: "(if i \<ge> arr_size a then lexbor_array_expand L a (i - length xs + 1) else (True, a, L)) = (ok, b, L')"
  shows "if ok then arr_is b xs \<and> arr_length b = length xs \<and> i < arr_size b else b = a"
proof (cases "i \<ge> arr_size a")
  case True
  with e have e': "lexbor_array_expand L a (i - length xs + 1) = (ok, b, L')" by simp
  from expand_is [OF a _ _ e'] i True show ?thesis by (auto elim: arr_isE split: if_splits)
next
  case False
  with e a show ?thesis by (auto elim: arr_isE)
qed

lemma set_is:
  assumes a: "arr_is a xs" and i: "i + 1 < 2 ^ 61"
  shows "\<exists>st a' L'. lexbor_array_set L a i v = Some (st, a', L') \<and>
     (st = LXB_STATUS_OK \<and> arr_is a' ((xs @ replicate (i + 1 - length xs) None)[i := v]) \<or>
      st = LXB_STATUS_ERROR_MEMORY_ALLOCATION \<and> length xs \<le> i \<and> a' = a)"
proof -
  have len: "arr_length a = length xs" using a by (auto elim: arr_isE)
  show ?thesis
  proof (cases "i < length xs")
    case True
    from put_at_is [OF a True, of v] obtain b where "put_cells a i [Some v] = Some b" "arr_is b (xs[i := v])" by auto
    with True len show ?thesis by (simp add: lexbor_array_set_def)
  next
    case False
    have up: "(i - length xs + 1) mod (SIZE_MAX + 1) = i - length xs + 1" using i by simp
    obtain ok b L' where e: "(if i \<ge> arr_size a then lexbor_array_expand L a (i - length xs + 1) else (True, a, L)) = (ok, b, L')"
      by (metis prod_cases3)
    from grow_for [OF a _ i e] False have g: "if ok then arr_is b xs \<and> arr_length b = length xs \<and> i < arr_size b else b = a" by simp
    have step: "lexbor_array_set L a i v = (if \<not> ok then Some (LXB_STATUS_ERROR_MEMORY_ALLOCATION, b, L')
        else do {
          c \<leftarrow> put_cells b (arr_length b) (replicate (i - length xs + 1) (Some None));
          d \<leftarrow> put_cells (c\<lparr>arr_length := arr_length c + (i - length xs + 1)\<rparr>) i [Some v];
          Some (LXB_STATUS_OK, d, L') })"
      using False unfolding lexbor_array_set_def Let_def len up e by simp
    show ?thesis
    proof (cases ok)
      case False
      with step g \<open>\<not> i < length xs\<close> show ?thesis by simp
    next
      case True
      with g have b: "arr_is b xs" "arr_length b = length xs" "i < arr_size b" by auto
      from put_nulls_is [OF b(1), of "i - length xs + 1"] b(3) False obtain c where
        c: "put_cells b (length xs) (replicate (i - length xs + 1) (Some None)) = Some c"
        "arr_is (c\<lparr>arr_length := length xs + (i - length xs + 1)\<rparr>) (xs @ replicate (i - length xs + 1) None)"
        "arr_length c = length xs" by auto
      from put_at_is [OF c(2), of i v] False obtain d where
        d: "put_cells (c\<lparr>arr_length := length xs + (i - length xs + 1)\<rparr>) i [Some v] = Some d"
        "arr_is d ((xs @ replicate (i - length xs + 1) None)[i := v])" by auto
      have "i + 1 - length xs = i - length xs + 1" using False by simp
      with step b(2) c(1,3) d True show ?thesis by simp
    qed
  qed
qed

lemma replicate_Suc_update: "(replicate (Suc n) x)[n := v] = replicate n x @ [v]"
  by (induction n) auto

lemma insert_is:
  assumes a: "arr_is a xs" and i: "i + 1 < 2 ^ 61" "length xs + 32 < 2 ^ 61"
  shows "\<exists>st a' L'. lexbor_array_insert L a i v = Some (st, a', L') \<and>
     (st = LXB_STATUS_OK \<and> arr_is a' (if i < length xs then take i xs @ v # drop i xs
        else xs @ replicate (i - length xs) None @ [v]) \<or>
      st = LXB_STATUS_ERROR_MEMORY_ALLOCATION \<and> a' = a)"
proof -
  have len: "arr_length a = length xs" using a by (auto elim: arr_isE)
  show ?thesis
  proof (cases "i < length xs")
    case False
    have up: "(i - length xs + 1) mod (SIZE_MAX + 1) = i - length xs + 1" using i by simp
    obtain ok b L' where e: "(if i \<ge> arr_size a then lexbor_array_expand L a (i - length xs + 1) else (True, a, L)) = (ok, b, L')"
      by (metis prod_cases3)
    from grow_for [OF a _ i(1) e] False have g: "if ok then arr_is b xs \<and> arr_length b = length xs \<and> i < arr_size b else b = a" by simp
    have step: "lexbor_array_insert L a i v = (if \<not> ok then Some (LXB_STATUS_ERROR_MEMORY_ALLOCATION, b, L')
        else do {
          c \<leftarrow> put_cells b (arr_length b) (replicate (i - length xs + 1) (Some None));
          d \<leftarrow> put_cells c i [Some v];
          Some (LXB_STATUS_OK, d\<lparr>arr_length := arr_length d + (i - length xs + 1)\<rparr>, L') })"
      using False unfolding lexbor_array_insert_def Let_def len up e by simp
    show ?thesis
    proof (cases ok)
      case False
      with step g show ?thesis by simp
    next
      case True
      with g have b: "arr_is b xs" "arr_length b = length xs" "i < arr_size b" by auto
      from put_nulls_is [OF b(1), of "i - length xs + 1"] b(3) False obtain c where
        c: "put_cells b (length xs) (replicate (i - length xs + 1) (Some None)) = Some c"
        "arr_is (c\<lparr>arr_length := length xs + (i - length xs + 1)\<rparr>) (xs @ replicate (i - length xs + 1) None)"
        "arr_length c = length xs" by auto
      let ?c = "c\<lparr>arr_length := length xs + (i - length xs + 1)\<rparr>"
      from put_at_is [OF c(2), of i v] False obtain d where
        d: "put_cells ?c i [Some v] = Some d" "arr_is d ((xs @ replicate (i - length xs + 1) None)[i := v])"
        "arr_length d = length (xs @ replicate (i - length xs + 1) None)" by auto
      have "put_cells c i [Some v] = Some (d\<lparr>arr_length := length xs\<rparr>)"
        using d(1) c(3) by (auto simp: put_cells_def split: option.splits if_splits)
      moreover have "(xs @ replicate (i - length xs + 1) None)[i := v] = xs @ replicate (i - length xs) None @ [v]"
        using False by (simp add: list_update_append replicate_Suc_update del: replicate_Suc)
      moreover have "d\<lparr>arr_length := length xs + (i - length xs + 1)\<rparr> = d" using d(3) by simp
      ultimately show ?thesis using step b(2) c(1) d(2) True False by simp
    qed
  next
    case True
    obtain ok b L' where e: "(if arr_length a \<ge> arr_size a then lexbor_array_expand L a 32 else (True, a, L)) = (ok, b, L')"
      by (metis prod_cases3)
    have g: "if ok then arr_is b xs \<and> arr_length b = length xs \<and> length xs < arr_size b else b = a"
    proof (cases "arr_length a \<ge> arr_size a")
      case True
      with e have e': "lexbor_array_expand L a 32 = (ok, b, L')" by simp
      from expand_is [OF a _ i(2) e'] True len show ?thesis by (auto elim: arr_isE split: if_splits)
    qed (use e a in \<open>auto elim: arr_isE\<close>)
    have step: "lexbor_array_insert L a i v = (if \<not> ok then Some (LXB_STATUS_ERROR_MEMORY_ALLOCATION, b, L')
        else do {
          cs \<leftarrow> get_cells b i (arr_length b - i);
          c \<leftarrow> put_cells b (i + 1) cs;
          d \<leftarrow> put_cells c i [Some v];
          Some (LXB_STATUS_OK, d\<lparr>arr_length := arr_length d + 1\<rparr>, L') })"
      using True unfolding lexbor_array_insert_def Let_def len e [unfolded len] by simp
    show ?thesis
    proof (cases ok)
      case False
      with step g show ?thesis by simp
    next
      case ok: True
      with g have b: "arr_is b xs" "arr_length b = length xs" "length xs < arr_size b" by auto
      from b(1) obtain rest where rest: "arr_list b = Some (map Some xs @ rest)" "arr_size b = length xs + length rest"
        "arr_size b < 2 ^ 61" by (rule arr_isE)
      with b(3) obtain c cs where r: "rest = c # cs" by (cases rest) auto
      have "take i (map Some xs @ rest) @ Some v # map Some (drop i xs) @ cs = map Some (take i xs @ v # drop i xs) @ cs"
        using True by (simp add: take_map)
      with step ok True b(2) rest r show ?thesis
        by (auto simp: get_cells_def put_cells_def drop_map take_map min_def intro!: arr_isI [where rest = cs])
    qed
  qed
qed

lemma delete_is:
  assumes a: "arr_is a xs" and i: "begin + len \<le> SIZE_MAX"
  shows "\<exists>a'. lexbor_array_delete a begin len = Some a' \<and> arr_is a' (take begin xs @ drop (begin + len) xs)"
proof -
  from a obtain rest where rest: "arr_list a = Some (map Some xs @ rest)" "arr_length a = length xs"
    "arr_size a = length xs + length rest" "arr_size a < 2 ^ 61" by (rule arr_isE)
  have m: "(begin + len) mod (SIZE_MAX + 1) = begin + len" using i by simp
  consider "begin \<ge> length xs \<or> len = 0" | "begin < length xs" "0 < len" "begin + len \<ge> length xs"
    | "begin + len < length xs" "0 < len" by linarith
  then show ?thesis
  proof cases
    case 1
    then have "take begin xs @ drop (begin + len) xs = xs" by auto
    with 1 a rest show ?thesis by (simp add: lexbor_array_delete_def)
  next
    case 2
    have "map Some xs @ rest = map Some (take begin xs) @ map Some (drop begin xs) @ rest"
      by (metis append.assoc append_take_drop_id map_append)
    with 2 rest m show ?thesis unfolding lexbor_array_delete_def Let_def
      by (auto intro!: arr_isI [where rest = "map Some (drop begin xs) @ rest"])
  next
    case 3
    let ?tail = "drop (length xs - len) (map Some xs @ rest)"
    have "(length xs + (SIZE_MAX + 1) - len) mod (SIZE_MAX + 1) = length xs - len"
    proof -
      have "length xs + (SIZE_MAX + 1) - len = (length xs - len) + (SIZE_MAX + 1)" using 3 by simp
      moreover have "length xs - len < SIZE_MAX + 1" using rest by simp
      ultimately show ?thesis by (metis mod_add_self2 mod_less)
    qed
    with 3 rest m show ?thesis unfolding lexbor_array_delete_def Let_def
      by (auto simp: get_cells_def put_cells_def take_map drop_map intro!: arr_isI [where rest = ?tail])
  qed
qed

section \<open>The interface: append or fail\<close>

text \<open>Appending values one by one, until one of them is refused.\<close>

fun push_all :: "('s \<Rightarrow> 'v \<Rightarrow> (lxb_status \<times> 's) option) \<Rightarrow> 's \<Rightarrow> 'v list \<Rightarrow> (lxb_status \<times> 's) option" where
  "push_all app s [] = Some (LXB_STATUS_OK, s)"
| "push_all app s (v # vs) = do {
     (st, s) \<leftarrow> app s v;
     (if st \<noteq> LXB_STATUS_OK then Some (st, s) else push_all app s vs) }"

locale appendable =
  fixes app :: "'s \<Rightarrow> 'v \<Rightarrow> (lxb_status \<times> 's) option"
    and view :: "'s \<Rightarrow> 'v list \<Rightarrow> bool"
    and limit :: nat
  assumes append_or_fail: "view s xs \<Longrightarrow> length xs < limit \<Longrightarrow>
      \<exists>st s'. app s v = Some (st, s') \<and>
        (st = LXB_STATUS_OK \<and> view s' (xs @ [v]) \<or> st = LXB_STATUS_ERROR_MEMORY_ALLOCATION \<and> view s' xs)"
begin

lemma push_all_prefix:
  "view s xs \<Longrightarrow> length xs + length vs \<le> limit \<Longrightarrow>
   \<exists>st s' k. push_all app s vs = Some (st, s') \<and> view s' (xs @ take k vs) \<and>
     (st = LXB_STATUS_OK \<and> k = length vs \<or> st = LXB_STATUS_ERROR_MEMORY_ALLOCATION \<and> k < length vs)"
proof (induction vs arbitrary: s xs)
  case Nil
  then show ?case by (auto intro: exI [of _ 0])
next
  case (Cons v vs)
  from append_or_fail [OF Cons.prems(1), of v] Cons.prems(2) obtain st s' where
    app: "app s v = Some (st, s')"
    and res: "st = LXB_STATUS_OK \<and> view s' (xs @ [v]) \<or> st = LXB_STATUS_ERROR_MEMORY_ALLOCATION \<and> view s' xs" by auto
  show ?case
  proof (cases "st = LXB_STATUS_OK")
    case True
    with res have "view s' (xs @ [v])" by simp
    from Cons.IH [OF this] Cons.prems(2) obtain st2 s2 k where
      "push_all app s' vs = Some (st2, s2)" "view s2 ((xs @ [v]) @ take k vs)"
      "st2 = LXB_STATUS_OK \<and> k = length vs \<or> st2 = LXB_STATUS_ERROR_MEMORY_ALLOCATION \<and> k < length vs" by auto
    with app True show ?thesis by (intro exI [of _ st2] exI [of _ s2] exI [of _ "Suc k"]) auto
  next
    case False
    with res app show ?thesis by (intro exI [of _ st] exI [of _ s'] exI [of _ 0]) auto
  qed
qed

end

text \<open>The arrays and the collections are such.\<close>

definition array_app :: "lexbor_array \<times> libc \<Rightarrow> addr option \<Rightarrow> (lxb_status \<times> lexbor_array \<times> libc) option" where
  "array_app s v = lexbor_array_push (snd s) (fst s) v"

definition collection_app ::
  "lxb_dom_collection \<times> libc \<Rightarrow> addr \<Rightarrow> (lxb_status \<times> lxb_dom_collection \<times> libc) option" where
  "collection_app s v = lxb_dom_collection_append (snd s) (fst s) v"

definition collection_is :: "lxb_dom_collection \<Rightarrow> addr list \<Rightarrow> bool" where
  "collection_is col xs \<longleftrightarrow> arr_is (co_array col) (map Some xs)"

interpretation arrays: appendable array_app "\<lambda>s. arr_is (fst s)" "2 ^ 60"
proof
  fix s :: "lexbor_array \<times> libc" and xs v
  assume "arr_is (fst s) xs" "length xs < 2 ^ 60"
  then show "\<exists>st s'. array_app s v = Some (st, s') \<and> (st = LXB_STATUS_OK \<and> arr_is (fst s') (xs @ [v]) \<or>
      st = LXB_STATUS_ERROR_MEMORY_ALLOCATION \<and> arr_is (fst s') xs)"
    using push_is [of "fst s" xs "snd s" v] by (auto simp: array_app_def)
qed

interpretation collections: appendable collection_app "\<lambda>s. collection_is (fst s)" "2 ^ 60"
proof
  fix s :: "lxb_dom_collection \<times> libc" and xs v
  assume "collection_is (fst s) xs" "length xs < 2 ^ 60"
  then show "\<exists>st s'. collection_app s v = Some (st, s') \<and> (st = LXB_STATUS_OK \<and> collection_is (fst s') (xs @ [v]) \<or>
      st = LXB_STATUS_ERROR_MEMORY_ALLOCATION \<and> collection_is (fst s') xs)"
    using push_is [of "co_array (fst s)" "map Some xs" "snd s" "Some v"]
    by (auto simp: collection_app_def lxb_dom_collection_append_def collection_is_def)
qed

lemma collection_make_spec:
  assumes "0 < cap" and "cap < 2 ^ 61" and "lxb_dom_collection_make L (Some doc) cap = (r, L')"
  shows "r = None \<or> (\<exists>col. r = Some col \<and> collection_is col [] \<and> co_document col = Some doc)"
proof -
  obtain ok M where ask: "lc_ask L = (ok, M)" by force
  let ?c = "\<lparr>co_array = \<lparr>arr_list = None, arr_size = 0, arr_length = 0\<rparr>, co_document = Some doc\<rparr>"
  obtain st a N where i: "lexbor_array_init M (Some (co_array ?c)) cap = (st, a, N)" by (metis prod_cases3)
  from init_is [OF assms(1,2) i] assms(3) ask i show ?thesis
    by (cases ok) (auto simp: lxb_dom_collection_make_def lxb_dom_collection_create_def lxb_dom_collection_init_def
      lxb_dom_collection_destroy_def collection_is_def split: if_splits)
qed

section \<open>Properties\<close>

definition sample_libc :: libc where
  "sample_libc = \<lparr>lc_reqs = 0, lc_plan = \<lambda>k. k \<noteq> 1\<rparr>"

definition sample_array :: lexbor_array where
  "sample_array = \<lparr>arr_list = Some [Some (Some 5), Some None], arr_size = 2, arr_length = 2\<rparr>"

lemma sample_array_is: "arr_is sample_array [Some 5, None]"
  by (rule arr_isI [where rest = "[]"]) (simp_all add: sample_array_def)

definition sample_collection :: lxb_dom_collection where
  "sample_collection = \<lparr>co_array = \<lparr>arr_list = Some [None], arr_size = 1, arr_length = 0\<rparr>, co_document = Some 1\<rparr>"

lemma sample_collection_is: "collection_is sample_collection []"
  by (simp add: collection_is_def arr_is_def sample_collection_def)

text \<open>
  On an array that stands for a list, inserting at any index below 2^61 - 1 never touches a cell outside the
  block and yields the list with the value at that index (the tail shifted, a gap filled with
  \<open>NULL\<close>), or reports failed allocation and leaves the array alone.
\<close>

theorem array_insert_list:
  assumes "arr_is a xs" and "i + 1 < 2 ^ 61" and "length xs + 32 < 2 ^ 61"
  shows "\<exists>st a' L'. lexbor_array_insert L a i v = Some (st, a', L') \<and>
     (st = LXB_STATUS_OK \<and> arr_is a' (if i < length xs then take i xs @ v # drop i xs
        else xs @ replicate (i - length xs) None @ [v]) \<or>
      st = LXB_STATUS_ERROR_MEMORY_ALLOCATION \<and> a' = a)"
  using assms by (rule insert_is)

theorem array_insert_list_witness:
  "\<exists>st a' L'. lexbor_array_insert sample_libc sample_array 1 (Some 9) = Some (st, a', L') \<and>
     (st = LXB_STATUS_OK \<and> arr_is a' [Some 5, Some 9, None] \<or>
      st = LXB_STATUS_ERROR_MEMORY_ALLOCATION \<and> a' = sample_array)"
  using array_insert_list [OF sample_array_is, of 1 sample_libc "Some 9"] by simp

text \<open>
  \<open>lexbor_array_delete\<close> removes the range from the list, clipped at its end, when \<open>begin + length\<close> does
  not wrap; when it wraps on a full array, it moves cells past the end of the block.
\<close>

theorem array_delete_list:
  assumes a: "arr_is a xs"
  shows "(begin + len \<le> SIZE_MAX \<longrightarrow>
      (\<exists>a'. lexbor_array_delete a begin len = Some a' \<and> arr_is a' (take begin xs @ drop (begin + len) xs))) \<and>
    (begin < length xs \<and> len \<le> SIZE_MAX \<and> begin + len > SIZE_MAX \<and> arr_size a = length xs \<longrightarrow>
      lexbor_array_delete a begin len = None)"
proof (intro conjI impI)
  show "begin + len \<le> SIZE_MAX \<Longrightarrow>
      \<exists>a'. lexbor_array_delete a begin len = Some a' \<and> arr_is a' (take begin xs @ drop (begin + len) xs)"
    by (rule delete_is [OF a])
  assume w: "begin < length xs \<and> len \<le> SIZE_MAX \<and> begin + len > SIZE_MAX \<and> arr_size a = length xs"
  from a obtain rest where rest: "arr_list a = Some (map Some xs @ rest)" "arr_length a = length xs"
    "arr_size a = length xs + length rest" "arr_size a < 2 ^ 61" by (rule arr_isE)
  let ?e = "begin + len - (SIZE_MAX + 1)"
  have "begin < SIZE_MAX + 1" using w rest by simp
  then have "?e < SIZE_MAX + 1" "begin + len = ?e + (SIZE_MAX + 1)" using w by auto
  then have m: "(begin + len) mod (SIZE_MAX + 1) = ?e" by (metis mod_add_self2 mod_less)
  have "?e < begin" using w by auto
  then have "\<not> begin + (length xs - ?e) \<le> length xs" using w by auto
  with rest w m \<open>?e < begin\<close> show "lexbor_array_delete a begin len = None"
    unfolding lexbor_array_delete_def Let_def m by (auto simp: get_cells_def put_cells_def)
qed

theorem array_delete_list_witness:
  "(\<exists>a'. lexbor_array_delete sample_array 0 1 = Some a' \<and> arr_is a' [None]) \<and>
   lexbor_array_delete sample_array 1 SIZE_MAX = None"
  using array_delete_list [OF sample_array_is, of 0 1] array_delete_list [OF sample_array_is, of 1 SIZE_MAX]
  by (simp add: sample_array_def)

text \<open>
  Appending nodes one after the other to a collection keeps, whatever requests for memory fail, exactly
  the nodes accepted before the first failure, in order, and reports the failure.
\<close>

theorem collection_push_all:
  assumes "collection_is col xs" and "length xs + length vs \<le> 2 ^ 60"
  shows "\<exists>st col' L' k. push_all collection_app (col, L) vs = Some (st, col', L') \<and> collection_is col' (xs @ take k vs) \<and>
     (st = LXB_STATUS_OK \<and> k = length vs \<or> st = LXB_STATUS_ERROR_MEMORY_ALLOCATION \<and> k < length vs)"
  using collections.push_all_prefix [of "(col, L)" xs vs] assms by fastforce

theorem collection_push_all_witness:
  "\<exists>st col' L' k. push_all collection_app (sample_collection, sample_libc) [7, 8, 9] = Some (st, col', L') \<and>
     collection_is col' (take k [7, 8, 9])"
proof -
  from collection_push_all [OF sample_collection_is, of "[7, 8, 9]" sample_libc] show ?thesis by auto
qed

end
