(* ===== verification/Dom_Query.thy ===== *)
theory Dom_Query
  imports Dom_Walk Lexbor_Array Dom_Attr_Sample
begin

text \<open>
  The queries of dom/interfaces/node.c: collecting the elements below a node by tag name, class or
  attribute value, and finding one by its \<open>id\<close>. Each is a walker for the simple walk; what the
  walkers collect is stated on the subtree in document order.
\<close>

section \<open>Walkers that collect\<close>

text \<open>The part of the walkers' context that changes: the status, the collection and the C library.\<close>

type_synonym collecting = "lxb_status \<times> lxb_dom_collection \<times> libc"

definition collect_node :: "addr \<Rightarrow> collecting \<Rightarrow> (lexbor_action \<times> collecting) option" where
  "collect_node node s = (case s of (_, col, L) \<Rightarrow> do {
     (status, col, L) \<leftarrow> lxb_dom_collection_append L col node;
     Some (if status \<noteq> LXB_STATUS_OK then LEXBOR_ACTION_STOP else LEXBOR_ACTION_OK, (status, col, L)) })"

text \<open>The part that does not change.\<close>

record lxb_dom_node_cb_ctx =
  cb_name_id :: nat
  cb_prefix_id :: nat
  cb_value :: bytes

section \<open>Names\<close>

text \<open>The position of the first colon.\<close>

fun memchr_from :: "nat \<Rightarrow> byte \<Rightarrow> bytes \<Rightarrow> nat option" where
  "memchr_from i c [] = None"
| "memchr_from i c (x # xs) = (if x = c then Some i else memchr_from (i + 1) c xs)"

definition memchr :: "byte \<Rightarrow> bytes \<Rightarrow> nat option" where
  "memchr c xs = memchr_from 0 c xs"

text \<open>
  The prefix, if there is a colon: its identifier and the name behind the colon. The table is searched
  for the whole name.
\<close>

definition split_prefix :: "lexbor_hash \<Rightarrow> bytes \<Rightarrow> (lxb_status + nat \<times> bytes) option" where
  "split_prefix prefix qname = (case memchr 0x3A qname of
     None \<Rightarrow> Some (Inr (LXB_NS__UNDEF, qname))
   | Some len \<Rightarrow>
       if len = 0 then Some (Inl LXB_STATUS_ERROR_WRONG_ARGS) else do {
         prefix_data \<leftarrow> lxb_ns_prefix_data_by_name prefix (Some qname);
         (case prefix_data of
           None \<Rightarrow> Some (Inl LXB_STATUS_STOP)
         | Some p \<Rightarrow> do {
             prefix_id \<leftarrow> ptr_id lxb_ns_prefix_res_data prefix p;
             (if len + 1 \<ge> length qname then Some (Inl LXB_STATUS_ERROR_WRONG_ARGS)
              else Some (Inr (prefix_id, drop (len + 1) qname))) }) })"

definition lxb_dom_node_prepare_by_attr :: "dom \<Rightarrow> addr \<Rightarrow> bytes \<Rightarrow> (lxb_status + nat \<times> nat) option" where
  "lxb_dom_node_prepare_by_attr h document qname = do {
     doc \<leftarrow> docs h document;
     prefix \<leftarrow> hashes h (doc_prefix doc);
     r \<leftarrow> split_prefix prefix qname;
     (case r of
       Inl status \<Rightarrow> Some (Inl status)
     | Inr (prefix_id, qname) \<Rightarrow> do {
         attrs \<leftarrow> hashes h (doc_attrs doc);
         attr_data \<leftarrow> lxb_dom_attr_data_by_local_name attrs (Some qname);
         (case attr_data of
           None \<Rightarrow> Some (Inl LXB_STATUS_STOP)
         | Some p \<Rightarrow> do {
             attr_id \<leftarrow> ptr_id lxb_dom_attr_res_data_default attrs p;
             Some (Inr (attr_id, prefix_id)) }) }) }"

definition lxb_dom_node_prepare_by :: "dom \<Rightarrow> addr \<Rightarrow> bytes \<Rightarrow> (lxb_status + nat \<times> nat) option" where
  "lxb_dom_node_prepare_by h document qname = do {
     doc \<leftarrow> docs h document;
     prefix \<leftarrow> hashes h (doc_prefix doc);
     r \<leftarrow> split_prefix prefix qname;
     (case r of
       Inl status \<Rightarrow> Some (Inl status)
     | Inr (prefix_id, qname) \<Rightarrow> do {
         tags \<leftarrow> hashes h (doc_tags doc);
         tag_data \<leftarrow> lxb_tag_data_by_name tags (Some qname);
         (case tag_data of
           None \<Rightarrow> Some (Inl LXB_STATUS_STOP)
         | Some p \<Rightarrow> do {
             tag_id \<leftarrow> ptr_id lxb_tag_res_data_default tags p;
             Some (Inr (tag_id, prefix_id)) }) }) }"

section \<open>By tag name\<close>

definition lxb_dom_node_by_tag_name_cb_all :: "dom \<Rightarrow> addr \<Rightarrow> collecting \<Rightarrow> (lexbor_action \<times> collecting) option" where
  "lxb_dom_node_by_tag_name_cb_all h node s = do {
     n \<leftarrow> nodes h node;
     (if n_type n \<noteq> LXB_DOM_NODE_TYPE_ELEMENT then Some (LEXBOR_ACTION_OK, s) else collect_node node s) }"

definition lxb_dom_node_by_tag_name_cb ::
  "dom \<Rightarrow> lxb_dom_node_cb_ctx \<Rightarrow> addr \<Rightarrow> collecting \<Rightarrow> (lexbor_action \<times> collecting) option" where
  "lxb_dom_node_by_tag_name_cb h ctx node s = do {
     n \<leftarrow> nodes h node;
     (if n_type n \<noteq> LXB_DOM_NODE_TYPE_ELEMENT then Some (LEXBOR_ACTION_OK, s)
      else if n_local_name n = cb_name_id ctx \<and> n_prefix n = cb_prefix_id ctx then collect_node node s
      else Some (LEXBOR_ACTION_OK, s)) }"

text \<open>A query answers its status and the collection; a name in no table is no error.\<close>

definition walk_collect :: "dom \<Rightarrow> addr \<Rightarrow> (addr \<Rightarrow> collecting \<Rightarrow> (lexbor_action \<times> collecting) option) \<Rightarrow>
  lxb_dom_collection \<Rightarrow> libc \<Rightarrow> collecting option" where
  "walk_collect h root cb col L = lxb_dom_node_simple_walk (nodes h) root cb (LXB_STATUS_OK, col, L)"

definition lxb_dom_node_by_tag_name ::
  "dom \<Rightarrow> addr \<Rightarrow> lxb_dom_collection \<Rightarrow> libc \<Rightarrow> bytes \<Rightarrow> collecting option" where
  "lxb_dom_node_by_tag_name h root col L qualified_name =
     (if qualified_name = [0x2A] then walk_collect h root (lxb_dom_node_by_tag_name_cb_all h) col L
      else do {
        r \<leftarrow> nodes h root;
        prepared \<leftarrow> lxb_dom_node_prepare_by h (n_owner_document r) qualified_name;
        (case prepared of
          Inl status \<Rightarrow> Some (if status = LXB_STATUS_STOP then LXB_STATUS_OK else status, col, L)
        | Inr (name_id, prefix_id) \<Rightarrow>
            walk_collect h root (lxb_dom_node_by_tag_name_cb h
              \<lparr>cb_name_id = name_id, cb_prefix_id = prefix_id, cb_value = []\<rparr>) col L) })"

section \<open>By class\<close>

text \<open>Does the word at the start of \<open>pos\<close> equal the wanted one; without case in quirks mode.\<close>

definition class_cmp :: "bool \<Rightarrow> bytes \<Rightarrow> bytes \<Rightarrow> bool option" where
  "class_cmp quirks pos val =
     (if quirks then lexbor_str_data_ncasecmp pos val (length val) else lexbor_str_data_ncmp pos val (length val))"

text \<open>The loop over the characters: \<open>pos\<close> is where the current word starts, \<open>i\<close> the offset of \<open>data\<close>.\<close>

function class_loop :: "bool \<Rightarrow> bytes \<Rightarrow> bytes \<Rightarrow> nat \<Rightarrow> nat \<Rightarrow> bool option" where
  "class_loop quirks chars val pos i =
     (if i < length chars then do {
        c \<leftarrow> rd chars i;
        (if lexbor_utils_whitespace c then do {
           is_it \<leftarrow> (if pos \<noteq> i \<and> i - pos = length val then class_cmp quirks (drop pos chars) val else Some False);
           (if is_it then Some True
            else if length chars - i < length val then Some False
            else class_loop quirks chars val (i + 1) (i + 1)) }
         else class_loop quirks chars val pos (i + 1)) }
      else if length chars - pos = length val then class_cmp quirks (drop pos chars) val
      else Some False)"
  by pat_completeness auto
termination
  by (relation "measure (\<lambda>(quirks, chars, val, pos, i). length chars - i)") auto

declare class_loop.simps [simp del]

definition lxb_dom_node_by_class_name_cb ::
  "dom \<Rightarrow> lxb_dom_node_cb_ctx \<Rightarrow> addr \<Rightarrow> collecting \<Rightarrow> (lexbor_action \<times> collecting) option" where
  "lxb_dom_node_by_class_name_cb h ctx node s = do {
     n \<leftarrow> nodes h node;
     (if n_type n \<noteq> LXB_DOM_NODE_TYPE_ELEMENT then Some (LEXBOR_ACTION_OK, s)
      else do {
        el \<leftarrow> elements h node;
        (case el_attr_class el of
          None \<Rightarrow> Some (LEXBOR_ACTION_OK, s)
        | Some a \<Rightarrow> do {
            at \<leftarrow> attributes h a;
            (case at_value at of
              None \<Rightarrow> Some (LEXBOR_ACTION_OK, s)
            | Some v \<Rightarrow>
                if str_length v < length (cb_value ctx) then Some (LEXBOR_ACTION_OK, s)
                else do {
                  chars \<leftarrow> str_chars (text_arena h) v;
                  doc \<leftarrow> docs h (n_owner_document n);
                  is_it \<leftarrow> class_loop (doc_compat_mode doc = LXB_DOM_DOCUMENT_CMODE_QUIRKS) chars (cb_value ctx) 0 0;
                  (if is_it then collect_node node s else Some (LEXBOR_ACTION_OK, s)) }) }) }) }"

definition lxb_dom_node_by_class_name ::
  "dom \<Rightarrow> addr \<Rightarrow> lxb_dom_collection \<Rightarrow> libc \<Rightarrow> bytes option \<Rightarrow> collecting option" where
  "lxb_dom_node_by_class_name h root col L class_name = (case class_name of
     None \<Rightarrow> Some (LXB_STATUS_OK, col, L)
   | Some name \<Rightarrow>
       if length name = 0 then Some (LXB_STATUS_OK, col, L)
       else walk_collect h root (lxb_dom_node_by_class_name_cb h \<lparr>cb_name_id = 0, cb_prefix_id = 0, cb_value = name\<rparr>) col L)"

section \<open>By attribute value\<close>

text \<open>The comparison functions: the attribute's value against the wanted one.\<close>

type_synonym attr_cmp = "dom \<Rightarrow> bytes \<Rightarrow> lxb_dom_attr \<Rightarrow> bool option"

definition value_cmp :: "(nat \<Rightarrow> nat \<Rightarrow> bool) \<Rightarrow> (bytes \<Rightarrow> bytes \<Rightarrow> bool option) \<Rightarrow> attr_cmp" where
  "value_cmp fits cmp h val at = (case at_value at of
     None \<Rightarrow> Some (length val = 0)
   | Some v \<Rightarrow>
       if fits (length val) (str_length v) then do {
         data \<leftarrow> str_chars (text_arena h) v;
         cmp data val }
       else Some False)"

definition lxb_dom_node_by_attr_cmp_full :: attr_cmp where
  "lxb_dom_node_by_attr_cmp_full = value_cmp (\<lambda>n m. n = m) (\<lambda>data val. lexbor_str_data_ncmp data val (length val))"

definition lxb_dom_node_by_attr_cmp_full_case :: attr_cmp where
  "lxb_dom_node_by_attr_cmp_full_case = value_cmp (\<lambda>n m. n = m) (\<lambda>data val. lexbor_str_data_ncasecmp data val (length val))"

definition lxb_dom_node_by_attr_cmp_begin :: attr_cmp where
  "lxb_dom_node_by_attr_cmp_begin = value_cmp (\<lambda>n m. n \<le> m) (\<lambda>data val. lexbor_str_data_ncmp data val (length val))"

definition lxb_dom_node_by_attr_cmp_begin_case :: attr_cmp where
  "lxb_dom_node_by_attr_cmp_begin_case = value_cmp (\<lambda>n m. n \<le> m) (\<lambda>data val. lexbor_str_data_ncasecmp data val (length val))"

definition lxb_dom_node_by_attr_cmp_end :: attr_cmp where
  "lxb_dom_node_by_attr_cmp_end = value_cmp (\<lambda>n m. n \<le> m)
     (\<lambda>data val. lexbor_str_data_ncmp_end (drop (length data - length val) data) val (length val))"

definition lxb_dom_node_by_attr_cmp_end_case :: attr_cmp where
  "lxb_dom_node_by_attr_cmp_end_case = value_cmp (\<lambda>n m. n \<le> m)
     (\<lambda>data val. lexbor_str_data_ncasecmp_end (drop (length data - length val) data) val (length val))"

definition lxb_dom_node_by_attr_cmp_contain :: attr_cmp where
  "lxb_dom_node_by_attr_cmp_contain = value_cmp (\<lambda>n m. n \<le> m)
     (\<lambda>data val. lexbor_str_data_ncmp_contain data (length data) val (length val))"

definition lxb_dom_node_by_attr_cmp_contain_case :: attr_cmp where
  "lxb_dom_node_by_attr_cmp_contain_case = value_cmp (\<lambda>n m. n \<le> m)
     (\<lambda>data val. lexbor_str_data_ncasecmp_contain data (length data) val (length val))"

definition lxb_dom_node_by_attr_cb ::
  "dom \<Rightarrow> lxb_dom_node_cb_ctx \<Rightarrow> attr_cmp \<Rightarrow> addr \<Rightarrow> collecting \<Rightarrow> (lexbor_action \<times> collecting) option" where
  "lxb_dom_node_by_attr_cb h ctx cmp_func node s = do {
     n \<leftarrow> nodes h node;
     (if n_type n \<noteq> LXB_DOM_NODE_TYPE_ELEMENT then Some (LEXBOR_ACTION_OK, s)
      else do {
        attr \<leftarrow> lxb_dom_element_attr_by_id h node (cb_name_id ctx);
        (case attr of
          None \<Rightarrow> Some (LEXBOR_ACTION_OK, s)
        | Some a \<Rightarrow> do {
            at \<leftarrow> attributes h a;
            hit \<leftarrow> (if length (cb_value ctx) = 0 \<and> (case at_value at of None \<Rightarrow> True | Some v \<Rightarrow> str_length v = 0)
              then Some True else cmp_func h (cb_value ctx) at);
            (if hit then collect_node node s else Some (LEXBOR_ACTION_OK, s)) }) }) }"

definition by_attr_with ::
  "attr_cmp \<Rightarrow> dom \<Rightarrow> addr \<Rightarrow> lxb_dom_collection \<Rightarrow> libc \<Rightarrow> bytes \<Rightarrow> bytes \<Rightarrow> collecting option" where
  "by_attr_with cmp_func h root col L qualified_name val = do {
     r \<leftarrow> nodes h root;
     prepared \<leftarrow> lxb_dom_node_prepare_by_attr h (n_owner_document r) qualified_name;
     (case prepared of
       Inl status \<Rightarrow> Some (if status = LXB_STATUS_STOP then LXB_STATUS_OK else status, col, L)
     | Inr (name_id, prefix_id) \<Rightarrow>
         walk_collect h root (lxb_dom_node_by_attr_cb h
           \<lparr>cb_name_id = name_id, cb_prefix_id = prefix_id, cb_value = val\<rparr> cmp_func) col L) }"

definition lxb_dom_node_by_attr where
  "lxb_dom_node_by_attr h root col L qualified_name val case_insensitive =
     by_attr_with (if case_insensitive then lxb_dom_node_by_attr_cmp_full_case else lxb_dom_node_by_attr_cmp_full)
       h root col L qualified_name val"

definition lxb_dom_node_by_attr_begin where
  "lxb_dom_node_by_attr_begin h root col L qualified_name val case_insensitive =
     by_attr_with (if case_insensitive then lxb_dom_node_by_attr_cmp_begin_case else lxb_dom_node_by_attr_cmp_begin)
       h root col L qualified_name val"

definition lxb_dom_node_by_attr_end where
  "lxb_dom_node_by_attr_end h root col L qualified_name val case_insensitive =
     by_attr_with (if case_insensitive then lxb_dom_node_by_attr_cmp_end_case else lxb_dom_node_by_attr_cmp_end)
       h root col L qualified_name val"

definition lxb_dom_node_by_attr_contain where
  "lxb_dom_node_by_attr_contain h root col L qualified_name val case_insensitive =
     by_attr_with (if case_insensitive then lxb_dom_node_by_attr_cmp_contain_case else lxb_dom_node_by_attr_cmp_contain)
       h root col L qualified_name val"

section \<open>By id\<close>

definition lxb_dom_node_by_id_cb :: "dom \<Rightarrow> bytes \<Rightarrow> addr \<Rightarrow> addr option \<Rightarrow> (lexbor_action \<times> addr option) option" where
  "lxb_dom_node_by_id_cb h val node found = do {
     n \<leftarrow> nodes h node;
     (if n_type n \<noteq> LXB_DOM_NODE_TYPE_ELEMENT then Some (LEXBOR_ACTION_OK, found)
      else do {
        el \<leftarrow> elements h node;
        (case el_attr_id el of
          None \<Rightarrow> Some (LEXBOR_ACTION_OK, found)
        | Some a \<Rightarrow> do {
            at \<leftarrow> attributes h a;
            (case at_value at of
              None \<Rightarrow> Some (LEXBOR_ACTION_OK, found)
            | Some v \<Rightarrow>
                if str_length v \<noteq> length val then Some (LEXBOR_ACTION_OK, found)
                else do {
                  data \<leftarrow> str_chars (text_arena h) v;
                  same \<leftarrow> lexbor_str_data_ncmp val data (length data);
                  (if same then Some (LEXBOR_ACTION_STOP, Some node) else Some (LEXBOR_ACTION_OK, found)) }) }) }) }"

definition lxb_dom_node_by_id :: "dom \<Rightarrow> addr \<Rightarrow> bytes \<Rightarrow> addr option option" where
  "lxb_dom_node_by_id h root qualified_name =
     lxb_dom_node_simple_walk (nodes h) root (lxb_dom_node_by_id_cb h qualified_name) None"

section \<open>What a collecting walk collects\<close>

lemma push_all_append:
  "push_all app s (xs @ ys) = do {
     (st, s) \<leftarrow> push_all app s xs;
     (if st \<noteq> LXB_STATUS_OK then Some (st, s) else push_all app s ys) }"
  by (induction app s xs rule: push_all.induct) (auto split: bind_split)

lemma visits_collect:
  shows "(\<And>a s. a \<in> set (preorder t) \<Longrightarrow> cb a s = (if P a then collect_node a s else Some (LEXBOR_ACTION_OK, s))) \<Longrightarrow>
     visit cb t (LXB_STATUS_OK, c) = map_option (\<lambda>(st, c). (st \<noteq> LXB_STATUS_OK, st, c)) (push_all collection_app c (filter P (preorder t)))"
    and "(\<And>a s. a \<in> set (preorders ts) \<Longrightarrow> cb a s = (if P a then collect_node a s else Some (LEXBOR_ACTION_OK, s))) \<Longrightarrow>
     visits cb ts (LXB_STATUS_OK, c) = map_option (\<lambda>(st, c). (st \<noteq> LXB_STATUS_OK, st, c)) (push_all collection_app c (filter P (preorders ts)))"
proof (induction t and ts arbitrary: c and c rule: rose_lists_roses_lists.induct)
  case (1 a ts)
  note IH = 1(1) [OF 1(2)]
  show ?case
  proof (cases "P a")
    case False
    with 1(2) [of a] IH show ?thesis by (simp del: push_all.simps)
  next
    case True
    with 1(2) [of a] have "cb a (LXB_STATUS_OK, c) = do {
        (st, c) \<leftarrow> collection_app c a;
        Some (if st \<noteq> LXB_STATUS_OK then LEXBOR_ACTION_STOP else LEXBOR_ACTION_OK, st, c) }"
      by (cases c) (simp add: collect_node_def collection_app_def split_def)
    with True IH show ?thesis by (auto split: bind_split)
  qed
next
  case (3 t ts)
  have IH: "visit cb t (LXB_STATUS_OK, c) = map_option (\<lambda>(st, c). (st \<noteq> LXB_STATUS_OK, st, c)) (push_all collection_app c (filter P (preorder t)))"
    "visits cb ts (LXB_STATUS_OK, d) = map_option (\<lambda>(st, c). (st \<noteq> LXB_STATUS_OK, st, c)) (push_all collection_app d (filter P (preorders ts)))" for d
    using 3 by auto
  show ?case
  proof (cases "push_all collection_app c (filter P (preorder t))")
    case None
    with IH(1) show ?thesis by (simp add: push_all_append)
  next
    case (Some r)
    then obtain st d where r: "push_all collection_app c (filter P (preorder t)) = Some (st, d)" by (cases r) simp
    then show ?thesis using IH(1) IH(2) [of d] by (cases "st = LXB_STATUS_OK") (simp_all add: push_all_append)
  qed
qed simp

lemma walk_collect_is:
  assumes f: "forest (nodes h) T" and t: "is_rose T (Rose root ts)" and root: "root \<in> dom (nodes h)"
    and cb: "\<And>a s. a \<in> set (preorders ts) \<Longrightarrow> cb a s = (if P a then collect_node a s else Some (LEXBOR_ACTION_OK, s))"
  shows "walk_collect h root cb col L = push_all collection_app (col, L) (filter P (preorders ts))"
  using simple_walk_visits [OF f t root, of cb "(LXB_STATUS_OK, col, L)"] visits_collect(2) [OF cb, of ts "(col, L)"]
  by (cases "push_all collection_app (col, L) (filter P (preorders ts))") (auto simp: walk_collect_def)

section \<open>Words of a class attribute\<close>

lemma ws_words_length: "w \<in> set (ws_words xs) \<Longrightarrow> length w \<le> length xs \<and> w \<noteq> []"
proof (induction xs rule: ws_words.induct)
  case (2 x xs)
  then show ?case using length_takeWhile_le [of "\<lambda>c. \<not> lexbor_utils_whitespace c" xs]
      length_dropWhile_le [of "\<lambda>c. \<not> lexbor_utils_whitespace c" xs] by (fastforce split: if_splits)
qed simp

lemma ws_words_word:
  assumes "xs \<noteq> []" and "\<forall>c \<in> set xs. \<not> lexbor_utils_whitespace c"
  shows "ws_words xs = [xs]" and "lexbor_utils_whitespace y \<Longrightarrow> ws_words (xs @ y # ys) = xs # ws_words ys"
proof -
  from assms obtain x zs where xs: "xs = x # zs" "\<not> lexbor_utils_whitespace x" "\<forall>c \<in> set zs. \<not> lexbor_utils_whitespace c"
    by (cases xs) auto
  have *: "takeWhile (\<lambda>c. \<not> lexbor_utils_whitespace c) zs = zs" "dropWhile (\<lambda>c. \<not> lexbor_utils_whitespace c) zs = []"
    using xs(3) by (simp_all add: takeWhile_eq_all_conv)
  show "ws_words xs = [xs]" by (simp only: xs(1,2) ws_words.simps if_False *)
  show "ws_words (xs @ y # ys) = xs # ws_words ys" if "lexbor_utils_whitespace y"
    using that xs by (simp add: takeWhile_append2 dropWhile_append2)
qed

definition fold_case :: "bool \<Rightarrow> bytes \<Rightarrow> bytes" where
  "fold_case quirks xs = (if quirks then lower xs else xs)"

lemma class_cmp_is:
  "length val \<le> length pos \<Longrightarrow> class_cmp quirks pos val = Some (fold_case quirks (take (length val) pos) = fold_case quirks val)"
  by (simp add: class_cmp_def fold_case_def lexbor_str_data_ncasecmp_def cmp_loop_is lexbor_str_data_ncmp_def memcmp_eq_def)

lemma fold_case_length: "fold_case q xs = fold_case q ys \<Longrightarrow> length xs = length ys"
  by (auto simp: fold_case_def dest: map_eq_imp_length_eq split: if_splits)

lemma class_loop_is:
  "val \<noteq> [] \<Longrightarrow> pos \<le> i \<Longrightarrow> i \<le> length chars \<Longrightarrow> \<forall>c \<in> set (take (i - pos) (drop pos chars)). \<not> lexbor_utils_whitespace c \<Longrightarrow>
    class_loop quirks chars val pos i =
      Some (\<exists>w \<in> set (ws_words (drop pos chars)). fold_case quirks w = fold_case quirks val)"
proof (induction quirks chars val pos i rule: class_loop.induct)
  case (1 quirks chars val pos i)
  let ?hit = "\<lambda>w. fold_case quirks w = fold_case quirks val"
  let ?w = "take (i - pos) (drop pos chars)"
  note prems = "1.prems"(2-) and val = "1.prems"(1)
  show ?case
  proof (cases "i < length chars")
    case True
    then have rd: "rd chars i = Some (chars ! i)" by (simp add: rd_def)
    have split: "drop pos chars = ?w @ chars ! i # drop (Suc i) chars"
      using True prems(1) by (metis Cons_nth_drop_Suc append_take_drop_id drop_drop le_add_diff_inverse2)
    show ?thesis
    proof (cases "lexbor_utils_whitespace (chars ! i)")
      case False
      have "take (Suc i - pos) (drop pos chars) = ?w @ [chars ! i]"
        using True prems(1) by (simp add: Suc_diff_le take_Suc_conv_app_nth)
      with False prems True rd "1.IH"(2) [OF True rd _ val] show ?thesis by (subst class_loop.simps) auto
    next
      case ws: True
      have words: "ws_words (drop pos chars) = (if pos = i then [] else [?w]) @ ws_words (drop (Suc i) chars)"
      proof (cases "pos = i")
        case True
        with split ws show ?thesis by simp
      next
        case False
        then have "?w \<noteq> []" using True prems(1) by simp
        with ws_words_word(2) [OF this prems(3) ws] False show ?thesis by (subst split) simp
      qed
      have is_it: "(if pos \<noteq> i \<and> i - pos = length val then class_cmp quirks (drop pos chars) val else Some False) =
          Some (pos \<noteq> i \<and> ?hit ?w)"
        using class_cmp_is [of val "drop pos chars" quirks] True prems(1)
        by (auto dest: fold_case_length)
      show ?thesis
      proof (cases "pos \<noteq> i \<and> ?hit ?w")
        case True
        with is_it words rd ws \<open>i < length chars\<close> show ?thesis by (subst class_loop.simps) simp
      next
        case no: False
        show ?thesis
        proof (cases "length chars - i < length val")
          case True
          have "\<not> ?hit w" if "w \<in> set (ws_words (drop (Suc i) chars))" for w
            using ws_words_length [OF that] True by (auto dest: fold_case_length)
          with no True is_it words rd ws \<open>i < length chars\<close> show ?thesis by (subst class_loop.simps) auto
        next
          case False
          have "class_loop quirks chars val (i + 1) (i + 1) = Some (\<exists>w \<in> set (ws_words (drop (i + 1) chars)). ?hit w)"
            by (rule "1.IH"(1) [OF \<open>i < length chars\<close> rd ws is_it no False val]) (use \<open>i < length chars\<close> prems in simp_all)
          with no False is_it words rd ws \<open>i < length chars\<close> show ?thesis by (subst class_loop.simps) auto
        qed
      qed
    qed
  next
    case False
    with prems have i: "i = length chars" and all: "\<forall>c \<in> set (drop pos chars). \<not> lexbor_utils_whitespace c" by simp_all
    have words: "ws_words (drop pos chars) = (if pos = i then [] else [drop pos chars])"
      using ws_words_word(1) [OF _ all] i by (cases "pos = i") (use prems(1) in auto)
    show ?thesis using i words class_cmp_is [of val "drop pos chars" quirks] prems(1) val
      by (subst class_loop.simps) (auto dest: fold_case_length)
  qed
qed

section \<open>What the queries answer\<close>

text \<open>Reading an attribute by the position of its name.\<close>

lemma attr_at_value:
  assumes "list_all2 (attr_is h H) As m"
  shows "case attr_at As m k of
      None \<Rightarrow> map_of m k = None
    | Some x \<Rightarrow> \<exists>y v. attributes h x = Some y \<and> map_of m k = Some v \<and>
        (case at_value y of None \<Rightarrow> v = None | Some s \<Rightarrow> \<exists>cs. v = Some cs \<and> str_is (text_arena h) s cs)"
proof (cases "attr_at As m k")
  case None
  with attr_at_None [OF assms, of k] have "map_of m k = None" by (simp add: map_of_eq_None_iff)
  with None show ?thesis by simp
next
  case (Some a)
  from attr_at_Some [OF assms Some] obtain xs v ys where s: "m = xs @ (k, v) # ys" "k \<notin> fst ` set xs"
    "attr_is h H a (k, v)" by blast
  have "map_of m k = Some v"
    using s(2) by (simp add: s(1) map_add_def map_of_eq_None_iff [THEN iffD2] split: option.splits)
  moreover from s(3) obtain y where "attributes h a = Some y"
    "case at_value y of None \<Rightarrow> v = None | Some w \<Rightarrow> (\<exists>cs. v = Some cs \<and> str_is (text_arena h) w cs)"
    unfolding attr_is_def snd_conv by blast
  ultimately show ?thesis using Some by simp
qed

lemma find_by_id:
  assumes "attrs_ok H" and "list_all2 (attr_is h H) As m" and "local_is H i k"
  shows "find (has_id h i) As = attr_at As m k"
proof (rule attr_at_find [OF assms(2)])
  fix a kv
  assume "attr_is h H a kv"
  then obtain n where n: "nodes h a = Some n" "local_is H (n_local_name n) (fst kv)" by (auto simp: attr_is_def)
  show "has_id h i a \<longleftrightarrow> fst kv = k"
  proof
    assume "has_id h i a"
    with n show "fst kv = k" using local_is_fun [of H i "fst kv" k] assms(3) by (simp add: has_id_def)
  next
    assume "fst kv = k"
    with n(2) have "n_local_name n = i" using local_is_inj [OF assms(1)] assms(3) by blast
    with n(1) show "has_id h i a" by (simp add: has_id_def)
  qed
qed

lemma str_is_chars: "str_is A s cs \<Longrightarrow> str_chars A s = Some cs \<and> str_length s = length cs"
  by (auto simp: str_is_def str_chars_def)

lemma local_is_static: "i < LXB_DOM_ATTR__LAST_ENTRY \<Longrightarrow> local_is H i (attr_static i)"
  by (simp add: local_is_def)

lemma static_class: "attr_static LXB_DOM_ATTR_CLASS = ascii ''class''" and static_id: "attr_static LXB_DOM_ATTR_ID = ascii ''id''"
  by (simp_all add: attr_static_def LXB_DOM_ATTR_CLASS_def LXB_DOM_ATTR_ID_def lxb_dom_attr_res_data_default_def name_data_def)

lemma heap_kind:
  assumes "heap_typed h" and "nodes h a = Some n"
  shows "n_type n = LXB_DOM_NODE_TYPE_ELEMENT \<longleftrightarrow> elements h a \<noteq> None"
  using heap_typed_kind [OF assms] by (auto simp: kind_ok_def)

text \<open>Does the class attribute of an element contain a word?\<close>

definition class_hit :: "dom \<Rightarrow> (addr \<Rightarrow> (bytes \<times> bytes option) list) \<Rightarrow> bytes \<Rightarrow> addr \<Rightarrow> bool" where
  "class_hit h M name a \<longleftrightarrow> (case (elements h a, nodes h a, map_of (M a) (ascii ''class'')) of
     (Some _, Some n, Some (Some cs)) \<Rightarrow> (case docs h (n_owner_document n) of
         None \<Rightarrow> False
       | Some d \<Rightarrow> \<exists>w \<in> set (ws_words cs).
           fold_case (doc_compat_mode d = LXB_DOM_DOCUMENT_CMODE_QUIRKS) w =
           fold_case (doc_compat_mode d = LXB_DOM_DOCUMENT_CMODE_QUIRKS) name)
   | _ \<Rightarrow> False)"

lemma class_cb_is:
  assumes wf: "attrs_wf h M" and name: "name \<noteq> []" and a: "a \<in> dom (nodes h)" and ctx: "cb_value ctx = name"
  shows "lxb_dom_node_by_class_name_cb h ctx a s = (if class_hit h M name a then collect_node a s else Some (LEXBOR_ACTION_OK, s))"
proof -
  from a obtain n where n: "nodes h a = Some n" by blast
  have ty: "heap_typed h" using wf by (simp add: attrs_wf_def)
  show ?thesis
  proof (cases "elements h a")
    case None
    with heap_kind [OF ty n] n show ?thesis by (simp add: lxb_dom_node_by_class_name_cb_def class_hit_def)
  next
    case (Some e)
    with heap_kind [OF ty n] have el: "n_type n = LXB_DOM_NODE_TYPE_ELEMENT" by simp
    from wf Some obtain As D d H where at: "el_at h a As D d H (M a)"
      unfolding attrs_wf_def attrs_are_el_at by blast
    then have doc: "docs h (n_owner_document n) = Some d" and ok: "attrs_ok H" and l2: "list_all2 (attr_is h H) As (M a)"
      and cls: "el_attr_class e = find (has_id h LXB_DOM_ATTR_CLASS) As"
      using n Some by (auto simp: el_at_def in_doc_def attr_list_def)
    have "local_is H LXB_DOM_ATTR_CLASS (ascii ''class'')"
      using local_is_static [of LXB_DOM_ATTR_CLASS H] static_class by (simp add: LXB_DOM_ATTR_CLASS_def LXB_DOM_ATTR__LAST_ENTRY_def)
    from find_by_id [OF ok l2 this] cls have c: "el_attr_class e = attr_at As (M a) (ascii ''class'')" by simp
    note val = attr_at_value [OF l2, of "ascii ''class''", folded c]
    show ?thesis
    proof (cases "el_attr_class e")
      case None
      with val n el Some show ?thesis by (simp add: lxb_dom_node_by_class_name_cb_def class_hit_def)
    next
      case (Some x)
      with val obtain y v where y: "attributes h x = Some y" "map_of (M a) (ascii ''class'') = Some v"
        "case at_value y of None \<Rightarrow> v = None | Some s \<Rightarrow> \<exists>cs. v = Some cs \<and> str_is (text_arena h) s cs" by auto
      show ?thesis
      proof (cases "at_value y")
        case None
        with y n el Some \<open>elements h a = Some e\<close> show ?thesis by (simp add: lxb_dom_node_by_class_name_cb_def class_hit_def)
      next
        case (Some str)
        with y(3) obtain cs where cs: "v = Some cs" "str_is (text_arena h) str cs" by auto
        note chars = str_is_chars [OF cs(2)]
        have loop: "class_loop q cs name 0 0 = Some (\<exists>w \<in> set (ws_words cs). fold_case q w = fold_case q name)" for q
          using class_loop_is [OF name, of 0 0 cs q] by simp
        have short: "\<not> (\<exists>w \<in> set (ws_words cs). fold_case q w = fold_case q name)" if "length cs < length name" for q
          using that ws_words_length [of _ cs] fold_case_length by (metis leD)
        show ?thesis
          using y(1,2) n el Some \<open>el_attr_class e = Some x\<close> \<open>elements h a = Some e\<close> cs(1) chars loop short ctx doc
          by (auto simp: lxb_dom_node_by_class_name_cb_def class_hit_def)
      qed
    qed
  qed
qed

lemma class_query:
  assumes wf: "attrs_wf h M" and f: "forest (nodes h) T" and t: "is_rose T (Rose root ts)" and root: "root \<in> dom (nodes h)"
    and name: "name \<noteq> []"
  shows "lxb_dom_node_by_class_name h root col L (Some name) =
    push_all collection_app (col, L) (filter (class_hit h M name) (preorders ts))"
proof -
  have "walk_collect h root (lxb_dom_node_by_class_name_cb h \<lparr>cb_name_id = 0, cb_prefix_id = 0, cb_value = name\<rparr>) col L =
      push_all collection_app (col, L) (filter (class_hit h M name) (preorders ts))"
    by (rule walk_collect_is [OF f t root], rule class_cb_is [OF wf name])
      (use below_dom [OF f t root] in auto)
  with name show ?thesis by (simp add: lxb_dom_node_by_class_name_def)
qed

text \<open>Does the element have an attribute of that name whose value is related to the wanted one?\<close>

definition attr_hit :: "dom \<Rightarrow> (addr \<Rightarrow> (bytes \<times> bytes option) list) \<Rightarrow> bytes \<Rightarrow> (bytes \<Rightarrow> bool) \<Rightarrow> addr \<Rightarrow> bool" where
  "attr_hit h M name rel a \<longleftrightarrow> elements h a \<noteq> None \<and> (case map_of (M a) name of
     None \<Rightarrow> False | Some v \<Rightarrow> rel (case v of None \<Rightarrow> [] | Some cs \<Rightarrow> cs))"

text \<open>The comparison functions compute relations between the wanted value and the attribute's.\<close>

definition cmp_is :: "attr_cmp \<Rightarrow> (bytes \<Rightarrow> bytes \<Rightarrow> bool) \<Rightarrow> bool" where
  "cmp_is cmp rel \<longleftrightarrow> rel [] [] \<and> (\<forall>h val at. (at_value at = None \<longrightarrow> cmp h val at = Some (rel val [])) \<and>
     (\<forall>v cs. at_value at = Some v \<longrightarrow> str_is (text_arena h) v cs \<longrightarrow> length cs \<le> SIZE_MAX \<longrightarrow> cmp h val at = Some (rel val cs)))"

lemma value_cmp_is:
  assumes "\<And>val cs. fits (length val) (length cs) \<Longrightarrow> length cs \<le> SIZE_MAX \<Longrightarrow> cmp cs val = Some (rel val cs)"
    and "\<And>val cs. \<not> fits (length val) (length cs) \<Longrightarrow> \<not> rel val cs" and "\<And>val. rel val [] \<longleftrightarrow> val = []"
  shows "cmp_is (value_cmp fits cmp) rel"
  using assms by (auto simp: cmp_is_def value_cmp_def dest!: str_is_chars)

lemma cmp_full_is: "cmp_is lxb_dom_node_by_attr_cmp_full (\<lambda>val cs. cs = val)"
  unfolding lxb_dom_node_by_attr_cmp_full_def
  by (rule value_cmp_is) (auto simp: lexbor_str_data_ncmp_def memcmp_eq_def)

lemma cmp_full_case_is: "cmp_is lxb_dom_node_by_attr_cmp_full_case (\<lambda>val cs. lower cs = lower val)"
  unfolding lxb_dom_node_by_attr_cmp_full_case_def
  by (rule value_cmp_is) (auto simp: lexbor_str_data_ncasecmp_def cmp_loop_is dest: map_eq_imp_length_eq)

lemma cmp_begin_is: "cmp_is lxb_dom_node_by_attr_cmp_begin (\<lambda>val cs. take (length val) cs = val)"
  unfolding lxb_dom_node_by_attr_cmp_begin_def
  by (rule value_cmp_is) (auto simp: lexbor_str_data_ncmp_def memcmp_eq_def)

lemma cmp_begin_case_is: "cmp_is lxb_dom_node_by_attr_cmp_begin_case (\<lambda>val cs. lower (take (length val) cs) = lower val)"
  unfolding lxb_dom_node_by_attr_cmp_begin_case_def
  by (rule value_cmp_is) (auto simp: lexbor_str_data_ncasecmp_def cmp_loop_is dest: map_eq_imp_length_eq)

lemma attr_cb_is:
  assumes wf: "attrs_wf h M" and a: "a \<in> dom (nodes h)" and cmp: "cmp_is cmp rel"
    and short: "\<And>k v. (k, Some v) \<in> set (M a) \<Longrightarrow> length v \<le> SIZE_MAX"
    and doc: "\<And>n d H. elements h a \<noteq> None \<Longrightarrow> nodes h a = Some n \<Longrightarrow> docs h (n_owner_document n) = Some d \<Longrightarrow>
      hashes h (doc_attrs d) = Some H \<Longrightarrow> local_is H (cb_name_id ctx) k"
  shows "lxb_dom_node_by_attr_cb h ctx cmp a s =
    (if attr_hit h M k (rel (cb_value ctx)) a then collect_node a s else Some (LEXBOR_ACTION_OK, s))"
proof -
  from a obtain n where n: "nodes h a = Some n" by blast
  have ty: "heap_typed h" using wf by (simp add: attrs_wf_def)
  show ?thesis
  proof (cases "elements h a")
    case None
    with heap_kind [OF ty n] n show ?thesis by (simp add: lxb_dom_node_by_attr_cb_def attr_hit_def)
  next
    case (Some e)
    with heap_kind [OF ty n] have el: "n_type n = LXB_DOM_NODE_TYPE_ELEMENT" by simp
    from wf Some obtain As D d H where at: "el_at h a As D d H (M a)"
      unfolding attrs_wf_def attrs_are_el_at by blast
    then have d: "docs h (n_owner_document n) = Some d" "hashes h (doc_attrs d) = Some H" and ok: "attrs_ok H"
      and l2: "list_all2 (attr_is h H) As (M a)" and first: "el_first_attr e = hd_or As None" and dl: "dll (attr_sib h) a None As None"
      and nd: "\<forall>x \<in> set As. nodes h x \<noteq> None"
      using n Some by (auto simp: el_at_def in_doc_def attr_list_def)
    have "local_is H (cb_name_id ctx) k" by (rule doc [OF _ n d]) (use Some in simp)
    from find_by_id [OF ok l2 this]
    have by_id: "find (\<lambda>x. \<exists>m y. nodes h x = Some m \<and> attributes h x = Some y \<and> n_local_name m = cb_name_id ctx) As = attr_at As (M a) k"
    proof (subst (asm) find_cong [OF refl, of As "has_id h (cb_name_id ctx)"])
      fix x assume "x \<in> set As"
      then have "\<exists>kv. attr_is h H x kv" using l2 by (metis in_set_conv_nth list_all2_conv_all_nth)
      then show "has_id h (cb_name_id ctx) x \<longleftrightarrow> (\<exists>m y. nodes h x = Some m \<and> attributes h x = Some y \<and> n_local_name m = cb_name_id ctx)"
        by (auto simp: attr_is_def has_id_def)
    qed
    have look: "lxb_dom_element_attr_by_id h a (cb_name_id ctx) = Some (attr_at As (M a) k)"
      using attr_loop_find [OF dl nd, of "\<lambda>n _. n_local_name n = cb_name_id ctx"] by_id Some first
      by (simp add: lxb_dom_element_attr_by_id_def)
    note val = attr_at_value [OF l2, of k]
    show ?thesis
    proof (cases "attr_at As (M a) k")
      case None
      with val n el Some look show ?thesis by (simp add: lxb_dom_node_by_attr_cb_def attr_hit_def)
    next
      case (Some x)
      with val obtain y v where y: "attributes h x = Some y" "map_of (M a) k = Some v"
        "case at_value y of None \<Rightarrow> v = None | Some s \<Rightarrow> \<exists>cs. v = Some cs \<and> str_is (text_arena h) s cs" by auto
      have in_m: "(k, v) \<in> set (M a)" using y(2) by (rule map_of_SomeD)
      let ?v = "case v of None \<Rightarrow> [] | Some cs \<Rightarrow> cs"
      have "(if length (cb_value ctx) = 0 \<and> (case at_value y of None \<Rightarrow> True | Some v \<Rightarrow> str_length v = 0)
          then Some True else cmp h (cb_value ctx) y) = Some (rel (cb_value ctx) ?v)"
      proof (cases "at_value y")
        case None
        with y(3) cmp show ?thesis by (simp add: cmp_is_def)
      next
        case (Some str)
        with y(3) obtain cs where cs: "v = Some cs" "str_is (text_arena h) str cs" by auto
        with in_m short have "length cs \<le> SIZE_MAX" by blast
        with cmp Some cs str_is_chars [OF cs(2)] show ?thesis by (auto simp: cmp_is_def)
      qed
      with y(1,2) n el look Some \<open>elements h a = Some e\<close> show ?thesis
        by (simp add: lxb_dom_node_by_attr_cb_def attr_hit_def)
    qed
  qed
qed

lemma all2_right: "list_all2 R As m \<Longrightarrow> kv \<in> set m \<Longrightarrow> \<exists>a \<in> set As. R a kv"
  by (induction rule: list_all2_induct) auto

lemma memchr_None: "c \<notin> set xs \<Longrightarrow> memchr_from i c xs = None"
  by (induction xs arbitrary: i) auto

lemma attr_query:
  assumes wf: "attrs_wf h M" and f: "forest (nodes h) T" and t: "is_rose T (Rose root ts)" and cmp: "cmp_is cmp rel"
    and r: "nodes h root = Some r" "docs h (n_owner_document r) = Some d" "hashes h (doc_prefix d) \<noteq> None"
      "hashes h (doc_attrs d) = Some H" "attrs_ok H"
    and own: "\<And>a n. a \<in> set (preorders ts) \<Longrightarrow> nodes h a = Some n \<Longrightarrow> n_owner_document n = n_owner_document r"
    and short: "\<And>a k v. a \<in> set (preorders ts) \<Longrightarrow> (k, Some v) \<in> set (M a) \<Longrightarrow> length v \<le> SIZE_MAX"
    and name: "name \<noteq> []" "0x3A \<notin> set name"
  shows "by_attr_with cmp h root col L name val =
    push_all collection_app (col, L) (filter (attr_hit h M (lower name) (rel val)) (preorders ts))"
proof -
  have root: "root \<in> dom (nodes h)" using r(1) by blast
  note below = below_dom [OF f t root]
  from data_by_local_name_is [OF r(5) name(1)] obtain p where p: "lxb_dom_attr_data_by_local_name H (Some name) = Some p"
    "case p of None \<Rightarrow> \<forall>i. \<not> local_is H i (lower name)
     | Some p \<Rightarrow> \<exists>i. ptr_id lxb_dom_attr_res_data_default H p = Some i \<and> local_is H i (lower name)" by blast
  have pre: "lxb_dom_node_prepare_by_attr h (n_owner_document r) name =
      (case p of None \<Rightarrow> Some (Inl LXB_STATUS_STOP) | Some p \<Rightarrow> map_option (\<lambda>i. Inr (i, LXB_NS__UNDEF)) (ptr_id lxb_dom_attr_res_data_default H p))"
    using r p(1) memchr_None [OF name(2)]
    by (auto simp: lxb_dom_node_prepare_by_attr_def split_prefix_def memchr_def map_conv_bind_option comp_def split: option.splits)
  show ?thesis
  proof (cases p)
    case None
    have "\<not> attr_hit h M (lower name) (rel val) a" if a: "a \<in> set (preorders ts)" for a
    proof
      assume hit: "attr_hit h M (lower name) (rel val) a"
      then obtain e where e: "elements h a = Some e" by (auto simp: attr_hit_def)
      with wf obtain As D d' H' where at: "el_at h a As D d' H' (M a)" unfolding attrs_wf_def attrs_are_el_at by blast
      then obtain n where n: "nodes h a = Some n" "docs h (n_owner_document n) = Some d'" "hashes h (doc_attrs d') = Some H'"
        and l2: "list_all2 (attr_is h H') As (M a)" by (auto simp: el_at_def in_doc_def)
      with own [OF a n(1)] r have H': "H' = H" by simp
      from hit obtain v where "map_of (M a) (lower name) = Some v" by (auto simp: attr_hit_def split: option.splits)
      then have "(lower name, v) \<in> set (M a)" by (rule map_of_SomeD)
      from all2_right [OF l2 this] H' obtain x where "attr_is h H x (lower name, v)" by blast
      with p(2) None show False by (auto simp: attr_is_def)
    qed
    then have "filter (attr_hit h M (lower name) (rel val)) (preorders ts) = []" by (simp add: filter_empty_conv)
    with None pre r(1) show ?thesis by (simp add: by_attr_with_def)
  next
    case (Some q)
    with p(2) obtain i where i: "ptr_id lxb_dom_attr_res_data_default H q = Some i" "local_is H i (lower name)" by auto
    let ?ctx = "\<lparr>cb_name_id = i, cb_prefix_id = LXB_NS__UNDEF, cb_value = val\<rparr>"
    have "walk_collect h root (lxb_dom_node_by_attr_cb h ?ctx cmp) col L =
        push_all collection_app (col, L) (filter (attr_hit h M (lower name) (rel (cb_value ?ctx))) (preorders ts))"
    proof (rule walk_collect_is [OF f t root], rule attr_cb_is [OF wf _ cmp])
      fix a assume a: "a \<in> set (preorders ts)"
      then show "a \<in> dom (nodes h)" using below by blast
      show "length v \<le> SIZE_MAX" if "(k, Some v) \<in> set (M a)" for k v using short [OF a that] .
      show "local_is H' (cb_name_id ?ctx) (lower name)" if "nodes h a = Some n" "docs h (n_owner_document n) = Some d'"
        "hashes h (doc_attrs d') = Some H'" for n d' H'
        using own [OF a that(1)] that r i(2) by simp
    qed
    with Some pre i r(1) show ?thesis by (simp add: by_attr_with_def)
  qed
qed

lemma tag_cb_is:
  assumes ty: "heap_typed h" and a: "a \<in> dom (nodes h)"
  shows "lxb_dom_node_by_tag_name_cb_all h a s = (if elements h a \<noteq> None then collect_node a s else Some (LEXBOR_ACTION_OK, s))"
    and "lxb_dom_node_by_tag_name_cb h ctx a s = (if elements h a \<noteq> None \<and>
      map_option (\<lambda>n. (n_local_name n, n_prefix n)) (nodes h a) = Some (cb_name_id ctx, cb_prefix_id ctx)
      then collect_node a s else Some (LEXBOR_ACTION_OK, s))"
proof -
  from a obtain n where n: "nodes h a = Some n" by blast
  note k = heap_kind [OF ty n]
  show "lxb_dom_node_by_tag_name_cb_all h a s = (if elements h a \<noteq> None then collect_node a s else Some (LEXBOR_ACTION_OK, s))"
    using k n by (simp add: lxb_dom_node_by_tag_name_cb_all_def)
  show "lxb_dom_node_by_tag_name_cb h ctx a s = (if elements h a \<noteq> None \<and>
      map_option (\<lambda>n. (n_local_name n, n_prefix n)) (nodes h a) = Some (cb_name_id ctx, cb_prefix_id ctx)
      then collect_node a s else Some (LEXBOR_ACTION_OK, s))"
    using k n by (cases "elements h a") (simp_all add: lxb_dom_node_by_tag_name_cb_def)
qed

lemma tag_query:
  assumes ty: "heap_typed h" and f: "forest (nodes h) T" and t: "is_rose T (Rose root ts)" and root: "root \<in> dom (nodes h)"
  shows "lxb_dom_node_by_tag_name h root col L [0x2A] =
      push_all collection_app (col, L) (filter (\<lambda>a. elements h a \<noteq> None) (preorders ts))"
    and "name \<noteq> [0x2A] \<Longrightarrow> nodes h root = Some r \<Longrightarrow>
      lxb_dom_node_prepare_by h (n_owner_document r) name = Some (Inr (tag_id, prefix_id)) \<Longrightarrow>
      lxb_dom_node_by_tag_name h root col L name = push_all collection_app (col, L)
        (filter (\<lambda>a. elements h a \<noteq> None \<and> map_option (\<lambda>n. (n_local_name n, n_prefix n)) (nodes h a) = Some (tag_id, prefix_id)) (preorders ts))"
proof -
  note below = below_dom [OF f t root]
  have "walk_collect h root (lxb_dom_node_by_tag_name_cb_all h) col L =
      push_all collection_app (col, L) (filter (\<lambda>a. elements h a \<noteq> None) (preorders ts))"
    by (rule walk_collect_is [OF f t root], rule tag_cb_is(1) [OF ty]) (use below in blast)
  then show "lxb_dom_node_by_tag_name h root col L [0x2A] =
      push_all collection_app (col, L) (filter (\<lambda>a. elements h a \<noteq> None) (preorders ts))"
    by (simp add: lxb_dom_node_by_tag_name_def)
  let ?ctx = "\<lparr>cb_name_id = tag_id, cb_prefix_id = prefix_id, cb_value = []\<rparr>"
  have "walk_collect h root (lxb_dom_node_by_tag_name_cb h ?ctx) col L = push_all collection_app (col, L)
        (filter (\<lambda>a. elements h a \<noteq> None \<and> map_option (\<lambda>n. (n_local_name n, n_prefix n)) (nodes h a) = Some (tag_id, prefix_id)) (preorders ts))"
    by (rule walk_collect_is [OF f t root], subst tag_cb_is(2) [OF ty]) (use below in auto)
  then show "name \<noteq> [0x2A] \<Longrightarrow> nodes h root = Some r \<Longrightarrow>
      lxb_dom_node_prepare_by h (n_owner_document r) name = Some (Inr (tag_id, prefix_id)) \<Longrightarrow>
      lxb_dom_node_by_tag_name h root col L name = push_all collection_app (col, L)
        (filter (\<lambda>a. elements h a \<noteq> None \<and> map_option (\<lambda>n. (n_local_name n, n_prefix n)) (nodes h a) = Some (tag_id, prefix_id)) (preorders ts))"
    by (simp add: lxb_dom_node_by_tag_name_def)
qed

text \<open>Finding an element by its \<open>id\<close>: the first in document order.\<close>

lemma visits_first:
  shows "(\<And>a. a \<in> set (preorder t) \<Longrightarrow> cb a None = (if P a then Some (LEXBOR_ACTION_STOP, Some a) else Some (LEXBOR_ACTION_OK, None))) \<Longrightarrow>
     visit cb t None = Some (find P (preorder t) \<noteq> None, find P (preorder t))"
    and "(\<And>a. a \<in> set (preorders ts) \<Longrightarrow> cb a None = (if P a then Some (LEXBOR_ACTION_STOP, Some a) else Some (LEXBOR_ACTION_OK, None))) \<Longrightarrow>
     visits cb ts None = Some (find P (preorders ts) \<noteq> None, find P (preorders ts))"
proof (induction t and ts rule: rose_lists_roses_lists.induct)
  case (3 t ts)
  then show ?case by (auto simp: find_append split: option.splits)
qed auto

definition id_hit :: "dom \<Rightarrow> (addr \<Rightarrow> (bytes \<times> bytes option) list) \<Rightarrow> bytes \<Rightarrow> addr \<Rightarrow> bool" where
  "id_hit h M val a \<longleftrightarrow> elements h a \<noteq> None \<and> map_of (M a) (ascii ''id'') = Some (Some val)"

lemma id_cb_is:
  assumes wf: "attrs_wf h M" and a: "a \<in> dom (nodes h)"
  shows "lxb_dom_node_by_id_cb h val a None =
    (if id_hit h M val a then Some (LEXBOR_ACTION_STOP, Some a) else Some (LEXBOR_ACTION_OK, None))"
proof -
  from a obtain n where n: "nodes h a = Some n" by blast
  have ty: "heap_typed h" using wf by (simp add: attrs_wf_def)
  show ?thesis
  proof (cases "elements h a")
    case None
    with heap_kind [OF ty n] n show ?thesis by (simp add: lxb_dom_node_by_id_cb_def id_hit_def)
  next
    case (Some e)
    with heap_kind [OF ty n] have el: "n_type n = LXB_DOM_NODE_TYPE_ELEMENT" by simp
    from wf Some obtain As D d H where at: "el_at h a As D d H (M a)"
      unfolding attrs_wf_def attrs_are_el_at by blast
    then have ok: "attrs_ok H" and l2: "list_all2 (attr_is h H) As (M a)" and id: "el_attr_id e = find (has_id h LXB_DOM_ATTR_ID) As"
      using Some by (auto simp: el_at_def in_doc_def attr_list_def)
    have "local_is H LXB_DOM_ATTR_ID (ascii ''id'')"
      using local_is_static [of LXB_DOM_ATTR_ID H] static_id by (simp add: LXB_DOM_ATTR_ID_def LXB_DOM_ATTR__LAST_ENTRY_def)
    from find_by_id [OF ok l2 this] id have c: "el_attr_id e = attr_at As (M a) (ascii ''id'')" by simp
    note val = attr_at_value [OF l2, of "ascii ''id''", folded c]
    show ?thesis
    proof (cases "el_attr_id e")
      case None
      with val n el Some show ?thesis by (simp add: lxb_dom_node_by_id_cb_def id_hit_def)
    next
      case (Some x)
      with val obtain y v where y: "attributes h x = Some y" "map_of (M a) (ascii ''id'') = Some v"
        "case at_value y of None \<Rightarrow> v = None | Some s \<Rightarrow> \<exists>cs. v = Some cs \<and> str_is (text_arena h) s cs" by auto
      show ?thesis
        using y n el Some \<open>elements h a = Some e\<close>
        by (cases "at_value y") (auto simp: lxb_dom_node_by_id_cb_def id_hit_def lexbor_str_data_ncmp_def memcmp_eq_def dest!: str_is_chars split: if_splits)
    qed
  qed
qed

lemma element_by_id:
  assumes wf: "attrs_wf h M" and f: "forest (nodes h) T" and t: "is_rose T (Rose root ts)" and root: "root \<in> dom (nodes h)"
  shows "lxb_dom_node_by_id h root val = Some (find (id_hit h M val) (preorders ts))"
proof -
  have "visits (lxb_dom_node_by_id_cb h val) ts None = Some (find (id_hit h M val) (preorders ts) \<noteq> None, find (id_hit h M val) (preorders ts))"
    by (rule visits_first(2), rule id_cb_is [OF wf]) (use below_dom [OF f t root] in blast)
  then show ?thesis
    using simple_walk_visits [OF f t root, of "lxb_dom_node_by_id_cb h val" None] by (simp add: lxb_dom_node_by_id_def)
qed

section \<open>Properties\<close>

lemma collected:
  assumes "collection_is col xs" and "length xs + length ys \<le> 2 ^ 60"
  shows "\<exists>st col' L' k. push_all collection_app (col, L) (filter P ys) = Some (st, col', L') \<and>
     collection_is col' (xs @ take k (filter P ys)) \<and>
     (st = LXB_STATUS_OK \<and> k = length (filter P ys) \<or> st = LXB_STATUS_ERROR_MEMORY_ALLOCATION \<and> k < length (filter P ys))"
proof -
  have "length xs + length (filter P ys) \<le> 2 ^ 60" using assms(2) length_filter_le [of P ys] by linarith
  with collections.push_all_prefix [of "(col, L)" xs "filter P ys"] assms(1) show ?thesis by fastforce
qed

text \<open>
  C16: getElementsByClassName collects, in document order, exactly the elements below the root whose
  class attribute has the wanted name among its white-space separated words (without regard to case in
  quirks mode), all of them unless memory is refused, and then a prefix of them with the error reported.
\<close>

theorem elements_by_class_name:
  assumes "attrs_wf h M" and "forest (nodes h) T" and "is_rose T (Rose root ts)" and "root \<in> dom (nodes h)"
    and "name \<noteq> []" and "collection_is col xs" and "length xs + length (preorders ts) \<le> 2 ^ 60"
  shows "\<exists>st col' L' k. lxb_dom_node_by_class_name h root col L (Some name) = Some (st, col', L') \<and>
     collection_is col' (xs @ take k (filter (class_hit h M name) (preorders ts))) \<and>
     (st = LXB_STATUS_OK \<and> k = length (filter (class_hit h M name) (preorders ts)) \<or>
      st = LXB_STATUS_ERROR_MEMORY_ALLOCATION \<and> k < length (filter (class_hit h M name) (preorders ts)))"
  unfolding class_query [OF assms(1-5)] by (rule collected [OF assms(6,7)])

lemma memchr_from_found: "c \<in> set xs \<Longrightarrow> \<exists>j. memchr_from i c xs = Some j \<and> i \<le> j"
proof (induction xs arbitrary: i)
  case (Cons x xs)
  show ?case
  proof (cases "x = c")
    case False
    with Cons obtain j where "memchr_from (i + 1) c xs = Some j" "i + 1 \<le> j" by force
    with False show ?thesis by simp
  qed simp
qed simp

lemma memchr_colon:
  assumes "c \<in> set xs"
  shows "\<exists>i. memchr c xs = Some i \<and> (i = 0 \<longleftrightarrow> hd xs = c)"
proof (cases xs)
  case (Cons x ys)
  with assms memchr_from_found [of c ys 1] show ?thesis by (cases "x = c") (auto simp: memchr_def)
qed (use assms in simp)

text \<open>
  A name with a colon is looked up as a whole among the prefixes: it finds nothing, and so does the
  empty name.
\<close>

lemma attr_query_nothing:
  assumes r: "nodes h root = Some r" "docs h (n_owner_document r) = Some d" "hashes h (doc_prefix d) = Some P"
      "hashes h (doc_attrs d) = Some H"
    and name: "name = [] \<or> 0x3A \<in> set name \<and> lxb_ns_prefix_data_by_name P (Some name) = Some None"
  shows "by_attr_with cmp h root col L name val =
    Some (if name \<noteq> [] \<and> hd name = 0x3A then LXB_STATUS_ERROR_WRONG_ARGS else LXB_STATUS_OK, col, L)"
proof (cases "name = []")
  case True
  then show ?thesis
    using r by (simp add: by_attr_with_def lxb_dom_node_prepare_by_attr_def split_prefix_def memchr_def lxb_dom_attr_data_by_local_name_def)
next
  case False
  with name have c: "0x3A \<in> set name" and none: "lxb_ns_prefix_data_by_name P (Some name) = Some None" by simp_all
  from memchr_colon [OF c] obtain i where "memchr 0x3A name = Some i" "i = 0 \<longleftrightarrow> hd name = 0x3A" by blast
  with r none False show ?thesis
    by (auto simp: by_attr_with_def lxb_dom_node_prepare_by_attr_def split_prefix_def)
qed

text \<open>
  C19: Looking elements up by an attribute, in a document all of whose nodes below the root belong to
  the root's document: for a name without a colon it collects, in document order, exactly the elements
  below the root that have an attribute of that name (in any spelling) whose value equals the wanted
  one, an attribute without a value counting as empty and the comparison ignoring case when asked to,
  all of them unless memory is refused, and then a prefix of them with the error reported. For the
  empty name, and for a name with a colon (unless some registered prefix is spelled like the whole
  name), it collects nothing: the prefix is searched under the whole name. A name that starts with a
  colon is an error.
\<close>

theorem elements_by_attr:
  assumes "attrs_wf h M" and "forest (nodes h) T" and "is_rose T (Rose root ts)"
    and "nodes h root = Some r" and "docs h (n_owner_document r) = Some d" and "hashes h (doc_prefix d) = Some P"
    and "hashes h (doc_attrs d) = Some H" and "attrs_ok H"
    and "\<And>a n. a \<in> set (preorders ts) \<Longrightarrow> nodes h a = Some n \<Longrightarrow> n_owner_document n = n_owner_document r"
    and "\<And>a k v. a \<in> set (preorders ts) \<Longrightarrow> (k, Some v) \<in> set (M a) \<Longrightarrow> length v \<le> SIZE_MAX"
    and "0x3A \<in> set name \<Longrightarrow> lxb_ns_prefix_data_by_name P (Some name) = Some None"
    and "collection_is col xs" and "length xs + length (preorders ts) \<le> 2 ^ 60"
    and "hits = filter (attr_hit h M (lower name) (\<lambda>cs. if ci then lower cs = lower val else cs = val)) (preorders ts)"
  shows "if name = [] \<or> 0x3A \<in> set name
    then lxb_dom_node_by_attr h root col L name val ci =
      Some (if name \<noteq> [] \<and> hd name = 0x3A then LXB_STATUS_ERROR_WRONG_ARGS else LXB_STATUS_OK, col, L)
    else \<exists>st col' L' k. lxb_dom_node_by_attr h root col L name val ci = Some (st, col', L') \<and>
      collection_is col' (xs @ take k hits) \<and>
      (st = LXB_STATUS_OK \<and> k = length hits \<or> st = LXB_STATUS_ERROR_MEMORY_ALLOCATION \<and> k < length hits)"
proof (cases "name = [] \<or> 0x3A \<in> set name")
  case True
  with attr_query_nothing [OF assms(4-7), of name] assms(11) show ?thesis by (auto simp: lxb_dom_node_by_attr_def)
next
  case False
  let ?cmp = "if ci then lxb_dom_node_by_attr_cmp_full_case else lxb_dom_node_by_attr_cmp_full"
  have "cmp_is ?cmp (\<lambda>val cs. if ci then lower cs = lower val else cs = val)" using cmp_full_is cmp_full_case_is by simp
  from attr_query [OF assms(1-3) this assms(4,5) _ assms(7,8), of name col L val] assms(6,9,10) False
  have "lxb_dom_node_by_attr h root col L name val ci = push_all collection_app (col, L) hits"
    unfolding assms(14) lxb_dom_node_by_attr_def by blast
  with False show ?thesis unfolding assms(14) using collected [OF assms(12,13)] by simp
qed

lemma named_forest: "forest (nodes (sample_named b f)) sample_kids"
proof -
  have "sib (nodes (sample_named b f)) = sib sample_nodes" "ends (nodes (sample_named b f)) = ends sample_nodes"
    by (simp_all add: sample_named_def sib_def ends_def fun_eq_iff) (simp_all add: sample_nodes_def sample_node_def)
  then show ?thesis using sample_wf by (simp add: dom_wf_def forest_def)
qed

lemma named_rose: "is_rose sample_kids (Rose 2 [Rose 3 [Rose 4 [], Rose 5 []], Rose 6 []])"
  by (simp add: sample_kids_def)

lemma elements_by_class_name_witness:
  "\<exists>st col' L' k. lxb_dom_node_by_class_name (sample_named True (\<lambda>_. None)) 2 sample_collection sample_libc (Some (ascii ''x'')) =
     Some (st, col', L') \<and> collection_is col' (take k [6]) \<and> (st = LXB_STATUS_OK \<and> k = 1 \<or> st = LXB_STATUS_ERROR_MEMORY_ALLOCATION \<and> k = 0)"
proof -
  have "\<not> lexbor_utils_whitespace 0x78" by (simp add: lexbor_utils_whitespace_def)
  then have hits: "filter (class_hit (sample_named True (\<lambda>_. None)) (sample_values True) (ascii ''x''))
      (preorders [Rose 3 [Rose 4 [], Rose 5 []], Rose 6 []]) = [6]"
    by (simp add: class_hit_def sample_values_def ascii_def fold_case_def)
      (simp add: sample_named_def sample_defs)
  have root: "2 \<in> dom (nodes (sample_named True (\<lambda>_. None)))" by (simp add: sample_named_def sample_defs)
  show ?thesis
    using elements_by_class_name [OF sample_values_wf named_forest named_rose root _ sample_collection_is, of "ascii ''x''" sample_libc]
    unfolding hits by (simp add: ascii_def)
qed

lemma elements_by_attr_witness:
  "\<exists>st col' L' k. lxb_dom_node_by_attr (sample_named False (\<lambda>_. None)) 2 sample_collection sample_libc (ascii ''ID'') (ascii ''X'') True =
     Some (st, col', L') \<and> collection_is col' ([] @ take k [6]) \<and>
     (st = LXB_STATUS_OK \<and> k = length [6::addr] \<or> st = LXB_STATUS_ERROR_MEMORY_ALLOCATION \<and> k < length [6::addr])"
proof -
  have colon: "0x3A \<notin> set (ascii ''ID'')" and ne: "ascii ''ID'' \<noteq> []" by (simp_all add: ascii_def)
  have hits: "[6] = filter (attr_hit (sample_named False (\<lambda>_. None)) (sample_values False) (lower (ascii ''ID''))
      (\<lambda>cs. if True then lower cs = lower (ascii ''X'') else cs = ascii ''X'')) (preorders [Rose 3 [Rose 4 [], Rose 5 []], Rose 6 []])"
    by (simp add: attr_hit_def sample_values_def ascii_def lexbor_str_res_map_lowercase_def)
      (simp add: sample_named_def sample_defs)
  have doc: "docs (sample_named False (\<lambda>_. None)) 1 = Some sample_doc" "hashes (sample_named False (\<lambda>_. None)) (doc_prefix sample_doc) \<noteq> None"
    "hashes (sample_named False (\<lambda>_. None)) (doc_attrs sample_doc) = Some sample_table"
    by (simp_all add: sample_named_def sample_defs sample_doc_def)
  let ?r = "the (nodes (sample_named False (\<lambda>_. None)) 2)"
  have r: "nodes (sample_named False (\<lambda>_. None)) 2 = Some ?r" "n_owner_document ?r = 1"
    by (simp_all add: sample_named_def sample_defs)
  obtain P where P: "hashes (sample_named False (\<lambda>_. None)) (doc_prefix sample_doc) = Some P" using doc(2) by blast
  have "if ascii ''ID'' = [] \<or> 0x3A \<in> set (ascii ''ID'')
    then lxb_dom_node_by_attr (sample_named False (\<lambda>_. None)) 2 sample_collection sample_libc (ascii ''ID'') (ascii ''X'') True =
      Some (if ascii ''ID'' \<noteq> [] \<and> hd (ascii ''ID'') = 0x3A then LXB_STATUS_ERROR_WRONG_ARGS else LXB_STATUS_OK, sample_collection, sample_libc)
    else \<exists>st col' L' k. lxb_dom_node_by_attr (sample_named False (\<lambda>_. None)) 2 sample_collection sample_libc (ascii ''ID'') (ascii ''X'') True =
        Some (st, col', L') \<and> collection_is col' ([] @ take k [6]) \<and>
      (st = LXB_STATUS_OK \<and> k = length [6::addr] \<or> st = LXB_STATUS_ERROR_MEMORY_ALLOCATION \<and> k < length [6::addr])"
    by (rule elements_by_attr [OF sample_values_wf named_forest named_rose r(1) _ P _ sample_table_ok _ _ _ sample_collection_is _ hits])
      (use doc r colon in \<open>auto simp: sample_named_def sample_defs sample_values_def ascii_def split: if_splits\<close>)
  with colon ne show ?thesis by simp
qed

end
