(* ===== verification/Dom_Frame.thy ===== *)
theory Dom_Frame
  imports Dom_Attrs
begin

text \<open>
  What the other operations on nodes leave of the attributes: an operation that keeps the payload of the
  nodes outside a set \<open>N\<close> keeps the attributes of the elements outside \<open>N\<close>. Moving nodes in the tree is
  the case of an empty set.
\<close>

definition stays :: "dom \<Rightarrow> dom \<Rightarrow> addr \<Rightarrow> bool" where
  "stays h h' b \<longleftrightarrow> map_option payload (nodes h' b) = map_option payload (nodes h b) \<and> elements h' b = elements h b \<and>
     attributes h' b = attributes h b \<and> docs h' b = docs h b"

lemma stays_node:
  assumes "stays h h' b" and "nodes h b = Some n"
  shows "\<exists>n'. nodes h' b = Some n' \<and> n_local_name n' = n_local_name n \<and> n_owner_document n' = n_owner_document n \<and>
     n_type n' = n_type n \<and> n_ns n' = n_ns n"
  using assms by (auto simp: stays_def payload_def)

lemma stays_field:
  assumes "stays h h' b"
  shows "map_option n_local_name (nodes h' b) = map_option n_local_name (nodes h b)"
    and "map_option n_type (nodes h' b) = map_option n_type (nodes h b)"
  using assms by (cases "nodes h b"; cases "nodes h' b"; simp add: stays_def payload_def)+

lemma attrs_are_stays:
  assumes are: "attrs_are h el m" and g: "names_grow h h'"
    and st: "\<And>b. b = el \<or> map_option n_owner_document (nodes h el) = Some b \<or>
      (\<exists>x. attributes h b = Some x \<and> at_owner x = Some el) \<Longrightarrow> stays h h' b"
    and str: "\<And>b x v cs. attributes h b = Some x \<Longrightarrow> at_owner x = Some el \<Longrightarrow> at_value x = Some v \<Longrightarrow>
      str_is (text_arena h) v cs \<Longrightarrow> str_is (text_arena h') v cs"
  shows "attrs_are h' el m"
proof -
  from are obtain As D d H where A: "in_doc h el D d H" "attr_list h el As"
    "\<forall>b \<in> set As. \<exists>n. nodes h b = Some n \<and> n_owner_document n = D" "list_all2 (attr_is h H) As m"
    by (auto simp: attrs_are_def)
  from A(1) obtain n r where n: "nodes h el = Some n" "n_owner_document n = D" "docs h D = Some d" "nodes h D = Some r"
    "n_owner_document r = D" "hashes h (doc_attrs d) = Some H" "attrs_ok H" by (auto simp: in_doc_def)
  have el: "stays h h' el" and D: "stays h h' D" using st n(1,2) by auto
  from names_growD [OF g n(6,7)] obtain H' where H': "hashes h' (doc_attrs d) = Some H'" "attrs_ok H'" "hkey H \<subseteq>\<^sub>m hkey H'" by blast
  have own: "\<exists>x. attributes h b = Some x \<and> at_owner x = Some el" if "b \<in> set As" for b
    using A(2) that attr_dll_Some by (auto simp: attr_list_def)
  have At: "stays h h' b" if "b \<in> set As" for b using st own [OF that] by blast
  have "in_doc h' el D d H'"
    using stays_node [OF el n(1)] stays_node [OF D n(4)] n(2,3,5) H' D by (auto simp: in_doc_def stays_def)
  moreover have "attr_list h' el As"
    by (rule attr_list_cong [OF A(2)]) (use At el stays_field(1) [OF At] in \<open>auto simp: stays_def attr_sib_def\<close>)
  moreover have "\<forall>b \<in> set As. \<exists>n. nodes h' b = Some n \<and> n_owner_document n = D"
    using A(3) stays_node [OF At] by fastforce
  moreover have "list_all2 (attr_is h' H') As m"
  proof (rule list.rel_mono_strong [OF A(4)])
    fix b kv assume b: "b \<in> set As" and i: "attr_is h H b kv"
    from own [OF b] obtain x where x: "attributes h b = Some x" "at_owner x = Some el" by blast
    with At [OF b] have "attributes h' b = Some x" by (simp add: stays_def)
    from attr_is_frame [OF i stays_field(1) [OF At [OF b]] x(1) this _ _ H'(3) str [OF x]] show "attr_is h' H' b kv" by blast
  qed
  ultimately show ?thesis unfolding attrs_are_def by blast
qed

lemma attrs_wf_stays:
  assumes wf: "attrs_wf h M" and ok: "heap_typed h'" "texts_ok h'" "names_grow h h'"
    and st: "\<And>b. b \<notin> N \<Longrightarrow> stays h h' b"
    and str: "strings_kept_but h h' X" "\<And>b. Attr_value b \<in> X \<Longrightarrow> b \<in> N"
    and N: "\<And>b. b \<in> N \<Longrightarrow> docs h b = None \<and> (\<forall>x. attributes h b = Some x \<longrightarrow> at_owner x \<in> Some ` N)"
    and new: "\<And>el. el \<in> N \<Longrightarrow> elements h' el \<noteq> None \<Longrightarrow> attrs_are h' el (M' el)"
    and M': "\<And>el. el \<notin> N \<Longrightarrow> M' el = M el"
  shows "attrs_wf h' M'"
  unfolding attrs_wf_def
proof (intro conjI ballI ok)
  fix el assume el: "el \<in> dom (elements h')"
  show "attrs_are h' el (M' el)"
  proof (cases "el \<in> N")
    case False
    with st el have "el \<in> dom (elements h)" by (auto simp: stays_def)
    with wf have are: "attrs_are h el (M el)" by (simp add: attrs_wf_def)
    have at: "b \<notin> N" if "attributes h b = Some x" "at_owner x = Some el" for b x using N that False by fastforce
    have "attrs_are h' el (M el)"
    proof (rule attrs_are_stays [OF are ok(3)])
      fix b assume b: "b = el \<or> map_option n_owner_document (nodes h el) = Some b \<or>
        (\<exists>x. attributes h b = Some x \<and> at_owner x = Some el)"
      have "docs h b \<noteq> None" if "map_option n_owner_document (nodes h el) = Some b"
        using are that by (auto simp: attrs_are_def in_doc_def)
      then have "map_option n_owner_document (nodes h el) = Some b \<Longrightarrow> b \<notin> N" using N [of b] by argo
      with b False at have "b \<notin> N" by blast
      then show "stays h h' b" by (rule st)
    next
      fix b x v cs assume x: "attributes h b = Some x" "at_owner x = Some el" "at_value x = Some v" "str_is (text_arena h) v cs"
      have "Attr_value b \<notin> X" using at [OF x(1,2)] str(2) by blast
      moreover have "text_of h (Attr_value b) = Some v" using x(1,3) by simp
      ultimately show "str_is (text_arena h') v cs" using str(1) x(4) unfolding strings_kept_but_def by blast
    qed
    with False M' show ?thesis by simp
  qed (use new el in blast)
qed

text \<open>Moving nodes in the tree.\<close>

lemma same_payload_field: "same_payload h h' \<Longrightarrow> elements h' = elements h \<and> attributes h' = attributes h \<and> docs h' = docs h \<and>
    hashes h' = hashes h \<and> text_arena h' = text_arena h \<and> obj_fresh h' = obj_fresh h \<and> shadow_hosts h' = shadow_hosts h \<and>
    obj_reqs h' = obj_reqs h \<and> obj_fails h' = obj_fails h \<and> same_other_structs h h'"
  by (cases h; cases h') (simp add: same_payload_def)

lemma same_payload_stays: "same_payload h h' \<Longrightarrow> stays h h' b"
  using same_payload_field [of h h'] by (simp add: same_payload_def stays_def)

lemma same_payload_text: "same_payload h h' \<Longrightarrow> text_of h' x = text_of h x"
  using same_payload_field [of h h'] by (cases x) simp_all

lemma texts_ok_cong:
  assumes "\<And>x. text_of h' x = text_of h x" and "text_arena h' = text_arena h"
  shows "texts_ok_but h' X = texts_ok_but h X" "strings_kept_but h h' Y"
  using assms unfolding texts_ok_but_def text_ptr_def strings_kept_but_def by simp_all

lemma same_payload_attrs_wf:
  assumes sp: "same_payload h h'" and wf: "attrs_wf h M"
  shows "attrs_wf h' M"
proof -
  note f = same_payload_field [OF sp] and t = texts_ok_cong [OF same_payload_text [OF sp]]
  have "heap_typed h'"
    by (rule heap_typed_frame [of h]) (use wf f stays_field(2) [OF same_payload_stays [OF sp]] in \<open>auto simp: attrs_wf_def same_structs_def\<close>)
  moreover have "texts_ok h'" using wf t(1) f by (simp add: attrs_wf_def)
  moreover have "names_grow h h'" using f by (simp add: names_grow_same)
  ultimately show ?thesis
    by (rule attrs_wf_stays [where N = "{}" and X = "{}", OF wf]) (use same_payload_stays [OF sp] t(2) f in auto)
qed

end
