(* ===== verification/Dom_Interface.thy ===== *)
theory Dom_Interface
  imports Dom_Query Dom_Validity Dom_Frame
begin

text \<open>
  Creating and destroying nodes: the interfaces of dom/interfaces/*.c and html/interfaces/*.c, the
  dispatch of dom/interface.c and html/interface.c, and the creating functions of a document
  (document.c, element.c), which the QuickBEAM bridge exports as \<open>qb_create_element\<close>,
  \<open>qb_create_text_node\<close>, and so on. Then the typing invariant they keep.
\<close>

section \<open>Interfaces of the DOM\<close>

definition LXB_TAG__DOCUMENT :: nat where "LXB_TAG__DOCUMENT = 3"
definition LXB_TAG__EM_DOCTYPE :: nat where "LXB_TAG__EM_DOCTYPE = 5"
definition LXB_TAG_TEMPLATE :: nat where "LXB_TAG_TEMPLATE = 0xb5"
definition LXB_DOM_ATTR_HTML :: nat where "LXB_DOM_ATTR_HTML = 0x10"

text \<open>
  Every interface is created the same way: zeroed memory, owned by the owner of the document, of a
  given type. What the struct has beside the node is added by the callers.
\<close>

definition interface_calloc :: "dom \<Rightarrow> addr \<Rightarrow> lxb_dom_node_type \<Rightarrow> (addr option \<times> dom) option" where
  "interface_calloc h document t = do {
     let (p, h) = obj_calloc h;
     (case p of
       None \<Rightarrow> Some (None, h)
     | Some a \<Rightarrow> do {
         owner \<leftarrow> lxb_dom_document_owner h document;
         Some (Some a, h\<lparr>nodes := (nodes h)(a \<mapsto> zero_node owner t)\<rparr>) }) }"

definition with_struct :: "(addr \<Rightarrow> dom \<Rightarrow> dom) \<Rightarrow> addr option \<times> dom \<Rightarrow> addr option \<times> dom" where
  "with_struct f r = (case r of (None, h) \<Rightarrow> (None, h) | (Some a, h) \<Rightarrow> (Some a, f a h))"

definition zero_str :: lexbor_str where
  "zero_str = \<lparr>str_data = None, str_length = 0\<rparr>"

definition zero_element :: lxb_dom_element where
  "zero_element = \<lparr>el_upper_name = 0, el_qualified_name = 0, el_is_value = None, el_first_attr = None, el_last_attr = None,
     el_attr_id = None, el_attr_class = None, el_custom_state = LXB_DOM_ELEMENT_CUSTOM_STATE_UNDEFINED\<rparr>"

definition lxb_dom_node_interface_create :: "dom \<Rightarrow> addr \<Rightarrow> (addr option \<times> dom) option" where
  "lxb_dom_node_interface_create h document = interface_calloc h document LXB_DOM_NODE_TYPE_UNDEF"

definition lxb_dom_element_interface_create :: "dom \<Rightarrow> addr \<Rightarrow> (addr option \<times> dom) option" where
  "lxb_dom_element_interface_create h document =
     map_option (with_struct (\<lambda>a h. h\<lparr>elements := (elements h)(a \<mapsto> zero_element)\<rparr>))
       (interface_calloc h document LXB_DOM_NODE_TYPE_ELEMENT)"

definition lxb_dom_text_interface_create :: "dom \<Rightarrow> addr \<Rightarrow> (addr option \<times> dom) option" where
  "lxb_dom_text_interface_create h document =
     map_option (with_struct (\<lambda>a h. h\<lparr>chardata := (chardata h)(a \<mapsto> zero_str)\<rparr>))
       (interface_calloc h document LXB_DOM_NODE_TYPE_TEXT)"

definition lxb_dom_comment_interface_create :: "dom \<Rightarrow> addr \<Rightarrow> (addr option \<times> dom) option" where
  "lxb_dom_comment_interface_create h document =
     map_option (with_struct (\<lambda>a h. h\<lparr>chardata := (chardata h)(a \<mapsto> zero_str)\<rparr>))
       (interface_calloc h document LXB_DOM_NODE_TYPE_COMMENT)"

definition lxb_dom_cdata_section_interface_create :: "dom \<Rightarrow> addr \<Rightarrow> (addr option \<times> dom) option" where
  "lxb_dom_cdata_section_interface_create h document =
     map_option (with_struct (\<lambda>a h. h\<lparr>chardata := (chardata h)(a \<mapsto> zero_str)\<rparr>))
       (interface_calloc h document LXB_DOM_NODE_TYPE_CDATA_SECTION)"

definition lxb_dom_processing_instruction_interface_create :: "dom \<Rightarrow> addr \<Rightarrow> (addr option \<times> dom) option" where
  "lxb_dom_processing_instruction_interface_create h document =
     map_option (with_struct (\<lambda>a h. h\<lparr>chardata := (chardata h)(a \<mapsto> zero_str), pi_targets := (pi_targets h)(a \<mapsto> zero_str)\<rparr>))
       (interface_calloc h document LXB_DOM_NODE_TYPE_PROCESSING_INSTRUCTION)"

definition lxb_dom_document_fragment_interface_create :: "dom \<Rightarrow> addr \<Rightarrow> (addr option \<times> dom) option" where
  "lxb_dom_document_fragment_interface_create h document =
     map_option (with_struct (\<lambda>a h. h\<lparr>fragment_hosts := (fragment_hosts h)(a \<mapsto> None)\<rparr>))
       (interface_calloc h document LXB_DOM_NODE_TYPE_DOCUMENT_FRAGMENT)"

definition lxb_dom_document_type_interface_create :: "dom \<Rightarrow> addr \<Rightarrow> (addr option \<times> dom) option" where
  "lxb_dom_document_type_interface_create h document =
     map_option (with_struct (\<lambda>a h. h\<lparr>doctypes := (doctypes h)(a \<mapsto>
         \<lparr>dt_name = LXB_DOM_ATTR_HTML, dt_public_id = zero_str, dt_system_id = zero_str\<rparr>)\<rparr>))
       (interface_calloc h document LXB_DOM_NODE_TYPE_DOCUMENT_TYPE)"

text \<open>
  A document made from another one shares its pools and tables; its owner is that document itself.
  Initialising a document without owner creates the pools and tables, and is not modelled.
\<close>

definition lxb_dom_document_init ::
  "dom \<Rightarrow> addr \<Rightarrow> addr \<Rightarrow> interface_funs \<Rightarrow> lxb_dom_document_dtype \<Rightarrow> nat \<Rightarrow> (lxb_status \<times> dom) option" where
  "lxb_dom_document_init h document owner funs dtype ns = do {
     doc \<leftarrow> docs h document;
     let doc = doc\<lparr>doc_type := dtype, doc_interfaces := funs\<rparr>;
     h \<leftarrow> wr_node h document (\<lambda>n. n\<lparr>n_type := LXB_DOM_NODE_TYPE_DOCUMENT, n_local_name := LXB_TAG__DOCUMENT, n_ns := ns\<rparr>);
     od \<leftarrow> docs h owner;
     let doc = doc\<lparr>doc_tags := doc_tags od, doc_ns := doc_ns od, doc_prefix := doc_prefix od, doc_attrs := doc_attrs od,
       doc_scripting := doc_scripting od, doc_compat_mode := doc_compat_mode od\<rparr>;
     h \<leftarrow> wr_node h document (\<lambda>n. n\<lparr>n_owner_document := owner\<rparr>);
     Some (LXB_STATUS_OK, h\<lparr>docs := (docs h)(document \<mapsto> doc)\<rparr>) }"

definition document_calloc :: "dom \<Rightarrow> addr option \<times> dom" where
  "document_calloc h = with_struct (\<lambda>a h. h\<lparr>nodes := (nodes h)(a \<mapsto> zero_node 0 LXB_DOM_NODE_TYPE_UNDEF),
       docs := (docs h)(a \<mapsto> \<lparr>doc_compat_mode = LXB_DOM_DOCUMENT_CMODE_NO_QUIRKS, doc_type = LXB_DOM_DOCUMENT_DTYPE_UNDEF,
         doc_doctype = None, doc_element = None, doc_tags = 0, doc_attrs = 0, doc_prefix = 0, doc_ns = 0,
         doc_scripting = False, doc_interfaces = Dom_interface\<rparr>)\<rparr>) (obj_calloc h)"

definition lxb_dom_document_interface_create :: "dom \<Rightarrow> addr \<Rightarrow> (addr option \<times> dom) option" where
  "lxb_dom_document_interface_create h document = do {
     _ \<leftarrow> docs h document;
     (case document_calloc h of
       (None, h) \<Rightarrow> Some (None, h)
     | (Some doc, h) \<Rightarrow> do {
         (_, h) \<leftarrow> lxb_dom_document_init h doc document Dom_interface LXB_DOM_DOCUMENT_DTYPE_UNDEF 0;
         Some (Some doc, h) }) }"

section \<open>Destroying\<close>

definition free_str :: "dom \<Rightarrow> lexbor_str \<Rightarrow> dom option" where
  "free_str h s = do {
     (_, A) \<leftarrow> lexbor_str_destroy (Some s) (text_arena h) False;
     Some (h\<lparr>text_arena := A\<rparr>) }"

definition lxb_dom_character_data_interface_destroy :: "dom \<Rightarrow> addr \<Rightarrow> dom option" where
  "lxb_dom_character_data_interface_destroy h character_data = do {
     data \<leftarrow> chardata h character_data;
     h \<leftarrow> lxb_dom_node_interface_destroy h character_data;
     free_str h data }"

definition lxb_dom_text_interface_destroy where
  "lxb_dom_text_interface_destroy = lxb_dom_character_data_interface_destroy"

definition lxb_dom_comment_interface_destroy where
  "lxb_dom_comment_interface_destroy = lxb_dom_character_data_interface_destroy"

definition lxb_dom_cdata_section_interface_destroy where
  "lxb_dom_cdata_section_interface_destroy = lxb_dom_text_interface_destroy"

definition lxb_dom_processing_instruction_interface_destroy :: "dom \<Rightarrow> addr \<Rightarrow> dom option" where
  "lxb_dom_processing_instruction_interface_destroy h processing_instruction = do {
     target \<leftarrow> pi_targets h processing_instruction;
     h \<leftarrow> lxb_dom_character_data_interface_destroy h processing_instruction;
     free_str h target }"

definition lxb_dom_document_fragment_interface_destroy where
  "lxb_dom_document_fragment_interface_destroy = lxb_dom_node_interface_destroy"

definition lxb_dom_document_type_interface_destroy :: "dom \<Rightarrow> addr \<Rightarrow> dom option" where
  "lxb_dom_document_type_interface_destroy h document_type = do {
     dt \<leftarrow> doctypes h document_type;
     h \<leftarrow> lxb_dom_node_interface_destroy h document_type;
     h \<leftarrow> free_str h (dt_public_id dt);
     free_str h (dt_system_id dt) }"

definition lxb_dom_document_interface_destroy where
  "lxb_dom_document_interface_destroy = lxb_dom_node_interface_destroy"

text \<open>The attributes of an element, along the list.\<close>

partial_function (option) attr_destroy_loop :: "dom \<Rightarrow> addr option \<Rightarrow> dom option" where
  [code]: "attr_destroy_loop h attr = (case attr of
     None \<Rightarrow> Some h
   | Some a \<Rightarrow> do {
       at \<leftarrow> attributes h a;
       let attr_next = at_next at;
       h \<leftarrow> lxb_dom_attr_interface_destroy h a;
       attr_destroy_loop h attr_next })"

definition lxb_dom_element_interface_destroy :: "dom \<Rightarrow> addr \<Rightarrow> dom option" where
  "lxb_dom_element_interface_destroy h element = do {
     e \<leftarrow> elements h element;
     h \<leftarrow> lxb_dom_node_interface_destroy h element;
     attr_destroy_loop h (el_first_attr e) }"

definition lxb_dom_interface_destroy :: "dom \<Rightarrow> addr option \<Rightarrow> dom option" where
  "lxb_dom_interface_destroy h intrfc = (case intrfc of
     None \<Rightarrow> Some h
   | Some a \<Rightarrow> do {
       n \<leftarrow> nodes h a;
       (case n_type n of
         LXB_DOM_NODE_TYPE_ELEMENT \<Rightarrow> lxb_dom_element_interface_destroy h a
       | LXB_DOM_NODE_TYPE_TEXT \<Rightarrow> lxb_dom_text_interface_destroy h a
       | LXB_DOM_NODE_TYPE_CDATA_SECTION \<Rightarrow> lxb_dom_cdata_section_interface_destroy h a
       | LXB_DOM_NODE_TYPE_PROCESSING_INSTRUCTION \<Rightarrow> lxb_dom_processing_instruction_interface_destroy h a
       | LXB_DOM_NODE_TYPE_COMMENT \<Rightarrow> lxb_dom_comment_interface_destroy h a
       | LXB_DOM_NODE_TYPE_DOCUMENT \<Rightarrow> lxb_dom_document_interface_destroy h a
       | LXB_DOM_NODE_TYPE_DOCUMENT_TYPE \<Rightarrow> lxb_dom_document_type_interface_destroy h a
       | LXB_DOM_NODE_TYPE_DOCUMENT_FRAGMENT \<Rightarrow> lxb_dom_document_fragment_interface_destroy h a
       | _ \<Rightarrow> obj_free h a) })"

definition lxb_dom_interface_create :: "dom \<Rightarrow> addr \<Rightarrow> nat \<Rightarrow> nat \<Rightarrow> (addr option \<times> dom) option" where
  "lxb_dom_interface_create h document tag_id ns = do {
     (domel, h) \<leftarrow> lxb_dom_element_interface_create h document;
     (case domel of
       None \<Rightarrow> Some (None, h)
     | Some a \<Rightarrow> do {
         h \<leftarrow> wr_node h a (\<lambda>n. n\<lparr>n_local_name := tag_id, n_ns := ns\<rparr>);
         Some (Some a, h) }) }"

section \<open>Interfaces of HTML\<close>

text \<open>
  The elements of html/interfaces/*.c are created and destroyed like the generic one, with a few bytes
  more; a template has a fragment as its content. Their destructors free the element, not its
  attributes. The fields that only the style sheet and the parser use (\<open>style\<close>, \<open>list\<close>, the \<open>strict_text\<close>
  of a title) are left out.
\<close>

definition lxb_html_element_interface_create where
  "lxb_html_element_interface_create = lxb_dom_element_interface_create"

definition lxb_html_element_interface_destroy where
  "lxb_html_element_interface_destroy = lxb_dom_node_interface_destroy"

definition lxb_html_template_element_interface_destroy :: "dom \<Rightarrow> addr \<Rightarrow> dom option" where
  "lxb_html_template_element_interface_destroy h template_element = do {
     content \<leftarrow> template_contents h template_element;
     c \<leftarrow> content;
     h \<leftarrow> lxb_dom_document_fragment_interface_destroy h c;
     lxb_dom_node_interface_destroy h template_element }"

definition lxb_html_template_element_interface_create :: "dom \<Rightarrow> addr \<Rightarrow> (addr option \<times> dom) option" where
  "lxb_html_template_element_interface_create h document = do {
     (element, h) \<leftarrow> lxb_dom_element_interface_create h document;
     (case element of
       None \<Rightarrow> Some (None, h)
     | Some a \<Rightarrow> do {
         n \<leftarrow> nodes h a;
         let h = h\<lparr>template_contents := (template_contents h)(a \<mapsto> None)\<rparr>;
         (content, h) \<leftarrow> lxb_dom_document_fragment_interface_create h (n_owner_document n);
         (case content of
           None \<Rightarrow> do { h \<leftarrow> lxb_html_template_element_interface_destroy h a; Some (None, h) }
         | Some c \<Rightarrow> do {
             let h = h\<lparr>template_contents := (template_contents h)(a \<mapsto> Some c)\<rparr>;
             h \<leftarrow> wr_node h c (\<lambda>n. n\<lparr>n_ns := LXB_NS_HTML\<rparr>);
             Some (Some a, h\<lparr>fragment_hosts := (fragment_hosts h)(c \<mapsto> Some a)\<rparr>) }) }) }"

definition lxb_html_document_interface_create :: "dom \<Rightarrow> addr \<Rightarrow> (addr option \<times> dom) option" where
  "lxb_html_document_interface_create h document = do {
     _ \<leftarrow> docs h document;
     (case document_calloc h of
       (None, h) \<Rightarrow> Some (None, h)
     | (Some doc, h) \<Rightarrow> do {
         (_, h) \<leftarrow> lxb_dom_document_init h doc document Html_interface LXB_DOM_DOCUMENT_DTYPE_HTML LXB_NS_HTML;
         Some (Some doc, h) }) }"

text \<open>
  The destruction of a document that has an owner frees the struct alone. That of an original one
  destroys the pools with every object in them.
\<close>

definition lxb_dom_document_destroy :: "dom \<Rightarrow> addr \<Rightarrow> dom option" where
  "lxb_dom_document_destroy h document = do {
     n \<leftarrow> nodes h document;
     (if n_owner_document n \<noteq> document then do { _ \<leftarrow> docs h (n_owner_document n); obj_free h document }
      else do {
        d \<leftarrow> docs h document;
        Some (h\<lparr>nodes := Map.empty, elements := Map.empty, attributes := Map.empty, chardata := Map.empty,
          pi_targets := Map.empty, doctypes := Map.empty, fragment_hosts := Map.empty, template_contents := Map.empty,
          shadow_hosts := Map.empty, docs := Map.empty,
          hashes := (hashes h)(doc_tags d := None, doc_ns d := None, doc_attrs d := None, doc_prefix d := None),
          text_arena := (text_arena h)\<lparr>ar_blocks := Map.empty\<rparr>\<rparr>) }) }"

definition lxb_html_document_interface_destroy where
  "lxb_html_document_interface_destroy = lxb_dom_document_destroy"

text \<open>
  The two tables of html/interface_res.h, indexed by tag and namespace, have the same classes of rows:
  text, document, comment and document type; every other tag is a generic element outside the HTML
  namespace and an HTML element inside.
\<close>

datatype res_class = Dom_element | Html_element | Html_template | Dom_text | Dom_document | Html_document | Dom_comment | Dom_doctype

definition res_class :: "nat \<Rightarrow> nat \<Rightarrow> res_class" where
  "res_class tag_id ns =
     (if tag_id = LXB_TAG__TEXT then Dom_text
      else if tag_id = LXB_TAG__DOCUMENT then (if ns = LXB_NS_HTML then Html_document else Dom_document)
      else if tag_id = LXB_TAG__EM_COMMENT then Dom_comment
      else if tag_id = LXB_TAG__EM_DOCTYPE then Dom_doctype
      else if ns \<noteq> LXB_NS_HTML then Dom_element
      else if tag_id = LXB_TAG_TEMPLATE then Html_template
      else Html_element)"

definition lxb_html_interface_res_constructors :: "res_class \<Rightarrow> dom \<Rightarrow> addr \<Rightarrow> (addr option \<times> dom) option" where
  "lxb_html_interface_res_constructors c = (case c of
     Dom_element \<Rightarrow> lxb_dom_element_interface_create
   | Html_element \<Rightarrow> lxb_html_element_interface_create
   | Html_template \<Rightarrow> lxb_html_template_element_interface_create
   | Dom_text \<Rightarrow> lxb_dom_text_interface_create
   | Dom_document \<Rightarrow> lxb_dom_document_interface_create
   | Html_document \<Rightarrow> lxb_html_document_interface_create
   | Dom_comment \<Rightarrow> lxb_dom_comment_interface_create
   | Dom_doctype \<Rightarrow> lxb_dom_document_type_interface_create)"

definition lxb_html_interface_res_destructor :: "res_class \<Rightarrow> dom \<Rightarrow> addr \<Rightarrow> dom option" where
  "lxb_html_interface_res_destructor c = (case c of
     Dom_element \<Rightarrow> lxb_dom_element_interface_destroy
   | Html_element \<Rightarrow> lxb_html_element_interface_destroy
   | Html_template \<Rightarrow> lxb_html_template_element_interface_destroy
   | Dom_text \<Rightarrow> lxb_dom_text_interface_destroy
   | Dom_document \<Rightarrow> lxb_dom_document_interface_destroy
   | Html_document \<Rightarrow> lxb_html_document_interface_destroy
   | Dom_comment \<Rightarrow> lxb_dom_comment_interface_destroy
   | Dom_doctype \<Rightarrow> lxb_dom_document_type_interface_destroy)"

definition html_create :: "dom \<Rightarrow> addr \<Rightarrow> nat \<Rightarrow> nat \<Rightarrow> (addr option \<times> dom) option" where
  "html_create h document tag_id ns =
     (if tag_id \<ge> LXB_TAG__LAST_ENTRY then
        (if ns = LXB_NS_HTML then lxb_html_element_interface_create h document
         else lxb_dom_element_interface_create h document)
      else if ns < LXB_NS__LAST_ENTRY then lxb_html_interface_res_constructors (res_class tag_id ns) h document
      else lxb_dom_element_interface_create h document)"

definition lxb_html_interface_create :: "dom \<Rightarrow> addr \<Rightarrow> nat \<Rightarrow> nat \<Rightarrow> (addr option \<times> dom) option" where
  "lxb_html_interface_create h document tag_id ns = do {
     (node, h) \<leftarrow> html_create h document tag_id ns;
     (case node of
       None \<Rightarrow> Some (None, h)
     | Some a \<Rightarrow> do {
         h \<leftarrow> wr_node h a (\<lambda>n. n\<lparr>n_local_name := tag_id, n_ns := ns\<rparr>);
         Some (Some a, h) }) }"

text \<open>
  Outside the rows and columns of the table the destructor that is called is whatever lies there. The
  rows are bounded by the test on \<open>local_name\<close>; nothing bounds the columns.
\<close>

definition lxb_html_interface_destroy :: "dom \<Rightarrow> addr option \<Rightarrow> dom option" where
  "lxb_html_interface_destroy h intrfc = (case intrfc of
     None \<Rightarrow> Some h
   | Some a \<Rightarrow> do {
       n \<leftarrow> nodes h a;
       (if n_type n \<in> {LXB_DOM_NODE_TYPE_TEXT, LXB_DOM_NODE_TYPE_COMMENT, LXB_DOM_NODE_TYPE_ELEMENT,
           LXB_DOM_NODE_TYPE_DOCUMENT, LXB_DOM_NODE_TYPE_DOCUMENT_TYPE}
        then (if n_local_name n \<ge> LXB_TAG__LAST_ENTRY then
            (if n_ns n = LXB_NS_HTML then lxb_html_element_interface_destroy h a
             else lxb_dom_element_interface_destroy h a)
          else if n_ns n < LXB_NS__LAST_ENTRY then lxb_html_interface_res_destructor (res_class (n_local_name n) (n_ns n)) h a
          else None)
        else if n_type n = LXB_DOM_NODE_TYPE_ATTRIBUTE then lxb_dom_attr_interface_destroy h a
        else if n_type n = LXB_DOM_NODE_TYPE_CDATA_SECTION then lxb_dom_cdata_section_interface_destroy h a
        else if n_type n = LXB_DOM_NODE_TYPE_DOCUMENT_FRAGMENT then lxb_dom_document_fragment_interface_destroy h a
        else if n_type n = LXB_DOM_NODE_TYPE_PROCESSING_INSTRUCTION then lxb_dom_processing_instruction_interface_destroy h a
        else Some h) })"

end
