(* ===== verification/Dom_Create.thy ===== *)
theory Dom_Create
  imports Dom_Interface
begin

text \<open>
  The functions of a document that create nodes with their names and characters (dom/interfaces/document.c,
  element.c, document_type.c).
\<close>

section \<open>Dispatch\<close>

definition lxb_dom_document_create_interface :: "dom \<Rightarrow> addr \<Rightarrow> nat \<Rightarrow> nat \<Rightarrow> (addr option \<times> dom) option" where
  "lxb_dom_document_create_interface h document tag_id ns = do {
     doc \<leftarrow> docs h document;
     (case doc_interfaces doc of
       Dom_interface \<Rightarrow> lxb_dom_interface_create h document tag_id ns
     | Html_interface \<Rightarrow> lxb_html_interface_create h document tag_id ns) }"

definition lxb_dom_document_destroy_interface :: "dom \<Rightarrow> addr \<Rightarrow> dom option" where
  "lxb_dom_document_destroy_interface h intrfc = do {
     doc \<leftarrow> owner_doc h intrfc;
     (case doc_interfaces doc of
       Dom_interface \<Rightarrow> lxb_dom_interface_destroy h (Some intrfc)
     | Html_interface \<Rightarrow> lxb_html_interface_destroy h (Some intrfc)) }"

text \<open>Giving up on a node that has been created.\<close>

definition give_up :: "dom \<Rightarrow> addr \<Rightarrow> (addr option \<times> dom) option" where
  "give_up h a = do { h \<leftarrow> lxb_dom_document_destroy_interface h a; Some (None, h) }"

definition lxb_dom_document_create_text :: "dom \<Rightarrow> nat \<Rightarrow> addr option \<times> dom" where
  "lxb_dom_document_create_text h len = (let (p, A) = lexbor_mraw_alloc (text_arena h) len in (p, h\<lparr>text_arena := A\<rparr>))"

definition lxb_dom_document_destroy_text :: "dom \<Rightarrow> addr option \<Rightarrow> dom option" where
  "lxb_dom_document_destroy_text = free_text"

section \<open>Elements\<close>

definition lxb_dom_element_is_set :: "dom \<Rightarrow> addr \<Rightarrow> bytes \<Rightarrow> (lxb_status \<times> dom) option" where
  "lxb_dom_element_is_set h element is_val = do {
     e \<leftarrow> elements h element;
     (granted, h) \<leftarrow> (if el_is_value e = None then do {
         let (p, h) = obj_calloc h;
         (if p = None then Some (False, h)
          else do { h \<leftarrow> wr_element h element (\<lambda>e. e\<lparr>el_is_value := Some zero_str\<rparr>); Some (True, h) }) }
       else Some (True, h));
     (if \<not> granted then Some (LXB_STATUS_ERROR_MEMORY_ALLOCATION, h)
      else do {
        e \<leftarrow> elements h element;
        v \<leftarrow> el_is_value e;
        (v, A) \<leftarrow> (if str_data v = None then do {
            (_, s, A) \<leftarrow> lexbor_str_init (Some v) (text_arena h) (length is_val);
            s \<leftarrow> s; Some (s, A) }
          else Some (v, text_arena h));
        let h = h\<lparr>text_arena := A\<rparr>;
        h \<leftarrow> wr_element h element (\<lambda>e. e\<lparr>el_is_value := Some v\<rparr>);
        (if str_data v = None then Some (LXB_STATUS_ERROR_MEMORY_ALLOCATION, h)
         else do {
           let v = (if str_length v \<noteq> 0 then v\<lparr>str_length := 0\<rparr> else v);
           (data, v, A) \<leftarrow> lexbor_str_append v (text_arena h) is_val;
           let h = h\<lparr>text_arena := A\<rparr>;
           h \<leftarrow> wr_element h element (\<lambda>e. e\<lparr>el_is_value := Some v\<rparr>);
           Some (if data = None then LXB_STATUS_ERROR_MEMORY_ALLOCATION else LXB_STATUS_OK, h) }) }) }"

text \<open>
  The qualified name is built in a temporary buffer from malloc, which may refuse it (\<open>granted\<close>), and
  kept in the table of tags with the identifier of the local name.
\<close>

definition lxb_dom_element_qualified_name_set ::
  "bool \<Rightarrow> dom \<Rightarrow> addr \<Rightarrow> bytes option \<Rightarrow> bytes \<Rightarrow> (lxb_status \<times> dom) option" where
  "lxb_dom_element_qualified_name_set granted h element prefix lname = do {
     n \<leftarrow> nodes h element;
     doc \<leftarrow> owner_doc h element;
     let key = (case prefix of Some p \<Rightarrow> if length p \<noteq> 0 then p @ 0x3A # lname else lname | None \<Rightarrow> lname);
     (if prefix \<noteq> None \<and> prefix \<noteq> Some [] \<and> \<not> granted then Some (LXB_STATUS_ERROR_MEMORY_ALLOCATION, h)
      else do {
        tags \<leftarrow> hashes h (doc_tags doc);
        (tag_data, tags) \<leftarrow> lxb_tag_append tags (n_local_name n) key;
        let h = h\<lparr>hashes := (hashes h)(doc_tags doc \<mapsto> tags)\<rparr>;
        (case tag_data of
          None \<Rightarrow> Some (LXB_STATUS_ERROR, h)
        | Some p \<Rightarrow> do {
            h \<leftarrow> wr_element h element (\<lambda>e. e\<lparr>el_qualified_name := (case p of Static i \<Rightarrow> i | Entry x \<Rightarrow> x)\<rparr>);
            Some (LXB_STATUS_OK, h) }) }) }"

text \<open>The two names an element starts with: the tag, in lower case, and the namespace.\<close>

definition element_names :: "dom \<Rightarrow> lxb_dom_document \<Rightarrow> bytes \<Rightarrow> bytes option \<Rightarrow> ((nat \<times> nat) option \<times> dom) option" where
  "element_names h doc local_name ns_link = do {
     tags \<leftarrow> hashes h (doc_tags doc);
     (tag_data, tags) \<leftarrow> lxb_tag_append_lower tags local_name;
     let h = h\<lparr>hashes := (hashes h)(doc_tags doc \<mapsto> tags)\<rparr>;
     (case tag_data of
       None \<Rightarrow> Some (None, h)
     | Some t \<Rightarrow> do {
         ns \<leftarrow> hashes h (doc_ns doc);
         (ns_data, ns) \<leftarrow> (if ns_link \<noteq> None then lxb_ns_append ns ns_link else Some (lxb_ns_data_by_id LXB_NS__UNDEF, ns));
         let h = h\<lparr>hashes := (hashes h)(doc_ns doc \<mapsto> ns)\<rparr>;
         (case ns_data of
           None \<Rightarrow> Some (None, h)
         | Some d \<Rightarrow> do {
             tags \<leftarrow> hashes h (doc_tags doc);
             tag_id \<leftarrow> ptr_id lxb_tag_res_data_default tags t;
             ns \<leftarrow> hashes h (doc_ns doc);
             ns_id \<leftarrow> ptr_id lxb_ns_res_data ns d;
             Some (Some (tag_id, ns_id), h) }) }) }"

definition element_prefix_set ::
  "bool \<Rightarrow> dom \<Rightarrow> lxb_dom_document \<Rightarrow> addr \<Rightarrow> bytes option \<Rightarrow> bytes \<Rightarrow> (bool \<times> dom) option" where
  "element_prefix_set granted h doc element prefix local_name = (case prefix of
     None \<Rightarrow> Some (True, h)
   | Some _ \<Rightarrow> do {
       table \<leftarrow> hashes h (doc_prefix doc);
       (ns_prefix, table) \<leftarrow> lxb_ns_prefix_append table prefix;
       let h = h\<lparr>hashes := (hashes h)(doc_prefix doc \<mapsto> table)\<rparr>;
       (case ns_prefix of
         None \<Rightarrow> Some (False, h)
       | Some p \<Rightarrow> do {
           prefix_id \<leftarrow> ptr_id lxb_ns_prefix_res_data table p;
           h \<leftarrow> wr_node h element (\<lambda>n. n\<lparr>n_prefix := prefix_id\<rparr>);
           (status, h) \<leftarrow> lxb_dom_element_qualified_name_set granted h element prefix local_name;
           Some (status = LXB_STATUS_OK, h) }) })"

text \<open>The parameter \<open>sync_custom\<close> is not read by the source.\<close>

definition lxb_dom_element_create ::
  "bool \<Rightarrow> dom \<Rightarrow> addr \<Rightarrow> bytes \<Rightarrow> bytes option \<Rightarrow> bytes option \<Rightarrow> bytes \<Rightarrow> (addr option \<times> dom) option" where
  "lxb_dom_element_create granted h document local_name ns_link prefix is_val = do {
     doc \<leftarrow> docs h document;
     (names, h) \<leftarrow> element_names h doc local_name ns_link;
     (case names of
       None \<Rightarrow> Some (None, h)
     | Some (tag_id, ns_id) \<Rightarrow> do {
         (element, h) \<leftarrow> lxb_dom_document_create_interface h document tag_id ns_id;
         (case element of
           None \<Rightarrow> Some (None, h)
         | Some a \<Rightarrow> do {
             (ok, h) \<leftarrow> element_prefix_set granted h doc a prefix local_name;
             (if \<not> ok then give_up h a
              else do {
                (status, h) \<leftarrow> (if length is_val \<noteq> 0 then lxb_dom_element_is_set h a is_val else Some (LXB_STATUS_OK, h));
                (if status \<noteq> LXB_STATUS_OK then give_up h a
                 else do {
                   h \<leftarrow> wr_node h a (\<lambda>n. n\<lparr>n_local_name := tag_id, n_ns := ns_id\<rparr>);
                   h \<leftarrow> wr_element h a (\<lambda>e. e\<lparr>el_custom_state :=
                     (if ns_id = LXB_NS_HTML \<and> length is_val \<noteq> 0 then LXB_DOM_ELEMENT_CUSTOM_STATE_UNDEFINED
                      else LXB_DOM_ELEMENT_CUSTOM_STATE_UNCUSTOMIZED)\<rparr>);
                   Some (Some a, h) }) }) }) }) }"

definition lxb_dom_element_destroy where
  "lxb_dom_element_destroy = lxb_dom_document_destroy_interface"

definition html_ns_link :: bytes where
  "html_ns_link = ascii ''http://www.w3.org/1999/xhtml''"

definition lxb_dom_document_create_element :: "dom \<Rightarrow> addr \<Rightarrow> bytes \<Rightarrow> (addr option \<times> dom) option" where
  "lxb_dom_document_create_element h document local_name = do {
     doc \<leftarrow> docs h document;
     lxb_dom_element_create True h document local_name
       (if doc_type doc = LXB_DOM_DOCUMENT_DTYPE_HTML then Some html_ns_link else None) None [] }"

definition lxb_dom_document_destroy_element where
  "lxb_dom_document_destroy_element = lxb_dom_element_destroy"

section \<open>Text, comments and the other nodes with characters\<close>

text \<open>The characters of a node that has none yet; the result of the append is not looked at.\<close>

definition char_data_init :: "dom \<Rightarrow> addr \<Rightarrow> nat \<Rightarrow> (bool \<times> dom) option" where
  "char_data_init h a len = do {
     s \<leftarrow> chardata h a;
     (_, s, A) \<leftarrow> lexbor_str_init (Some s) (text_arena h) len;
     s \<leftarrow> s;
     Some (str_data s \<noteq> None, h\<lparr>chardata := (chardata h)(a \<mapsto> s), text_arena := A\<rparr>) }"

definition char_data_append :: "dom \<Rightarrow> addr \<Rightarrow> bytes \<Rightarrow> dom option" where
  "char_data_append h a data = do {
     s \<leftarrow> chardata h a;
     (_, s, A) \<leftarrow> lexbor_str_append s (text_arena h) data;
     Some (h\<lparr>chardata := (chardata h)(a \<mapsto> s), text_arena := A\<rparr>) }"

definition char_data_fill :: "(dom \<Rightarrow> addr \<Rightarrow> dom option) \<Rightarrow> bytes \<Rightarrow> addr option \<times> dom \<Rightarrow> (addr option \<times> dom) option" where
  "char_data_fill destroy data r = (case r of
     (None, h) \<Rightarrow> Some (None, h)
   | (Some a, h) \<Rightarrow> do {
       (ok, h) \<leftarrow> char_data_init h a (length data);
       (if \<not> ok then do { h \<leftarrow> destroy h a; Some (None, h) }
        else do { h \<leftarrow> char_data_append h a data; Some (Some a, h) }) })"

definition lxb_dom_document_create_text_node :: "dom \<Rightarrow> addr \<Rightarrow> bytes \<Rightarrow> (addr option \<times> dom) option" where
  "lxb_dom_document_create_text_node h document data = do {
     r \<leftarrow> lxb_dom_document_create_interface h document LXB_TAG__TEXT LXB_NS_HTML;
     char_data_fill lxb_dom_document_destroy_interface data r }"

definition lxb_dom_document_create_comment :: "dom \<Rightarrow> addr \<Rightarrow> bytes \<Rightarrow> (addr option \<times> dom) option" where
  "lxb_dom_document_create_comment h document data = do {
     r \<leftarrow> lxb_dom_document_create_interface h document LXB_TAG__EM_COMMENT LXB_NS_HTML;
     char_data_fill lxb_dom_document_destroy_interface data r }"

text \<open>The loops that look for the end mark inside the data.\<close>

fun finds_mark :: "bytes \<Rightarrow> bytes \<Rightarrow> bool" where
  "finds_mark mark [] = False"
| "finds_mark mark (c # cs) =
     (if c \<noteq> hd mark then finds_mark mark cs
      else if length (c # cs) < length mark then False
      else if take (length mark) (c # cs) = mark then True
      else finds_mark mark cs)"

definition lxb_dom_document_create_cdata_section :: "dom \<Rightarrow> addr \<Rightarrow> bytes \<Rightarrow> (addr option \<times> dom) option" where
  "lxb_dom_document_create_cdata_section h document data = do {
     doc \<leftarrow> docs h document;
     (if doc_type doc \<noteq> LXB_DOM_DOCUMENT_DTYPE_HTML then Some (None, h)
      else if finds_mark (ascii '']]>'') data then Some (None, h)
      else do {
        r \<leftarrow> lxb_dom_cdata_section_interface_create h document;
        char_data_fill lxb_dom_cdata_section_interface_destroy data r }) }"

definition lxb_dom_document_create_processing_instruction ::
  "dom \<Rightarrow> addr \<Rightarrow> bytes \<Rightarrow> bytes \<Rightarrow> (addr option \<times> dom) option" where
  "lxb_dom_document_create_processing_instruction h document target data =
     (if finds_mark (ascii ''?>'') data then Some (None, h)
      else do {
        (pi, h) \<leftarrow> lxb_dom_processing_instruction_interface_create h document;
        (case pi of
          None \<Rightarrow> Some (None, h)
        | Some a \<Rightarrow> do {
            (ok, h) \<leftarrow> char_data_init h a (length data);
            (if \<not> ok then do { h \<leftarrow> lxb_dom_processing_instruction_interface_destroy h a; Some (None, h) }
             else do {
               t \<leftarrow> pi_targets h a;
               (_, t, A) \<leftarrow> lexbor_str_init (Some t) (text_arena h) (length target);
               t \<leftarrow> t;
               let h = h\<lparr>pi_targets := (pi_targets h)(a \<mapsto> t), text_arena := A\<rparr>;
               (if str_data t = None then do {
                  s \<leftarrow> chardata h a;
                  (s, A) \<leftarrow> lexbor_str_destroy (Some s) (text_arena h) False;
                  s \<leftarrow> s;
                  let h = h\<lparr>chardata := (chardata h)(a \<mapsto> s), text_arena := A\<rparr>;
                  h \<leftarrow> lxb_dom_processing_instruction_interface_destroy h a;
                  Some (None, h) }
                else do {
                  h \<leftarrow> char_data_append h a data;
                  (_, t, A) \<leftarrow> lexbor_str_append t (text_arena h) target;
                  Some (Some a, h\<lparr>pi_targets := (pi_targets h)(a \<mapsto> t), text_arena := A\<rparr>) }) }) }) })"

definition lxb_dom_document_create_document_fragment where
  "lxb_dom_document_create_document_fragment = lxb_dom_document_fragment_interface_create"

section \<open>Document types\<close>

definition lxb_dom_document_type_valid_name :: "bytes \<Rightarrow> bool" where
  "lxb_dom_document_type_valid_name name \<longleftrightarrow>
     length name \<noteq> 0 \<and> (\<forall>c \<in> set name. c \<notin> {0x09, 0x0A, 0x0C, 0x0D, 0x20, 0x00, 0x3E})"

text \<open>An identifier: a block for the characters and the NUL, filled at once.\<close>

definition identifier_copy :: "dom \<Rightarrow> bytes option \<Rightarrow> ((lexbor_str option) \<times> dom) option" where
  "identifier_copy h src = (case src of
     None \<Rightarrow> Some (Some zero_str, h)
   | Some cs \<Rightarrow> if length cs = 0 then Some (Some zero_str, h) else do {
       let (p, h) = lxb_dom_document_create_text h (length cs + 1);
       (case p of
         None \<Rightarrow> Some (None, h)
       | Some _ \<Rightarrow> do {
           (_, s, A) \<leftarrow> lexbor_str_copy_to_with_null (zero_str\<lparr>str_data := p\<rparr>) (text_arena h) cs;
           Some (Some s, h\<lparr>text_arena := A\<rparr>) }) })"

text \<open>
  On failure the public identifier is freed; the document type is neither freed nor forgotten, it keeps
  a pointer to that block.
\<close>

definition doctype_failed :: "dom \<Rightarrow> addr option \<Rightarrow> (addr option \<times> lxb_dom_exception_code \<times> dom) option" where
  "doctype_failed h doctype = (case doctype of
     None \<Rightarrow> Some (None, LXB_DOM_EXCEPTION_ERR, h)
   | Some a \<Rightarrow> do {
       dt \<leftarrow> doctypes h a;
       h \<leftarrow> (if str_data (dt_public_id dt) \<noteq> None then lxb_dom_document_destroy_text h (str_data (dt_public_id dt)) else Some h);
       Some (None, LXB_DOM_EXCEPTION_ERR, h) })"

definition lxb_dom_document_type_create ::
  "dom \<Rightarrow> addr \<Rightarrow> bytes \<Rightarrow> bytes option \<Rightarrow> bytes option \<Rightarrow> (addr option \<times> lxb_dom_exception_code \<times> dom) option" where
  "lxb_dom_document_type_create h document name pub sys =
     (if \<not> lxb_dom_document_type_valid_name name then Some (None, LXB_DOM_EXCEPTION_INVALID_CHARACTER_ERR, h)
      else do {
        (doctype, h) \<leftarrow> lxb_dom_document_type_interface_create h document;
        (case doctype of
          None \<Rightarrow> doctype_failed h None
        | Some a \<Rightarrow> do {
            doc \<leftarrow> docs h document;
            attrs \<leftarrow> hashes h (doc_attrs doc);
            (data, attrs) \<leftarrow> lxb_dom_attr_local_name_append attrs (Some name);
            let h = h\<lparr>hashes := (hashes h)(doc_attrs doc \<mapsto> attrs)\<rparr>;
            (case data of
              None \<Rightarrow> doctype_failed h (Some a)
            | Some p \<Rightarrow> do {
                attr_id \<leftarrow> ptr_id lxb_dom_attr_res_data_default attrs p;
                dt \<leftarrow> doctypes h a;
                let dt = dt\<lparr>dt_name := attr_id\<rparr>;
                (s, h) \<leftarrow> identifier_copy (h\<lparr>doctypes := (doctypes h)(a \<mapsto> dt)\<rparr>) pub;
                (case s of
                  None \<Rightarrow> doctype_failed h (Some a)
                | Some s \<Rightarrow> do {
                    let dt = dt\<lparr>dt_public_id := s\<rparr>;
                    (s, h) \<leftarrow> identifier_copy (h\<lparr>doctypes := (doctypes h)(a \<mapsto> dt)\<rparr>) sys;
                    (case s of
                      None \<Rightarrow> doctype_failed h (Some a)
                    | Some s \<Rightarrow>
                        Some (Some a, LXB_DOM_EXCEPTION_OK,
                          h\<lparr>doctypes := (doctypes h)(a \<mapsto> dt\<lparr>dt_system_id := s\<rparr>)\<rparr>)) }) }) }) })"

end
