(* ===== verification/Dom_Creation.thy ===== *)
theory Dom_Creation
  imports Dom_Create
begin

text \<open>
  What creating and destroying an interface does to the heap: fresh, unlinked nodes whose structs fit
  their types, everything else untouched; and destroying what has just been created.
\<close>

lemma zero_simps [simp]: "str_data zero_str = None" "str_length zero_str = 0" "el_is_value zero_element = None"
  "el_first_attr zero_element = None" "el_last_attr zero_element = None" "el_attr_id zero_element = None"
  "el_attr_class zero_element = None"
  by (simp_all add: zero_str_def zero_element_def)

section \<open>Fresh nodes\<close>

definition same_at :: "dom \<Rightarrow> dom \<Rightarrow> addr \<Rightarrow> bool" where
  "same_at h h' b \<longleftrightarrow> nodes h' b = nodes h b \<and> elements h' b = elements h b \<and> attributes h' b = attributes h b \<and>
     chardata h' b = chardata h b \<and> pi_targets h' b = pi_targets h b \<and> doctypes h' b = doctypes h b \<and>
     fragment_hosts h' b = fragment_hosts h b \<and> template_contents h' b = template_contents h b \<and>
     shadow_hosts h' b = shadow_hosts h b \<and> docs h' b = docs h b"

definition unlinked :: "lxb_dom_node \<Rightarrow> bool" where
  "unlinked n \<longleftrightarrow> n_next n = None \<and> n_prev n = None \<and> n_parent n = None \<and> n_first_child n = None \<and> n_last_child n = None"

definition no_text :: "dom \<Rightarrow> addr \<Rightarrow> bool" where
  "no_text h b \<longleftrightarrow> chardata h b \<in> {None, Some zero_str} \<and> pi_targets h b \<in> {None, Some zero_str} \<and>
     elements h b \<in> {None, Some zero_element} \<and> attributes h b = None \<and>
     (case doctypes h b of None \<Rightarrow> True | Some dt \<Rightarrow> dt_public_id dt = zero_str \<and> dt_system_id dt = zero_str)"

definition fresh_nodes :: "dom \<Rightarrow> dom \<Rightarrow> addr set \<Rightarrow> bool" where
  "fresh_nodes h h' N \<longleftrightarrow>
     (\<forall>b. b \<notin> N \<longrightarrow> same_at h h' b) \<and>
     (\<forall>b \<in> N. nodes h b = None \<and> b < obj_fresh h' \<and> no_text h' b \<and>
        (\<exists>n. nodes h' b = Some n \<and> unlinked n \<and> n_owner_document n \<in> dom (docs h') \<and> kind_ok h' b n)) \<and>
     obj_fresh h \<le> obj_fresh h' \<and> hashes h' = hashes h \<and> text_arena h' = text_arena h \<and> obj_fails h' = obj_fails h"

lemma docs_node: "heap_typed h \<Longrightarrow> a \<in> dom (docs h) \<Longrightarrow> nodes h a \<noteq> None"
  using fresh_absent [of h a] by (cases "nodes h a") auto

lemma fresh_nodes_old: "fresh_nodes h h' N \<Longrightarrow> b \<notin> N \<Longrightarrow> same_at h h' b"
  by (simp add: fresh_nodes_def)

lemma fresh_nodes_new:
  assumes "fresh_nodes h h' N" and "b \<in> N"
  shows "nodes h b = None" "b < obj_fresh h'" "no_text h' b"
    "\<exists>n. nodes h' b = Some n \<and> unlinked n \<and> n_owner_document n \<in> dom (docs h') \<and> kind_ok h' b n"
  using assms unfolding fresh_nodes_def by blast+

lemma fresh_nodes_typed:
  assumes f: "fresh_nodes h h' N" and ty: "heap_typed h"
  shows "heap_typed h'"
proof (rule heap_typed_frame [OF ty])
  show "obj_fresh h \<le> obj_fresh h'" using f by (simp add: fresh_nodes_def)
  fix b
  show "same_structs h h' b \<or> (case nodes h' b of None \<Rightarrow> no_struct h' b | Some n \<Rightarrow> kind_ok h' b n \<and> b < obj_fresh h')"
    using f by (cases "b \<in> N") (auto simp: fresh_nodes_def same_at_def same_structs_def)
qed

lemma sib_ends_same: "nodes h' b = nodes h b \<Longrightarrow> sib (nodes h') b = sib (nodes h) b \<and> ends (nodes h') b = ends (nodes h) b"
  by (simp add: sib_def ends_def)

lemma sib_ends_unlinked: "nodes h b = Some n \<Longrightarrow> unlinked n \<Longrightarrow>
    sib (nodes h) b = Some (None, None, None) \<and> ends (nodes h) b = Some (None, None)"
  by (simp add: sib_def ends_def unlinked_def)

lemma fresh_nodes_wf:
  assumes f: "fresh_nodes h h' N" and ty: "heap_typed h" and wf: "dom_wf h T" and fin: "finite N"
  shows "dom_wf h' T"
proof -
  let ?s = "sib (nodes h)" and ?s' = "sib (nodes h')" and ?e = "ends (nodes h)" and ?e' = "ends (nodes h')"
  note F = dom_wf_forest [OF wf]
  have old: "?s' b = ?s b \<and> ?e' b = ?e b" if "b \<notin> N" for b
    by (rule sib_ends_same) (use f that in \<open>simp add: fresh_nodes_def same_at_def\<close>)
  have new: "?s' b = Some (None, None, None) \<and> ?e' b = Some (None, None) \<and> b \<notin> dom ?s" if "b \<in> N" for b
    using f that sib_ends_unlinked [of h' b] by (auto simp: fresh_nodes_def)
  have dom: "dom ?s' = dom ?s \<union> N"
  proof
    show "dom ?s' \<subseteq> dom ?s \<union> N" using old by force
    show "dom ?s \<union> N \<subseteq> dom ?s'" using old new by fastforce
  qed
  have T: "T b = []" if "b \<in> N" for b using forest_outside [OF F] new [OF that] by blast
  have kid: "c \<notin> N" if "c \<in> set (T p)" for c p using forest_kid_dom [OF F that] new [of c] by blast
  have dll: "dll ?s' p None (T p) None" for p
    using forest_dll [OF F, of p] dll_cong [of "T p" ?s' ?s] old kid by metis
  have "forest_on ?s' ?e' T"
    unfolding forest_on_def
  proof (intro conjI allI impI)
    show "finite (dom ?s')" using forest_finite [OF F] fin dom by simp
  next
    fix p assume "p \<in> dom ?s'"
    show "?e' p = Some (hd_or (T p) None, last_or (T p) None)"
      using new [of p] old [of p] forest_ends [OF F, of p] T [of p] dom \<open>p \<in> dom ?s'\<close> by (cases "p \<in> N") auto
  next
    fix p show "dll ?s' p None (T p) None" by (rule dll)
  next
    fix p show "distinct (T p)" by (rule forest_distinct [OF F])
  next
    fix p assume "p \<notin> dom ?s'" then show "T p = []" using forest_outside [OF F] dom by blast
  next
    fix c p pv nx assume "?s' c = Some (Some p, pv, nx)"
    then have "?s c = Some (Some p, pv, nx)" using new [of c] old [of c] by (cases "c \<in> N") auto
    then show "c \<in> set (T p)" by (rule forest_child [OF F])
  next
    fix c pv nx assume *: "?s' c = Some (None, pv, nx)"
    then have "pv = None \<and> nx = None" using new [of c] old [of c] forest_root [OF F, of c pv nx] by (cases "c \<in> N") auto
    then show "pv = None" "nx = None" by blast+
  next
    show "acyclic (edges T)" by (rule forest_acyclic [OF F])
  qed
  moreover have "owned h'"
    unfolding owned_def
  proof (intro allI impI)
    fix b n assume n: "nodes h' b = Some n"
    show "n_owner_document n \<in> dom (docs h')"
    proof (cases "b \<in> N")
      case True
      with f n show ?thesis by (auto simp: fresh_nodes_def)
    next
      case False
      with f n have "nodes h b = Some n" by (auto simp: fresh_nodes_def same_at_def)
      with wf have d: "n_owner_document n \<in> dom (docs h)" by (auto simp: dom_wf_def owned_def)
      then have "nodes h (n_owner_document n) \<noteq> None" by (rule docs_node [OF ty])
      with f have "n_owner_document n \<notin> N" by (auto simp: fresh_nodes_def)
      then have "same_at h h' (n_owner_document n)" using f by (simp add: fresh_nodes_def)
      with d show ?thesis by (simp add: same_at_def dom_def)
    qed
  qed
  ultimately show ?thesis by (simp add: dom_wf_def forest_def)
qed

lemma fresh_nodes_text:
  assumes f: "fresh_nodes h h' N" and ty: "heap_typed h"
  shows "text_ptr h' x = text_ptr h x" and "str_data s \<noteq> None \<Longrightarrow> text_of h' x = Some s \<longleftrightarrow> text_of h x = Some s"
proof -
  have "text_of h' x = text_of h x \<or> (\<forall>y \<in> {h, h'}. \<forall>s. text_of y x = Some s \<longrightarrow> str_data s = None)"
  proof -
    let ?b = "case x of Attr_value b \<Rightarrow> b | Char_data b \<Rightarrow> b | Is_value b \<Rightarrow> b | Pi_target b \<Rightarrow> b | Public_id b \<Rightarrow> b | System_id b \<Rightarrow> b"
    show ?thesis
    proof (cases "?b \<in> N")
      case True
      then have "nodes h ?b = None" "no_text h' ?b" using f by (auto simp: fresh_nodes_def)
      with fresh_absent [OF ty, of ?b] show ?thesis
        by (cases x) (auto simp: no_text_def split: option.splits)
    next
      case False
      with f have "same_at h h' ?b" by (simp add: fresh_nodes_def)
      then show ?thesis by (cases x) (simp_all add: same_at_def)
    qed
  qed
  then show "text_ptr h' x = text_ptr h x" "str_data s \<noteq> None \<Longrightarrow> text_of h' x = Some s \<longleftrightarrow> text_of h x = Some s"
    by (auto simp: text_ptr_def split: bind_split)
qed

lemma fresh_nodes_texts:
  assumes f: "fresh_nodes h h' N" and ty: "heap_typed h" and tx: "texts_ok h"
  shows "texts_ok h'" and "strings_kept_but h h' X"
proof -
  note t = fresh_nodes_text [OF f ty]
  have A: "text_arena h' = text_arena h" using f by (simp add: fresh_nodes_def)
  show "texts_ok h'"
    using tx t(2) unfolding texts_ok_but_def t(1) A by blast
  show "strings_kept_but h h' X"
    unfolding strings_kept_but_def A by blast
qed

section \<open>One struct\<close>

text \<open>What the constructors add to a node of type \<open>t\<close>.\<close>

definition struct_for :: "(addr \<Rightarrow> dom \<Rightarrow> dom) \<Rightarrow> lxb_dom_node_type \<Rightarrow> bool" where
  "struct_for f t \<longleftrightarrow> (\<forall>a h n. nodes h a = Some n \<longrightarrow> n_type n = t \<longrightarrow> no_struct h a \<longrightarrow>
     nodes (f a h) = nodes h \<and> (\<forall>b. b \<noteq> a \<longrightarrow> same_at h (f a h) b) \<and> kind_ok (f a h) a n \<and> no_text (f a h) a \<and>
     docs (f a h) = docs h \<and> obj_fresh (f a h) = obj_fresh h \<and> obj_reqs (f a h) = obj_reqs h \<and> obj_fails (f a h) = obj_fails h \<and>
     hashes (f a h) = hashes h \<and> text_arena (f a h) = text_arena h)"

lemma struct_for_element: "struct_for (\<lambda>a h. h\<lparr>elements := (elements h)(a \<mapsto> zero_element)\<rparr>) LXB_DOM_NODE_TYPE_ELEMENT"
  by (simp add: struct_for_def same_at_def kind_ok_def CHARDATA_TYPES_def no_struct_def no_text_def)

lemma struct_for_chardata:
  "t \<in> {LXB_DOM_NODE_TYPE_TEXT, LXB_DOM_NODE_TYPE_CDATA_SECTION, LXB_DOM_NODE_TYPE_COMMENT} \<Longrightarrow>
   struct_for (\<lambda>a h. h\<lparr>chardata := (chardata h)(a \<mapsto> zero_str)\<rparr>) t"
  by (auto simp: struct_for_def same_at_def kind_ok_def CHARDATA_TYPES_def no_struct_def no_text_def)

lemma struct_for_pi:
  "struct_for (\<lambda>a h. h\<lparr>chardata := (chardata h)(a \<mapsto> zero_str), pi_targets := (pi_targets h)(a \<mapsto> zero_str)\<rparr>)
     LXB_DOM_NODE_TYPE_PROCESSING_INSTRUCTION"
  by (simp add: struct_for_def same_at_def kind_ok_def CHARDATA_TYPES_def no_struct_def no_text_def)

lemma struct_for_fragment:
  "struct_for (\<lambda>a h. h\<lparr>fragment_hosts := (fragment_hosts h)(a \<mapsto> None)\<rparr>) LXB_DOM_NODE_TYPE_DOCUMENT_FRAGMENT"
  by (simp add: struct_for_def same_at_def kind_ok_def CHARDATA_TYPES_def no_struct_def no_text_def)

lemma struct_for_doctype:
  "struct_for (\<lambda>a h. h\<lparr>doctypes := (doctypes h)(a \<mapsto>
       \<lparr>dt_name = LXB_DOM_ATTR_HTML, dt_public_id = zero_str, dt_system_id = zero_str\<rparr>)\<rparr>) LXB_DOM_NODE_TYPE_DOCUMENT_TYPE"
  by (simp add: struct_for_def same_at_def kind_ok_def CHARDATA_TYPES_def no_struct_def no_text_def)

text \<open>The document a node is made for, and its owner, which owns itself.\<close>

definition doc_for :: "dom \<Rightarrow> addr \<Rightarrow> addr \<Rightarrow> bool" where
  "doc_for h document D \<longleftrightarrow> map_option n_owner_document (nodes h document) = Some D \<and> document \<in> dom (docs h) \<and>
     D \<in> dom (docs h) \<and> map_option n_owner_document (nodes h D) = Some D"

lemma fresh_nodes_doc_for:
  assumes f: "fresh_nodes h h' N" and ty: "heap_typed h" and d: "doc_for h document D"
  shows "doc_for h' document D" "doc_for h' D D"
proof -
  have same: "same_at h h' b" if "b \<in> dom (docs h)" for b
  proof -
    have "nodes h b \<noteq> None" by (rule docs_node [OF ty that])
    then have "b \<notin> N" using f by (auto simp: fresh_nodes_def)
    with f show ?thesis by (simp add: fresh_nodes_def)
  qed
  with d show "doc_for h' document D" "doc_for h' D D" by (auto simp: doc_for_def same_at_def dom_def)
qed

text \<open>A constructor answers \<open>NULL\<close> and changes nothing, or a fresh node with its own struct.\<close>

definition constructs :: "dom \<Rightarrow> addr \<Rightarrow> lxb_dom_node_type \<Rightarrow> (addr option \<times> dom) option \<Rightarrow> bool" where
  "constructs h D t r \<longleftrightarrow> (\<exists>h'. obj_reqs h' = obj_reqs h + 1 \<and>
     (if obj_fails h (obj_reqs h) then r = Some (None, h') \<and> fresh_nodes h h' {}
      else r = Some (Some (obj_fresh h), h') \<and> fresh_nodes h h' {obj_fresh h} \<and>
        nodes h' (obj_fresh h) = Some (zero_node D t) \<and> obj_fresh h' = obj_fresh h + 1))"

lemma unlinked_zero [simp]: "unlinked (zero_node D t)"
  by (simp add: unlinked_def zero_node_def)

lemma zero_node_fields [simp]: "n_owner_document (zero_node D t) = D" "n_type (zero_node D t) = t"
  by (simp_all add: zero_node_def)

lemma constructs_struct:
  assumes f: "struct_for f t" and ty: "heap_typed h" and d: "doc_for h document D"
  shows "constructs h D t (map_option (with_struct f) (interface_calloc h document t))"
proof (cases "obj_fails h (obj_reqs h)")
  case True
  then show ?thesis
    by (auto simp: constructs_def interface_calloc_def obj_calloc_def with_struct_def fresh_nodes_def same_at_def)
next
  case False
  let ?a = "obj_fresh h" and ?n = "zero_node D t"
  let ?h = "h\<lparr>obj_reqs := obj_reqs h + 1, obj_fresh := ?a + 1, nodes := (nodes h)(?a \<mapsto> ?n)\<rparr>"
  have a: "nodes h ?a = None" by (rule fresh_node [OF ty])
  have run: "map_option (with_struct f) (interface_calloc h document t) = Some (Some ?a, f ?a ?h)"
    using False d by (auto simp: interface_calloc_def obj_calloc_def with_struct_def lxb_dom_document_owner_def doc_for_def Let_def)
  have "no_struct ?h ?a" using fresh_absent [OF ty a] by (simp add: no_struct_def)
  then have s: "nodes (f ?a ?h) = nodes ?h" "\<And>b. b \<noteq> ?a \<Longrightarrow> same_at ?h (f ?a ?h) b" "kind_ok (f ?a ?h) ?a ?n" "no_text (f ?a ?h) ?a"
    "docs (f ?a ?h) = docs h" "obj_fresh (f ?a ?h) = ?a + 1" "obj_reqs (f ?a ?h) = obj_reqs h + 1" "obj_fails (f ?a ?h) = obj_fails h"
    "hashes (f ?a ?h) = hashes h" "text_arena (f ?a ?h) = text_arena h"
    using f [unfolded struct_for_def, rule_format, of ?h ?a ?n] by simp_all
  have "same_at h (f ?a ?h) b" if "b \<noteq> ?a" for b using s(2) [OF that] that by (simp add: same_at_def)
  then have "fresh_nodes h (f ?a ?h) {?a}"
    using a d s by (auto simp: fresh_nodes_def doc_for_def)
  then show ?thesis using False run s by (auto simp: constructs_def)
qed

lemmas constructors =
  constructs_struct [OF struct_for_element, folded lxb_dom_element_interface_create_def]
  constructs_struct [OF struct_for_chardata [of LXB_DOM_NODE_TYPE_TEXT, simplified], folded lxb_dom_text_interface_create_def]
  constructs_struct [OF struct_for_chardata [of LXB_DOM_NODE_TYPE_COMMENT, simplified], folded lxb_dom_comment_interface_create_def]
  constructs_struct [OF struct_for_chardata [of LXB_DOM_NODE_TYPE_CDATA_SECTION, simplified], folded lxb_dom_cdata_section_interface_create_def]
  constructs_struct [OF struct_for_pi, folded lxb_dom_processing_instruction_interface_create_def]
  constructs_struct [OF struct_for_fragment, folded lxb_dom_document_fragment_interface_create_def]
  constructs_struct [OF struct_for_doctype, folded lxb_dom_document_type_interface_create_def]

section \<open>Interfaces\<close>

text \<open>Creation by any constructor: \<open>NULL\<close>, or a fresh node of the type \<open>t\<close>, with other fresh nodes at most.\<close>

definition makes :: "dom \<Rightarrow> addr \<Rightarrow> lxb_dom_node_type \<Rightarrow> (addr option \<times> dom) option \<Rightarrow> bool" where
  "makes h D t r \<longleftrightarrow> (\<exists>p h' N. r = Some (p, h') \<and> finite N \<and> fresh_nodes h h' N \<and>
     (case p of None \<Rightarrow> N = {}
      | Some a \<Rightarrow> a = obj_fresh h \<and> a \<in> N \<and> (\<exists>n. nodes h' a = Some n \<and> n_type n = t \<and> n_owner_document n = D)))"

lemma constructs_makes: "constructs h D t r \<Longrightarrow> makes h D t r"
  unfolding constructs_def makes_def by (auto split: if_splits) blast

text \<open>Writing the name of a new node.\<close>

lemma fresh_nodes_upd:
  assumes f: "fresh_nodes h h' N" and a: "a \<in> N" "nodes h' a = Some n"
    and g: "unlinked n \<Longrightarrow> unlinked (g n)" "n_owner_document (g n) = n_owner_document n" "n_type (g n) = n_type n"
  shows "fresh_nodes h (h'\<lparr>nodes := (nodes h')(a \<mapsto> g n)\<rparr>) N"
proof -
  let ?h = "h'\<lparr>nodes := (nodes h')(a \<mapsto> g n)\<rparr>"
  have st: "no_text ?h b = no_text h' b" "kind_ok ?h b m = kind_ok h' b m" for b m by (simp_all add: no_text_def kind_ok_def)
  have k: "kind_ok h' a (g n) = kind_ok h' a n" using g(3) by (simp add: kind_ok_def)
  have "\<exists>m. nodes ?h b = Some m \<and> unlinked m \<and> n_owner_document m \<in> dom (docs h') \<and> kind_ok h' b m" if "b \<in> N" for b
    using f a g k that by (cases "b = a") (fastforce simp: fresh_nodes_def)+
  moreover have "same_at h ?h b" if "b \<notin> N" for b using f a(1) that by (auto simp: fresh_nodes_def same_at_def)
  ultimately show ?thesis using f unfolding fresh_nodes_def st by simp
qed

lemma fresh_nodes_change:
  assumes f: "fresh_nodes h h' N" and same: "\<And>b. b \<notin> N \<Longrightarrow> same_at h' h'' b"
    and new: "\<And>b n. b \<in> N \<Longrightarrow> nodes h' b = Some n \<Longrightarrow> kind_ok h' b n \<Longrightarrow> no_text h' b \<Longrightarrow>
      nodes h'' b = Some n \<and> no_text h'' b \<and> kind_ok h'' b n"
    and rest: "docs h'' = docs h'" "obj_fresh h'' = obj_fresh h'" "hashes h'' = hashes h'" "text_arena h'' = text_arena h'"
      "obj_fails h'' = obj_fails h'"
  shows "fresh_nodes h h'' N"
proof -
  have "same_at h h'' b" if "b \<notin> N" for b
    using f same [OF that] that by (simp add: fresh_nodes_def same_at_def)
  moreover have "nodes h b = None \<and> b < obj_fresh h' \<and> no_text h'' b \<and>
      (\<exists>n. nodes h'' b = Some n \<and> unlinked n \<and> n_owner_document n \<in> dom (docs h') \<and> kind_ok h'' b n)" if b: "b \<in> N" for b
  proof -
    from f b obtain n where "nodes h b = None" "b < obj_fresh h'" "no_text h' b" "nodes h' b = Some n" "unlinked n"
      "n_owner_document n \<in> dom (docs h')" "kind_ok h' b n" unfolding fresh_nodes_def by blast
    with new [OF b] show ?thesis by blast
  qed
  ultimately show ?thesis using f rest unfolding fresh_nodes_def by simp
qed

lemma fresh_nodes_trans:
  assumes "fresh_nodes h h1 N" and "fresh_nodes h1 h2 M" and ty: "heap_typed h1"
  shows "fresh_nodes h h2 (N \<union> M)"
proof -
  have same: "same_at h h2 b" if "b \<notin> N \<union> M" for b
    using assms that by (auto simp: fresh_nodes_def same_at_def)
  have M: "nodes h1 b = None" if "b \<in> M" for b using assms(2) that by (simp add: fresh_nodes_def)
  have h: "nodes h b = None" if "b \<in> N \<union> M" for b
  proof (cases "b \<in> N")
    case False
    with that have "nodes h1 b = None" by (auto intro: M)
    with False assms(1) show ?thesis by (simp add: fresh_nodes_def same_at_def)
  qed (use assms(1) in \<open>simp add: fresh_nodes_def\<close>)
  have keep: "same_at h1 h2 b" if "b \<in> N" for b
  proof -
    have "nodes h1 b \<noteq> None" using assms(1) that by (auto simp: fresh_nodes_def)
    then have "b \<notin> M" using M [of b] by metis
    with assms(2) show ?thesis by (simp add: fresh_nodes_def)
  qed
  have "b < obj_fresh h2 \<and> no_text h2 b \<and>
      (\<exists>n. nodes h2 b = Some n \<and> unlinked n \<and> n_owner_document n \<in> dom (docs h2) \<and> kind_ok h2 b n)" if "b \<in> N \<union> M" for b
  proof (cases "b \<in> M")
    case False
    with that have b: "b \<in> N" by simp
    note new = fresh_nodes_new [OF assms(1) b]
    from new(4) obtain n where n: "nodes h1 b = Some n" "unlinked n" "n_owner_document n \<in> dom (docs h1)" "kind_ok h1 b n" by blast
    have "nodes h1 (n_owner_document n) \<noteq> None" by (rule docs_node [OF ty n(3)])
    then have "n_owner_document n \<notin> M" using M [of "n_owner_document n"] by metis
    with n(3) assms(2) have "n_owner_document n \<in> dom (docs h2)" by (simp add: fresh_nodes_def same_at_def dom_def)
    moreover have "obj_fresh h1 \<le> obj_fresh h2" using assms(2) by (simp add: fresh_nodes_def)
    ultimately show ?thesis using n new(2,3) keep [OF b] by (simp add: same_at_def no_text_def kind_ok_def)
  qed (use assms(2) in \<open>simp add: fresh_nodes_def\<close>)
  with same h assms show ?thesis unfolding fresh_nodes_def by simp
qed

lemma constructs_template:
  assumes ty: "heap_typed h" and d: "doc_for h document D" and nc: "\<not> obj_fails h (obj_reqs h) \<longrightarrow> \<not> obj_fails h (obj_reqs h + 1)"
  shows "makes h D LXB_DOM_NODE_TYPE_ELEMENT (lxb_html_template_element_interface_create h document)"
proof (cases "obj_fails h (obj_reqs h)")
  case True
  with constructors(1) [OF ty d] obtain h' where "lxb_dom_element_interface_create h document = Some (None, h')" "fresh_nodes h h' {}"
    by (auto simp: constructs_def)
  then show ?thesis by (auto simp: lxb_html_template_element_interface_create_def makes_def)
next
  case False
  let ?a = "obj_fresh h"
  from constructors(1) [OF ty d] False obtain h1 where r: "lxb_dom_element_interface_create h document = Some (Some ?a, h1)"
    "fresh_nodes h h1 {?a}" "nodes h1 ?a = Some (zero_node D LXB_DOM_NODE_TYPE_ELEMENT)" "obj_reqs h1 = obj_reqs h + 1" "obj_fresh h1 = ?a + 1"
    by (auto simp: constructs_def)
  let ?h1 = "h1\<lparr>template_contents := (template_contents h1)(?a \<mapsto> None)\<rparr>"
  have f1: "fresh_nodes h ?h1 {?a}"
  proof (rule fresh_nodes_change [OF r(2)])
    fix b n assume b: "b \<in> {?a}" "nodes h1 b = Some n" "kind_ok h1 b n" "no_text h1 b"
    then have "n_type n = LXB_DOM_NODE_TYPE_ELEMENT" using r(3) by auto
    with b show "nodes ?h1 b = Some n \<and> no_text ?h1 b \<and> kind_ok ?h1 b n" by (simp add: no_text_def kind_ok_def)
  qed (simp_all add: same_at_def)
  have ty1: "heap_typed ?h1" by (rule fresh_nodes_typed [OF f1 ty])
  have D: "doc_for ?h1 D D"
    using d fresh_nodes_doc_for [OF f1 ty d] by (simp add: doc_for_def)
  have "obj_fails ?h1 = obj_fails h" using f1 by (simp add: fresh_nodes_def)
  with nc False r(4) have "\<not> obj_fails ?h1 (obj_reqs ?h1)" by simp
  with constructors(6) [OF ty1 D] obtain h2 where h2: "lxb_dom_document_fragment_interface_create ?h1 D = Some (Some (?a + 1), h2)"
    "fresh_nodes ?h1 h2 {?a + 1}" "nodes h2 (?a + 1) = Some (zero_node D LXB_DOM_NODE_TYPE_DOCUMENT_FRAGMENT)"
    unfolding constructs_def by (auto simp: r(5))
  let ?c = "?a + 1"
  let ?h3 = "h2\<lparr>template_contents := (template_contents h2)(?a \<mapsto> Some ?c)\<rparr>"
  let ?h4 = "?h3\<lparr>nodes := (nodes ?h3)(?c \<mapsto> (zero_node D LXB_DOM_NODE_TYPE_DOCUMENT_FRAGMENT)\<lparr>n_ns := LXB_NS_HTML\<rparr>)\<rparr>"
  let ?h5 = "?h4\<lparr>fragment_hosts := (fragment_hosts ?h4)(?c \<mapsto> Some ?a)\<rparr>"
  have a2: "same_at ?h1 h2 ?a" using h2(2) by (simp add: fresh_nodes_def)
  have "fresh_nodes h h2 ({?a} \<union> {?c})" by (rule fresh_nodes_trans [OF f1 h2(2) ty1])
  then have f2: "fresh_nodes h h2 {?a, ?c}" by (simp add: insert_commute)
  have "fresh_nodes h ?h3 {?a, ?c}"
  proof (rule fresh_nodes_change [OF f2])
    fix b n assume b: "nodes h2 b = Some n" "kind_ok h2 b n" "no_text h2 b"
    have "n_type n = LXB_DOM_NODE_TYPE_ELEMENT" if "b = ?a" using a2 r(3) b(1) that by (auto simp: same_at_def)
    with b show "nodes ?h3 b = Some n \<and> no_text ?h3 b \<and> kind_ok ?h3 b n" by (simp add: no_text_def kind_ok_def)
  qed (simp_all add: same_at_def)
  then have f4: "fresh_nodes h ?h4 {?a, ?c}"
    by (rule fresh_nodes_upd [where g = "\<lambda>n. n\<lparr>n_ns := LXB_NS_HTML\<rparr>"]) (use h2(3) in \<open>simp_all add: unlinked_def zero_node_def\<close>)
  have "fresh_nodes h ?h5 {?a, ?c}"
  proof (rule fresh_nodes_change [OF f4])
    fix b n assume b: "nodes ?h4 b = Some n" "kind_ok ?h4 b n" "no_text ?h4 b"
    have "n_type n = LXB_DOM_NODE_TYPE_DOCUMENT_FRAGMENT" if "b = ?c" using b(1) that by (auto simp: zero_node_def)
    with b show "nodes ?h5 b = Some n \<and> no_text ?h5 b \<and> kind_ok ?h5 b n" by (simp add: no_text_def kind_ok_def)
  qed (simp_all add: same_at_def)
  moreover have "lxb_html_template_element_interface_create h document = Some (Some ?a, ?h5)"
    using r(1,3) h2(1,3) by (simp add: lxb_html_template_element_interface_create_def wr_node_def Let_def zero_node_def)
  moreover have "nodes ?h5 ?a = Some (zero_node D LXB_DOM_NODE_TYPE_ELEMENT)" using a2 r(3) by (simp add: same_at_def)
  ultimately show ?thesis
    unfolding makes_def by (intro exI [of _ "Some ?a"] exI [of _ ?h5] exI [of _ "{?a, ?c}"]) simp
qed

text \<open>A document is owned by the document it is made from.\<close>

lemma document_init_is:
  assumes "docs h document = Some od" and "document < obj_fresh h" and "\<not> obj_fails h (obj_reqs h)"
  shows "\<exists>d. lxb_dom_document_init (snd (document_calloc h)) (obj_fresh h) document funs dtype ns =
     Some (LXB_STATUS_OK, h\<lparr>obj_reqs := obj_reqs h + 1, obj_fresh := obj_fresh h + 1,
       nodes := (nodes h)(obj_fresh h \<mapsto> (zero_node document LXB_DOM_NODE_TYPE_DOCUMENT)\<lparr>n_local_name := LXB_TAG__DOCUMENT, n_ns := ns\<rparr>),
       docs := (docs h)(obj_fresh h \<mapsto> d)\<rparr>)"
  using assms
  by (simp add: document_calloc_def obj_calloc_def with_struct_def lxb_dom_document_init_def wr_node_def zero_node_def Let_def)
    (rule exI, rule refl)

lemma document_calloc_is:
  "fst (document_calloc h) = (if obj_fails h (obj_reqs h) then None else Some (obj_fresh h))"
  "obj_fails h (obj_reqs h) \<Longrightarrow> snd (document_calloc h) = h\<lparr>obj_reqs := obj_reqs h + 1\<rparr>"
  by (simp_all add: document_calloc_def obj_calloc_def with_struct_def Let_def)

lemma fresh_nodes_reqs: "fresh_nodes h (h\<lparr>obj_reqs := r\<rparr>) {}"
  by (simp add: fresh_nodes_def same_at_def)

lemma makes_document_with:
  assumes ty: "heap_typed h" and d: "docs h document = Some od"
  shows "makes h document LXB_DOM_NODE_TYPE_DOCUMENT (case document_calloc h of
       (None, h) \<Rightarrow> Some (None, h)
     | (Some doc, h) \<Rightarrow> do { (_, h) \<leftarrow> lxb_dom_document_init h doc document funs dtype ns; Some (Some doc, h) })"
proof (cases "obj_fails h (obj_reqs h)")
  case True
  with document_calloc_is [of h] fresh_nodes_reqs show ?thesis by (cases "document_calloc h") (simp add: makes_def)
next
  case False
  let ?a = "obj_fresh h"
  have a: "nodes h ?a = None" by (rule fresh_node [OF ty])
  have "document < ?a" using docs_node [OF ty, of document] d ty by (auto simp: heap_typed_def split: option.splits dest!: spec [of _ document])
  from document_init_is [OF d this False, of funs dtype ns] obtain x where
    run: "lxb_dom_document_init (snd (document_calloc h)) ?a document funs dtype ns = Some (LXB_STATUS_OK,
       h\<lparr>obj_reqs := obj_reqs h + 1, obj_fresh := ?a + 1,
       nodes := (nodes h)(?a \<mapsto> (zero_node document LXB_DOM_NODE_TYPE_DOCUMENT)\<lparr>n_local_name := LXB_TAG__DOCUMENT, n_ns := ns\<rparr>),
       docs := (docs h)(?a \<mapsto> x)\<rparr>)" (is "_ = Some (_, ?h)") by blast
  have "same_at h ?h b" if "b \<noteq> ?a" for b using that by (simp add: same_at_def)
  moreover have "no_text ?h ?a" "kind_ok ?h ?a ((zero_node document LXB_DOM_NODE_TYPE_DOCUMENT)\<lparr>n_local_name := LXB_TAG__DOCUMENT, n_ns := ns\<rparr>)"
    using fresh_absent [OF ty a] by (simp_all add: no_text_def kind_ok_def CHARDATA_TYPES_def)
  moreover have "unlinked ((zero_node document LXB_DOM_NODE_TYPE_DOCUMENT)\<lparr>n_local_name := LXB_TAG__DOCUMENT, n_ns := ns\<rparr>)"
    by (simp add: unlinked_def zero_node_def)
  moreover have "document \<in> dom (docs ?h)" using d by auto
  ultimately have f: "fresh_nodes h ?h {?a}" using a unfolding fresh_nodes_def by simp
  have "document_calloc h = (Some ?a, snd (document_calloc h))" using document_calloc_is(1) [of h] False by (metis prod.collapse)
  then have "(case document_calloc h of (None, h) \<Rightarrow> Some (None, h)
     | (Some doc, h) \<Rightarrow> do { (_, h) \<leftarrow> lxb_dom_document_init h doc document funs dtype ns; Some (Some doc, h) }) = Some (Some ?a, ?h)"
    using run by (metis (mono_tags, lifting) bind.bind_lunit option.case(2) old.prod.case)
  with f show ?thesis
    unfolding makes_def by (intro exI [of _ "Some ?a"] exI [of _ ?h] exI [of _ "{?a}"]) simp
qed

lemma makes_document:
  assumes "heap_typed h" and "docs h document = Some od"
  shows "makes h document LXB_DOM_NODE_TYPE_DOCUMENT (lxb_dom_document_interface_create h document)"
    and "makes h document LXB_DOM_NODE_TYPE_DOCUMENT (lxb_html_document_interface_create h document)"
  using makes_document_with [OF assms] assms(2)
  unfolding lxb_dom_document_interface_create_def lxb_html_document_interface_create_def by simp_all

text \<open>The type of the node that a class of the tables makes.\<close>

definition class_type :: "res_class \<Rightarrow> lxb_dom_node_type" where
  "class_type c = (case c of
     Dom_text \<Rightarrow> LXB_DOM_NODE_TYPE_TEXT
   | Dom_comment \<Rightarrow> LXB_DOM_NODE_TYPE_COMMENT
   | Dom_doctype \<Rightarrow> LXB_DOM_NODE_TYPE_DOCUMENT_TYPE
   | Dom_document \<Rightarrow> LXB_DOM_NODE_TYPE_DOCUMENT
   | Html_document \<Rightarrow> LXB_DOM_NODE_TYPE_DOCUMENT
   | _ \<Rightarrow> LXB_DOM_NODE_TYPE_ELEMENT)"

definition interface_class :: "lxb_dom_document \<Rightarrow> nat \<Rightarrow> nat \<Rightarrow> res_class" where
  "interface_class doc tag_id ns = (case doc_interfaces doc of
     Dom_interface \<Rightarrow> Dom_element
   | Html_interface \<Rightarrow>
       if tag_id < LXB_TAG__LAST_ENTRY \<and> ns < LXB_NS__LAST_ENTRY then res_class tag_id ns
       else if tag_id \<ge> LXB_TAG__LAST_ENTRY \<and> ns = LXB_NS_HTML then Html_element else Dom_element)"

text \<open>A document is owned by the document it is made from, the others by its owner.\<close>

definition class_owner :: "addr \<Rightarrow> addr \<Rightarrow> res_class \<Rightarrow> addr" where
  "class_owner document D c = (if c \<in> {Dom_document, Html_document} then document else D)"

definition content_granted :: "dom \<Rightarrow> res_class \<Rightarrow> bool" where
  "content_granted h c \<longleftrightarrow> c \<noteq> Html_template \<or> obj_fails h (obj_reqs h) \<or> \<not> obj_fails h (obj_reqs h + 1)"

lemma makes_class:
  assumes ty: "heap_typed h" and d: "doc_for h document D" and c: "content_granted h c"
  shows "makes h (class_owner document D c) (class_type c) (lxb_html_interface_res_constructors c h document)"
proof -
  from d obtain od where od: "docs h document = Some od" by (auto simp: doc_for_def)
  note k = constructors [OF ty d, THEN constructs_makes]
  show ?thesis
    using k(1,2,3,7) makes_document [OF ty od] constructs_template [OF ty d] c
    by (cases c) (simp_all add: class_owner_def class_type_def lxb_html_interface_res_constructors_def
        lxb_html_element_interface_create_def content_granted_def, argo)
qed

lemma makes_html:
  assumes "heap_typed h" and "doc_for h document D" and "doc_interfaces doc = Html_interface"
    and "content_granted h (interface_class doc tag_id ns)"
  shows "makes h (class_owner document D (interface_class doc tag_id ns)) (class_type (interface_class doc tag_id ns))
     (html_create h document tag_id ns)"
proof -
  have "html_create h document tag_id ns = lxb_html_interface_res_constructors (interface_class doc tag_id ns) h document"
    using assms(3) by (simp add: html_create_def interface_class_def lxb_html_interface_res_constructors_def not_le)
  with makes_class [OF assms(1,2,4)] show ?thesis by simp
qed

text \<open>A created interface: named, and otherwise as its class makes it.\<close>

definition created :: "dom \<Rightarrow> addr \<Rightarrow> lxb_dom_node_type \<Rightarrow> nat \<Rightarrow> nat \<Rightarrow> addr option \<Rightarrow> dom \<Rightarrow> addr set \<Rightarrow> bool" where
  "created h D t tag_id ns p h' N \<longleftrightarrow> finite N \<and> fresh_nodes h h' N \<and>
     (case p of None \<Rightarrow> N = {}
      | Some a \<Rightarrow> a = obj_fresh h \<and> a \<in> N \<and> (\<exists>n. nodes h' a = Some n \<and> n_type n = t \<and> n_owner_document n = D \<and>
          n_local_name n = tag_id \<and> n_ns n = ns))"

lemma makes_created:
  assumes "makes h D t r"
  shows "\<exists>p h' N. (do { (node, h) \<leftarrow> r; (case node of None \<Rightarrow> Some (None, h)
     | Some a \<Rightarrow> do { h \<leftarrow> wr_node h a (\<lambda>n. n\<lparr>n_local_name := tag_id, n_ns := ns\<rparr>); Some (Some a, h) }) }) = Some (p, h') \<and>
     created h D t tag_id ns p h' N"
proof -
  from assms obtain p h1 N where r: "r = Some (p, h1)" "finite N" "fresh_nodes h h1 N" "case p of None \<Rightarrow> N = {}
      | Some a \<Rightarrow> a = obj_fresh h \<and> a \<in> N \<and> (\<exists>n. nodes h1 a = Some n \<and> n_type n = t \<and> n_owner_document n = D)"
    by (auto simp: makes_def)
  show ?thesis
  proof (cases p)
    case None
    with r show ?thesis by (auto simp: created_def)
  next
    case (Some a)
    with r obtain n where n: "a = obj_fresh h" "a \<in> N" "nodes h1 a = Some n" "n_type n = t" "n_owner_document n = D" by auto
    have "fresh_nodes h (h1\<lparr>nodes := (nodes h1)(a \<mapsto> n\<lparr>n_local_name := tag_id, n_ns := ns\<rparr>)\<rparr>) N"
      by (rule fresh_nodes_upd [where g = "\<lambda>n. n\<lparr>n_local_name := tag_id, n_ns := ns\<rparr>", OF r(3) n(2,3)]) (simp_all add: unlinked_def)
    with n r(2) have "created h D t tag_id ns (Some a) (h1\<lparr>nodes := (nodes h1)(a \<mapsto> n\<lparr>n_local_name := tag_id, n_ns := ns\<rparr>)\<rparr>) N"
      by (simp add: created_def)
    moreover have "wr_node h1 a (\<lambda>n. n\<lparr>n_local_name := tag_id, n_ns := ns\<rparr>) =
        Some (h1\<lparr>nodes := (nodes h1)(a \<mapsto> n\<lparr>n_local_name := tag_id, n_ns := ns\<rparr>)\<rparr>)" using n(3) by (simp add: wr_node_def)
    ultimately show ?thesis using r(1) Some by auto
  qed
qed

lemma create_interface:
  assumes ty: "heap_typed h" and d: "doc_for h document D" and doc: "docs h document = Some doc"
    and c: "content_granted h (interface_class doc tag_id ns)"
  shows "\<exists>p h' N. lxb_dom_document_create_interface h document tag_id ns = Some (p, h') \<and>
     created h (class_owner document D (interface_class doc tag_id ns)) (class_type (interface_class doc tag_id ns)) tag_id ns p h' N"
proof (cases "doc_interfaces doc")
  case Html_interface
  from makes_created [OF makes_html [OF ty d this c]] doc Html_interface show ?thesis
    by (simp add: lxb_dom_document_create_interface_def lxb_html_interface_create_def)
next
  case Dom_interface
  then have k: "class_owner document D (interface_class doc tag_id ns) = D"
    "class_type (interface_class doc tag_id ns) = LXB_DOM_NODE_TYPE_ELEMENT"
    by (simp_all add: interface_class_def class_owner_def class_type_def)
  from makes_created [OF constructors(1) [OF ty d, THEN constructs_makes]] doc Dom_interface show ?thesis
    unfolding k by (simp add: lxb_dom_document_create_interface_def lxb_dom_interface_create_def)
qed

end
