(* ===== verification/Dom_Document.thy ===== *)
theory Dom_Document
  imports Dom_Creation Dom_Attr_Sample
begin

text \<open>
  The creating functions of a document, on well-formed heaps: what kind of node they make, what they
  leave of the tree, of the attributes and of the strings, and what they do when memory is refused.
\<close>

lemma fresh_same: "fresh_nodes h h' N \<Longrightarrow> nodes h b \<noteq> None \<Longrightarrow> same_at h h' b"
  using fresh_nodes_new(1) [of h h' N b] fresh_nodes_old [of h h' N b] by metis

section \<open>Nodes have the struct of their type\<close>

text \<open>
  C6: Creation is well typed. In a heap where every node has the struct its type promises, asking a
  document for an interface by tag and namespace always returns (unless the content of a template is
  refused after its element was granted); the heap it leaves is again typed and a forest of the same
  lists of children, and every old object is as it was. The answer is NULL, or a new node, linked to
  nothing, with the tag and the namespace asked for, of the type that the tables of constructors give.
\<close>

theorem create_interface_typed:
  assumes "heap_typed h" and "dom_wf h T" and "doc_for h document D" and "docs h document = Some doc"
    and "content_granted h (interface_class doc tag_id ns)"
  shows "\<exists>p h'. lxb_dom_document_create_interface h document tag_id ns = Some (p, h') \<and>
     heap_typed h' \<and> dom_wf h' T \<and> (\<forall>b. nodes h b \<noteq> None \<longrightarrow> same_at h h' b) \<and>
     (case p of
       None \<Rightarrow> \<forall>b. same_at h h' b
     | Some a \<Rightarrow> nodes h a = None \<and> (\<exists>n. nodes h' a = Some n \<and> unlinked n \<and> n_local_name n = tag_id \<and> n_ns n = ns \<and>
         n_type n = class_type (interface_class doc tag_id ns) \<and>
         n_owner_document n = class_owner document D (interface_class doc tag_id ns)))"
proof -
  from create_interface [OF assms(1,3,4,5)] obtain p h' N where
    r: "lxb_dom_document_create_interface h document tag_id ns = Some (p, h')" and
    c: "created h (class_owner document D (interface_class doc tag_id ns)) (class_type (interface_class doc tag_id ns)) tag_id ns p h' N"
    by blast
  from c have f: "fresh_nodes h h' N" and fin: "finite N" by (simp_all add: created_def)
  have "case p of
       None \<Rightarrow> \<forall>b. same_at h h' b
     | Some a \<Rightarrow> nodes h a = None \<and> (\<exists>n. nodes h' a = Some n \<and> unlinked n \<and> n_local_name n = tag_id \<and> n_ns n = ns \<and>
         n_type n = class_type (interface_class doc tag_id ns) \<and>
         n_owner_document n = class_owner document D (interface_class doc tag_id ns))"
  proof (cases p)
    case None
    with c fresh_nodes_old [OF f] show ?thesis by (auto simp: created_def)
  next
    case (Some a)
    with c have "a \<in> N" by (auto simp: created_def)
    with fresh_nodes_new [OF f this] c Some show ?thesis by (auto simp: created_def)
  qed
  with r fresh_nodes_typed [OF f assms(1)] fresh_nodes_wf [OF f assms(1,2) fin] fresh_same [OF f] show ?thesis by blast
qed

lemma plan_wf: "dom_wf (sample_plan f) sample_kids"
  using sample_wf by (simp add: dom_wf_def owned_def)

lemma sample_doc_for: "doc_for (sample_plan f) 1 1" "docs (sample_plan f) 1 = Some sample_doc" "doc_interfaces sample_doc = Html_interface"
  by (auto simp: doc_for_def sample_doc_def sample_defs)

lemma create_interface_typed_witness:
  "\<exists>p h'. lxb_dom_document_create_interface (sample_plan (\<lambda>_. None)) 1 LXB_TAG_TEMPLATE LXB_NS_HTML = Some (p, h') \<and>
     heap_typed h' \<and> dom_wf h' sample_kids \<and> (\<forall>b. nodes (sample_plan (\<lambda>_. None)) b \<noteq> None \<longrightarrow> same_at (sample_plan (\<lambda>_. None)) h' b)"
proof -
  have "content_granted (sample_plan (\<lambda>_. None)) c" for c
    by (simp add: content_granted_def sample_plan_def sample_dom_def)
  moreover have "heap_typed (sample_plan (\<lambda>_. None))" using sample_attrs_wf by (simp add: attrs_wf_def)
  ultimately show ?thesis
    using create_interface_typed [OF _ plan_wf sample_doc_for(1,2), of "\<lambda>_. None" LXB_TAG_TEMPLATE LXB_NS_HTML] by blast
qed

section \<open>Text nodes and comments\<close>

definition char_node :: "dom \<Rightarrow> addr \<Rightarrow> nat \<Rightarrow> lxb_dom_node_type \<Rightarrow> dom" where
  "char_node h D tag_id t = h\<lparr>obj_reqs := obj_reqs h + 1, obj_fresh := obj_fresh h + 1,
     nodes := (nodes h)(obj_fresh h \<mapsto> (zero_node D t)\<lparr>n_local_name := tag_id, n_ns := LXB_NS_HTML\<rparr>),
     chardata := (chardata h)(obj_fresh h \<mapsto> zero_str)\<rparr>"

definition char_tag :: "nat \<Rightarrow> lxb_dom_node_type \<Rightarrow> bool" where
  "char_tag tag_id t \<longleftrightarrow> (tag_id, t) \<in> {(LXB_TAG__TEXT, LXB_DOM_NODE_TYPE_TEXT), (LXB_TAG__EM_COMMENT, LXB_DOM_NODE_TYPE_COMMENT)}"

lemma create_char_is:
  assumes t: "char_tag tag_id t" and d: "doc_for h document D" and doc: "docs h document = Some doc" "doc_interfaces doc = Html_interface"
    and fresh: "nodes h (obj_fresh h) = None"
  shows "lxb_dom_document_create_interface h document tag_id LXB_NS_HTML =
     (if obj_fails h (obj_reqs h) then Some (None, h\<lparr>obj_reqs := obj_reqs h + 1\<rparr>)
      else Some (Some (obj_fresh h), char_node h D tag_id t))"
proof -
  have own: "map_option n_owner_document (nodes h document) = Some D" and ne: "document \<noteq> obj_fresh h"
    using d fresh by (auto simp: doc_for_def)
  have c: "html_create h document tag_id LXB_NS_HTML = map_option (with_struct (\<lambda>a h. h\<lparr>chardata := (chardata h)(a \<mapsto> zero_str)\<rparr>))
       (interface_calloc h document t)"
    using t by (auto simp: char_tag_def html_create_def res_class_def lxb_html_interface_res_constructors_def LXB_TAG__TEXT_def
        LXB_TAG__EM_COMMENT_def LXB_TAG__DOCUMENT_def LXB_TAG__LAST_ENTRY_def LXB_NS_HTML_def LXB_NS__LAST_ENTRY_def
        lxb_dom_text_interface_create_def lxb_dom_comment_interface_create_def)
  show ?thesis
    using own ne doc by (auto simp: lxb_dom_document_create_interface_def lxb_html_interface_create_def c interface_calloc_def
        obj_calloc_def lxb_dom_document_owner_def with_struct_def wr_node_def char_node_def Let_def)
qed

text \<open>Filling the string of a new node: the room asked for is enough for the characters.\<close>

definition chars_at :: "dom \<Rightarrow> addr \<Rightarrow> bytes \<Rightarrow> bool" where
  "chars_at h a cs \<longleftrightarrow> (\<exists>s. chardata h a = Some s \<and> str_is (text_arena h) s cs)"

lemma str_init_fill:
  assumes wf: "ar_wf A" and n: "length cs + 1 < 2 ^ 63"
  shows "\<exists>r s A1. lexbor_str_init (Some zero_str) A (length cs) = Some (r, Some s, A1) \<and>
     (str_data s = None \<longleftrightarrow> ar_plan A (ar_reqs A) = None) \<and>
     (if str_data s = None then s = zero_str \<and> ar_blocks A1 = ar_blocks A \<and> ar_wf A1
      else \<exists>r' s' A2. lexbor_str_append s A1 cs = Some (r', s', A2) \<and> ar_wf A2 \<and> str_is A2 s' cs \<and>
        value_blocks (ar_blocks A) (Some zero_str) (ar_blocks A2) (Some s'))"
proof -
  from str_init_is [OF wf n, of zero_str] obtain r s A1 where i: "lexbor_str_init (Some zero_str) A (length cs) = Some (r, Some s, A1)"
    "ar_wf A1" "r \<noteq> None \<and> str_is A1 s [] \<and> ar_blocks A (the (str_data s)) = None \<and>
        (\<exists>b. ar_blocks A1 = (ar_blocks A)(the (str_data s) \<mapsto> b) \<and> length cs < length b) \<or>
      r = None \<and> str_data s = None \<and> str_length s = 0 \<and> ar_blocks A1 = ar_blocks A" by blast
  have pl: "str_data s = None \<longleftrightarrow> ar_plan A (ar_reqs A) = None"
    using i(1) by (auto simp: lexbor_str_init_def lexbor_mraw_alloc_def bind_eq_Some_conv split: option.splits)
  show ?thesis
  proof (cases "str_data s")
    case None
    with i(3) have "str_length s = 0" "ar_blocks A1 = ar_blocks A" by (auto simp: str_is_def)
    with None have "s = zero_str" by (simp add: zero_str_def)
    with i pl \<open>ar_blocks A1 = ar_blocks A\<close> show ?thesis by simp
  next
    case (Some p)
    with i(3) obtain b where b: "ar_blocks A p = None" "ar_blocks A1 = (ar_blocks A)(p \<mapsto> b)" "length cs < length b"
      "str_length s = 0" "str_is A1 s []" by (auto simp: str_is_def)
    have "\<exists>r' s' A2. lexbor_str_append s A1 cs = Some (r', s', A2) \<and> ar_wf A2 \<and> str_is A2 s' cs \<and>
        value_blocks (ar_blocks A) (Some zero_str) (ar_blocks A2) (Some s')"
    proof (cases "cs = []")
      case True
      with b i(2) Some show ?thesis by (auto simp: lexbor_str_append_def value_blocks_def vdata_def)
    next
      case False
      have "ar_blocks A1 p = Some ([] @ b)" using b by simp
      from write_behind [OF this, of cs] b(3) obtain A2 A3 rest where
        w: "blk_write A1 (Some p) 0 cs = Some A2" "blk_write A2 (Some p) (length cs) [0] = Some A3"
        "A3 = A1\<lparr>ar_blocks := (ar_blocks A1)(p \<mapsto> cs @ 0 # rest)\<rparr>" by auto
      have "\<not> 0 > SIZE_MAX - (length cs + 1)" by simp
      then have "lexbor_str_check_size_arg s A1 (length cs + 1) = Some (True, s, A1)"
        using b Some by (simp add: lexbor_str_check_size_arg_def lexbor_str_size_def lexbor_mraw_data_size_def)
      then have "lexbor_str_append s A1 cs = Some (at_off (Some p) 0, s\<lparr>str_length := length cs\<rparr>, A3)"
        using False w b(4) Some by (simp add: lexbor_str_append_def Let_def)
      moreover have "str_is A3 (s\<lparr>str_length := length cs\<rparr>) cs" using w(3) Some by (intro str_isI) auto
      moreover have "ar_wf A3" using i(2) b(2) w(3) by (auto simp: ar_wf_def)
      ultimately show ?thesis using w(3) b Some by (auto simp: value_blocks_def vdata_def)
    qed
    with Some i(1) pl show ?thesis by auto
  qed
qed

lemma char_data_fill_is:
  assumes c: "chardata h a = Some zero_str" and wf: "ar_wf (text_arena h)" and n: "length data + 1 < 2 ^ 63"
  shows "\<exists>s A. ar_wf A \<and> (str_data s = None \<longleftrightarrow> ar_plan (text_arena h) (ar_reqs (text_arena h)) = None) \<and>
     (str_data s = None \<and> s = zero_str \<and> ar_blocks A = ar_blocks (text_arena h) \<and>
        char_data_fill destroy data (Some a, h) =
          map_option (Pair None) (destroy (h\<lparr>chardata := (chardata h)(a \<mapsto> s), text_arena := A\<rparr>) a) \<or>
      str_is A s data \<and> value_blocks (ar_blocks (text_arena h)) (Some zero_str) (ar_blocks A) (Some s) \<and>
        char_data_fill destroy data (Some a, h) = Some (Some a, h\<lparr>chardata := (chardata h)(a \<mapsto> s), text_arena := A\<rparr>))"
proof -
  from str_init_fill [OF wf n] obtain r s A1 where i: "lexbor_str_init (Some zero_str) (text_arena h) (length data) = Some (r, Some s, A1)"
    "str_data s = None \<longleftrightarrow> ar_plan (text_arena h) (ar_reqs (text_arena h)) = None" "if str_data s = None then s = zero_str \<and> ar_blocks A1 = ar_blocks (text_arena h) \<and> ar_wf A1
      else \<exists>r' s' A2. lexbor_str_append s A1 data = Some (r', s', A2) \<and> ar_wf A2 \<and> str_is A2 s' data \<and>
        value_blocks (ar_blocks (text_arena h)) (Some zero_str) (ar_blocks A2) (Some s')" by (elim exE conjE) rule
  show ?thesis
  proof (cases "str_data s")
    case None
    with i c show ?thesis
      by (intro exI [of _ s] exI [of _ A1]) (simp add: char_data_fill_def char_data_init_def map_option_case bind_eq_Some_conv
          split: option.splits)
  next
    case (Some p)
    with i(3) obtain r' s' A2 where a: "lexbor_str_append s A1 data = Some (r', s', A2)" "ar_wf A2" "str_is A2 s' data"
      "value_blocks (ar_blocks (text_arena h)) (Some zero_str) (ar_blocks A2) (Some s')" by auto
    have ne: "str_data s \<noteq> None" "str_data s' \<noteq> None" using Some a(3) by (auto simp: str_is_def)
    with i(2) have "str_data s' = None \<longleftrightarrow> ar_plan (text_arena h) (ar_reqs (text_arena h)) = None" by blast
    with a ne Some i(1) c show ?thesis
      by (intro exI [of _ s'] exI [of _ A2]) (simp del: not_None_eq add: char_data_fill_def char_data_init_def char_data_append_def)
  qed
qed

text \<open>A node that could not be filled is destroyed: nothing of it remains.\<close>

lemma destroy_char_node:
  assumes t: "char_tag tag_id t" and d: "doc_for h D D" and doc: "docs h D = Some doc" "doc_interfaces doc = Html_interface"
    and ty: "heap_typed h"
  shows "lxb_dom_document_destroy_interface ((char_node h D tag_id t)\<lparr>text_arena := A\<rparr>) (obj_fresh h) =
     Some (h\<lparr>obj_reqs := obj_reqs h + 1, obj_fresh := obj_fresh h + 1, text_arena := A,
       shadow_hosts := (shadow_hosts h)(obj_fresh h := None)\<rparr>)"
proof -
  have a: "nodes h (obj_fresh h) = None" by (rule fresh_node [OF ty])
  have un: "m(obj_fresh h := None) = m" if "m (obj_fresh h) = None" for m :: "addr \<rightharpoonup> 'z" using that by auto
  have D: "D \<noteq> obj_fresh h" using a d by (auto simp: doc_for_def)
  note no = fresh_absent [OF ty a]
  have gone: "obj_gone ((char_node h D tag_id t)\<lparr>text_arena := A\<rparr>) (obj_fresh h) =
     h\<lparr>obj_reqs := obj_reqs h + 1, obj_fresh := obj_fresh h + 1, text_arena := A,
       shadow_hosts := (shadow_hosts h)(obj_fresh h := None)\<rparr>"
    using a no by (intro dom.equality) (simp_all add: obj_gone_def char_node_def un)
  have cls: "n_type n = t \<Longrightarrow> n_local_name n = tag_id \<Longrightarrow> n_ns n = LXB_NS_HTML \<Longrightarrow>
      nodes x b = Some n \<Longrightarrow> lxb_html_interface_destroy x (Some b) = lxb_dom_character_data_interface_destroy x b" for n x b
    using t by (auto simp: char_tag_def lxb_html_interface_destroy_def res_class_def lxb_html_interface_res_destructor_def LXB_TAG__TEXT_def
        LXB_TAG__EM_COMMENT_def LXB_TAG__DOCUMENT_def LXB_TAG__LAST_ENTRY_def LXB_NS_HTML_def LXB_NS__LAST_ENTRY_def
        lxb_dom_text_interface_destroy_def lxb_dom_comment_interface_destroy_def)
  let ?h = "(char_node h D tag_id t)\<lparr>text_arena := A\<rparr>"
  have n: "nodes ?h (obj_fresh h) = Some ((zero_node D t)\<lparr>n_local_name := tag_id, n_ns := LXB_NS_HTML\<rparr>)"
    "chardata ?h (obj_fresh h) = Some zero_str" "docs ?h D = Some doc" using doc by (simp_all add: char_node_def)
  have "lxb_dom_node_interface_destroy ?h (obj_fresh h) = Some (obj_gone ?h (obj_fresh h))"
    using n by (simp add: lxb_dom_node_interface_destroy_def node_event_def lxb_dom_document_node_cbs_def obj_free_def owner_doc_def)
  moreover have "lxb_html_interface_destroy ?h (Some (obj_fresh h)) = lxb_dom_character_data_interface_destroy ?h (obj_fresh h)"
    by (rule cls [OF _ _ _ n(1)]) (simp_all add: zero_node_def)
  ultimately show ?thesis
    using n doc by (simp add: lxb_dom_document_destroy_interface_def owner_doc_def lxb_dom_character_data_interface_destroy_def
        gone free_str_def lexbor_str_destroy_def lexbor_str_clean_def)
qed

text \<open>A heap that differs in nothing that the invariants read.\<close>

definition idle :: "dom \<Rightarrow> dom \<Rightarrow> bool" where
  "idle h h' \<longleftrightarrow> nodes h' = nodes h \<and> elements h' = elements h \<and> attributes h' = attributes h \<and> docs h' = docs h \<and>
     hashes h' = hashes h \<and> same_other_structs h h' \<and> obj_fresh h \<le> obj_fresh h' \<and>
     ar_blocks (text_arena h') = ar_blocks (text_arena h) \<and> ar_wf (text_arena h')"

lemma idle_keeps:
  assumes i: "idle h h'" and wf: "attrs_wf h M"
  shows "attrs_wf h' M" and "dom_wf h T \<Longrightarrow> dom_wf h' T" and "chars_at h b cs \<Longrightarrow> chars_at h' b cs"
proof -
  have t: "text_of h' x = text_of h x" for x using i by (cases x) (simp_all add: idle_def)
  have s: "str_is (text_arena h') s cs = str_is (text_arena h) s cs" for s cs using i by (simp add: idle_def str_is_def)
  have "heap_typed h'"
    by (rule heap_typed_frame [of h]) (use i wf in \<open>simp_all add: idle_def attrs_wf_def same_structs_def\<close>)
  moreover have "texts_ok h'"
  proof -
    have "ar_blocks (text_arena h') = ar_blocks (text_arena h)" "ar_wf (text_arena h')" "texts_ok h"
      using i wf by (simp_all add: idle_def attrs_wf_def)
    then show ?thesis by (simp add: texts_ok_but_def text_ptr_def t s)
  qed
  moreover have "names_grow h h'" using i by (simp add: idle_def names_grow_same)
  ultimately show "attrs_wf h' M"
    by (rule attrs_wf_stays [where N = "{}" and X = "{}", OF wf]) (use i s in \<open>auto simp: idle_def stays_def strings_kept_but_def\<close>)
  show "dom_wf h T \<Longrightarrow> dom_wf h' T" using i by (simp add: dom_wf_def owned_def idle_def)
  show "chars_at h b cs \<Longrightarrow> chars_at h' b cs" using i s by (auto simp: chars_at_def idle_def)
qed

lemma char_node_fresh:
  assumes ty: "heap_typed h" and d: "doc_for h D D" and t: "char_tag tag_id t"
  shows "fresh_nodes h (char_node h D tag_id t) {obj_fresh h}"
proof -
  have a: "nodes h (obj_fresh h) = None" by (rule fresh_node [OF ty])
  note no = fresh_absent [OF ty a]
  have "kind_ok (char_node h D tag_id t) (obj_fresh h) ((zero_node D t)\<lparr>n_local_name := tag_id, n_ns := LXB_NS_HTML\<rparr>)"
    using no t by (auto simp: char_tag_def kind_ok_def CHARDATA_TYPES_def char_node_def)
  moreover have "no_text (char_node h D tag_id t) (obj_fresh h)" using no by (simp add: no_text_def char_node_def)
  moreover have "unlinked ((zero_node D t)\<lparr>n_local_name := tag_id, n_ns := LXB_NS_HTML\<rparr>)" by (simp add: unlinked_def zero_node_def)
  ultimately show ?thesis using a d unfolding fresh_nodes_def
    by (auto simp: char_node_def same_at_def doc_for_def)
qed

lemma char_filled:
  assumes wf: "attrs_wf h M" and dw: "dom_wf h T" and d: "doc_for h D D" and t: "char_tag tag_id t"
    and A: "ar_wf A" "str_is A s data" "value_blocks (ar_blocks (text_arena h)) (Some zero_str) (ar_blocks A) (Some s)"
    and h': "h' = (char_node h D tag_id t)\<lparr>chardata := (chardata h)(obj_fresh h \<mapsto> s), text_arena := A\<rparr>"
  shows "attrs_wf h' M" and "dom_wf h' T" and "chars_at h b cs \<Longrightarrow> chars_at h' b cs" and "chars_at h' (obj_fresh h) data"
proof -
  let ?a = "obj_fresh h" and ?h1 = "char_node h D tag_id t"
  have ty: "heap_typed h" and tx: "texts_ok h" using wf by (simp_all add: attrs_wf_def)
  note f = char_node_fresh [OF ty d t] and a = fresh_node [OF ty]
  note no = fresh_absent [OF ty a] and t1 = fresh_nodes_texts [OF f ty tx] and x1 = fresh_nodes_text [OF f ty]
  have c1: "chardata ?h1 ?a = Some zero_str" "text_arena ?h1 = text_arena h" by (simp_all add: char_node_def)
  have tof: "text_of h' x = text_of ?h1 x" if "x \<noteq> Char_data ?a" for x
    using that by (cases x) (auto simp: h' char_node_def)
  have own: "text_of h' (Char_data ?a) = Some s" "text_arena h' = A" by (simp_all add: h')
  note t2 = texts_replace [OF t1(1), of "Char_data ?a" h', OF tof]
  have t2': "strings_kept_but ?h1 h' {Char_data ?a}" "texts_ok h'"
    using t2 A own c1 by (auto simp: )
  have str: "strings_kept_but h h' {Char_data ?a}"
    unfolding strings_kept_but_def
  proof (intro allI impI)
    fix x v cs assume x: "x \<notin> {Char_data ?a}" "text_of h x = Some v" "str_is (text_arena h) v cs"
    then have "str_data v \<noteq> None" by (auto simp: str_is_def)
    with x(2) have "text_of ?h1 x = Some v" by (simp add: x1(2))
    with x t2'(1) c1(2) show "str_is (text_arena h') v cs" unfolding strings_kept_but_def by metis
  qed
  have ty': "heap_typed h'"
    by (rule heap_typed_frame [OF fresh_nodes_typed [OF f ty]]) (auto simp: h' same_structs_def char_node_def)
  show "attrs_wf h' M"
  proof (rule attrs_wf_stays [where N = "{?a}" and M' = M, OF wf ty' t2'(2) _ _ str])
    show "names_grow h h'" by (rule names_grow_same) (simp add: h' char_node_def)
  next
    fix b assume "b \<notin> {?a}" then show "stays h h' b" by (simp add: stays_def h' char_node_def)
  qed (use no in \<open>simp_all add: h' char_node_def\<close>)
  have "dom_wf ?h1 T" by (rule fresh_nodes_wf [OF f ty dw]) simp
  then show "dom_wf h' T" by (simp add: dom_wf_def owned_def h')
  show "chars_at h' ?a data" using A(2) by (simp add: chars_at_def h')
  assume "chars_at h b cs"
  then obtain v where v: "chardata h b = Some v" "str_is (text_arena h) v cs" by (auto simp: chars_at_def)
  then have "b \<noteq> ?a" using no by auto
  with v str have "str_is A v cs" unfolding strings_kept_but_def own(2) by (auto dest!: spec [of _ "Char_data b"])
  with v \<open>b \<noteq> ?a\<close> show "chars_at h' b cs" by (simp add: chars_at_def h')
qed

text \<open>Creating a text node or a comment.\<close>

lemma create_chars_is:
  assumes wf: "attrs_wf h M" and dw: "dom_wf h T" and d: "doc_for h document D"
    and doc: "docs h document = Some doc" "doc_interfaces doc = Html_interface"
    and ddoc: "docs h D = Some ddoc" "doc_interfaces ddoc = Html_interface"
    and t: "char_tag tag_id t" and n: "length data + 1 < 2 ^ 63"
  shows "\<exists>p h'. do { r \<leftarrow> lxb_dom_document_create_interface h document tag_id LXB_NS_HTML;
       char_data_fill lxb_dom_document_destroy_interface data r } = Some (p, h') \<and>
     attrs_wf h' M \<and> dom_wf h' T \<and> (\<forall>b cs. chars_at h b cs \<longrightarrow> chars_at h' b cs) \<and> docs h' = docs h \<and> hashes h' = hashes h \<and>
     obj_fresh h \<le> obj_fresh h' \<and> elements h' = elements h \<and>
     (p = None \<longleftrightarrow> obj_fails h (obj_reqs h) \<or> ar_plan (text_arena h) (ar_reqs (text_arena h)) = None) \<and>
     (case p of None \<Rightarrow> nodes h' = nodes h
      | Some a \<Rightarrow> nodes h a = None \<and> chars_at h' a data \<and>
          nodes h' = (nodes h)(a \<mapsto> (zero_node D t)\<lparr>n_local_name := tag_id, n_ns := LXB_NS_HTML\<rparr>))"
proof -
  let ?a = "obj_fresh h" and ?h1 = "char_node h D tag_id t"
  have ty: "heap_typed h" and ar: "ar_wf (text_arena h)" using wf by (auto simp: attrs_wf_def intro: texts_wf)
  note fa = fresh_node [OF ty]
  have dd: "doc_for h D D" using d by (simp add: doc_for_def)
  note run = create_char_is [OF t d doc fa]
  show ?thesis
  proof (cases "obj_fails h (obj_reqs h)")
    case True
    have "idle h (h\<lparr>obj_reqs := obj_reqs h + 1\<rparr>)" using ar by (simp add: idle_def)
    note k = idle_keeps [OF this wf]
    from k(1) k(2) [OF dw] k(3) show ?thesis
      by (intro exI [of _ None] exI [of _ "h\<lparr>obj_reqs := obj_reqs h + 1\<rparr>"]) (simp add: run True char_data_fill_def)
  next
    case False
    have c: "chardata ?h1 ?a = Some zero_str" "text_arena ?h1 = text_arena h" "(chardata ?h1)(?a \<mapsto> s) = (chardata h)(?a \<mapsto> s)" for s
      by (simp_all add: char_node_def)
    from char_data_fill_is [OF c(1), unfolded c(2,3), OF ar n, of lxb_dom_document_destroy_interface] obtain s A where
      A: "ar_wf A" "str_data s = None \<longleftrightarrow> ar_plan (text_arena h) (ar_reqs (text_arena h)) = None" and
      cs: "str_data s = None \<and> s = zero_str \<and> ar_blocks A = ar_blocks (text_arena h) \<and>
        char_data_fill lxb_dom_document_destroy_interface data (Some ?a, ?h1) =
          map_option (Pair None) (lxb_dom_document_destroy_interface (?h1\<lparr>chardata := (chardata h)(?a \<mapsto> s), text_arena := A\<rparr>) ?a) \<or>
      str_is A s data \<and> value_blocks (ar_blocks (text_arena h)) (Some zero_str) (ar_blocks A) (Some s) \<and>
        char_data_fill lxb_dom_document_destroy_interface data (Some ?a, ?h1) =
          Some (Some ?a, ?h1\<lparr>chardata := (chardata h)(?a \<mapsto> s), text_arena := A\<rparr>)" by (elim exE conjE) rule
    from cs show ?thesis
    proof (elim disjE conjE)
      assume s: "str_data s = None" "s = zero_str" "ar_blocks A = ar_blocks (text_arena h)" and
        fill: "char_data_fill lxb_dom_document_destroy_interface data (Some ?a, ?h1) =
          map_option (Pair None) (lxb_dom_document_destroy_interface (?h1\<lparr>chardata := (chardata h)(?a \<mapsto> s), text_arena := A\<rparr>) ?a)"
      let ?h = "h\<lparr>obj_reqs := obj_reqs h + 1, obj_fresh := obj_fresh h + 1, text_arena := A,
        shadow_hosts := (shadow_hosts h)(obj_fresh h := None)\<rparr>"
      have same: "?h1\<lparr>chardata := (chardata h)(?a \<mapsto> zero_str), text_arena := A\<rparr> = ?h1\<lparr>text_arena := A\<rparr>"
        by (simp add: char_node_def)
      have "idle h ?h" using A(1) s(3) by (simp add: idle_def)
      note k = idle_keeps [OF this wf]
      from k(1) k(2) [OF dw] k(3) A(2) s(1) show ?thesis
        by (intro exI [of _ None] exI [of _ ?h]) (simp add: run False fill s(2) same destroy_char_node [OF t dd ddoc ty])
    next
      assume s: "str_is A s data" "value_blocks (ar_blocks (text_arena h)) (Some zero_str) (ar_blocks A) (Some s)" and
        fill: "char_data_fill lxb_dom_document_destroy_interface data (Some ?a, ?h1) =
          Some (Some ?a, ?h1\<lparr>chardata := (chardata h)(?a \<mapsto> s), text_arena := A\<rparr>)"
      note k = char_filled [OF wf dw dd t A(1) s refl]
      have "str_data s \<noteq> None" using s(1) by (auto simp: str_is_def)
      with A(2) have "ar_plan (text_arena h) (ar_reqs (text_arena h)) \<noteq> None" by blast
      with False fa k run fill show ?thesis
        by (intro exI [of _ "Some ?a"] exI [of _ "?h1\<lparr>chardata := (chardata h)(?a \<mapsto> s), text_arena := A\<rparr>"])
          (simp del: not_None_eq, simp add: char_node_def)
    qed
  qed
qed

text \<open>
  C20: \<open>document.createTextNode\<close> and \<open>document.createComment\<close>. In a well-formed HTML document they
  always return. They answer NULL exactly when the memory for the node or for its characters is
  refused, and then every node is as before, the half-made one destroyed. Otherwise the answer is a
  new node of that type, linked to nothing, that holds exactly the characters given. Whatever the answer, the
  tree, the attributes of every element and the characters of every other node stay.
\<close>

theorem create_char_nodes:
  assumes "(create, t) \<in> {(lxb_dom_document_create_text_node, LXB_DOM_NODE_TYPE_TEXT),
      (lxb_dom_document_create_comment, LXB_DOM_NODE_TYPE_COMMENT)}"
    and "attrs_wf h M" and "dom_wf h T" and "doc_for h document D"
    and "docs h document = Some doc" and "doc_interfaces doc = Html_interface"
    and "docs h D = Some ddoc" and "doc_interfaces ddoc = Html_interface" and "length data + 1 < 2 ^ 63"
  shows "\<exists>p h'. create h document data = Some (p, h') \<and> attrs_wf h' M \<and> dom_wf h' T \<and>
     (\<forall>b cs. chars_at h b cs \<longrightarrow> chars_at h' b cs) \<and>
     (p = None \<longleftrightarrow> obj_fails h (obj_reqs h) \<or> ar_plan (text_arena h) (ar_reqs (text_arena h)) = None) \<and>
     (case p of
       None \<Rightarrow> nodes h' = nodes h
     | Some a \<Rightarrow> nodes h a = None \<and> chars_at h' a data \<and>
         (\<exists>n. nodes h' = (nodes h)(a \<mapsto> n) \<and> n_type n = t \<and> n_owner_document n = D \<and> unlinked n))"
proof -
  obtain tag_id where t: "char_tag tag_id t" and run: "create h document data =
      do { r \<leftarrow> lxb_dom_document_create_interface h document tag_id LXB_NS_HTML;
         char_data_fill lxb_dom_document_destroy_interface data r }"
    using assms(1) by (auto simp: char_tag_def lxb_dom_document_create_text_node_def lxb_dom_document_create_comment_def)
  have u: "unlinked ((zero_node D t)\<lparr>n_local_name := tag_id, n_ns := LXB_NS_HTML\<rparr>)" by (simp add: unlinked_def zero_node_def)
  from create_chars_is [OF assms(2-8) t assms(9)] u run show ?thesis
    by (elim exE conjE, intro exI conjI) (assumption | force split: option.splits)+
qed

lemma create_char_nodes_witness:
  "\<exists>a h'. lxb_dom_document_create_text_node (sample_plan (\<lambda>_. Some (0, False))) 1 [0x68, 0x69] = Some (Some a, h') \<and>
     attrs_wf h' sample_attrs \<and> dom_wf h' sample_kids \<and> chars_at h' a [0x68, 0x69]"
proof -
  let ?h = "sample_plan (\<lambda>_. Some (0, False))"
  have no: "\<not> (obj_fails ?h (obj_reqs ?h) \<or> ar_plan (text_arena ?h) (ar_reqs (text_arena ?h)) = None)"
    by (simp add: sample_plan_def sample_dom_def)
  from create_char_nodes [of lxb_dom_document_create_text_node LXB_DOM_NODE_TYPE_TEXT, OF _ sample_attrs_wf plan_wf sample_doc_for(1,2,3,2,3),
      of "[0x68, 0x69]" "\<lambda>_. Some (0, False)"]
  obtain p h' where r: "lxb_dom_document_create_text_node ?h 1 [0x68, 0x69] = Some (p, h')" "attrs_wf h' sample_attrs" "dom_wf h' sample_kids"
    "p \<noteq> None" "case p of None \<Rightarrow> True | Some a \<Rightarrow> chars_at h' a [0x68, 0x69]"
    using no by (auto split: option.splits)
  then show ?thesis by (cases p) auto
qed

section \<open>Names that are no elements\<close>

lemma tag_table_at: "lxb_tag_res_shs_data_default ! 0 = shs_null 262 0" "lxb_tag_res_shs_data_default ! 102 = shs ''#text'' 2 5 0"
  "102 < length lxb_tag_res_shs_data_default"
  by (simp_all add: lxb_tag_res_shs_data_default_def)

lemma ns_link_table_at: "lxb_ns_res_shs_link_data ! 0 = shs_null 22 0"
  "lxb_ns_res_shs_link_data ! 1 = shs ''http://www.w3.org/1999/xhtml'' 2 28 0" "1 < length lxb_ns_res_shs_link_data"
  by (simp_all add: lxb_ns_res_shs_link_data_def)

lemma text_tag: "lexbor_shs_entry_get_lower_static lxb_tag_res_shs_data_default (ascii ''#text'') = Some (Some 102)"
  by (simp add: lexbor_shs_entry_get_lower_static_def tag_table_at lexbor_shs_make_id_def shs_null_def shs_def
      shs_loop.simps [of _ _ _ 102] ascii_def lexbor_str_res_map_lowercase_def lexbor_str_data_nlocmp_right_def)

lemma html_link: "lexbor_shs_entry_get_lower_static lxb_ns_res_shs_link_data html_ns_link = Some (Some 1)"
  by (simp add: lexbor_shs_entry_get_lower_static_def ns_link_table_at(1) lexbor_shs_make_id_def shs_null_def
      html_ns_link_def ascii_def lexbor_str_res_map_lowercase_def)
    (simp add: shs_loop.simps [of _ _ _ "Suc 0"] ns_link_table_at [simplified] shs_def ascii_def lexbor_str_res_map_lowercase_def
      lexbor_str_data_nlocmp_right_def)

lemma static_ids: "2 < length lxb_tag_res_data_default" "nd_id (lxb_tag_res_data_default ! 2) = 2"
   "2 < length lxb_ns_res_data" "nd_id (lxb_ns_res_data ! 2) = 2"
  by (simp_all add: lxb_tag_res_data_default_def lxb_ns_res_data_def name_data_def)

text \<open>
  C32: \<open>document.createElement("#text")\<close>. The name is one of the static tags, its constructor makes a text
  node, and the rest of the function treats the struct as an element: when the memory for the node is granted, the
  store of the custom state falls outside the text struct, and the run has no defined result.
\<close>

theorem create_element_text_overrun:
  assumes "heap_typed h" and "doc_for h document D" and "docs h document = Some doc"
    and "doc_interfaces doc = Html_interface" and "doc_type doc = LXB_DOM_DOCUMENT_DTYPE_HTML"
    and "hashes h (doc_tags doc) = Some tags" and "hashes h (doc_ns doc) = Some ns"
    and "\<not> obj_fails h (obj_reqs h)"
  shows "lxb_dom_document_create_element h document (ascii ''#text'') = None"
proof -
  have ne: "html_ns_link \<noteq> []" by (simp add: html_ns_link_def ascii_def)
  have t: "char_tag LXB_TAG__TEXT LXB_DOM_NODE_TYPE_TEXT" by (simp add: char_tag_def)
  have idem: "(hashes h)(doc_tags doc \<mapsto> tags, doc_ns doc \<mapsto> ns) = hashes h" "(hashes h)(doc_tags doc \<mapsto> tags) = hashes h"
    using assms(6,7) by (auto simp: fun_upd_idem)
  have "h\<lparr>hashes := hashes h\<rparr> = h" by simp
  then have names: "element_names h doc (ascii ''#text'') (Some html_ns_link) = Some (Some (LXB_TAG__TEXT, LXB_NS_HTML), h)"
    using ne assms(6,7) idem
    by (simp add: element_names_def lxb_tag_append_lower_def lxb_ns_append_def ns_append_by_def static_ptr_def ptr_id_def
        text_tag html_link tag_table_at ns_link_table_at [simplified] static_ids shs_def LXB_TAG__TEXT_def LXB_NS_HTML_def)
  note run = create_char_is [OF t assms(2-4) fresh_node [OF assms(1)]]
  have "elements (char_node h D LXB_TAG__TEXT LXB_DOM_NODE_TYPE_TEXT) (obj_fresh h) = None"
    using fresh_absent [OF assms(1) fresh_node [OF assms(1)]] by (simp add: char_node_def)
  moreover have "\<exists>n. nodes (char_node h D LXB_TAG__TEXT LXB_DOM_NODE_TYPE_TEXT) (obj_fresh h) = Some n" by (simp add: char_node_def)
  ultimately show ?thesis
    using run names assms(3,5,8)
    by (auto simp: lxb_dom_document_create_element_def lxb_dom_element_create_def element_prefix_set_def wr_node_def wr_element_def)
qed

lemma create_element_text_overrun_witness:
  "lxb_dom_document_create_element (sample_plan (\<lambda>_. None)) 1 (ascii ''#text'') = None"
proof -
  have "heap_typed (sample_plan (\<lambda>_. None))" using sample_attrs_wf by (simp add: attrs_wf_def)
  then show ?thesis
    by (rule create_element_text_overrun [OF _ sample_doc_for, of _ sample_table sample_table])
      (simp_all add: sample_doc_def sample_plan_def sample_dom_def)
qed

end
