(* ===== verification/Dom_Destroy.thy ===== *)
theory Dom_Destroy
  imports Dom_Document
begin

text \<open>
  Destroying nodes and subtrees (node.c): \<open>lxb_dom_node_destroy\<close>, the loop of
  \<open>lxb_dom_node_destroy_deep\<close>, and replacing all children.
\<close>

section \<open>The functions\<close>

definition lxb_dom_node_destroy :: "dom \<Rightarrow> addr \<Rightarrow> dom option" where
  "lxb_dom_node_destroy h node = do { h \<leftarrow> lxb_dom_node_remove h node; lxb_dom_document_destroy_interface h node }"

text \<open>Upwards as long as the node is the last child, destroying on the way.\<close>

partial_function (option) climb_destroy :: "dom \<Rightarrow> addr \<Rightarrow> addr \<Rightarrow> (addr \<times> dom) option" where
  [code]: "climb_destroy h root node = (if node = root then Some (node, h) else do {
     n \<leftarrow> nodes h node;
     (if n_next n = None then do {
        h \<leftarrow> lxb_dom_node_destroy h node;
        tmp \<leftarrow> n_parent n;
        climb_destroy h root tmp }
      else Some (node, h)) })"

partial_function (option) destroy_deep_loop :: "dom \<Rightarrow> addr \<Rightarrow> addr option \<Rightarrow> dom option" where
  [code]: "destroy_deep_loop h root node = (case node of
     None \<Rightarrow> Some h
   | Some a \<Rightarrow> do {
       n \<leftarrow> nodes h a;
       (if n_first_child n \<noteq> None then destroy_deep_loop h root (n_first_child n)
        else do {
          (a, h) \<leftarrow> climb_destroy h root a;
          (if a = root then lxb_dom_node_destroy h a
           else do {
             n \<leftarrow> nodes h a;
             h \<leftarrow> lxb_dom_node_destroy h a;
             destroy_deep_loop h root (n_next n) }) }) })"

definition lxb_dom_node_destroy_deep :: "dom \<Rightarrow> addr option \<Rightarrow> dom option" where
  "lxb_dom_node_destroy_deep h root = (case root of None \<Rightarrow> Some h | Some r \<Rightarrow> destroy_deep_loop h r (Some r))"

partial_function (option) destroy_children :: "dom \<Rightarrow> addr \<Rightarrow> dom option" where
  [code]: "destroy_children h parent = do {
     p \<leftarrow> nodes h parent;
     (if n_first_child p \<noteq> None then do {
        h \<leftarrow> lxb_dom_node_destroy_deep h (n_first_child p);
        destroy_children h parent }
      else Some h) }"

definition lxb_dom_node_replace_all :: "dom \<Rightarrow> addr \<Rightarrow> addr \<Rightarrow> (lxb_status \<times> dom) option" where
  "lxb_dom_node_replace_all h parent node = do {
     h \<leftarrow> destroy_children h parent;
     h \<leftarrow> lxb_dom_node_insert_child h parent node;
     Some (LXB_STATUS_OK, h) }"

section \<open>One node\<close>

text \<open>
  The nodes considered: text, comments and HTML elements other than templates, in documents of the
  HTML interface. Destroying one frees its struct and its string.
\<close>

definition plain_node :: "dom \<Rightarrow> addr \<Rightarrow> bool" where
  "plain_node h a \<longleftrightarrow> (\<exists>n d. nodes h a = Some n \<and> docs h (n_owner_document n) = Some d \<and> doc_interfaces d = Html_interface \<and>
     n_ns n = LXB_NS_HTML \<and>
     (char_tag (n_local_name n) (n_type n) \<or>
      n_type n = LXB_DOM_NODE_TYPE_ELEMENT \<and> n_local_name n \<notin> {LXB_TAG__TEXT, LXB_TAG__DOCUMENT, LXB_TAG__EM_COMMENT,
        LXB_TAG__EM_DOCTYPE, LXB_TAG_TEMPLATE}))"

text \<open>The children that remain without the nodes of \<open>N\<close>.\<close>

definition kids_without :: "addr set \<Rightarrow> kids \<Rightarrow> kids" where
  "kids_without N T = (\<lambda>p. if p \<in> N then [] else filter (\<lambda>c. c \<notin> N) (T p))"

lemma kids_without_twice: "kids_without N (kids_without M T) = kids_without (M \<union> N) T"
  by (auto simp: kids_without_def fun_eq_iff filter_filter intro: filter_cong)

text \<open>Exactly the nodes of \<open>N\<close> are gone.\<close>

definition destroyed :: "dom \<Rightarrow> kids \<Rightarrow> (addr \<Rightarrow> (bytes \<times> bytes option) list) \<Rightarrow> dom \<Rightarrow> addr set \<Rightarrow> bool" where
  "destroyed h T M h' N \<longleftrightarrow> dom_wf h' (kids_without N T) \<and> attrs_wf h' M \<and> (\<forall>b \<in> N. nodes h' b = None) \<and>
     (\<forall>b. b \<notin> N \<longrightarrow> stays h h' b) \<and> (\<forall>b cs. b \<notin> N \<longrightarrow> chars_at h b cs \<longrightarrow> chars_at h' b cs) \<and>
     hashes h' = hashes h"

lemma destroyed_alive: "destroyed h T M h' N \<Longrightarrow> b \<notin> N \<Longrightarrow> nodes h b = Some n \<Longrightarrow> \<exists>n'. nodes h' b = Some n'"
  using stays_node [of h h' b n] by (auto simp: destroyed_def)

lemma destroyed_trans:
  assumes "destroyed h T M h1 N1" and "destroyed h1 (kids_without N1 T) M h2 N2"
  shows "destroyed h T M h2 (N1 \<union> N2)"
proof -
  have "nodes h2 b = None" if "b \<in> N1 \<union> N2" for b
    using assms that by (cases "b \<in> N2") (auto simp: destroyed_def stays_def)
  moreover have "stays h h2 b" if "b \<notin> N1 \<union> N2" for b
    using assms that by (simp add: destroyed_def stays_def)
  ultimately show ?thesis using assms unfolding destroyed_def kids_without_twice by simp
qed

lemma plain_stays: "stays h h' b \<Longrightarrow> plain_node h b \<Longrightarrow> stays h h' (the (map_option n_owner_document (nodes h b))) \<Longrightarrow> plain_node h' b"
proof -
  assume st: "stays h h' b" and p: "plain_node h b" and o: "stays h h' (the (map_option n_owner_document (nodes h b)))"
  from p obtain n where n: "nodes h b = Some n" by (auto simp: plain_node_def)
  from stays_node [OF st n] obtain n' where "nodes h' b = Some n'" "n_local_name n' = n_local_name n"
    "n_owner_document n' = n_owner_document n" "n_type n' = n_type n" "n_ns n' = n_ns n" by blast
  with p n o show ?thesis by (auto simp: plain_node_def stays_def)
qed

text \<open>Taking an unlinked node out of a forest.\<close>

lemma forest_forget:
  assumes f: "forest_on s e T" and a: "s a = Some (None, None, None)" and leaf: "T a = []"
  shows "forest_on (s(a := None)) (e(a := None)) T"
proof -
  have nk: "a \<notin> set (T p)" for p using forest_parent [OF f, of a p] a by auto
  have d: "dll (s(a := None)) p None (T p) None" for p using forest_dll [OF f, of p] nk [of p] by simp
  show ?thesis
    unfolding forest_on_def
  proof (intro conjI allI impI)
    show "finite (dom (s(a := None)))" using forest_finite [OF f] by simp
    show "dll (s(a := None)) p None (T p) None" for p by (rule d)
    show "distinct (T p)" for p by (rule forest_distinct [OF f])
    show "acyclic (edges T)" by (rule forest_acyclic [OF f])
  next
    fix p assume "p \<in> dom (s(a := None))"
    then have "p \<noteq> a" "p \<in> dom s" by auto
    then show "(e(a := None)) p = Some (hd_or (T p) None, last_or (T p) None)" using forest_ends [OF f, of p] by simp
  next
    fix p assume "p \<notin> dom (s(a := None))"
    then show "T p = []" using leaf forest_outside [OF f, of p] by (cases "p = a") auto
  next
    fix c p pv nx assume "(s(a := None)) c = Some (Some p, pv, nx)"
    then show "c \<in> set (T p)" using forest_child [OF f, of c p] by (auto split: if_splits)
  next
    fix c pv nx assume "(s(a := None)) c = Some (None, pv, nx)"
    then show "pv = None" "nx = None" using forest_root [OF f, of c pv nx] by (auto split: if_splits)
  qed
qed

text \<open>Forgetting the strings of some owners, with at most their blocks.\<close>

lemma texts_drop:
  assumes tx: "texts_ok h" and wf: "ar_wf (text_arena h')"
    and keep: "\<And>x. x \<notin> X \<Longrightarrow> text_of h' x = text_of h x" and gone: "\<And>x. x \<in> X \<Longrightarrow> text_of h' x = None"
    and blk: "\<And>p. ar_blocks (text_arena h') p \<noteq> ar_blocks (text_arena h) p \<Longrightarrow> \<exists>x \<in> X. text_ptr h x = Some p"
  shows "texts_ok h'" and "strings_kept_but h h' X"
proof -
  have ptr: "text_ptr h' x = (if x \<in> X then None else text_ptr h x)" for x
    using keep gone by (simp add: text_ptr_def)
  have same: "ar_blocks (text_arena h') p = ar_blocks (text_arena h) p" if "x \<notin> X" "text_ptr h x = Some p" for x p
  proof (rule ccontr)
    assume "ar_blocks (text_arena h') p \<noteq> ar_blocks (text_arena h) p"
    from blk [OF this] obtain y where "y \<in> X" "text_ptr h y = Some p" by blast
    with tx that have "x = y" unfolding texts_ok_but_def by blast
    with that(1) \<open>y \<in> X\<close> show False by blast
  qed
  show kept: "strings_kept_but h h' X"
    unfolding strings_kept_but_def
  proof (intro allI impI)
    fix x s cs assume x: "x \<notin> X" "text_of h x = Some s" "str_is (text_arena h) s cs"
    then obtain p where p: "str_data s = Some p" by (auto simp: str_is_def)
    with x(2) have "text_ptr h x = Some p" by (simp add: text_ptr_def)
    from same [OF x(1) this] x(3) p show "str_is (text_arena h') s cs" by (auto simp: str_is_def)
  qed
  have live: "ar_blocks (text_arena h') p \<noteq> None" if "text_ptr h' x = Some p" for x p
  proof -
    from that have x: "x \<notin> X" "text_ptr h x = Some p" by (simp_all add: ptr split: if_splits)
    with tx have "ar_blocks (text_arena h) p \<noteq> None" unfolding texts_ok_but_def by blast
    with same [OF x] show ?thesis by simp
  qed
  have once: "x = y" if "text_ptr h' x = Some p" "text_ptr h' y = Some p" for x y p
  proof -
    from that have "text_ptr h x = Some p" "text_ptr h y = Some p" by (simp_all add: ptr split: if_splits)
    with tx show ?thesis unfolding texts_ok_but_def by blast
  qed
  have str: "\<exists>cs. str_is (text_arena h') s cs" if "text_of h' x = Some s" "str_data s = Some p" for x s p
  proof -
    from that(1) gone have x: "x \<notin> X" by fastforce
    with that(1) keep have t: "text_of h x = Some s" by simp
    with tx that(2) obtain cs where "str_is (text_arena h) s cs" unfolding texts_ok_but_def by blast
    with kept x t show ?thesis unfolding strings_kept_but_def by blast
  qed
  show "texts_ok h'"
    unfolding texts_ok_but_def using wf live once str by blast
qed

definition texts_at :: "addr \<Rightarrow> text_owner set" where
  "texts_at a = {Attr_value a, Char_data a, Is_value a, Pi_target a, Public_id a, System_id a}"

text \<open>What freeing a struct and at most its string leaves.\<close>

lemma gone_destroyed:
  assumes dw: "dom_wf h T" and aw: "attrs_wf h M" and n: "nodes h a = Some n" "n_parent n = None" and leaf: "T a = []"
    and k: "docs h a = None" "attributes h a = None"
    and A: "ar_wf A" "\<And>p. ar_blocks A p \<noteq> ar_blocks (text_arena h) p \<Longrightarrow> text_ptr h (Char_data a) = Some p"
  shows "destroyed h T M ((obj_gone h a)\<lparr>text_arena := A\<rparr>) {a}"
proof -
  let ?h = "(obj_gone h a)\<lparr>text_arena := A\<rparr>"
  note F = dom_wf_forest [OF dw] and tx = aw [unfolded attrs_wf_def, THEN conjunct1] and ty = aw [unfolded attrs_wf_def, THEN conjunct2, THEN conjunct1]
  note det = forest_detached [OF F n]
  have T: "kids_without {a} T = T"
    using leaf det(4) by (auto simp: kids_without_def fun_eq_iff filter_id_conv)
  have sib: "sib (nodes ?h) = (sib (nodes h))(a := None)" "ends (nodes ?h) = (ends (nodes h))(a := None)"
    by (auto simp: sib_def ends_def obj_gone_def fun_eq_iff)
  have "forest_on (sib (nodes ?h)) (ends (nodes ?h)) T"
    unfolding sib by (rule forest_forget [OF F det(1) leaf])
  moreover have "owned ?h" using dw k(1) by (auto simp: dom_wf_def owned_def obj_gone_def)
  ultimately have dw': "dom_wf ?h T" by (simp add: dom_wf_def forest_def)
  have st: "stays h ?h b" if "b \<noteq> a" for b using that by (simp add: stays_def obj_gone_def)
  have keep: "text_of ?h x = text_of h x" if "x \<notin> texts_at a" for x
    using that by (cases x) (auto simp: texts_at_def obj_gone_def)
  have gone: "text_of ?h x = None" if "x \<in> texts_at a" for x
    using that by (auto simp: texts_at_def obj_gone_def)
  have blk: "\<exists>x \<in> texts_at a. text_ptr h x = Some p" if "ar_blocks (text_arena ?h) p \<noteq> ar_blocks (text_arena h) p" for p
    using A(2) [of p] that by (auto simp: texts_at_def)
  have ar: "ar_wf (text_arena ?h)" using A(1) by simp
  note t' = texts_drop [where X = "texts_at a", OF tx ar keep gone blk]
  have ty': "heap_typed ?h"
    by (rule heap_typed_frame [OF ty]) (auto simp: obj_gone_def same_structs_def no_struct_def split: option.splits)
  have "attrs_wf ?h M"
    by (rule attrs_wf_stays [where N = "{a}" and M' = M, OF aw ty' t'(1) _ _ t'(2)])
      (use st k in \<open>auto simp: names_grow_same obj_gone_def texts_at_def\<close>)
  moreover have "chars_at ?h b cs" if "b \<noteq> a" "chars_at h b cs" for b cs
  proof -
    from that(2) obtain s where "chardata h b = Some s" "str_is (text_arena h) s cs" by (auto simp: chars_at_def)
    with that(1) t'(2) show ?thesis unfolding strings_kept_but_def
      by (auto simp: chars_at_def obj_gone_def texts_at_def dest!: spec [of _ "Char_data b"])
  qed
  ultimately show ?thesis unfolding destroyed_def T using dw' st by (simp add: obj_gone_def)
qed

lemma destroy_plain:
  assumes dw: "dom_wf h T" and aw: "attrs_wf h M" and pl: "plain_node h a" and n: "nodes h a = Some n" "n_parent n = None"
    and leaf: "T a = []"
  shows "\<exists>h'. lxb_dom_document_destroy_interface h a = Some h' \<and> destroyed h T M h' {a}"
proof -
  have tx: "texts_ok h" and ty: "heap_typed h" using aw by (simp_all add: attrs_wf_def)
  note kind = heap_typed_kind [OF ty n(1)]
  from pl n obtain d where d: "docs h (n_owner_document n) = Some d" "doc_interfaces d = Html_interface" "n_ns n = LXB_NS_HTML"
    "char_tag (n_local_name n) (n_type n) \<or>
      n_type n = LXB_DOM_NODE_TYPE_ELEMENT \<and> n_local_name n \<notin> {LXB_TAG__TEXT, LXB_TAG__DOCUMENT, LXB_TAG__EM_COMMENT,
        LXB_TAG__EM_DOCTYPE, LXB_TAG_TEMPLATE}" by (auto simp: plain_node_def)
  have "n_type n \<noteq> LXB_DOM_NODE_TYPE_DOCUMENT \<and> n_type n \<noteq> LXB_DOM_NODE_TYPE_ATTRIBUTE" using d(4) by (auto simp: char_tag_def)
  with kind have k: "docs h a = None" "attributes h a = None" by (simp_all add: kind_ok_def)
  have free: "lxb_dom_node_interface_destroy h a = Some (obj_gone h a)"
    using n d(1) by (simp add: lxb_dom_node_interface_destroy_def node_event_def lxb_dom_document_node_cbs_def obj_free_def)
  have run: "lxb_dom_document_destroy_interface h a = lxb_html_interface_destroy h (Some a)"
    using n d(1,2) by (simp add: lxb_dom_document_destroy_interface_def owner_doc_def)
  from d(4) show ?thesis
  proof (elim disjE conjE)
    assume t: "n_type n = LXB_DOM_NODE_TYPE_ELEMENT" "n_local_name n \<notin> {LXB_TAG__TEXT, LXB_TAG__DOCUMENT, LXB_TAG__EM_COMMENT,
        LXB_TAG__EM_DOCTYPE, LXB_TAG_TEMPLATE}"
    have "lxb_html_interface_destroy h (Some a) = lxb_dom_node_interface_destroy h a"
      using n(1) d(3) t by (simp add: lxb_html_interface_destroy_def res_class_def lxb_html_interface_res_destructor_def
          lxb_html_element_interface_destroy_def LXB_NS_HTML_def LXB_NS__LAST_ENTRY_def)
    moreover have "destroyed h T M ((obj_gone h a)\<lparr>text_arena := text_arena h\<rparr>) {a}"
      by (rule gone_destroyed [OF dw aw n leaf k texts_wf [OF tx]]) simp
    moreover have "(obj_gone h a)\<lparr>text_arena := text_arena h\<rparr> = obj_gone h a" by (simp add: obj_gone_def)
    ultimately show ?thesis using run free by simp
  next
    assume t: "char_tag (n_local_name n) (n_type n)"
    have char: "lxb_html_interface_destroy h (Some a) = lxb_dom_character_data_interface_destroy h a"
      using n(1) d(3) t by (auto simp: char_tag_def lxb_html_interface_destroy_def res_class_def lxb_html_interface_res_destructor_def
          LXB_TAG__TEXT_def LXB_TAG__EM_COMMENT_def LXB_TAG__DOCUMENT_def LXB_TAG__LAST_ENTRY_def LXB_NS_HTML_def LXB_NS__LAST_ENTRY_def
          lxb_dom_text_interface_destroy_def lxb_dom_comment_interface_destroy_def)
    have "n_type n \<in> CHARDATA_TYPES" using t by (auto simp: char_tag_def CHARDATA_TYPES_def)
    with kind have "chardata h a \<noteq> None" by (simp add: kind_ok_def)
    then obtain s where s: "chardata h a = Some s" by blast
    have "\<exists>A. free_str (obj_gone h a) s = Some ((obj_gone h a)\<lparr>text_arena := A\<rparr>) \<and> ar_wf A \<and>
        (\<forall>p. ar_blocks A p \<noteq> ar_blocks (text_arena h) p \<longrightarrow> text_ptr h (Char_data a) = Some p)"
    proof (cases "str_data s")
      case None
      then show ?thesis using texts_wf [OF tx]
        by (intro exI [of _ "text_arena h"]) (simp add: free_str_def lexbor_str_destroy_def lexbor_str_clean_def obj_gone_def)
    next
      case (Some p)
      have sp: "text_ptr h (Char_data a) = Some p" using s Some by (simp add: text_ptr_def)
      have "\<exists>b. ar_blocks (text_arena h) p = Some b" using tx sp unfolding texts_ok_but_def by blast
      then have "free_str (obj_gone h a) s = Some ((obj_gone h a)\<lparr>text_arena :=
          (text_arena h)\<lparr>ar_blocks := (ar_blocks (text_arena h))(p := None)\<rparr>\<rparr>)"
        using Some by (auto simp: free_str_def lexbor_str_destroy_def lexbor_mraw_free_def obj_gone_def)
      then show ?thesis using sp texts_wf [OF tx]
        by (intro exI [of _ "(text_arena h)\<lparr>ar_blocks := (ar_blocks (text_arena h))(p := None)\<rparr>"]) (auto simp: ar_wf_def)
    qed
    then obtain A where A: "free_str (obj_gone h a) s = Some ((obj_gone h a)\<lparr>text_arena := A\<rparr>)" "ar_wf A"
      "\<And>p. ar_blocks A p \<noteq> ar_blocks (text_arena h) p \<Longrightarrow> text_ptr h (Char_data a) = Some p" by blast
    have "destroyed h T M ((obj_gone h a)\<lparr>text_arena := A\<rparr>) {a}"
      by (rule gone_destroyed [OF dw aw n leaf k A(2,3)])
    then show ?thesis using run char free s A(1) by (simp add: lxb_dom_character_data_interface_destroy_def)
  qed
qed

lemma same_payload_destroyed:
  assumes sp: "same_payload h h1" and dw: "dom_wf h1 T1" and d: "destroyed h1 T1 M h2 N" and T: "kids_without N T1 = kids_without N T"
  shows "destroyed h T M h2 N"
proof -
  have c: "chars_at h1 b cs = chars_at h b cs" for b cs using same_payload_field [OF sp] by (simp add: chars_at_def)
  have st: "stays h h2 b" if "b \<notin> N" for b
    using d that same_payload_stays [OF sp, of b] by (simp add: destroyed_def stays_def)
  show ?thesis using d st same_payload_field [OF sp] unfolding destroyed_def T c by simp
qed

text \<open>\<open>lxb_dom_node_destroy\<close>, for a child or a root without children.\<close>

lemma node_destroy_is:
  assumes dw: "dom_wf h T" and aw: "attrs_wf h M" and pl: "plain_node h a" and leaf: "T a = []"
  shows "\<exists>h'. lxb_dom_node_destroy h a = Some h' \<and> destroyed h T M h' {a}"
proof -
  note F = dom_wf_forest [OF dw]
  from pl obtain n where n: "nodes h a = Some n" by (auto simp: plain_node_def)
  show ?thesis
  proof (cases "n_parent n")
    case None
    with destroy_plain [OF dw aw pl n None leaf] show ?thesis
      by (simp add: lxb_dom_node_destroy_def remove_detached [OF dw n None])
  next
    case (Some p)
    then have "a \<in> set (T p)" using forest_child [OF F, of a p] n by (auto simp: sib_Some)
    then obtain xs ys where Tp: "T p = xs @ a # ys" by (meson split_list)
    let ?T = "T(p := xs @ ys)"
    from remove_refines [OF dw Tp] obtain h1 where r: "lxb_dom_node_remove h a = Some h1" "same_payload h h1" "dom_wf h1 ?T" by blast
    note F1 = dom_wf_forest [OF r(3)]
    have ap: "a \<noteq> p" using forest_irrefl [OF F, of p] Tp by auto
    have nk: "a \<notin> set (?T q)" for q
      using forest_distinct [OF F, of p] forest_unique_parent [OF F, of a p q] Tp by (cases "q = p") auto
    from same_payload_alive [OF r(2) n] obtain n1 where n1: "nodes h1 a = Some n1" by blast
    have det: "n_parent n1 = None"
    proof (rule ccontr)
      assume "n_parent n1 \<noteq> None"
      then obtain q where "n_parent n1 = Some q" by blast
      then have "a \<in> set (?T q)" using forest_child [OF F1, of a q] n1 by (auto simp: sib_Some)
      with nk show False by blast
    qed
    have pl1: "plain_node h1 a" by (rule plain_stays [OF _ pl]) (rule same_payload_stays [OF r(2)])+
    have leaf1: "?T a = []" using leaf ap by simp
    from destroy_plain [OF r(3) same_payload_attrs_wf [OF r(2) aw] pl1 n1 det leaf1] obtain h2 where
      h2: "lxb_dom_document_destroy_interface h1 a = Some h2" "destroyed h1 ?T M h2 {a}" by blast
    have "kids_without {a} ?T = kids_without {a} T" using Tp by (auto simp: kids_without_def fun_eq_iff)
    from same_payload_destroyed [OF r(2,3) h2(2) this] h2(1) r(1) show ?thesis by (simp add: lxb_dom_node_destroy_def)
  qed
qed

section \<open>Subtrees\<close>

definition resume_destroy :: "dom \<Rightarrow> addr \<Rightarrow> addr \<Rightarrow> dom option" where
  "resume_destroy h root a = do {
     (a, h) \<leftarrow> climb_destroy h root a;
     (if a = root then lxb_dom_node_destroy h a
      else do {
        n \<leftarrow> nodes h a;
        h \<leftarrow> lxb_dom_node_destroy h a;
        destroy_deep_loop h root (n_next n) }) }"

lemma loop_leaf: "nodes h a = Some n \<Longrightarrow> n_first_child n = None \<Longrightarrow> destroy_deep_loop h root (Some a) = resume_destroy h root a"
  by (simp add: destroy_deep_loop.simps resume_destroy_def)

lemma loop_inner: "nodes h a = Some n \<Longrightarrow> n_first_child n = Some c \<Longrightarrow> destroy_deep_loop h root (Some a) = destroy_deep_loop h root (Some c)"
  by (subst destroy_deep_loop.simps) simp

lemma rose_root_preorders: "t \<in> set ts \<Longrightarrow> rose_root t \<in> set (preorders ts)"
  using rose_root_preorder [of t] by (auto intro!: bexI [of _ t])

text \<open>A node is childless once everything below it is gone.\<close>

lemma kids_gone:
  assumes "is_rose T (Rose a ts)"
  shows "kids_without (set (preorders ts)) T a = []"
proof -
  have "c \<in> set (preorders ts)" if "c \<in> set (T a)" for c
  proof -
    from assms that obtain u where "u \<in> set ts" "c = rose_root u" by auto
    then show ?thesis using rose_root_preorders [of u ts] by (simp only:)
  qed
  then have "filter (\<lambda>c. c \<notin> set (preorders ts)) (T a) = []" by (intro filter_False) blast
  then show ?thesis by (simp only: kids_without_def if_cancel)
qed

lemma is_rose_cong: "(\<And>p. p \<in> set (preorder t) \<Longrightarrow> T' p = T p) \<Longrightarrow> is_rose T t \<Longrightarrow> is_rose T' t"
  by (induction t) fastforce

lemma below_siblings:
  assumes f: "forest_on s e T" and cd: "c \<in> set (T p)" "d \<in> set (T p)" "c \<noteq> d" and x: "(c, x) \<in> (edges T)\<^sup>*"
  shows "(d, x) \<notin> (edges T)\<^sup>*"
proof
  assume "(d, x) \<in> (edges T)\<^sup>*"
  have no: "(u, v) \<notin> (edges T)\<^sup>*" if "u \<in> set (T p)" "v \<in> set (T p)" "u \<noteq> v" for u v
  proof
    assume "(u, v) \<in> (edges T)\<^sup>*"
    with that(3) obtain q where "(u, q) \<in> (edges T)\<^sup>*" "(q, v) \<in> edges T" by (meson rtranclE)
    moreover from this have "q = p" using forest_unique_parent [OF f, of v q p] that(2) by (simp add: edges_def)
    moreover have "(p, u) \<in> edges T" using that(1) by (simp add: edges_def)
    ultimately have "(p, p) \<in> (edges T)\<^sup>+" by (meson rtrancl_into_trancl2)
    with forest_acyclic [OF f] show False by (simp add: acyclic_def)
  qed
  have "single_valued ((edges T)\<inverse>)"
    using forest_unique_parent [OF f] by (auto simp: single_valued_def edges_def)
  moreover have "(x, c) \<in> ((edges T)\<inverse>)\<^sup>*" "(x, d) \<in> ((edges T)\<inverse>)\<^sup>*"
    using x \<open>(d, x) \<in> (edges T)\<^sup>*\<close> by (simp_all add: rtrancl_converse)
  ultimately have "(c, d) \<in> ((edges T)\<inverse>)\<^sup>* \<or> (d, c) \<in> ((edges T)\<inverse>)\<^sup>*" by (rule single_valued_confluent)
  with no cd show False by (auto simp: rtrancl_converse)
qed

lemma preorders_disjoint:
  assumes f: "forest_on s e T" and r: "is_rose T (Rose p (t # ts))"
  shows "set (preorder t) \<inter> set (preorders ts) = {}" and "p \<notin> set (preorder t)" and "p \<notin> set (preorders ts)"
proof -
  show "p \<notin> set (preorder t)" "p \<notin> set (preorders ts)" using rose_root_once [OF f r] by auto
  show "set (preorder t) \<inter> set (preorders ts) = {}"
  proof (rule ccontr)
    assume "set (preorder t) \<inter> set (preorders ts) \<noteq> {}"
    then obtain x u where x: "x \<in> set (preorder t)" "u \<in> set ts" "x \<in> set (preorder u)" by auto
    have "rose_root t \<noteq> rose_root u" using forest_distinct [OF f, of p] r x(2) by auto
    with below_siblings [OF f, of "rose_root t" p "rose_root u" x] r x set_preorder [of T t] set_preorder [of T u]
    show False by auto
  qed
qed

lemma destroyed_refl: "dom_wf h T \<Longrightarrow> attrs_wf h M \<Longrightarrow> destroyed h T M h {}"
  by (simp add: destroyed_def stays_def kids_without_def)

lemma plain_not_doc: "heap_typed h \<Longrightarrow> plain_node h b \<Longrightarrow> docs h b = None"
  using heap_typed_kind [of h b] by (fastforce simp: plain_node_def char_tag_def kind_ok_def)

lemma plain_destroyed:
  assumes d: "destroyed h T M h' N" and ty: "heap_typed h" and N: "\<And>b. b \<in> N \<Longrightarrow> plain_node h b" and b: "plain_node h b" "b \<notin> N"
  shows "plain_node h' b"
proof (rule plain_stays [OF _ b(1)])
  show "stays h h' b" using d b(2) by (simp add: destroyed_def)
  from b(1) obtain n where n: "nodes h b = Some n" "docs h (n_owner_document n) \<noteq> None" by (auto simp: plain_node_def)
  then have "n_owner_document n \<notin> N" using plain_not_doc [OF ty N] by metis
  with d n show "stays h h' (the (map_option n_owner_document (nodes h b)))" by (simp add: destroyed_def)
qed

definition ready :: "dom \<Rightarrow> kids \<Rightarrow> (addr \<Rightarrow> (bytes \<times> bytes option) list) \<Rightarrow> rose list \<Rightarrow> bool" where
  "ready h T M ts \<longleftrightarrow> dom_wf h T \<and> attrs_wf h M \<and> (\<forall>b \<in> set (preorders ts). plain_node h b) \<and> (\<forall>t \<in> set ts. is_rose T t)"

lemma ready_after:
  assumes "ready h T M ts" and d: "destroyed h T M h' N" and N: "\<And>b. b \<in> N \<Longrightarrow> plain_node h b"
    and out: "N \<inter> set (preorders ts) = {}"
  shows "ready h' (kids_without N T) M ts"
proof -
  have ty: "heap_typed h" using assms(1) by (simp add: ready_def attrs_wf_def)
  have "is_rose (kids_without N T) t" if t: "t \<in> set ts" for t
  proof (rule is_rose_cong)
    show "is_rose T t" using assms(1) t by (simp add: ready_def)
    fix p assume p: "p \<in> set (preorder t)"
    have "c \<in> set (preorder t)" if "c \<in> set (T p)" for c
      using p that set_preorder [of T t] \<open>is_rose T t\<close> by (auto simp: edges_def intro: rtrancl_into_rtrancl)
    then have "filter (\<lambda>c. c \<notin> N) (T p) = T p" using out t by (fastforce simp: filter_id_conv)
    moreover have "p \<notin> N" using out p t by auto
    ultimately show "kids_without N T p = T p" by (simp add: kids_without_def)
  qed
  moreover have "plain_node h' b" if "b \<in> set (preorders ts)" for b
    using plain_destroyed [OF d ty N] assms(1) out that unfolding ready_def by blast
  ultimately show ?thesis using d by (simp add: ready_def destroyed_def)
qed

text \<open>The loop destroys everything below a node and comes back to it.\<close>

lemma destroy_below:
  shows "ready h T M [t] \<Longrightarrow> root \<notin> set (preorders (rose_kids t)) \<Longrightarrow>
      \<exists>h'. destroy_deep_loop h root (Some (rose_root t)) = resume_destroy h' root (rose_root t) \<and>
        destroyed h T M h' (set (preorders (rose_kids t)))"
    and "ready h T M ts \<Longrightarrow> is_rose T (Rose p ts) \<Longrightarrow> root \<notin> set (preorders ts) \<Longrightarrow> ts \<noteq> [] \<Longrightarrow>
      \<exists>h'. destroy_deep_loop h root (Some (rose_root (hd ts))) = resume_destroy h' root p \<and>
        destroyed h T M h' (set (preorders ts))"
proof (induction t and ts arbitrary: h T and h T p rule: rose_lists_roses_lists.induct)
  case (1 a ts)
  from 1(2) have dw: "dom_wf h T" and aw: "attrs_wf h M" and r: "is_rose T (Rose a ts)" and "plain_node h a"
    and rt: "ready h T M ts" by (auto simp: ready_def)
  then obtain n where n: "nodes h a = Some n" by (auto simp: plain_node_def)
  then have fc: "n_first_child n = hd_or (map rose_root ts) None"
    using forest_ends [OF dom_wf_forest [OF dw], of a] r by (auto simp: ends_Some)
  show ?case
  proof (cases ts)
    case Nil
    then show ?thesis using loop_leaf [OF n] fc destroyed_refl [OF dw aw] by auto
  next
    case (Cons u us)
    then have "n_first_child n = Some (rose_root (hd ts))" using fc by simp
    with loop_inner [OF n this] 1(1) [OF rt r] 1(3) Cons show ?thesis by simp
  qed
next
  case (3 t ts)
  obtain c us where t: "t = Rose c us" by (cases t)
  from 3(3) have dw: "dom_wf h T" and aw: "attrs_wf h M" and rt: "ready h T M [t]" "ready h T M ts" by (auto simp: ready_def)
  have ty: "heap_typed h" using aw by (simp add: attrs_wf_def)
  note F = dom_wf_forest [OF dw]
  note disj = preorders_disjoint [OF F 3(4)]
  let ?N = "set (preorders us)"
  have Tp: "T p = c # map rose_root ts" and Tc: "T c = map rose_root us" and rc: "is_rose T (Rose c us)" using 3(4) t by auto
  have pl: "plain_node h b" if "b \<in> set (preorders (t # ts))" for b using 3(3) that by (simp add: ready_def)
  have ne: "c \<noteq> root" using 3(5) t by auto
  have nr: "root \<notin> set (preorders (rose_kids t))" using 3(5) t by auto
  from 3(1) [OF rt(1) nr] obtain h1 where
    h1: "destroy_deep_loop h root (Some c) = resume_destroy h1 root c" "destroyed h T M h1 ?N" using t by auto
  let ?T1 = "kids_without ?N T"
  have dw1: "dom_wf h1 ?T1" and aw1: "attrs_wf h1 M" using h1(2) by (simp_all add: destroyed_def)
  have cN: "c \<notin> ?N" using rose_root_once [OF F rc] .
  have rN: "rose_root u \<notin> ?N" if "u \<in> set ts" for u
  proof -
    have "rose_root u \<in> set (preorders ts)" by (rule rose_root_preorders [OF that])
    then have "rose_root u \<notin> set (preorder t)" using disj(1) by blast
    then show ?thesis using t by simp
  qed
  have T1: "?T1 c = []" "?T1 p = c # map rose_root ts"
  proof -
    show "?T1 c = []" by (rule kids_gone [OF rc])
    have "p \<notin> ?N" using disj(2) t by auto
    moreover have "filter (\<lambda>c. c \<notin> ?N) (T p) = T p" by (rule filter_True) (use Tp cN rN in fastforce)
    ultimately show "?T1 p = c # map rose_root ts" unfolding kids_without_def Tp by (simp only: if_False)
  qed
  have pc: "plain_node h1 c"
    by (rule plain_destroyed [OF h1(2) ty _ _ cN]) (use pl t in auto)
  from node_destroy_is [OF dw1 aw1 pc T1(1)] obtain h2 where h2: "lxb_dom_node_destroy h1 c = Some h2" "destroyed h1 ?T1 M h2 {c}" by blast
  have "?N \<union> {c} = set (preorder t)" using t by auto
  with destroyed_trans [OF h1(2) h2(2)] have d2: "destroyed h T M h2 (set (preorder t))" by (simp only:)
  from forest_position [OF dom_wf_forest [OF dw1], of p "[]" c "map rose_root ts"] T1(2) obtain n1 where
    n1: "nodes h1 c = Some n1" "n_next n1 = hd_or (map rose_root ts) None" "n_parent n1 = Some p" by (auto dest: sib_SomeD)
  show ?case
  proof (cases ts)
    case Nil
    have "climb_destroy h1 root c = climb_destroy h2 root p"
      using n1 h2(1) ne Nil by (subst climb_destroy.simps) simp
    then have "resume_destroy h1 root c = resume_destroy h2 root p" by (simp add: resume_destroy_def)
    with h1(1) d2 t Nil show ?thesis by auto
  next
    case (Cons u vs)
    have nx: "n_next n1 = Some (rose_root u)" using n1(2) Cons by simp
    have "climb_destroy h1 root c = Some (c, h1)" using n1(1) nx ne by (subst climb_destroy.simps) simp
    then have run: "resume_destroy h1 root c = destroy_deep_loop h2 root (Some (rose_root (hd ts)))"
      using n1(1) nx ne h2(1) Cons by (simp add: resume_destroy_def)
    have "ready h2 (kids_without (set (preorder t)) T) M ts"
      by (rule ready_after [OF rt(2) d2]) (use pl disj(1) in auto)
    moreover from this have "is_rose (kids_without (set (preorder t)) T) (Rose p ts)"
      using Tp t disj(1,2) rose_root_preorder by (fastforce simp: ready_def kids_without_def filter_id_conv)
    ultimately obtain h3 where h3: "destroy_deep_loop h2 root (Some (rose_root (hd ts))) = resume_destroy h3 root p"
      "destroyed h2 (kids_without (set (preorder t)) T) M h3 (set (preorders ts))"
      using 3(2) [of "rose_lists t" h2 "kids_without (set (preorder t)) T" p] 3(5) Cons by auto
    from destroyed_trans [OF d2 h3(2)] h3(1) run h1(1) t show ?thesis by (intro exI [of _ h3]) simp
  qed
qed simp

lemma destroy_deep_is:
  assumes r: "ready h T M [t]"
  shows "\<exists>h'. lxb_dom_node_destroy_deep h (Some (rose_root t)) = Some h' \<and> destroyed h T M h' (set (preorder t))"
proof -
  obtain a ts where t: "t = Rose a ts" by (cases t)
  from r have dw: "dom_wf h T" and aw: "attrs_wf h M" and ro: "is_rose T (Rose a ts)" and pl: "\<And>b. b \<in> set (preorder t) \<Longrightarrow> plain_node h b"
    using t by (auto simp: ready_def)
  have na: "a \<notin> set (preorders ts)" by (rule rose_root_once [OF dom_wf_forest [OF dw] ro])
  from destroy_below(1) [OF r, of a] na t obtain h1 where
    h1: "destroy_deep_loop h a (Some a) = resume_destroy h1 a a" "destroyed h T M h1 (set (preorders ts))" by auto
  have ty: "heap_typed h" using aw by (simp add: attrs_wf_def)
  have "plain_node h1 a" by (rule plain_destroyed [OF h1(2) ty _ _ na]) (use pl t in auto)
  moreover have "kids_without (set (preorders ts)) T a = []" by (rule kids_gone [OF ro])
  ultimately obtain h2 where h2: "lxb_dom_node_destroy h1 a = Some h2" "destroyed h1 (kids_without (set (preorders ts)) T) M h2 {a}"
    using node_destroy_is [of h1 "kids_without (set (preorders ts)) T" M a] h1(2) by (auto simp: destroyed_def)
  have "resume_destroy h1 a a = Some h2" using h2(1) by (simp add: resume_destroy_def climb_destroy.simps)
  then have "lxb_dom_node_destroy_deep h (Some (rose_root t)) = Some h2" using h1(1) t by (simp add: lxb_dom_node_destroy_deep_def)
  moreover have "set (preorders ts) \<union> {a} = set (preorder t)" using t by auto
  ultimately show ?thesis using destroyed_trans [OF h1(2) h2(2)] by metis
qed

text \<open>All children.\<close>

lemma first_child_is:
  assumes dw: "dom_wf h T" and n: "nodes h p = Some n" and r: "is_rose T (Rose p ts)"
  shows "n_first_child n = hd_or (map rose_root ts) None"
  using forest_ends [OF dom_wf_forest [OF dw], of p] n r by (auto simp: ends_Some)

lemma destroy_children_is:
  "ready h T M ts \<Longrightarrow> is_rose T (Rose p ts) \<Longrightarrow> p \<in> dom (nodes h) \<Longrightarrow>
     \<exists>h'. destroy_children h p = Some h' \<and> destroyed h T M h' (set (preorders ts))"
proof (induction ts arbitrary: h T)
  case Nil
  then have dw: "dom_wf h T" and aw: "attrs_wf h M" by (simp_all add: ready_def)
  from Nil(3) obtain n where n: "nodes h p = Some n" by blast
  with first_child_is [OF dw n Nil(2)] have "destroy_children h p = Some h"
    by (subst destroy_children.simps) simp
  with destroyed_refl [OF dw aw] show ?case by simp
next
  case (Cons t ts)
  from Cons(2) have dw: "dom_wf h T" and rt: "ready h T M [t]" "ready h T M ts" and pl: "\<And>b. b \<in> set (preorder t) \<Longrightarrow> plain_node h b"
    by (auto simp: ready_def)
  note disj = preorders_disjoint [OF dom_wf_forest [OF dw] Cons(3)]
  from Cons(4) obtain n where n: "nodes h p = Some n" by blast
  with first_child_is [OF dw n Cons(3)] have run: "destroy_children h p =
      do { h \<leftarrow> lxb_dom_node_destroy_deep h (Some (rose_root t)); destroy_children h p }"
    by (subst destroy_children.simps) simp
  from destroy_deep_is [OF rt(1)] obtain h1 where
    h1: "lxb_dom_node_destroy_deep h (Some (rose_root t)) = Some h1" "destroyed h T M h1 (set (preorder t))" by blast
  have r1: "ready h1 (kids_without (set (preorder t)) T) M ts"
    by (rule ready_after [OF rt(2) h1(2) pl disj(1)])
  have "filter (\<lambda>c. c \<notin> set (preorder t)) (rose_root t # map rose_root ts) = map rose_root ts"
  proof -
    have "rose_root u \<notin> set (preorder t)" if "u \<in> set ts" for u using rose_root_preorders [OF that] disj(1) by blast
    then have "filter (\<lambda>c. c \<notin> set (preorder t)) (map rose_root ts) = map rose_root ts" by (intro filter_True) auto
    then show ?thesis by simp
  qed
  then have "is_rose (kids_without (set (preorder t)) T) (Rose p ts)"
    using r1 Cons(3) disj(2) by (simp add: ready_def kids_without_def)
  moreover have "p \<in> dom (nodes h1)" using destroyed_alive [OF h1(2) disj(2) n] by blast
  ultimately obtain h2 where h2: "destroy_children h1 p = Some h2" "destroyed h1 (kids_without (set (preorder t)) T) M h2 (set (preorders ts))"
    using Cons.IH [OF r1] by blast
  have "set (preorder t) \<union> set (preorders ts) = set (preorders (t # ts))" by simp
  with destroyed_trans [OF h1(2) h2(2)] h2(1) h1(1) run show ?case by (intro exI [of _ h2]) (simp only: bind.bind_lunit)
qed

lemma replace_all_is:
  assumes rd: "ready h T M ts" and r: "is_rose T (Rose p ts)" and p: "p \<in> dom (nodes h)"
    and new: "nodes h a = Some n" "n_parent n = None" "T a = []" "a \<noteq> p" "a \<notin> set (preorders ts)"
  shows "\<exists>h'. lxb_dom_node_replace_all h p a = Some (LXB_STATUS_OK, h') \<and>
     dom_wf h' ((kids_without (set (preorders ts)) T)(p := [a])) \<and> attrs_wf h' M \<and>
     (\<forall>b \<in> set (preorders ts). nodes h' b = None) \<and> (\<forall>b. b \<notin> set (preorders ts) \<longrightarrow> stays h h' b) \<and>
     (\<forall>b cs. b \<notin> set (preorders ts) \<longrightarrow> chars_at h b cs \<longrightarrow> chars_at h' b cs)"
proof -
  let ?N = "set (preorders ts)"
  have dw: "dom_wf h T" using rd by (simp add: ready_def)
  from destroy_children_is [OF rd r p] obtain h1 where h1: "destroy_children h p = Some h1" "destroyed h T M h1 ?N" by blast
  have dw1: "dom_wf h1 (kids_without ?N T)" and aw1: "attrs_wf h1 M" using h1(2) by (simp_all add: destroyed_def)
  have pN: "p \<notin> ?N" by (rule rose_root_once [OF dom_wf_forest [OF dw] r])
  obtain np where np: "nodes h1 p = Some np" using destroyed_alive [OF h1(2) pN] p by blast
  obtain n1 where n1: "nodes h1 a = Some n1" using destroyed_alive [OF h1(2) new(5,1)] by blast
  have Ta: "kids_without ?N T a = []" using new(3) by (simp add: kids_without_def)
  have nk: "a \<notin> set (kids_without ?N T q)" for q
    using forest_detached(4) [OF dom_wf_forest [OF dw] new(1,2), of q] by (auto simp: kids_without_def)
  have det: "n_parent n1 = None"
    using forest_child [OF dom_wf_forest [OF dw1], of a] n1 nk by (cases "n_parent n1") (auto simp: sib_Some)
  have "(a, p) \<notin> (edges (kids_without ?N T))\<^sup>*"
  proof
    assume "(a, p) \<in> (edges (kids_without ?N T))\<^sup>*"
    with new(4) Ta show False by (auto simp: edges_def elim: converse_rtranclE)
  qed
  from insert_child_refines [OF dw1 np n1 det this] obtain h2 where
    h2: "lxb_dom_node_insert_child h1 p a = Some h2" "same_payload h1 h2" "dom_wf h2 ((kids_without ?N T)(p := kids_without ?N T p @ [a]))" by blast
  have "lxb_dom_node_replace_all h p a = Some (LXB_STATUS_OK, h2)"
    using h1(1) h2(1) by (simp add: lxb_dom_node_replace_all_def)
  moreover have "dom_wf h2 ((kids_without ?N T)(p := [a]))" using h2(3) kids_gone [OF r] by simp
  moreover have "attrs_wf h2 M" by (rule same_payload_attrs_wf [OF h2(2) aw1])
  moreover have "nodes h2 b = None" if "b \<in> ?N" for b
    using h1(2) that h2(2) by (metis destroyed_def same_payload_def option.map_disc_iff)
  moreover have "stays h h2 b" if "b \<notin> ?N" for b
    using h1(2) that same_payload_stays [OF h2(2), of b] by (simp add: destroyed_def stays_def)
  moreover have "chars_at h2 b cs" if "b \<notin> ?N" "chars_at h b cs" for b cs
    using h1(2) that same_payload_field [OF h2(2)] by (auto simp: destroyed_def chars_at_def)
  ultimately show ?thesis by blast
qed

section \<open>Properties\<close>

definition below :: "kids \<Rightarrow> addr \<Rightarrow> addr set" where
  "below T p = {b. (p, b) \<in> (edges T)\<^sup>+}"

lemma below_preorders: "is_rose T (Rose p ts) \<Longrightarrow> below T p = set (preorders ts)"
proof -
  assume r: "is_rose T (Rose p ts)"
  have "below T p = (\<Union>t \<in> set ts. (edges T)\<^sup>* `` {rose_root t})"
    using r by (force simp: below_def edges_def trancl_unfold_left)
  also have "\<dots> = set (preorders ts)" using r set_preorder by auto
  finally show ?thesis .
qed

lemma rose_at:
  assumes "dom_wf h T"
  obtains ts where "is_rose T (Rose p ts)" "set (preorders ts) = below T p"
proof -
  from ex_rose [OF dom_wf_forest [OF assms]] obtain t where "rose_root t = p" "is_rose T t" by blast
  then obtain ts where "is_rose T (Rose p ts)" by (cases t) auto
  with below_preorders that show ?thesis by metis
qed

text \<open>
  C12: \<open>lxb_dom_node_destroy_deep\<close> terminates and frees exactly the subtree: of a well-formed document in
  which the node and its descendants are text, comments and HTML elements other than templates, the
  node and the descendants are gone, every other node keeps its struct, its characters and, for elements,
  its attributes, and the tree is the old one without the subtree.
\<close>

theorem destroy_deep_exact:
  assumes "dom_wf h T" and "attrs_wf h M" and "nodes h root \<noteq> None" and "\<forall>b \<in> insert root (below T root). plain_node h b"
  shows "\<exists>h'. lxb_dom_node_destroy_deep h (Some root) = Some h' \<and>
     dom_wf h' (kids_without (insert root (below T root)) T) \<and> attrs_wf h' M \<and>
     (\<forall>b. nodes h' b = None \<longleftrightarrow> nodes h b = None \<or> b \<in> insert root (below T root)) \<and>
     (\<forall>b. b \<notin> insert root (below T root) \<longrightarrow> stays h h' b) \<and>
     (\<forall>b cs. b \<notin> insert root (below T root) \<longrightarrow> chars_at h b cs \<longrightarrow> chars_at h' b cs)"
proof -
  let ?N = "insert root (below T root)"
  obtain ts where r: "is_rose T (Rose root ts)" "set (preorders ts) = below T root" by (rule rose_at [OF assms(1)])
  have N: "set (preorder (Rose root ts)) = ?N" using r(2) by simp
  have "ready h T M [Rose root ts]" unfolding ready_def using assms r N by auto
  from destroy_deep_is [OF this] obtain h' where h': "lxb_dom_node_destroy_deep h (Some root) = Some h'" "destroyed h T M h' ?N"
    unfolding N rose.sel by blast
  have "nodes h' b = None \<longleftrightarrow> nodes h b = None \<or> b \<in> ?N" for b
  proof (cases "b \<in> ?N")
    case False
    with h'(2) have "stays h h' b" by (simp add: destroyed_def)
    then have "map_option payload (nodes h' b) = map_option payload (nodes h b)" by (simp add: stays_def)
    with False show ?thesis by (cases "nodes h b"; cases "nodes h' b") auto
  qed (use h'(2) in \<open>auto simp: destroyed_def\<close>)
  with h' show ?thesis unfolding destroyed_def by blast
qed

lemma sample_plain: "plain_node (sample_plan f) b" if "b \<in> {2, 3, 4, 5, 6}"
proof -
  have d: "docs sample_dom (Suc 0) = Some sample_doc" by (simp add: sample_doc_def sample_defs)
  from that show ?thesis
    by (auto simp: plain_node_def sample_nodes_def sample_node_def char_tag_def LXB_TAG__TEXT_def LXB_TAG__EM_COMMENT_def
        LXB_TAG__DOCUMENT_def LXB_TAG__EM_DOCTYPE_def LXB_TAG_TEMPLATE_def LXB_NS_HTML_def d sample_doc_for(3))
qed

lemma sample_below: "below sample_kids 3 = {4, 5}"
proof -
  have r: "is_rose sample_kids (Rose 3 [Rose 4 [], Rose 5 []])" by (simp add: sample_kids_def)
  show ?thesis unfolding below_preorders [OF r] by simp
qed

lemma destroy_deep_exact_witness:
  "\<exists>h'. lxb_dom_node_destroy_deep (sample_plan (\<lambda>_. None)) (Some 3) = Some h' \<and> nodes h' 4 = None \<and> nodes h' 6 \<noteq> None"
proof -
  have pl: "\<forall>b \<in> insert 3 (below sample_kids 3). plain_node (sample_plan (\<lambda>_. None)) b"
    unfolding sample_below using sample_plain by simp
  have "nodes (sample_plan (\<lambda>_. None)) 3 \<noteq> None" "nodes (sample_plan (\<lambda>_. None)) 6 \<noteq> None" by (simp_all add: sample_nodes_def)
  with destroy_deep_exact [OF plan_wf sample_attrs_wf _ pl] obtain h' where
    h': "lxb_dom_node_destroy_deep (sample_plan (\<lambda>_. None)) (Some 3) = Some h'"
    "\<And>b. nodes h' b = None \<longleftrightarrow> nodes (sample_plan (\<lambda>_. None)) b = None \<or> b \<in> {3, 4, 5}" unfolding sample_below by blast
  have "nodes h' 4 = None" "nodes h' 6 \<noteq> None"
    unfolding h'(2) using \<open>nodes (sample_plan (\<lambda>_. None)) 6 \<noteq> None\<close> by simp_all
  with h'(1) show ?thesis by blast
qed

end
