(* ===== verification/Dom_Text.thy ===== *)
theory Dom_Text
  imports Dom_Destroy
begin

text \<open>
  Text content (node.c, character_data.c): \<open>lxb_dom_node_text_content\<close> reads the characters below a node
  into a block of the text arena, \<open>lxb_dom_node_text_content_set\<close> replaces them. These are the getter
  and the setter of \<open>node.textContent\<close>.
\<close>

section \<open>The functions\<close>

text \<open>
  The parameters \<open>offset\<close> and \<open>count\<close> are not read by the source. The room of an old string is compared
  with \<open>len\<close>, while \<open>len + 1\<close> bytes are written.
\<close>

definition replace_room :: "dom \<Rightarrow> addr \<Rightarrow> nat \<Rightarrow> (bool \<times> dom) option" where
  "replace_room h ch_data len = do {
     s \<leftarrow> chardata h ch_data;
     (ok, s, A) \<leftarrow> (if str_data s = None then do {
         (_, s, A) \<leftarrow> lexbor_str_init (Some s) (text_arena h) len;
         s \<leftarrow> s;
         Some (str_data s \<noteq> None, s, A) }
       else do {
         size \<leftarrow> lexbor_str_size s (text_arena h);
         (if size < len then do {
            (data, s, A) \<leftarrow> lexbor_str_realloc s (text_arena h) (len + 1);
            Some (data \<noteq> None, s, A) }
          else Some (True, s, text_arena h)) });
     Some (ok, h\<lparr>chardata := (chardata h)(ch_data \<mapsto> s), text_arena := A\<rparr>) }"

definition lxb_dom_character_data_replace :: "dom \<Rightarrow> addr \<Rightarrow> bytes \<Rightarrow> (lxb_status \<times> dom) option" where
  "lxb_dom_character_data_replace h ch_data data = do {
     (ok, h) \<leftarrow> replace_room h ch_data (length data);
     (if \<not> ok then Some (LXB_STATUS_ERROR_MEMORY_ALLOCATION, h)
      else do {
        s \<leftarrow> chardata h ch_data;
        A \<leftarrow> blk_write (text_arena h) (str_data s) 0 data;
        A \<leftarrow> blk_write A (str_data s) (length data) [0];
        Some (LXB_STATUS_OK, h\<lparr>chardata := (chardata h)(ch_data \<mapsto> s\<lparr>str_length := length data\<rparr>), text_arena := A\<rparr>) }) }"

definition lxb_dom_node_text_content_size :: "dom \<Rightarrow> addr \<Rightarrow> nat \<Rightarrow> (lexbor_action \<times> nat) option" where
  "lxb_dom_node_text_content_size h node ctx = do {
     n \<leftarrow> nodes h node;
     (if n_type n = LXB_DOM_NODE_TYPE_TEXT then do {
        s \<leftarrow> chardata h node;
        Some (LEXBOR_ACTION_OK, ctx + str_length s) }
      else Some (LEXBOR_ACTION_OK, ctx)) }"

text \<open>The context is the position in the block \<open>text\<close>, and the arena it is written in.\<close>

definition lxb_dom_node_text_content_concatenate ::
  "dom \<Rightarrow> addr \<Rightarrow> addr \<Rightarrow> nat \<times> arena \<Rightarrow> (lexbor_action \<times> nat \<times> arena) option" where
  "lxb_dom_node_text_content_concatenate h text node ctx = do {
     n \<leftarrow> nodes h node;
     (if n_type n \<noteq> LXB_DOM_NODE_TYPE_TEXT then Some (LEXBOR_ACTION_OK, ctx)
      else do {
        let (off, A) = ctx;
        s \<leftarrow> chardata h node;
        bs \<leftarrow> blk_read A (str_data s) 0 (str_length s);
        A \<leftarrow> blk_write A (Some text) off bs;
        Some (LEXBOR_ACTION_OK, off + str_length s, A) }) }"

text \<open>Copying one string with its NUL into a new block.\<close>

definition copy_text :: "dom \<Rightarrow> addr option \<Rightarrow> nat \<Rightarrow> (cptr \<times> nat \<times> dom) option" where
  "copy_text h src len = do {
     let (text, h) = lxb_dom_document_create_text h (len + 1);
     (case text of
       None \<Rightarrow> Some (None, 0, h)
     | Some t \<Rightarrow> do {
         bs \<leftarrow> blk_read (text_arena h) src 0 (len + 1);
         A \<leftarrow> blk_write (text_arena h) (Some t) 0 bs;
         A \<leftarrow> blk_write A (Some t) len [0];
         Some (at_off (Some t) 0, len, h\<lparr>text_arena := A\<rparr>) }) }"

definition lxb_dom_node_text_content :: "dom \<Rightarrow> addr \<Rightarrow> (cptr \<times> nat \<times> dom) option" where
  "lxb_dom_node_text_content h node = do {
     n \<leftarrow> nodes h node;
     (if n_type n \<in> {LXB_DOM_NODE_TYPE_DOCUMENT_FRAGMENT, LXB_DOM_NODE_TYPE_ELEMENT} then do {
        len \<leftarrow> lxb_dom_node_simple_walk (nodes h) node (lxb_dom_node_text_content_size h) 0;
        _ \<leftarrow> owner_doc h node;
        let (text, h) = lxb_dom_document_create_text h (len + 1);
        (case text of
          None \<Rightarrow> Some (None, 0, h)
        | Some t \<Rightarrow> do {
            (off, A) \<leftarrow> lxb_dom_node_simple_walk (nodes h) node (lxb_dom_node_text_content_concatenate h t) (0, text_arena h);
            A \<leftarrow> blk_write A (Some t) ((off - len) + len) [0];
            Some (at_off (Some t) (off - len), len, h\<lparr>text_arena := A\<rparr>) }) }
      else if n_type n = LXB_DOM_NODE_TYPE_ATTRIBUTE then do {
        (attr_text, len) \<leftarrow> lxb_dom_attr_value h node;
        (case attr_text of
          None \<Rightarrow> Some (None, 0, h)
        | Some _ \<Rightarrow> do { _ \<leftarrow> owner_doc h node; copy_text h attr_text len }) }
      else if n_type n \<in> {LXB_DOM_NODE_TYPE_TEXT, LXB_DOM_NODE_TYPE_PROCESSING_INSTRUCTION, LXB_DOM_NODE_TYPE_COMMENT} then do {
        s \<leftarrow> chardata h node;
        _ \<leftarrow> owner_doc h node;
        copy_text h (str_data s) (str_length s) }
      else Some (None, 0, h)) }"

definition lxb_dom_node_text_content_set :: "dom \<Rightarrow> addr \<Rightarrow> bytes \<Rightarrow> (lxb_status \<times> dom) option" where
  "lxb_dom_node_text_content_set h node content = do {
     n \<leftarrow> nodes h node;
     (if n_type n \<in> {LXB_DOM_NODE_TYPE_DOCUMENT_FRAGMENT, LXB_DOM_NODE_TYPE_ELEMENT} then do {
        (text, h) \<leftarrow> lxb_dom_document_create_text_node h (n_owner_document n) content;
        (case text of
          None \<Rightarrow> Some (LXB_STATUS_ERROR_MEMORY_ALLOCATION, h)
        | Some a \<Rightarrow> do {
            (status, h) \<leftarrow> lxb_dom_node_replace_all h node a;
            (if status \<noteq> LXB_STATUS_OK then do {
               h \<leftarrow> lxb_dom_document_destroy_interface h a;
               Some (status, h) }
             else Some (LXB_STATUS_OK, h)) }) }
      else if n_type n = LXB_DOM_NODE_TYPE_ATTRIBUTE then lxb_dom_attr_set_existing_value h node content
      else if n_type n \<in> {LXB_DOM_NODE_TYPE_TEXT, LXB_DOM_NODE_TYPE_PROCESSING_INSTRUCTION, LXB_DOM_NODE_TYPE_COMMENT}
        then lxb_dom_character_data_replace h node content
      else Some (LXB_STATUS_OK, h)) }"

section \<open>Reading\<close>

text \<open>The characters of a node, when it is a text node.\<close>

definition text_bytes :: "dom \<Rightarrow> addr \<Rightarrow> bytes \<Rightarrow> bool" where
  "text_bytes h b cs \<longleftrightarrow> (\<exists>n. nodes h b = Some n \<and> (if n_type n = LXB_DOM_NODE_TYPE_TEXT then chars_at h b cs else cs = []))"

lemma visits_size:
  "(\<And>b. b \<in> set (preorder t) \<Longrightarrow> text_bytes h b (txt b)) \<Longrightarrow>
     visit (lxb_dom_node_text_content_size h) t s = Some (False, s + length (concat (map txt (preorder t))))"
  "(\<And>b. b \<in> set (preorders ts) \<Longrightarrow> text_bytes h b (txt b)) \<Longrightarrow>
     visits (lxb_dom_node_text_content_size h) ts s = Some (False, s + length (concat (map txt (preorders ts))))"
proof (induction t and ts arbitrary: s and s rule: rose_lists_roses_lists.induct)
  case (1 a ts)
  have "text_bytes h a (txt a)" using 1(2) by simp
  then have "lxb_dom_node_text_content_size h a s = Some (LEXBOR_ACTION_OK, s + length (txt a))"
    by (auto simp: text_bytes_def lxb_dom_node_text_content_size_def chars_at_def str_is_def split: if_splits)
  with 1(1) [of "s + length (txt a)"] 1(2) show ?case by (simp add: add.assoc)
next
  case (3 t ts)
  from 3(1) [of s] 3(2) [of "rose_lists t" "s + length (concat (map txt (preorder t)))"] 3(3) show ?case by (simp add: add.assoc)
qed simp

text \<open>Overwriting part of a block.\<close>

definition put :: "nat \<Rightarrow> bytes \<Rightarrow> bytes \<Rightarrow> bytes" where
  "put off cs b = take off b @ cs @ drop (off + length cs) b"

lemma length_put [simp]: "off + length cs \<le> length b \<Longrightarrow> length (put off cs b) = length b"
  by (simp add: put_def)

lemma put_Nil [simp]: "put off [] b = b"
  by (simp add: put_def)

lemma put_put:
  assumes "off + length xs + length ys \<le> length b"
  shows "put (off + length xs) ys (put off xs b) = put off (xs @ ys) b"
proof -
  have "off \<le> length b" using assms by simp
  then show ?thesis by (simp add: put_def min_absorb2 ac_simps)
qed

definition with_block :: "arena \<Rightarrow> addr \<Rightarrow> bytes \<Rightarrow> arena" where
  "with_block A t b = A\<lparr>ar_blocks := (ar_blocks A)(t \<mapsto> b)\<rparr>"

lemma with_block_simps [simp]: "ar_blocks (with_block A t b) = (ar_blocks A)(t \<mapsto> b)" "with_block (with_block A t b) t c = with_block A t c"
  by (simp_all add: with_block_def)

lemma write_with_block: "off + length cs \<le> length b \<Longrightarrow> blk_write (with_block A t b) (Some t) off cs = Some (with_block A t (put off cs b))"
  by (simp add: blk_write_def with_block_def put_def)

text \<open>One string, read while the block \<open>t\<close>, unknown to the old arena, is written.\<close>

lemma str_read: "str_is A s cs \<Longrightarrow> ar_blocks A t = None \<Longrightarrow> (\<And>p. p \<noteq> t \<Longrightarrow> ar_blocks B p = ar_blocks A p) \<Longrightarrow>
    blk_read (with_block B t b) (str_data s) 0 (str_length s) = Some cs"
  by (auto simp: str_is_def blk_read_def)

lemma concat_step:
  assumes h: "nodes h = nodes h0" "chardata h = chardata h0" and tx: "text_bytes h0 a cs"
    and t: "ar_blocks (text_arena h0) t = None" and B: "\<And>p. p \<noteq> t \<Longrightarrow> ar_blocks B p = ar_blocks (text_arena h0) p"
    and len: "off + length cs \<le> length b"
  shows "lxb_dom_node_text_content_concatenate h t a (off, with_block B t b) =
     Some (LEXBOR_ACTION_OK, off + length cs, with_block B t (put off cs b))"
proof -
  from tx obtain n where n: "nodes h a = Some n" "if n_type n = LXB_DOM_NODE_TYPE_TEXT then chars_at h0 a cs else cs = []"
    unfolding text_bytes_def h by blast
  show ?thesis
  proof (cases "n_type n = LXB_DOM_NODE_TYPE_TEXT")
    case True
    with n(2) obtain s where s: "chardata h a = Some s" "str_is (text_arena h0) s cs" unfolding h by (auto simp: chars_at_def)
    then have "str_length s = length cs" by (auto simp: str_is_def)
    with n(1) True s(1) str_read [OF s(2) t B] write_with_block [OF len] show ?thesis
      by (simp add: lxb_dom_node_text_content_concatenate_def)
  qed (use n in \<open>simp add: lxb_dom_node_text_content_concatenate_def\<close>)
qed

lemma visits_concat:
  assumes h: "nodes h = nodes h0" "chardata h = chardata h0"
    and t: "ar_blocks (text_arena h0) t = None" and B: "\<And>p. p \<noteq> t \<Longrightarrow> ar_blocks B p = ar_blocks (text_arena h0) p"
  shows "(\<And>a. a \<in> set (preorder r) \<Longrightarrow> text_bytes h0 a (txt a)) \<Longrightarrow> off + length (concat (map txt (preorder r))) \<le> length b \<Longrightarrow>
     visit (lxb_dom_node_text_content_concatenate h t) r (off, with_block B t b) =
       Some (False, off + length (concat (map txt (preorder r))), with_block B t (put off (concat (map txt (preorder r))) b))"
  and "(\<And>a. a \<in> set (preorders rs) \<Longrightarrow> text_bytes h0 a (txt a)) \<Longrightarrow> off + length (concat (map txt (preorders rs))) \<le> length b \<Longrightarrow>
     visits (lxb_dom_node_text_content_concatenate h t) rs (off, with_block B t b) =
       Some (False, off + length (concat (map txt (preorders rs))), with_block B t (put off (concat (map txt (preorders rs))) b))"
proof (induction r and rs arbitrary: off b and off b rule: rose_lists_roses_lists.induct)
  case (1 a rs)
  have ta: "text_bytes h0 a (txt a)" using 1(2) by simp
  have len: "off + length (txt a) + length (concat (map txt (preorders rs))) \<le> length b" using 1(3) by simp
  have step: "lxb_dom_node_text_content_concatenate h t a (off, with_block B t b) =
     Some (LEXBOR_ACTION_OK, off + length (txt a), with_block B t (put off (txt a) b))"
    by (rule concat_step [OF h ta t B]) (use len in auto)
  have "visits (lxb_dom_node_text_content_concatenate h t) rs (off + length (txt a), with_block B t (put off (txt a) b)) =
      Some (False, off + length (txt a) + length (concat (map txt (preorders rs))),
        with_block B t (put (off + length (txt a)) (concat (map txt (preorders rs))) (put off (txt a) b)))"
    by (rule 1(1)) (use 1(2) len in auto)
  with step put_put [OF len] show ?case by (simp add: add.assoc)
next
  case (3 r rs)
  let ?x = "concat (map txt (preorder r))" and ?y = "concat (map txt (preorders rs))"
  have len: "off + length ?x + length ?y \<le> length b" using 3(4) by simp
  have 1: "visit (lxb_dom_node_text_content_concatenate h t) r (off, with_block B t b) =
      Some (False, off + length ?x, with_block B t (put off ?x b))"
    by (rule 3(1)) (use 3(3) len in auto)
  have 2: "visits (lxb_dom_node_text_content_concatenate h t) rs (off + length ?x, with_block B t (put off ?x b)) =
      Some (False, off + length ?x + length ?y, with_block B t (put (off + length ?x) ?y (put off ?x b)))"
    by (rule 3(2) [of "rose_lists r"]) (use 3(3) len in auto)
  from 1 2 put_put [OF len] show ?case by (simp add: add.assoc)
qed simp

text \<open>
  What the getter answers: NULL when the block is refused, otherwise a new block with the characters
  and a NUL. Nothing else changes.
\<close>

definition answers :: "dom \<Rightarrow> (cptr \<times> nat \<times> dom) option \<Rightarrow> bytes \<Rightarrow> bool" where
  "answers h r cs \<longleftrightarrow> (\<exists>p len A. r = Some (p, len, h\<lparr>text_arena := A\<rparr>) \<and> ar_wf A \<and>
     (p = None \<longleftrightarrow> ar_plan (text_arena h) (ar_reqs (text_arena h)) = None) \<and>
     (case p of
       None \<Rightarrow> len = 0 \<and> ar_blocks A = ar_blocks (text_arena h)
     | Some (t, off) \<Rightarrow> off = 0 \<and> len = length cs \<and> ar_blocks (text_arena h) t = None \<and>
         (\<exists>rest. ar_blocks A = (ar_blocks (text_arena h))(t \<mapsto> cs @ 0 # rest))))"

lemma text_content_is:
  assumes dw: "dom_wf h T" and n: "nodes h p = Some n" "n_type n \<in> {LXB_DOM_NODE_TYPE_DOCUMENT_FRAGMENT, LXB_DOM_NODE_TYPE_ELEMENT}"
    and r: "is_rose T (Rose p ts)" and tx: "\<And>b. b \<in> set (preorders ts) \<Longrightarrow> text_bytes h b (txt b)"
    and wf: "ar_wf (text_arena h)" and len: "length (concat (map txt (preorders ts))) + 1 < 2 ^ 63"
  shows "answers h (lxb_dom_node_text_content h p) (concat (map txt (preorders ts)))"
proof -
  let ?tot = "concat (map txt (preorders ts))"
  note F = dom_wf_forest [OF dw, folded forest_def]
  have p: "p \<in> dom (nodes h)" using n(1) by blast
  have size: "lxb_dom_node_simple_walk (nodes h) p (lxb_dom_node_text_content_size h) 0 = Some (length ?tot)"
    unfolding simple_walk_visits [OF F r p] using visits_size(2) [OF tx] by simp
  obtain d where doc: "owner_doc h p = Some d" using dw n(1) by (auto simp: dom_wf_def owned_def owner_doc_def)
  obtain q A1 where a: "lexbor_mraw_alloc (text_arena h) (length ?tot + 1) = (q, A1)" by force
  note al = mraw_alloc_cases [OF wf len a]
  have pl: "q = None \<longleftrightarrow> ar_plan (text_arena h) (ar_reqs (text_arena h)) = None"
    using a by (auto simp: lexbor_mraw_alloc_def split: option.splits)
  show ?thesis
  proof (cases q)
    case None
    then have run: "lxb_dom_node_text_content h p = Some (None, 0, h\<lparr>text_arena := A1\<rparr>)"
      using n size doc a by (auto simp: lxb_dom_node_text_content_def lxb_dom_document_create_text_def)
    show ?thesis unfolding answers_def run
      by (intro exI [of _ None] exI [of _ 0] exI [of _ A1]) (use None al pl in simp)
  next
    case (Some t)
    from al [unfolded Some option.case] obtain b where b: "ar_blocks (text_arena h) t = None" "length ?tot + 1 \<le> length b"
      "ar_blocks A1 = (ar_blocks (text_arena h))(t \<mapsto> b)" "ar_wf A1" by blast
    let ?h = "h\<lparr>text_arena := A1\<rparr>"
    have A1: "with_block A1 t b = A1" using b(3) by (simp add: with_block_def)
    have "visits (lxb_dom_node_text_content_concatenate ?h t) ts (0, with_block A1 t b) =
        Some (False, 0 + length ?tot, with_block A1 t (put 0 ?tot b))"
      by (rule visits_concat(2) [of ?h h]) (use b tx in auto)
    then have walk: "lxb_dom_node_simple_walk (nodes h) p (lxb_dom_node_text_content_concatenate ?h t) (0, A1) =
        Some (length ?tot, with_block A1 t (put 0 ?tot b))"
      unfolding simple_walk_visits [OF F r p] A1 by simp
    have le: "0 + length ?tot + length [0 :: byte] \<le> length b" using b(2) by simp
    let ?B = "with_block A1 t (put 0 (?tot @ [0]) b)"
    have "blk_write (with_block A1 t (put 0 ?tot b)) (Some t) (length ?tot) [0] = Some ?B"
      using write_with_block [of "length ?tot" "[0]" "put 0 ?tot b"] put_put [OF le] le by simp
    then have run: "lxb_dom_node_text_content h p = Some (at_off (Some t) 0, length ?tot, h\<lparr>text_arena := ?B\<rparr>)"
      using n size doc a Some walk by (auto simp: lxb_dom_node_text_content_def lxb_dom_document_create_text_def)
    have blk: "ar_blocks ?B = (ar_blocks (text_arena h))(t \<mapsto> ?tot @ 0 # drop (length ?tot + 1) b)"
      using b(3) by (simp add: put_def)
    have "ar_wf ?B" using b(3,4) by (auto simp: ar_wf_def with_block_def)
    then show ?thesis unfolding answers_def run
      by (intro exI [of _ "Some (t, 0)"] exI [of _ "length ?tot"] exI [of _ ?B]) (use Some pl b(1) blk in \<open>auto simp: at_off_def\<close>)
  qed
qed

text \<open>The getter of a text node or a comment.\<close>

lemma text_content_chars_is:
  assumes dw: "dom_wf h T" and n: "nodes h a = Some n" "n_type n \<in> {LXB_DOM_NODE_TYPE_TEXT, LXB_DOM_NODE_TYPE_PROCESSING_INSTRUCTION, LXB_DOM_NODE_TYPE_COMMENT}"
    and c: "chars_at h a cs" and wf: "ar_wf (text_arena h)" and len: "length cs + 1 < 2 ^ 63"
  shows "answers h (lxb_dom_node_text_content h a) cs"
proof -
  from c obtain s pp rest where s: "chardata h a = Some s" "str_data s = Some pp" "str_length s = length cs"
    "ar_blocks (text_arena h) pp = Some (cs @ 0 # rest)" by (auto simp: chars_at_def str_is_def)
  obtain d where doc: "owner_doc h a = Some d" using dw n(1) by (auto simp: dom_wf_def owned_def owner_doc_def)
  obtain q A1 where al: "lexbor_mraw_alloc (text_arena h) (length cs + 1) = (q, A1)" by force
  note ac = mraw_alloc_cases [OF wf len al]
  have pl: "q = None \<longleftrightarrow> ar_plan (text_arena h) (ar_reqs (text_arena h)) = None"
    using al by (auto simp: lexbor_mraw_alloc_def split: option.splits)
  have run: "lxb_dom_node_text_content h a = copy_text h (Some pp) (length cs)"
    using n s doc by (auto simp: lxb_dom_node_text_content_def)
  show ?thesis
  proof (cases q)
    case None
    then have r: "lxb_dom_node_text_content h a = Some (None, 0, h\<lparr>text_arena := A1\<rparr>)"
      using run al by (simp add: copy_text_def lxb_dom_document_create_text_def)
    show ?thesis unfolding answers_def r
      by (intro exI [of _ None] exI [of _ 0] exI [of _ A1]) (use None ac pl in simp)
  next
    case (Some t)
    from ac [unfolded Some option.case] obtain b where b: "ar_blocks (text_arena h) t = None" "length cs + 1 \<le> length b"
      "ar_blocks A1 = (ar_blocks (text_arena h))(t \<mapsto> b)" "ar_wf A1" by blast
    have A1: "with_block A1 t b = A1" using b(3) by (simp add: with_block_def)
    have "pp \<noteq> t" using s(4) b(1) by auto
    then have rd: "blk_read A1 (Some pp) 0 (length cs + 1) = Some (cs @ [0])"
      using b(3) s(4) by (simp add: blk_read_def)
    have le: "0 + length (cs @ [0 :: byte]) \<le> length b" using b(2) by simp
    have w1: "blk_write A1 (Some t) 0 (cs @ [0]) = Some (with_block A1 t (put 0 (cs @ [0]) b))"
      using write_with_block [OF le, of A1 t] A1 by simp
    have "blk_write (with_block A1 t (put 0 (cs @ [0]) b)) (Some t) (length cs) [0] = Some (with_block A1 t (put 0 (cs @ [0]) b))"
      using write_with_block [of "length cs" "[0]" "put 0 (cs @ [0]) b"] le by (simp add: put_def)
    with w1 rd run al Some have r: "lxb_dom_node_text_content h a =
        Some (at_off (Some t) 0, length cs, h\<lparr>text_arena := with_block A1 t (put 0 (cs @ [0]) b)\<rparr>)"
      by (simp add: copy_text_def lxb_dom_document_create_text_def)
    have "ar_wf (with_block A1 t (put 0 (cs @ [0]) b))" using b(3,4) by (auto simp: ar_wf_def with_block_def)
    then show ?thesis unfolding answers_def r
      by (intro exI [of _ "Some (t, 0)"] exI [of _ "length cs"] exI [of _ "with_block A1 t (put 0 (cs @ [0]) b)"])
        (use Some pl b in \<open>auto simp: at_off_def put_def\<close>)
  qed
qed

section \<open>Writing\<close>

lemma replace_room_is:
  assumes c: "chardata h a = Some s" and wf: "ar_wf (text_arena h)" and n: "n + 1 < 2 ^ 63"
    and live: "\<And>p. str_data s = Some p \<Longrightarrow> \<exists>b. ar_blocks (text_arena h) p = Some b \<and> length b \<noteq> n"
  shows "\<exists>ok s' A. replace_room h a n = Some (ok, h\<lparr>chardata := (chardata h)(a \<mapsto> s'), text_arena := A\<rparr>) \<and> ar_wf A \<and>
     value_blocks (ar_blocks (text_arena h)) (Some s) (ar_blocks A) (Some s') \<and>
     (if ok then \<exists>q b. str_data s' = Some q \<and> ar_blocks A q = Some b \<and> n < length b
      else (\<forall>xs. str_is (text_arena h) s xs \<longrightarrow> str_is A s xs) \<and> (s' = s \<or> str_data s' = None \<and> str_data s = None))"
proof (cases "str_data s")
  case None
  from str_init_is [OF wf n, of s] obtain r s' A where i: "lexbor_str_init (Some s) (text_arena h) n = Some (r, Some s', A)" "ar_wf A"
    "r \<noteq> None \<and> str_is A s' [] \<and> ar_blocks (text_arena h) (the (str_data s')) = None \<and>
        (\<exists>b. ar_blocks A = (ar_blocks (text_arena h))(the (str_data s') \<mapsto> b) \<and> n < length b) \<or>
      r = None \<and> str_data s' = None \<and> str_length s' = 0 \<and> ar_blocks A = ar_blocks (text_arena h)" by blast
  have run: "replace_room h a n = Some (str_data s' \<noteq> None, h\<lparr>chardata := (chardata h)(a \<mapsto> s'), text_arena := A\<rparr>)"
    using c None i(1) by (simp add: replace_room_def)
  have "value_blocks (ar_blocks (text_arena h)) (Some s) (ar_blocks A) (Some s')"
    using i(3) None by (auto simp: value_blocks_def vdata_def str_is_def)
  moreover have "if str_data s' \<noteq> None then \<exists>q b. str_data s' = Some q \<and> ar_blocks A q = Some b \<and> n < length b
      else (\<forall>xs. str_is (text_arena h) s xs \<longrightarrow> str_is A s xs) \<and> (s' = s \<or> str_data s' = None \<and> str_data s = None)"
    using i(3) None by (auto simp: str_is_def)
  ultimately show ?thesis using run i(2) by blast
next
  case (Some p)
  from live [OF this] obtain b where b: "ar_blocks (text_arena h) p = Some b" "length b \<noteq> n" by blast
  show ?thesis
  proof (cases "length b < n")
    case False
    have run: "replace_room h a n = Some (True, h\<lparr>chardata := (chardata h)(a \<mapsto> s), text_arena := text_arena h\<rparr>)"
      using c Some b False by (simp add: replace_room_def lexbor_str_size_def lexbor_mraw_data_size_def)
    have "value_blocks (ar_blocks (text_arena h)) (Some s) (ar_blocks (text_arena h)) (Some s)"
      using Some b by (auto simp: value_blocks_def vdata_def)
    moreover have "if True then \<exists>q b. str_data s = Some q \<and> ar_blocks (text_arena h) q = Some b \<and> n < length b
        else (\<forall>xs. str_is (text_arena h) s xs \<longrightarrow> str_is (text_arena h) s xs) \<and> (s = s \<or> str_data s = None \<and> str_data s = None)"
      using Some b False by auto
    ultimately show ?thesis using run wf by blast
  next
    case True
    then have "length b < n + 1" by simp
    from mraw_realloc_grow [OF wf b(1) this n] obtain r A where g: "lexbor_mraw_realloc (text_arena h) (Some p) (n + 1) = Some (r, A)"
      "ar_wf A" "case r of None \<Rightarrow> \<exists>extra. ar_blocks A = (ar_blocks (text_arena h))(p \<mapsto> b @ extra)
       | Some q \<Rightarrow> (q = p \<or> ar_blocks (text_arena h) q = None) \<and> (\<exists>extra. n + 1 \<le> length (b @ extra) \<and>
           ar_blocks A = (ar_blocks (text_arena h))(p := None, q \<mapsto> b @ extra))" by blast
    let ?s = "if r = None then s else s\<lparr>str_data := r\<rparr>"
    have run: "replace_room h a n = Some (r \<noteq> None, h\<lparr>chardata := (chardata h)(a \<mapsto> ?s), text_arena := A\<rparr>)"
      using c Some b(1) True g(1)
      by (auto simp: replace_room_def lexbor_str_size_def lexbor_mraw_data_size_def lexbor_str_realloc_def at_off_def)
    have vb: "value_blocks (ar_blocks (text_arena h)) (Some s) (ar_blocks A) (Some ?s)"
      using g(3) Some b(1) by (cases r) (auto simp: value_blocks_def vdata_def)
    have cond: "if r \<noteq> None then \<exists>q b. str_data ?s = Some q \<and> ar_blocks A q = Some b \<and> n < length b
        else (\<forall>xs. str_is (text_arena h) s xs \<longrightarrow> str_is A s xs) \<and> (?s = s \<or> str_data ?s = None \<and> str_data s = None)"
      using g(3) Some b(1) by (cases r) (auto simp: str_is_def)
    show ?thesis using run vb g(2) cond by blast
  qed
qed

text \<open>The characters of a node are replaced when the room of the old string is not exactly the new length.\<close>

lemma character_data_replace_is:
  assumes dw: "dom_wf h T" and aw: "attrs_wf h M" and c: "chardata h a = Some s" and n: "length cs + 1 < 2 ^ 63"
    and room: "\<And>p b. str_data s = Some p \<Longrightarrow> ar_blocks (text_arena h) p = Some b \<Longrightarrow> length b \<noteq> length cs"
  shows "\<exists>st h'. lxb_dom_character_data_replace h a cs = Some (st, h') \<and> dom_wf h' T \<and> attrs_wf h' M \<and> nodes h' = nodes h \<and>
     (\<forall>b xs. b \<noteq> a \<longrightarrow> chars_at h b xs \<longrightarrow> chars_at h' b xs) \<and>
     (if st = LXB_STATUS_OK then chars_at h' a cs else st = LXB_STATUS_ERROR_MEMORY_ALLOCATION \<and> (\<forall>xs. chars_at h a xs \<longrightarrow> chars_at h' a xs))"
proof -
  have tx: "texts_ok h" and ty: "heap_typed h" using aw by (simp_all add: attrs_wf_def)
  have live: "\<exists>b. ar_blocks (text_arena h) p = Some b \<and> length b \<noteq> length cs" if "str_data s = Some p" for p
  proof -
    have "text_ptr h (Char_data a) = Some p" using c that by (simp add: text_ptr_def)
    with tx have "ar_blocks (text_arena h) p \<noteq> None" unfolding texts_ok_but_def by blast
    with room [OF that] show ?thesis by blast
  qed
  from replace_room_is [OF c texts_wf [OF tx] n live] obtain ok s' A where
    r: "replace_room h a (length cs) = Some (ok, h\<lparr>chardata := (chardata h)(a \<mapsto> s'), text_arena := A\<rparr>)" "ar_wf A"
    "value_blocks (ar_blocks (text_arena h)) (Some s) (ar_blocks A) (Some s')"
    "if ok then \<exists>q b. str_data s' = Some q \<and> ar_blocks A q = Some b \<and> length cs < length b
      else (\<forall>xs. str_is (text_arena h) s xs \<longrightarrow> str_is A s xs) \<and> (s' = s \<or> str_data s' = None \<and> str_data s = None)" by blast
  have final: "\<exists>s2 A2 st. lxb_dom_character_data_replace h a cs = Some (st, h\<lparr>chardata := (chardata h)(a \<mapsto> s2), text_arena := A2\<rparr>) \<and> ar_wf A2 \<and>
      value_blocks (ar_blocks (text_arena h)) (Some s) (ar_blocks A2) (Some s2) \<and>
      (if st = LXB_STATUS_OK then str_is A2 s2 cs
       else st = LXB_STATUS_ERROR_MEMORY_ALLOCATION \<and> (\<forall>xs. str_is (text_arena h) s xs \<longrightarrow> str_is A2 s xs) \<and> (s2 = s \<or> str_data s2 = None \<and> (\<forall>xs. \<not> chars_at h a xs)))"
  proof (cases ok)
    case False
    with r(4) c have "s' = s \<or> str_data s' = None \<and> (\<forall>xs. \<not> chars_at h a xs)" by (auto simp: chars_at_def str_is_def)
    then show ?thesis using r False
      by (intro exI [of _ s'] exI [of _ A] exI [of _ LXB_STATUS_ERROR_MEMORY_ALLOCATION])
        (simp add: lxb_dom_character_data_replace_def)
  next
    case True
    with r(4) obtain q b where q: "str_data s' = Some q" "ar_blocks A q = Some ([] @ b)" "length cs < length b" by auto
    from write_behind [OF q(2,3)] obtain A2 A3 rest where w: "blk_write A (Some q) 0 cs = Some A2"
      "blk_write A2 (Some q) (length cs) [0] = Some A3" "A3 = A\<lparr>ar_blocks := (ar_blocks A)(q \<mapsto> cs @ 0 # rest)\<rparr>" by auto
    let ?s = "s'\<lparr>str_length := length cs\<rparr>"
    have "value_blocks (ar_blocks (text_arena h)) (Some s) (ar_blocks A3) (Some ?s)"
      unfolding w(3) using value_blocks_store [OF r(3) q(1)] by simp
    moreover have "str_is A3 ?s cs" using w(3) q(1) by (intro str_isI) auto
    moreover have "ar_wf A3" using r(2) q(2) w(3) by (auto simp: ar_wf_def)
    moreover have "lxb_dom_character_data_replace h a cs = Some (LXB_STATUS_OK, h\<lparr>chardata := (chardata h)(a \<mapsto> ?s), text_arena := A3\<rparr>)"
      using r(1) True q(1) w(1,2) by (simp add: lxb_dom_character_data_replace_def)
    ultimately show ?thesis by (intro exI [of _ ?s] exI [of _ A3] exI [of _ LXB_STATUS_OK]) simp
  qed
  then obtain s2 A2 st where f: "lxb_dom_character_data_replace h a cs = Some (st, h\<lparr>chardata := (chardata h)(a \<mapsto> s2), text_arena := A2\<rparr>)"
    "ar_wf A2" "value_blocks (ar_blocks (text_arena h)) (Some s) (ar_blocks A2) (Some s2)"
    "if st = LXB_STATUS_OK then str_is A2 s2 cs
       else st = LXB_STATUS_ERROR_MEMORY_ALLOCATION \<and> (\<forall>xs. str_is (text_arena h) s xs \<longrightarrow> str_is A2 s xs) \<and> (s2 = s \<or> str_data s2 = None \<and> (\<forall>xs. \<not> chars_at h a xs))" by blast
  let ?h = "h\<lparr>chardata := (chardata h)(a \<mapsto> s2), text_arena := A2\<rparr>"
  have tof: "text_of ?h x = text_of h x" if "x \<noteq> Char_data a" for x using that by (cases x) auto
  have vb: "value_blocks (ar_blocks (text_arena h)) (text_of h (Char_data a)) (ar_blocks (text_arena ?h)) (text_of ?h (Char_data a))"
    using c f(3) by simp
  have own: "\<exists>cs. str_is (text_arena ?h) v cs" if "text_of ?h (Char_data a) = Some v" "str_data v = Some p" for v p
  proof -
    from that have v: "v = s2" "str_data s2 = Some p" by simp_all
    show ?thesis
    proof (cases "st = LXB_STATUS_OK")
      case False
      with f(4) v have "s2 = s" "\<forall>xs. str_is (text_arena h) s xs \<longrightarrow> str_is A2 s xs" by auto
      moreover have "\<exists>xs. str_is (text_arena h) s xs" using tx c v \<open>s2 = s\<close> unfolding texts_ok_but_def
        by (metis empty_iff text_of.simps(2))
      ultimately show ?thesis using v(1) by auto
    qed (use f(4) v in auto)
  qed
  have ar: "ar_wf (text_arena ?h)" using f(2) by simp
  note t = texts_replace [OF tx tof ar vb]
  have tx': "texts_ok ?h" and sk: "strings_kept_but h ?h {Char_data a}" using t own by blast+
  have ty': "heap_typed ?h" by (rule heap_typed_frame [OF ty]) (use c in \<open>auto simp: same_structs_def\<close>)
  have "attrs_wf ?h M"
    by (rule attrs_wf_stays [where N = "{}" and M' = M, OF aw ty' tx' _ _ sk]) (auto simp: names_grow_same stays_def)
  moreover have "dom_wf ?h T" using dw by (simp add: dom_wf_def owned_def)
  moreover have "chars_at ?h b xs" if "b \<noteq> a" "chars_at h b xs" for b xs
    using that sk unfolding strings_kept_but_def by (auto simp: chars_at_def dest!: spec [of _ "Char_data b"])
  moreover have "if st = LXB_STATUS_OK then chars_at ?h a cs else st = LXB_STATUS_ERROR_MEMORY_ALLOCATION \<and> (\<forall>xs. chars_at h a xs \<longrightarrow> chars_at ?h a xs)"
    using f(4) c by (auto simp: chars_at_def split: if_splits)
  ultimately show ?thesis using f(1) by (intro exI [of _ st] exI [of _ ?h]) simp
qed

text \<open>The setter on an element or a fragment, with what it leaves alone.\<close>

lemma text_content_set_is:
  assumes "dom_wf h T" and "attrs_wf h M" and "nodes h p = Some n"
    and "n_type n \<in> {LXB_DOM_NODE_TYPE_DOCUMENT_FRAGMENT, LXB_DOM_NODE_TYPE_ELEMENT}"
    and "doc_for h (n_owner_document n) (n_owner_document n)" and "docs h (n_owner_document n) = Some d" and "doc_interfaces d = Html_interface"
    and "\<forall>b \<in> below T p. plain_node h b" and "length content + 1 < 2 ^ 63"
  shows "\<exists>st h'. lxb_dom_node_text_content_set h p content = Some (st, h') \<and> attrs_wf h' M \<and>
     (if st = LXB_STATUS_OK
      then \<exists>a m. nodes h a = None \<and> dom_wf h' ((kids_without (below T p) T)(p := [a])) \<and> chars_at h' a content \<and>
         (\<forall>b \<in> below T p. nodes h' b = None) \<and> (\<forall>b cs. b \<notin> below T p \<longrightarrow> chars_at h b cs \<longrightarrow> chars_at h' b cs) \<and>
         nodes h' a = Some m \<and> n_type m = LXB_DOM_NODE_TYPE_TEXT \<and> n_local_name m = LXB_TAG__TEXT \<and>
         map_option n_local_name (nodes h' p) = Some (n_local_name n) \<and>
         answers h' (lxb_dom_node_text_content h' p) content
      else st = LXB_STATUS_ERROR_MEMORY_ALLOCATION \<and> nodes h' = nodes h \<and> dom_wf h' T \<and>
         (\<forall>b cs. chars_at h b cs \<longrightarrow> chars_at h' b cs))"
proof -
  let ?D = "n_owner_document n" and ?N = "below T p"
  obtain ts where r: "is_rose T (Rose p ts)" and N: "set (preorders ts) = ?N" by (rule rose_at [OF assms(1)])
  have t: "char_tag LXB_TAG__TEXT LXB_DOM_NODE_TYPE_TEXT" by (simp add: char_tag_def)
  from create_chars_is [OF assms(2,1,5,6,7,6,7) t assms(9), folded lxb_dom_document_create_text_node_def] obtain q h1 where
    c: "lxb_dom_document_create_text_node h ?D content = Some (q, h1)" "attrs_wf h1 M" "dom_wf h1 T"
    "\<And>b cs. chars_at h b cs \<Longrightarrow> chars_at h1 b cs" "docs h1 = docs h"
    "case q of None \<Rightarrow> nodes h1 = nodes h
      | Some a \<Rightarrow> nodes h a = None \<and> chars_at h1 a content \<and>
          nodes h1 = (nodes h)(a \<mapsto> (zero_node ?D LXB_DOM_NODE_TYPE_TEXT)\<lparr>n_local_name := LXB_TAG__TEXT, n_ns := LXB_NS_HTML\<rparr>)" by blast
  show ?thesis
  proof (cases q)
    case None
    have "lxb_dom_node_text_content_set h p content = Some (LXB_STATUS_ERROR_MEMORY_ALLOCATION, h1)"
      using assms(3,4) c(1) None by (auto simp: lxb_dom_node_text_content_set_def)
    with c None show ?thesis by (intro exI [of _ LXB_STATUS_ERROR_MEMORY_ALLOCATION] exI [of _ h1]) auto
  next
    case (Some a)
    let ?m = "(zero_node ?D LXB_DOM_NODE_TYPE_TEXT)\<lparr>n_local_name := LXB_TAG__TEXT, n_ns := LXB_NS_HTML\<rparr>"
    from c(6) Some have a: "nodes h a = None" "chars_at h1 a content" "nodes h1 = (nodes h)(a \<mapsto> ?m)" by simp_all
    have pl: "plain_node h1 b" "b \<noteq> a" if "b \<in> ?N" for b
    proof -
      have "plain_node h b" using assms(8) that by blast
      moreover from this have "b \<noteq> a" using a(1) by (auto simp: plain_node_def)
      ultimately show "plain_node h1 b" "b \<noteq> a" by (simp_all add: plain_node_def a(3) c(5))
    qed
    have rd: "ready h1 T M ts" using c(2,3) pl(1) r N by (auto simp: ready_def simp del: set_concat)
    have "T a = []" using forest_outside [OF dom_wf_forest [OF assms(1)], of a] a(1) by auto
    moreover have "a \<noteq> p" using a(1) assms(3) by auto
    moreover have "a \<notin> set (preorders ts)" using pl(2) N by blast
    moreover have "n_parent ?m = None" "nodes h1 a = Some ?m" "p \<in> dom (nodes h1)"
      using a(3) assms(3) by (auto simp: zero_node_def)
    ultimately obtain h2 where h2: "lxb_dom_node_replace_all h1 p a = Some (LXB_STATUS_OK, h2)"
      "dom_wf h2 ((kids_without ?N T)(p := [a]))" "attrs_wf h2 M" "\<forall>b \<in> ?N. nodes h2 b = None"
      "\<And>b. b \<notin> ?N \<Longrightarrow> stays h1 h2 b" "\<And>b cs. b \<notin> ?N \<Longrightarrow> chars_at h1 b cs \<Longrightarrow> chars_at h2 b cs"
      using replace_all_is [OF rd r, of a ?m] unfolding N by blast
    have run: "lxb_dom_node_text_content_set h p content = Some (LXB_STATUS_OK, h2)"
      using assms(3,4) c(1) Some h2(1) by (auto simp: lxb_dom_node_text_content_set_def)
    have aN: "a \<notin> ?N" using pl(2) by blast
    have pN: "p \<notin> ?N" using rose_root_once [OF dom_wf_forest [OF assms(1)] r] N by blast
    have ca: "chars_at h2 a content" by (rule h2(6) [OF aN a(2)])
    have kept: "chars_at h2 b cs" if "b \<notin> ?N" "chars_at h b cs" for b cs by (rule h2(6) [OF that(1) c(4) [OF that(2)]])
    have "nodes h1 p = Some n" using a(3) assms(3) \<open>a \<noteq> p\<close> by simp
    from stays_node [OF h2(5) [OF pN] this] obtain n2 where n2: "nodes h2 p = Some n2"
      "n_type n2 \<in> {LXB_DOM_NODE_TYPE_DOCUMENT_FRAGMENT, LXB_DOM_NODE_TYPE_ELEMENT}" "n_local_name n2 = n_local_name n" using assms(4) by metis
    from stays_node [OF h2(5) [OF aN] \<open>nodes h1 a = Some ?m\<close>] obtain m2 where m2: "nodes h2 a = Some m2" "n_type m2 = LXB_DOM_NODE_TYPE_TEXT" "n_local_name m2 = LXB_TAG__TEXT"
      by (auto simp: zero_node_def)
    have r2: "is_rose ((kids_without ?N T)(p := [a])) (Rose p [Rose a []])"
      using \<open>T a = []\<close> \<open>a \<noteq> p\<close> by (simp add: kids_without_def)
    have "text_bytes h2 b content" if "b \<in> set (preorders [Rose a []])" for b using that m2 ca by (simp add: text_bytes_def)
    from text_content_is [OF h2(2) n2(1,2) r2, of "\<lambda>_. content", OF this] have "answers h2 (lxb_dom_node_text_content h2 p) content"
      using h2(3) assms(9) by (auto simp: attrs_wf_def intro: texts_wf)
    with run h2(2,3,4) a(1) ca kept m2 n2(1,3) show ?thesis
      by (intro exI [of _ LXB_STATUS_OK] exI [of _ h2]) (simp, intro exI [of _ a] exI [of _ m2], simp)
  qed
qed

section \<open>Properties\<close>

text \<open>
  C18: The getter of \<open>textContent\<close>. For an element or a fragment whose text nodes hold the characters
  \<open>txt\<close>, the answer is a new block with the characters of all text nodes below it, in document order, comments and the
  rest left out, followed by a NUL, and the length without the NUL; or NULL and length 0 exactly
  when the block is refused. No node, no string and no other block changes.
\<close>

theorem text_content_concatenates:
  assumes "dom_wf h T" and "nodes h p = Some n" and "n_type n \<in> {LXB_DOM_NODE_TYPE_DOCUMENT_FRAGMENT, LXB_DOM_NODE_TYPE_ELEMENT}"
    and "is_rose T (Rose p ts)" and "\<forall>b \<in> set (preorders ts). text_bytes h b (txt b)"
    and "ar_wf (text_arena h)" and "length (concat (map txt (preorders ts))) + 1 < 2 ^ 63"
  shows "\<exists>r len A. lxb_dom_node_text_content h p = Some (r, len, h\<lparr>text_arena := A\<rparr>) \<and> ar_wf A \<and>
     (r = None \<longleftrightarrow> ar_plan (text_arena h) (ar_reqs (text_arena h)) = None) \<and>
     (case r of
       None \<Rightarrow> len = 0 \<and> ar_blocks A = ar_blocks (text_arena h)
     | Some (t, off) \<Rightarrow> off = 0 \<and> len = length (concat (map txt (preorders ts))) \<and> ar_blocks (text_arena h) t = None \<and>
         (\<exists>rest. ar_blocks A = (ar_blocks (text_arena h))(t \<mapsto> concat (map txt (preorders ts)) @ 0 # rest)))"
  using text_content_is [OF assms(1-4) _ assms(6,7)] assms(5) unfolding answers_def by blast

text \<open>
  C15: The setter of \<open>textContent\<close> and the getter after it. For an element or a fragment of a well-formed
  HTML document whose descendants are text, comments and HTML elements other than templates, the setter always
  returns. With status OK, the former descendants are freed, the only child is a new text node
  with exactly the characters given, and the getter answers these characters. Otherwise the memory was refused, and no node
  has changed. In both cases the result is well formed, and the attributes of all elements and the characters of all
  other nodes are kept.
\<close>

theorem text_content_set_get:
  assumes "dom_wf h T" and "attrs_wf h M" and "nodes h p = Some n"
    and "n_type n \<in> {LXB_DOM_NODE_TYPE_DOCUMENT_FRAGMENT, LXB_DOM_NODE_TYPE_ELEMENT}"
    and "doc_for h (n_owner_document n) (n_owner_document n)" and "docs h (n_owner_document n) = Some d" and "doc_interfaces d = Html_interface"
    and "\<forall>b \<in> below T p. plain_node h b" and "length content + 1 < 2 ^ 63"
  shows "\<exists>st h'. lxb_dom_node_text_content_set h p content = Some (st, h') \<and> attrs_wf h' M \<and>
     (if st = LXB_STATUS_OK
      then \<exists>a. nodes h a = None \<and> dom_wf h' ((kids_without (below T p) T)(p := [a])) \<and> chars_at h' a content \<and>
         (\<forall>b \<in> below T p. nodes h' b = None) \<and> (\<forall>b cs. b \<notin> below T p \<longrightarrow> chars_at h b cs \<longrightarrow> chars_at h' b cs) \<and>
         answers h' (lxb_dom_node_text_content h' p) content
      else st = LXB_STATUS_ERROR_MEMORY_ALLOCATION \<and> nodes h' = nodes h \<and> dom_wf h' T \<and>
         (\<forall>b cs. chars_at h b cs \<longrightarrow> chars_at h' b cs))"
proof -
  from text_content_set_is [OF assms] obtain st h' where "lxb_dom_node_text_content_set h p content = Some (st, h')" "attrs_wf h' M"
    "if st = LXB_STATUS_OK
      then \<exists>a m. nodes h a = None \<and> dom_wf h' ((kids_without (below T p) T)(p := [a])) \<and> chars_at h' a content \<and>
         (\<forall>b \<in> below T p. nodes h' b = None) \<and> (\<forall>b cs. b \<notin> below T p \<longrightarrow> chars_at h b cs \<longrightarrow> chars_at h' b cs) \<and>
         nodes h' a = Some m \<and> n_type m = LXB_DOM_NODE_TYPE_TEXT \<and> n_local_name m = LXB_TAG__TEXT \<and>
         map_option n_local_name (nodes h' p) = Some (n_local_name n) \<and>
         answers h' (lxb_dom_node_text_content h' p) content
      else st = LXB_STATUS_ERROR_MEMORY_ALLOCATION \<and> nodes h' = nodes h \<and> dom_wf h' T \<and>
         (\<forall>b cs. chars_at h b cs \<longrightarrow> chars_at h' b cs)" by (elim exE conjE) rule
  then show ?thesis by (intro exI [of _ st] exI [of _ h']) (auto split: if_splits)
qed

text \<open>
  C30: Setting the text of a text node, a comment or a processing instruction to as many characters as the block of its
  old string has bytes. The test \<open>lexbor_str_size < len\<close> finds the block large enough, and the NUL is stored one
  byte behind it: the run has no defined result.
\<close>

theorem text_content_set_overrun:
  assumes "nodes h a = Some n"
    and "n_type n \<in> {LXB_DOM_NODE_TYPE_TEXT, LXB_DOM_NODE_TYPE_PROCESSING_INSTRUCTION, LXB_DOM_NODE_TYPE_COMMENT}"
    and "chardata h a = Some s" and "str_data s = Some p" and "ar_blocks (text_arena h) p = Some b" and "length content = length b"
  shows "lxb_dom_node_text_content_set h a content = None"
proof -
  have "replace_room h a (length content) = Some (True, h\<lparr>chardata := (chardata h)(a \<mapsto> s), text_arena := text_arena h\<rparr>)"
    using assms(3-6) by (simp add: replace_room_def lexbor_str_size_def lexbor_mraw_data_size_def)
  moreover have "blk_write (text_arena h) (Some p) 0 content = Some (with_block (text_arena h) p content)"
    using assms(5,6) by (auto simp: blk_write_def with_block_def fun_upd_idem)
  moreover have "blk_write (with_block (text_arena h) p content) (Some p) (length content) [0] = None"
    by (simp add: blk_write_def)
  ultimately have "lxb_dom_character_data_replace h a content = None"
    using assms(4) by (simp add: lxb_dom_character_data_replace_def)
  with assms(1,2) show ?thesis by (auto simp: lxb_dom_node_text_content_set_def)
qed

lemma text_content_set_overrun_witness:
  "lxb_dom_node_text_content_set (sample_plan (\<lambda>_. None)) 4 (replicate 8 0x41) = None"
  by (rule text_content_set_overrun [of _ _ "sample_node LXB_DOM_NODE_TYPE_TEXT 2 (Some 3) None (Some 5) None None"
        "\<lparr>str_data = Some 100, str_length = 2\<rparr>" 100 "[0x20, 0x0A, 0, 0, 0, 0, 0, 0]"])
    (simp_all add: sample_nodes_def sample_dom_def sample_node_def)

text \<open>
  Every other length is fine: the setter on such a node returns, and with status OK the node holds exactly
  the characters given, and the getter answers them; otherwise memory was refused and the node keeps its
  characters. The tree, all attributes and the characters of the other nodes are kept.
\<close>

theorem text_content_set_chars:
  assumes "dom_wf h T" and "attrs_wf h M" and "nodes h a = Some n"
    and "n_type n \<in> {LXB_DOM_NODE_TYPE_TEXT, LXB_DOM_NODE_TYPE_PROCESSING_INSTRUCTION, LXB_DOM_NODE_TYPE_COMMENT}"
    and "chardata h a = Some s" and "length content + 1 < 2 ^ 63"
    and "\<forall>p b. str_data s = Some p \<longrightarrow> ar_blocks (text_arena h) p = Some b \<longrightarrow> length b \<noteq> length content"
  shows "\<exists>st h'. lxb_dom_node_text_content_set h a content = Some (st, h') \<and> dom_wf h' T \<and> attrs_wf h' M \<and> nodes h' = nodes h \<and>
     (\<forall>b cs. b \<noteq> a \<longrightarrow> chars_at h b cs \<longrightarrow> chars_at h' b cs) \<and>
     (if st = LXB_STATUS_OK then chars_at h' a content \<and> answers h' (lxb_dom_node_text_content h' a) content
      else st = LXB_STATUS_ERROR_MEMORY_ALLOCATION \<and> (\<forall>cs. chars_at h a cs \<longrightarrow> chars_at h' a cs))"
proof -
  from character_data_replace_is [OF assms(1,2,5,6)] assms(7) obtain st h' where
    r: "lxb_dom_character_data_replace h a content = Some (st, h')" "dom_wf h' T" "attrs_wf h' M" "nodes h' = nodes h"
    "\<forall>b xs. b \<noteq> a \<longrightarrow> chars_at h b xs \<longrightarrow> chars_at h' b xs"
    "if st = LXB_STATUS_OK then chars_at h' a content
     else st = LXB_STATUS_ERROR_MEMORY_ALLOCATION \<and> (\<forall>xs. chars_at h a xs \<longrightarrow> chars_at h' a xs)" by blast
  have run: "lxb_dom_node_text_content_set h a content = Some (st, h')"
    using assms(3,4) r(1) by (auto simp: lxb_dom_node_text_content_set_def)
  have "answers h' (lxb_dom_node_text_content h' a) content" if "st = LXB_STATUS_OK"
    using text_content_chars_is [OF r(2) _ assms(4), of a content] that r assms(3,6)
    by (auto simp: attrs_wf_def intro: texts_wf)
  with run r show ?thesis by (intro exI [of _ st] exI [of _ h']) simp
qed

lemma text_content_set_chars_witness:
  "\<exists>st h'. lxb_dom_node_text_content_set (sample_plan (\<lambda>_. None)) 4 [0x61, 0x62] = Some (st, h') \<and> dom_wf h' sample_kids"
proof -
  have n: "nodes (sample_plan (\<lambda>_. None)) 4 = Some (sample_node LXB_DOM_NODE_TYPE_TEXT 2 (Some 3) None (Some 5) None None)"
    by (simp add: sample_nodes_def)
  have c: "chardata (sample_plan (\<lambda>_. None)) 4 = Some \<lparr>str_data = Some 100, str_length = 2\<rparr>"
    "ar_blocks (text_arena (sample_plan (\<lambda>_. None))) 100 = Some [0x20, 0x0A, 0, 0, 0, 0, 0, 0]" by (simp_all add: sample_dom_def)
  from text_content_set_chars [OF plan_wf sample_attrs_wf n _ c(1), of "[0x61, 0x62]"] c(2) show ?thesis
    by (auto simp: sample_node_def)
qed

lemma text_content_concatenates_witness:
  "\<exists>t len h'. lxb_dom_node_text_content (sample_plan (\<lambda>_. Some (0, False))) 3 = Some (Some (t, 0), len, h') \<and> len = 2"
proof -
  let ?h = "sample_plan (\<lambda>_. Some (0, False))"
  have n: "nodes ?h 3 = Some (sample_node LXB_DOM_NODE_TYPE_ELEMENT 102 (Some 2) None (Some 6) (Some 4) (Some 5))" by (simp add: sample_nodes_def)
  have r: "is_rose sample_kids (Rose 3 [Rose 4 [], Rose 5 []])" by (simp add: sample_kids_def)
  have tx: "\<forall>b \<in> set (preorders [Rose 4 [], Rose 5 []]). text_bytes ?h b (if b = 4 then [0x20, 0x0A] else [])"
    by (auto simp: text_bytes_def sample_nodes_def sample_node_def chars_at_def sample_dom_def str_is_def)
  have wf: "ar_wf (text_arena ?h)" using sample_attrs_wf texts_wf unfolding attrs_wf_def by blast
  have pl: "ar_plan (text_arena ?h) (ar_reqs (text_arena ?h)) \<noteq> None" by (simp add: sample_plan_def)
  from text_content_concatenates [OF plan_wf n _ r tx wf] pl show ?thesis
    by (auto simp: sample_node_def split: option.splits)
qed

lemma text_content_set_get_witness:
  "\<exists>st h'. lxb_dom_node_text_content_set (sample_plan (\<lambda>_. Some (0, False))) 3 [0x61] = Some (st, h') \<and> attrs_wf h' sample_attrs"
proof -
  let ?h = "sample_plan (\<lambda>_. Some (0, False))"
  have n: "nodes ?h 3 = Some (sample_node LXB_DOM_NODE_TYPE_ELEMENT 102 (Some 2) None (Some 6) (Some 4) (Some 5))" by (simp add: sample_nodes_def)
  have pl: "\<forall>b \<in> below sample_kids 3. plain_node ?h b" unfolding sample_below using sample_plain by simp
  have o: "n_owner_document (sample_node LXB_DOM_NODE_TYPE_ELEMENT 102 (Some 2) None (Some 6) (Some 4) (Some 5)) = 1"
    "n_type (sample_node LXB_DOM_NODE_TYPE_ELEMENT 102 (Some 2) None (Some 6) (Some 4) (Some 5)) = LXB_DOM_NODE_TYPE_ELEMENT"
    by (simp_all add: sample_node_def)
  from text_content_set_get [OF plan_wf sample_attrs_wf n, unfolded o, OF _ sample_doc_for pl, of "[0x61]"] show ?thesis by auto
qed

end
