(* ===== verification/Html_Serialize.thy ===== *)
theory Html_Serialize
  imports Html_Escape Dom_Text
begin

text \<open>
  The HTML serializer (lexbor/html/serialize.c, html/node.h), which \<open>qb_serialize_tree\<close> and with it
  innerHTML and outerHTML call: nodes in document order through a callback, the content of a template
  before its children. The specification is a tree of markup and its printer; the loops of the source
  hand exactly the printed bytes to the callback.

  The callback has a context of its own: it does not write to the document, as the callback of the
  bridge's client, which appends to a list, does not.
\<close>

section \<open>Names\<close>

definition lxb_dom_element_qualified_name :: "dom \<Rightarrow> addr \<Rightarrow> bytes option" where
  "lxb_dom_element_qualified_name h element = do {
     n \<leftarrow> nodes h element;
     e \<leftarrow> elements h element;
     doc \<leftarrow> owner_doc h element;
     hash \<leftarrow> hashes h (doc_tags doc);
     data \<leftarrow> lxb_tag_data_by_id (if el_qualified_name e \<noteq> 0 then el_qualified_name e else n_local_name n);
     ptr_str lxb_tag_res_data_default hash data }"

definition lxb_dom_document_type_name :: "dom \<Rightarrow> addr \<Rightarrow> bytes option" where
  "lxb_dom_document_type_name h doctype = do {
     dt \<leftarrow> doctypes h doctype;
     doc \<leftarrow> owner_doc h doctype;
     hash \<leftarrow> hashes h (doc_attrs doc);
     (case lxb_dom_attr_data_by_id (dt_name dt) of
        None \<Rightarrow> Some []
      | Some data \<Rightarrow> if dt_name dt = 0 then Some [] else ptr_str lxb_dom_attr_res_data_default hash data) }"

text \<open>
  Void elements: area, base, basefont, bgsound, br, col, embed, frame, hr, img, input, keygen, link, meta,
  param, source, track and wbr. Elements whose text is not escaped: style, script, xmp, iframe, noembed,
  noframes and plaintext, and noscript when scripting is on.
\<close>

definition void_tags :: "nat list" where
  "void_tags = [0x12, 0x17, 0x18, 0x1b, 0x20, 0x28, 0x37, 0x58, 0x64, 0x69, 0x6a, 0x6e, 0x73, 0x7c, 0x92, 0xa8, 0xbe, 0xc4]"

definition raw_text_tags :: "nat list" where
  "raw_text_tags = [0xad, 0xa1, 0xc5, 0x67, 0x89, 0x8a, 0x95]"

definition LXB_TAG_NOSCRIPT :: nat where "LXB_TAG_NOSCRIPT = 0x8b"
definition LXB_NS_XLINK :: nat where "LXB_NS_XLINK = 5"
definition LXB_NS_XML :: nat where "LXB_NS_XML = 6"
definition LXB_NS_XMLNS :: nat where "LXB_NS_XMLNS = 7"

definition lxb_html_node_is_void :: "lxb_dom_node \<Rightarrow> bool" where
  "lxb_html_node_is_void n \<longleftrightarrow> n_ns n = LXB_NS_HTML \<and> n_local_name n \<in> set void_tags"

definition lxb_html_tree_node_is :: "lxb_dom_node \<Rightarrow> nat \<Rightarrow> bool" where
  "lxb_html_tree_node_is n tag_id \<longleftrightarrow> n_local_name n = tag_id \<and> n_ns n = LXB_NS_HTML"

section \<open>One node\<close>

text \<open>What a \<open>lexbor_str_t\<close> hands to the callback.\<close>

definition str_bytes :: "dom \<Rightarrow> lexbor_str \<Rightarrow> bytes option" where
  "str_bytes h s = blk_read (text_arena h) (str_data s) 0 (str_length s)"

text \<open>The name of an attribute, with the prefix its namespace stands for; \<open>data->entry\<close> is its local name.\<close>

definition attribute_name :: "dom \<Rightarrow> 'c callback \<Rightarrow> addr \<Rightarrow> bytes \<Rightarrow> 'c \<Rightarrow> (lxb_status \<times> 'c) option" where
  "attribute_name h cb attr name c = do {
     n \<leftarrow> nodes h attr;
     (if n_ns n = LXB_NS__UNDEF then cb name c
      else if n_ns n = LXB_NS_XML then checked (cb (ascii ''xml:'') c) (cb name)
      else if n_ns n = LXB_NS_XMLNS then do {
        is_xmlns \<leftarrow> (if length name = 5 then lexbor_str_data_cmp (name @ [0]) (ascii ''xmlns'' @ [0]) else Some False);
        (if is_xmlns then cb (ascii ''xmlns'') c
         else checked (cb (ascii ''xmlns:'') c) (cb name)) }
      else if n_ns n = LXB_NS_XLINK then checked (cb (ascii ''xlink:'') c) (cb name)
      else do {
        str \<leftarrow> lxb_dom_attr_qualified_name h attr;
        cb str c }) }"

definition lxb_html_serialize_attribute_cb :: "dom \<Rightarrow> 'c callback \<Rightarrow> addr \<Rightarrow> bool \<Rightarrow> 'c \<Rightarrow> (lxb_status \<times> 'c) option" where
  "lxb_html_serialize_attribute_cb h cb attr has_raw c = do {
     n \<leftarrow> nodes h attr;
     x \<leftarrow> attributes h attr;
     doc \<leftarrow> owner_doc h attr;
     hash \<leftarrow> hashes h (doc_attrs doc);
     (case lxb_dom_attr_data_by_id (n_local_name n) of
        None \<Rightarrow> Some (LXB_STATUS_ERROR, c)
      | Some data \<Rightarrow> do {
          name \<leftarrow> ptr_str lxb_dom_attr_res_data_default hash data;
          checked (attribute_name h cb attr name c) (\<lambda>c.
            (case at_value x of
               None \<Rightarrow> cb (ascii ''='' @ [0x22, 0x22]) c
             | Some v \<Rightarrow> do {
                 bs \<leftarrow> str_bytes h v;
                 checked (cb (ascii ''='' @ [0x22]) c) (\<lambda>c.
                 checked (if has_raw then cb bs c else lxb_html_serialize_send_escaping_attribute_string cb bs c) (\<lambda>c.
                 cb [0x22] c)) })) }) }"

partial_function (option) attributes_loop :: "dom \<Rightarrow> 'c callback \<Rightarrow> addr option \<Rightarrow> 'c \<Rightarrow> (lxb_status \<times> 'c) option" where
  [code]: "attributes_loop h cb attr c = (case attr of
     None \<Rightarrow> Some (LXB_STATUS_OK, c)
   | Some a \<Rightarrow> checked (cb (ascii '' '') c) (\<lambda>c.
       checked (lxb_html_serialize_attribute_cb h cb a False c) (\<lambda>c. do {
       x \<leftarrow> attributes h a;
       attributes_loop h cb (at_next x) c })))"

text \<open>The \<open>is\<close> value of a customized element, when no attribute says it.\<close>

definition send_is_value :: "dom \<Rightarrow> 'c callback \<Rightarrow> addr \<Rightarrow> 'c \<Rightarrow> (lxb_status \<times> 'c) option" where
  "send_is_value h cb element c = do {
     e \<leftarrow> elements h element;
     (case el_is_value e of
        None \<Rightarrow> Some (LXB_STATUS_OK, c)
      | Some v \<Rightarrow> if str_data v = None then Some (LXB_STATUS_OK, c) else do {
          attr \<leftarrow> lxb_dom_element_attr_is_exist h element (ascii ''is'');
          (if attr \<noteq> None then Some (LXB_STATUS_OK, c) else do {
             bs \<leftarrow> str_bytes h v;
             checked (cb (ascii '' is='' @ [0x22]) c) (\<lambda>c.
             checked (lxb_html_serialize_send_escaping_attribute_string cb bs c) (\<lambda>c.
             cb [0x22] c)) }) }) }"

definition lxb_html_serialize_element_cb :: "dom \<Rightarrow> 'c callback \<Rightarrow> addr \<Rightarrow> 'c \<Rightarrow> (lxb_status \<times> 'c) option" where
  "lxb_html_serialize_element_cb h cb element c = do {
     tag_name \<leftarrow> lxb_dom_element_qualified_name h element;
     e \<leftarrow> elements h element;
     checked (cb (ascii ''<'') c) (\<lambda>c.
     checked (cb tag_name c) (\<lambda>c.
     checked (send_is_value h cb element c) (\<lambda>c.
     checked (attributes_loop h cb (el_first_attr e) c) (\<lambda>c.
     cb (ascii ''>'') c)))) }"

definition lxb_html_serialize_element_closed_cb :: "dom \<Rightarrow> 'c callback \<Rightarrow> addr \<Rightarrow> 'c \<Rightarrow> (lxb_status \<times> 'c) option" where
  "lxb_html_serialize_element_closed_cb h cb element c = do {
     tag_name \<leftarrow> lxb_dom_element_qualified_name h element;
     checked (cb (ascii ''</'') c) (\<lambda>c.
     checked (cb tag_name c) (\<lambda>c.
     cb (ascii ''>'') c)) }"

text \<open>Whether the text of a node is sent as it is.\<close>

definition raw_text :: "dom \<Rightarrow> addr \<Rightarrow> bool option" where
  "raw_text h text = do {
     n \<leftarrow> nodes h text;
     (case n_parent n of
        None \<Rightarrow> Some False
      | Some p \<Rightarrow> do {
          m \<leftarrow> nodes h p;
          (if n_local_name m \<in> set raw_text_tags then Some True
           else if n_local_name m = LXB_TAG_NOSCRIPT then do { doc \<leftarrow> owner_doc h text; Some (doc_scripting doc) }
           else Some False) }) }"

definition lxb_html_serialize_text_cb :: "dom \<Rightarrow> 'c callback \<Rightarrow> addr \<Rightarrow> 'c \<Rightarrow> (lxb_status \<times> 'c) option" where
  "lxb_html_serialize_text_cb h cb text c = do {
     data \<leftarrow> chardata h text;
     bs \<leftarrow> str_bytes h data;
     raw \<leftarrow> raw_text h text;
     (if raw then cb bs c else lxb_html_serialize_send_escaping_string cb bs c) }"

definition lxb_html_serialize_comment_cb :: "dom \<Rightarrow> 'c callback \<Rightarrow> addr \<Rightarrow> 'c \<Rightarrow> (lxb_status \<times> 'c) option" where
  "lxb_html_serialize_comment_cb h cb comment c = do {
     data \<leftarrow> chardata h comment;
     bs \<leftarrow> str_bytes h data;
     checked (cb (ascii ''<!--'') c) (\<lambda>c.
     checked (cb bs c) (\<lambda>c.
     cb (ascii ''-->'') c)) }"

definition lxb_html_serialize_processing_instruction_cb :: "dom \<Rightarrow> 'c callback \<Rightarrow> addr \<Rightarrow> 'c \<Rightarrow> (lxb_status \<times> 'c) option" where
  "lxb_html_serialize_processing_instruction_cb h cb pi c = do {
     data \<leftarrow> chardata h pi;
     bs \<leftarrow> str_bytes h data;
     target \<leftarrow> pi_targets h pi;
     ts \<leftarrow> str_bytes h target;
     checked (cb (ascii ''<?'') c) (\<lambda>c.
     checked (cb ts c) (\<lambda>c.
     checked (cb (ascii '' '') c) (\<lambda>c.
     checked (cb bs c) (\<lambda>c.
     cb (ascii ''>'') c)))) }"

definition lxb_html_serialize_document_type_cb :: "dom \<Rightarrow> 'c callback \<Rightarrow> addr \<Rightarrow> 'c \<Rightarrow> (lxb_status \<times> 'c) option" where
  "lxb_html_serialize_document_type_cb h cb doctype c =
     checked (cb (ascii ''<!DOCTYPE'') c) (\<lambda>c.
     checked (cb (ascii '' '') c) (\<lambda>c. do {
     name \<leftarrow> lxb_dom_document_type_name h doctype;
     checked (if length name \<noteq> 0 then cb name c else Some (LXB_STATUS_OK, c)) (\<lambda>c.
     cb (ascii ''>'') c) }))"

definition lxb_html_serialize_document_cb :: "'c callback \<Rightarrow> 'c \<Rightarrow> (lxb_status \<times> 'c) option" where
  "lxb_html_serialize_document_cb cb c = cb (ascii ''<#document>'') c"

definition lxb_html_serialize_cb :: "dom \<Rightarrow> 'c callback \<Rightarrow> addr \<Rightarrow> 'c \<Rightarrow> (lxb_status \<times> 'c) option" where
  "lxb_html_serialize_cb h cb node c = do {
     n \<leftarrow> nodes h node;
     (case n_type n of
        LXB_DOM_NODE_TYPE_ELEMENT \<Rightarrow> lxb_html_serialize_element_cb h cb node c
      | LXB_DOM_NODE_TYPE_TEXT \<Rightarrow> lxb_html_serialize_text_cb h cb node c
      | LXB_DOM_NODE_TYPE_COMMENT \<Rightarrow> lxb_html_serialize_comment_cb h cb node c
      | LXB_DOM_NODE_TYPE_PROCESSING_INSTRUCTION \<Rightarrow> lxb_html_serialize_processing_instruction_cb h cb node c
      | LXB_DOM_NODE_TYPE_DOCUMENT_TYPE \<Rightarrow> lxb_html_serialize_document_type_cb h cb node c
      | LXB_DOM_NODE_TYPE_DOCUMENT \<Rightarrow> lxb_html_serialize_document_cb cb c
      | _ \<Rightarrow> Some (LXB_STATUS_ERROR, c)) }"

section \<open>The tree\<close>

definition close_node :: "dom \<Rightarrow> 'c callback \<Rightarrow> addr \<Rightarrow> 'c \<Rightarrow> (lxb_status \<times> 'c) option" where
  "close_node h cb node c = do {
     n \<leftarrow> nodes h node;
     (if n_type n = LXB_DOM_NODE_TYPE_ELEMENT \<and> \<not> lxb_html_node_is_void n
      then lxb_html_serialize_element_closed_cb h cb node c else Some (LXB_STATUS_OK, c)) }"

text \<open>Upwards as long as the node is the last child, closing on the way.\<close>

partial_function (option) close_loop :: "dom \<Rightarrow> 'c callback \<Rightarrow> addr \<Rightarrow> addr \<Rightarrow> 'c \<Rightarrow> (lxb_status \<times> addr \<times> 'c) option" where
  [code]: "close_loop h cb root node c = (if node = root then Some (LXB_STATUS_OK, node, c) else do {
     n \<leftarrow> nodes h node;
     (if n_next n \<noteq> None then Some (LXB_STATUS_OK, node, c) else do {
        (status, c) \<leftarrow> close_node h cb node c;
        (if status \<noteq> LXB_STATUS_OK then Some (status, node, c) else do {
           p \<leftarrow> n_parent n;
           close_loop h cb root p c }) }) })"

text \<open>
  \<open>lxb_html_serialize_node_cb\<close> and \<open>lxb_html_serialize_deep_cb\<close> call each other (for the content of a template):
  the loop of the first, at a node below its root, and the loop of the second, over a list of siblings, as one
  function.
\<close>

datatype serialize_at = Node_loop addr addr | Sibling_loop "addr option"

definition template_first :: "dom \<Rightarrow> addr \<Rightarrow> addr option option" where
  "template_first h node = do {
     n \<leftarrow> nodes h node;
     (if lxb_html_tree_node_is n LXB_TAG_TEMPLATE then do {
        content \<leftarrow> template_contents h node;
        (case content of
           None \<Rightarrow> Some None
         | Some f \<Rightarrow> do { m \<leftarrow> nodes h f; Some (n_first_child m) }) }
      else Some None) }"

partial_function (option) serialize_loop :: "dom \<Rightarrow> 'c callback \<Rightarrow> serialize_at \<Rightarrow> 'c \<Rightarrow> (lxb_status \<times> 'c) option" where
  [code]: "serialize_loop h cb at c = (case at of
     Sibling_loop node \<Rightarrow> (case node of
       None \<Rightarrow> Some (LXB_STATUS_OK, c)
     | Some a \<Rightarrow> checked (serialize_loop h cb (Node_loop a a) c) (\<lambda>c. do {
         n \<leftarrow> nodes h a;
         serialize_loop h cb (Sibling_loop (n_next n)) c }))
   | Node_loop root node \<Rightarrow> checked (lxb_html_serialize_cb h cb node c) (\<lambda>c. do {
       first \<leftarrow> template_first h node;
       checked (if first \<noteq> None then serialize_loop h cb (Sibling_loop first) c else Some (LXB_STATUS_OK, c)) (\<lambda>c. do {
       n \<leftarrow> nodes h node;
       (if \<not> lxb_html_node_is_void n \<and> n_first_child n \<noteq> None
        then do { x \<leftarrow> n_first_child n; serialize_loop h cb (Node_loop root x) c }
        else do {
          (status, node, c) \<leftarrow> close_loop h cb root node c;
          (if status \<noteq> LXB_STATUS_OK then Some (status, c)
           else checked (close_node h cb node c) (\<lambda>c.
             if node = root then Some (LXB_STATUS_OK, c)
             else do {
               n \<leftarrow> nodes h node;
               x \<leftarrow> n_next n;
               serialize_loop h cb (Node_loop root x) c })) }) }) }))"

definition lxb_html_serialize_node_cb :: "dom \<Rightarrow> 'c callback \<Rightarrow> addr \<Rightarrow> 'c \<Rightarrow> (lxb_status \<times> 'c) option" where
  "lxb_html_serialize_node_cb h cb node = serialize_loop h cb (Node_loop node node)"

definition lxb_html_serialize_deep_cb :: "dom \<Rightarrow> 'c callback \<Rightarrow> addr \<Rightarrow> 'c \<Rightarrow> (lxb_status \<times> 'c) option" where
  "lxb_html_serialize_deep_cb h cb node c = do {
     n \<leftarrow> nodes h node;
     serialize_loop h cb (Sibling_loop (n_first_child n)) c }"

definition lxb_html_serialize_tree_cb :: "dom \<Rightarrow> 'c callback \<Rightarrow> addr \<Rightarrow> 'c \<Rightarrow> (lxb_status \<times> 'c) option" where
  "lxb_html_serialize_tree_cb h cb node c = do {
     n \<leftarrow> nodes h node;
     (if n_local_name n = LXB_TAG__DOCUMENT then serialize_loop h cb (Sibling_loop (n_first_child n)) c
      else lxb_html_serialize_node_cb h cb node c) }"

text \<open>The entry point of the bridge.\<close>

definition qb_serialize_tree :: "dom \<Rightarrow> addr \<Rightarrow> 'c callback \<Rightarrow> 'c \<Rightarrow> (lxb_status \<times> 'c) option" where
  "qb_serialize_tree h node cb ctx = lxb_html_serialize_tree_cb h cb node ctx"

section \<open>Markup and its printer\<close>

datatype markup =
    Element (name_of: bytes) (is_of: "bytes option") (attrs_of: "(bytes \<times> bytes option) list") (void_of: bool)
      (content_of: "markup list") (kids_of: "markup list")
  | Text (raw_of: bool) bytes
  | Comment bytes
  | Instruction bytes bytes
  | Doctype bytes

definition quoted :: "bytes \<Rightarrow> bytes" where
  "quoted s = ascii ''='' @ [0x22] @ escape True s @ [0x22]"

definition print_attr :: "bytes \<times> bytes option \<Rightarrow> bytes" where
  "print_attr kv = ascii '' '' @ fst kv @ quoted (case snd kv of None \<Rightarrow> [] | Some v \<Rightarrow> v)"

definition open_tag :: "bytes \<Rightarrow> bytes option \<Rightarrow> (bytes \<times> bytes option) list \<Rightarrow> bytes" where
  "open_tag nm i as = ascii ''<'' @ nm @ (case i of None \<Rightarrow> [] | Some v \<Rightarrow> ascii '' is'' @ quoted v) @
     concat (map print_attr as) @ ascii ''>''"

definition close_tag :: "bytes \<Rightarrow> bytes" where
  "close_tag nm = ascii ''</'' @ nm @ ascii ''>''"

fun leaf :: "markup \<Rightarrow> bytes" where
  "leaf (Text raw s) = (if raw then s else escape False s)"
| "leaf (Comment s) = ascii ''<!--'' @ s @ ascii ''-->''"
| "leaf (Instruction t s) = ascii ''<?'' @ t @ ascii '' '' @ s @ ascii ''>''"
| "leaf (Doctype nm) = ascii ''<!DOCTYPE'' @ ascii '' '' @ nm @ ascii ''>''"
| "leaf (Element nm i as v ct ks) = open_tag nm i as"

fun closing :: "markup \<Rightarrow> bytes" where
  "closing (Element nm i as v ct ks) = (if v then [] else close_tag nm)"
| "closing _ = []"

text \<open>The printer; \<open>inside\<close> is a node without its closing tag.\<close>

fun inside :: "markup \<Rightarrow> bytes" and prints :: "markup list \<Rightarrow> bytes" where
  "inside (Element nm i as v ct ks) = open_tag nm i as @ prints ct @ (if v then [] else prints ks)"
| "inside (Text raw s) = leaf (Text raw s)"
| "inside (Comment s) = leaf (Comment s)"
| "inside (Instruction t s) = leaf (Instruction t s)"
| "inside (Doctype nm) = leaf (Doctype nm)"
| "prints [] = []"
| "prints (t # ts) = inside t @ closing t @ prints ts"

definition print_markup :: "markup \<Rightarrow> bytes" where
  "print_markup t = inside t @ closing t"

section \<open>Markup in the heap\<close>

text \<open>The printed name of an attribute with namespace \<open>ns\<close>, local name \<open>l\<close> and qualified name \<open>q\<close>.\<close>

definition printed_name :: "nat \<Rightarrow> bytes \<Rightarrow> bytes \<Rightarrow> bytes" where
  "printed_name ns l q =
     (if ns = LXB_NS__UNDEF then l else if ns = LXB_NS_XML then ascii ''xml:'' @ l
      else if ns = LXB_NS_XMLNS then (if l = ascii ''xmlns'' then l else ascii ''xmlns:'' @ l)
      else if ns = LXB_NS_XLINK then ascii ''xlink:'' @ l else q)"

definition attr_at :: "dom \<Rightarrow> addr \<Rightarrow> bytes \<times> bytes option \<Rightarrow> bool" where
  "attr_at h a kv \<longleftrightarrow> (\<exists>n x l q. nodes h a = Some n \<and> attributes h a = Some x \<and>
     lxb_dom_attr_local_name h a = Some l \<and> 0 \<notin> set l \<and> lxb_dom_attr_qualified_name h a = Some q \<and>
     fst kv = printed_name (n_ns n) l q \<and>
     (case at_value x of None \<Rightarrow> snd kv = None | Some v \<Rightarrow> (\<exists>cs. snd kv = Some cs \<and> str_is (text_arena h) v cs)))"

fun attrs_at :: "dom \<Rightarrow> addr option \<Rightarrow> (bytes \<times> bytes option) list \<Rightarrow> bool" where
  "attrs_at h p [] \<longleftrightarrow> p = None"
| "attrs_at h p (kv # kvs) \<longleftrightarrow> (\<exists>a x. p = Some a \<and> attr_at h a kv \<and> attributes h a = Some x \<and> attrs_at h (at_next x) kvs)"

definition is_at :: "dom \<Rightarrow> addr \<Rightarrow> lxb_dom_element \<Rightarrow> bytes option \<Rightarrow> bool" where
  "is_at h a e i \<longleftrightarrow> (case el_is_value e of
     None \<Rightarrow> i = None
   | Some v \<Rightarrow> (if str_data v = None then i = None else
      (\<exists>r cs. lxb_dom_element_attr_is_exist h a (ascii ''is'') = Some r \<and> str_is (text_arena h) v cs \<and>
         i = (if r = None then Some cs else None))))"

text \<open>The children of the content, if \<open>a\<close> is a template.\<close>

definition contents :: "dom \<Rightarrow> kids \<Rightarrow> addr \<Rightarrow> lxb_dom_node \<Rightarrow> addr list option" where
  "contents h T a n =
     (if lxb_html_tree_node_is n LXB_TAG_TEMPLATE
      then (case template_contents h a of
              None \<Rightarrow> None
            | Some None \<Rightarrow> Some []
            | Some (Some f) \<Rightarrow> if f \<in> dom (nodes h) then Some (T f) else None)
      else Some [])"

definition plain_kind :: "dom \<Rightarrow> kids \<Rightarrow> addr \<Rightarrow> lxb_dom_node_type \<Rightarrow> bool" where
  "plain_kind h T a t \<longleftrightarrow> T a = [] \<and> (\<exists>n. nodes h a = Some n \<and> n_type n = t \<and> \<not> lxb_html_tree_node_is n LXB_TAG_TEMPLATE)"

fun markup_at :: "dom \<Rightarrow> kids \<Rightarrow> addr \<Rightarrow> markup \<Rightarrow> bool" and markups_at :: "dom \<Rightarrow> kids \<Rightarrow> addr list \<Rightarrow> markup list \<Rightarrow> bool" where
  "markup_at h T a (Element nm i as v ct ks) \<longleftrightarrow>
     (\<exists>n e. nodes h a = Some n \<and> n_type n = LXB_DOM_NODE_TYPE_ELEMENT \<and> elements h a = Some e \<and>
        lxb_dom_element_qualified_name h a = Some nm \<and> is_at h a e i \<and> attrs_at h (el_first_attr e) as \<and>
        v = lxb_html_node_is_void n \<and>
        (\<exists>as. contents h T a n = Some as \<and> markups_at h T as ct)) \<and>
     (if v then ks = [] else markups_at h T (T a) ks)"
| "markup_at h T a (Text raw s) \<longleftrightarrow> plain_kind h T a LXB_DOM_NODE_TYPE_TEXT \<and> chars_at h a s \<and> raw_text h a = Some raw"
| "markup_at h T a (Comment s) \<longleftrightarrow> plain_kind h T a LXB_DOM_NODE_TYPE_COMMENT \<and> chars_at h a s"
| "markup_at h T a (Instruction t s) \<longleftrightarrow> plain_kind h T a LXB_DOM_NODE_TYPE_PROCESSING_INSTRUCTION \<and> chars_at h a s \<and>
     (\<exists>x. pi_targets h a = Some x \<and> str_is (text_arena h) x t)"
| "markup_at h T a (Doctype nm) \<longleftrightarrow> plain_kind h T a LXB_DOM_NODE_TYPE_DOCUMENT_TYPE \<and> lxb_dom_document_type_name h a = Some nm"
| "markups_at h T as [] \<longleftrightarrow> as = []"
| "markups_at h T as (t # ts) \<longleftrightarrow> (\<exists>a bs. as = a # bs \<and> markup_at h T a t \<and> markups_at h T bs ts)"

section \<open>What one node emits\<close>

lemma str_bytes_is: "str_is (text_arena h) s cs \<Longrightarrow> str_bytes h s = Some cs"
  by (auto simp: str_is_def str_bytes_def blk_read_def)

lemma chars_bytes: "chars_at h a cs \<Longrightarrow> \<exists>s. chardata h a = Some s \<and> str_bytes h s = Some cs"
  using str_bytes_is by (auto simp: chars_at_def)

lemma cmp_xmlns: "0 \<notin> set l \<Longrightarrow> lexbor_str_data_cmp (l @ [0]) (ascii ''xmlns'' @ [0]) = Some (l = ascii ''xmlns'')"
  by (rule cmp_is) (simp_all add: ascii_def)

lemma attribute_name_emits:
  assumes "nodes h a = Some n" and "0 \<notin> set l" and "lxb_dom_attr_qualified_name h a = Some q"
  shows "emits cb (attribute_name h cb a l) (printed_name (n_ns n) l q)"
proof -
  have five: "l = ascii ''xmlns'' \<Longrightarrow> length l = 5" by (simp add: ascii_def)
  consider "n_ns n = LXB_NS__UNDEF" | "n_ns n = LXB_NS_XML" | "n_ns n = LXB_NS_XMLNS" | "n_ns n = LXB_NS_XLINK"
    | "n_ns n \<notin> {LXB_NS__UNDEF, LXB_NS_XML, LXB_NS_XMLNS, LXB_NS_XLINK}" by blast
  then show ?thesis
  proof cases
    case 1
    then have "attribute_name h cb a l = cb l" using assms by (simp add: fun_eq_iff attribute_name_def)
    with 1 show ?thesis by (simp add: printed_name_def emits_one)
  next
    case 2
    then have "attribute_name h cb a l = (\<lambda>c. checked (cb (ascii ''xml:'') c) (cb l))"
      using assms by (simp add: fun_eq_iff attribute_name_def LXB_NS__UNDEF_def LXB_NS_XML_def)
    moreover have "emits cb (\<lambda>c. checked (cb (ascii ''xml:'') c) (cb l)) (ascii ''xml:'' @ l)" by (intro emits_intros)
    ultimately show ?thesis using 2 by (simp add: printed_name_def LXB_NS__UNDEF_def LXB_NS_XML_def)
  next
    case 3
    show ?thesis
    proof (cases "l = ascii ''xmlns''")
      case True
      then have "attribute_name h cb a l = cb (ascii ''xmlns'')"
        using 3 assms cmp_xmlns [OF assms(2)] five by (simp add: fun_eq_iff attribute_name_def LXB_NS__UNDEF_def LXB_NS_XML_def LXB_NS_XMLNS_def)
      with 3 True show ?thesis by (simp add: printed_name_def LXB_NS__UNDEF_def LXB_NS_XML_def LXB_NS_XMLNS_def emits_one)
    next
      case False
      then have "attribute_name h cb a l = (\<lambda>c. checked (cb (ascii ''xmlns:'') c) (cb l))"
        using 3 assms cmp_xmlns [OF assms(2)] by (simp add: fun_eq_iff attribute_name_def LXB_NS__UNDEF_def LXB_NS_XML_def LXB_NS_XMLNS_def)
      moreover have "emits cb (\<lambda>c. checked (cb (ascii ''xmlns:'') c) (cb l)) (ascii ''xmlns:'' @ l)" by (intro emits_intros)
      ultimately show ?thesis using 3 False by (simp add: printed_name_def LXB_NS__UNDEF_def LXB_NS_XML_def LXB_NS_XMLNS_def)
    qed
  next
    case 4
    then have "attribute_name h cb a l = (\<lambda>c. checked (cb (ascii ''xlink:'') c) (cb l))"
      using assms by (simp add: fun_eq_iff attribute_name_def LXB_NS__UNDEF_def LXB_NS_XML_def LXB_NS_XMLNS_def LXB_NS_XLINK_def)
    moreover have "emits cb (\<lambda>c. checked (cb (ascii ''xlink:'') c) (cb l)) (ascii ''xlink:'' @ l)" by (intro emits_intros)
    ultimately show ?thesis using 4 by (simp add: printed_name_def LXB_NS__UNDEF_def LXB_NS_XML_def LXB_NS_XMLNS_def LXB_NS_XLINK_def)
  next
    case 5
    then have "attribute_name h cb a l = cb q" using assms by (simp add: fun_eq_iff attribute_name_def)
    with 5 show ?thesis by (simp add: printed_name_def emits_one)
  qed
qed

lemma escape_Nil_quoted: "quoted [] = ascii ''='' @ [0x22, 0x22]"
  by (simp add: quoted_def)

lemma attribute_emits:
  assumes "attr_at h a kv"
  shows "emits cb (lxb_html_serialize_attribute_cb h cb a False) (fst kv @ quoted (case snd kv of None \<Rightarrow> [] | Some v \<Rightarrow> v))"
proof -
  from assms obtain n x l q where a: "nodes h a = Some n" "attributes h a = Some x" "lxb_dom_attr_local_name h a = Some l"
    "0 \<notin> set l" "lxb_dom_attr_qualified_name h a = Some q" "fst kv = printed_name (n_ns n) l q"
    "case at_value x of None \<Rightarrow> snd kv = None | Some v \<Rightarrow> (\<exists>cs. snd kv = Some cs \<and> str_is (text_arena h) v cs)"
    unfolding attr_at_def by blast
  from a(1,3) obtain doc hash data where d: "owner_doc h a = Some doc" "hashes h (doc_attrs doc) = Some hash"
    "lxb_dom_attr_data_by_id (n_local_name n) = Some data" "ptr_str lxb_dom_attr_res_data_default hash data = Some l"
    by (auto simp: lxb_dom_attr_local_name_def bind_eq_Some_conv)
  note nm = attribute_name_emits [OF a(1,4,5), of cb, folded a(6)]
  show ?thesis
  proof (cases "at_value x")
    case None
    then have "lxb_html_serialize_attribute_cb h cb a False =
        (\<lambda>c. checked (attribute_name h cb a l c) (cb (ascii ''='' @ [0x22, 0x22])))"
      using a d by (simp add: fun_eq_iff lxb_html_serialize_attribute_cb_def)
    moreover have "emits cb (\<lambda>c. checked (attribute_name h cb a l c) (cb (ascii ''='' @ [0x22, 0x22]))) (fst kv @ ascii ''='' @ [0x22, 0x22])"
      by (intro emits_intros nm)
    ultimately show ?thesis using a(7) None by (simp add: escape_Nil_quoted)
  next
    case (Some v)
    with a(7) obtain cs where cs: "snd kv = Some cs" "str_is (text_arena h) v cs" by auto
    have "lxb_html_serialize_attribute_cb h cb a False =
        (\<lambda>c. checked (attribute_name h cb a l c) (\<lambda>c. checked (cb (ascii ''='' @ [0x22]) c) (\<lambda>c.
           checked (lxb_html_serialize_send_escaping_attribute_string cb cs c) (cb [0x22]))))"
      using a d Some str_bytes_is [OF cs(2)] by (simp add: fun_eq_iff lxb_html_serialize_attribute_cb_def)
    moreover have "emits cb (\<lambda>c. checked (attribute_name h cb a l c) (\<lambda>c. checked (cb (ascii ''='' @ [0x22]) c) (\<lambda>c.
           checked (lxb_html_serialize_send_escaping_attribute_string cb cs c) (cb [0x22]))))
         (fst kv @ (ascii ''='' @ [0x22]) @ escape True cs @ [0x22])"
      by (intro emits_intros nm)
    ultimately show ?thesis using cs by (simp add: quoted_def)
  qed
qed

lemma attributes_emit: "attrs_at h p as \<Longrightarrow> emits cb (attributes_loop h cb p) (concat (map print_attr as))"
proof (induction as arbitrary: p)
  case Nil
  then have "attributes_loop h cb p = (\<lambda>c. Some (LXB_STATUS_OK, c))" by (simp add: fun_eq_iff attributes_loop.simps)
  then show ?case by (simp add: emits_none)
next
  case (Cons kv kvs)
  then obtain a x where p: "p = Some a" "attr_at h a kv" "attributes h a = Some x" "attrs_at h (at_next x) kvs" by auto
  have "attributes_loop h cb p = (\<lambda>c. checked (cb (ascii '' '') c) (\<lambda>c. checked (lxb_html_serialize_attribute_cb h cb a False c)
      (attributes_loop h cb (at_next x))))"
    using p(1,3) by (simp add: fun_eq_iff attributes_loop.simps [of h cb "Some a"])
  moreover have "emits cb (\<lambda>c. checked (cb (ascii '' '') c) (\<lambda>c. checked (lxb_html_serialize_attribute_cb h cb a False c)
      (attributes_loop h cb (at_next x))))
      (ascii '' '' @ (fst kv @ quoted (case snd kv of None \<Rightarrow> [] | Some v \<Rightarrow> v)) @ concat (map print_attr kvs))"
    by (intro emits_intros attribute_emits p(2) Cons.IH p(4))
  ultimately show ?case by (simp add: print_attr_def [of kv])
qed

lemma is_value_emits:
  assumes "elements h a = Some e" and "is_at h a e i"
  shows "emits cb (send_is_value h cb a) (case i of None \<Rightarrow> [] | Some v \<Rightarrow> ascii '' is'' @ quoted v)"
proof (cases i)
  case None
  with assms have "send_is_value h cb a = (\<lambda>c. Some (LXB_STATUS_OK, c))"
    by (auto simp: fun_eq_iff send_is_value_def is_at_def split: option.splits if_splits)
  with None show ?thesis by (simp add: emits_none)
next
  case (Some cs)
  with assms(2) obtain v where v: "el_is_value e = Some v" "str_data v \<noteq> None" "str_is (text_arena h) v cs"
    "lxb_dom_element_attr_is_exist h a (ascii ''is'') = Some None"
    by (auto simp: is_at_def split: option.splits if_splits)
  have "send_is_value h cb a = (\<lambda>c. checked (cb (ascii '' is='' @ [0x22]) c) (\<lambda>c.
     checked (lxb_html_serialize_send_escaping_attribute_string cb cs c) (cb [0x22])))"
    using assms(1) v str_bytes_is [OF v(3)] by (auto simp: fun_eq_iff send_is_value_def)
  moreover have "emits cb (\<lambda>c. checked (cb (ascii '' is='' @ [0x22]) c) (\<lambda>c.
     checked (lxb_html_serialize_send_escaping_attribute_string cb cs c) (cb [0x22])))
     ((ascii '' is='' @ [0x22]) @ escape True cs @ [0x22])" by (intro emits_intros)
  ultimately show ?thesis using Some by (simp add: quoted_def ascii_def)
qed

lemma element_emits:
  assumes "lxb_dom_element_qualified_name h a = Some nm" and "elements h a = Some e" and "is_at h a e i" and "attrs_at h (el_first_attr e) as"
  shows "emits cb (lxb_html_serialize_element_cb h cb a) (open_tag nm i as)"
proof -
  let ?f = "\<lambda>c. checked (cb (ascii ''<'') c) (\<lambda>c. checked (cb nm c) (\<lambda>c. checked (send_is_value h cb a c) (\<lambda>c.
     checked (attributes_loop h cb (el_first_attr e) c) (cb (ascii ''>'')))))"
  have "lxb_html_serialize_element_cb h cb a = ?f" using assms(1,2) by (simp add: fun_eq_iff lxb_html_serialize_element_cb_def)
  moreover have "emits cb ?f (ascii ''<'' @ nm @ (case i of None \<Rightarrow> [] | Some v \<Rightarrow> ascii '' is'' @ quoted v) @ concat (map print_attr as) @ ascii ''>'')"
    by (intro emits_intros is_value_emits [OF assms(2,3)] attributes_emit [OF assms(4)])
  ultimately show ?thesis by (simp add: open_tag_def)
qed

lemma closed_emits:
  assumes "lxb_dom_element_qualified_name h a = Some nm"
  shows "emits cb (lxb_html_serialize_element_closed_cb h cb a) (close_tag nm)"
proof -
  let ?f = "\<lambda>c. checked (cb (ascii ''</'') c) (\<lambda>c. checked (cb nm c) (cb (ascii ''>'')))"
  have "lxb_html_serialize_element_closed_cb h cb a = ?f"
    using assms by (simp add: fun_eq_iff lxb_html_serialize_element_closed_cb_def)
  moreover have "emits cb ?f (ascii ''</'' @ nm @ ascii ''>'')" by (intro emits_intros)
  ultimately show ?thesis by (simp add: close_tag_def)
qed

text \<open>The nodes that have no children.\<close>

abbreviation is_leaf :: "markup \<Rightarrow> bool" where
  "is_leaf t \<equiv> (case t of Element _ _ _ _ _ _ \<Rightarrow> False | _ \<Rightarrow> True)"

lemma leaf_emits:
  assumes "markup_at h T a t" and "is_leaf t"
  shows "emits cb (lxb_html_serialize_cb h cb a) (leaf t)"
proof (cases t)
  case (Text raw s)
  with assms obtain n x where n: "nodes h a = Some n" "n_type n = LXB_DOM_NODE_TYPE_TEXT" "raw_text h a = Some raw"
    "chardata h a = Some x" "str_bytes h x = Some s" using chars_bytes by (fastforce simp: plain_kind_def)
  then have "lxb_html_serialize_cb h cb a = (if raw then cb s else lxb_html_serialize_send_escaping_string cb s)"
    by (simp add: fun_eq_iff lxb_html_serialize_cb_def lxb_html_serialize_text_cb_def)
  with Text show ?thesis by (auto intro: emits_intros)
next
  case (Comment s)
  with assms obtain n x where n: "nodes h a = Some n" "n_type n = LXB_DOM_NODE_TYPE_COMMENT"
    "chardata h a = Some x" "str_bytes h x = Some s" using chars_bytes by (fastforce simp: plain_kind_def)
  let ?f = "\<lambda>c. checked (cb (ascii ''<!--'') c) (\<lambda>c. checked (cb s c) (cb (ascii ''-->'')))"
  have "lxb_html_serialize_cb h cb a = ?f"
    using n by (simp add: fun_eq_iff lxb_html_serialize_cb_def lxb_html_serialize_comment_cb_def)
  moreover have "emits cb ?f (ascii ''<!--'' @ s @ ascii ''-->'')" by (intro emits_intros)
  ultimately show ?thesis using Comment by simp
next
  case (Instruction tg s)
  with assms obtain n x y where n: "nodes h a = Some n" "n_type n = LXB_DOM_NODE_TYPE_PROCESSING_INSTRUCTION"
    "chardata h a = Some x" "str_bytes h x = Some s" "pi_targets h a = Some y" "str_bytes h y = Some tg"
    using chars_bytes str_bytes_is by (fastforce simp: plain_kind_def)
  let ?f = "\<lambda>c. checked (cb (ascii ''<?'') c) (\<lambda>c. checked (cb tg c) (\<lambda>c. checked (cb (ascii '' '') c) (\<lambda>c. checked (cb s c) (cb (ascii ''>'')))))"
  have "lxb_html_serialize_cb h cb a = ?f"
    using n by (simp add: fun_eq_iff lxb_html_serialize_cb_def lxb_html_serialize_processing_instruction_cb_def)
  moreover have "emits cb ?f (ascii ''<?'' @ tg @ ascii '' '' @ s @ ascii ''>'')" by (intro emits_intros)
  ultimately show ?thesis using Instruction by simp
next
  case (Doctype nm)
  with assms obtain n where n: "nodes h a = Some n" "n_type n = LXB_DOM_NODE_TYPE_DOCUMENT_TYPE" "lxb_dom_document_type_name h a = Some nm"
    by (auto simp: plain_kind_def)
  let ?g = "\<lambda>c. if length nm \<noteq> 0 then cb nm c else Some (LXB_STATUS_OK, c)"
  let ?f = "\<lambda>c. checked (cb (ascii ''<!DOCTYPE'') c) (\<lambda>c. checked (cb (ascii '' '') c) (\<lambda>c. checked (?g c) (cb (ascii ''>''))))"
  have "lxb_html_serialize_cb h cb a = ?f"
    using n by (simp add: fun_eq_iff lxb_html_serialize_cb_def lxb_html_serialize_document_type_cb_def)
  moreover have "emits cb ?g nm" by (cases "nm = []") (auto intro: emits_intros)
  then have "emits cb ?f (ascii ''<!DOCTYPE'' @ ascii '' '' @ nm @ ascii ''>'')" by (intro emits_intros)
  ultimately show ?thesis using Doctype by simp
qed (use assms in simp)

lemma close_emits: "markup_at h T a t \<Longrightarrow> emits cb (close_node h cb a) (closing t)"
proof (cases t)
  case (Element nm i as v ct ks)
  assume "markup_at h T a t"
  with Element obtain n where n: "nodes h a = Some n" "n_type n = LXB_DOM_NODE_TYPE_ELEMENT" "lxb_dom_element_qualified_name h a = Some nm"
    "v = lxb_html_node_is_void n" by auto
  then have "close_node h cb a = (if v then (\<lambda>c. Some (LXB_STATUS_OK, c)) else lxb_html_serialize_element_closed_cb h cb a)"
    by (simp add: fun_eq_iff close_node_def)
  with Element closed_emits [OF n(3), of cb] show ?thesis by (simp add: emits_none)
qed (auto simp: plain_kind_def close_node_def [abs_def] intro: emits_none)

section \<open>What the loops emit\<close>

text \<open>What the loop does when everything inside \<open>a\<close> has been sent.\<close>

definition finish :: "dom \<Rightarrow> 'c callback \<Rightarrow> addr \<Rightarrow> addr \<Rightarrow> 'c \<Rightarrow> (lxb_status \<times> 'c) option" where
  "finish h cb root a c = do {
     (status, node, c) \<leftarrow> close_loop h cb root a c;
     (if status \<noteq> LXB_STATUS_OK then Some (status, c)
      else checked (close_node h cb node c) (\<lambda>c.
        if node = root then Some (LXB_STATUS_OK, c)
        else do { n \<leftarrow> nodes h node; x \<leftarrow> n_next n; serialize_loop h cb (Node_loop root x) c })) }"

lemma finish_root: "finish h cb a a = close_node h cb a"
  by (simp add: fun_eq_iff finish_def close_loop.simps [of h cb a a])

lemma finish_next:
  assumes "forest_on (sib (nodes h)) (ends (nodes h)) T" and "T p = xs @ a # b # ys" and "a \<noteq> root"
  shows "finish h cb root a = (\<lambda>c. checked (close_node h cb a c) (serialize_loop h cb (Node_loop root b)))"
proof -
  from forest_position [OF assms(1,2)] obtain n where "nodes h a = Some n" "n_next n = Some b" by (auto dest: sib_SomeD)
  with assms(3) show ?thesis by (simp add: fun_eq_iff finish_def close_loop.simps [of h cb root a])
qed

lemma finish_last:
  assumes "forest_on (sib (nodes h)) (ends (nodes h)) T" and "T p = xs @ [a]" and "a \<noteq> root"
  shows "finish h cb root a = (\<lambda>c. checked (close_node h cb a c) (finish h cb root p))"
proof
  fix c
  from forest_position [OF assms(1), of p xs a "[]"] assms(2) obtain n where
    n: "nodes h a = Some n" "n_next n = None" "n_parent n = Some p" by (auto dest: sib_SomeD)
  show "finish h cb root a c = checked (close_node h cb a c) (finish h cb root p)"
  proof (cases "close_node h cb a c")
    case (Some r)
    obtain st c' where r: "r = (st, c')" by force
    have "close_loop h cb root a c = (if st \<noteq> LXB_STATUS_OK then Some (st, a, c') else close_loop h cb root p c')"
      using n assms(3) Some r by (simp add: close_loop.simps [of h cb root a])
    then show ?thesis using Some r by (cases "st = LXB_STATUS_OK") (simp_all add: finish_def)
  qed (use n assms(3) in \<open>simp add: finish_def close_loop.simps [of h cb root a]\<close>)
qed

lemma node_loop:
  assumes "nodes h a = Some n" and "template_first h a = Some first"
  shows "serialize_loop h cb (Node_loop root a) = (\<lambda>c. checked (lxb_html_serialize_cb h cb a c) (\<lambda>c.
     checked (if first \<noteq> None then serialize_loop h cb (Sibling_loop first) c else Some (LXB_STATUS_OK, c)) (\<lambda>c.
     if \<not> lxb_html_node_is_void n \<and> n_first_child n \<noteq> None then serialize_loop h cb (Node_loop root (the (n_first_child n))) c
     else finish h cb root a c)))"
  using assms by (auto simp: fun_eq_iff serialize_loop.simps [of h cb "Node_loop root a"] finish_def intro!: arg_cong2 [of _ _ _ _ checked])

lemma sibling_loop:
  "serialize_loop h cb (Sibling_loop None) = (\<lambda>c. Some (LXB_STATUS_OK, c))"
  "nodes h a = Some n \<Longrightarrow> serialize_loop h cb (Sibling_loop (Some a)) =
     (\<lambda>c. checked (serialize_loop h cb (Node_loop a a) c) (serialize_loop h cb (Sibling_loop (n_next n))))"
  by (simp_all add: fun_eq_iff serialize_loop.simps [of h cb "Sibling_loop None"] serialize_loop.simps [of h cb "Sibling_loop (Some a)"])

lemma first_child_hd: "forest_on (sib (nodes h)) (ends (nodes h)) T \<Longrightarrow> nodes h a = Some n \<Longrightarrow> n_first_child n = hd_or (T a) None"
  using forest_ends [of "sib (nodes h)" "ends (nodes h)" T a] by (auto simp: ends_Some)

lemma template_first_is:
  assumes F: "forest_on (sib (nodes h)) (ends (nodes h)) T" and n: "nodes h a = Some n" and c: "contents h T a n = Some as"
  shows "template_first h a = Some (hd_or as None)" and "as = [] \<or> (\<exists>f. as = T f)"
  using n c first_child_hd [OF F] by (auto simp: template_first_def contents_def split: if_splits option.splits)

lemma markups_at_Nil: "markups_at h T [] ts \<longleftrightarrow> ts = []" "markups_at h T as [] \<longleftrightarrow> as = []"
  by (cases ts) auto

lemma leaf_inside: "is_leaf t \<Longrightarrow> inside t = leaf t"
  by (cases t) simp_all

lemma leaf_loop:
  assumes F: "forest_on (sib (nodes h)) (ends (nodes h)) T" and m: "markup_at h T a t" and "is_leaf t"
  shows "\<exists>f. emits cb f (inside t) \<and> serialize_loop h cb (Node_loop root a) = (\<lambda>c. checked (f c) (finish h cb root a))"
proof -
  from m assms(3) have T: "T a = []" and "\<exists>n. nodes h a = Some n \<and> \<not> lxb_html_tree_node_is n LXB_TAG_TEMPLATE"
    by (cases t; auto simp: plain_kind_def)+
  then obtain n where n: "nodes h a = Some n" "template_first h a = Some None" by (auto simp: template_first_def)
  have "n_first_child n = None" using first_child_hd [OF F n(1)] T by simp
  with node_loop [OF n] have "serialize_loop h cb (Node_loop root a) = (\<lambda>c. checked (lxb_html_serialize_cb h cb a c) (finish h cb root a))" by simp
  with leaf_emits [OF m assms(3)] leaf_inside [OF assms(3)] show ?thesis by (intro exI [of _ "lxb_html_serialize_cb h cb a"]) simp
qed

lemma loops_emit:
  assumes F: "forest_on (sib (nodes h)) (ends (nodes h)) T"
  shows "markup_at h T a t \<Longrightarrow> (a, root) \<notin> (edges T)\<^sup>+ \<Longrightarrow>
      \<exists>f. emits cb f (inside t) \<and> serialize_loop h cb (Node_loop root a) = (\<lambda>c. checked (f c) (finish h cb root a))"
    and "markups_at h T as ts \<Longrightarrow> T p = xs @ as \<Longrightarrow>
      emits cb (serialize_loop h cb (Sibling_loop (hd_or as None))) (prints ts) \<and>
      (\<forall>root. (p, root) \<notin> (edges T)\<^sup>+ \<longrightarrow> as \<noteq> [] \<longrightarrow>
        (\<exists>f. emits cb f (prints ts) \<and> serialize_loop h cb (Node_loop root (hd as)) = (\<lambda>c. checked (f c) (finish h cb root p))))"
proof (induction t and ts arbitrary: a root and as p xs rule: inside_prints.induct)
  case (1 nm i avs v ct ks)
  from 1(3) obtain n e where e: "nodes h a = Some n" "n_type n = LXB_DOM_NODE_TYPE_ELEMENT" "elements h a = Some e"
      "lxb_dom_element_qualified_name h a = Some nm" "is_at h a e i" "attrs_at h (el_first_attr e) avs" "v = lxb_html_node_is_void n"
    and "\<exists>as. contents h T a n = Some as \<and> markups_at h T as ct" and ks: "if v then ks = [] else markups_at h T (T a) ks" by auto
  then obtain as where as: "contents h T a n = Some as" "markups_at h T as ct" by blast
  note tf = template_first_is [OF F e(1) as(1)]
  let ?open = "lxb_html_serialize_cb h cb a"
  let ?tpl = "\<lambda>c. if hd_or as None \<noteq> None then serialize_loop h cb (Sibling_loop (hd_or as None)) c else Some (LXB_STATUS_OK, c)"
  have "?open = lxb_html_serialize_element_cb h cb a" using e(1,2) by (simp add: fun_eq_iff lxb_html_serialize_cb_def)
  then have op: "emits cb ?open (open_tag nm i avs)" using element_emits [OF e(4,3,5,6)] by simp
  have tpl: "emits cb ?tpl (prints ct)"
  proof (cases "as = []")
    case True
    then have "ct = []" using as(2) markups_at_Nil by simp
    with True show ?thesis by (simp add: emits_none)
  next
    case False
    with tf(2) obtain f where "T f = [] @ as" by auto
    from conjunct1 [OF 1(1) [OF as(2) this]] False show ?thesis by (cases as) auto
  qed
  note loop = node_loop [OF e(1) tf(1), of cb root, folded e(7), unfolded first_child_hd [OF F e(1)]]
  show ?case
  proof (cases "v \<or> T a = []")
    case True
    then have "prints ks = []" using ks markups_at_Nil by (auto split: if_splits)
    moreover from loop True have "serialize_loop h cb (Node_loop root a) = (\<lambda>c. checked (checked (?open c) ?tpl) (finish h cb root a))"
      by auto
    ultimately show ?thesis using emits_seq [OF op tpl] by (intro exI [of _ "\<lambda>c. checked (?open c) ?tpl"]) (cases v; simp)
  next
    case False
    then have "markups_at h T (T a) ks" "T a = [] @ T a" "T a \<noteq> []" using ks by auto
    with 1(2) [OF _ this(1,2)] 1(4) False obtain f where f: "emits cb f (prints ks)"
      "serialize_loop h cb (Node_loop root (hd (T a))) = (\<lambda>c. checked (f c) (finish h cb root a))" by blast
    have "the (hd_or (T a) None) = hd (T a)" "hd_or (T a) None \<noteq> None" using False by (cases "T a"; simp)+
    with loop False f(2) have "serialize_loop h cb (Node_loop root a) =
        (\<lambda>c. checked (checked (?open c) (\<lambda>c. checked (?tpl c) f)) (finish h cb root a))" by auto
    moreover have "emits cb (\<lambda>c. checked (?open c) (\<lambda>c. checked (?tpl c) f)) (inside (Element nm i avs v ct ks))"
      using emits_seq [OF op emits_seq [OF tpl f(1)]] False by simp
    ultimately show ?thesis by blast
  qed
next
  case 6
  then show ?case by (simp add: sibling_loop emits_none)
next
  case (7 t ts)
  from 7(3) obtain b bs where as: "as = b # bs" "markup_at h T b t" "markups_at h T bs ts" by auto
  have Tp: "T p = xs @ b # bs" "T p = (xs @ [b]) @ bs" using 7(4) as(1) by auto
  have pe: "(p, b) \<in> edges T" using Tp by (simp add: edges_def)
  from forest_position [OF F Tp(1)] obtain n where n: "nodes h b = Some n" "n_next n = hd_or bs None" by (auto dest: sib_SomeD)
  note close = close_emits [OF as(2), of cb] and rest = 7(2) [OF as(3) Tp(2)]
  show ?case
  proof (intro conjI allI impI)
    have "(b, b) \<notin> (edges T)\<^sup>+" using forest_acyclic [OF F] by (simp add: acyclic_def)
    from 7(1) [OF as(2) this] obtain f where f: "emits cb f (inside t)"
      "serialize_loop h cb (Node_loop b b) = (\<lambda>c. checked (f c) (close_node h cb b))" by (auto simp: finish_root)
    have "serialize_loop h cb (Sibling_loop (Some b)) = (\<lambda>c. checked (f c) (\<lambda>c. checked (close_node h cb b c) (serialize_loop h cb (Sibling_loop (hd_or bs None)))))"
      using sibling_loop(2) [OF n(1), of cb] f(2) n(2) by simp
    with emits_seq [OF f(1) emits_seq [OF close conjunct1 [OF rest]]] as(1)
    show "emits cb (serialize_loop h cb (Sibling_loop (hd_or as None))) (prints (t # ts))" by simp
  next
    fix root
    assume root: "(p, root) \<notin> (edges T)\<^sup>+"
    then have "(b, root) \<notin> (edges T)\<^sup>+" "b \<noteq> root" using pe by (meson trancl_into_trancl2, blast)
    with 7(1) [OF as(2)] obtain f where f: "emits cb f (inside t)"
      "serialize_loop h cb (Node_loop root b) = (\<lambda>c. checked (f c) (finish h cb root b))" by blast
    show "\<exists>f. emits cb f (prints (t # ts)) \<and> serialize_loop h cb (Node_loop root (hd as)) = (\<lambda>c. checked (f c) (finish h cb root p))"
    proof (cases bs)
      case Nil
      then have "ts = []" using as(3) markups_at_Nil by simp
      with emits_seq [OF f(1) close] have "emits cb (\<lambda>c. checked (f c) (close_node h cb b)) (prints (t # ts))" by simp
      moreover have "serialize_loop h cb (Node_loop root (hd as)) = (\<lambda>c. checked (checked (f c) (close_node h cb b)) (finish h cb root p))"
        using f(2) finish_last [OF F, of p xs b root cb] Tp Nil \<open>b \<noteq> root\<close> as(1) by simp
      ultimately show ?thesis by blast
    next
      case (Cons d ds)
      then have "bs \<noteq> []" "hd bs = d" by simp_all
      with rest root obtain g where g: "emits cb g (prints ts)"
        "serialize_loop h cb (Node_loop root d) = (\<lambda>c. checked (g c) (finish h cb root p))" by blast
      from emits_seq [OF f(1) emits_seq [OF close g(1)]]
      have "emits cb (\<lambda>c. checked (f c) (\<lambda>c. checked (close_node h cb b c) g)) (prints (t # ts))" by simp
      moreover have "serialize_loop h cb (Node_loop root (hd as)) =
          (\<lambda>c. checked (checked (f c) (\<lambda>c. checked (close_node h cb b c) g)) (finish h cb root p))"
        using f(2) finish_next [OF F, of p xs b d ds root cb] Tp Cons \<open>b \<noteq> root\<close> as(1) g(2) by simp
      ultimately show ?thesis by blast
    qed
  qed
qed (rule leaf_loop [OF F]; simp)+

lemma deep_emits:
  assumes F: "forest (nodes h) T" and "p \<in> dom (nodes h)" and m: "markups_at h T (T p) ts"
  shows "emits cb (lxb_html_serialize_deep_cb h cb p) (prints ts)"
proof -
  from assms(2) obtain n where n: "nodes h p = Some n" by blast
  have "lxb_html_serialize_deep_cb h cb p = serialize_loop h cb (Sibling_loop (hd_or (T p) None))"
    using n first_child_hd [OF F [unfolded forest_def] n] by (simp add: fun_eq_iff lxb_html_serialize_deep_cb_def)
  with loops_emit(2) [OF F [unfolded forest_def] m, of p "[]" cb] show ?thesis by simp
qed

lemma node_emits:
  assumes F: "forest (nodes h) T" and m: "markup_at h T a t"
  shows "emits cb (lxb_html_serialize_node_cb h cb a) (print_markup t)"
proof -
  note F = F [unfolded forest_def]
  have "(a, a) \<notin> (edges T)\<^sup>+" using forest_acyclic [OF F] by (simp add: acyclic_def)
  from loops_emit(1) [OF F m this, of cb] obtain f where "emits cb f (inside t)"
    "serialize_loop h cb (Node_loop a a) = (\<lambda>c. checked (f c) (close_node h cb a))" by (auto simp: finish_root)
  with emits_seq [OF _ close_emits [OF m]] show ?thesis by (simp add: lxb_html_serialize_node_cb_def print_markup_def)
qed

section \<open>Properties\<close>

text \<open>The markup of a node; of a document, that of its children.\<close>

definition tree_markup :: "dom \<Rightarrow> kids \<Rightarrow> addr \<Rightarrow> markup list \<Rightarrow> bool" where
  "tree_markup h T a ts \<longleftrightarrow> (\<exists>n. nodes h a = Some n \<and>
     (if n_local_name n = LXB_TAG__DOCUMENT then markups_at h T (T a) ts else markups_at h T [a] ts))"

text \<open>
  C2: What outerHTML is made of. For every well-formed document, if the subtree of a node is the markup
  \<open>ts\<close> (elements with their attributes, the content of templates, text, comments, processing instructions, document
  types), then \<open>qb_serialize_tree\<close> ends and hands the callback, in order, exactly the bytes of the printer: tags nested as
  the tree is, no closing tag and no children for a void element, text escaped unless the parent is one of the raw text
  elements, attribute values escaped and quoted. It stops at the first piece the callback refuses, with its status.
\<close>

theorem serialize_tree_prints:
  assumes "dom_wf h T" and "tree_markup h T a ts"
  shows "emits cb (qb_serialize_tree h a cb) (prints ts)"
proof -
  note F = dom_wf_forest [OF assms(1), folded forest_def]
  from assms(2) obtain n where n: "nodes h a = Some n"
    "if n_local_name n = LXB_TAG__DOCUMENT then markups_at h T (T a) ts else markups_at h T [a] ts" unfolding tree_markup_def by blast
  show ?thesis
  proof (cases "n_local_name n = LXB_TAG__DOCUMENT")
    case True
    then have "qb_serialize_tree h a cb = lxb_html_serialize_deep_cb h cb a"
      using n(1) by (simp add: fun_eq_iff qb_serialize_tree_def lxb_html_serialize_tree_cb_def lxb_html_serialize_deep_cb_def)
    with deep_emits [OF F, of a ts cb] n True show ?thesis by auto
  next
    case False
    then have "qb_serialize_tree h a cb = lxb_html_serialize_node_cb h cb a"
      using n(1) by (simp add: fun_eq_iff qb_serialize_tree_def lxb_html_serialize_tree_cb_def)
    moreover from n(2) False obtain t where "ts = [t]" "markup_at h T a t" by (cases ts) (auto simp: markups_at_Nil)
    ultimately show ?thesis using node_emits [OF F, of a t cb] by (simp add: print_markup_def)
  qed
qed

definition sample_markup :: "markup list" where
  "sample_markup = [Element (ascii ''html'') None [] False [] [
     Element (ascii ''i'') None [] False [] [Text False [0x20, 0x0A], Comment [0x61]],
     Element (ascii ''iframe'') None [(ascii ''id'', Some (ascii ''x''))] False [] []]]"

lemma sample_qualified:
  "el \<in> {2, 3, 6} \<Longrightarrow> lxb_dom_element_qualified_name (sample_plan f) el =
     Some (if el = 2 then ascii ''html'' else if el = 3 then ascii ''i'' else ascii ''iframe'')"
  by (auto simp: lxb_dom_element_qualified_name_def sample_defs sample_plan_def sample_element_def owner_doc_def
      lxb_tag_data_by_id_def LXB_TAG__LAST_ENTRY_def ptr_str_def lxb_tag_res_data_default_def name_data_def ascii_def)

lemma sample_attr_at: "attr_at (sample_plan f) 11 (ascii ''id'', Some (ascii ''x''))"
proof -
  have d: "lxb_dom_attr_data_by_id 18 = Some (Static 18)" "ptr_str lxb_dom_attr_res_data_default H (Static 18) = Some (ascii ''id'')" for H
    by (simp_all add: lxb_dom_attr_data_by_id_def LXB_DOM_ATTR__LAST_ENTRY_def ptr_str_def lxb_dom_attr_res_data_default_def name_data_def ascii_def)
  have "lxb_dom_attr_local_name (sample_plan f) 11 = Some (ascii ''id'')" "lxb_dom_attr_qualified_name (sample_plan f) 11 = Some (ascii ''id'')"
    using d by (simp_all add: lxb_dom_attr_local_name_def lxb_dom_attr_qualified_name_def sample_defs sample_plan_def owner_doc_def)
  moreover have "str_is (text_arena (sample_plan f)) \<lparr>str_data = Some 102, str_length = 1\<rparr> (ascii ''x'')"
    by (rule str_isI [of _ 102 _ _ "[0, 0, 0, 0, 0, 0]"]) (simp_all add: sample_dom_def ascii_def)
  moreover have "0 \<notin> set (ascii ''id'')" by (simp add: ascii_def)
  ultimately show ?thesis
    by (simp add: attr_at_def sample_nodes_def sample_dom_def sample_node_def printed_name_def
        LXB_NS__UNDEF_def LXB_NS_XML_def LXB_NS_XMLNS_def LXB_NS_XLINK_def)
qed

lemma sample_element_at:
  assumes "a \<in> {2, 3, 6}" and "nodes (sample_plan f) a = Some n" and "markups_at (sample_plan f) sample_kids (sample_kids a) ks"
    and "nm = (if a = 2 then ascii ''html'' else if a = 3 then ascii ''i'' else ascii ''iframe'')"
    and "as = (if a = 6 then [(ascii ''id'', Some (ascii ''x''))] else [])"
  shows "markup_at (sample_plan f) sample_kids a (Element nm None as False [] ks)"
proof -
  have v: "\<not> lxb_html_node_is_void n" and c: "contents (sample_plan f) sample_kids a n = Some []"
    using assms(1,2) by (auto simp: lxb_html_node_is_void_def void_tags_def contents_def lxb_html_tree_node_is_def LXB_TAG_TEMPLATE_def
        sample_defs sample_plan_def)
  obtain e where e: "elements (sample_plan f) a = Some e" "el_is_value e = None" "el_first_attr e = (if a = 6 then Some 11 else None)"
    using assms(1) by (auto simp: sample_plan_def sample_dom_def sample_element_def)
  have at: "attrs_at (sample_plan f) (el_first_attr e) as"
    using e(3) assms(1,5) sample_attr_at [of f] by (auto simp: sample_dom_def)
  have "is_at (sample_plan f) a e None" using e(2) by (simp add: is_at_def)
  moreover have "n_type n = LXB_DOM_NODE_TYPE_ELEMENT" using assms(1,2) by (auto simp: sample_defs sample_plan_def)
  ultimately show ?thesis
    using assms(1,2,3,4) e(1) at v c sample_qualified [of a f] by (auto simp: markups_at_Nil)
qed

lemma sample_markups_at: "tree_markup (sample_plan f) sample_kids 1 sample_markup"
proof -
  let ?h = "sample_plan f"
  have c: "chars_at ?h 4 [0x20, 0x0A]" "chars_at ?h 5 [0x61]"
    unfolding chars_at_def
    by (intro exI [of _ "\<lparr>str_data = Some 100, str_length = 2\<rparr>"] exI [of _ "\<lparr>str_data = Some 101, str_length = 1\<rparr>"] conjI
        str_isI [of _ 100 _ _ "[0, 0, 0, 0, 0]"] str_isI [of _ 101 _ _ "[0, 0, 0, 0, 0, 0]"]; simp add: sample_dom_def)+
  have t: "markup_at ?h sample_kids 4 (Text False [0x20, 0x0A])" "markup_at ?h sample_kids 5 (Comment [0x61])"
    using c by (auto simp: plain_kind_def raw_text_def raw_text_tags_def LXB_TAG_NOSCRIPT_def lxb_html_tree_node_is_def LXB_TAG_TEMPLATE_def
        sample_nodes_def sample_node_def sample_kids_def)
  have i: "markup_at ?h sample_kids 3 (Element (ascii ''i'') None [] False [] [Text False [0x20, 0x0A], Comment [0x61]])"
    by (rule sample_element_at) (use t in \<open>auto simp: sample_kids_def sample_nodes_def\<close>)
  have d: "markup_at ?h sample_kids 6 (Element (ascii ''iframe'') None [(ascii ''id'', Some (ascii ''x''))] False [] [])"
    by (rule sample_element_at) (auto simp: sample_kids_def sample_nodes_def)
  have "markup_at ?h sample_kids 2 (hd sample_markup)"
    unfolding sample_markup_def list.sel
    by (rule sample_element_at) (use i d in \<open>auto simp: sample_kids_def sample_nodes_def simp del: markup_at.simps\<close>)
  then show ?thesis
    by (simp add: tree_markup_def sample_nodes_def sample_node_def LXB_TAG__DOCUMENT_def sample_kids_def sample_markup_def del: markup_at.simps)
qed

lemma serialize_tree_prints_witness:
  "emits (\<lambda>bs c. Some (LXB_STATUS_OK, c @ bs)) (qb_serialize_tree (sample_plan (\<lambda>_. None)) 1 (\<lambda>bs c. Some (LXB_STATUS_OK, c @ bs)))
      (prints sample_markup) \<and>
   prints sample_markup = ascii ''<html><i> '' @ [0x0A] @ ascii ''<!--a--></i><iframe id='' @ [0x22, 0x78, 0x22] @ ascii ''></iframe></html>''"
proof
  show "emits (\<lambda>bs c. Some (LXB_STATUS_OK, c @ bs)) (qb_serialize_tree (sample_plan (\<lambda>_. None)) 1 (\<lambda>bs c. Some (LXB_STATUS_OK, c @ bs)))
      (prints sample_markup)"
    by (rule serialize_tree_prints [OF plan_wf sample_markups_at])
  show "prints sample_markup = ascii ''<html><i> '' @ [0x0A] @ ascii ''<!--a--></i><iframe id='' @ [0x22, 0x78, 0x22] @ ascii ''></iframe></html>''"
    by (simp add: sample_markup_def open_tag_def close_tag_def print_attr_def quoted_def entity_def ascii_def)
qed

end
