(* ===== verification/Qb_Dom.thy ===== *)
theory Qb_Dom
  imports Html_Serialize Dom_Query
begin

text \<open>
  The DOM interface of QuickBEAM: the functions \<open>qb_\<close>... of lexbor_bridge.c, which give lexbor's operations to the
  native functions of the JavaScript objects, and the tree operations those are built from (lib/quickbeam/dom.zig):
  appendChild, insertBefore, replaceChild and removeChild. The conversion of JavaScript values to
  nodes is left out: the arguments here are nodes.
\<close>

section \<open>The bridge\<close>

definition qb_create_element :: "dom \<Rightarrow> addr \<Rightarrow> bytes \<Rightarrow> (addr option \<times> dom) option" where
  "qb_create_element h doc tag = lxb_dom_document_create_element h doc tag"

definition qb_create_text_node :: "dom \<Rightarrow> addr \<Rightarrow> bytes \<Rightarrow> (addr option \<times> dom) option" where
  "qb_create_text_node h doc text = lxb_dom_document_create_text_node h doc text"

text \<open>A namespace or a prefix may be NULL. \<open>granted\<close> answers the request for the \<open>is\<close> struct, which is not made here.\<close>

definition qb_create_element_ns :: "bool \<Rightarrow> dom \<Rightarrow> addr \<Rightarrow> bytes \<Rightarrow> bytes option \<Rightarrow> bytes option \<Rightarrow> (addr option \<times> dom) option" where
  "qb_create_element_ns granted h doc local_name ns prefix = lxb_dom_element_create granted h doc local_name ns prefix []"

definition qb_create_document_fragment :: "dom \<Rightarrow> addr \<Rightarrow> (addr option \<times> dom) option" where
  "qb_create_document_fragment h doc = lxb_dom_document_create_document_fragment h doc"

definition qb_create_comment :: "dom \<Rightarrow> addr \<Rightarrow> bytes \<Rightarrow> (addr option \<times> dom) option" where
  "qb_create_comment h doc data = lxb_dom_document_create_comment h doc data"

definition qb_node_insert_child :: "dom \<Rightarrow> addr \<Rightarrow> addr \<Rightarrow> dom option" where
  "qb_node_insert_child h parent child = lxb_dom_node_insert_child h parent child"

definition qb_node_remove :: "dom \<Rightarrow> addr \<Rightarrow> dom option" where
  "qb_node_remove h node = lxb_dom_node_remove h node"

definition qb_node_type :: "dom \<Rightarrow> addr \<Rightarrow> lxb_dom_node_type option" where
  "qb_node_type h node = map_option n_type (nodes h node)"

definition qb_node_first_child :: "dom \<Rightarrow> addr \<Rightarrow> addr option option" where
  "qb_node_first_child h node = map_option n_first_child (nodes h node)"

definition qb_node_next :: "dom \<Rightarrow> addr \<Rightarrow> addr option option" where
  "qb_node_next h node = map_option n_next (nodes h node)"

definition qb_node_parent :: "dom \<Rightarrow> addr \<Rightarrow> addr option option" where
  "qb_node_parent h node = map_option n_parent (nodes h node)"

definition qb_node_last_child :: "dom \<Rightarrow> addr \<Rightarrow> addr option option" where
  "qb_node_last_child h node = map_option n_last_child (nodes h node)"

definition qb_node_prev :: "dom \<Rightarrow> addr \<Rightarrow> addr option option" where
  "qb_node_prev h node = map_option n_prev (nodes h node)"

definition qb_node_owner_document :: "dom \<Rightarrow> addr \<Rightarrow> addr option" where
  "qb_node_owner_document h node = map_option n_owner_document (nodes h node)"

definition qb_node_insert_before :: "dom \<Rightarrow> addr \<Rightarrow> addr \<Rightarrow> dom option" where
  "qb_node_insert_before h to node = lxb_dom_node_insert_before h to node"

definition qb_node_insert_after :: "dom \<Rightarrow> addr \<Rightarrow> addr \<Rightarrow> dom option" where
  "qb_node_insert_after h to node = lxb_dom_node_insert_after h to node"

definition qb_node_replace_child :: "dom \<Rightarrow> addr \<Rightarrow> addr \<Rightarrow> addr \<Rightarrow> (addr \<times> dom) option" where
  "qb_node_replace_child h parent node child = do {
     h \<leftarrow> lxb_dom_node_insert_before h child node;
     h \<leftarrow> lxb_dom_node_remove h child;
     Some (child, h) }"

definition qb_element_qualified_name :: "dom \<Rightarrow> addr \<Rightarrow> bytes option" where
  "qb_element_qualified_name h elem = lxb_dom_element_qualified_name h elem"

definition qb_element_get_attribute :: "dom \<Rightarrow> addr \<Rightarrow> bytes \<Rightarrow> (addr option \<times> nat) option" where
  "qb_element_get_attribute h elem name = lxb_dom_element_get_attribute h elem name"

definition qb_element_set_attribute :: "dom \<Rightarrow> addr \<Rightarrow> bytes \<Rightarrow> bytes \<Rightarrow> (lxb_status \<times> dom) option" where
  "qb_element_set_attribute h elem name val = do {
     (attr, h) \<leftarrow> lxb_dom_element_set_attribute h elem name val;
     Some (if attr \<noteq> None then LXB_STATUS_OK else LXB_STATUS_ERROR, h) }"

definition qb_element_remove_attribute :: "dom \<Rightarrow> addr \<Rightarrow> bytes \<Rightarrow> (lxb_status \<times> dom) option" where
  "qb_element_remove_attribute h elem name = lxb_dom_element_remove_attribute h elem name"

definition qb_element_has_attribute :: "dom \<Rightarrow> addr \<Rightarrow> bytes \<Rightarrow> nat option" where
  "qb_element_has_attribute h elem name = map_option (\<lambda>b. if b then 1 else 0) (lxb_dom_element_has_attribute h elem name)"

definition qb_element_first_attr :: "dom \<Rightarrow> addr \<Rightarrow> addr option option" where
  "qb_element_first_attr h elem = map_option el_first_attr (elements h elem)"

definition qb_attr_next :: "dom \<Rightarrow> addr \<Rightarrow> addr option option" where
  "qb_attr_next h attr = map_option at_next (attributes h attr)"

definition qb_attr_name :: "dom \<Rightarrow> addr \<Rightarrow> bytes option" where
  "qb_attr_name h attr = lxb_dom_attr_qualified_name h attr"

definition qb_attr_value :: "dom \<Rightarrow> addr \<Rightarrow> (addr option \<times> nat) option" where
  "qb_attr_value h attr = lxb_dom_attr_value h attr"

definition lxb_dom_elements_by_tag_name where
  "lxb_dom_elements_by_tag_name h root col L qname = lxb_dom_node_by_tag_name h root col L qname"

definition lxb_dom_elements_by_class_name where
  "lxb_dom_elements_by_class_name h root col L class_name = lxb_dom_node_by_class_name h root col L class_name"

definition lxb_dom_elements_by_attr where
  "lxb_dom_elements_by_attr h root col L qname val case_insensitive = lxb_dom_node_by_attr h root col L qname val case_insensitive"

definition qb_elements_by_attr where
  "qb_elements_by_attr h root col L name val = lxb_dom_elements_by_attr h root col L name val True"

definition qb_elements_by_class_name where
  "qb_elements_by_class_name h root col L name = lxb_dom_elements_by_class_name h root col L name"

definition qb_elements_by_tag_name where
  "qb_elements_by_tag_name h root col L name = lxb_dom_elements_by_tag_name h root col L name"

definition qb_node_text_content :: "dom \<Rightarrow> addr \<Rightarrow> (cptr \<times> nat \<times> dom) option" where
  "qb_node_text_content h node = lxb_dom_node_text_content h node"

definition qb_node_text_content_set :: "dom \<Rightarrow> addr \<Rightarrow> bytes \<Rightarrow> (lxb_status \<times> dom) option" where
  "qb_node_text_content_set h node text = lxb_dom_node_text_content_set h node text"

definition qb_dom_document_destroy_text :: "dom \<Rightarrow> addr option \<Rightarrow> dom option" where
  "qb_dom_document_destroy_text h text = lxb_dom_document_destroy_text h text"

definition qb_element_namespace :: "dom \<Rightarrow> addr \<Rightarrow> nat option" where
  "qb_element_namespace h elem = map_option n_ns (nodes h elem)"

section \<open>The operations of the JavaScript objects\<close>

text \<open>Moving the children of a fragment, one after the other, by \<open>ins\<close>.\<close>

partial_function (option) move_children :: "(dom \<Rightarrow> addr \<Rightarrow> dom option) \<Rightarrow> dom \<Rightarrow> addr option \<Rightarrow> dom option" where
  [code]: "move_children ins h c = (case c of
     None \<Rightarrow> Some h
   | Some node \<Rightarrow> do {
       nxt \<leftarrow> qb_node_next h node;
       h \<leftarrow> ins h node;
       move_children ins h nxt })"

definition remove_if_attached :: "dom \<Rightarrow> addr \<Rightarrow> dom option" where
  "remove_if_attached h node = do {
     p \<leftarrow> qb_node_parent h node;
     (if p \<noteq> None then qb_node_remove h node else Some h) }"

definition el_append_child :: "dom \<Rightarrow> addr \<Rightarrow> addr \<Rightarrow> dom option" where
  "el_append_child h parent child = do {
     t \<leftarrow> qb_node_type h child;
     (if t = LXB_DOM_NODE_TYPE_DOCUMENT_FRAGMENT then do {
        c \<leftarrow> qb_node_first_child h child;
        move_children (\<lambda>h node. qb_node_insert_child h parent node) h c }
      else do {
        h \<leftarrow> remove_if_attached h child;
        qb_node_insert_child h parent child }) }"

definition el_remove_child :: "dom \<Rightarrow> addr \<Rightarrow> dom option" where
  "el_remove_child h child = qb_node_remove h child"

definition el_insert_before :: "dom \<Rightarrow> addr \<Rightarrow> addr \<Rightarrow> addr option \<Rightarrow> dom option" where
  "el_insert_before h parent new_node ref_node = do {
     t \<leftarrow> qb_node_type h new_node;
     (if t = LXB_DOM_NODE_TYPE_DOCUMENT_FRAGMENT then do {
        c \<leftarrow> qb_node_first_child h new_node;
        (case ref_node of
           None \<Rightarrow> move_children (\<lambda>h node. qb_node_insert_child h parent node) h c
         | Some r \<Rightarrow> move_children (\<lambda>h node. qb_node_insert_before h r node) h c) }
      else do {
        h \<leftarrow> remove_if_attached h new_node;
        (case ref_node of
           None \<Rightarrow> qb_node_insert_child h parent new_node
         | Some r \<Rightarrow> qb_node_insert_before h r new_node) }) }"

definition el_replace_child :: "dom \<Rightarrow> addr \<Rightarrow> addr \<Rightarrow> dom option" where
  "el_replace_child h new_node old_node = do {
     h \<leftarrow> remove_if_attached h new_node;
     h \<leftarrow> qb_node_insert_before h old_node new_node;
     qb_node_remove h old_node }"

section \<open>Moving one node\<close>

text \<open>The tree without \<open>a\<close> as a child; its own children stay below it.\<close>

definition taken :: "kids \<Rightarrow> addr \<Rightarrow> kids" where
  "taken T a = (\<lambda>q. filter (\<lambda>x. x \<noteq> a) (T q))"

lemma taken_edges: "edges (taken T a) = {(p, c) \<in> edges T. c \<noteq> a}"
  by (auto simp: edges_def taken_def)

lemma taken_split:
  assumes F: "forest_on s e T" and Tp: "T p = xs @ a # ys"
  shows "taken T a = T(p := xs @ ys)"
proof
  fix q
  have d: "distinct (xs @ a # ys)" using forest_distinct [OF F, of p] Tp by simp
  show "taken T a q = (T(p := xs @ ys)) q"
  proof (cases "q = p")
    case True
    have "filter (\<lambda>x. x \<noteq> a) xs = xs" "filter (\<lambda>x. x \<noteq> a) ys = ys" using d by (intro filter_True; auto)+
    with True Tp show ?thesis by (simp add: taken_def)
  next
    case False
    then have "a \<notin> set (T q)" using forest_unique_parent [OF F, of a p q] Tp by auto
    with False show ?thesis by (auto simp: taken_def filter_id_conv)
  qed
qed

lemma remove_if_attached_refines:
  assumes wf: "dom_wf h T" and a: "nodes h a = Some n"
  shows "\<exists>h' n'. remove_if_attached h a = Some h' \<and> same_payload h h' \<and> dom_wf h' (taken T a) \<and> nodes h' a = Some n' \<and> n_parent n' = None"
proof -
  note F = dom_wf_forest [OF wf]
  show ?thesis
  proof (cases "n_parent n")
    case None
    have "a \<notin> set (T q)" for q using forest_parent [OF F, of a q] a None by (auto simp: sib_Some)
    then have "taken T a = T" by (auto simp: taken_def fun_eq_iff filter_id_conv)
    moreover have "remove_if_attached h a = Some h" using None a by (simp add: remove_if_attached_def qb_node_parent_def)
    ultimately show ?thesis using None a wf same_payload_refl by (intro exI [of _ h] exI [of _ n]) metis
  next
    case (Some p)
    with a have s: "sib (nodes h) a = Some (Some p, n_prev n, n_next n)" by (simp add: sib_Some)
    from forest_split [OF F s] obtain xs ys where Tp: "T p = xs @ a # ys" by metis
    from remove_refines [OF wf Tp] obtain h' where h': "lxb_dom_node_remove h a = Some h'" "same_payload h h'" "dom_wf h' (T(p := xs @ ys))" by blast
    from same_payload_alive [OF h'(2) a] obtain n' where n': "nodes h' a = Some n'" by blast
    have wf': "dom_wf h' (taken T a)" using h'(3) taken_split [OF F Tp] by simp
    have "n_parent n' = None"
    proof (rule ccontr)
      assume "n_parent n' \<noteq> None"
      then obtain q where "sib (nodes h') a = Some (Some q, n_prev n', n_next n')" using n' by (auto simp: sib_Some)
      from forest_child [OF dom_wf_forest [OF wf'] this] show False by (simp add: taken_def)
    qed
    moreover have "remove_if_attached h a = Some h'" using a Some h'(1) by (simp add: remove_if_attached_def qb_node_parent_def qb_node_remove_def)
    ultimately show ?thesis using h'(2) wf' n' by blast
  qed
qed

lemma taken_above: "(a, p) \<notin> (edges T)\<^sup>* \<Longrightarrow> (a, p) \<notin> (edges (taken T a))\<^sup>*"
  using rtrancl_mono [of "edges (taken T a)" "edges T"] by (auto simp: taken_edges)

lemma last_child_last: "forest_on (sib (nodes h)) (ends (nodes h)) T \<Longrightarrow> nodes h a = Some n \<Longrightarrow> n_last_child n = last_or (T a) None"
  using forest_ends [of "sib (nodes h)" "ends (nodes h)" T a] by (auto simp: ends_Some)

text \<open>Appending, and inserting before a node of a list.\<close>

lemma append_moved:
  assumes wf: "dom_wf h T" and a: "nodes h a = Some n" "n_parent n = None" and p: "p \<in> dom (nodes h)" and above: "(a, p) \<notin> (edges T)\<^sup>*"
  shows "\<exists>h'. qb_node_insert_child h p a = Some h' \<and> same_payload h h' \<and> dom_wf h' (T(p := T p @ [a]))"
proof -
  from p obtain t where "nodes h p = Some t" by blast
  from insert_child_refines [OF wf this a above] show ?thesis by (simp add: qb_node_insert_child_def)
qed

lemma before_moved:
  assumes wf: "dom_wf h T" and a: "nodes h a = Some n" "n_parent n = None" and q: "T q = xs @ r # ys" and above: "(a, q) \<notin> (edges T)\<^sup>*"
  shows "\<exists>h'. qb_node_insert_before h r a = Some h' \<and> same_payload h h' \<and> dom_wf h' (T(q := xs @ a # r # ys))"
  using insert_before_refines [OF wf q a above] by (simp add: qb_node_insert_before_def)

section \<open>When the tree is lost\<close>

text \<open>What \<open>insert_child\<close> does to the fields of any heap, well formed or not.\<close>

definition same_field :: "(lxb_dom_node \<Rightarrow> 'v) \<Rightarrow> dom \<Rightarrow> dom \<Rightarrow> addr \<Rightarrow> bool" where
  "same_field f h h' b \<longleftrightarrow> map_option f (nodes h' b) = map_option f (nodes h b)"

lemma same_field_trans: "same_field f h h' b \<Longrightarrow> same_field f h' h'' b \<Longrightarrow> same_field f h h'' b"
  by (simp add: same_field_def)

lemma insert_child_fields:
  assumes p: "nodes h p = Some t" and a: "nodes h a = Some n" and l: "\<And>l. n_last_child t = Some l \<Longrightarrow> nodes h l \<noteq> None"
    and d: "docs h (n_owner_document n) \<noteq> None"
  shows "\<exists>h'. qb_node_insert_child h p a = Some h' \<and> docs h' = docs h \<and>
     (\<forall>b. same_field n_owner_document h h' b \<and> (b \<noteq> a \<longrightarrow> same_field n_parent h h' b) \<and>
        (b \<noteq> p \<longrightarrow> same_field n_first_child h h' b \<and> same_field n_last_child h h' b) \<and>
        (b \<noteq> a \<longrightarrow> n_last_child t \<noteq> Some b \<longrightarrow> same_field n_next h h' b)) \<and>
     map_option n_parent (nodes h' a) = Some (Some p) \<and> map_option n_last_child (nodes h' p) = Some (Some a)"
proof (cases "n_last_child t")
  case None
  with p a d show ?thesis
    by (cases "p = a") (auto simp: qb_node_insert_child_def lxb_dom_node_insert_child_def lxb_dom_node_insert_child_wo_events_def
        wr_node_def node_event_def same_field_def)
next
  case (Some x)
  with l obtain m where "nodes h x = Some m" by blast
  with Some p a d show ?thesis
    by (cases "p = a"; cases "x = a"; cases "x = p") (auto simp: qb_node_insert_child_def lxb_dom_node_insert_child_def
        lxb_dom_node_insert_child_wo_events_def wr_node_def node_event_def same_field_def)
qed

lemma same_field_Some: "same_field f h h' b \<Longrightarrow> nodes h b = Some n \<Longrightarrow> \<exists>n'. nodes h' b = Some n' \<and> f n' = f n"
  by (auto simp: same_field_def)

fun linked :: "dom \<Rightarrow> addr list \<Rightarrow> bool" where
  "linked h [] = True"
| "linked h (x # xs) = ((\<exists>n. nodes h x = Some n \<and> n_next n = hd_or xs None) \<and> linked h xs)"

lemma dll_linked: "dll (sib (nodes h)) p pv xs None \<Longrightarrow> linked h xs"
  by (induction xs arbitrary: pv) (auto dest: sib_SomeD)

lemma linked_frame: "linked h xs \<Longrightarrow> \<forall>b \<in> set xs. same_field n_next h h' b \<Longrightarrow> linked h' xs"
proof (induction xs)
  case (Cons x xs)
  then obtain n where "nodes h x = Some n" "n_next n = hd_or xs None" by auto
  with same_field_Some [of n_next h h' x n] Cons show ?case by auto
qed simp

text \<open>The loop over the children of a fragment reads each next pointer before the insertion overwrites it.\<close>

lemma move_children_runs:
  assumes "nodes h p \<noteq> None" and "p \<noteq> f" and "linked h cs" and "distinct cs"
    and "\<And>l t. nodes h p = Some t \<Longrightarrow> n_last_child t = Some l \<Longrightarrow> nodes h l \<noteq> None \<and> l \<notin> set cs"
    and "\<And>b n. nodes h b = Some n \<Longrightarrow> docs h (n_owner_document n) \<noteq> None"
  shows "\<exists>h'. move_children (\<lambda>h node. qb_node_insert_child h p node) h (hd_or cs None) = Some h' \<and> same_field n_first_child h h' f \<and>
     (\<forall>c \<in> set cs. map_option n_parent (nodes h' c) = Some (Some p)) \<and> (\<forall>b. b \<notin> set cs \<longrightarrow> same_field n_parent h h' b)"
  using assms
proof (induction cs arbitrary: h)
  case Nil
  then show ?case by (simp add: move_children.simps same_field_def)
next
  case (Cons c cs)
  let ?ins = "\<lambda>h node. qb_node_insert_child h p node"
  from Cons.prems(1) obtain t where t: "nodes h p = Some t" by blast
  from Cons.prems(3) obtain n where n: "nodes h c = Some n" "n_next n = hd_or cs None" and rest: "linked h cs" by auto
  obtain h1 where h1: "?ins h c = Some h1" "docs h1 = docs h"
    "\<And>b. same_field n_owner_document h h1 b" "\<And>b. b \<noteq> c \<Longrightarrow> same_field n_parent h h1 b"
    "\<And>b. b \<noteq> p \<Longrightarrow> same_field n_first_child h h1 b" "\<And>b. b \<noteq> c \<Longrightarrow> n_last_child t \<noteq> Some b \<Longrightarrow> same_field n_next h h1 b"
    "map_option n_parent (nodes h1 c) = Some (Some p)" "map_option n_last_child (nodes h1 p) = Some (Some c)"
    using insert_child_fields [OF t n(1)] Cons.prems(5) [OF t] Cons.prems(6) [OF n(1)] by metis
  have sub: "nodes h1 b = None \<longleftrightarrow> nodes h b = None" for b using h1(3) [of b] by (auto simp: same_field_def)
  have c: "c \<notin> set cs" using Cons.prems(4) by simp
  have "\<forall>b \<in> set cs. same_field n_next h h1 b"
  proof
    fix b assume "b \<in> set cs"
    then have "b \<noteq> c" "n_last_child t \<noteq> Some b" using c Cons.prems(5) [OF t] by auto
    then show "same_field n_next h h1 b" by (rule h1(6))
  qed
  from linked_frame [OF rest this] have l1: "linked h1 cs" .
  have last: "nodes h1 l \<noteq> None \<and> l \<notin> set cs" if "nodes h1 p = Some t'" "n_last_child t' = Some l" for t' l
    using that h1(7,8) c by auto
  have own: "docs h1 (n_owner_document m) \<noteq> None" if "nodes h1 b = Some m" for b m
  proof -
    from that sub [of b] obtain m0 where m0: "nodes h b = Some m0" by (cases "nodes h b") auto
    with same_field_Some [OF h1(3) this] that have "n_owner_document m = n_owner_document m0" by auto
    with Cons.prems(6) [OF m0] h1(2) show ?thesis by simp
  qed
  have "\<exists>h'. move_children ?ins h1 (hd_or cs None) = Some h' \<and> same_field n_first_child h1 h' f \<and>
     (\<forall>c \<in> set cs. map_option n_parent (nodes h' c) = Some (Some p)) \<and> (\<forall>b. b \<notin> set cs \<longrightarrow> same_field n_parent h1 h' b)"
    by (rule Cons.IH) (use Cons.prems(1,2,4) sub l1 last own in auto)
  then obtain h' where
    h': "move_children ?ins h1 (hd_or cs None) = Some h'" "same_field n_first_child h1 h' f"
    "\<forall>c \<in> set cs. map_option n_parent (nodes h' c) = Some (Some p)" "\<forall>b. b \<notin> set cs \<longrightarrow> same_field n_parent h1 h' b" by blast
  have "move_children ?ins h (Some c) = Some h'"
    using n h1(1) h'(1) by (simp add: move_children.simps [of ?ins h "Some c"] qb_node_next_def)
  moreover have "same_field n_first_child h h' f" using same_field_trans [OF h1(5) h'(2)] Cons.prems(2) by blast
  moreover have "map_option n_parent (nodes h' c) = Some (Some p)" using h'(4) c h1(7) by (simp add: same_field_def)
  moreover have "same_field n_parent h h' b" if "b \<notin> set (c # cs)" for b using that same_field_trans [OF h1(4) [of b], of h'] h'(4) by auto
  ultimately show ?case using h'(3) by auto
qed

section \<open>Properties\<close>

text \<open>
  C4: insertBefore(new, ref), and appendChild where \<open>ref\<close> is null: in a well-formed document, for a node that is no
  fragment, is not above its new parent and is not \<open>ref\<close> itself, wherever it was before, the operation takes it from its old place and puts it
  directly before \<open>ref\<close>, or last; no other list of children and no other field of a node changes.
\<close>

theorem el_insert_before_moves:
  assumes "dom_wf h T" and "nodes h a = Some n" and "n_type n \<noteq> LXB_DOM_NODE_TYPE_DOCUMENT_FRAGMENT" and "p \<in> dom (nodes h)" and "(a, p) \<notin> (edges T)\<^sup>*"
    and "taken T a p = xs @ ys" and "case ref of None \<Rightarrow> ys = [] | Some r \<Rightarrow> hd_or ys None = Some r"
  shows "\<exists>h'. el_insert_before h p a ref = Some h' \<and> same_payload h h' \<and> dom_wf h' ((taken T a)(p := xs @ a # ys)) \<and>
     (ref = None \<longrightarrow> el_append_child h p a = Some h')"
proof -
  from remove_if_attached_refines [OF assms(1,2)] obtain h1 n1 where
    h1: "remove_if_attached h a = Some h1" "same_payload h h1" "dom_wf h1 (taken T a)" "nodes h1 a = Some n1" "n_parent n1 = None" by blast
  have ty: "qb_node_type h a = Some (n_type n)" using assms(2) by (simp add: qb_node_type_def)
  note above = taken_above [OF assms(5)]
  show ?thesis
  proof (cases ref)
    case None
    obtain t where "nodes h p = Some t" using assms(4) by blast
    from same_payload_alive [OF h1(2) this] have "p \<in> dom (nodes h1)" by blast
    from append_moved [OF h1(3,4,5) this above] obtain h' where h': "qb_node_insert_child h1 p a = Some h'" "same_payload h1 h'"
      "dom_wf h' ((taken T a)(p := taken T a p @ [a]))" by blast
    have "el_insert_before h p a ref = Some h'" "el_append_child h p a = Some h'"
      using ty assms(3) h1(1) h'(1) None by (simp_all add: el_insert_before_def el_append_child_def)
    moreover have "taken T a p @ [a] = xs @ a # ys" using assms(6,7) None by simp
    ultimately show ?thesis using h'(3) same_payload_trans [OF h1(2) h'(2)] by auto
  next
    case (Some r)
    with assms(7) obtain zs where ys: "ys = r # zs" by (cases ys) auto
    with before_moved [OF h1(3,4,5) _ above, of xs r zs] assms(6) obtain h' where h': "qb_node_insert_before h1 r a = Some h'"
      "same_payload h1 h'" "dom_wf h' ((taken T a)(p := xs @ a # r # zs))" by auto
    have "el_insert_before h p a ref = Some h'" using ty assms(3) h1(1) h'(1) Some by (simp add: el_insert_before_def)
    then show ?thesis using h'(3) same_payload_trans [OF h1(2) h'(2)] ys Some by auto
  qed
qed

lemma el_insert_before_moves_witness:
  "\<exists>h'. el_insert_before sample_dom 3 6 (Some 5) = Some h' \<and> same_payload sample_dom h' \<and>
     dom_wf h' ((taken sample_kids 6)(3 := [4, 6, 5]))"
  using el_insert_before_moves [OF sample_wf, of 6 _ 3 "[4]" "[5]" "Some 5"] sample_path [of 6 3]
  by (auto simp: sample_kids_def sample_nodes_def sample_node_def taken_def)

text \<open>
  C17: replaceChild(new, old): in a well-formed document the new node, taken from wherever it was, stands
  exactly where the old one stood, and the old one is left detached with its subtree. The new node is not \<open>old\<close> and not
  above the parent.
\<close>

theorem el_replace_child_swaps:
  assumes "dom_wf h T" and "nodes h a = Some n" and "(a, p) \<notin> (edges T)\<^sup>*" and "taken T a p = xs @ old # ys"
  shows "\<exists>h'. el_replace_child h a old = Some h' \<and> same_payload h h' \<and> dom_wf h' ((taken T a)(p := xs @ a # ys)) \<and>
     qb_node_parent h' old = Some None"
proof -
  from remove_if_attached_refines [OF assms(1,2)] obtain h1 n1 where
    h1: "remove_if_attached h a = Some h1" "same_payload h h1" "dom_wf h1 (taken T a)" "nodes h1 a = Some n1" "n_parent n1 = None" by blast
  from before_moved [OF h1(3,4,5) assms(4) taken_above [OF assms(3)]] obtain h2 where
    h2: "qb_node_insert_before h1 old a = Some h2" "same_payload h1 h2" "dom_wf h2 ((taken T a)(p := xs @ a # old # ys))" by blast
  have "((taken T a)(p := xs @ a # old # ys)) p = (xs @ [a]) @ old # ys" by simp
  from remove_refines [OF h2(3) this, unfolded fun_upd_upd append_assoc append_Cons append_Nil] obtain h3 where
    h3: "lxb_dom_node_remove h2 old = Some h3" "same_payload h2 h3" "dom_wf h3 ((taken T a)(p := xs @ a # ys))" by blast
  have run: "el_replace_child h a old = Some h3" using h1(1) h2(1) h3(1) by (simp add: el_replace_child_def qb_node_remove_def)
  have sp: "same_payload h h3" using same_payload_trans [OF same_payload_trans [OF h1(2) h2(2)] h3(2)] .
  note F2 = dom_wf_forest [OF h2(3)] and F3 = dom_wf_forest [OF h3(3)]
  from forest_kid_node [OF F2, of p "xs @ [a]" old ys] obtain m2 where m2: "nodes h2 old = Some m2" by auto
  from same_payload_alive [OF h3(2) m2] obtain m where m: "nodes h3 old = Some m" by blast
  have "n_parent m = None"
  proof (rule ccontr)
    assume "n_parent m \<noteq> None"
    then obtain q where "sib (nodes h3) old = Some (Some q, n_prev m, n_next m)" using m by (auto simp: sib_Some)
    from forest_child [OF F3 this] have q: "old \<in> set (((taken T a)(p := xs @ a # ys)) q)" .
    have d: "distinct (xs @ a # old # ys)" using forest_distinct [OF F2, of p] by simp
    then have "q \<noteq> p" using q by auto
    then have "old \<in> set (((taken T a)(p := xs @ a # old # ys)) q)" using q by simp
    from forest_unique_parent [OF F2 this, of p] \<open>q \<noteq> p\<close> show False by simp
  qed
  then have "qb_node_parent h3 old = Some None" using m by (simp add: qb_node_parent_def)
  with run sp h3(3) show ?thesis by blast
qed

lemma el_replace_child_swaps_witness:
  "\<exists>h'. el_replace_child sample_dom 6 4 = Some h' \<and> same_payload sample_dom h' \<and>
     dom_wf h' ((taken sample_kids 6)(3 := [6, 5])) \<and> qb_node_parent h' 4 = Some None"
  using el_replace_child_swaps [OF sample_wf, of 6 _ 3 "[]" 4 "[5]"] sample_path [of 6 3]
  by (auto simp: sample_kids_def sample_nodes_def taken_def)

text \<open>
  C13: appendChild of a fragment inserts its children without taking them out of the fragment: for every fragment
  that has children and every node outside it, the operation returns, every child has the new parent, and the fragment
  still points to its first child, whose parent is now another node. The result is no forest: there is no tree these
  pointers stand for.
\<close>

theorem fragment_append_no_tree:
  assumes "dom_wf h T" and "nodes h f = Some n" and "n_type n = LXB_DOM_NODE_TYPE_DOCUMENT_FRAGMENT" and "T f \<noteq> []"
    and "p \<in> dom (nodes h)" and "(f, p) \<notin> (edges T)\<^sup>*"
  shows "\<exists>h'. el_append_child h p f = Some h' \<and> p \<noteq> f \<and> qb_node_first_child h' f = Some (hd_or (T f) None) \<and>
     (\<forall>c \<in> set (T f). qb_node_parent h' c = Some (Some p)) \<and> (\<forall>T'. \<not> dom_wf h' T')"
proof -
  note F = dom_wf_forest [OF assms(1)]
  obtain c cs where Tf: "T f = c # cs" using assms(4) by (cases "T f") auto
  have fc: "n_first_child n = Some c" using first_child_hd [OF F assms(2)] Tf by simp
  have pf: "p \<noteq> f" using assms(6) by auto
  have lk: "linked h (T f)" using dll_linked [OF forest_dll [OF F]] .
  have last: "nodes h l \<noteq> None \<and> l \<notin> set (T f)" if "nodes h p = Some t" "n_last_child t = Some l" for t l
  proof -
    have "last_or (T p) None = Some l" using last_child_last [OF F that(1)] that(2) by simp
    then have "l \<in> set (T p)" by (rule last_or_set)
    with forest_kid_dom [OF F this] forest_unique_parent [OF F this, of f] pf show ?thesis by auto
  qed
  have own: "docs h (n_owner_document m) \<noteq> None" if "nodes h b = Some m" for b m
    using assms(1) that by (auto simp: dom_wf_def owned_def)
  have "\<exists>h'. move_children (\<lambda>h node. qb_node_insert_child h p node) h (hd_or (T f) None) = Some h' \<and> same_field n_first_child h h' f \<and>
     (\<forall>c \<in> set (T f). map_option n_parent (nodes h' c) = Some (Some p)) \<and> (\<forall>b. b \<notin> set (T f) \<longrightarrow> same_field n_parent h h' b)"
    by (rule move_children_runs) (use assms(5) pf lk forest_distinct [OF F] last own in auto)
  then obtain h' where
    h': "move_children (\<lambda>h node. qb_node_insert_child h p node) h (hd_or (T f) None) = Some h'" "same_field n_first_child h h' f"
    "\<forall>c \<in> set (T f). map_option n_parent (nodes h' c) = Some (Some p)" by blast
  have run: "el_append_child h p f = Some h'"
    using assms(2,3) fc h'(1) Tf by (simp add: el_append_child_def qb_node_type_def qb_node_first_child_def)
  have "\<not> dom_wf h' T'" for T'
  proof
    assume "dom_wf h' T'"
    note F' = dom_wf_forest [OF this]
    from same_field_Some [OF h'(2) assms(2)] fc obtain m where m: "nodes h' f = Some m" "n_first_child m = Some c" by auto
    then have "hd_or (T' f) None = Some c" using first_child_hd [OF F' m(1)] by simp
    then have "c \<in> set (T' f)" by (rule hd_or_set)
    with forest_parent [OF F' this] h'(3) Tf pf show False by (auto simp: sib_def)
  qed
  moreover have "qb_node_first_child h' f = Some (hd_or (T f) None)"
    using same_field_Some [OF h'(2) assms(2)] fc Tf by (auto simp: qb_node_first_child_def)
  moreover have "\<forall>c \<in> set (T f). qb_node_parent h' c = Some (Some p)" using h'(3) by (simp add: qb_node_parent_def)
  ultimately show ?thesis using run pf by blast
qed

lemma fragment_append_no_tree_witness:
  "\<exists>h'. el_append_child sample_dom 6 8 = Some h' \<and> qb_node_first_child h' 8 = Some (Some 9) \<and>
     qb_node_parent h' 9 = Some (Some 6) \<and> qb_node_parent h' 10 = Some (Some 6) \<and> (\<forall>T'. \<not> dom_wf h' T')"
  using fragment_append_no_tree [OF sample_wf, of 8 "sample_node LXB_DOM_NODE_TYPE_DOCUMENT_FRAGMENT 8 None None None (Some 9) (Some 10)" 6]
    sample_path [of 8 6]
  by (auto simp: sample_kids_def sample_nodes_def sample_node_def)

text \<open>The parent pointers of a heap, as a relation.\<close>

definition parents :: "dom \<Rightarrow> (addr \<times> addr) set" where
  "parents h = {(b, q). qb_node_parent h b = Some (Some q)}"

text \<open>
  C14: appendChild does not look above the parent: appending a node (no fragment) to itself or to a node below it
  returns, without an error, with that node as its parent, and leaves a cycle of parents: the node is above itself.
  The result is no forest.
\<close>

theorem append_above_no_tree:
  assumes "dom_wf h T" and "nodes h a = Some n" and "n_type n \<noteq> LXB_DOM_NODE_TYPE_DOCUMENT_FRAGMENT"
    and "p \<in> dom (nodes h)" and "(a, p) \<in> (edges T)\<^sup>*"
  shows "\<exists>h'. el_append_child h p a = Some h' \<and> qb_node_parent h' a = Some (Some p) \<and> (a, a) \<in> (parents h')\<^sup>+ \<and>
     (\<forall>T'. \<not> dom_wf h' T')"
proof -
  note F = dom_wf_forest [OF assms(1)]
  from remove_if_attached_refines [OF assms(1,2)] obtain h1 n1 where
    h1: "remove_if_attached h a = Some h1" "same_payload h h1" "dom_wf h1 (taken T a)" "nodes h1 a = Some n1" "n_parent n1 = None" by blast
  note F1 = dom_wf_forest [OF h1(3)]
  have path: "(a, y) \<in> (edges (taken T a))\<^sup>*" if "(a, y) \<in> (edges T)\<^sup>*" for y
    using that
  proof (induction rule: rtrancl_induct)
    case (step y z)
    then have "(a, z) \<in> (edges T)\<^sup>+" by simp
    then have "z \<noteq> a" using forest_acyclic [OF F] by (auto simp: acyclic_def)
    with step show ?case by (auto simp: taken_edges intro: rtrancl_into_rtrancl)
  qed simp
  obtain t0 where "nodes h p = Some t0" using assms(4) by blast
  from same_payload_alive [OF h1(2) this] obtain t where t: "nodes h1 p = Some t" by blast
  have "nodes h1 l \<noteq> None" if "n_last_child t = Some l" for l
  proof -
    have "last_or (taken T a p) None = Some l" using last_child_last [OF F1 t] that by simp
    from forest_kid_dom [OF F1 last_or_set [OF this]] show ?thesis by auto
  qed
  moreover have "docs h1 (n_owner_document n1) \<noteq> None" using h1(3,4) by (auto simp: dom_wf_def owned_def)
  ultimately obtain h2 where h2: "qb_node_insert_child h1 p a = Some h2" "\<And>b. b \<noteq> a \<Longrightarrow> same_field n_parent h1 h2 b"
    "map_option n_parent (nodes h2 a) = Some (Some p)" using insert_child_fields [OF t h1(4)] by metis
  have run: "el_append_child h p a = Some h2" using assms(2,3) h1(1) h2(1) by (simp add: el_append_child_def qb_node_type_def)
  have "edges (taken T a) \<subseteq> (parents h2)\<inverse>"
  proof clarify
    fix q b assume e: "(q, b) \<in> edges (taken T a)"
    then have "b \<noteq> a" "b \<in> set (taken T a q)" by (auto simp: taken_edges edges_def taken_def)
    with forest_parent [OF F1] obtain pv nx where "sib (nodes h1) b = Some (Some q, pv, nx)" by blast
    then have "map_option n_parent (nodes h1 b) = Some (Some q)" by (auto simp: sib_def)
    with h2(2) [OF \<open>b \<noteq> a\<close>] show "(b, q) \<in> parents h2" by (simp add: same_field_def parents_def qb_node_parent_def)
  qed
  with path [OF assms(5)] have "(a, p) \<in> ((parents h2)\<inverse>)\<^sup>*" using rtrancl_mono by blast
  then have "(p, a) \<in> (parents h2)\<^sup>*" by (simp add: rtrancl_converse)
  moreover have ap: "(a, p) \<in> parents h2" using h2(3) by (simp add: parents_def qb_node_parent_def)
  ultimately have cycle: "(a, a) \<in> (parents h2)\<^sup>+" by (rule rtrancl_into_trancl2 [rotated])
  have "\<not> dom_wf h2 T'" for T'
  proof
    assume "dom_wf h2 T'"
    note F2 = dom_wf_forest [OF this]
    have "parents h2 \<subseteq> (edges T')\<inverse>"
      using forest_child [OF F2] by (fastforce simp: parents_def edges_def sib_def qb_node_parent_def)
    with cycle have "(a, a) \<in> ((edges T')\<inverse>)\<^sup>+" using trancl_mono by blast
    with forest_acyclic [OF F2] show False by (simp add: acyclic_def trancl_converse)
  qed
  with run ap cycle show ?thesis by (auto simp: parents_def)
qed

lemma append_above_no_tree_witness:
  "\<exists>h'. el_append_child sample_dom 3 2 = Some h' \<and> qb_node_parent h' 2 = Some (Some 3) \<and> (2, 2) \<in> (parents h')\<^sup>+ \<and>
     (\<forall>T'. \<not> dom_wf h' T')"
proof -
  have "(2, 3) \<in> edges sample_kids" by (simp add: sample_edges)
  then have "(2, 3) \<in> (edges sample_kids)\<^sup>*" by blast
  then show ?thesis
    by (intro append_above_no_tree [OF sample_wf, of 2 "sample_node LXB_DOM_NODE_TYPE_ELEMENT 101 (Some 1) None None (Some 3) (Some 6)" 3])
      (auto simp: sample_nodes_def sample_node_def)
qed

end
