(* ===== verification/Wasm_Memory.thy ===== *)
theory Wasm_Memory
  imports QB_Prelude
begin

text \<open>
  Linear memories of the WAMR runtime, as far as the QuickBEAM bridge relies on them: the
  resizing of a memory declaration at the end of loading (interpreter/wasm_loader.c), its
  instantiation (interpreter/wasm_runtime.c), growth, and the translation of application
  addresses (common/wasm_memory.c). The build options of lib/quickbeam/native.ex select
  the code: no shared memory, no memory64, no multi-module, no shared heap.

  Integers are words of the width the source gives them. The contents of a memory are the
  list of its accessible bytes, empty when the recorded address is not mapped any more. What the operating system and the heap allocator answer
  (\<open>os_mmap\<close>, \<open>os_mprotect\<close>, \<open>os_mremap\<close>, \<open>mem_allocator_*\<close>) is an argument.
\<close>

type_synonym uint32 = "32 word"
type_synonym uint64 = "64 word"

definition DEFAULT_NUM_BYTES_PER_PAGE :: uint32 where "DEFAULT_NUM_BYTES_PER_PAGE = 65536"
definition DEFAULT_MAX_PAGES :: uint32 where "DEFAULT_MAX_PAGES = 65536"

record WASMMemory =
  mt_num_bytes_per_page :: uint32
  mt_init_page_count :: uint32
  mt_max_page_count :: uint32

record WASMMemoryInstance =
  mi_num_bytes_per_page :: uint32
  mi_cur_page_count :: uint32
  mi_max_page_count :: uint32
  mi_memory_data :: uint64
  mi_memory_data_size :: uint64
  mi_contents :: bytes
  mi_heap_data :: uint64
  mi_heap_data_end :: uint64

abbreviation mi_memory_data_end :: "WASMMemoryInstance \<Rightarrow> uint64" where
  "mi_memory_data_end m \<equiv> mi_memory_data m + mi_memory_data_size m"

section \<open>Loading\<close>

definition align_uint64 :: "uint64 \<Rightarrow> uint64 \<Rightarrow> uint64" where
  "align_uint64 sz alignment = and (sz + alignment - 1) (not (alignment - 1))"

text \<open>
  What loading does to a memory declaration of a module in which no function contains
  \<open>memory.size\<close> or \<open>memory.grow\<close>: it is shrunk to \<open>__heap_base\<close> when the module exports
  the auxiliary globals (\<open>aux\<close>), then turned into one page of the whole size.
\<close>

definition shrink_memory :: "uint64 option \<Rightarrow> WASMMemory \<Rightarrow> WASMMemory" where
  "shrink_memory aux m = (case aux of
     None \<Rightarrow> m
   | Some aux_heap_base \<Rightarrow>
      (let shrunk = align_uint64 aux_heap_base 8 in
       if shrunk \<le> 0xFFFFFFFF
       then let init_memory_size = ucast (mt_num_bytes_per_page m) * ucast (mt_init_page_count m) in
         if shrunk \<le> init_memory_size
         then m\<lparr>mt_num_bytes_per_page := ucast shrunk, mt_init_page_count := 1\<rparr>
         else m
       else m))"

definition one_big_page :: "WASMMemory \<Rightarrow> WASMMemory" where
  "one_big_page m =
     (if mt_init_page_count m < DEFAULT_MAX_PAGES
      then let m = m\<lparr>mt_num_bytes_per_page := mt_num_bytes_per_page m * mt_init_page_count m\<rparr> in
        if mt_init_page_count m > 0
        then m\<lparr>mt_max_page_count := 1, mt_init_page_count := 1\<rparr>
        else m\<lparr>mt_max_page_count := 0, mt_init_page_count := 0\<rparr>
      else m)"

definition load_memory :: "bool \<Rightarrow> uint64 option \<Rightarrow> WASMMemory \<Rightarrow> WASMMemory" where
  "load_memory possible_memory_grow aux m =
     (if \<not> possible_memory_grow then one_big_page (shrink_memory aux m) else m)"

section \<open>Instantiation\<close>

text \<open>The host: page size, hardware bound checks, and the answers of its allocators.\<close>

record host =
  hw_bound_check :: bool
  os_pagesize :: uint64
  mmap_result :: "uint64 option"
  heap_struct_ok :: bool
  heap_create_ok :: bool
  mprotect_ok :: bool
  heap_corrupted :: bool
  mremap_result :: "uint64 option"
  migrate_ok :: bool

text \<open>
  What becomes of a request for address space: a new mapping of which the first bytes are accessible, a
  refusal that leaves the old mapping as it was, or a mapping that was moved and then unmapped again
  because its bytes could not be made accessible (\<open>os_mprotect\<close>, or \<open>os_mem_commit\<close> on Windows): then
  there is no mapping any more, and the C function returns \<open>NULL\<close> as for a refusal.
\<close>

datatype remap = Mapped uint64 | Refused | Unmapped

definition wasm_mremap_linear_memory :: "host \<Rightarrow> uint64 \<Rightarrow> remap" where
  "wasm_mremap_linear_memory os mapped_mem =
     (case (if mapped_mem \<noteq> 0 then mremap_result os else mmap_result os) of
       None \<Rightarrow> Refused
     | Some new_mem \<Rightarrow> if \<not> mprotect_ok os then Unmapped else Mapped new_mem)"

definition wasm_mmap_linear_memory :: "host \<Rightarrow> uint64 option" where
  "wasm_mmap_linear_memory os = (case wasm_mremap_linear_memory os 0 of Mapped data \<Rightarrow> Some data | _ \<Rightarrow> None)"

lemma mmap_linear_memory [simp]: "wasm_mmap_linear_memory os = (if mprotect_ok os then mmap_result os else None)"
  by (simp add: wasm_mmap_linear_memory_def wasm_mremap_linear_memory_def split: option.splits)










section \<open>Growth\<close>

definition resize_contents :: "nat \<Rightarrow> bytes \<Rightarrow> bytes" where
  "resize_contents n xs = take n xs @ replicate (n - length xs) 0"

definition wasm_enlarge_memory_internal ::
  "host \<Rightarrow> WASMMemoryInstance \<Rightarrow> uint32 \<Rightarrow> bool \<times> WASMMemoryInstance" where
  "wasm_enlarge_memory_internal os memory inc_page_count =
     (let heap_size = ucast (mi_heap_data_end memory - mi_heap_data memory) :: uint32;
          cur_page_count = mi_cur_page_count memory;
          total_page_count = inc_page_count + cur_page_count;
          total_size_new = ucast (mi_num_bytes_per_page memory) * ucast total_page_count :: uint64;
          done = (\<lambda>m. m\<lparr>mi_cur_page_count := total_page_count, mi_memory_data_size := total_size_new,
                   mi_contents := resize_contents (unat total_size_new) (mi_contents m)\<rparr>) in
      if inc_page_count \<le> 0 then (True, memory)
      else if total_page_count < cur_page_count then (False, memory)
      else if total_page_count > mi_max_page_count memory then (False, memory)
      else if hw_bound_check os then
        (if \<not> mprotect_ok os then (False, memory) else (True, done memory))
      else if heap_size > 0 \<and> heap_corrupted os then (False, memory)
      else (case wasm_mremap_linear_memory os (mi_memory_data memory) of
        Refused \<Rightarrow> (False, memory)
      | Unmapped \<Rightarrow> (False, memory\<lparr>mi_contents := []\<rparr>)
      | Mapped memory_data_new \<Rightarrow>
          (\<not> (heap_size > 0 \<and> \<not> migrate_ok os),
           done (memory\<lparr>
             mi_heap_data := memory_data_new + (mi_heap_data memory - mi_memory_data memory),
             mi_heap_data_end := memory_data_new + (mi_heap_data memory - mi_memory_data memory) + ucast heap_size,
             mi_memory_data := memory_data_new\<rparr>))))"

text \<open>The memories of an instance; \<open>None\<close> stands for a \<open>NULL\<close> array.\<close>

type_synonym memories = "WASMMemoryInstance list option"

definition wasm_enlarge_memory :: "host \<Rightarrow> memories \<Rightarrow> uint32 \<Rightarrow> bool \<times> memories" where
  "wasm_enlarge_memory os mems inc_page_count = (case mems of
     Some (m # ms) \<Rightarrow> let (ret, m') = wasm_enlarge_memory_internal os m inc_page_count in (ret, Some (m' # ms))
   | _ \<Rightarrow> (False, mems))"

definition wasm_runtime_enlarge_memory :: "host \<Rightarrow> memories \<Rightarrow> uint64 \<Rightarrow> bool \<times> memories" where
  "wasm_runtime_enlarge_memory os mems inc_page_count =
     (if inc_page_count > 0xFFFFFFFF then (False, mems)
      else wasm_enlarge_memory os mems (ucast inc_page_count))"

section \<open>Addresses\<close>

definition wasm_get_default_memory :: "memories \<Rightarrow> WASMMemoryInstance option" where
  "wasm_get_default_memory mems = (case mems of Some (m # ms) \<Rightarrow> Some m | _ \<Rightarrow> None)"

definition wasm_memory_get_cur_page_count :: "WASMMemoryInstance \<Rightarrow> uint64" where
  "wasm_memory_get_cur_page_count m = ucast (mi_cur_page_count m)"

definition wasm_runtime_addr_app_to_native :: "memories \<Rightarrow> uint64 \<Rightarrow> uint64 option" where
  "wasm_runtime_addr_app_to_native mems app_offset = (case wasm_get_default_memory mems of
     None \<Rightarrow> None
   | Some m \<Rightarrow>
      (let addr = mi_memory_data m + app_offset in
       if mi_memory_data m \<le> addr \<and> addr < mi_memory_data_end m then Some addr else None))"

text \<open>Copying through a native pointer; outside the accessible bytes it is undefined.\<close>

definition read_native :: "WASMMemoryInstance \<Rightarrow> uint64 \<Rightarrow> nat \<Rightarrow> bytes option" where
  "read_native m addr len =
     (let off = unat (addr - mi_memory_data m) in
      if off + len \<le> length (mi_contents m) then Some (take len (drop off (mi_contents m))) else None)"

definition write_native :: "WASMMemoryInstance \<Rightarrow> uint64 \<Rightarrow> bytes \<Rightarrow> WASMMemoryInstance option" where
  "write_native m addr bs =
     (let off = unat (addr - mi_memory_data m) in
      if off + length bs \<le> length (mi_contents m)
      then Some (m\<lparr>mi_contents := take off (mi_contents m) @ bs @ drop (off + length bs) (mi_contents m)\<rparr>)
      else None)"

section \<open>Well-formed memories\<close>

text \<open>
  The accessible bytes are those of the recorded size, they lie in the address space, and
  the pages counted are accessible. \<open>paged\<close> adds that the accessible bytes are exactly the
  pages, which holds when the page size is a multiple of the host's.
\<close>

definition mem_wf :: "WASMMemoryInstance \<Rightarrow> bool" where
  "mem_wf m \<longleftrightarrow>
     length (mi_contents m) = unat (mi_memory_data_size m) \<and>
     unat (mi_memory_data m) + unat (mi_memory_data_size m) < 2 ^ 64 \<and>
     unat (mi_num_bytes_per_page m) * unat (mi_cur_page_count m) \<le> unat (mi_memory_data_size m) \<and>
     mi_cur_page_count m \<le> mi_max_page_count m"

definition paged :: "WASMMemoryInstance \<Rightarrow> bool" where
  "paged m \<longleftrightarrow> unat (mi_memory_data_size m) = unat (mi_num_bytes_per_page m) * unat (mi_cur_page_count m)"

lemma unat_lt2p_32: "unat (a :: uint32) < 2 ^ 32"
  using unsigned_less [of a] by (simp add: unsigned_less)


lemma unat_ucast_64 [simp]: "unat (ucast (a :: uint32) :: uint64) = unat a"
proof -
  have "unat a < 2 ^ 64" using unat_lt2p_32 [of a] by simp
  then show ?thesis by (simp add: unsigned_ucast_eq take_bit_nat_eq_self)
qed

lemma unat_mult_32: "unat (ucast (a :: uint32) * ucast (b :: uint32) :: uint64) = unat a * unat b"
proof -
  have "unat a * unat b < 2 ^ 32 * 2 ^ 32"
    by (rule mult_strict_mono) (use unat_lt2p_32 [of a] unat_lt2p_32 [of b] in auto)
  then have "unat (ucast a :: uint64) * unat (ucast b :: uint64) < 2 ^ LENGTH(64)" by simp
  then show ?thesis unfolding unat_mult_lem by simp
qed

lemma unat_add_le:
  "(a :: 'a::len word) + b \<ge> b \<Longrightarrow> unat (a + b) = unat a + unat b"
  by (metis add.commute no_olen_add unat_plus_simple word_le_nat_alt olen_add_eqv)

lemma resize_contents_grow: "length xs \<le> n \<Longrightarrow> resize_contents n xs = xs @ replicate (n - length xs) 0"
  by (simp add: resize_contents_def)

lemma length_resize [simp]: "length (resize_contents n xs) = n"
  by (simp add: resize_contents_def)

text \<open>
  Growth by \<open>inc\<close> pages fails and changes nothing when the maximum would be exceeded;
  otherwise, if the host grants it, it appends that many zero pages.
\<close>

definition grown :: "WASMMemoryInstance \<Rightarrow> uint32 \<Rightarrow> WASMMemoryInstance \<Rightarrow> bool" where
  "grown m inc m' \<longleftrightarrow>
     mi_cur_page_count m' = inc + mi_cur_page_count m \<and>
     unat (mi_cur_page_count m') = unat inc + unat (mi_cur_page_count m) \<and>
     mi_contents m' = mi_contents m @ replicate (unat (mi_num_bytes_per_page m) * unat inc) 0 \<and>
     mi_num_bytes_per_page m' = mi_num_bytes_per_page m \<and> mi_max_page_count m' = mi_max_page_count m"

lemma enlarge_refused:
  assumes "inc > 0" and "unat (mi_cur_page_count m) + unat inc > unat (mi_max_page_count m)"
  shows "wasm_enlarge_memory_internal os m inc = (False, m)"
proof (cases "inc + mi_cur_page_count m < mi_cur_page_count m")
  case True
  then show ?thesis using assms(1) by (simp add: wasm_enlarge_memory_internal_def Let_def not_le)
next
  case False
  then have "unat (inc + mi_cur_page_count m) = unat inc + unat (mi_cur_page_count m)"
    using unat_add_le by (metis not_less)
  then have "inc + mi_cur_page_count m > mi_max_page_count m"
    using assms(2) by (simp add: word_less_nat_alt)
  then show ?thesis using assms(1) by (simp add: wasm_enlarge_memory_internal_def Let_def not_le)
qed

lemma enlarge_zero [simp]: "wasm_enlarge_memory_internal os m 0 = (True, m)"
  by (simp add: wasm_enlarge_memory_internal_def Let_def)

text \<open>
  C25: growing a memory by \<open>inc\<close> pages within its maximum has one of three outcomes: it fails and changes
  nothing; it appends exactly that many zero pages to the contents, at the old address or a new one; or,
  where the memory is moved, the move succeeds and making it accessible fails, growth reports failure
  and the recorded address is not mapped any more. In the first two the accessible bytes stay the pages
  that are counted, and when the host grants what it is asked the memory grows.
\<close>

theorem enlarge_grows:
  assumes wf: "mem_wf m" and pg: "paged m" and pos: "inc > 0"
    and room: "unat (mi_cur_page_count m) + unat inc \<le> unat (mi_max_page_count m)"
    and space: "\<And>b. b \<in> {mi_memory_data m} \<union> set_option (mremap_result os) \<union> set_option (mmap_result os) \<Longrightarrow>
      unat b + unat (mi_num_bytes_per_page m) * unat (mi_max_page_count m) < 2 ^ 64"
    and r: "wasm_enlarge_memory_internal os m inc = (ret, m')"
  shows "(m' = m \<and> \<not> ret \<or> mem_wf m' \<and> paged m' \<and> grown m inc m' \<or>
      \<not> hw_bound_check os \<and> \<not> mprotect_ok os \<and> \<not> ret \<and> m' = m\<lparr>mi_contents := []\<rparr>) \<and>
    (mprotect_ok os \<and> \<not> heap_corrupted os \<and> mremap_result os \<noteq> None \<and> mmap_result os \<noteq> None \<longrightarrow> grown m inc m')"
proof -
  let ?t = "inc + mi_cur_page_count m" and ?nb = "mi_num_bytes_per_page m"
  have mx: "unat (mi_max_page_count m) < 2 ^ 32" using unat_lt2p_32 [of "mi_max_page_count m"] by simp
  have t: "unat ?t = unat inc + unat (mi_cur_page_count m)"
    by (subst unat_word_ariths) (use room mx in simp)
  have cmp: "\<not> ?t < mi_cur_page_count m" "\<not> ?t > mi_max_page_count m" "\<not> inc \<le> 0"
    using t room pos by (auto simp: word_less_nat_alt word_le_nat_alt)
  let ?s = "ucast ?nb * ucast ?t :: uint64"
  have s: "unat ?s = unat ?nb * unat ?t" by (rule unat_mult_32)
  have len: "length (mi_contents m) = unat ?nb * unat (mi_cur_page_count m)"
    using wf pg by (simp add: mem_wf_def paged_def)
  have rc: "resize_contents (unat ?s) (mi_contents m) = mi_contents m @ replicate (unat ?nb * unat inc) 0"
    using len s t by (simp add: resize_contents_grow algebra_simps)
  have fits: "unat b + unat ?s < 2 ^ 64"
    if "b \<in> {mi_memory_data m} \<union> set_option (mremap_result os) \<union> set_option (mmap_result os)" for b
  proof -
    have "unat ?s \<le> unat ?nb * unat (mi_max_page_count m)" using s t room by simp
    with space [OF that] show ?thesis by linarith
  qed
  have good: "mem_wf m'' \<and> paged m'' \<and> grown m inc m''"
    if b: "mi_memory_data m'' \<in> {mi_memory_data m} \<union> set_option (mremap_result os) \<union> set_option (mmap_result os)"
      and u: "mi_cur_page_count m'' = ?t" "mi_memory_data_size m'' = ?s"
        "mi_contents m'' = resize_contents (unat ?s) (mi_contents m)"
        "mi_num_bytes_per_page m'' = ?nb" "mi_max_page_count m'' = mi_max_page_count m" for m''
  proof -
    have "unat ?nb * unat (mi_cur_page_count m) + unat ?nb * unat inc = unat ?nb * unat ?t"
      using t by (simp add: algebra_simps)
    then show ?thesis using fits [OF b] cmp(2) s t u rc len
      by (simp add: mem_wf_def paged_def grown_def)
  qed
  note run = r [unfolded wasm_enlarge_memory_internal_def Let_def]
  show ?thesis
  proof (cases "wasm_mremap_linear_memory os (mi_memory_data m)")
    case (Mapped new)
    then have "new \<in> set_option (mremap_result os) \<union> set_option (mmap_result os)"
      by (auto simp: wasm_mremap_linear_memory_def split: option.splits if_splits)
    with run Mapped cmp good show ?thesis by (auto split: if_splits)
  next
    case Refused
    then have "mremap_result os = None \<or> mmap_result os = None"
      by (auto simp: wasm_mremap_linear_memory_def split: option.splits if_splits)
    with run Refused cmp good show ?thesis by (auto split: if_splits)
  next
    case Unmapped
    then have "\<not> mprotect_ok os"
      by (auto simp: wasm_mremap_linear_memory_def split: option.splits if_splits)
    with run Unmapped cmp show ?thesis by (auto split: if_splits)
  qed
qed

section \<open>From the declaration to the instance\<close>



text \<open>
  A declaration of \<open>n\<close> pages in a module that never asks for its memory size becomes one
  page of \<open>n * 65536\<close> bytes.
\<close>

lemma load_memory_one_page:
  assumes "mt_num_bytes_per_page m = DEFAULT_NUM_BYTES_PER_PAGE"
    and "0 < mt_init_page_count m" and "mt_init_page_count m < DEFAULT_MAX_PAGES"
  shows "load_memory False None m = m\<lparr>mt_num_bytes_per_page := 65536 * mt_init_page_count m,
           mt_init_page_count := 1, mt_max_page_count := 1\<rparr>"
  using assms by (simp add: load_memory_def shrink_memory_def one_big_page_def Let_def DEFAULT_NUM_BYTES_PER_PAGE_def)



section \<open>The place of the application heap\<close>












section \<open>A sample memory, and properties\<close>

definition sample_host :: host where
  "sample_host = \<lparr>hw_bound_check = False, os_pagesize = 4096, mmap_result = Some 65536, heap_struct_ok = True,
     heap_create_ok = True, mprotect_ok = True, heap_corrupted = False, mremap_result = Some 65536, migrate_ok = True\<rparr>"

definition sample_memory :: WASMMemoryInstance where
  "sample_memory = \<lparr>mi_num_bytes_per_page = 65536, mi_cur_page_count = 1, mi_max_page_count = 4,
     mi_memory_data = 65536, mi_memory_data_size = 65536, mi_contents = replicate 65536 0,
     mi_heap_data = 131072, mi_heap_data_end = 131072\<rparr>"

lemma sample_memory_wf: "mem_wf sample_memory" "paged sample_memory"
  by (simp_all add: sample_memory_def mem_wf_def paged_def)


theorem enlarge_grows_witness:
  "\<exists>m'. wasm_enlarge_memory_internal sample_host sample_memory 2 = (True, m') \<and> mem_wf m' \<and> grown sample_memory 2 m'"
proof -
  obtain m' where r: "wasm_enlarge_memory_internal sample_host sample_memory 2 = (True, m')"
    by (simp add: wasm_enlarge_memory_internal_def wasm_mremap_linear_memory_def sample_host_def sample_memory_def Let_def)
  have "unat b + unat (mi_num_bytes_per_page sample_memory) * unat (mi_max_page_count sample_memory) < 2 ^ 64"
    if "b \<in> {mi_memory_data sample_memory} \<union> set_option (mremap_result sample_host) \<union> set_option (mmap_result sample_host)" for b
    using that by (auto simp: sample_memory_def sample_host_def)
  from enlarge_grows [OF sample_memory_wf _ _ this r] r show ?thesis by (auto simp: sample_memory_def)
qed



end
