(* ===== verification/Wamr_Lifecycle.thy ===== *)
theory Wamr_Lifecycle
  imports Wasm_Memory "HOL-Library.Multiset"
begin

text \<open>
  The life cycle of WebAssembly modules and instances in priv/c_src/wamr_bridge.c: what
  each function allocates, loads, instantiates and registers, and what it gives back on
  every path. The WAMR runtime is seen through the resources it hands out; each request
  that may fail (\<open>malloc\<close>, \<open>wasm_runtime_load\<close>, ...) consumes one answer of \<open>plan\<close>. It is up while its
  reference count is positive; when it is down loading, instantiating and registering fail, unloading
  and destroying an execution environment free nothing, and deinstantiating uses a destroyed lock.
  Using a resource that is not live is undefined behaviour (\<open>None\<close>).
\<close>

section \<open>The state\<close>

record WamrModule =
  wm_module :: "addr option"
  wm_wasm_buf :: "addr option"
  wm_source_buf :: "addr option"
  wm_wasm_len :: nat

record WamrInstance =
  wi_inst :: "addr option"
  wi_exec_env :: "addr option"
  wi_mod :: addr
  wi_loaded_module :: "addr option"
  wi_loaded_wasm_buf :: "addr option"

record WamrNativeModule =
  nm_module_name :: "string option"
  nm_symbols :: "addr option"
  nm_symbol_count :: nat

text \<open>
  \<open>loaded\<close> maps a module to the buffer it was loaded from (its strings and code stay in
  that buffer), \<open>insts\<close> an instance to its module, \<open>envs\<close> an execution environment to its
  instance; \<open>natives\<close> is the list of registered native symbols, the latest first.
  \<open>rewrite\<close> is what loading does to the bytes of the buffer. \<open>runtime_ref_count\<close> is the runtime's own
  count of its users (common/wasm_runtime_common.c); while it is 0 there is no allocator
  (\<open>memory_mode\<close> is unknown), no list of external references and no lock on it.
\<close>

record wamr =
  g_initialized :: bool
  runtime_ref_count :: nat
  bufs :: "addr \<rightharpoonup> bytes"
  loaded :: "addr \<rightharpoonup> addr"
  insts :: "addr \<rightharpoonup> addr"
  envs :: "addr \<rightharpoonup> addr"
  natives :: "WamrNativeModule list"
  wmods :: "addr \<rightharpoonup> WamrModule"
  winsts :: "addr \<rightharpoonup> WamrInstance"
  next_addr :: addr
  requests :: nat
  plan :: "nat \<Rightarrow> bool"
  rewrite :: "bytes \<Rightarrow> bytes"

datatype wamr_error = Error string | RuntimeError

section \<open>The C library and the runtime\<close>

text \<open>
  While the runtime is down its allocator grants nothing and frees nothing (\<open>wasm_runtime_malloc\<close> and
  \<open>wasm_runtime_free\<close> in common/wasm_memory.c): loading, instantiating and registering fail, and unloading a
  module or destroying an execution environment leaks it. Deinstantiation takes the lock on the external
  references, which is destroyed: undefined behaviour.
\<close>

definition runtime_up :: "wamr \<Rightarrow> bool" where
  "runtime_up s \<longleftrightarrow> 0 < runtime_ref_count s"

definition ask :: "wamr \<Rightarrow> bool \<times> wamr" where
  "ask s = (plan s (requests s), s\<lparr>requests := requests s + 1\<rparr>)"

definition new_addr :: "wamr \<Rightarrow> addr \<times> wamr" where
  "new_addr s = (next_addr s, s\<lparr>next_addr := next_addr s + 1\<rparr>)"

definition malloc_buf :: "wamr \<Rightarrow> nat \<Rightarrow> addr option \<times> wamr" where
  "malloc_buf s len =
     (let (ok, s) = ask s in
      if ok then let (a, s) = new_addr s in (Some a, s\<lparr>bufs := (bufs s)(a \<mapsto> replicate len 0)\<rparr>)
      else (None, s))"

definition free_buf :: "wamr \<Rightarrow> addr option \<Rightarrow> wamr option" where
  "free_buf s p = (case p of
     None \<Rightarrow> Some s
   | Some a \<Rightarrow> if a \<in> dom (bufs s) then Some (s\<lparr>bufs := (bufs s)(a := None)\<rparr>) else None)"

definition memcpy_buf :: "wamr \<Rightarrow> addr \<Rightarrow> bytes \<Rightarrow> wamr option" where
  "memcpy_buf s a bs = (case bufs s a of
     None \<Rightarrow> None
   | Some old \<Rightarrow> if length bs \<le> length old
       then Some (s\<lparr>bufs := (bufs s)(a \<mapsto> bs @ drop (length bs) old)\<rparr>) else None)"

definition wasm_runtime_load :: "wamr \<Rightarrow> addr \<Rightarrow> (addr option \<times> wamr) option" where
  "wasm_runtime_load s a = (case bufs s a of
     None \<Rightarrow> None
   | Some bs \<Rightarrow>
      if \<not> runtime_up s then Some (None, s)
      else (let (ok, s) = ask (s\<lparr>bufs := (bufs s)(a \<mapsto> rewrite s bs)\<rparr>) in
       if ok then let (m, s) = new_addr s in Some (Some m, s\<lparr>loaded := (loaded s)(m \<mapsto> a)\<rparr>)
       else Some (None, s)))"

definition wasm_runtime_unload :: "wamr \<Rightarrow> addr \<Rightarrow> wamr option" where
  "wasm_runtime_unload s m = (case loaded s m of
     None \<Rightarrow> None
   | Some b \<Rightarrow> if b \<notin> dom (bufs s) then None
       else Some (if runtime_up s then s\<lparr>loaded := (loaded s)(m := None)\<rparr> else s))"

definition wasm_runtime_instantiate :: "wamr \<Rightarrow> addr \<Rightarrow> (addr option \<times> wamr) option" where
  "wasm_runtime_instantiate s m = (case loaded s m of
     None \<Rightarrow> None
   | Some b \<Rightarrow>
      if b \<notin> dom (bufs s) then None
      else if \<not> runtime_up s then Some (None, s)
      else let (ok, s) = ask s in
        if ok then let (i, s) = new_addr s in Some (Some i, s\<lparr>insts := (insts s)(i \<mapsto> m)\<rparr>)
        else Some (None, s))"

definition wasm_runtime_deinstantiate :: "wamr \<Rightarrow> addr \<Rightarrow> wamr option" where
  "wasm_runtime_deinstantiate s i = (case insts s i of
     None \<Rightarrow> None
   | Some m \<Rightarrow> if m \<in> dom (loaded s) \<and> runtime_up s then Some (s\<lparr>insts := (insts s)(i := None)\<rparr>) else None)"

definition wasm_runtime_create_exec_env :: "wamr \<Rightarrow> addr \<Rightarrow> (addr option \<times> wamr) option" where
  "wasm_runtime_create_exec_env s i =
     (if i \<notin> dom (insts s) then None
      else if \<not> runtime_up s then Some (None, s)
      else let (ok, s) = ask s in
        if ok then let (e, s) = new_addr s in Some (Some e, s\<lparr>envs := (envs s)(e \<mapsto> i)\<rparr>)
        else Some (None, s))"

definition wasm_runtime_destroy_exec_env :: "wamr \<Rightarrow> addr \<Rightarrow> wamr option" where
  "wasm_runtime_destroy_exec_env s e = (case envs s e of
     None \<Rightarrow> None
   | Some i \<Rightarrow> if i \<notin> dom (insts s) then None
       else Some (if runtime_up s then s\<lparr>envs := (envs s)(e := None)\<rparr> else s))"

text \<open>common/wasm_native.c: a new node goes to the head of the list; the first match is removed.\<close>

definition wasm_runtime_register_natives_raw :: "wamr \<Rightarrow> WamrNativeModule \<Rightarrow> bool \<times> wamr" where
  "wasm_runtime_register_natives_raw s n =
     (if \<not> runtime_up s then (False, s)
      else let (ok, s) = ask s in if ok then (True, s\<lparr>natives := n # natives s\<rparr>) else (False, s))"

fun unregister_node :: "WamrNativeModule list \<Rightarrow> string \<Rightarrow> addr \<Rightarrow> (bool \<times> WamrNativeModule list) option" where
  "unregister_node [] module_name native_symbols = Some (False, [])"
| "unregister_node (node # rest) module_name native_symbols =
     (if nm_symbols node = Some native_symbols
      then (case nm_module_name node of
        None \<Rightarrow> None
      | Some name \<Rightarrow>
          if name = module_name then Some (True, rest)
          else map_option (\<lambda>(r, l). (r, node # l)) (unregister_node rest module_name native_symbols))
      else map_option (\<lambda>(r, l). (r, node # l)) (unregister_node rest module_name native_symbols))"

definition wasm_runtime_unregister_natives :: "wamr \<Rightarrow> string \<Rightarrow> addr \<Rightarrow> (bool \<times> wamr) option" where
  "wasm_runtime_unregister_natives s module_name native_symbols =
     map_option (\<lambda>(r, l). (r, s\<lparr>natives := l\<rparr>)) (unregister_node (natives s) module_name native_symbols)"

text \<open>
  Only the first user sets the runtime up, only the last one takes it down: the native symbols are freed,
  then the allocator is switched off. A count below 0 trips an assertion.
\<close>

definition wasm_runtime_init :: "wamr \<Rightarrow> bool \<times> wamr" where
  "wasm_runtime_init s =
     (let (ret, s) = (if runtime_ref_count s = 0 then ask s else (True, s)) in
      (ret, if ret then s\<lparr>runtime_ref_count := runtime_ref_count s + 1\<rparr> else s))"

definition wasm_runtime_destroy :: "wamr \<Rightarrow> wamr option" where
  "wasm_runtime_destroy s =
     (if runtime_ref_count s = 0 then None
      else let s = s\<lparr>runtime_ref_count := runtime_ref_count s - 1\<rparr> in
        Some (if runtime_ref_count s = 0 then s\<lparr>natives := []\<rparr> else s))"

section \<open>wamr_bridge.c\<close>

definition wamr_bridge_init :: "wamr \<Rightarrow> bool \<times> wamr" where
  "wamr_bridge_init s =
     (if g_initialized s then (True, s)
      else let (ok, s) = wasm_runtime_init s in
        if \<not> ok then (False, s) else (True, s\<lparr>g_initialized := True\<rparr>))"

definition wamr_bridge_destroy :: "wamr \<Rightarrow> wamr option" where
  "wamr_bridge_destroy s =
     (if g_initialized s then do {
        s \<leftarrow> wasm_runtime_destroy s;
        Some (s\<lparr>g_initialized := False\<rparr>) }
      else Some s)"

definition wamr_bridge_compile :: "wamr \<Rightarrow> bytes \<Rightarrow> ((wamr_error + addr) \<times> wamr) option" where
  "wamr_bridge_compile s bytes =
     (if \<not> g_initialized s then Some (Inl (Error ''WAMR not initialized''), s)
      else do {
        let (buf, s) = malloc_buf s (length bytes);
        let (source_buf, s) = malloc_buf s (length bytes);
        (case (buf, source_buf) of
          (Some b, Some sb) \<Rightarrow> do {
            s \<leftarrow> memcpy_buf s b bytes;
            s \<leftarrow> memcpy_buf s sb bytes;
            (module, s) \<leftarrow> wasm_runtime_load s b;
            (case module of
              None \<Rightarrow> do {
                s \<leftarrow> free_buf s buf;
                s \<leftarrow> free_buf s source_buf;
                Some (Inl RuntimeError, s) }
            | Some m \<Rightarrow> do {
                let (ok, s) = ask s;
                (if \<not> ok then do {
                   s \<leftarrow> wasm_runtime_unload s m;
                   s \<leftarrow> free_buf s buf;
                   s \<leftarrow> free_buf s source_buf;
                   Some (Inl (Error ''out of memory''), s) }
                 else do {
                   let (md, s) = new_addr s;
                   Some (Inr md, s\<lparr>wmods := (wmods s)(md \<mapsto>
                     \<lparr>wm_module = module, wm_wasm_buf = buf, wm_source_buf = source_buf,
                      wm_wasm_len = length bytes\<rparr>)\<rparr>) }) }) }
        | _ \<Rightarrow> do {
            s \<leftarrow> free_buf s buf;
            s \<leftarrow> free_buf s source_buf;
            Some (Inl (Error ''out of memory''), s) }) })"

definition wamr_bridge_free_module :: "wamr \<Rightarrow> addr option \<Rightarrow> wamr option" where
  "wamr_bridge_free_module s md = (case md of
     None \<Rightarrow> Some s
   | Some a \<Rightarrow> do {
       md \<leftarrow> wmods s a;
       s \<leftarrow> (case wm_module md of None \<Rightarrow> Some s | Some m \<Rightarrow> wasm_runtime_unload s m);
       s \<leftarrow> free_buf s (wm_wasm_buf md);
       s \<leftarrow> free_buf s (wm_source_buf md);
       Some (s\<lparr>wmods := (wmods s)(a := None)\<rparr>) })"

definition wamr_bridge_validate :: "wamr \<Rightarrow> bytes \<Rightarrow> (bool \<times> wamr) option" where
  "wamr_bridge_validate s bytes = do {
     let (up, s) = (if g_initialized s then (True, s) else wamr_bridge_init s);
     (if \<not> up then Some (False, s)
      else do {
        let (buf, s) = malloc_buf s (length bytes);
        (case buf of
          None \<Rightarrow> Some (False, s)
        | Some b \<Rightarrow> do {
            s \<leftarrow> memcpy_buf s b bytes;
            (module, s) \<leftarrow> wasm_runtime_load s b;
            (case module of
              None \<Rightarrow> do { s \<leftarrow> free_buf s buf; Some (False, s) }
            | Some m \<Rightarrow> do {
                s \<leftarrow> wasm_runtime_unload s m;
                s \<leftarrow> free_buf s buf;
                Some (True, s) }) }) }) }"

fun unregister_native_modules :: "wamr \<Rightarrow> WamrNativeModule list \<Rightarrow> wamr option" where
  "unregister_native_modules s [] = Some s"
| "unregister_native_modules s (n # ns) = do {
     s \<leftarrow> (case (nm_module_name n, nm_symbols n) of
            (Some name, Some symbols) \<Rightarrow> map_option snd (wasm_runtime_unregister_natives s name symbols)
          | _ \<Rightarrow> Some s);
     unregister_native_modules s ns }"

text \<open>The loop of \<open>register_native_modules\<close>: \<open>pre\<close> are the modules registered so far.\<close>

fun register_native_loop ::
  "wamr \<Rightarrow> WamrNativeModule list \<Rightarrow> WamrNativeModule list \<Rightarrow> ((wamr_error + unit) \<times> wamr) option" where
  "register_native_loop s pre [] = Some (Inr (), s)"
| "register_native_loop s pre (n # ns) =
     (let (ok, s) = wasm_runtime_register_natives_raw s n in
      if \<not> ok then do {
        s \<leftarrow> unregister_native_modules s pre;
        Some (Inl (Error ''failed to register host imports''), s) }
      else register_native_loop s (pre @ [n]) ns)"

definition register_native_modules ::
  "wamr \<Rightarrow> WamrNativeModule list \<Rightarrow> ((wamr_error + unit) \<times> wamr) option" where
  "register_native_modules s modules =
     (if modules = [] then Some (Inr (), s) else register_native_loop s [] modules)"

text \<open>The part of \<open>start_instance\<close> that loads a private copy of the module for its native imports.\<close>

definition load_private ::
  "wamr \<Rightarrow> WamrModule \<Rightarrow> WamrNativeModule list \<Rightarrow>
   ((wamr_error + addr option \<times> addr option) \<times> wamr) option" where
  "load_private s md modules =
     (if length modules > 0 then do {
        let (buf, s) = malloc_buf s (wm_wasm_len md);
        (case buf of
          None \<Rightarrow> do {
            s \<leftarrow> unregister_native_modules s modules;
            Some (Inl (Error ''out of memory''), s) }
        | Some b \<Rightarrow> do {
            src \<leftarrow> wm_source_buf md;
            bytes \<leftarrow> bufs s src;
            s \<leftarrow> memcpy_buf s b (take (wm_wasm_len md) bytes);
            (module, s) \<leftarrow> wasm_runtime_load s b;
            (case module of
              None \<Rightarrow> do {
                s \<leftarrow> free_buf s buf;
                s \<leftarrow> unregister_native_modules s modules;
                Some (Inl RuntimeError, s) }
            | Some m \<Rightarrow> Some (Inr (module, buf), s)) }) }
      else Some (Inr (None, None), s))"

text \<open>The common tail of the error paths after loading.\<close>

definition undo_load ::
  "wamr \<Rightarrow> addr option \<Rightarrow> addr option \<Rightarrow> WamrNativeModule list \<Rightarrow> wamr option" where
  "undo_load s loaded_module loaded_wasm_buf modules = do {
     s \<leftarrow> (case loaded_module of None \<Rightarrow> Some s | Some m \<Rightarrow> wasm_runtime_unload s m);
     s \<leftarrow> free_buf s loaded_wasm_buf;
     unregister_native_modules s modules }"

definition start_instance ::
  "wamr \<Rightarrow> addr option \<Rightarrow> WamrNativeModule list \<Rightarrow> ((wamr_error + addr) \<times> wamr) option" where
  "start_instance s mda modules = (case mda of
     None \<Rightarrow> Some (Inl (Error ''null module''), s)
   | Some a \<Rightarrow> do {
       md \<leftarrow> wmods s a;
       (case wm_module md of
         None \<Rightarrow> Some (Inl (Error ''null module''), s)
       | Some base \<Rightarrow> do {
           (r, s) \<leftarrow> register_native_modules s modules;
           (case r of
             Inl e \<Rightarrow> Some (Inl e, s)
           | Inr _ \<Rightarrow> do {
               (r, s) \<leftarrow> load_private s md modules;
               (case r of
                 Inl e \<Rightarrow> Some (Inl e, s)
               | Inr (loaded_module, loaded_wasm_buf) \<Rightarrow> do {
                   (inst, s) \<leftarrow> wasm_runtime_instantiate s
                     (case loaded_module of Some m \<Rightarrow> m | None \<Rightarrow> base);
                   (case inst of
                     None \<Rightarrow> do {
                       s \<leftarrow> undo_load s loaded_module loaded_wasm_buf modules;
                       Some (Inl RuntimeError, s) }
                   | Some i \<Rightarrow> do {
                       (exec_env, s) \<leftarrow> wasm_runtime_create_exec_env s i;
                       (case exec_env of
                         None \<Rightarrow> do {
                           s \<leftarrow> wasm_runtime_deinstantiate s i;
                           s \<leftarrow> undo_load s loaded_module loaded_wasm_buf modules;
                           Some (Inl (Error ''failed to create exec env''), s) }
                       | Some e \<Rightarrow> do {
                           let (ok, s) = ask s;
                           (if \<not> ok then do {
                              s \<leftarrow> wasm_runtime_destroy_exec_env s e;
                              s \<leftarrow> wasm_runtime_deinstantiate s i;
                              s \<leftarrow> undo_load s loaded_module loaded_wasm_buf modules;
                              Some (Inl (Error ''out of memory''), s) }
                            else do {
                              let (wi, s) = new_addr s;
                              Some (Inr wi, s\<lparr>winsts := (winsts s)(wi \<mapsto>
                                \<lparr>wi_inst = inst, wi_exec_env = exec_env, wi_mod = a,
                                 wi_loaded_module = loaded_module,
                                 wi_loaded_wasm_buf = loaded_wasm_buf\<rparr>)\<rparr>) }) }) }) }) }) }) })"

definition wamr_bridge_start where
  "wamr_bridge_start s md = start_instance s md []"

definition wamr_bridge_start_with_native_modules where
  "wamr_bridge_start_with_native_modules s md modules = start_instance s md modules"

definition wamr_bridge_unregister_native_modules where
  "wamr_bridge_unregister_native_modules s modules = unregister_native_modules s modules"

definition wamr_bridge_stop :: "wamr \<Rightarrow> addr option \<Rightarrow> wamr option" where
  "wamr_bridge_stop s wi = (case wi of
     None \<Rightarrow> Some s
   | Some a \<Rightarrow> do {
       wi \<leftarrow> winsts s a;
       s \<leftarrow> (case wi_exec_env wi of None \<Rightarrow> Some s | Some e \<Rightarrow> wasm_runtime_destroy_exec_env s e);
       s \<leftarrow> (case wi_inst wi of None \<Rightarrow> Some s | Some i \<Rightarrow> wasm_runtime_deinstantiate s i);
       s \<leftarrow> (case wi_loaded_module wi of None \<Rightarrow> Some s | Some m \<Rightarrow> wasm_runtime_unload s m);
       s \<leftarrow> free_buf s (wi_loaded_wasm_buf wi);
       Some (s\<lparr>winsts := (winsts s)(a := None)\<rparr>) })"


section \<open>Resources\<close>

text \<open>What the process holds; two states with the same resources differ by fresh names and answers only.\<close>

definition same_resources :: "wamr \<Rightarrow> wamr \<Rightarrow> bool" where
  "same_resources s s' \<longleftrightarrow>
     bufs s' = bufs s \<and> loaded s' = loaded s \<and> insts s' = insts s \<and> envs s' = envs s \<and>
     natives s' = natives s \<and> wmods s' = wmods s \<and> winsts s' = winsts s"

definition same_runtime :: "wamr \<Rightarrow> wamr \<Rightarrow> bool" where
  "same_runtime s s' \<longleftrightarrow> runtime_ref_count s' = runtime_ref_count s \<and> g_initialized s' = g_initialized s"

definition bounded :: "wamr \<Rightarrow> bool" where
  "bounded s \<longleftrightarrow> (\<forall>a\<ge>next_addr s. bufs s a = None \<and> loaded s a = None \<and> insts s a = None \<and>
     envs s a = None \<and> wmods s a = None \<and> winsts s a = None)"

lemma boundedD:
  "bounded s \<Longrightarrow> next_addr s \<le> a \<Longrightarrow> bufs s a = None \<and> loaded s a = None \<and> insts s a = None \<and>
     envs s a = None \<and> wmods s a = None \<and> winsts s a = None"
  by (simp add: bounded_def)

lemma same_resources_refl [simp]: "same_resources s s"
  by (simp add: same_resources_def)

lemma same_resources_trans: "same_resources s t \<Longrightarrow> same_resources t u \<Longrightarrow> same_resources s u"
  by (simp add: same_resources_def)

named_theorems run \<open>definitions of the C library and runtime calls\<close>

declare ask_def [run] new_addr_def [run] malloc_buf_def [run] free_buf_def [run] memcpy_buf_def [run]
  wasm_runtime_load_def [run] wasm_runtime_unload_def [run] wasm_runtime_instantiate_def [run]
  wasm_runtime_deinstantiate_def [run] wasm_runtime_create_exec_env_def [run]
  wasm_runtime_destroy_exec_env_def [run] runtime_up_def [run] Let_def [run]

text \<open>
  What a successful compilation adds: a buffer with the rewritten bytes, a pristine copy,
  the module loaded from the first, and the struct that holds them.
\<close>

definition compiled :: "wamr \<Rightarrow> bytes \<Rightarrow> addr \<Rightarrow> wamr \<Rightarrow> bool" where
  "compiled s bytes md s' \<longleftrightarrow> runtime_up s' \<and> same_runtime s s' \<and> (\<exists>b sb m.
     distinct [b, sb, m, md] \<and> next_addr s \<le> b \<and> next_addr s \<le> sb \<and> next_addr s \<le> m \<and> next_addr s \<le> md \<and>
     bufs s' = (bufs s)(b \<mapsto> rewrite s bytes, sb \<mapsto> bytes) \<and> loaded s' = (loaded s)(m \<mapsto> b) \<and>
     insts s' = insts s \<and> envs s' = envs s \<and> natives s' = natives s \<and> winsts s' = winsts s \<and>
     wmods s' = (wmods s)(md \<mapsto> \<lparr>wm_module = Some m, wm_wasm_buf = Some b, wm_source_buf = Some sb,
       wm_wasm_len = length bytes\<rparr>))"

lemma compiledI:
  assumes "runtime_up s'" "same_runtime s s'"
    and "b \<ge> next_addr s" and "bufs s' = (bufs s)(b + 1 \<mapsto> bytes, b \<mapsto> rewrite s bytes)"
    and "loaded s' = (loaded s)(b + 2 \<mapsto> b)"
    and "insts s' = insts s" and "envs s' = envs s" and "natives s' = natives s" and "winsts s' = winsts s"
    and "wmods s' = (wmods s)(b + 3 \<mapsto> \<lparr>wm_module = Some (b + 2), wm_wasm_buf = Some b,
       wm_source_buf = Some (b + 1), wm_wasm_len = length bytes\<rparr>)"
  shows "compiled s bytes (b + 3) s'"
  unfolding compiled_def
  by (intro conjI assms(1-2), rule exI [of _ b], rule exI [of _ "b + 1"], rule exI [of _ "b + 2"]) (use assms in \<open>simp add: fun_upd_twist\<close>)

lemma bounded_unused:
  assumes "bounded s" and "next_addr s \<le> a"
  shows "(bufs s)(a := None) = bufs s" and "(loaded s)(a := None) = loaded s" and "(insts s)(a := None) = insts s"
    and "(envs s)(a := None) = envs s" and "(wmods s)(a := None) = wmods s" and "(winsts s)(a := None) = winsts s"
  using boundedD [OF assms] by (auto simp: fun_eq_iff)

lemma compile_spec:
  assumes b: "bounded s" and init: "g_initialized s"
  shows "\<exists>r s'. wamr_bridge_compile s bytes = Some (r, s') \<and> bounded s' \<and> same_runtime s s' \<and>
     (case r of Inl e \<Rightarrow> same_resources s s' | Inr md \<Rightarrow> compiled s bytes md s')"
  using b init boundedD [OF b] bounded_unused [OF b] compiledI [of _ s "next_addr s"]
  unfolding wamr_bridge_compile_def
  by (cases "runtime_ref_count s = 0"; cases "plan s (requests s)"; cases "plan s (Suc (requests s))";
      cases "plan s (Suc (Suc (requests s)))"; cases "plan s (Suc (Suc (Suc (requests s))))")
    (simp_all add: run bounded_def same_resources_def same_runtime_def eval_nat_numeral)

text \<open>Freeing the module returns everything compilation took.\<close>

lemma compile_free_restores:
  assumes b: "bounded s" and c: "compiled s bytes md s'"
  shows "\<exists>s''. wamr_bridge_free_module s' (Some md) = Some s'' \<and> same_resources s s'' \<and> next_addr s'' = next_addr s'"
proof -
  from c obtain x y m where d: "distinct [x, y, m, md]" "next_addr s \<le> x" "next_addr s \<le> y" "next_addr s \<le> m"
      "next_addr s \<le> md"
    and u: "bufs s' = (bufs s)(x \<mapsto> rewrite s bytes, y \<mapsto> bytes)" "loaded s' = (loaded s)(m \<mapsto> x)"
      "insts s' = insts s" "envs s' = envs s" "natives s' = natives s" "winsts s' = winsts s"
      "wmods s' = (wmods s)(md \<mapsto> \<lparr>wm_module = Some m, wm_wasm_buf = Some x, wm_source_buf = Some y,
       wm_wasm_len = length bytes\<rparr>)" by (auto simp: compiled_def)
  moreover have "runtime_ref_count s' \<noteq> 0" using c by (simp add: compiled_def runtime_up_def)
  ultimately show ?thesis using bounded_unused [OF b]
    by (simp add: wamr_bridge_free_module_def run same_resources_def fun_upd_twist)
qed

lemma validate_restores:
  assumes b: "bounded s"
  shows "\<exists>r s'. wamr_bridge_validate s bytes = Some (r, s') \<and> same_resources s s' \<and> bounded s' \<and>
     (same_runtime s s' \<or> \<not> g_initialized s \<and> g_initialized s' \<and> runtime_ref_count s' = runtime_ref_count s + 1)"
  using b boundedD [OF b] bounded_unused [OF b]
  unfolding wamr_bridge_validate_def wamr_bridge_init_def wasm_runtime_init_def
  by (cases "g_initialized s"; cases "runtime_ref_count s = 0"; cases "plan s (requests s)"; cases "plan s (Suc (requests s))";
      cases "plan s (Suc (Suc (requests s)))")
    (simp_all add: run bounded_def same_resources_def same_runtime_def ex_bool_eq)

section \<open>Native modules\<close>

definition named :: "WamrNativeModule \<Rightarrow> bool" where
  "named n \<longleftrightarrow> nm_module_name n \<noteq> None \<and> nm_symbols n \<noteq> None"

definition native_key :: "WamrNativeModule \<Rightarrow> string option \<times> addr option" where
  "native_key n = (nm_module_name n, nm_symbols n)"

lemma unregister_node_first:
  assumes "list_all named xs" and "named n" and "native_key n \<notin> native_key ` set xs" and "native_key k = native_key n"
  shows "unregister_node (xs @ n # ys) (the (nm_module_name k)) (the (nm_symbols k)) = Some (True, xs @ ys)"
  using assms by (induction xs) (auto simp: named_def native_key_def)

text \<open>
  Unregistering a list of modules removes exactly the nodes registering it has put in
  front, in whatever order the keys repeat.
\<close>

lemma unregister_all:
  assumes "list_all named xs" and "list_all named ms" and "mset (map native_key ms) = mset (map native_key xs)"
    and "natives s = xs @ L"
  shows "unregister_native_modules s ms = Some (s\<lparr>natives := L\<rparr>)"
  using assms
proof (induction ms arbitrary: s xs)
  case (Cons k ms)
  have "native_key k \<in> native_key ` set xs"
    using Cons.prems(3) by (metis image_set list.set_intros(1) list.simps(9) set_mset_mset)
  then obtain ys n zs where xs: "xs = ys @ n # zs" and n: "native_key k = native_key n"
      and first: "native_key n \<notin> native_key ` set ys"
    using split_list_first [of "native_key k" "map native_key xs"] by (auto simp: map_eq_append_conv)
  have nk: "named k" "named n" "list_all named (ys @ zs)" "list_all named ms" using Cons.prems(1,2) xs by auto
  then obtain name sym where k: "nm_module_name k = Some name" "nm_symbols k = Some sym" by (auto simp: named_def)
  have "wasm_runtime_unregister_natives s name sym = Some (True, s\<lparr>natives := (ys @ zs) @ L\<rparr>)"
    using unregister_node_first [of ys n k "zs @ L"] nk n first k Cons.prems(4) xs
    by (simp add: wasm_runtime_unregister_natives_def)
  moreover have "mset (map native_key ms) = mset (map native_key (ys @ zs))" using Cons.prems(3) xs n by simp
  ultimately show ?case using Cons.IH [of "ys @ zs" "s\<lparr>natives := (ys @ zs) @ L\<rparr>"] nk k by simp
qed simp

lemma unregister_registered:
  assumes "list_all named ms" and "natives s = rev ms @ L"
  shows "unregister_native_modules s ms = Some (s\<lparr>natives := L\<rparr>)"
  using unregister_all [of "rev ms" ms s L] assms by simp

lemma register_loop:
  assumes "list_all named pre" and "list_all named ms" and "natives s = rev pre @ L"
  shows "\<exists>r k. register_native_loop s pre ms =
     Some (r, s\<lparr>natives := (case r of Inl _ \<Rightarrow> L | Inr _ \<Rightarrow> rev (pre @ ms) @ L), requests := k\<rparr>)"
  using assms
proof (induction ms arbitrary: s pre)
  case Nil
  have "s = s\<lparr>natives := rev (pre @ []) @ L, requests := requests s\<rparr>" using Nil by simp
  then show ?case by (intro exI [of _ "Inr ()"] exI [of _ "requests s"]) simp
next
  case (Cons n ms)
  let ?s = "s\<lparr>requests := Suc (requests s)\<rparr>"
  have un: "unregister_native_modules t pre = Some (t\<lparr>natives := L\<rparr>)" if "natives t = natives s" for t
    by (rule unregister_registered) (use Cons.prems that in auto)
  consider "\<not> runtime_up s" | "runtime_up s" "\<not> plan s (requests s)" | "runtime_up s" "plan s (requests s)" by blast
  then show ?case
  proof cases
    case 1
    with un [of s] show ?thesis
      by (intro exI [of _ "Inl (Error ''failed to register host imports'')"] exI [of _ "requests s"])
        (simp add: wasm_runtime_register_natives_raw_def)
  next
    case 2
    with un [of ?s] show ?thesis
      by (intro exI [of _ "Inl (Error ''failed to register host imports'')"] exI [of _ "Suc (requests s)"])
        (simp add: wasm_runtime_register_natives_raw_def ask_def)
  next
    case 3
    have "list_all named (pre @ [n])" "list_all named ms"
      "natives (?s\<lparr>natives := n # natives s\<rparr>) = rev (pre @ [n]) @ L" using Cons.prems by auto
    from Cons.IH [OF this, unfolded append_assoc append.simps] obtain r k where
      "register_native_loop (?s\<lparr>natives := n # natives s\<rparr>) (pre @ [n]) ms =
        Some (r, s\<lparr>natives := (case r of Inl _ \<Rightarrow> L | Inr _ \<Rightarrow> rev (pre @ n # ms) @ L), requests := k\<rparr>)" by auto
    with 3 show ?thesis by (auto simp: wasm_runtime_register_natives_raw_def ask_def)
  qed
qed

lemma register_native_modules_spec:
  assumes "list_all named ms"
  shows "\<exists>r k. register_native_modules s ms =
     Some (r, s\<lparr>natives := (case r of Inl _ \<Rightarrow> natives s | Inr _ \<Rightarrow> rev ms @ natives s), requests := k\<rparr>)"
proof (cases "ms = []")
  case True
  then show ?thesis
    by (intro exI [of _ "Inr ()"] exI [of _ "requests s"]) (simp add: register_native_modules_def)
next
  case False
  then show ?thesis using register_loop [of "[]" ms s "natives s", unfolded append.simps] assms
    by (simp add: register_native_modules_def)
qed
section \<open>Starting and stopping an instance\<close>

text \<open>A module struct whose resources are live.\<close>

definition live_module :: "wamr \<Rightarrow> addr \<Rightarrow> WamrModule \<Rightarrow> addr \<Rightarrow> bytes \<Rightarrow> bool" where
  "live_module s a md base source \<longleftrightarrow>
     wmods s a = Some md \<and> wm_module md = Some base \<and>
     (\<exists>b. loaded s base = Some b \<and> b \<in> dom (bufs s)) \<and>
     (\<exists>sb. wm_source_buf md = Some sb \<and> bufs s sb = Some source) \<and> wm_wasm_len md = length source"

text \<open>The state after registration and, with native modules, loading of the private copy.\<close>

definition with_private ::
  "wamr \<Rightarrow> bytes \<Rightarrow> WamrNativeModule list \<Rightarrow> addr option \<Rightarrow> addr option \<Rightarrow> wamr \<Rightarrow> bool" where
  "with_private s source ms lm lb s' \<longleftrightarrow>
     natives s' = rev ms @ natives s \<and> insts s' = insts s \<and> envs s' = envs s \<and>
     wmods s' = wmods s \<and> winsts s' = winsts s \<and> next_addr s \<le> next_addr s' \<and> bounded s' \<and>
     same_runtime s s' \<and>
     (if ms = [] then lm = None \<and> lb = None \<and> bufs s' = bufs s \<and> loaded s' = loaded s
      else runtime_up s' \<and> (\<exists>m b. lm = Some m \<and> lb = Some b \<and> next_addr s \<le> m \<and> next_addr s \<le> b \<and> m \<noteq> b \<and>
        bufs s' = (bufs s)(b \<mapsto> rewrite s source) \<and> loaded s' = (loaded s)(m \<mapsto> b)))"

lemma load_private_spec:
  assumes b: "bounded s0" and nm: "list_all named ms" and md: "live_module s0 a md base source"
    and s: "s = s0\<lparr>natives := rev ms @ natives s0, requests := k\<rparr>"
  shows "\<exists>r s'. load_private s md ms = Some (r, s') \<and>
     (case r of Inl e \<Rightarrow> same_resources s0 s' \<and> bounded s' \<and> same_runtime s0 s'
      | Inr (lm, lb) \<Rightarrow> with_private s0 source ms lm lb s')"
proof (cases "ms = []")
  case True
  then show ?thesis using b s by (simp add: load_private_def with_private_def bounded_def same_runtime_def)
next
  case False
  from md obtain sb where src: "wm_source_buf md = Some sb" "bufs s0 sb = Some source"
    and len: "wm_wasm_len md = length source" by (auto simp: live_module_def)
  have sbn: "sb \<noteq> next_addr s0" using boundedD [OF b, of "next_addr s0"] src by auto
  have un: "unregister_native_modules t ms = Some (t\<lparr>natives := natives s0\<rparr>)" if "natives t = rev ms @ natives s0" for t
    using unregister_registered [OF nm that] .
  show ?thesis
    using False src len sbn b boundedD [OF b] bounded_unused [OF b]
    by (cases "runtime_ref_count s0 = 0"; cases "plan s0 k"; cases "plan s0 (Suc k)")
      (simp_all add: s load_private_def run un same_resources_def with_private_def bounded_def same_runtime_def)
qed

lemma undo_load_spec:
  assumes b: "bounded s" and nm: "list_all named ms" and w: "with_private s source ms lm lb s'"
  shows "\<exists>s''. undo_load s' lm lb ms = Some s'' \<and> same_resources s s'' \<and> bounded s'' \<and> same_runtime s s''"
proof -
  have un: "unregister_native_modules t ms = Some (t\<lparr>natives := natives s\<rparr>)" if "natives t = rev ms @ natives s" for t
    using unregister_registered [OF nm that] .
  show ?thesis
    using w bounded_unused [OF b] boundedD [OF b]
    by (auto simp: with_private_def undo_load_def run un same_resources_def bounded_def same_runtime_def split: if_splits)
qed

text \<open>What a successful start adds.\<close>

definition started ::
  "wamr \<Rightarrow> addr \<Rightarrow> addr \<Rightarrow> bytes \<Rightarrow> WamrNativeModule list \<Rightarrow> addr \<Rightarrow> wamr \<Rightarrow> bool" where
  "started s a base source ms wi s' \<longleftrightarrow> runtime_up s' \<and> same_runtime s s' \<and> (\<exists>t lm lb i e.
     with_private s source ms lm lb t \<and> distinct [i, e, wi] \<and>
     next_addr t \<le> i \<and> next_addr t \<le> e \<and> next_addr t \<le> wi \<and>
     bufs s' = bufs t \<and> loaded s' = loaded t \<and> natives s' = natives t \<and> wmods s' = wmods s \<and>
     insts s' = (insts s)(i \<mapsto> (case lm of Some m \<Rightarrow> m | None \<Rightarrow> base)) \<and> envs s' = (envs s)(e \<mapsto> i) \<and>
     winsts s' = (winsts s)(wi \<mapsto> \<lparr>wi_inst = Some i, wi_exec_env = Some e, wi_mod = a,
       wi_loaded_module = lm, wi_loaded_wasm_buf = lb\<rparr>))"

lemma startedI:
  assumes "runtime_up s'" "same_runtime s s'"
    and "with_private s source ms lm lb t" and "next_addr t \<le> i"
    and "bufs s' = bufs t" and "loaded s' = loaded t" and "natives s' = natives t" and "wmods s' = wmods s"
    and "insts s' = (insts s)(i \<mapsto> (case lm of Some m \<Rightarrow> m | None \<Rightarrow> base))" and "envs s' = (envs s)(Suc i \<mapsto> i)"
    and "winsts s' = (winsts s)(Suc (Suc i) \<mapsto> \<lparr>wi_inst = Some i, wi_exec_env = Some (Suc i), wi_mod = a,
       wi_loaded_module = lm, wi_loaded_wasm_buf = lb\<rparr>)"
  shows "started s a base source ms (Suc (Suc i)) s'"
  unfolding started_def
  by (intro conjI assms(1-2), rule exI [of _ t], rule exI [of _ lm], rule exI [of _ lb], rule exI [of _ i], rule exI [of _ "Suc i"])
    (use assms in simp)

lemma start_instance_spec:
  assumes b: "bounded s" and nm: "list_all named ms" and md: "live_module s a md base source"
  shows "\<exists>r s'. start_instance s (Some a) ms = Some (r, s') \<and> bounded s' \<and> same_runtime s s' \<and>
     (case r of Inl e \<Rightarrow> same_resources s s' | Inr wi \<Rightarrow> started s a base source ms wi s')"
proof -
  from register_native_modules_spec [OF nm, of s] obtain r k where
    reg: "register_native_modules s ms =
      Some (r, s\<lparr>natives := (case r of Inl _ \<Rightarrow> natives s | Inr _ \<Rightarrow> rev ms @ natives s), requests := k\<rparr>)" by blast
  show ?thesis
  proof (cases r)
    case (Inl e)
    with reg md b show ?thesis
      by (simp add: start_instance_def live_module_def same_resources_def same_runtime_def bounded_def)
  next
    case (Inr u)
    let ?s = "s\<lparr>natives := rev ms @ natives s, requests := k\<rparr>"
    from load_private_spec [OF b nm md refl, of k] obtain q t where
      lp: "load_private ?s md ms = Some (q, t)" "case q of Inl e \<Rightarrow> same_resources s t \<and> bounded t \<and> same_runtime s t
        | Inr (lm, lb) \<Rightarrow> with_private s source ms lm lb t" by blast
    show ?thesis
    proof (cases q)
      case (Inl e)
      with lp reg \<open>r = Inr u\<close> md show ?thesis by (simp add: start_instance_def live_module_def)
    next
      case (Inr x)
      then obtain lm lb where q: "q = Inr (lm, lb)" by (cases x) auto
      with lp have w: "with_private s source ms lm lb t" by simp
      have bt: "bounded t" using w by (simp add: with_private_def)
      let ?base = "case lm of Some m \<Rightarrow> m | None \<Rightarrow> base"
      have live: "\<exists>bb. loaded t ?base = Some bb \<and> bb \<in> dom (bufs t)"
        using w md by (auto simp: with_private_def live_module_def split: if_splits)
      then obtain bb y where bb: "loaded t ?base = Some bb" "bufs t bb = Some y" by auto
      let ?t1 = "t\<lparr>requests := Suc (requests t)\<rparr>"
      let ?t2 = "t\<lparr>next_addr := Suc (next_addr t), requests := Suc (Suc (requests t))\<rparr>"
      let ?t3 = "t\<lparr>next_addr := Suc (Suc (next_addr t)), requests := Suc (Suc (Suc (requests t)))\<rparr>"
      have "with_private s source ms lm lb t" "with_private s source ms lm lb ?t1" "with_private s source ms lm lb ?t2" "with_private s source ms lm lb ?t3"
        using w by (auto simp: with_private_def bounded_def runtime_up_def same_runtime_def)
      from this [THEN undo_load_spec [OF b nm]] obtain u0 u1 u2 u3 where
        u: "undo_load t lm lb ms = Some u0" "same_resources s u0" "bounded u0" "same_runtime s u0"
           "undo_load ?t1 lm lb ms = Some u1" "same_resources s u1" "bounded u1" "same_runtime s u1"
           "undo_load ?t2 lm lb ms = Some u2" "same_resources s u2" "bounded u2" "same_runtime s u2"
           "undo_load ?t3 lm lb ms = Some u3" "same_resources s u3" "bounded u3" "same_runtime s u3" by blast
      have eqs: "wmods s = wmods t" "insts s = insts t" "envs s = envs t" "winsts s = winsts t"
        "runtime_ref_count s = runtime_ref_count t" "g_initialized s = g_initialized t"
        using w by (auto simp: with_private_def same_runtime_def)
      note st = startedI [OF _ _ w, where i = "next_addr t" and base = base and a = a, unfolded eqs]
      have md': "wmods t a = Some md" "wm_module md = Some base" using md eqs by (auto simp: live_module_def)
      show ?thesis
        using lp(1) reg \<open>r = Inr u\<close> q md' bb bt bounded_unused [OF bt] boundedD [OF bt] u st
        by (cases "runtime_ref_count t = 0"; cases "plan t (requests t)"; cases "plan t (Suc (requests t))"; cases "plan t (Suc (Suc (requests t)))")
          (simp_all add: start_instance_def run bounded_def domIff eqs(1) same_runtime_def eqs(5,6))
    qed
  qed
qed

section \<open>Properties\<close>

text \<open>A process without modules, and one with a compiled module.\<close>

definition sample_wamr :: wamr where
  "sample_wamr = \<lparr>g_initialized = True, runtime_ref_count = 1, bufs = Map.empty, loaded = Map.empty, insts = Map.empty, envs = Map.empty,
     natives = [], wmods = Map.empty, winsts = Map.empty, next_addr = 0, requests = 1, plan = \<lambda>_. True,
     rewrite = map not\<rparr>"

text \<open>The process at its start, before the bridge is initialised.\<close>

definition sample_off :: wamr where
  "sample_off = sample_wamr\<lparr>g_initialized := False, runtime_ref_count := 0, requests := 0\<rparr>"

lemma sample_wamr_bounded: "bounded sample_wamr"
  by (simp add: bounded_def sample_wamr_def)

definition sample_compiled :: wamr where
  "sample_compiled = sample_wamr\<lparr>bufs := [0 \<mapsto> [0xFF], 1 \<mapsto> [0]], loaded := [2 \<mapsto> 0],
     wmods := [3 \<mapsto> \<lparr>wm_module = Some 2, wm_wasm_buf = Some 0, wm_source_buf = Some 1, wm_wasm_len = 1\<rparr>],
     next_addr := 4\<rparr>"

lemma sample_compiled_live:
  "bounded sample_compiled"
  "live_module sample_compiled 3 \<lparr>wm_module = Some 2, wm_wasm_buf = Some 0, wm_source_buf = Some 1, wm_wasm_len = 1\<rparr> 2 [0]"
  by (auto simp: bounded_def live_module_def sample_compiled_def sample_wamr_def)

text \<open>
  \<open>wamr_bridge_compile\<close> returns on every input and every pattern of allocation and load failures; on
  failure the process holds exactly what it held before, on success freeing the module gives
  everything back.
\<close>

theorem compile_releases:
  assumes "bounded s"
  shows "\<exists>r s'. wamr_bridge_compile s bytes = Some (r, s') \<and>
     (case r of
       Inl e \<Rightarrow> same_resources s s'
     | Inr md \<Rightarrow> compiled s bytes md s' \<and>
         (\<exists>s''. wamr_bridge_free_module s' (Some md) = Some s'' \<and> same_resources s s''))"
proof (cases "g_initialized s")
  case True
  from compile_spec [OF assms True, of bytes] obtain r s' where
    "wamr_bridge_compile s bytes = Some (r, s')"
    "case r of Inl e \<Rightarrow> same_resources s s' | Inr md \<Rightarrow> compiled s bytes md s'" by blast
  then show ?thesis using compile_free_restores [OF assms] by (cases r) (simp_all, blast)
qed (simp add: wamr_bridge_compile_def)

theorem compile_releases_witness:
  "\<exists>r s'. wamr_bridge_compile sample_wamr [0, 1] = Some (r, s') \<and>
     (case r of
       Inl e \<Rightarrow> same_resources sample_wamr s'
     | Inr md \<Rightarrow> compiled sample_wamr [0, 1] md s' \<and>
         (\<exists>s''. wamr_bridge_free_module s' (Some md) = Some s'' \<and> same_resources sample_wamr s''))"
  by (rule compile_releases [OF sample_wamr_bounded])

text \<open>
  C11: starting an instance with native modules either fails and leaves nothing behind (no buffer, no
  module, no registration), or stopping it and unregistering its native modules restores
  what the process held before.
\<close>

theorem start_stop_restores:
  assumes b: "bounded s" and nm: "list_all named ms" and md: "live_module s a md base source"
  shows "\<exists>r s'. wamr_bridge_start_with_native_modules s (Some a) ms = Some (r, s') \<and>
     (case r of
       Inl e \<Rightarrow> same_resources s s'
     | Inr wi \<Rightarrow> (\<exists>t u. wamr_bridge_stop s' (Some wi) = Some t \<and>
         wamr_bridge_unregister_native_modules t ms = Some u \<and> same_resources s u))"
proof -
  from start_instance_spec [OF assms] obtain r s' where
    r: "start_instance s (Some a) ms = Some (r, s')"
      "case r of Inl e \<Rightarrow> same_resources s s' | Inr wi \<Rightarrow> started s a base source ms wi s'" by blast
  have un: "unregister_native_modules t ms = Some (t\<lparr>natives := natives s\<rparr>)" if "natives t = rev ms @ natives s" for t
    using unregister_registered [OF nm that] .
  have "\<exists>t u. wamr_bridge_stop s' (Some wi) = Some t \<and>
         wamr_bridge_unregister_native_modules t ms = Some u \<and> same_resources s u" if "r = Inr wi" for wi
  proof -
    from r that have st: "started s a base source ms wi s'" by simp
    then have up: "runtime_ref_count s' \<noteq> 0" by (simp add: started_def runtime_up_def)
    from st obtain v lm lb i e where v: "with_private s source ms lm lb v" "distinct [i, e, wi]"
       "next_addr v \<le> i" "next_addr v \<le> e" "next_addr v \<le> wi"
       "bufs s' = bufs v" "loaded s' = loaded v" "natives s' = natives v" "wmods s' = wmods s"
       "insts s' = (insts s)(i \<mapsto> (case lm of Some m \<Rightarrow> m | None \<Rightarrow> base))" "envs s' = (envs s)(e \<mapsto> i)"
       "winsts s' = (winsts s)(wi \<mapsto> \<lparr>wi_inst = Some i, wi_exec_env = Some e, wi_mod = a,
         wi_loaded_module = lm, wi_loaded_wasm_buf = lb\<rparr>)" unfolding started_def by blast
    note [simp] = up
    have nx: "next_addr s \<le> next_addr v" using v(1) by (simp add: with_private_def)
    note un' = bounded_unused [OF b, of i] bounded_unused [OF b, of e] bounded_unused [OF b, of wi]
    from md obtain bb x where bb: "loaded s base = Some bb" "bufs s bb = Some x" by (auto simp: live_module_def)
    show ?thesis
    proof (cases "ms = []")
      case True
      then show ?thesis using v nx un' bb
        by (simp add: domIff with_private_def wamr_bridge_stop_def run same_resources_def wamr_bridge_unregister_native_modules_def)
    next
      case False
      then obtain m y where my: "lm = Some m" "lb = Some y" "next_addr s \<le> m" "next_addr s \<le> y" "m \<noteq> y"
        "bufs v = (bufs s)(y \<mapsto> rewrite s source)" "loaded v = (loaded s)(m \<mapsto> y)"
        using v(1) by (auto simp: with_private_def)
      then show ?thesis using v nx un' bounded_unused [OF b, of m] bounded_unused [OF b, of y]
        by (simp add: with_private_def wamr_bridge_stop_def run same_resources_def
            wamr_bridge_unregister_native_modules_def un)
    qed
  qed
  with r show ?thesis by (auto simp: wamr_bridge_start_with_native_modules_def split: sum.splits)
qed

theorem start_stop_restores_witness:
  "\<exists>r s'. wamr_bridge_start_with_native_modules sample_compiled (Some 3)
      [\<lparr>nm_module_name = Some ''env'', nm_symbols = Some 9, nm_symbol_count = 1\<rparr>] = Some (r, s') \<and>
     (case r of
       Inl e \<Rightarrow> same_resources sample_compiled s'
     | Inr wi \<Rightarrow> (\<exists>t u. wamr_bridge_stop s' (Some wi) = Some t \<and>
         wamr_bridge_unregister_native_modules t [\<lparr>nm_module_name = Some ''env'', nm_symbols = Some 9, nm_symbol_count = 1\<rparr>]
           = Some u \<and> same_resources sample_compiled u))"
  by (rule start_stop_restores [OF sample_compiled_live(1) _ sample_compiled_live(2)]) (simp add: named_def)

end
