(* ===== verification/Wamr_Protocol.thy ===== *)
theory Wamr_Protocol
  imports Wamr_Lifecycle
begin

text \<open>
  The bridge as a state machine: the calls of priv/c_src/wamr_bridge.c a client may make,
  the protocol it has to keep (live handles, modules outlive their instances), and the
  ownership invariant of the reachable states: every live resource of the runtime belongs
  to exactly one struct of the bridge.
\<close>

section \<open>Ownership\<close>

definition owns :: "('r \<rightharpoonup> addr) \<Rightarrow> (addr \<rightharpoonup> 'v) \<Rightarrow> bool" where
  "owns F M \<longleftrightarrow> (\<forall>r r' a. F r = Some a \<longrightarrow> F r' = Some a \<longrightarrow> r = r') \<and> ran F = dom M"

lemma owns_inj: "owns F M \<Longrightarrow> F r = Some a \<Longrightarrow> F r' = Some a \<Longrightarrow> r = r'"
  unfolding owns_def by blast

lemma owns_ran: "owns F M \<Longrightarrow> ran F = dom M"
  unfolding owns_def by blast

lemma ownsI: "(\<And>r r' a. F r = Some a \<Longrightarrow> F r' = Some a \<Longrightarrow> r = r') \<Longrightarrow> ran F = dom M \<Longrightarrow> owns F M"
  unfolding owns_def by blast

lemma owns_add:
  assumes "owns F M" and "F r = None" and "M a = None"
  shows "owns (F(r \<mapsto> a)) (M(a \<mapsto> v))"
proof (rule ownsI)
  have "a \<notin> ran F" using assms(3) owns_ran [OF assms(1)] by (simp add: domIff)
  then have fresh: "\<And>r. F r \<noteq> Some a" by (meson ranI)
  show "r1 = r2" if "(F(r \<mapsto> a)) r1 = Some x" "(F(r \<mapsto> a)) r2 = Some x" for r1 r2 x
    using that fresh owns_inj [OF assms(1)] by (metis fun_upd_apply option.inject)
  show "ran (F(r \<mapsto> a)) = dom (M(a \<mapsto> v))" using owns_ran [OF assms(1)] ran_map_upd [of F r a] assms(2) by simp
qed

lemma owns_del:
  assumes "owns F M" and "F r = Some a"
  shows "owns (F(r := None)) (M(a := None))"
proof (rule ownsI)
  show "r1 = r2" if "(F(r := None)) r1 = Some x" "(F(r := None)) r2 = Some x" for r1 r2 x
    using that owns_inj [OF assms(1)] by (metis fun_upd_apply option.distinct(1))
  have "ran (F(r := None)) = ran F - {a}"
  proof
    show "ran (F(r := None)) \<subseteq> ran F - {a}"
    proof
      fix x assume "x \<in> ran (F(r := None))"
      then obtain r' where *: "(F(r := None)) r' = Some x" by (auto simp: ran_def simp del: fun_upd_apply)
      then have "r' \<noteq> r" by auto
      moreover from this * have "F r' = Some x" by simp
      moreover from calculation have "x \<noteq> a" using owns_inj [OF assms] by blast
      ultimately show "x \<in> ran F - {a}" by (auto intro: ranI)
    qed
    show "ran F - {a} \<subseteq> ran (F(r := None))"
    proof
      fix x assume "x \<in> ran F - {a}"
      then obtain r' where "F r' = Some x" "x \<noteq> a" by (auto simp: ran_def)
      with assms(2) have "(F(r := None)) r' = Some x" by auto
      then show "x \<in> ran (F(r := None))" by (rule ranI)
    qed
  qed
  then show "ran (F(r := None)) = dom (M(a := None))" using owns_ran [OF assms(1)] by simp
qed

lemma owns_cong: "owns F M \<Longrightarrow> F = F' \<Longrightarrow> M = M' \<Longrightarrow> owns F' M'"
  by simp

lemma owns_live: "owns F M \<Longrightarrow> F r = Some a \<Longrightarrow> a \<in> dom M"
  by (auto simp: owns_def intro: ranI)

lemma owns_distinct: "owns F M \<Longrightarrow> F r = Some a \<Longrightarrow> F r' = Some b \<Longrightarrow> r \<noteq> r' \<Longrightarrow> a \<noteq> b"
  by (auto simp: owns_def)

lemma owns_none: "owns F M \<Longrightarrow> (\<And>r. F r = None) \<Longrightarrow> M = Map.empty"
  by (auto simp: owns_def ran_def)

datatype buf_role = ModuleBuf addr | ModuleSource addr | InstanceBuf addr
datatype module_role = ModuleOf addr | PrivateOf addr

fun buf_owner :: "wamr \<Rightarrow> buf_role \<Rightarrow> addr option" where
  "buf_owner s (ModuleBuf x) = Option.bind (wmods s x) wm_wasm_buf"
| "buf_owner s (ModuleSource x) = Option.bind (wmods s x) wm_source_buf"
| "buf_owner s (InstanceBuf y) = Option.bind (winsts s y) wi_loaded_wasm_buf"

fun module_owner :: "wamr \<Rightarrow> module_role \<Rightarrow> addr option" where
  "module_owner s (ModuleOf x) = Option.bind (wmods s x) wm_module"
| "module_owner s (PrivateOf y) = Option.bind (winsts s y) wi_loaded_module"

definition inst_owner :: "wamr \<Rightarrow> addr \<Rightarrow> addr option" where
  "inst_owner s y = Option.bind (winsts s y) wi_inst"

definition env_owner :: "wamr \<Rightarrow> addr \<Rightarrow> addr option" where
  "env_owner s y = Option.bind (winsts s y) wi_exec_env"

definition module_ok :: "wamr \<Rightarrow> WamrModule \<Rightarrow> bool" where
  "module_ok s md \<longleftrightarrow> (\<exists>m b sb source.
     wm_module md = Some m \<and> wm_wasm_buf md = Some b \<and> wm_source_buf md = Some sb \<and>
     loaded s m = Some b \<and> bufs s sb = Some source \<and> wm_wasm_len md = length source)"

definition instance_ok :: "wamr \<Rightarrow> WamrInstance \<Rightarrow> bool" where
  "instance_ok s wi \<longleftrightarrow> (\<exists>i e m.
     wi_inst wi = Some i \<and> wi_exec_env wi = Some e \<and> envs s e = Some i \<and> insts s i = Some m \<and>
     (wi_loaded_module wi = None \<and> wi_loaded_wasm_buf wi = None \<and>
        (\<exists>md. wmods s (wi_mod wi) = Some md \<and> wm_module md = Some m)
      \<or> wi_loaded_module wi = Some m \<and> (\<exists>b. wi_loaded_wasm_buf wi = Some b \<and> loaded s m = Some b)))"

text \<open>The bridge is the runtime's only user, and there are no handles and no native symbols while the runtime is down.\<close>

definition runtime_ok :: "wamr \<Rightarrow> bool" where
  "runtime_ok s \<longleftrightarrow> runtime_ref_count s = (if g_initialized s then 1 else 0) \<and>
     (\<not> g_initialized s \<longrightarrow> wmods s = Map.empty \<and> winsts s = Map.empty \<and> natives s = [])"

lemma runtime_ok_up: "runtime_ok s \<Longrightarrow> wmods s x = Some md \<or> winsts s y = Some wi \<Longrightarrow> 0 < runtime_ref_count s"
  by (auto simp: runtime_ok_def)

lemma runtime_ok_same:
  "runtime_ok s \<Longrightarrow> same_runtime s s' \<Longrightarrow> wmods s' = wmods s \<Longrightarrow> winsts s' = winsts s \<Longrightarrow> natives s' = natives s \<Longrightarrow> runtime_ok s'"
  "runtime_ok s \<Longrightarrow> same_runtime s s' \<Longrightarrow> runtime_up s' \<Longrightarrow> runtime_ok s'"
  by (auto simp: runtime_ok_def same_runtime_def runtime_up_def split: if_splits)

definition ownership :: "wamr \<Rightarrow> bool" where
  "ownership s \<longleftrightarrow> bounded s \<and>
     owns (buf_owner s) (bufs s) \<and> owns (module_owner s) (loaded s) \<and>
     owns (inst_owner s) (insts s) \<and> owns (env_owner s) (envs s) \<and>
     (\<forall>x md. wmods s x = Some md \<longrightarrow> module_ok s md) \<and>
     (\<forall>y wi. winsts s y = Some wi \<longrightarrow> instance_ok s wi) \<and>
     list_all named (natives s) \<and> runtime_ok s"

lemma ownershipD:
  assumes "ownership s"
  shows "bounded s" and "owns (buf_owner s) (bufs s)" and "owns (module_owner s) (loaded s)"
    and "owns (inst_owner s) (insts s)" and "owns (env_owner s) (envs s)"
    and "wmods s x = Some md \<Longrightarrow> module_ok s md" and "winsts s y = Some wi \<Longrightarrow> instance_ok s wi"
    and "list_all named (natives s)" and "runtime_ok s"
  using assms unfolding ownership_def by blast+

lemma ownershipI:
  assumes "bounded s" and "owns (buf_owner s) (bufs s)" and "owns (module_owner s) (loaded s)"
    and "owns (inst_owner s) (insts s)" and "owns (env_owner s) (envs s)"
    and "\<And>x md. wmods s x = Some md \<Longrightarrow> module_ok s md" and "\<And>y wi. winsts s y = Some wi \<Longrightarrow> instance_ok s wi"
    and "list_all named (natives s)" and "runtime_ok s"
  shows "ownership s"
  using assms unfolding ownership_def by blast

lemma same_resources_ownership:
  "same_resources s s' \<Longrightarrow> bounded s' \<Longrightarrow> runtime_ok s' \<Longrightarrow> ownership s \<Longrightarrow> ownership s'"
proof -
  assume r: "same_resources s s'" and b: "bounded s'" and ok: "runtime_ok s'" and o: "ownership s"
  from r have f: "bufs s' = bufs s" "loaded s' = loaded s" "insts s' = insts s" "envs s' = envs s"
    "natives s' = natives s" "wmods s' = wmods s" "winsts s' = winsts s" by (simp_all add: same_resources_def)
  have "buf_owner s' x = buf_owner s x" for x by (cases x) (simp_all add: f)
  moreover have "module_owner s' x = module_owner s x" for x by (cases x) (simp_all add: f)
  ultimately have "buf_owner s' = buf_owner s" "module_owner s' = module_owner s" by blast+
  moreover have "inst_owner s' = inst_owner s" "env_owner s' = env_owner s"
    by (simp_all add: f inst_owner_def env_owner_def fun_eq_iff)
  moreover have "module_ok s' md = module_ok s md" "instance_ok s' wi = instance_ok s wi" for md wi
    by (simp_all only: f module_ok_def instance_ok_def)
  ultimately show ?thesis using b ok o by (simp add: ownership_def f)
qed

lemma ownership_live_module:
  "ownership s \<Longrightarrow> wmods s x = Some md \<Longrightarrow> \<exists>m source. live_module s x md m source"
proof -
  assume o: "ownership s" and md: "wmods s x = Some md"
  obtain m b sb source where f: "wm_module md = Some m" "wm_wasm_buf md = Some b" "wm_source_buf md = Some sb"
     "loaded s m = Some b" "bufs s sb = Some source" "wm_wasm_len md = length source"
    using ownershipD(6) [OF o md] unfolding module_ok_def by blast
  have "buf_owner s (ModuleBuf x) = Some b" using md f by simp
  then have "b \<in> dom (bufs s)" by (rule owns_live [OF ownershipD(2) [OF o]])
  with f md show ?thesis unfolding live_module_def by blast
qed

lemma map_le_add: "m a = None \<Longrightarrow> m \<subseteq>\<^sub>m m(a \<mapsto> v)"
  by (auto simp: map_le_def)

lemma map_leD: "m \<subseteq>\<^sub>m m' \<Longrightarrow> m a = Some v \<Longrightarrow> m' a = Some v"
  by (metis domI map_le_def)

lemma module_okE:
  assumes "module_ok s md"
  obtains m b sb source where "wm_module md = Some m" and "wm_wasm_buf md = Some b"
    and "wm_source_buf md = Some sb" and "loaded s m = Some b" and "bufs s sb = Some source"
    and "wm_wasm_len md = length source"
  using assms unfolding module_ok_def by blast

lemma module_okI:
  "wm_module md = Some m \<Longrightarrow> wm_wasm_buf md = Some b \<Longrightarrow> wm_source_buf md = Some sb \<Longrightarrow>
   loaded s m = Some b \<Longrightarrow> bufs s sb = Some source \<Longrightarrow> wm_wasm_len md = length source \<Longrightarrow> module_ok s md"
  unfolding module_ok_def by blast

lemma instance_okE:
  assumes "instance_ok s wi"
  obtains (shared) i e m md where "wi_inst wi = Some i" and "wi_exec_env wi = Some e"
    and "envs s e = Some i" and "insts s i = Some m"
    and "wi_loaded_module wi = None" and "wi_loaded_wasm_buf wi = None"
    and "wmods s (wi_mod wi) = Some md" and "wm_module md = Some m"
  | (own) i e m b where "wi_inst wi = Some i" and "wi_exec_env wi = Some e"
    and "envs s e = Some i" and "insts s i = Some m"
    and "wi_loaded_module wi = Some m" and "wi_loaded_wasm_buf wi = Some b" and "loaded s m = Some b"
  using assms unfolding instance_ok_def by blast

lemma instance_ok_sharedI:
  "wi_inst wi = Some i \<Longrightarrow> wi_exec_env wi = Some e \<Longrightarrow> envs s e = Some i \<Longrightarrow> insts s i = Some m \<Longrightarrow>
   wi_loaded_module wi = None \<Longrightarrow> wi_loaded_wasm_buf wi = None \<Longrightarrow> wmods s (wi_mod wi) = Some md \<Longrightarrow>
   wm_module md = Some m \<Longrightarrow> instance_ok s wi"
  unfolding instance_ok_def by blast

lemma instance_ok_privateI:
  "wi_inst wi = Some i \<Longrightarrow> wi_exec_env wi = Some e \<Longrightarrow> envs s e = Some i \<Longrightarrow> insts s i = Some m \<Longrightarrow>
   wi_loaded_module wi = Some m \<Longrightarrow> wi_loaded_wasm_buf wi = Some b \<Longrightarrow> loaded s m = Some b \<Longrightarrow> instance_ok s wi"
  unfolding instance_ok_def by blast

lemma module_ok_mono:
  "module_ok s md \<Longrightarrow> loaded s \<subseteq>\<^sub>m loaded s' \<Longrightarrow> bufs s \<subseteq>\<^sub>m bufs s' \<Longrightarrow> module_ok s' md"
  by (elim module_okE) (blast intro: module_okI map_leD)

lemma instance_ok_mono:
  assumes "instance_ok s wi" and le: "envs s \<subseteq>\<^sub>m envs s'" "insts s \<subseteq>\<^sub>m insts s'" "wmods s \<subseteq>\<^sub>m wmods s'"
    "loaded s \<subseteq>\<^sub>m loaded s'"
  shows "instance_ok s' wi"
  using assms(1)
proof (cases rule: instance_okE)
  case shared
  then show ?thesis using le by (blast intro: instance_ok_sharedI map_leD)
next
  case own
  then show ?thesis using le by (blast intro: instance_ok_privateI map_leD)
qed

lemma compiled_ownership:
  assumes o: "ownership s" and c: "compiled s bytes x s'" and b': "bounded s'"
  shows "ownership s'"
proof -
  note b = o [unfolded ownership_def, THEN conjunct1]
  from c obtain b sb m where d: "distinct [b, sb, m, x]" "next_addr s \<le> b" "next_addr s \<le> sb" "next_addr s \<le> m"
      "next_addr s \<le> x"
    and u: "bufs s' = (bufs s)(b \<mapsto> rewrite s bytes, sb \<mapsto> bytes)" "loaded s' = (loaded s)(m \<mapsto> b)"
      "insts s' = insts s" "envs s' = envs s" "natives s' = natives s" "winsts s' = winsts s"
      "wmods s' = (wmods s)(x \<mapsto> \<lparr>wm_module = Some m, wm_wasm_buf = Some b, wm_source_buf = Some sb,
       wm_wasm_len = length bytes\<rparr>)" unfolding compiled_def by blast
  from boundedD [OF b] d have fr: "bufs s b = None" "bufs s sb = None" "loaded s m = None" "wmods s x = None" by auto
  have "buf_owner s' = (buf_owner s)(ModuleBuf x \<mapsto> b, ModuleSource x \<mapsto> sb)"
  proof
    show "buf_owner s' r = ((buf_owner s)(ModuleBuf x \<mapsto> b, ModuleSource x \<mapsto> sb)) r" for r
      using u by (cases r) auto
  qed
  moreover have "module_owner s' = (module_owner s)(ModuleOf x \<mapsto> m)"
  proof
    show "module_owner s' r = ((module_owner s)(ModuleOf x \<mapsto> m)) r" for r using u by (cases r) auto
  qed
  moreover have "inst_owner s' = inst_owner s" "env_owner s' = env_owner s"
    using u by (auto simp: inst_owner_def env_owner_def)
  moreover have "owns ((buf_owner s)(ModuleBuf x \<mapsto> b, ModuleSource x \<mapsto> sb)) (bufs s')"
    unfolding u by (intro owns_add ownershipD(2) [OF o]) (use fr d in auto)
  moreover have "owns ((module_owner s)(ModuleOf x \<mapsto> m)) (loaded s')"
    unfolding u by (intro owns_add ownershipD(3) [OF o]) (use fr in auto)
  moreover have le: "loaded s \<subseteq>\<^sub>m loaded s'" "bufs s \<subseteq>\<^sub>m bufs s'" "wmods s \<subseteq>\<^sub>m wmods s'"
    unfolding u map_le_def using fr by auto
  moreover have "module_ok s' md" if y: "wmods s' y = Some md" for y md
  proof (cases "y = x")
    case True
    with y u(7) have "md = \<lparr>wm_module = Some m, wm_wasm_buf = Some b, wm_source_buf = Some sb,
       wm_wasm_len = length bytes\<rparr>" by simp
    then show ?thesis using u(1,2) by (intro module_okI [of md m b sb s' bytes]) simp_all
  next
    case False
    with y u have "wmods s y = Some md" by simp
    from module_ok_mono [OF ownershipD(6) [OF o this] le(1,2)] show ?thesis .
  qed
  moreover have "instance_ok s' wi" if y: "winsts s' y = Some wi" for y wi
  proof -
    from y u have "winsts s y = Some wi" by simp
    from instance_ok_mono [OF ownershipD(7) [OF o this] _ _ le(3,1)] u(3,4) show ?thesis by simp
  qed
  moreover have "runtime_ok s'"
    using runtime_ok_same(2) [OF ownershipD(9) [OF o]] c by (simp add: compiled_def)
  ultimately show ?thesis using o b' u(3-5) by (simp add: ownership_def)
qed

lemma free_module_ownership:
  assumes o: "ownership s" and md: "wmods s x = Some md"
    and unused: "\<And>y wi. winsts s y = Some wi \<Longrightarrow> wi_mod wi = x \<Longrightarrow> wi_loaded_module wi \<noteq> None"
  shows "\<exists>s'. wamr_bridge_free_module s (Some x) = Some s' \<and> ownership s' \<and> wmods s' = (wmods s)(x := None)"
proof -
  from ownershipD(6) [OF o md] obtain m b sb source where f: "wm_module md = Some m" "wm_wasm_buf md = Some b"
    "wm_source_buf md = Some sb" "loaded s m = Some b" "bufs s sb = Some source" by (rule module_okE)
  have own: "buf_owner s (ModuleBuf x) = Some b" "buf_owner s (ModuleSource x) = Some sb"
    "module_owner s (ModuleOf x) = Some m" using md f by simp_all
  have up: "0 < runtime_ref_count s" using runtime_ok_up [OF ownershipD(9) [OF o]] md by blast
  have bd: "b \<in> dom (bufs s)" by (rule owns_live [OF ownershipD(2) [OF o] own(1)])
  have bsb: "b \<noteq> sb" by (rule owns_distinct [OF ownershipD(2) [OF o] own(1,2)]) simp
  let ?s = "s\<lparr>loaded := (loaded s)(m := None), bufs := (bufs s)(b := None, sb := None),
    wmods := (wmods s)(x := None)\<rparr>"
  have run: "wamr_bridge_free_module s (Some x) = Some ?s"
    using md f bd bsb up by (auto simp: wamr_bridge_free_module_def run)
  have "buf_owner ?s r = ((buf_owner s)(ModuleBuf x := None, ModuleSource x := None)) r" for r
    by (cases r) auto
  then have bo: "buf_owner ?s = (buf_owner s)(ModuleBuf x := None, ModuleSource x := None)" by blast
  have "module_owner ?s r = ((module_owner s)(ModuleOf x := None)) r" for r by (cases r) auto
  then have mo: "module_owner ?s = (module_owner s)(ModuleOf x := None)" by blast
  have io: "inst_owner ?s = inst_owner s" "env_owner ?s = env_owner s"
    by (simp_all add: inst_owner_def env_owner_def fun_eq_iff)
  have "owns (buf_owner ?s) (bufs ?s)"
    unfolding bo using owns_del [OF owns_del [OF ownershipD(2) [OF o] own(1)], of "ModuleSource x" sb] own(2) by simp
  moreover have "owns (module_owner ?s) (loaded ?s)"
    unfolding mo using owns_del [OF ownershipD(3) [OF o] own(3)] by simp
  moreover have "module_ok ?s md'" if y: "wmods ?s y = Some md'" for y md'
  proof -
    from y have y': "wmods s y = Some md'" "y \<noteq> x" by (auto split: if_splits)
    from ownershipD(6) [OF o y'(1)] obtain m1 b1 sb1 s1 where g: "wm_module md' = Some m1" "wm_wasm_buf md' = Some b1"
      "wm_source_buf md' = Some sb1" "loaded s m1 = Some b1" "bufs s sb1 = Some s1" "wm_wasm_len md' = length s1"
      by (rule module_okE)
    have g': "module_owner s (ModuleOf y) = Some m1" "buf_owner s (ModuleSource y) = Some sb1" using y' g by simp_all
    have "m1 \<noteq> m" by (rule owns_distinct [OF ownershipD(3) [OF o] g'(1) own(3)]) (use y' in simp)
    moreover have "sb1 \<noteq> b" by (rule owns_distinct [OF ownershipD(2) [OF o] g'(2) own(1)]) simp
    moreover have "sb1 \<noteq> sb" by (rule owns_distinct [OF ownershipD(2) [OF o] g'(2) own(2)]) (use y' in simp)
    ultimately show ?thesis using g by (intro module_okI [of md' m1 b1 sb1 ?s s1]) simp_all
  qed
  moreover have "instance_ok ?s wi" if y: "winsts ?s y = Some wi" for y wi
  proof -
    from y have y': "winsts s y = Some wi" by simp
    from ownershipD(7) [OF o this] show ?thesis
    proof (cases rule: instance_okE)
      case (shared i e m1 md1)
      then have "wi_mod wi \<noteq> x" using unused [OF y'] by auto
      with shared show ?thesis by (intro instance_ok_sharedI [of wi i e ?s m1 md1]) simp_all
    next
      case (own i e m1 b1)
      then have "module_owner s (PrivateOf y) = Some m1" using y' by simp
      then have "m1 \<noteq> m" by (rule owns_distinct [OF ownershipD(3) [OF o] _ \<open>module_owner s (ModuleOf x) = Some m\<close>]) simp
      with own show ?thesis by (intro instance_ok_privateI [of wi i e ?s m1 b1]) simp_all
    qed
  qed
  moreover have "bounded ?s" using ownershipD(1) [OF o] by (simp add: bounded_def)
  moreover have "runtime_ok ?s" using ownershipD(9) [OF o] up by (simp add: runtime_ok_def split: if_splits)
  ultimately have "ownership ?s" using ownershipD(4,5,8) [OF o] io by (simp add: ownership_def)
  with run show ?thesis by simp
qed

lemma started_fields:
  assumes o: "bounded s" and st: "started s a base source ms y s'"
  obtains i e lm lb where
    "insts s' = (insts s)(i \<mapsto> (case lm of Some m \<Rightarrow> m | None \<Rightarrow> base))" and "envs s' = (envs s)(e \<mapsto> i)"
    and "winsts s' = (winsts s)(y \<mapsto> \<lparr>wi_inst = Some i, wi_exec_env = Some e, wi_mod = a,
       wi_loaded_module = lm, wi_loaded_wasm_buf = lb\<rparr>)"
    and "wmods s' = wmods s" and "natives s' = rev ms @ natives s"
    and "insts s i = None" and "envs s e = None" and "winsts s y = None"
    and "if lm = None then lb = None \<and> bufs s' = bufs s \<and> loaded s' = loaded s
         else \<exists>m b. lm = Some m \<and> lb = Some b \<and> bufs s b = None \<and> loaded s m = None \<and>
           bufs s' = (bufs s)(b \<mapsto> rewrite s source) \<and> loaded s' = (loaded s)(m \<mapsto> b)"
proof -
  from st obtain t lm lb i e where w: "with_private s source ms lm lb t"
    and f: "next_addr t \<le> i" "next_addr t \<le> e" "next_addr t \<le> y" "bufs s' = bufs t" "loaded s' = loaded t"
      "natives s' = natives t" "wmods s' = wmods s"
      "insts s' = (insts s)(i \<mapsto> (case lm of Some m \<Rightarrow> m | None \<Rightarrow> base))" "envs s' = (envs s)(e \<mapsto> i)"
      "winsts s' = (winsts s)(y \<mapsto> \<lparr>wi_inst = Some i, wi_exec_env = Some e, wi_mod = a,
       wi_loaded_module = lm, wi_loaded_wasm_buf = lb\<rparr>)"
    unfolding started_def by blast
  have le: "next_addr s \<le> next_addr t" and n: "natives t = rev ms @ natives s"
    using w by (simp_all add: with_private_def)
  have "insts s i = None" "envs s e = None" "winsts s y = None"
    using boundedD [OF o, of i] boundedD [OF o, of e] boundedD [OF o, of y] f(1-3) le by auto
  moreover have "if lm = None then lb = None \<and> bufs s' = bufs s \<and> loaded s' = loaded s
         else \<exists>m b. lm = Some m \<and> lb = Some b \<and> bufs s b = None \<and> loaded s m = None \<and>
           bufs s' = (bufs s)(b \<mapsto> rewrite s source) \<and> loaded s' = (loaded s)(m \<mapsto> b)"
  proof (cases "ms = []")
    case True
    with w f(4,5) show ?thesis by (simp add: with_private_def)
  next
    case False
    with w obtain m b where p: "lm = Some m" "lb = Some b" "next_addr s \<le> m" "next_addr s \<le> b"
        "bufs t = (bufs s)(b \<mapsto> rewrite s source)" "loaded t = (loaded s)(m \<mapsto> b)"
      unfolding with_private_def by auto
    with boundedD [OF o, of m] boundedD [OF o, of b] f(4,5) show ?thesis by simp
  qed
  moreover have "natives s' = rev ms @ natives s" using f(6) n by simp
  ultimately show thesis using that [OF f(8-10) f(7)] by blast
qed

lemma started_ownership:
  assumes o: "ownership s" and md: "live_module s a md base source" and nm: "list_all named ms"
    and st: "started s a base source ms y s'" and b': "bounded s'"
  shows "ownership s'"
proof -
  obtain i e lm lb where
    u: "insts s' = (insts s)(i \<mapsto> (case lm of Some m \<Rightarrow> m | None \<Rightarrow> base))" "envs s' = (envs s)(e \<mapsto> i)"
      "winsts s' = (winsts s)(y \<mapsto> \<lparr>wi_inst = Some i, wi_exec_env = Some e, wi_mod = a,
       wi_loaded_module = lm, wi_loaded_wasm_buf = lb\<rparr>)" "wmods s' = wmods s" "natives s' = rev ms @ natives s"
    and fr: "insts s i = None" "envs s e = None" "winsts s y = None"
    and p: "if lm = None then lb = None \<and> bufs s' = bufs s \<and> loaded s' = loaded s
         else \<exists>m b. lm = Some m \<and> lb = Some b \<and> bufs s b = None \<and> loaded s m = None \<and>
           bufs s' = (bufs s)(b \<mapsto> rewrite s source) \<and> loaded s' = (loaded s)(m \<mapsto> b)"
    by (rule started_fields [OF ownershipD(1) [OF o] st])
  let ?wi = "\<lparr>wi_inst = Some i, wi_exec_env = Some e, wi_mod = a, wi_loaded_module = lm, wi_loaded_wasm_buf = lb\<rparr>"
  have "buf_owner s' r = ((buf_owner s)(InstanceBuf y := lb)) r" for r by (cases r) (auto simp: u)
  then have bo: "buf_owner s' = (buf_owner s)(InstanceBuf y := lb)" by blast
  have "module_owner s' r = ((module_owner s)(PrivateOf y := lm)) r" for r by (cases r) (auto simp: u)
  then have mo: "module_owner s' = (module_owner s)(PrivateOf y := lm)" by blast
  have io: "inst_owner s' = (inst_owner s)(y \<mapsto> i)" "env_owner s' = (env_owner s)(y \<mapsto> e)"
    by (auto simp: inst_owner_def env_owner_def u)
  have none: "buf_owner s (InstanceBuf y) = None" "module_owner s (PrivateOf y) = None"
    "inst_owner s y = None" "env_owner s y = None" using fr by (simp_all add: inst_owner_def env_owner_def)
  have le: "bufs s \<subseteq>\<^sub>m bufs s'" "loaded s \<subseteq>\<^sub>m loaded s'" "insts s \<subseteq>\<^sub>m insts s'" "envs s \<subseteq>\<^sub>m envs s'"
    using p fr unfolding u by (auto intro: map_le_add split: if_splits)
  have own: "owns (buf_owner s') (bufs s') \<and> owns (module_owner s') (loaded s')"
  proof (cases lm)
    case None
    with p have "lb = None" "bufs s' = bufs s" "loaded s' = loaded s" by auto
    then show ?thesis using None none ownershipD(2,3) [OF o] bo mo by (simp add: fun_upd_idem)
  next
    case (Some m)
    with p obtain b where "lb = Some b" "bufs s b = None" "loaded s m = None"
      "bufs s' = (bufs s)(b \<mapsto> rewrite s source)" "loaded s' = (loaded s)(m \<mapsto> b)" by auto
    then show ?thesis using Some none owns_add [OF ownershipD(2) [OF o]] owns_add [OF ownershipD(3) [OF o]] bo mo
      by simp
  qed
  moreover have "owns (inst_owner s') (insts s')" "owns (env_owner s') (envs s')"
    unfolding io u using none fr owns_add [OF ownershipD(4) [OF o]] owns_add [OF ownershipD(5) [OF o]] by simp_all
  moreover have "module_ok s' md'" if "wmods s' x = Some md'" for x md'
    using that u(4) module_ok_mono [OF ownershipD(6) [OF o] le(2,1)] by simp
  moreover have "instance_ok s' wi" if "winsts s' x = Some wi" for x wi
  proof (cases "x = y")
    case False
    with that u(3) have "winsts s x = Some wi" by simp
    from instance_ok_mono [OF ownershipD(7) [OF o this] le(4,3) _ le(2)] u(4) show ?thesis by simp
  next
    case True
    with that u(3) have wi: "wi = ?wi" by simp
    show ?thesis
    proof (cases lm)
      case None
      with p have "lb = None" by simp
      with wi None md u show ?thesis
        by (intro instance_ok_sharedI [of wi i e s' base md]) (simp_all add: live_module_def)
    next
      case (Some m)
      with p obtain b where "lb = Some b" "loaded s' = (loaded s)(m \<mapsto> b)" by auto
      with wi Some u show ?thesis by (intro instance_ok_privateI [of wi i e s' m b]) simp_all
    qed
  qed
  moreover have "runtime_ok s'"
    using runtime_ok_same(2) [OF ownershipD(9) [OF o]] st by (simp add: started_def)
  ultimately show ?thesis using b' nm ownershipD(8) [OF o] u(5) by (simp add: ownership_def list_all_iff ball_Un)
qed

lemma stop_ownership:
  assumes o: "ownership s" and y: "winsts s y = Some wi"
  shows "\<exists>s'. wamr_bridge_stop s (Some y) = Some s' \<and> ownership s' \<and> winsts s' = (winsts s)(y := None) \<and>
           wmods s' = wmods s \<and> natives s' = natives s"
proof -
  let ?lm = "wi_loaded_module wi" and ?lb = "wi_loaded_wasm_buf wi"
  from ownershipD(7) [OF o y] obtain i e m where f: "wi_inst wi = Some i" "wi_exec_env wi = Some e"
      "envs s e = Some i" "insts s i = Some m"
    and m: "?lm = None \<and> ?lb = None \<and> (\<exists>md. wmods s (wi_mod wi) = Some md \<and> wm_module md = Some m) \<or>
      ?lm = Some m \<and> (\<exists>b. ?lb = Some b \<and> loaded s m = Some b)" unfolding instance_ok_def by blast
  have up: "0 < runtime_ref_count s" using runtime_ok_up [OF ownershipD(9) [OF o]] y by blast
  have own: "inst_owner s y = Some i" "env_owner s y = Some e" using y f by (simp_all add: inst_owner_def env_owner_def)
  have pown: "module_owner s (PrivateOf y) = ?lm" "buf_owner s (InstanceBuf y) = ?lb" using y by simp_all
  have md: "m \<in> dom (loaded s)"
  proof (cases ?lm)
    case None
    with m obtain md where "module_owner s (ModuleOf (wi_mod wi)) = Some m" by auto
    then show ?thesis by (rule owns_live [OF ownershipD(3) [OF o]])
  qed (use m in auto)
  have lbd: "?lb = Some b \<Longrightarrow> b \<in> dom (bufs s)" for b
    using pown by (intro owns_live [OF ownershipD(2) [OF o], of "InstanceBuf y"]) simp
  let ?L = "case ?lm of None \<Rightarrow> loaded s | Some m \<Rightarrow> (loaded s)(m := None)"
  let ?B = "case ?lb of None \<Rightarrow> bufs s | Some b \<Rightarrow> (bufs s)(b := None)"
  let ?s = "s\<lparr>envs := (envs s)(e := None), insts := (insts s)(i := None), loaded := ?L, bufs := ?B,
    winsts := (winsts s)(y := None)\<rparr>"
  have run: "wamr_bridge_stop s (Some y) = Some ?s"
  proof (cases ?lm)
    case None
    then show ?thesis using y f m md up by (auto simp: wamr_bridge_stop_def run)
  next
    case (Some m1)
    with m obtain b where "m1 = m" "?lb = Some b" "loaded s m = Some b" by auto
    with Some y f lbd [of b] up show ?thesis by (auto simp: wamr_bridge_stop_def run)
  qed
  have "buf_owner ?s r = ((buf_owner s)(InstanceBuf y := None)) r" for r by (cases r) auto
  then have bo: "buf_owner ?s = (buf_owner s)(InstanceBuf y := None)" by blast
  have "module_owner ?s r = ((module_owner s)(PrivateOf y := None)) r" for r by (cases r) auto
  then have mo: "module_owner ?s = (module_owner s)(PrivateOf y := None)" by blast
  have io: "inst_owner ?s = (inst_owner s)(y := None)" "env_owner ?s = (env_owner s)(y := None)"
    by (simp_all add: inst_owner_def env_owner_def fun_eq_iff)
  have ob: "owns (buf_owner ?s) (bufs ?s)"
    unfolding bo using pown(2) owns_del [OF ownershipD(2) [OF o], of "InstanceBuf y"] ownershipD(2) [OF o]
    by (cases ?lb) (simp_all add: fun_upd_idem)
  have om: "owns (module_owner ?s) (loaded ?s)"
    unfolding mo using pown(1) owns_del [OF ownershipD(3) [OF o], of "PrivateOf y"] ownershipD(3) [OF o]
    by (cases ?lm) (simp_all add: fun_upd_idem)
  have oi: "owns (inst_owner ?s) (insts ?s)" "owns (env_owner ?s) (envs ?s)"
    unfolding io using owns_del [OF ownershipD(4) [OF o] own(1)] owns_del [OF ownershipD(5) [OF o] own(2)] by simp_all
  have other: "loaded ?s m1 = loaded s m1" if "module_owner s r = Some m1" "r \<noteq> PrivateOf y" for r m1
  proof (cases ?lm)
    case (Some m2)
    then have "module_owner s (PrivateOf y) = Some m2" using pown(1) by simp
    then have "m1 \<noteq> m2" using owns_distinct [OF ownershipD(3) [OF o] that(1) _ that(2)] by blast
    then show ?thesis using Some by simp
  qed simp
  have mok: "module_ok ?s md'" if x: "wmods ?s x = Some md'" for x md'
  proof -
    from x have x': "wmods s x = Some md'" by simp
    from ownershipD(6) [OF o x'] obtain m1 b1 sb1 s1 where g: "wm_module md' = Some m1" "wm_wasm_buf md' = Some b1"
      "wm_source_buf md' = Some sb1" "loaded s m1 = Some b1" "bufs s sb1 = Some s1" "wm_wasm_len md' = length s1"
      by (rule module_okE)
    have "module_owner s (ModuleOf x) = Some m1" using x' g by simp
    from other [OF this] have "loaded ?s m1 = Some b1" using g(4) by simp
    moreover have "bufs ?s sb1 = Some s1"
    proof (cases ?lb)
      case (Some b2)
      have "buf_owner s (ModuleSource x) = Some sb1" using x' g by simp
      moreover have "buf_owner s (InstanceBuf y) = Some b2" using pown(2) Some by simp
      ultimately have "sb1 \<noteq> b2" by (rule owns_distinct [OF ownershipD(2) [OF o]]) simp
      then show ?thesis using Some g(5) by simp
    qed (use g in simp)
    ultimately show ?thesis using g by (intro module_okI [of md' m1 b1 sb1 ?s s1])
  qed
  have iok: "instance_ok ?s wj" if x: "winsts ?s x = Some wj" for x wj
  proof -
    from x have x': "winsts s x = Some wj" and xy: "x \<noteq> y" by (auto split: if_splits)
    have keep: "envs ?s e1 = Some i1 \<and> insts ?s i1 = Some m1"
      if g: "wi_inst wj = Some i1" "wi_exec_env wj = Some e1" "envs s e1 = Some i1" "insts s i1 = Some m1" for i1 e1 m1
    proof -
      have "inst_owner s x = Some i1" "env_owner s x = Some e1" using x' g by (simp_all add: inst_owner_def env_owner_def)
      then have "i1 \<noteq> i" "e1 \<noteq> e"
        using owns_distinct [OF ownershipD(4) [OF o] _ own(1) xy] owns_distinct [OF ownershipD(5) [OF o] _ own(2) xy] by simp_all
      with g show ?thesis by simp
    qed
    from ownershipD(7) [OF o x'] show ?thesis
    proof (cases rule: instance_okE)
      case (shared i1 e1 m1 md1)
      with keep show ?thesis by (intro instance_ok_sharedI [of wj i1 e1 ?s m1 md1]) simp_all
    next
      case (own i1 e1 m1 b1)
      then have "module_owner s (PrivateOf x) = Some m1" using x' by simp
      from other [OF this] have "loaded ?s m1 = Some b1" using own(7) xy by simp
      with own keep show ?thesis by (intro instance_ok_privateI [of wj i1 e1 ?s m1 b1]) simp_all
    qed
  qed
  have "?L a = None" if "loaded s a = None" for a using that by (simp split: option.splits)
  moreover have "?B a = None" if "bufs s a = None" for a using that by (simp split: option.splits)
  ultimately have bs: "bounded ?s" using ownershipD(1) [OF o] by (simp add: bounded_def)
  have nn: "list_all named (natives ?s)" using ownershipD(8) [OF o] by simp
  have "runtime_ok ?s" using ownershipD(9) [OF o] up by (simp add: runtime_ok_def split: if_splits)
  from ownershipI [OF bs ob om oi mok iok nn this] run show ?thesis by simp
qed

section \<open>The protocol\<close>

datatype wamr_call =
    Init
  | Destroy
  | Compile bytes
  | FreeModule "addr option"
  | Validate bytes
  | Start "addr option" "WamrNativeModule list"
  | Stop "addr option"
  | Unregister "WamrNativeModule list"

fun run_call :: "wamr \<Rightarrow> wamr_call \<Rightarrow> wamr option" where
  "run_call s Init = Some (snd (wamr_bridge_init s))"
| "run_call s Destroy = wamr_bridge_destroy s"
| "run_call s (Compile bytes) = map_option snd (wamr_bridge_compile s bytes)"
| "run_call s (FreeModule md) = wamr_bridge_free_module s md"
| "run_call s (Validate bytes) = map_option snd (wamr_bridge_validate s bytes)"
| "run_call s (Start md ms) = map_option snd (wamr_bridge_start_with_native_modules s md ms)"
| "run_call s (Stop wi) = wamr_bridge_stop s wi"
| "run_call s (Unregister ms) = wamr_bridge_unregister_native_modules s ms"

text \<open>
  What a client has to respect: handles are live, a module outlives the instances that run on it, and the
  runtime, which is destroyed when the library is unloaded, outlives all handles.
\<close>

fun allowed :: "wamr \<Rightarrow> wamr_call \<Rightarrow> bool" where
  "allowed s (FreeModule (Some x)) \<longleftrightarrow> x \<in> dom (wmods s) \<and>
     (\<forall>y\<in>dom (winsts s). wi_mod (the (winsts s y)) = x \<longrightarrow> wi_loaded_module (the (winsts s y)) \<noteq> None)"
| "allowed s (Start md ms) \<longleftrightarrow> list_all named ms \<and> (\<forall>x. md = Some x \<longrightarrow> x \<in> dom (wmods s))"
| "allowed s (Stop (Some y)) \<longleftrightarrow> y \<in> dom (winsts s)"
| "allowed s Destroy \<longleftrightarrow> dom (wmods s) = {} \<and> dom (winsts s) = {}"
| "allowed s _ \<longleftrightarrow> True"

inductive reachable :: "wamr \<Rightarrow> bool" where
  reach_init: "bufs s = Map.empty \<Longrightarrow> loaded s = Map.empty \<Longrightarrow> insts s = Map.empty \<Longrightarrow> envs s = Map.empty \<Longrightarrow>
    natives s = [] \<Longrightarrow> wmods s = Map.empty \<Longrightarrow> winsts s = Map.empty \<Longrightarrow> \<not> g_initialized s \<Longrightarrow>
    runtime_ref_count s = 0 \<Longrightarrow> reachable s"
| reach_step: "reachable s \<Longrightarrow> allowed s c \<Longrightarrow> run_call s c = Some s' \<Longrightarrow> reachable s'"

lemma natives_ownership:
  assumes o: "ownership s" and n: "list_all named l" and ok: "runtime_ok s'"
    and s': "s' = s\<lparr>natives := l, g_initialized := g, runtime_ref_count := c, requests := k\<rparr>"
  shows "ownership s'"
proof -
  have "buf_owner s' x = buf_owner s x" for x by (cases x) (simp_all add: s')
  moreover have "module_owner s' x = module_owner s x" for x by (cases x) (simp_all add: s')
  moreover have "inst_owner s' = inst_owner s" "env_owner s' = env_owner s"
    by (simp_all add: s' inst_owner_def env_owner_def fun_eq_iff)
  moreover have "module_ok s' md = module_ok s md" "instance_ok s' wi = instance_ok s wi" for md wi
    by (simp_all add: s' module_ok_def instance_ok_def)
  moreover from calculation have "buf_owner s' = buf_owner s" "module_owner s' = module_owner s" by blast+
  ultimately show ?thesis using o n ok by (simp add: ownership_def s' bounded_def)
qed

lemma unregister_node_total:
  "list_all named l \<Longrightarrow> \<exists>r l'. unregister_node l name symbols = Some (r, l') \<and> list_all named l'"
  by (induction l) (auto simp: named_def split: option.splits)

lemma unregister_total:
  "list_all named (natives s) \<Longrightarrow>
     \<exists>l. unregister_native_modules s ms = Some (s\<lparr>natives := l\<rparr>) \<and> list_all named l \<and>
       (natives s = [] \<longrightarrow> l = [])"
proof (induction ms arbitrary: s)
  case Nil
  then show ?case by (intro exI [of _ "natives s"]) simp
next
  case (Cons n ms)
  show ?case
  proof (cases "nm_module_name n = None \<or> nm_symbols n = None")
    case True
    with Cons show ?thesis by (auto split: option.splits)
  next
    case False
    then obtain name symbols where k: "nm_module_name n = Some name" "nm_symbols n = Some symbols" by auto
    from unregister_node_total [OF Cons.prems] obtain r l where
      l: "unregister_node (natives s) name symbols = Some (r, l)" "list_all named l" by blast
    then have "natives s = [] \<longrightarrow> l = []" by auto
    with l Cons.IH [of "s\<lparr>natives := l\<rparr>"] k show ?thesis by (auto simp: wasm_runtime_unregister_natives_def)
  qed
qed

text \<open>Every allowed call returns, without undefined behaviour, and keeps the ownership.\<close>

theorem call_preserves_ownership:
  assumes o: "ownership s" and ok: "allowed s c"
  shows "\<exists>s'. run_call s c = Some s' \<and> ownership s'"
proof (cases c)
  case Init
  let ?s = "snd (wamr_bridge_init s)"
  have "runtime_ok ?s"
    using ownershipD(9) [OF o] by (simp add: wamr_bridge_init_def wasm_runtime_init_def ask_def Let_def runtime_ok_def)
  then have "ownership ?s"
    by (rule natives_ownership [OF o ownershipD(8) [OF o], where g = "g_initialized ?s" and c = "runtime_ref_count ?s"
          and k = "requests ?s"]) (simp add: wamr_bridge_init_def wasm_runtime_init_def ask_def Let_def)
  with Init show ?thesis by simp
next
  case Destroy
  show ?thesis
  proof (cases "g_initialized s")
    case True
    let ?s = "s\<lparr>natives := [], g_initialized := False, runtime_ref_count := 0, requests := requests s\<rparr>"
    have "runtime_ok ?s" using ok Destroy by (simp add: runtime_ok_def)
    with natives_ownership [OF o _ _ refl, where l = "[]" and g = False and c = 0 and k = "requests s"] have "ownership ?s" by simp
    moreover have "wamr_bridge_destroy s = Some ?s"
      using True ownershipD(9) [OF o] by (simp add: wamr_bridge_destroy_def wasm_runtime_destroy_def runtime_ok_def)
    ultimately show ?thesis using Destroy by simp
  qed (use o Destroy in \<open>simp add: wamr_bridge_destroy_def\<close>)
next
  case (Compile bytes)
  show ?thesis
  proof (cases "g_initialized s")
    case True
    from compile_spec [OF ownershipD(1) [OF o] True, of bytes] obtain r s' where
      r: "wamr_bridge_compile s bytes = Some (r, s')" "bounded s'" "same_runtime s s'"
        "case r of Inl e \<Rightarrow> same_resources s s' | Inr md \<Rightarrow> compiled s bytes md s'" by blast
    have "ownership s'"
      using r(3,4) same_resources_ownership [OF _ r(2) _ o] compiled_ownership [OF o _ r(2)]
        runtime_ok_same(1) [OF ownershipD(9) [OF o]]
      by (cases r) (auto simp: same_resources_def)
    with r Compile show ?thesis by simp
  qed (use o Compile in \<open>simp add: wamr_bridge_compile_def\<close>)
next
  case (FreeModule md)
  show ?thesis
  proof (cases md)
    case (Some x)
    with ok FreeModule obtain m where "wmods s x = Some m" by auto
    have unused: "wi_loaded_module wi \<noteq> None" if y: "winsts s y = Some wi" and x: "wi_mod wi = x" for y wi
    proof -
      from ok Some FreeModule have "\<forall>y\<in>dom (winsts s). wi_mod (the (winsts s y)) = x \<longrightarrow>
        wi_loaded_module (the (winsts s y)) \<noteq> None" by simp
      with y x show ?thesis by (metis domI option.sel)
    qed
    have "\<exists>s'. wamr_bridge_free_module s (Some x) = Some s' \<and> ownership s' \<and> wmods s' = (wmods s)(x := None)"
      by (rule free_module_ownership [OF o \<open>wmods s x = Some m\<close>]) (rule unused)
    with Some FreeModule show ?thesis by auto
  qed (use o FreeModule in \<open>simp add: wamr_bridge_free_module_def\<close>)
next
  case (Validate bytes)
  from validate_restores [OF ownershipD(1) [OF o], of bytes] obtain r s' where
    v: "wamr_bridge_validate s bytes = Some (r, s')" "same_resources s s'" "bounded s'"
      "same_runtime s s' \<or> \<not> g_initialized s \<and> g_initialized s' \<and> runtime_ref_count s' = runtime_ref_count s + 1" by blast
  have "runtime_ok s'" using v(2,4) ownershipD(9) [OF o] by (auto simp: runtime_ok_def same_resources_def same_runtime_def)
  from same_resources_ownership [OF v(2,3) this o] v(1) Validate show ?thesis by simp
next
  case (Start md ms)
  show ?thesis
  proof (cases md)
    case (Some x)
    with ok Start obtain m where m: "wmods s x = Some m" and nm: "list_all named ms" by auto
    from ownership_live_module [OF o m] obtain base source where lm: "live_module s x m base source" by blast
    from start_instance_spec [OF ownershipD(1) [OF o] nm lm] obtain r s' where
      r: "start_instance s (Some x) ms = Some (r, s')" "bounded s'" "same_runtime s s'"
        "case r of Inl e \<Rightarrow> same_resources s s' | Inr wi \<Rightarrow> started s x base source ms wi s'" by blast
    have "ownership s'"
      using r(3,4) same_resources_ownership [OF _ r(2) _ o] started_ownership [OF o lm nm _ r(2)]
        runtime_ok_same(1) [OF ownershipD(9) [OF o]]
      by (cases r) (auto simp: same_resources_def)
    with r Start Some show ?thesis by (simp add: wamr_bridge_start_with_native_modules_def)
  qed (use o Start in \<open>simp add: wamr_bridge_start_with_native_modules_def start_instance_def\<close>)
next
  case (Stop wi)
  show ?thesis
  proof (cases wi)
    case (Some y)
    with ok Stop obtain w where "winsts s y = Some w" by auto
    from stop_ownership [OF o this] Some Stop show ?thesis by auto
  qed (use o Stop in \<open>simp add: wamr_bridge_stop_def\<close>)
next
  case (Unregister ms)
  from unregister_total [OF ownershipD(8) [OF o], of ms] obtain l where
    l: "unregister_native_modules s ms = Some (s\<lparr>natives := l\<rparr>)" "list_all named l" "natives s = [] \<longrightarrow> l = []" by blast
  have "ownership (s\<lparr>natives := l\<rparr>)"
    by (rule natives_ownership [OF o l(2), where g = "g_initialized s" and c = "runtime_ref_count s" and k = "requests s"])
      (use ownershipD(9) [OF o] l(3) in \<open>simp_all add: runtime_ok_def\<close>)
  with l Unregister show ?thesis by (simp add: wamr_bridge_unregister_native_modules_def)
qed

lemma initial_ownership:
  assumes "bufs s = Map.empty" "loaded s = Map.empty" "insts s = Map.empty" "envs s = Map.empty"
    "natives s = []" "wmods s = Map.empty" "winsts s = Map.empty" "\<not> g_initialized s" "runtime_ref_count s = 0"
  shows "ownership s"
proof -
  have "buf_owner s r = None" for r using assms by (cases r) auto
  moreover have "module_owner s r = None" for r using assms by (cases r) auto
  ultimately show ?thesis using assms
    by (auto simp: ownership_def bounded_def owns_def inst_owner_def env_owner_def ran_def runtime_ok_def)
qed

theorem reachable_ownership: "reachable s \<Longrightarrow> ownership s"
proof (induction rule: reachable.induct)
  case (reach_init s)
  then show ?case by (rule initial_ownership)
next
  case (reach_step s c s')
  with call_preserves_ownership [of s c] show ?case by auto
qed

lemma nothing_left:
  assumes "reachable s" and "wmods s = Map.empty" and "winsts s = Map.empty"
  shows "bufs s = Map.empty \<and> loaded s = Map.empty \<and> insts s = Map.empty \<and> envs s = Map.empty"
proof -
  note o = reachable_ownership [OF assms(1)]
  have "buf_owner s r = None" for r using assms by (cases r) auto
  moreover have "module_owner s r = None" for r using assms by (cases r) auto
  moreover have "inst_owner s r = None" "env_owner s r = None" for r
    using assms by (simp_all add: inst_owner_def env_owner_def)
  ultimately show ?thesis using ownershipD(2-5) [OF o] owns_none by metis
qed

text \<open>
  C9: in every state reachable from the start of the process through calls that respect the handles (and
  destroy the runtime only when none is left, as unloading the library does), with any pattern of failures, a
  client that has freed its modules and stopped its instances has leaked nothing: no buffer, module,
  instance or execution environment is left.
\<close>

theorem reachable_no_leak:
  assumes "reachable s" and "wmods s = Map.empty" and "winsts s = Map.empty"
  shows "bufs s = Map.empty \<and> loaded s = Map.empty \<and> insts s = Map.empty \<and> envs s = Map.empty"
  by (rule nothing_left [OF assms])

text \<open>
  Why a client has to keep this order: stopping an instance after the runtime has been destroyed takes a lock
  that is gone.
\<close>

lemma stop_after_destroy_undefined:
  assumes o: "ownership s" and y: "winsts s y = Some wi" and d: "wamr_bridge_destroy s = Some s'"
  shows "wamr_bridge_stop s' (Some y) = None"
proof -
  from ownershipD(9) [OF o] y have "g_initialized s" "runtime_ref_count s = 1" by (auto simp: runtime_ok_def split: if_splits)
  with d have s': "s\<lparr>runtime_ref_count := 0, natives := [], g_initialized := False\<rparr> = s'"
    by (simp add: wamr_bridge_destroy_def wasm_runtime_destroy_def)
  from ownershipD(7) [OF o y] obtain i e m where "wi_inst wi = Some i" "wi_exec_env wi = Some e"
      "envs s e = Some i" "insts s i = Some m" by (auto simp: instance_ok_def)
  with y show ?thesis by (auto simp: s' [symmetric] wamr_bridge_stop_def run)
qed

lemma sample_reachable: "reachable sample_wamr"
proof (rule reach_step)
  show "reachable sample_off" by (rule reach_init) (simp_all add: sample_wamr_def sample_off_def)
  show "run_call sample_off Init = Some sample_wamr"
    by (simp add: wamr_bridge_init_def wasm_runtime_init_def ask_def sample_off_def sample_wamr_def)
qed simp

lemma free_module_handles:
  assumes "wamr_bridge_free_module s (Some x) = Some s'"
  shows "wmods s' = (wmods s)(x := None)" and "winsts s' = winsts s"
proof -
  have keep: "wmods t' = wmods t \<and> winsts t' = winsts t" if "free_buf t p = Some t'" for t t' p
    using that by (auto simp: free_buf_def split: option.splits if_splits)
  have keep': "wmods t' = wmods t \<and> winsts t' = winsts t" if "wasm_runtime_unload t m = Some t'" for t t' m
    using that by (auto simp: wasm_runtime_unload_def split: option.splits if_splits)
  show "wmods s' = (wmods s)(x := None)" and "winsts s' = winsts s"
    using assms by (auto simp: wamr_bridge_free_module_def bind_eq_Some_conv dest!: keep keep' split: option.splits)
qed

theorem reachable_no_leak_witness:
  "\<exists>s' s''. run_call sample_wamr (Compile [0, 1]) = Some s' \<and> run_call s' (FreeModule (Some 3)) = Some s'' \<and>
     bufs s'' = Map.empty \<and> loaded s'' = Map.empty \<and> insts s'' = Map.empty \<and> envs s'' = Map.empty"
proof -
  obtain s' where s': "run_call sample_wamr (Compile [0, 1]) = Some s'" "wmods s' 3 \<noteq> None" "winsts s' = Map.empty"
     "wmods s' = [3 \<mapsto> the (wmods s' 3)]"
    by (simp add: wamr_bridge_compile_def run sample_wamr_def eval_nat_numeral)
  then have "reachable s'" using reach_step [OF sample_reachable _ s'(1)] by simp
  moreover have a: "allowed s' (FreeModule (Some 3))" using s' by auto
  ultimately obtain s'' where s'': "run_call s' (FreeModule (Some 3)) = Some s''" "reachable s''"
    using call_preserves_ownership [OF reachable_ownership] reach_step by blast
  have "wmods s'' = Map.empty" "winsts s'' = Map.empty"
    using s' free_module_handles [of s' 3 s''] s''(1) by (simp_all, metis fun_upd_triv fun_upd_upd)
  with s''(2) s' s'' show ?thesis using reachable_no_leak by blast
qed

text \<open>
  C1: in every reachable state, every call that respects the handles (live modules and instances, a module
  outliving the instances that run on it, the runtime outliving all of them) returns without undefined
  behaviour: no use after free, no double free, no use of a runtime that is down, whatever allocations fail.
\<close>

theorem reachable_calls_defined:
  "reachable s \<Longrightarrow> allowed s c \<Longrightarrow> \<exists>s'. run_call s c = Some s' \<and> reachable s'"
  using call_preserves_ownership [OF reachable_ownership] by (blast intro: reach_step)

theorem reachable_calls_defined_witness:
  "\<exists>s'. run_call sample_wamr (Compile [0, 1]) = Some s' \<and> reachable s'"
  by (rule reachable_calls_defined [OF sample_reachable]) simp

end
