(* ===== verification/Wamr_Shutdown.thy ===== *)
theory Wamr_Shutdown
  imports Wamr_Protocol
begin

text \<open>
  Shutting the bridge down: from every reachable state a client can give everything back, stopping
  its instances and freeing its modules in any order.
\<close>

text \<open>A sequence of calls, each of them allowed at its turn.\<close>

fun run_calls :: "wamr \<Rightarrow> wamr_call list \<Rightarrow> wamr option" where
  "run_calls s [] = Some s"
| "run_calls s (c # cs) = (if allowed s c then do { s \<leftarrow> run_call s c; run_calls s cs } else None)"

lemma run_calls_append: "run_calls s (cs @ ds) = do { s \<leftarrow> run_calls s cs; run_calls s ds }"
  by (induction cs arbitrary: s) (auto split: option.splits bind_split)

lemma run_calls_reachable: "run_calls s cs = Some s' \<Longrightarrow> reachable s \<Longrightarrow> reachable s'"
  by (induction cs arbitrary: s) (auto simp: bind_eq_Some_conv split: if_splits intro: reach_step)

lemma stop_all:
  assumes "reachable s" and "distinct ys" and "set ys = dom (winsts s)"
  shows "\<exists>s'. run_calls s (map (\<lambda>y. Stop (Some y)) ys) = Some s' \<and> winsts s' = Map.empty \<and> wmods s' = wmods s \<and>
    natives s' = natives s"
  using assms
proof (induction ys arbitrary: s)
  case Nil
  then show ?case by (simp add: dom_eq_empty_conv [symmetric] del: dom_eq_empty_conv)
next
  case (Cons y ys)
  then obtain wi where wi: "winsts s y = Some wi" by (auto simp: set_eq_iff dom_def)
  from stop_ownership [OF reachable_ownership [OF Cons.prems(1)] wi] obtain s1 where
    s1: "wamr_bridge_stop s (Some y) = Some s1" "winsts s1 = (winsts s)(y := None)" "wmods s1 = wmods s" "natives s1 = natives s"
    by blast
  have ok: "allowed s (Stop (Some y))" using wi by auto
  then have "reachable s1" using reach_step [OF Cons.prems(1) ok] s1(1) by simp
  moreover have "set ys = dom (winsts s1)" using Cons.prems(2,3) s1(2) by auto
  ultimately obtain s' where "run_calls s1 (map (\<lambda>y. Stop (Some y)) ys) = Some s' \<and> winsts s' = Map.empty \<and>
      wmods s' = wmods s1 \<and> natives s' = natives s1" using Cons.IH [of s1] Cons.prems(2) by force
  then show ?case using ok s1 by (intro exI [of _ s']) (simp del: allowed.simps)
qed

lemma free_all:
  assumes "reachable s" and "winsts s = Map.empty" and "distinct xs" and "set xs = dom (wmods s)"
  shows "\<exists>s'. run_calls s (map (\<lambda>x. FreeModule (Some x)) xs) = Some s' \<and> winsts s' = Map.empty \<and> wmods s' = Map.empty"
  using assms
proof (induction xs arbitrary: s)
  case Nil
  then show ?case by (simp add: dom_eq_empty_conv [symmetric] del: dom_eq_empty_conv)
next
  case (Cons x xs)
  then obtain md where md: "wmods s x = Some md" by (auto simp: set_eq_iff dom_def)
  have ok: "allowed s (FreeModule (Some x))" using md Cons.prems(2) by auto
  have "\<exists>s'. wamr_bridge_free_module s (Some x) = Some s' \<and> ownership s' \<and> wmods s' = (wmods s)(x := None)"
    by (rule free_module_ownership [OF reachable_ownership [OF Cons.prems(1)] md]) (use Cons.prems(2) in auto)
  then obtain s1 where s1: "wamr_bridge_free_module s (Some x) = Some s1" "wmods s1 = (wmods s)(x := None)" by blast
  have "winsts s1 = winsts s" by (rule free_module_handles(2) [OF s1(1)])
  moreover have "reachable s1" using reach_step [OF Cons.prems(1) ok] s1(1) by simp
  moreover have "set xs = dom (wmods s1)" using Cons.prems(3,4) s1(2) by auto
  ultimately obtain s' where "run_calls s1 (map (\<lambda>x. FreeModule (Some x)) xs) = Some s' \<and> winsts s' = Map.empty \<and>
      wmods s' = Map.empty" using Cons.IH [of s1] Cons.prems(2,3) by force
  then show ?case using ok s1 by (intro exI [of _ s']) (simp del: allowed.simps)
qed

text \<open>Destroying leaves the runtime down, whether or not it was up.\<close>

lemma destroy_down:
  assumes "reachable s"
  shows "\<exists>t. wamr_bridge_destroy s = Some t \<and> winsts t = winsts s \<and> wmods t = wmods s \<and> natives t = [] \<and>
    runtime_ref_count t = 0"
  using ownershipD(9) [OF reachable_ownership [OF assms]]
  by (simp add: wamr_bridge_destroy_def wasm_runtime_destroy_def runtime_ok_def split: if_splits)

text \<open>There are finitely many handles to give back.\<close>

lemma reachable_finite:
  assumes "reachable s"
  shows "finite (dom (winsts s))" and "finite (dom (wmods s))"
proof -
  have b: "bounded s" by (rule ownershipD(1) [OF reachable_ownership [OF assms]])
  have "dom (winsts s) \<subseteq> {..<next_addr s}" "dom (wmods s) \<subseteq> {..<next_addr s}"
    using boundedD [OF b] by (auto simp: not_less intro: ccontr)
  then show "finite (dom (winsts s))" "finite (dom (wmods s))" by (meson finite_lessThan finite_subset)+
qed

text \<open>
  C8: From every reachable state the client can shut down: there are finitely many handles, and stopping
  the instances in any order, then freeing the modules in any order, then destroying the runtime is a
  sequence of allowed calls that all return and leave nothing behind: no resource, no native symbol, and the
  runtime down.
\<close>

theorem shutdown_releases:
  assumes "reachable s"
  shows "finite (dom (winsts s)) \<and> finite (dom (wmods s)) \<and>
    (\<forall>ys xs. distinct ys \<longrightarrow> set ys = dom (winsts s) \<longrightarrow> distinct xs \<longrightarrow> set xs = dom (wmods s) \<longrightarrow>
      (\<exists>s'. run_calls s (map (\<lambda>y. Stop (Some y)) ys @ map (\<lambda>x. FreeModule (Some x)) xs @ [Destroy]) = Some s' \<and>
         reachable s' \<and> winsts s' = Map.empty \<and> wmods s' = Map.empty \<and>
         bufs s' = Map.empty \<and> loaded s' = Map.empty \<and> insts s' = Map.empty \<and> envs s' = Map.empty \<and>
         natives s' = [] \<and> \<not> runtime_up s'))"
proof (intro conjI allI impI reachable_finite [OF assms])
  fix ys xs
  assume ys: "distinct ys" "set ys = dom (winsts s)" and xs: "distinct xs" "set xs = dom (wmods s)"
  let ?cs = "map (\<lambda>y. Stop (Some y)) ys @ map (\<lambda>x. FreeModule (Some x)) xs @ [Destroy]"
  from stop_all [OF assms ys] obtain s1 where
    s1: "run_calls s (map (\<lambda>y. Stop (Some y)) ys) = Some s1" "winsts s1 = Map.empty" "wmods s1 = wmods s" by blast
  have "set xs = dom (wmods s1)" using xs(2) s1(3) by simp
  from free_all [OF run_calls_reachable [OF s1(1) assms] s1(2) xs(1) this] obtain s2 where
    s2: "run_calls s1 (map (\<lambda>x. FreeModule (Some x)) xs) = Some s2" "winsts s2 = Map.empty" "wmods s2 = Map.empty" by blast
  have r2: "reachable s2" by (rule run_calls_reachable [OF s2(1) run_calls_reachable [OF s1(1) assms]])
  have ok: "allowed s2 Destroy" using s2(2,3) by simp
  obtain t where t: "wamr_bridge_destroy s2 = Some t" "winsts t = winsts s2" "wmods t = wmods s2"
    "natives t = []" "runtime_ref_count t = 0"
    using destroy_down [OF r2] by blast
  have run: "run_calls s ?cs = Some t" using s1(1) s2(1) t(1) ok by (simp add: run_calls_append)
  have r: "reachable t" by (rule run_calls_reachable [OF run assms])
  have "winsts t = Map.empty" "wmods t = Map.empty" using s2 t by simp_all
  moreover from nothing_left [OF r this(2,1)] have "bufs t = Map.empty \<and> loaded t = Map.empty \<and> insts t = Map.empty \<and> envs t = Map.empty" .
  ultimately show "\<exists>s'. run_calls s ?cs = Some s' \<and> reachable s' \<and> winsts s' = Map.empty \<and> wmods s' = Map.empty \<and>
      bufs s' = Map.empty \<and> loaded s' = Map.empty \<and> insts s' = Map.empty \<and> envs s' = Map.empty \<and>
      natives s' = [] \<and> \<not> runtime_up s'"
    using run r t(4,5) by (auto simp: runtime_up_def)
qed

theorem shutdown_releases_witness:
  "\<exists>s s'. run_calls sample_wamr [Init, Compile [0, 1]] = Some s \<and> dom (wmods s) = {3} \<and> winsts s = Map.empty \<and>
     run_calls s [FreeModule (Some 3), Destroy] = Some s' \<and> bufs s' = Map.empty \<and> loaded s' = Map.empty"
proof -
  obtain s where s: "run_calls sample_wamr [Init, Compile [0, 1]] = Some s" "dom (wmods s) = {3}" "winsts s = Map.empty"
    by (simp add: wamr_bridge_compile_def wamr_bridge_init_def ask_def run sample_wamr_def eval_nat_numeral)
  then have "reachable s" using run_calls_reachable [OF s(1) sample_reachable] by simp
  note all = shutdown_releases [OF \<open>reachable s\<close>, THEN conjunct2, THEN conjunct2, THEN spec [of _ "[]"], THEN spec [of _ "[3]"]]
  have "set [] = dom (winsts s)" "set [3] = dom (wmods s)" using s(2,3) by simp_all
  with all obtain s' where "run_calls s (map (\<lambda>y. Stop (Some y)) [] @ map (\<lambda>x. FreeModule (Some x)) [3] @ [Destroy]) = Some s'"
    "bufs s' = Map.empty" "loaded s' = Map.empty" by (elim impE exE conjE) simp_all
  with s show ?thesis by (intro exI [of _ s] exI [of _ s']) (simp only: list.map append_Nil append_Cons simp_thms)
qed

end
