(* ===== verification/Wamr_Bridge.thy ===== *)
theory Wamr_Bridge
  imports Wasm_Memory
begin

unbundle bit_operations_syntax

text \<open>
  The part of priv/c_src/wamr_bridge.c that looks into a running instance: introspection of
  exports and imports, function signatures and calls, linear memory, globals. An instance
  pointer is an option: \<open>None\<close> stands for a \<open>NULL\<close> struct or a struct without an instance.
\<close>

type_synonym int32 = "32 word"

section \<open>Modules and instances (interpreter/wasm.h, wasm_export.h)\<close>

definition WASM_I32 :: nat where "WASM_I32 = 0"
definition WASM_I64 :: nat where "WASM_I64 = 1"
definition WASM_F32 :: nat where "WASM_F32 = 2"
definition WASM_F64 :: nat where "WASM_F64 = 3"
definition WASM_V128 :: nat where "WASM_V128 = 4"
definition WASM_EXTERNREF :: nat where "WASM_EXTERNREF = 128"
definition WASM_FUNCREF :: nat where "WASM_FUNCREF = 129"

lemmas val_kinds = WASM_I32_def WASM_I64_def WASM_F32_def WASM_F64_def WASM_V128_def
  WASM_EXTERNREF_def WASM_FUNCREF_def

definition WASM_IMPORT_EXPORT_KIND_GLOBAL :: nat where "WASM_IMPORT_EXPORT_KIND_GLOBAL = 3"

definition val_type_to_val_kind :: "nat \<Rightarrow> nat" where
  "val_type_to_val_kind value_type =
     (if value_type = 0x7F then WASM_I32
      else if value_type = 0x7E then WASM_I64
      else if value_type = 0x7D then WASM_F32
      else if value_type = 0x7C then WASM_F64
      else if value_type = 0x7B then WASM_V128
      else if value_type = 0x70 then WASM_FUNCREF
      else if value_type = 0x6F then WASM_EXTERNREF
      else 0)"

text \<open>A value: its kind, and the eight bytes of the union \<open>of\<close> (little-endian).\<close>

record wasm_val =
  v_kind :: nat
  v_of :: uint64

record WASMExport =
  ex_name :: string
  ex_kind :: nat
  ex_index :: nat

record WASMImport =
  im_module_name :: string
  im_field_name :: string
  im_kind :: nat

record WASMModule =
  md_exports :: "WASMExport list"
  md_imports :: "WASMImport list"

record WASMFuncType =
  ft_param_types :: "nat list"
  ft_result_types :: "nat list"

record WASMGlobalInstance =
  gl_type :: nat
  gl_is_mutable :: bool
  gl_data_offset :: nat

record WASMModuleInstance =
  in_module :: WASMModule
  in_memories :: memories
  in_globals :: "WASMGlobalInstance list"
  in_global_data :: bytes
  in_export_functions :: "(string \<times> WASMFuncType) list"
  in_cur_exception :: string

datatype bridge_error =
    null_instance
  | function_not_found string
  | global_not_found string
  | unsupported_global_type
  | global_is_immutable
  | global_type_mismatch
  | exception string

section \<open>Exports and imports\<close>

text \<open>
  A \<open>wasm_export_t\<close> or \<open>wasm_import_t\<close> as the bridge reads it: the names are \<open>NULL\<close> and the
  kind is 0 after the \<open>memset\<close>. An index is an \<open>int32\<close>, compared as an unsigned one.
\<close>

definition wasm_runtime_get_export_count :: "WASMModule \<Rightarrow> int32" where
  "wasm_runtime_get_export_count m = of_nat (length (md_exports m))"

definition wasm_runtime_get_import_count :: "WASMModule \<Rightarrow> int32" where
  "wasm_runtime_get_import_count m = of_nat (length (md_imports m))"

definition wasm_runtime_get_export_type :: "WASMModule \<Rightarrow> int32 \<Rightarrow> string option \<times> nat" where
  "wasm_runtime_get_export_type m export_index =
     (if unat export_index \<ge> length (md_exports m) then (None, 0)
      else let e = md_exports m ! unat export_index in (Some (ex_name e), ex_kind e))"

definition wasm_runtime_get_import_type ::
  "WASMModule \<Rightarrow> int32 \<Rightarrow> string option \<times> string option \<times> nat" where
  "wasm_runtime_get_import_type m import_index =
     (if unat import_index \<ge> length (md_imports m) then (None, None, 0)
      else let i = md_imports m ! unat import_index in
        (Some (im_module_name i), Some (im_field_name i), im_kind i))"

definition wamr_bridge_export_count :: "WASMModule option \<Rightarrow> int32" where
  "wamr_bridge_export_count md = (case md of None \<Rightarrow> 0 | Some m \<Rightarrow> wasm_runtime_get_export_count m)"

definition wamr_bridge_export_info :: "WASMModule option \<Rightarrow> int32 \<Rightarrow> (string option \<times> nat) option" where
  "wamr_bridge_export_info md index = (case md of
     None \<Rightarrow> None
   | Some m \<Rightarrow> Some (wasm_runtime_get_export_type m index))"

definition wamr_bridge_import_count :: "WASMModule option \<Rightarrow> int32" where
  "wamr_bridge_import_count md = (case md of None \<Rightarrow> 0 | Some m \<Rightarrow> wasm_runtime_get_import_count m)"

definition wamr_bridge_import_info ::
  "WASMModule option \<Rightarrow> int32 \<Rightarrow> (string option \<times> string option \<times> nat) option" where
  "wamr_bridge_import_info md index = (case md of
     None \<Rightarrow> None
   | Some m \<Rightarrow> Some (wasm_runtime_get_import_type m index))"

section \<open>Functions\<close>

text \<open>The lookup is a \<open>bsearch\<close> in an array sorted by name; names of exports are distinct.\<close>

definition wasm_lookup_function :: "WASMModuleInstance \<Rightarrow> string \<Rightarrow> WASMFuncType option" where
  "wasm_lookup_function inst name =
     map_option snd (List.find (\<lambda>f. fst f = name) (in_export_functions inst))"

definition wamr_bridge_function_signature ::
  "WASMModuleInstance option \<Rightarrow> string \<Rightarrow> bridge_error + nat \<times> nat list \<times> nat \<times> nat list" where
  "wamr_bridge_function_signature inst func_name = (case inst of
     None \<Rightarrow> Inl null_instance
   | Some i \<Rightarrow>
      (case wasm_lookup_function i func_name of
        None \<Rightarrow> Inl (function_not_found func_name)
      | Some func \<Rightarrow>
          Inr (length (ft_param_types func), map val_type_to_val_kind (ft_param_types func),
               length (ft_result_types func), map val_type_to_val_kind (ft_result_types func))))"

definition wasm_runtime_get_exception :: "WASMModuleInstance \<Rightarrow> string option" where
  "wasm_runtime_get_exception i = (if in_cur_exception i = [] then None else Some (in_cur_exception i))"

definition wasm_runtime_clear_exception :: "WASMModuleInstance \<Rightarrow> WASMModuleInstance" where
  "wasm_runtime_clear_exception i = i\<lparr>in_cur_exception := []\<rparr>"

text \<open>Running the function, \<open>wasm_runtime_call_wasm_a\<close>, is a parameter.\<close>

type_synonym call_wasm =
  "WASMModuleInstance \<Rightarrow> WASMFuncType \<Rightarrow> wasm_val list \<Rightarrow> bool \<times> wasm_val list \<times> WASMModuleInstance"

definition wamr_bridge_call_typed ::
  "call_wasm \<Rightarrow> WASMModuleInstance option \<Rightarrow> string \<Rightarrow> wasm_val list \<Rightarrow>
   (bridge_error + wasm_val list) \<times> WASMModuleInstance option" where
  "wamr_bridge_call_typed call_a inst func_name params = (case inst of
     None \<Rightarrow> (Inl null_instance, None)
   | Some i \<Rightarrow>
      (case wasm_lookup_function i func_name of
        None \<Rightarrow> (Inl (function_not_found func_name), Some i)
      | Some func \<Rightarrow>
         (let (ok, results, i) = call_a i func params in
          if \<not> ok
          then (Inl (exception (case wasm_runtime_get_exception i of
                       Some e \<Rightarrow> e | None \<Rightarrow> ''unknown error'')),
                Some (wasm_runtime_clear_exception i))
          else (Inr results, Some i))))"

text \<open>The execution environment holds the number of instructions left.\<close>

definition wamr_bridge_set_instruction_limit :: "int option \<Rightarrow> int \<Rightarrow> int option" where
  "wamr_bridge_set_instruction_limit exec_env instruction_count = (case exec_env of
     None \<Rightarrow> None
   | Some _ \<Rightarrow> Some instruction_count)"

section \<open>Linear memory\<close>

definition wamr_bridge_memory_size :: "WASMModuleInstance option \<Rightarrow> uint32" where
  "wamr_bridge_memory_size inst = (case inst of
     None \<Rightarrow> 0
   | Some i \<Rightarrow>
      (case wasm_get_default_memory (in_memories i) of
        None \<Rightarrow> 0
      | Some mem \<Rightarrow> ucast (wasm_memory_get_cur_page_count mem * 65536)))"

definition wamr_bridge_memory_grow ::
  "host \<Rightarrow> WASMModuleInstance option \<Rightarrow> uint32 \<Rightarrow> int32 \<times> WASMModuleInstance option" where
  "wamr_bridge_memory_grow os inst delta_pages = (case inst of
     None \<Rightarrow> (-1, None)
   | Some i \<Rightarrow>
      (let cur = wamr_bridge_memory_size inst div 65536;
           (ok, mems) = wasm_runtime_enlarge_memory os (in_memories i) (ucast ((cur + delta_pages) * 65536)) in
       (if \<not> ok then -1 else cur, Some (i\<lparr>in_memories := mems\<rparr>))))"

text \<open>The inner option is the returned boolean, with the bytes copied to the buffer.\<close>

definition wamr_bridge_read_memory ::
  "WASMModuleInstance option \<Rightarrow> uint32 \<Rightarrow> uint32 \<Rightarrow> bytes option option" where
  "wamr_bridge_read_memory inst off len = (case inst of
     None \<Rightarrow> Some None
   | Some i \<Rightarrow>
      (let mem_size = wamr_bridge_memory_size inst in
       if (ucast off :: uint64) + ucast len > ucast mem_size then Some None
       else (case wasm_runtime_addr_app_to_native (in_memories i) (ucast off) of
         None \<Rightarrow> Some None
       | Some native \<Rightarrow> do {
           m \<leftarrow> wasm_get_default_memory (in_memories i);
           bs \<leftarrow> read_native m native (unat len);
           Some (Some bs) })))"

definition set_default_memory :: "WASMModuleInstance \<Rightarrow> WASMMemoryInstance \<Rightarrow> WASMModuleInstance" where
  "set_default_memory i m = i\<lparr>in_memories := map_option (\<lambda>ms. ms[0 := m]) (in_memories i)\<rparr>"

definition wamr_bridge_write_memory ::
  "WASMModuleInstance option \<Rightarrow> uint32 \<Rightarrow> bytes \<Rightarrow> (bool \<times> WASMModuleInstance option) option" where
  "wamr_bridge_write_memory inst off buf = (case inst of
     None \<Rightarrow> Some (False, None)
   | Some i \<Rightarrow>
      (let mem_size = wamr_bridge_memory_size inst; len = of_nat (length buf) :: uint32 in
       if (ucast off :: uint64) + ucast len > ucast mem_size then Some (False, inst)
       else (case wasm_runtime_addr_app_to_native (in_memories i) (ucast off) of
         None \<Rightarrow> Some (False, inst)
       | Some native \<Rightarrow> do {
           m \<leftarrow> wasm_get_default_memory (in_memories i);
           m \<leftarrow> write_native m native (take (unat len) buf);
           Some (True, Some (set_default_memory i m)) })))"

section \<open>Globals\<close>

fun le_bytes :: "nat \<Rightarrow> uint64 \<Rightarrow> bytes" where
  "le_bytes 0 w = []"
| "le_bytes (Suc n) w = ucast w # le_bytes n (drop_bit 8 w)"

fun le_word :: "bytes \<Rightarrow> uint64" where
  "le_word [] = 0"
| "le_word (b # bs) = ucast b OR push_bit 8 (le_word bs)"

definition load_le :: "bytes \<Rightarrow> nat \<Rightarrow> nat \<Rightarrow> uint64 option" where
  "load_le data off n =
     (if off + n \<le> length data then Some (le_word (take n (drop off data))) else None)"

definition store_le :: "bytes \<Rightarrow> nat \<Rightarrow> nat \<Rightarrow> uint64 \<Rightarrow> bytes option" where
  "store_le data off n w =
     (if off + n \<le> length data then Some (take off data @ le_bytes n w @ drop (off + n) data) else None)"

text \<open>Storing to a member of \<open>n\<close> bytes of the union leaves its other bytes.\<close>

definition set_of :: "nat \<Rightarrow> uint64 \<Rightarrow> wasm_val \<Rightarrow> wasm_val" where
  "set_of n w v = v\<lparr>v_of := (v_of v AND NOT (mask (8 * n))) OR take_bit (8 * n) w\<rparr>"

text \<open>A \<open>wasm_global_inst_t\<close>; \<open>global_data\<close> is the offset into the instance's global data.\<close>

record wasm_global_inst =
  gi_kind :: nat
  gi_is_mutable :: bool
  gi_global_data :: nat

definition wasm_runtime_get_export_global_inst ::
  "WASMModuleInstance \<Rightarrow> string \<Rightarrow> wasm_global_inst option option" where
  "wasm_runtime_get_export_global_inst i name =
     (case List.find (\<lambda>e. ex_kind e = WASM_IMPORT_EXPORT_KIND_GLOBAL \<and> ex_name e = name) (md_exports (in_module i)) of
       None \<Rightarrow> Some None
     | Some e \<Rightarrow>
         if ex_index e < length (in_globals i)
         then let g = in_globals i ! ex_index e in
           Some (Some \<lparr>gi_kind = val_type_to_val_kind (gl_type g), gi_is_mutable = gl_is_mutable g,
                       gi_global_data = gl_data_offset g\<rparr>)
         else None)"

definition read_global_value ::
  "bytes \<Rightarrow> wasm_global_inst \<Rightarrow> wasm_val \<Rightarrow> (bridge_error option \<times> wasm_val) option" where
  "read_global_value data g v =
     (let v = v\<lparr>v_kind := gi_kind g\<rparr> in
      if gi_kind g = WASM_I32 then map_option (\<lambda>w. (None, set_of 4 w v)) (load_le data (gi_global_data g) 4)
      else if gi_kind g = WASM_I64 then map_option (\<lambda>w. (None, set_of 8 w v)) (load_le data (gi_global_data g) 8)
      else if gi_kind g = WASM_F32 then map_option (\<lambda>w. (None, set_of 4 w v)) (load_le data (gi_global_data g) 4)
      else if gi_kind g = WASM_F64 then map_option (\<lambda>w. (None, set_of 8 w v)) (load_le data (gi_global_data g) 8)
      else Some (Some unsupported_global_type, v))"

definition write_global_value ::
  "bytes \<Rightarrow> wasm_global_inst \<Rightarrow> wasm_val \<Rightarrow> (bridge_error option \<times> bytes) option" where
  "write_global_value data g v =
     (if \<not> gi_is_mutable g then Some (Some global_is_immutable, data)
      else if gi_kind g \<noteq> v_kind v then Some (Some global_type_mismatch, data)
      else if gi_kind g = WASM_I32 then map_option (\<lambda>d. (None, d)) (store_le data (gi_global_data g) 4 (v_of v))
      else if gi_kind g = WASM_I64 then map_option (\<lambda>d. (None, d)) (store_le data (gi_global_data g) 8 (v_of v))
      else if gi_kind g = WASM_F32 then map_option (\<lambda>d. (None, d)) (store_le data (gi_global_data g) 4 (v_of v))
      else if gi_kind g = WASM_F64 then map_option (\<lambda>d. (None, d)) (store_le data (gi_global_data g) 8 (v_of v))
      else Some (Some unsupported_global_type, data))"

definition wamr_bridge_read_global ::
  "WASMModuleInstance option \<Rightarrow> string \<Rightarrow> wasm_val \<Rightarrow> (bridge_error option \<times> wasm_val) option" where
  "wamr_bridge_read_global inst name v = (case inst of
     None \<Rightarrow> Some (Some null_instance, v)
   | Some i \<Rightarrow> do {
       g \<leftarrow> wasm_runtime_get_export_global_inst i name;
       (case g of
         None \<Rightarrow> Some (Some (global_not_found name), v)
       | Some g \<Rightarrow> read_global_value (in_global_data i) g v) })"

definition wamr_bridge_write_global ::
  "WASMModuleInstance option \<Rightarrow> string \<Rightarrow> wasm_val \<Rightarrow> (bridge_error option \<times> WASMModuleInstance option) option" where
  "wamr_bridge_write_global inst name v = (case inst of
     None \<Rightarrow> Some (Some null_instance, None)
   | Some i \<Rightarrow> do {
       g \<leftarrow> wasm_runtime_get_export_global_inst i name;
       (case g of
         None \<Rightarrow> Some (Some (global_not_found name), inst)
       | Some g \<Rightarrow> do {
           (e, data) \<leftarrow> write_global_value (in_global_data i) g v;
           Some (e, Some (i\<lparr>in_global_data := data\<rparr>)) }) })"

section \<open>Reading and writing linear memory\<close>

text \<open>An instance whose default memory is \<open>m\<close>.\<close>

definition default_memory :: "WASMModuleInstance \<Rightarrow> WASMMemoryInstance \<Rightarrow> bool" where
  "default_memory i m \<longleftrightarrow> wasm_get_default_memory (in_memories i) = Some m"

lemma memory_size_default:
  "default_memory i m \<Longrightarrow> wamr_bridge_memory_size (Some i) = 65536 * mi_cur_page_count m"
proof -
  assume "default_memory i m"
  then have "wamr_bridge_memory_size (Some i) = ucast (ucast (mi_cur_page_count m) * 65536 :: uint64)"
    by (simp add: wamr_bridge_memory_size_def default_memory_def wasm_memory_get_cur_page_count_def)
  also have "\<dots> = 65536 * mi_cur_page_count m"
  proof -
    have "(ucast (mi_cur_page_count m) * 65536 :: uint64) = ucast (mi_cur_page_count m) * ucast (65536 :: uint32)"
      by simp
    then have "unat (ucast (mi_cur_page_count m) * 65536 :: uint64) = unat (mi_cur_page_count m) * 65536"
      using unat_mult_32 [of "mi_cur_page_count m" 65536] by simp
    then have "(ucast (ucast (mi_cur_page_count m) * 65536 :: uint64) :: uint32) =
        of_nat (unat (mi_cur_page_count m) * 65536)" by (metis of_nat_unat)
    then show ?thesis by (simp add: mult.commute)
  qed
  finally show ?thesis .
qed

lemma unat_page_bytes:
  fixes c :: uint32
  shows "unat c < 65536 \<Longrightarrow> unat (65536 * c) = 65536 * unat c"
  using unat_mult_lem [of "65536 :: uint32" c] by simp

lemma unat_sum_32: "unat ((ucast a :: uint64) + ucast b) = unat (a :: uint32) + unat (b :: uint32)"
proof -
  have "unat a < 2 ^ 32" "unat b < 2 ^ 32" by (rule unat_lt2p_32)+
  then show ?thesis using unat_add_lem [of "ucast a :: uint64" "ucast b"] by simp
qed

lemma app_to_native:
  assumes wf: "mem_wf m" and d: "default_memory i m"
  shows "wasm_runtime_addr_app_to_native (in_memories i) (ucast (off :: uint32)) =
    (if unat off < length (mi_contents m) then Some (mi_memory_data m + ucast off) else None)"
proof -
  from wf have len: "length (mi_contents m) = unat (mi_memory_data_size m)"
    and sp: "unat (mi_memory_data m) + unat (mi_memory_data_size m) < 2 ^ 64" by (simp_all add: mem_wf_def)
  have e: "unat (mi_memory_data_end m) = unat (mi_memory_data m) + unat (mi_memory_data_size m)"
    using unat_add_lem [of "mi_memory_data m" "mi_memory_data_size m"] sp by simp
  show ?thesis
  proof (cases "unat (mi_memory_data m) + unat off < 2 ^ 64")
    case True
    then have a: "unat (mi_memory_data m + ucast off) = unat (mi_memory_data m) + unat off"
      using unat_add_lem [of "mi_memory_data m" "ucast off :: uint64"] by simp
    show ?thesis using d e a len
      by (simp add: wasm_runtime_addr_app_to_native_def default_memory_def word_le_nat_alt word_less_nat_alt)
  next
    case False
    then have "\<not> unat off < length (mi_contents m)" using len sp by simp
    moreover have "\<not> mi_memory_data m \<le> mi_memory_data m + ucast off"
      using False no_olen_add_nat [of "mi_memory_data m" "ucast off :: uint64"] by simp
    ultimately show ?thesis using d
      by (simp add: wasm_runtime_addr_app_to_native_def default_memory_def)
  qed
qed

text \<open>
  The bounds check of the bridge compares with \<open>cur_page_count * 65536\<close>. Where that does
  not exceed the accessible bytes, reading is safe, and it returns the bytes asked for.
\<close>

lemma read_memory_spec:
  assumes wf: "mem_wf m" and d: "default_memory i m"
    and sz: "unat (wamr_bridge_memory_size (Some i)) \<le> length (mi_contents m)"
  shows "wamr_bridge_read_memory (Some i) off len =
    Some (if unat off + unat len \<le> unat (wamr_bridge_memory_size (Some i)) \<and> unat off < length (mi_contents m)
          then Some (take (unat len) (drop (unat off) (mi_contents m))) else None)"
proof -
  have c: "(ucast off + ucast len > (ucast (wamr_bridge_memory_size (Some i)) :: uint64)) \<longleftrightarrow>
      unat off + unat len > unat (wamr_bridge_memory_size (Some i))"
    by (simp add: word_less_nat_alt unat_sum_32)
  show ?thesis
    using c app_to_native [OF wf d, of off] d sz
    by (auto simp: wamr_bridge_read_memory_def Let_def default_memory_def read_native_def)
qed

text \<open>For a memory of 64 KiB pages below 4 GiB the size reported is exact.\<close>

lemma memory_size_exact:
  assumes d: "default_memory i m" and wf: "mem_wf m" "paged m"
    and nb: "mi_num_bytes_per_page m = 65536" and c: "unat (mi_cur_page_count m) < 65536"
  shows "unat (wamr_bridge_memory_size (Some i)) = length (mi_contents m)"
  using memory_size_default [OF d] unat_page_bytes [OF c] wf nb by (simp add: mem_wf_def paged_def)

text \<open>At 4 GiB the multiplication wraps: the size reported is 0, and nothing can be read.\<close>

text \<open>
  For a memory of 65536 pages (4 GiB) \<open>wamr_bridge_memory_size\<close> answers 0: the 32-bit result
  wraps.
\<close>

theorem memory_size_4GiB:
  "default_memory i m \<Longrightarrow> mi_cur_page_count m = 65536 \<Longrightarrow> wamr_bridge_memory_size (Some i) = 0"
  by (simp add: memory_size_default)

lemma write_memory_spec:
  assumes wf: "mem_wf m" and d: "default_memory i m"
    and sz: "unat (wamr_bridge_memory_size (Some i)) \<le> length (mi_contents m)" and len: "length buf < 2 ^ 32"
  shows "wamr_bridge_write_memory (Some i) off buf =
    Some (if unat off + length buf \<le> unat (wamr_bridge_memory_size (Some i)) \<and> unat off < length (mi_contents m)
          then (True, Some (set_default_memory i (m\<lparr>mi_contents :=
            take (unat off) (mi_contents m) @ buf @ drop (unat off + length buf) (mi_contents m)\<rparr>)))
          else (False, Some i))"
proof -
  let ?len = "of_nat (length buf) :: uint32"
  have l: "unat ?len = length buf" using len by (simp add: unat_of_nat)
  have c: "(ucast off + ucast ?len > (ucast (wamr_bridge_memory_size (Some i)) :: uint64)) \<longleftrightarrow>
      unat off + length buf > unat (wamr_bridge_memory_size (Some i))"
    using l by (simp add: word_less_nat_alt unat_sum_32)
  show ?thesis
    using c app_to_native [OF wf d, of off] d sz l
    by (auto simp: wamr_bridge_write_memory_def Let_def default_memory_def write_native_def)
qed

lemma default_memory_set:
  "default_memory i m \<Longrightarrow> default_memory (set_default_memory i m') m'"
  by (auto simp: default_memory_def set_default_memory_def wasm_get_default_memory_def
      split: option.splits list.splits)

text \<open>What was written is read back, and the bytes around it are unchanged.\<close>

lemma write_read_memory:
  assumes wf: "mem_wf m" and d: "default_memory i m"
    and sz: "unat (wamr_bridge_memory_size (Some i)) \<le> length (mi_contents m)" and len: "length buf < 2 ^ 32"
    and w: "wamr_bridge_write_memory (Some i) off buf = Some (True, inst')"
  shows "wamr_bridge_read_memory inst' off (of_nat (length buf)) = Some (Some buf)"
    and "unat off' + unat len' \<le> unat off \<or> unat off + length buf \<le> unat off' \<Longrightarrow>
      wamr_bridge_read_memory inst' off' len' = wamr_bridge_read_memory (Some i) off' len'"
proof -
  let ?c = "take (unat off) (mi_contents m) @ buf @ drop (unat off + length buf) (mi_contents m)"
  let ?m = "m\<lparr>mi_contents := ?c\<rparr>" and ?i = "set_default_memory i (m\<lparr>mi_contents := ?c\<rparr>)"
  from w write_memory_spec [OF wf d sz len, of off] have fit: "unat off + length buf \<le> unat (wamr_bridge_memory_size (Some i))"
    "unat off < length (mi_contents m)" and inst': "inst' = Some ?i" by (auto split: if_splits)
  have l: "unat (of_nat (length buf) :: uint32) = length buf" using len by (simp add: unat_of_nat)
  have lc: "length ?c = length (mi_contents m)" using fit sz by simp
  have wf': "mem_wf ?m" using wf lc by (simp add: mem_wf_def)
  note d' = default_memory_set [OF d, of ?m]
  have s': "wamr_bridge_memory_size (Some ?i) = wamr_bridge_memory_size (Some i)"
    using memory_size_default [OF d] memory_size_default [OF d'] by simp
  note r' = read_memory_spec [OF wf' d', unfolded s', simplified lc]
  show "wamr_bridge_read_memory inst' off (of_nat (length buf)) = Some (Some buf)"
    using r' sz fit l lc inst' by simp
  assume dis: "unat off' + unat len' \<le> unat off \<or> unat off + length buf \<le> unat off'"
  have "take (unat len') (drop (unat off') ?c) = take (unat len') (drop (unat off') (mi_contents m))"
    using dis
  proof
    assume a: "unat off' + unat len' \<le> unat off"
    then have "take (unat len' + unat off') ?c = take (unat len' + unat off') (mi_contents m)"
      using fit sz by (simp add: min_def)
    then show ?thesis unfolding take_drop by simp
  next
    assume b: "unat off + length buf \<le> unat off'"
    then obtain k where k: "unat off' = unat off + length buf + k" using le_Suc_ex by blast
    have "length (take (unat off) (mi_contents m)) = unat off" using fit by simp
    then have "drop (unat off') ?c = drop (unat off') (mi_contents m)"
      unfolding k by (simp add: add.commute add.left_commute)
    then show ?thesis by simp
  qed
  then show "wamr_bridge_read_memory inst' off' len' = wamr_bridge_read_memory (Some i) off' len'"
    using r' read_memory_spec [OF wf d sz] sz lc inst' by simp
qed

section \<open>Growing\<close>

text \<open>
  The bridge passes a number of bytes, \<open>(cur + delta_pages) * 65536\<close>, where the runtime
  expects a number of pages to add. Asking a memory of at least one page for more pages is
  therefore refused, whatever its maximum and the host allow.
\<close>

lemma grow_argument:
  assumes c: "unat (cur :: uint32) + unat delta < 65536"
  shows "unat ((cur + delta) * 65536) = (unat cur + unat delta) * 65536"
proof -
  have "unat (cur + delta) = unat cur + unat delta" using c unat_add_lem [of cur delta] by simp
  then show ?thesis using unat_mult_lem [of "cur + delta" 65536] c by simp
qed

lemma ucast_32_64 [simp]: "(ucast (ucast (w :: uint32) :: uint64) :: uint32) = w"
  by (metis of_nat_unat unat_ucast_64 ucast_id)

lemma enlarge_argument:
  "wasm_runtime_enlarge_memory os mems (ucast (w :: uint32)) = wasm_enlarge_memory os mems w"
proof -
  have "unat w \<le> 4294967295" using unat_lt2p_32 [of w] by simp
  then have "\<not> (ucast w :: uint64) > 0xFFFFFFFF" by (simp add: word_less_nat_alt)
  then show ?thesis by (simp add: wasm_runtime_enlarge_memory_def)
qed

lemma page_count_back:
  "default_memory i m \<Longrightarrow> unat (mi_cur_page_count m) < 65536 \<Longrightarrow>
     wamr_bridge_memory_size (Some i) div 65536 = mi_cur_page_count m"
proof -
  assume d: "default_memory i m" and c: "unat (mi_cur_page_count m) < 65536"
  have "unat (wamr_bridge_memory_size (Some i) div 65536) = unat (mi_cur_page_count m)"
    using memory_size_default [OF d] unat_page_bytes [OF c] by (simp add: unat_div)
  then show ?thesis by (rule unsigned_word_eqI)
qed

text \<open>
  C38: \<open>wamr_bridge_memory_grow\<close> passes bytes where the runtime counts pages, so growing a memory that has
  pages, to a total below 65536, is refused (-1) whatever its maximum and the host allow.
\<close>

theorem memory_grow_refuses:
  assumes ms: "in_memories i = Some (m # ms)" and mx: "unat (mi_max_page_count m) \<le> 65536"
    and c: "0 < mi_cur_page_count m" and d: "0 < delta"
    and small: "unat (mi_cur_page_count m) + unat delta < 65536"
  shows "wamr_bridge_memory_grow os (Some i) delta = (-1, Some i)"
proof -
  let ?cur = "mi_cur_page_count m" and ?inc = "(mi_cur_page_count m + delta) * 65536"
  have dm: "default_memory i m" using ms by (simp add: default_memory_def wasm_get_default_memory_def)
  have cur: "wamr_bridge_memory_size (Some i) div 65536 = ?cur" using page_count_back [OF dm] small by simp
  have inc: "unat ?inc = (unat ?cur + unat delta) * 65536" using grow_argument [OF small] .
  have pos: "0 < unat ?cur" "0 < unat delta" using c d by (simp_all add: word_less_nat_alt)
  then have "0 < unat ?inc" using inc by simp
  then have "?inc > 0" by (simp add: word_less_nat_alt)
  moreover have "unat ?cur + unat ?inc > unat (mi_max_page_count m)" using inc mx pos by simp
  ultimately have "wasm_enlarge_memory_internal os m ?inc = (False, m)" by (rule enlarge_refused)
  then show ?thesis
    using ms by (simp add: wamr_bridge_memory_grow_def cur enlarge_argument wasm_enlarge_memory_def Let_def)
qed

text \<open>When the number of bytes wraps to 0, success is reported and nothing has grown.\<close>

text \<open>
  When current and added pages sum up to 65536, the number passed on wraps to 0 and
  \<open>wamr_bridge_memory_grow\<close> reports success although the memory has not grown.
\<close>

theorem memory_grow_pretends:
  assumes ms: "in_memories i = Some (m # ms)" and c: "unat (mi_cur_page_count m) < 65536"
    and sum: "mi_cur_page_count m + delta = 65536"
  shows "wamr_bridge_memory_grow os (Some i) delta = (mi_cur_page_count m, Some i)"
proof -
  have dm: "default_memory i m" using ms by (simp add: default_memory_def wasm_get_default_memory_def)
  have cur: "wamr_bridge_memory_size (Some i) div 65536 = mi_cur_page_count m" using page_count_back [OF dm c] .
  have z: "(mi_cur_page_count m + delta) * 65536 = 0" unfolding sum by simp
  have "wasm_runtime_enlarge_memory os (in_memories i) (ucast ((mi_cur_page_count m + delta) * 65536)) =
      (True, in_memories i)"
    unfolding enlarge_argument z using ms by (simp add: wasm_enlarge_memory_def)
  then show ?thesis unfolding wamr_bridge_memory_grow_def option.case cur Let_def by simp
qed

section \<open>Memories of modules that never ask for their size\<close>





section \<open>Globals\<close>

lemma length_le_bytes [simp]: "length (le_bytes n w) = n"
  by (induction n arbitrary: w) auto

lemma le_word_le_bytes: "le_word (le_bytes n w) = take_bit (8 * n) w"
proof (induction n arbitrary: w)
  case (Suc n)
  have "ucast (ucast w :: byte) OR push_bit 8 (take_bit (8 * n) (drop_bit 8 w)) = take_bit (8 * Suc n) (w :: uint64)"
    by (rule bit_eqI) (auto simp: bit_simps)
  with Suc show ?case by simp
qed simp

lemma load_store_same:
  "store_le data off n w = Some data' \<Longrightarrow> load_le data' off n = Some (take_bit (8 * n) w)"
  by (auto simp: store_le_def load_le_def le_word_le_bytes split: if_splits)

lemma length_store: "store_le data off n w = Some data' \<Longrightarrow> length data' = length data"
  by (auto simp: store_le_def split: if_splits)

lemma load_store_other:
  assumes "store_le data off n w = Some data'" and "off' + k \<le> off \<or> off + n \<le> off'"
  shows "load_le data' off' k = load_le data off' k"
proof -
  from assms(1) have fit: "off + n \<le> length data" and d: "data' = take off data @ le_bytes n w @ drop (off + n) data"
    by (auto simp: store_le_def split: if_splits)
  have "take k (drop off' data') = take k (drop off' data)"
    using assms(2)
  proof
    assume "off' + k \<le> off"
    then have "take (k + off') data' = take (k + off') data" using d fit by (simp add: min_def)
    then show ?thesis unfolding take_drop by simp
  next
    assume "off + n \<le> off'"
    then obtain j where "off' = off + n + j" using le_Suc_ex by blast
    moreover have "length (take off data) = off" using fit by simp
    ultimately have "drop off' data' = drop off' data" unfolding d by (simp add: add.commute add.left_commute)
    then show ?thesis by simp
  qed
  then show ?thesis using length_store [OF assms(1)] by (simp add: load_le_def)
qed

lemma take_bit_set_of [simp]: "take_bit (8 * n) (v_of (set_of n w v)) = take_bit (8 * n) w"
  by (rule bit_eqI) (auto simp: set_of_def bit_simps)

definition kind_size :: "nat \<Rightarrow> nat" where
  "kind_size k = (if k \<in> {WASM_I32, WASM_F32, WASM_FUNCREF, WASM_EXTERNREF} then 4 else 8)"

definition numeric :: "nat \<Rightarrow> bool" where
  "numeric k \<longleftrightarrow> k = WASM_I32 \<or> k = WASM_I64 \<or> k = WASM_F32 \<or> k = WASM_F64"

text \<open>Both switches in one line each.\<close>

lemma read_numeric:
  "numeric (gi_kind g) \<Longrightarrow> read_global_value data g v =
     map_option (\<lambda>w. (None, set_of (kind_size (gi_kind g)) w (v\<lparr>v_kind := gi_kind g\<rparr>)))
       (load_le data (gi_global_data g) (kind_size (gi_kind g)))"
  by (auto simp: read_global_value_def numeric_def kind_size_def val_kinds)

lemma write_numeric:
  "numeric (gi_kind g) \<Longrightarrow> gi_is_mutable g \<Longrightarrow> gi_kind g = v_kind v \<Longrightarrow> write_global_value data g v =
     map_option (\<lambda>d. (None, d)) (store_le data (gi_global_data g) (kind_size (gi_kind g)) (v_of v))"
  by (auto simp: write_global_value_def numeric_def kind_size_def val_kinds)

lemma write_global_value_cases:
  assumes "write_global_value data g v = Some (e, data')"
  shows "(e \<noteq> None \<and> data' = data) \<or> (e = None \<and> numeric (gi_kind g) \<and> gi_is_mutable g \<and> gi_kind g = v_kind v \<and>
     store_le data (gi_global_data g) (kind_size (gi_kind g)) (v_of v) = Some data')"
  using assms by (auto simp: write_global_value_def numeric_def kind_size_def val_kinds split: if_splits)

text \<open>The layout of the global data: every global fits, and no two of them overlap.\<close>

definition global_range :: "WASMGlobalInstance \<Rightarrow> nat \<times> nat" where
  "global_range g = (gl_data_offset g, kind_size (val_type_to_val_kind (gl_type g)))"

definition globals_ok :: "WASMModuleInstance \<Rightarrow> bool" where
  "globals_ok i \<longleftrightarrow>
     (\<forall>g\<in>set (in_globals i). let (off, n) = global_range g in off + n \<le> length (in_global_data i)) \<and>
     (\<forall>j k. j < length (in_globals i) \<longrightarrow> k < length (in_globals i) \<longrightarrow> j \<noteq> k \<longrightarrow>
        (let (o1, n1) = global_range (in_globals i ! j); (o2, n2) = global_range (in_globals i ! k) in
         o1 + n1 \<le> o2 \<or> o2 + n2 \<le> o1)) \<and>
     (\<forall>e\<in>set (md_exports (in_module i)). ex_kind e = WASM_IMPORT_EXPORT_KIND_GLOBAL \<longrightarrow>
        ex_index e < length (in_globals i))"

text \<open>
  How the globals of an instance are laid out (\<open>globals_instantiate\<close>, imports first): one behind the other, each
  as wide as its type; a build without SIMD and garbage collection knows these six types.
\<close>

definition wasm_value_type_size :: "nat \<Rightarrow> nat" where
  "wasm_value_type_size value_type =
     (if value_type = 0x40 then 0
      else if value_type = 0x7F \<or> value_type = 0x7D \<or> value_type = 0x42 then 4
      else if value_type = 0x7E \<or> value_type = 0x7C then 8
      else if value_type = 0x70 \<or> value_type = 0x6F then 4
      else 0)"

fun place_globals :: "nat \<Rightarrow> (nat \<times> bool) list \<Rightarrow> WASMGlobalInstance list \<times> nat" where
  "place_globals global_data_offset [] = ([], global_data_offset)"
| "place_globals global_data_offset ((val_type, is_mutable) # ts) =
     (let (gs, end) = place_globals (global_data_offset + wasm_value_type_size val_type) ts in
      (\<lparr>gl_type = val_type, gl_is_mutable = is_mutable, gl_data_offset = global_data_offset\<rparr> # gs, end))"

definition laid_out :: "WASMModuleInstance \<Rightarrow> (nat \<times> bool) list \<Rightarrow> bool" where
  "laid_out i types \<longleftrightarrow>
     place_globals 0 types = (in_globals i, length (in_global_data i)) \<and>
     (\<forall>(t, m)\<in>set types. t \<in> {0x7F, 0x7E, 0x7D, 0x7C, 0x70, 0x6F}) \<and>
     (\<forall>e\<in>set (md_exports (in_module i)). ex_kind e = WASM_IMPORT_EXPORT_KIND_GLOBAL \<longrightarrow>
        ex_index e < length (in_globals i))"

lemma place_globals_spread:
  assumes "place_globals off types = (gs, stop)" and "\<forall>(t, m)\<in>set types. t \<in> {0x7F, 0x7E, 0x7D, 0x7C, 0x70, 0x6F}"
  shows "(\<forall>g\<in>set gs. off \<le> gl_data_offset g \<and> gl_data_offset g + kind_size (val_type_to_val_kind (gl_type g)) \<le> stop) \<and>
     (\<forall>j k. j < k \<longrightarrow> k < length gs \<longrightarrow>
        gl_data_offset (gs ! j) + kind_size (val_type_to_val_kind (gl_type (gs ! j))) \<le> gl_data_offset (gs ! k)) \<and> off \<le> stop"
  using assms
proof (induction off types arbitrary: gs rule: place_globals.induct)
  case (2 off t m ts)
  from 2(2) obtain gs' where gs: "gs = \<lparr>gl_type = t, gl_is_mutable = m, gl_data_offset = off\<rparr> # gs'"
    and rest: "place_globals (off + wasm_value_type_size t) ts = (gs', stop)" by (auto split: prod.splits)
  have sz: "kind_size (val_type_to_val_kind t) = wasm_value_type_size t"
    using 2(3) by (auto simp: kind_size_def val_type_to_val_kind_def wasm_value_type_size_def val_kinds)
  from 2(1) [OF rest] 2(3) have IH:
    "\<forall>g\<in>set gs'. off + wasm_value_type_size t \<le> gl_data_offset g \<and> gl_data_offset g + kind_size (val_type_to_val_kind (gl_type g)) \<le> stop"
    "\<And>j k. j < k \<Longrightarrow> k < length gs' \<Longrightarrow>
        gl_data_offset (gs' ! j) + kind_size (val_type_to_val_kind (gl_type (gs' ! j))) \<le> gl_data_offset (gs' ! k)"
    "off + wasm_value_type_size t \<le> stop" by auto
  have "gl_data_offset (gs ! j) + kind_size (val_type_to_val_kind (gl_type (gs ! j))) \<le> gl_data_offset (gs ! k)"
    if "j < k" "k < length gs" for j k
    using that IH(2) [of "j - 1" "k - 1"] IH(1) sz by (cases j; cases k) (auto simp: gs)
  with IH(1,3) sz show ?case by (force simp: gs)
qed simp

text \<open>Which global a name exports.\<close>

definition global_index :: "WASMModuleInstance \<Rightarrow> string \<Rightarrow> nat option" where
  "global_index i name = map_option ex_index
     (List.find (\<lambda>e. ex_kind e = WASM_IMPORT_EXPORT_KIND_GLOBAL \<and> ex_name e = name) (md_exports (in_module i)))"

definition global_view :: "WASMGlobalInstance \<Rightarrow> wasm_global_inst" where
  "global_view g = \<lparr>gi_kind = val_type_to_val_kind (gl_type g), gi_is_mutable = gl_is_mutable g,
                    gi_global_data = gl_data_offset g\<rparr>"

lemma export_global_inst:
  assumes "globals_ok i"
  shows "wasm_runtime_get_export_global_inst i name =
     Some (map_option (\<lambda>k. global_view (in_globals i ! k)) (global_index i name))"
    and "global_index i name = Some k \<Longrightarrow> k < length (in_globals i)"
proof -
  have *: "ex_index e < length (in_globals i)"
    if "List.find (\<lambda>e. ex_kind e = WASM_IMPORT_EXPORT_KIND_GLOBAL \<and> ex_name e = name) (md_exports (in_module i)) = Some e" for e
    using that assms by (auto simp: globals_ok_def find_Some_iff)
  then show "wasm_runtime_get_export_global_inst i name =
     Some (map_option (\<lambda>k. global_view (in_globals i ! k)) (global_index i name))"
    by (auto simp: wasm_runtime_get_export_global_inst_def global_index_def global_view_def Let_def split: option.splits)
  show "global_index i name = Some k \<Longrightarrow> k < length (in_globals i)"
    using * by (auto simp: global_index_def)
qed

lemma laid_out_ok:
  assumes "laid_out i types"
  shows "globals_ok i"
proof -
  have *: "place_globals 0 types = (in_globals i, length (in_global_data i))"
    "\<forall>(t, m)\<in>set types. t \<in> {0x7F, 0x7E, 0x7D, 0x7C, 0x70, 0x6F}"
    using assms by (simp_all add: laid_out_def)
  note sp = place_globals_spread [OF *]
  have "gl_data_offset (in_globals i ! j) + kind_size (val_type_to_val_kind (gl_type (in_globals i ! j))) \<le> gl_data_offset (in_globals i ! k) \<or>
        gl_data_offset (in_globals i ! k) + kind_size (val_type_to_val_kind (gl_type (in_globals i ! k))) \<le> gl_data_offset (in_globals i ! j)"
    if "j < length (in_globals i)" "k < length (in_globals i)" "j \<noteq> k" for j k
    using that sp by (cases j k rule: linorder_cases) auto
  with assms sp show ?thesis by (auto simp: globals_ok_def laid_out_def global_range_def Let_def)
qed

lemma globals_ok_data: "globals_ok i \<Longrightarrow> length data = length (in_global_data i) \<Longrightarrow> globals_ok (i\<lparr>in_global_data := data\<rparr>)"
  by (simp add: globals_ok_def)

text \<open>Reading and writing never leave the global data; a write that fails changes nothing.\<close>

lemma read_global_total:
  assumes ok: "globals_ok i"
  shows "wamr_bridge_read_global (Some i) name v \<noteq> None"
proof (cases "global_index i name")
  case None
  then show ?thesis by (simp add: wamr_bridge_read_global_def export_global_inst(1) [OF ok])
next
  case (Some k)
  let ?g = "in_globals i ! k"
  from export_global_inst(2) [OF ok Some] have "?g \<in> set (in_globals i)" by simp
  then have "gl_data_offset ?g + kind_size (val_type_to_val_kind (gl_type ?g)) \<le> length (in_global_data i)"
    using ok by (auto simp: globals_ok_def global_range_def)
  then have fit: "gi_global_data (global_view ?g) + kind_size (gi_kind (global_view ?g)) \<le> length (in_global_data i)"
    by (simp add: global_view_def)
  have "read_global_value (in_global_data i) (global_view ?g) v \<noteq> None"
  proof (cases "numeric (gi_kind (global_view ?g))")
    case True
    then show ?thesis using fit by (simp add: read_numeric load_le_def)
  next
    case False
    then show ?thesis by (simp add: read_global_value_def numeric_def Let_def)
  qed
  then show ?thesis using Some
    by (simp add: wamr_bridge_read_global_def export_global_inst(1) [OF ok])
qed

text \<open>
  with a well-formed layout of the globals \<open>wamr_bridge_write_global\<close> never leaves the global data,
  keeps the layout, and changes nothing when it reports an error (immutable, wrong type,
  unsupported, or no such export).
\<close>

theorem write_global_total:
  assumes ok: "globals_ok i"
  shows "\<exists>e i'. wamr_bridge_write_global (Some i) name v = Some (e, Some i') \<and> globals_ok i' \<and>
     (e \<noteq> None \<longrightarrow> i' = i)"
proof (cases "global_index i name")
  case None
  then show ?thesis using ok by (simp add: wamr_bridge_write_global_def export_global_inst(1) [OF ok])
next
  case (Some k)
  let ?g = "in_globals i ! k" and ?v = "global_view (in_globals i ! k)"
  from export_global_inst(2) [OF ok Some] have "?g \<in> set (in_globals i)" by simp
  then have "gl_data_offset ?g + kind_size (val_type_to_val_kind (gl_type ?g)) \<le> length (in_global_data i)"
    using ok by (auto simp: globals_ok_def global_range_def)
  then have "write_global_value (in_global_data i) ?v v \<noteq> None"
    by (auto simp: global_view_def write_global_value_def store_le_def kind_size_def val_kinds split: if_splits)
  then obtain e data where w: "write_global_value (in_global_data i) ?v v = Some (e, data)" by auto
  from write_global_value_cases [OF w] have "length data = length (in_global_data i)" "e \<noteq> None \<longrightarrow> data = in_global_data i"
    by (auto dest: length_store)
  then show ?thesis using w Some globals_ok_data [OF ok]
    by (auto simp: wamr_bridge_write_global_def export_global_inst(1) [OF ok])
qed

lemma write_read_global:
  assumes ok: "globals_ok i" and w: "wamr_bridge_write_global (Some i) name v = Some (None, inst')"
  shows "\<exists>v'. wamr_bridge_read_global inst' name u = Some (None, v') \<and> v_kind v' = v_kind v \<and>
      take_bit (8 * kind_size (v_kind v)) (v_of v') = take_bit (8 * kind_size (v_kind v)) (v_of v)"
    and "global_index i other \<noteq> global_index i name \<Longrightarrow>
      wamr_bridge_read_global inst' other u = wamr_bridge_read_global (Some i) other u"
proof -
  from w obtain k where k: "global_index i name = Some k"
    by (auto simp: wamr_bridge_write_global_def export_global_inst(1) [OF ok] split: option.splits)
  let ?g = "global_view (in_globals i ! k)"
  from w k obtain data where wv: "write_global_value (in_global_data i) ?g v = Some (None, data)"
      and inst': "inst' = Some (i\<lparr>in_global_data := data\<rparr>)"
    by (auto simp: wamr_bridge_write_global_def export_global_inst(1) [OF ok] bind_eq_Some_conv)
  from write_global_value_cases [OF wv] have num: "numeric (gi_kind ?g)" "gi_kind ?g = v_kind v"
    and st: "store_le (in_global_data i) (gi_global_data ?g) (kind_size (gi_kind ?g)) (v_of v) = Some data" by auto
  let ?i = "i\<lparr>in_global_data := data\<rparr>"
  note ok' = globals_ok_data [OF ok length_store [OF st]]
  have gi: "global_index ?i n = global_index i n" for n by (simp add: global_index_def)
  show "\<exists>v'. wamr_bridge_read_global inst' name u = Some (None, v') \<and> v_kind v' = v_kind v \<and>
      take_bit (8 * kind_size (v_kind v)) (v_of v') = take_bit (8 * kind_size (v_kind v)) (v_of v)"
    using k num load_store_same [OF st]
    by (simp add: inst' wamr_bridge_read_global_def export_global_inst(1) [OF ok'] gi read_numeric) (simp add: set_of_def)
  assume ne: "global_index i other \<noteq> global_index i name"
  show "wamr_bridge_read_global inst' other u = wamr_bridge_read_global (Some i) other u"
  proof (cases "global_index i other")
    case None
    then show ?thesis
      by (simp add: inst' wamr_bridge_read_global_def export_global_inst(1) [OF ok'] export_global_inst(1) [OF ok] gi)
  next
    case (Some j)
    then have jk: "j < length (in_globals i)" "k < length (in_globals i)" "j \<noteq> k"
      using export_global_inst(2) [OF ok] k ne by auto
    let ?h = "global_view (in_globals i ! j)"
    have dis: "gi_global_data ?h + kind_size (gi_kind ?h) \<le> gi_global_data ?g \<or>
        gi_global_data ?g + kind_size (gi_kind ?g) \<le> gi_global_data ?h"
      using ok jk unfolding globals_ok_def by (fastforce simp: global_range_def global_view_def Let_def)
    have "read_global_value data ?h u = read_global_value (in_global_data i) ?h u"
    proof (cases "numeric (gi_kind ?h)")
      case True
      then show ?thesis using load_store_other [OF st dis] by (simp add: read_numeric)
    next
      case False
      then show ?thesis by (simp add: read_global_value_def numeric_def)
    qed
    then show ?thesis using Some
      by (simp add: inst' wamr_bridge_read_global_def export_global_inst(1) [OF ok'] export_global_inst(1) [OF ok] gi)
  qed
qed

lemma written_numeric:
  assumes ok: "globals_ok i" and w: "wamr_bridge_write_global (Some i) name v = Some (None, inst')"
  shows "v_kind v \<in> {WASM_I32, WASM_I64, WASM_F32, WASM_F64}"
proof -
  from w obtain k where k: "global_index i name = Some k"
    by (auto simp: wamr_bridge_write_global_def export_global_inst(1) [OF ok] split: option.splits)
  from w k obtain data where "write_global_value (in_global_data i) (global_view (in_globals i ! k)) v = Some (None, data)"
    by (auto simp: wamr_bridge_write_global_def export_global_inst(1) [OF ok] bind_eq_Some_conv)
  from write_global_value_cases [OF this] show ?thesis by (auto simp: numeric_def)
qed

section \<open>Introspection and calls\<close>

text \<open>
  after a failed \<open>wamr_bridge_call_typed\<close> no exception is pending in the instance, or the function
  was not found and the instance is untouched.
\<close>

theorem call_typed_clears_exception:
  assumes "wamr_bridge_call_typed call_a (Some i) func_name params = (Inl e, Some i')"
  shows "e = function_not_found func_name \<and> i' = i \<or> wasm_runtime_get_exception i' = None"
  using assms
  by (auto simp: wamr_bridge_call_typed_def Let_def wasm_runtime_get_exception_def wasm_runtime_clear_exception_def
      split: option.splits prod.splits if_splits)

section \<open>A sample instance, and properties\<close>

definition sample_module :: WASMModule where
  "sample_module = \<lparr>md_exports = [\<lparr>ex_name = ''f'', ex_kind = 0, ex_index = 0\<rparr>,
      \<lparr>ex_name = ''g'', ex_kind = 3, ex_index = 0\<rparr>, \<lparr>ex_name = ''h'', ex_kind = 3, ex_index = 1\<rparr>], md_imports = []\<rparr>"

definition sample_instance :: "WASMMemoryInstance \<Rightarrow> WASMModuleInstance" where
  "sample_instance m = \<lparr>in_module = sample_module, in_memories = Some [m],
     in_globals = [\<lparr>gl_type = 0x7F, gl_is_mutable = True, gl_data_offset = 0\<rparr>,
       \<lparr>gl_type = 0x7E, gl_is_mutable = False, gl_data_offset = 4\<rparr>],
     in_global_data = replicate 12 0, in_export_functions = [(''f'', \<lparr>ft_param_types = [], ft_result_types = []\<rparr>)],
     in_cur_exception = ''''\<rparr>"

lemma sample_default: "default_memory (sample_instance m) m"
  by (simp add: default_memory_def sample_instance_def wasm_get_default_memory_def)

lemma sample_laid_out: "laid_out (sample_instance m) [(0x7F, True), (0x7E, False)]"
  by (auto simp: laid_out_def sample_instance_def sample_module_def wasm_value_type_size_def WASM_IMPORT_EXPORT_KIND_GLOBAL_def)

lemmas sample_globals_ok = laid_out_ok [OF sample_laid_out]

text \<open>
  C22: for 64 KiB pages below 4 GiB \<open>wamr_bridge_read_memory\<close> returns the bytes asked for exactly when the
  range lies in the memory (and starts inside it), and fails without undefined behaviour
  otherwise, for every 32-bit offset and length.
\<close>

theorem read_memory_exact:
  assumes d: "default_memory i m" and wf: "mem_wf m" "paged m"
    and nb: "mi_num_bytes_per_page m = 65536" and c: "unat (mi_cur_page_count m) < 65536"
  shows "wamr_bridge_read_memory (Some i) off len =
    Some (if unat off + unat len \<le> length (mi_contents m) \<and> unat off < length (mi_contents m)
          then Some (take (unat len) (drop (unat off) (mi_contents m))) else None)"
  using read_memory_spec [OF wf(1) d] memory_size_exact [OF assms] by simp

theorem read_memory_exact_witness:
  "wamr_bridge_read_memory (Some (sample_instance sample_memory)) 65534 2 = Some (Some [0, 0])"
proof -
  have "take 2 (drop 65534 (replicate 65536 0)) = [0, 0 :: byte]" by (simp add: numeral_2_eq_2)
  then show ?thesis
    using read_memory_exact [OF sample_default sample_memory_wf, of 65534 2] by (simp add: sample_memory_def)
qed

text \<open>
  C23: what \<open>wamr_bridge_write_memory\<close> stored is what \<open>wamr_bridge_read_memory\<close> returns, and reads of
  disjoint ranges are not affected.
\<close>

theorem write_then_read_memory:
  assumes wf: "mem_wf m" and d: "default_memory i m"
    and sz: "unat (wamr_bridge_memory_size (Some i)) \<le> length (mi_contents m)" and len: "length buf < 2 ^ 32"
    and w: "wamr_bridge_write_memory (Some i) off buf = Some (True, inst')"
  shows "wamr_bridge_read_memory inst' off (of_nat (length buf)) = Some (Some buf) \<and>
      (\<forall>off' len'. unat off' + unat len' \<le> unat off \<or> unat off + length buf \<le> unat off' \<longrightarrow>
        wamr_bridge_read_memory inst' off' len' = wamr_bridge_read_memory (Some i) off' len')"
  using write_read_memory [OF assms] by blast

theorem write_then_read_memory_witness:
  "\<exists>inst'. wamr_bridge_write_memory (Some (sample_instance sample_memory)) 8 [1, 2] = Some (True, inst') \<and>
     wamr_bridge_read_memory inst' 8 2 = Some (Some [1, 2])"
proof -
  have sz: "unat (wamr_bridge_memory_size (Some (sample_instance sample_memory))) \<le> length (mi_contents sample_memory)"
    by (simp add: memory_size_default [OF sample_default]) (simp add: sample_memory_def)
  have fit: "unat (8 :: uint32) + length [1, 2 :: byte] \<le> unat (wamr_bridge_memory_size (Some (sample_instance sample_memory))) \<and> 
      unat (8 :: uint32) < length (mi_contents sample_memory)"
    by (simp add: memory_size_default [OF sample_default]) (simp add: sample_memory_def)
  obtain inst' where w: "wamr_bridge_write_memory (Some (sample_instance sample_memory)) 8 [1, 2] = Some (True, inst')"
    using write_memory_spec [OF sample_memory_wf(1) sample_default sz, of "[1, 2]" 8] fit by simp
  from write_then_read_memory [OF sample_memory_wf(1) sample_default sz _ w] w show ?thesis by simp
qed

theorem memory_grow_refuses_witness:
  "wamr_bridge_memory_grow sample_host (Some (sample_instance sample_memory)) 1 = (-1, Some (sample_instance sample_memory))"
  by (rule memory_grow_refuses [of _ sample_memory "[]"]) (simp_all add: sample_instance_def sample_memory_def)

theorem memory_grow_pretends_witness:
  "wamr_bridge_memory_grow sample_host (Some (sample_instance sample_memory)) 65535 = (1, Some (sample_instance sample_memory))"
  using memory_grow_pretends [of "sample_instance sample_memory" sample_memory "[]" 65535 sample_host]
  by (simp add: sample_instance_def sample_memory_def)

theorem memory_size_4GiB_witness:
  "wamr_bridge_memory_size (Some (sample_instance (sample_memory\<lparr>mi_cur_page_count := 65536\<rparr>))) = 0"
  by (rule memory_size_4GiB [OF sample_default]) simp





text \<open>
  C27: in an instance whose globals are laid out as instantiation does it (any number of numeric and
  reference globals), writing an exported global and reading it gives the value back in the width of its
  type, and leaves every other global unchanged. The write can only succeed on a mutable global of a numeric type.
\<close>

theorem global_roundtrip:
  assumes lay: "laid_out i types" and w: "wamr_bridge_write_global (Some i) name v = Some (None, inst')"
  shows "v_kind v \<in> {WASM_I32, WASM_I64, WASM_F32, WASM_F64} \<and> (\<exists>v'. wamr_bridge_read_global inst' name u = Some (None, v') \<and> v_kind v' = v_kind v \<and>
      take_bit (8 * kind_size (v_kind v)) (v_of v') = take_bit (8 * kind_size (v_kind v)) (v_of v)) \<and>
    (\<forall>other. global_index i other \<noteq> global_index i name \<longrightarrow>
      wamr_bridge_read_global inst' other u = wamr_bridge_read_global (Some i) other u)"
  using write_read_global [OF laid_out_ok [OF lay] w] written_numeric [OF laid_out_ok [OF lay] w] by blast

theorem global_roundtrip_witness:
  "\<exists>inst' v'. wamr_bridge_write_global (Some (sample_instance sample_memory)) ''g'' \<lparr>v_kind = 0, v_of = 7\<rparr> = Some (None, inst') \<and>
     wamr_bridge_read_global inst' ''g'' \<lparr>v_kind = 0, v_of = 0\<rparr> = Some (None, v') \<and> take_bit 32 (v_of v') = 7"
proof -
  obtain inst' where w: "wamr_bridge_write_global (Some (sample_instance sample_memory)) ''g'' \<lparr>v_kind = 0, v_of = 7\<rparr> = Some (None, inst')"
    by (simp add: wamr_bridge_write_global_def wasm_runtime_get_export_global_inst_def sample_instance_def sample_module_def
      WASM_IMPORT_EXPORT_KIND_GLOBAL_def write_global_value_def val_kinds val_type_to_val_kind_def store_le_def Let_def)
  from global_roundtrip [OF sample_laid_out w, of "\<lparr>v_kind = 0, v_of = 0\<rparr>"] w show ?thesis by (auto simp: kind_size_def val_kinds)
qed

theorem write_global_total_witness:
  "\<exists>e i'. wamr_bridge_write_global (Some (sample_instance sample_memory)) ''h'' \<lparr>v_kind = 1, v_of = 5\<rparr> = Some (e, Some i') \<and> globals_ok i' \<and>
     (e \<noteq> None \<longrightarrow> i' = sample_instance sample_memory)"
  by (rule write_global_total [OF sample_globals_ok])

text \<open>
  \<open>wamr_bridge_export_info\<close> gives name and kind of the export, and for an index out of range it
  answers true all the same, with a \<open>NULL\<close> name and kind 0.
\<close>

theorem export_info_bounds:
  "wamr_bridge_export_info (Some m) index =
     (if unat index < length (md_exports m)
      then Some (Some (ex_name (md_exports m ! unat index)), ex_kind (md_exports m ! unat index))
      else Some (None, 0))"
  by (simp add: wamr_bridge_export_info_def wasm_runtime_get_export_type_def Let_def not_le)

theorem call_typed_clears_exception_witness:
  "\<exists>e i'. wamr_bridge_call_typed (\<lambda>i f ps. (False, [], i\<lparr>in_cur_exception := ''trap''\<rparr>))
       (Some (sample_instance sample_memory)) ''f'' [] = (Inl e, Some i') \<and> wasm_runtime_get_exception i' = None"
proof -
  let ?call = "\<lambda>i f ps. (False, [], i\<lparr>in_cur_exception := ''trap''\<rparr>)" and ?i = "sample_instance sample_memory"
  have f: "wasm_lookup_function ?i ''f'' = Some \<lparr>ft_param_types = [], ft_result_types = []\<rparr>"
    by (simp add: wasm_lookup_function_def sample_instance_def)
  then obtain e i' where r: "wamr_bridge_call_typed ?call (Some ?i) ''f'' [] = (Inl e, Some i')"
      "e \<noteq> function_not_found ''f''"
    by (simp add: wamr_bridge_call_typed_def)
  from call_typed_clears_exception [OF r(1)] r show ?thesis by blast
qed

end
