(* ===== verification/Spec2Isabelle.thy ===== *)
theory Spec2Isabelle
  imports Dom_Validity Dom_Attr_Store Qb_Dom Wamr_Shutdown Lexbor_Array Lexbor_Hash Lexbor_Tables Wamr_Bridge Wamr_Protocol
begin

text \<open>
  \<^bold>\<open>What is verified.\<close> QuickBEAM embeds a JavaScript engine in the Erlang VM. Its native layer
  (\<^verbatim>\<open>priv/c_src\<close>) gives JavaScript a DOM, by a bridge to the vendored lexbor library
  (\<^verbatim>\<open>lexbor_bridge.c\<close>, called from \<^verbatim>\<open>lib/quickbeam/dom.zig\<close>), and WebAssembly, by a bridge to the vendored
  WAMR runtime (\<^verbatim>\<open>wamr_bridge.c\<close>, called from the NIF). This development models both bridges and the C code of the
  libraries that carries their meaning: for the DOM the heap of nodes and every operation the bridge performs on it, down
  to strings, arrays and name tables; for WebAssembly the ownership of modules and instances, linear memory, globals and calls.

  \<^bold>\<open>How the code is modelled.\<close> One definition per C function, under the function's name; a loop inside a function, or
  a step several functions share, is a definition of its own. A struct is a record, an enum a datatype, a pointer an
  address or NULL (\<open>addr option\<close>), a status code a value. An operation that reads or writes memory answers \<open>'a option\<close>:
  \<open>None\<close> says that the C code would touch memory that is not there. So a theorem that an operation answers \<open>Some\<close> is a
  statement of memory safety, and one that it answers \<open>None\<close> exhibits an undefined behaviour. Requests for memory
  are answered by a plan the theorems quantify over: they hold whichever allocations fail. Sizes are natural numbers; where a sum of the
  source may wrap it is computed modulo 2^64, or a word of the source's width is used (linear memory, globals, hashes). Loops that
  end only on well-formed data are \<open>partial_function (option)\<close>; there is no fuel anywhere, and that they end is part of what is proved
  (each loop is shown equal to a structural recursion over the tree or list that the pointers stand for).

  \<^bold>\<open>The theories, from the bottom.\<close>
  \<^item> \<open>QB_Prelude\<close>: C types, status codes, doubly linked lists seen from their ends.
  \<^item> \<open>Lexbor_Arena\<close>, \<open>Lexbor_Str\<close> (\<^verbatim>\<open>lexbor/core/mraw.c\<close> as its clients see it, \<^verbatim>\<open>core/str.c\<close>): strings in an arena. Every edit is
    proved against lists of bytes; appending is the locale \<open>byte_sink\<close>.
  \<^item> \<open>Lexbor_Array\<close> (\<^verbatim>\<open>core/array.c\<close>, \<^verbatim>\<open>dom/collection.c\<close>): pointer arrays and collections, locale \<open>appendable\<close>.
  \<^item> \<open>Lexbor_Shs\<close>, \<open>Lexbor_Tables\<close>, \<open>Lexbor_Hash\<close> (\<^verbatim>\<open>core/shs.c\<close>, \<^verbatim>\<open>core/hash.c\<close>, the tables of \<^verbatim>\<open>attr_res.h\<close>, \<^verbatim>\<open>ns/res.h\<close>, \<^verbatim>\<open>tag/res.h\<close>):
    names known at compile time and interned names; locale \<open>name_table\<close>, interpreted three times.
  \<^item> \<open>Dom_Heap\<close>, \<open>Dom_Forest\<close>, \<open>Dom_Sample\<close>: the structs of the DOM, one partial map per kind; the predicate \<open>forest\<close>, which relates
    the sibling pointers to an ordered forest; linking and unlinking on it; a concrete document.
  \<^item> \<open>Dom_Node\<close>, \<open>Dom_Walk\<close>, \<open>Dom_Validity\<close> (\<^verbatim>\<open>dom/interfaces/node.c\<close>): insertion and removal pointer for pointer, refined to surgery on
    lists of children; traversals, refined to recursion on rose trees; the checked operations of the DOM standard. Their validity
    test is stated twice: \<open>insert_validity\<close> are the rules in the comments of the code, \<open>code_validity\<close> the answers of the code, which
    leaves out that only fragments, doctypes, elements and character data may be inserted.
  \<^item> \<open>Dom_Names\<close>, \<open>Dom_Attr\<close>, \<open>Dom_Attrs\<close>, \<open>Dom_Attr_Sample\<close>, \<open>Dom_Attr_Store\<close> (\<^verbatim>\<open>attr.c\<close>, \<^verbatim>\<open>element.c\<close>, \<^verbatim>\<open>tag.c\<close>, \<^verbatim>\<open>ns.c\<close>): identifiers of names, and the
    attributes of an element as an association list (invariant \<open>attrs_wf\<close>); locale \<open>keyed_store\<close>. The empty name is never found.
    The one name that does not behave so is \<open>#undef\<close>, which the code takes for the first attribute without a qualified
    name (\<open>undef_names_first\<close>).
  \<^item> \<open>Dom_Query\<close> (\<^verbatim>\<open>node.c\<close>): elements by tag name, class, attribute and id. Names with a colon find nothing: the prefix is looked up
    under the whole name.
  \<^item> \<open>Dom_Frame\<close>, \<open>Dom_Interface\<close>, \<open>Dom_Create\<close>, \<open>Dom_Creation\<close>, \<open>Dom_Document\<close> (\<^verbatim>\<open>dom/interface.c\<close>, \<^verbatim>\<open>html/interface.c\<close>, \<^verbatim>\<open>document.c\<close>,
    the constructors of each kind of node): creating nodes, typed by their structs, and taking them back on failure.
  \<^item> \<open>Dom_Destroy\<close>, \<open>Dom_Text\<close> (\<^verbatim>\<open>node.c\<close>, \<^verbatim>\<open>character_data.c\<close>): destroying subtrees, textContent.
  \<^item> \<open>Html_Escape\<close>, \<open>Html_Serialize\<close> (\<^verbatim>\<open>html/serialize.c\<close>): innerHTML and outerHTML, refined to a printer of markup; locale \<open>text_callback\<close>,
    which gives \<open>byte_sink\<close>, interpreted on both callbacks (string, growing buffer).
  \<^item> \<open>Qb_Dom\<close> (\<^verbatim>\<open>lexbor_bridge.c\<close>, \<^verbatim>\<open>dom.zig\<close>): the bridge and the tree operations of the JavaScript objects.
  \<^item> \<open>Wasm_Memory\<close> (\<^verbatim>\<open>wasm_memory.c\<close>, \<^verbatim>\<open>wasm_runtime.c\<close>, the end of \<^verbatim>\<open>wasm_loader.c\<close>): a linear memory from loading to growth. The loader's
    resizing (\<open>load_memory\<close>) and the rounding of the heap size (\<open>app_heap_size\<close>) feed \<open>memory_instantiate\<close>, which places the application heap; growth has
    three outcomes (\<open>remap\<close>): refused, mapped, or moved and then unmapped because it could not be made accessible.
  \<^item> \<open>Wamr_Lifecycle\<close>, \<open>Wamr_Protocol\<close>, \<open>Wamr_Shutdown\<close> (\<^verbatim>\<open>wamr_bridge.c\<close>): what each function of the bridge acquires and gives back; the runtime
    below it, up or down (\<open>runtime_ref_count\<close>): when it is down loading and instantiating fail, unloading frees nothing and deinstantiating is
    undefined; the bridge as a state machine with the protocol of its client (every call uses live handles, a module outlives its
    instances, and the runtime is destroyed only when no module and no instance is left), and the ownership invariant of its reachable
    states, from the start of the process.
  \<^item> \<open>Wamr_Bridge\<close> (\<^verbatim>\<open>wamr_bridge.c\<close>, \<^verbatim>\<open>wasm_runtime_common.c\<close>): exports, signatures, calls, memory access, globals. Globals lie one
    behind the other, as instantiation places them (\<open>place_globals\<close>), reference types included.

  \<^bold>\<open>How the parts interact.\<close> A well-formed document is \<open>dom_wf h T\<close> (the pointers stand for the forest \<open>T\<close>, every node has a
  live owner) together with \<open>attrs_wf h M\<close> (every struct fits the type of its node, every block of the text arena has one
  owner, each element's attribute list stands for \<open>M\<close>). Tree operations keep both and change \<open>T\<close> only; attribute operations keep both and change
  \<open>M\<close> at one element only; creating adds a detached node, destroying removes exactly a subtree. So the operations
  compose: \<open>inner_html_of_text_content\<close> below joins creating, destroying, inserting and serializing.

  \<^bold>\<open>What the properties show.\<close> Refinement: the serializer to the printer, insertion with and without checks, replaceChild, attribute
  operations and string edits to their abstract counterparts. Round trips: text through escaping, textContent, attributes, bytes in
  linear memory, globals. Safety: no sequence of bridge calls that keeps the protocol is undefined or leaks a resource; accesses to linear memory are
  exact. Termination: destroying a subtree, the walks. Typing: every interface a document creates. The rest states
  behaviour of the code that is not what its documentation or the DOM standard says, each as a theorem about the model:
  growth of linear memory in bytes instead of pages, sizes that wrap, a NUL behind a full block, a custom state behind a smaller struct, a fragment
  that keeps its children, a cycle of parents, a memory left unmapped, a missing rule for insertion.

  \<^bold>\<open>Bounds.\<close> Lengths of strings are below 2^62 or 2^63, so that the sums of the source do not wrap; this is more than any
  address space holds; a collection has at most 2^60 members. Hash tables and name tables are exact. A query by attribute is stated for
  documents whose nodes below the root have the document of the root. No other bound is assumed.

  \<^bold>\<open>Parameters and hypotheses.\<close> The function that runs WebAssembly code (\<open>wasm_runtime_call_wasm_a\<close>) is an argument; so are the callback of
  the serializer and the answers of the allocators, of \<open>os_mmap\<close> and of the loader (whether a binary is accepted, what it declares), of \<open>os_mremap\<close> and \<open>os_mprotect\<close>.

  \<^bold>\<open>Not modelled, and why.\<close>
  \<^item> The vendored engines: QuickJS, the interpreter, loader and validator of WAMR with its platform layer, lexbor's HTML tokenizer and tree
    builder, its CSS parser and selectors. They are third-party programs of their own, with test suites as their
    specification; the bridges only start them. What the bridges rely on is modelled from their source.
  \<^item> Cloning and importing nodes, the initialisation of a document without owner, \<open>lxb_dom_attr_set_name_ns\<close>, the pretty printer.
  \<^item> In the bridge: parsing, CSS declarations, selectors, and the html document struct (body, head).
  \<^item> The Zig and Elixir layers, except for the tree operations of \<open>Qb_Dom\<close>; concurrency is theirs: a native runtime is only
    entered by the thread that owns it, and the C code modelled here takes no locks.
  \<^item> The chunks and free lists of \<^verbatim>\<open>mraw.c\<close> and \<^verbatim>\<open>dobject.c\<close>: seen through their contract (resizing in place or by moving,
    the surplus a block gets, the rest of its chunk a block at the tail keeps when growth is refused); addresses of freed blocks are never
    given out again, so that every later use is an error of the model.
\<close>

section \<open>Properties that span components\<close>

text \<open>
  C7: Text set by a script stays text. After \<open>textContent\<close> of an element has been set successfully, innerHTML
  is the escaped text and nothing else: every callback gets exactly these bytes. The element is any element or fragment of a
  well-formed HTML document with plain descendants, other than the raw text elements and noscript.
\<close>

theorem inner_html_of_text_content:
  assumes "dom_wf h T" and "attrs_wf h M" and "nodes h p = Some n"
    and "n_type n \<in> {LXB_DOM_NODE_TYPE_DOCUMENT_FRAGMENT, LXB_DOM_NODE_TYPE_ELEMENT}"
    and "n_local_name n \<notin> set raw_text_tags \<union> {LXB_TAG_NOSCRIPT}"
    and "doc_for h (n_owner_document n) (n_owner_document n)" and "docs h (n_owner_document n) = Some d" and "doc_interfaces d = Html_interface"
    and "\<forall>b \<in> below T p. plain_node h b" and "length content + 1 < 2 ^ 63"
  shows "\<exists>st h'. lxb_dom_node_text_content_set h p content = Some (st, h') \<and>
     (st = LXB_STATUS_OK \<longrightarrow> emits cb (lxb_html_serialize_deep_cb h' cb p) (escape False content))"
proof -
  from text_content_set_is [OF assms(1-4,6-10)] obtain st h' where
    run: "lxb_dom_node_text_content_set h p content = Some (st, h')" and
    ok: "st = LXB_STATUS_OK \<Longrightarrow> \<exists>a m. nodes h a = None \<and> dom_wf h' ((kids_without (below T p) T)(p := [a])) \<and> chars_at h' a content \<and>
        nodes h' a = Some m \<and> n_type m = LXB_DOM_NODE_TYPE_TEXT \<and> n_local_name m = LXB_TAG__TEXT \<and>
        map_option n_local_name (nodes h' p) = Some (n_local_name n)" by (elim exE conjE) (force split: if_splits)
  have "emits cb (lxb_html_serialize_deep_cb h' cb p) (escape False content)" if "st = LXB_STATUS_OK"
  proof -
    from ok [OF that] obtain a m where a: "nodes h a = None" "dom_wf h' ((kids_without (below T p) T)(p := [a]))" "chars_at h' a content"
      "nodes h' a = Some m" "n_type m = LXB_DOM_NODE_TYPE_TEXT" "n_local_name m = LXB_TAG__TEXT"
      "map_option n_local_name (nodes h' p) = Some (n_local_name n)" by blast
    let ?T = "(kids_without (below T p) T)(p := [a])"
    note F = dom_wf_forest [OF a(2)]
    from a(7) obtain n' where n': "nodes h' p = Some n'" "n_local_name n' = n_local_name n" by auto
    have ap: "a \<noteq> p" using a(1) assms(3) by auto
    have "T a = []" using forest_outside [OF dom_wf_forest [OF assms(1)], of a] a(1) by auto
    then have Ta: "?T a = []" using ap by (simp add: kids_without_def)
    have "?T p = [] @ a # []" by simp
    from forest_position [OF F this] a(4) have "n_parent m = Some p" by (auto simp: sib_Some)
    then have "raw_text h' a = Some False" using a(4) n' assms(5) by (simp add: raw_text_def)
    moreover have "plain_kind h' ?T a LXB_DOM_NODE_TYPE_TEXT"
      using Ta a(4,5,6) by (simp add: plain_kind_def lxb_html_tree_node_is_def LXB_TAG__TEXT_def LXB_TAG_TEMPLATE_def)
    ultimately have "markups_at h' ?T (?T p) [Text False content]" using a(3) by simp
    from deep_emits [OF F [folded forest_def] _ this] n'(1) show ?thesis by auto
  qed
  with run show ?thesis by blast
qed

lemma inner_html_of_text_content_witness:
  "\<exists>st h'. lxb_dom_node_text_content_set (sample_plan (\<lambda>_. Some (0, False))) 3 [0x3C, 0x62, 0x3E] = Some (st, h') \<and>
     (st = LXB_STATUS_OK \<longrightarrow> emits (\<lambda>bs c. Some (LXB_STATUS_OK, c @ bs))
        (lxb_html_serialize_deep_cb h' (\<lambda>bs c. Some (LXB_STATUS_OK, c @ bs)) 3) (ascii ''&lt;b&gt;''))"
proof -
  let ?h = "sample_plan (\<lambda>_. Some (0, False))"
  have n: "nodes ?h 3 = Some (sample_node LXB_DOM_NODE_TYPE_ELEMENT 102 (Some 2) None (Some 6) (Some 4) (Some 5))" by (simp add: sample_nodes_def)
  have pl: "\<forall>b \<in> below sample_kids 3. plain_node ?h b" unfolding sample_below using sample_plain by simp
  have o: "n_owner_document (sample_node LXB_DOM_NODE_TYPE_ELEMENT 102 (Some 2) None (Some 6) (Some 4) (Some 5)) = 1"
    "n_type (sample_node LXB_DOM_NODE_TYPE_ELEMENT 102 (Some 2) None (Some 6) (Some 4) (Some 5)) = LXB_DOM_NODE_TYPE_ELEMENT"
    "n_local_name (sample_node LXB_DOM_NODE_TYPE_ELEMENT 102 (Some 2) None (Some 6) (Some 4) (Some 5)) = 102"
    by (simp_all add: sample_node_def)
  have e: "escape False [0x3C, 0x62, 0x3E] = ascii ''&lt;b&gt;''" by (simp add: entity_def ascii_def)
  show ?thesis
    unfolding e [symmetric]
    by (rule inner_html_of_text_content [OF plan_wf sample_attrs_wf n, unfolded o, OF _ _ sample_doc_for pl])
      (simp_all add: raw_text_tags_def LXB_TAG_NOSCRIPT_def)
qed

end
